(* ===== verification/Prelude.thy ===== *)
theory Prelude
  imports Main "HOL-Library.Word" "HOL-Library.AList" "HOL-Library.Sublist"
begin

text \<open>
  Shared vocabulary of the development: the machine-integer types of the code, the two
  representations of its hash maps, and the generic lemmas the components share.

  A map of the code that is only looked up, inserted into and removed from is a partial
  function \<open>'k \<rightharpoonup> 'v\<close>.  A map that the code also iterates over is an association list with
  distinct keys (\<open>amap\<close>), read with \<open>map_of\<close>, written with \<open>AList.update\<close> and
  \<open>AList.delete\<close>.  The order of the list stands for the order in which the code's map happens to
  iterate: theorems range over all states, hence over every such order, and where the code sorts
  what it collected the order does not show.  \<open>usize\<close> is \<open>nat\<close> (lengths and positions of
  in-memory vectors), every other unsigned integer keeps its width as a word.
\<close>

type_synonym u8 = "8 word"
type_synonym u16 = "16 word"
type_synonym u32 = "32 word"
type_synonym u64 = "64 word"
type_synonym u128 = "128 word"
type_synonym ('k, 'v) amap = "('k \<times> 'v) list"

unbundle bit_operations_syntax

section \<open>Collections of facts\<close>

named_theorems frame_simps \<open>which fields an operation leaves alone\<close>
named_theorems step_defs \<open>the definitions of the operations\<close>
named_theorems law_simps \<open>algebraic laws usable as rewrite rules\<close>

section \<open>Association maps\<close>

definition aget :: "('k, 'v) amap \<Rightarrow> 'k \<Rightarrow> 'v option" where
  "aget m k = map_of m k"

definition aput :: "'k \<Rightarrow> 'v \<Rightarrow> ('k, 'v) amap \<Rightarrow> ('k, 'v) amap" where
  "aput k v m = AList.update k v m"

definition adel :: "'k \<Rightarrow> ('k, 'v) amap \<Rightarrow> ('k, 'v) amap" where
  "adel k m = AList.delete k m"

definition amod :: "'k \<Rightarrow> ('v \<Rightarrow> 'v) \<Rightarrow> ('k, 'v) amap \<Rightarrow> ('k, 'v) amap" where
  "amod k f m = (case map_of m k of None \<Rightarrow> m | Some v \<Rightarrow> AList.update k (f v) m)"

definition awf :: "('k, 'v) amap \<Rightarrow> bool" where
  "awf m \<longleftrightarrow> distinct (map fst m)"

lemma aget_Nil [simp]: "aget [] k = None"
  by (simp add: aget_def)

lemma aget_aput [simp]: "aget (aput k v m) k' = (if k' = k then Some v else aget m k')"
  by (simp add: aget_def aput_def update_conv')

lemma aget_adel [simp]: "aget (adel k m) k' = (if k' = k then None else aget m k')"
  by (simp add: aget_def adel_def delete_conv')

lemma aget_amod [simp]:
  "aget (amod k f m) k' = (if k' = k then map_option f (aget m k) else aget m k')"
  by (simp add: aget_def amod_def update_conv' split: option.split)

lemma awf_Nil [simp]: "awf []"
  by (simp add: awf_def)

lemma awf_aput [simp]: "awf m \<Longrightarrow> awf (aput k v m)"
  by (simp add: awf_def aput_def distinct_update)

lemma awf_adel [simp]: "awf m \<Longrightarrow> awf (adel k m)"
  by (simp add: awf_def adel_def distinct_delete)

lemma awf_amod [simp]: "awf m \<Longrightarrow> awf (amod k f m)"
  by (simp add: awf_def amod_def distinct_update split: option.split)

lemma aget_in_set: "awf m \<Longrightarrow> ((k, v) \<in> set m) = (aget m k = Some v)"
  by (simp add: awf_def aget_def)

lemma aget_SomeD: "aget m k = Some v \<Longrightarrow> (k, v) \<in> set m"
  by (simp add: aget_def map_of_SomeD)

lemma set_adel: "awf m \<Longrightarrow> set (adel k m) = {p \<in> set m. fst p \<noteq> k}"
  by (auto simp: adel_def AList.delete_eq)

lemma aput_absent: "aget m k = None \<Longrightarrow> aput k v m = m @ [(k, v)]"
  by (induction m) (auto simp: aget_def aput_def split: if_splits)

section \<open>Sets the code holds and iterates over in sorted order\<close>

definition sorted_uids :: "u128 set \<Rightarrow> u128 list" where
  "sorted_uids A = sorted_list_of_set A"

lemma set_sorted_uids [simp]: "set (sorted_uids (A :: u128 set)) = A"
  by (simp add: sorted_uids_def)

lemma distinct_sorted_uids [simp]: "distinct (sorted_uids A)"
  by (simp add: sorted_uids_def)

lemma sorted_uids_eval [simp]:
  "sorted_uids {} = []"
  "sorted_uids {a} = [a]"
  by (simp_all add: sorted_uids_def)

lemma sorted_uids_list: "sorted_uids (set xs) = sort (remdups xs)"
  by (simp add: sorted_uids_def sorted_list_of_set_sort_remdups)

section \<open>Removing the first occurrence\<close>

text \<open>\<open>iter().position(|x| *x == v)\<close> followed by \<open>remove(i)\<close>.\<close>

fun position :: "'a \<Rightarrow> 'a list \<Rightarrow> nat option" where
  "position v [] = None"
| "position v (x # xs) = (if x = v then Some 0 else map_option Suc (position v xs))"

definition remove_at :: "nat \<Rightarrow> 'a list \<Rightarrow> 'a list" where
  "remove_at i xs = take i xs @ drop (Suc i) xs"

lemma remove_at_0 [simp]: "remove_at 0 xs = tl xs"
  by (cases xs) (simp_all add: remove_at_def)

lemma remove_at_Suc [simp]: "remove_at (Suc i) (x # xs) = x # remove_at i xs"
  by (simp add: remove_at_def)

lemma length_remove_at [simp]:
  "i < length xs \<Longrightarrow> length (remove_at i xs) = length xs - 1"
  by (simp add: remove_at_def)

lemma position_less: "position v xs = Some i \<Longrightarrow> i < length xs \<and> xs ! i = v"
  by (induction xs arbitrary: i) (auto split: if_splits)

lemma position_None [simp]: "(position v xs = None) = (v \<notin> set xs)"
  by (induction xs) auto

lemma remove_at_position: "position v xs = Some i \<Longrightarrow> remove_at i xs = remove1 v xs"
  by (induction xs arbitrary: i) (auto split: if_splits)

lemma map_remove_at: "map f (remove_at i xs) = remove_at i (map f xs)"
  by (simp add: remove_at_def take_map drop_map)

section \<open>Words\<close>

lemma word_and_subset_trans:
  fixes a b c :: "'a::len word"
  assumes "a AND b = a" "b AND c = b"
  shows "a AND c = a"
  using assms by (metis and.assoc)

lemma word_and_subset_antisym:
  fixes a b :: "'a::len word"
  shows "a AND b = a \<Longrightarrow> b AND a = b \<Longrightarrow> a = b"
  by (metis and.commute)

lemma word_and_max_right [simp]: "(a :: 'a::len word) AND (- 1) = a"
  by simp

lemma word_zero_bits: "((w :: 'a::len word) = 0) = (\<forall>i < LENGTH('a). \<not> bit w i)"
  by (auto simp: bit_eq_iff bit_simps)

lemma word_nonzero_bit: "((w :: 'a::len word) \<noteq> 0) = (\<exists>i < LENGTH('a). bit w i)"
  by (simp add: word_zero_bits)

lemma word_plus_one_less:
  "(w :: 'a::len word) < w + 1" if "unat w + 1 < 2 ^ LENGTH('a)"
  using that by (simp add: word_less_nat_alt unat_word_ariths)

text \<open>\<open>saturating_sub(1)\<close> and \<open>saturating_add(1)\<close>.\<close>

definition sat_dec :: "'a::len word \<Rightarrow> 'a word" where
  "sat_dec w = (if w = 0 then 0 else w - 1)"

definition sat_inc :: "'a::len word \<Rightarrow> 'a word" where
  "sat_inc w = (if w = - 1 then w else w + 1)"

lemma unat_sat_dec: "unat (sat_dec w) = unat w - 1"
  by (simp add: sat_dec_def unat_minus_one)

lemma word_neq_max_Suc: "(w :: 'a::len word) \<noteq> - 1 \<Longrightarrow> unat (w + 1) = Suc (unat w)"
proof -
  assume "w \<noteq> - 1"
  then have "1 + w \<noteq> 0" by (metis add.inverse_inverse add_eq_0_iff)
  then show ?thesis by (simp add: unatSuc add.commute)
qed

lemma unat_sat_inc: "unat (sat_inc w) = (if w = - 1 then unat w else Suc (unat w))"
  by (simp add: sat_inc_def word_neq_max_Suc)

lemma sat_inc_mono: "w \<le> sat_inc w"
  by (simp add: word_le_nat_alt unat_sat_inc)

text \<open>\<open>saturating_sub\<close>.\<close>

definition sat_sub :: "'a::len word \<Rightarrow> 'a word \<Rightarrow> 'a word" where
  "sat_sub a b = (if a \<le> b then 0 else a - b)"

lemma unat_sat_sub: "unat (sat_sub a b) = unat a - unat b"
  by (auto simp: sat_sub_def word_le_nat_alt unat_sub not_le)

lemma sat_sub_exceeds: "t < sat_sub a b \<longleftrightarrow> unat b + unat t < unat a"
  by (auto simp: word_less_nat_alt unat_sat_sub)

section \<open>Iterator reductions\<close>

text \<open>\<open>min_by_key\<close> returns the first of the minimal elements, \<open>max\<close> the greatest.\<close>

fun min_by_key :: "('a \<Rightarrow> 'k::linorder) \<Rightarrow> 'a list \<Rightarrow> 'a option" where
  "min_by_key f [] = None"
| "min_by_key f (x # xs) = (case min_by_key f xs of
      None \<Rightarrow> Some x
    | Some y \<Rightarrow> if f x \<le> f y then Some x else Some y)"

lemma min_by_key_None [simp]: "min_by_key f xs = None \<longleftrightarrow> xs = []"
  by (cases xs) (auto split: option.splits)

lemma min_by_key_SomeD:
  "min_by_key f xs = Some y \<Longrightarrow> y \<in> set xs \<and> (\<forall>x \<in> set xs. f y \<le> f x)"
  by (induction xs arbitrary: y) (fastforce split: option.splits if_splits)+

definition iter_max :: "'a::linorder list \<Rightarrow> 'a option" where
  "iter_max xs = (case xs of [] \<Rightarrow> None | x # ys \<Rightarrow> Some (fold max ys x))"

lemma fold_max_bound: "(x :: 'a::linorder) \<le> fold max ys x \<and> (\<forall>y \<in> set ys. y \<le> fold max ys x)"
  by (induction ys arbitrary: x) (auto intro: order_trans[OF max.cobounded1] order_trans[OF max.cobounded2])

lemma fold_max_in: "fold max ys (x :: 'a::linorder) \<in> insert x (set ys)"
  by (induction ys arbitrary: x) (auto simp: max_def split: if_splits)

lemma iter_max_None [simp]: "iter_max xs = None \<longleftrightarrow> xs = []"
  by (simp add: iter_max_def split: list.split)

lemma iter_max_SomeD: "iter_max xs = Some m \<Longrightarrow> m \<in> set xs \<and> (\<forall>x \<in> set xs. x \<le> m)"
  by (cases xs) (use fold_max_bound fold_max_in in \<open>fastforce simp: iter_max_def\<close>)+

end
