(* ===== verification/Ternary.thy ===== *)
theory Ternary
  imports Prelude
begin

text \<open>
  The ternary truth domain of \<^verbatim>\<open>core-rs/src/ternary.rs\<close>: the type \<open>T\<close>, its MV-algebra and
  lattice operations, the Bochvar (Zero-infectious) variants, and the folds over dependency
  lists with their arity fast paths.  The locale \<open>mv_algebra\<close> states the laws the e-graph
  rewrite rules and the propagation engine rely on, the locale \<open>fold_aggregate\<close> the contract
  that makes an arity fast path equal to the fold it short-cuts.
\<close>

section \<open>The domain\<close>

datatype T = Neg | Pos | Zero

text \<open>\<open>repr(u8)\<close>: Neg is 0, Pos is 1, Zero is 2.\<close>

definition repr_u8 :: "T \<Rightarrow> u8" where
  "repr_u8 t = (case t of Neg \<Rightarrow> 0 | Pos \<Rightarrow> 1 | Zero \<Rightarrow> 2)"

text \<open>The chain order \<open>Neg < Zero < Pos\<close> under which \<open>meet\<close> is min and \<open>join\<close> is max.\<close>

fun t_rank :: "T \<Rightarrow> int" where
  "t_rank Neg = -1"
| "t_rank Zero = 0"
| "t_rank Pos = 1"

lemma t_rank_inj: "(t_rank a = t_rank b) = (a = b)"
  by (cases a; cases b) simp_all

instantiation T :: linorder
begin

definition less_eq_T :: "T \<Rightarrow> T \<Rightarrow> bool" where
  "less_eq_T a b = (t_rank a \<le> t_rank b)"

definition less_T :: "T \<Rightarrow> T \<Rightarrow> bool" where
  "less_T a b = (t_rank a < t_rank b)"

instance
  by standard (auto simp: less_eq_T_def less_T_def t_rank_inj[symmetric])

end

lemma T_order_simps [simp]:
  "Neg \<le> a" "a \<le> Pos" "Zero \<le> Pos" "\<not> Pos \<le> Zero" "\<not> Zero \<le> Neg" "\<not> Pos \<le> Neg"
  "Neg < Zero" "Neg < Pos" "Zero < Pos"
  by (cases a; simp add: less_eq_T_def less_T_def)+

section \<open>MV-algebra operations\<close>

definition mv_neg :: "T \<Rightarrow> T" where
  "mv_neg x = (case x of Neg \<Rightarrow> Pos | Zero \<Rightarrow> Zero | Pos \<Rightarrow> Neg)"

fun mv_add :: "T \<Rightarrow> T \<Rightarrow> T" where
  "mv_add Neg Neg = Neg"
| "mv_add Neg Zero = Zero"
| "mv_add Neg Pos = Pos"
| "mv_add Zero Neg = Zero"
| "mv_add Zero Zero = Pos"
| "mv_add Zero Pos = Pos"
| "mv_add Pos Neg = Pos"
| "mv_add Pos Zero = Pos"
| "mv_add Pos Pos = Pos"

fun mv_mul :: "T \<Rightarrow> T \<Rightarrow> T" where
  "mv_mul Pos Pos = Pos"
| "mv_mul Pos Zero = Zero"
| "mv_mul Pos Neg = Neg"
| "mv_mul Zero Pos = Zero"
| "mv_mul Zero Zero = Neg"
| "mv_mul Zero Neg = Neg"
| "mv_mul Neg Pos = Neg"
| "mv_mul Neg Zero = Neg"
| "mv_mul Neg Neg = Neg"

definition mv_sub :: "T \<Rightarrow> T \<Rightarrow> T" where
  "mv_sub x y = mv_neg (mv_add (mv_neg x) y)"

definition mv_impl :: "T \<Rightarrow> T \<Rightarrow> T" where
  "mv_impl x y = mv_add (mv_neg x) y"

section \<open>Lattice operations, median and merge\<close>

definition meet :: "T \<Rightarrow> T \<Rightarrow> T" where
  "meet x y = (if x = Neg \<or> y = Neg then Neg else if x = Zero \<or> y = Zero then Zero else Pos)"

definition join :: "T \<Rightarrow> T \<Rightarrow> T" where
  "join x y = (if x = Pos \<or> y = Pos then Pos else if x = Zero \<or> y = Zero then Zero else Neg)"

definition median :: "T \<Rightarrow> T \<Rightarrow> T \<Rightarrow> T" where
  "median a b c = join (meet a b) (join (meet b c) (meet a c))"

definition merge :: "T \<Rightarrow> T \<Rightarrow> T \<Rightarrow> T" where
  "merge base left right = median base left right"

section \<open>Bochvar operations\<close>

definition bochvar_add :: "T \<Rightarrow> T \<Rightarrow> T" where
  "bochvar_add x y = (if x = Zero \<or> y = Zero then Zero else mv_add x y)"

definition bochvar_mul :: "T \<Rightarrow> T \<Rightarrow> T" where
  "bochvar_mul x y = (if x = Zero \<or> y = Zero then Zero else mv_mul x y)"

definition bochvar_meet :: "T \<Rightarrow> T \<Rightarrow> T" where
  "bochvar_meet x y = (if x = Zero \<or> y = Zero then Zero else meet x y)"

definition is_ready :: "T \<Rightarrow> bool" where
  "is_ready x = (x = Pos)"

definition is_conflicted :: "T \<Rightarrow> bool" where
  "is_conflicted x = (x = Zero)"

definition is_pending :: "T \<Rightarrow> bool" where
  "is_pending x = (x = Neg)"

section \<open>Folds over dependency values, with the arity fast paths\<close>

fun bochvar_fold_add :: "T list \<Rightarrow> T" where
  "bochvar_fold_add [] = Neg"
| "bochvar_fold_add [a] = a"
| "bochvar_fold_add [a, b] = bochvar_add a b"
| "bochvar_fold_add [a, b, c] = bochvar_add (bochvar_add a b) c"
| "bochvar_fold_add vals = foldl bochvar_add Neg vals"

fun meet_all :: "T list \<Rightarrow> T" where
  "meet_all [] = Pos"
| "meet_all [a] = a"
| "meet_all [a, b] = meet a b"
| "meet_all [a, b, c] = meet (meet a b) c"
| "meet_all vals = foldl meet Pos vals"

fun join_any :: "T list \<Rightarrow> T" where
  "join_any [] = Neg"
| "join_any [a] = a"
| "join_any [a, b] = join a b"
| "join_any [a, b, c] = join (join a b) c"
| "join_any vals = foldl join Neg vals"

datatype prop_state = Ready | Pending | Conflicted

text \<open>
  The single pass for three and more dependencies: \<open>n_pos\<close> is a \<open>u32\<close> counter, the early
  exit on \<open>Zero\<close> is the \<open>None\<close> of the scan.
\<close>

fun count_pos :: "u32 \<Rightarrow> T list \<Rightarrow> u32 option" where
  "count_pos n [] = Some n"
| "count_pos n (Zero # vs) = None"
| "count_pos n (Pos # vs) = count_pos (n + 1) vs"
| "count_pos n (Neg # vs) = count_pos n vs"

fun propagation_state :: "T list \<Rightarrow> prop_state" where
  "propagation_state [] = Ready"
| "propagation_state [a] =
     (case a of Zero \<Rightarrow> Conflicted | Pos \<Rightarrow> Ready | Neg \<Rightarrow> Pending)"
| "propagation_state [a, b] =
     (if a = Zero \<or> b = Zero then Conflicted
      else if a = Pos \<and> b = Pos then Ready else Pending)"
| "propagation_state vals =
     (case count_pos 0 vals of
        None \<Rightarrow> Conflicted
      | Some n \<Rightarrow> if unat n = length vals then Ready else Pending)"

section \<open>The MV-algebra contract\<close>

text \<open>
  Chang's axioms for \<open>(T, mv_add, mv_neg, Neg)\<close>, and what follows from them for the derived
  product, difference and the rewrite rules of the stabilizer.
\<close>

locale mv_algebra =
  fixes neg :: "'a \<Rightarrow> 'a" and add :: "'a \<Rightarrow> 'a \<Rightarrow> 'a" and bot :: "'a"
  assumes add_assoc: "add (add a b) c = add a (add b c)"
    and add_comm: "add a b = add b a"
    and add_bot: "add a bot = a"
    and neg_neg: "neg (neg a) = a"
    and add_top: "add a (neg bot) = neg bot"
    and luk: "add (neg (add (neg a) b)) b = add (neg (add (neg b) a)) a"
begin

lemma bot_add: "add bot a = a"
  using add_comm add_bot by metis

lemma neg_inj: "(neg a = neg b) = (a = b)"
  by (metis neg_neg)

lemma annihilator: "add a (neg a) = neg bot"
proof -
  have "add (neg (add (neg a) (neg bot))) (neg bot) = add (neg (add (neg (neg bot)) a)) a"
    by (rule luk)
  then show ?thesis
    by (simp add: add_top neg_neg bot_add add_comm[of a])
qed

lemma difference_self: "neg (add (neg a) a) = bot"
  using annihilator[of a] by (simp add: add_comm[of "neg a" a] neg_neg)

lemma product_unit: "neg (add (neg a) (neg (neg bot))) = a"
  by (simp add: neg_neg add_bot)

lemma de_morgan: "neg (add a b) = neg (add (neg (neg a)) (neg (neg b)))"
  by (simp add: neg_neg)

lemma residuation:
  "(neg (add (neg a) b) = bot) \<Longrightarrow> (neg (add (neg b) c) = bot) \<Longrightarrow> neg (add (neg a) c) = bot"
proof -
  assume ab: "neg (add (neg a) b) = bot" and bc: "neg (add (neg b) c) = bot"
  have b: "b = add (neg (add (neg b) a)) a"
    using luk[of a b] ab by (simp add: bot_add)
  have c: "c = add (neg (add (neg c) b)) b"
    using luk[of b c] bc by (simp add: bot_add)
  have "add (neg a) c = add (neg (add (neg c) b)) (add (neg a) b)"
    using c add_assoc add_comm by metis
  also have "\<dots> = neg bot"
    using ab add_top by (metis neg_neg)
  finally show ?thesis by (simp add: neg_neg)
qed

end

lemma mv_neg_simps [simp]:
  "mv_neg Neg = Pos" "mv_neg Zero = Zero" "mv_neg Pos = Neg"
  by (simp_all add: mv_neg_def)

interpretation t_mv: mv_algebra mv_neg mv_add Neg
proof unfold_locales
  fix a b c
  show "mv_add (mv_add a b) c = mv_add a (mv_add b c)"
    by (cases a; cases b; cases c) simp_all
  show "mv_add a b = mv_add b a"
    by (cases a; cases b) simp_all
  show "mv_add a Neg = a" and "mv_neg (mv_neg a) = a" and "mv_add a (mv_neg Neg) = mv_neg Neg"
    by (cases a; simp)+
  show "mv_add (mv_neg (mv_add (mv_neg a) b)) b = mv_add (mv_neg (mv_add (mv_neg b) a)) a"
    by (cases a; cases b) simp_all
qed

lemma mv_mul_as_neg_add: "mv_mul x y = mv_neg (mv_add (mv_neg x) (mv_neg y))"
  by (cases x; cases y) simp_all

lemma mv_arith:
  "t_rank (mv_neg x) = - t_rank x"
  "t_rank (mv_add x y) = min 1 (t_rank x + t_rank y + 1)"
  "t_rank (mv_mul x y) = max (-1) (t_rank x + t_rank y - 1)"
  by (cases x; cases y; simp)+

lemma meet_min: "meet x y = min x y" and join_max: "join x y = max x y"
  by (cases x; cases y; simp add: meet_def join_def min_def max_def less_eq_T_def)+

lemma meet_simps [law_simps]: "meet Pos x = x" "meet x Pos = x" "meet Neg x = Neg" "meet x Neg = Neg"
  by (cases x; simp add: meet_def)+

lemma join_simps [law_simps]: "join Neg x = x" "join x Neg = x" "join Pos x = Pos" "join x Pos = Pos"
  by (cases x; simp add: join_def)+

lemma bochvar_simps [law_simps]:
  "bochvar_add Zero x = Zero" "bochvar_add x Zero = Zero" "bochvar_add Neg x = x" "bochvar_add x Neg = x"
  by (cases x; simp add: bochvar_add_def)+

text \<open>
  \<open>T\<close> with \<open>mv_add\<close>, \<open>mv_neg\<close> and bottom \<open>Neg\<close> is the three-element MV-algebra: the laws the
  stabilizer's rewrite rules are built from (involution, fixed point at \<open>Zero\<close>, commutativity,
  associativity, units, annihilator, De Morgan, \<open>x \<ominus> x = Neg\<close>), each operation being the clipped
  integer arithmetic on \<open>{-1, 0, 1}\<close> its documentation gives.
\<close>

theorem mv_laws:
  "mv_neg (mv_neg x) = x \<and> mv_neg Zero = Zero
   \<and> mv_add x y = mv_add y x \<and> mv_add (mv_add x y) z = mv_add x (mv_add y z)
   \<and> mv_add Neg x = x \<and> mv_add x (mv_neg x) = Pos
   \<and> mv_mul x y = mv_mul y x \<and> mv_mul Pos x = x
   \<and> mv_neg (mv_add x y) = mv_mul (mv_neg x) (mv_neg y)
   \<and> mv_sub x x = Neg \<and> mv_impl x y = mv_neg (mv_sub x y)
   \<and> t_rank (mv_add x y) = min 1 (t_rank x + t_rank y + 1)
   \<and> t_rank (mv_mul x y) = max (-1) (t_rank x + t_rank y - 1)
   \<and> t_rank (mv_sub x y) = max (-1) (t_rank x - t_rank y - 1)"
proof (intro conjI)
  show "mv_neg (mv_neg x) = x" by (rule t_mv.neg_neg)
  show "mv_add x y = mv_add y x" by (rule t_mv.add_comm)
  show "mv_add (mv_add x y) z = mv_add x (mv_add y z)" by (rule t_mv.add_assoc)
  show "mv_add x (mv_neg x) = Pos" using t_mv.annihilator[of x] by simp
  show "mv_mul x y = mv_mul y x" by (simp add: mv_mul_as_neg_add t_mv.add_comm)
  show "mv_mul Pos x = x" by (simp add: mv_mul_as_neg_add t_mv.bot_add t_mv.neg_neg)
  show "mv_neg (mv_add x y) = mv_mul (mv_neg x) (mv_neg y)"
    by (simp add: mv_mul_as_neg_add t_mv.neg_neg)
  show "mv_sub x x = Neg" using t_mv.difference_self[of x] by (simp add: mv_sub_def)
  show "mv_impl x y = mv_neg (mv_sub x y)" by (simp add: mv_impl_def mv_sub_def t_mv.neg_neg)
  show "t_rank (mv_add x y) = min 1 (t_rank x + t_rank y + 1)"
    and "t_rank (mv_mul x y) = max (-1) (t_rank x + t_rank y - 1)"
    by (rule mv_arith)+
  show "t_rank (mv_sub x y) = max (-1) (t_rank x - t_rank y - 1)"
    unfolding mv_sub_def mv_arith by linarith
qed (simp_all add: t_mv.bot_add)

section \<open>Fast paths against the folds\<close>

locale fold_aggregate =
  fixes f :: "'a \<Rightarrow> 'a \<Rightarrow> 'a" and e :: 'a
  assumes unit: "f e x = x"
begin

lemma fold1: "foldl f e [a] = a"
  by (simp add: unit)

lemma fold2: "foldl f e [a, b] = f a b"
  by (simp add: unit)

lemma fold3: "foldl f e [a, b, c] = f (f a b) c"
  by (simp add: unit)

end

locale fold_idem = fold_aggregate +
  assumes assoc: "f (f x y) z = f x (f y z)" and comm: "f x y = f y x"
begin

lemma foldl_acc: "foldl f x xs = f x (foldl f e xs)"
proof (induction xs arbitrary: x)
  case Nil
  then show ?case by (simp add: unit comm[of x e])
next
  case (Cons y ys)
  from Cons[of "f x y"] Cons[of y] show ?case by (simp add: assoc unit)
qed

lemma foldl_Cons: "foldl f e (x # xs) = f x (foldl f e xs)"
  using foldl_acc[of x xs] by (simp add: unit)

lemma foldl_append: "foldl f e (xs @ ys) = f (foldl f e xs) (foldl f e ys)"
  by (simp add: foldl_acc[of "foldl f e xs"])

end

interpretation meet_fold: fold_idem meet Pos
proof unfold_locales
  fix x y z
  show "meet Pos x = x" by (simp add: law_simps)
  show "meet (meet x y) z = meet x (meet y z)"
    by (cases x; cases y; cases z) (simp_all add: meet_def)
  show "meet x y = meet y x"
    by (cases x; cases y) (simp_all add: meet_def)
qed

interpretation join_fold: fold_idem join Neg
proof unfold_locales
  fix x y z
  show "join Neg x = x" by (simp add: law_simps)
  show "join (join x y) z = join x (join y z)"
    by (cases x; cases y; cases z) (simp_all add: join_def)
  show "join x y = join y x"
    by (cases x; cases y) (simp_all add: join_def)
qed

interpretation bochvar_fold: fold_idem bochvar_add Neg
proof unfold_locales
  fix x y z
  show "bochvar_add Neg x = x" by (simp add: law_simps)
  show "bochvar_add (bochvar_add x y) z = bochvar_add x (bochvar_add y z)"
    by (cases x; cases y; cases z) (simp_all add: bochvar_add_def)
  show "bochvar_add x y = bochvar_add y x"
    by (cases x; cases y) (simp_all add: bochvar_add_def)
qed

lemma meet_all_foldl: "meet_all vs = foldl meet Pos vs"
  by (cases vs rule: meet_all.cases) (simp_all add: law_simps)

lemma join_any_foldl: "join_any vs = foldl join Neg vs"
  by (cases vs rule: join_any.cases) (simp_all add: law_simps)

lemma bochvar_fold_add_foldl: "bochvar_fold_add vs = foldl bochvar_add Neg vs"
  by (cases vs rule: bochvar_fold_add.cases) (simp_all add: law_simps)

lemma meet_all_mem: "meet_all vs = (if Neg \<in> set vs then Neg else if Zero \<in> set vs then Zero else Pos)"
  unfolding meet_all_foldl
proof (induction vs)
  case (Cons v vs)
  then show ?case
    by (cases v) (simp_all only: meet_fold.foldl_Cons, auto simp: meet_def)
qed simp

lemma join_any_mem: "join_any vs = (if Pos \<in> set vs then Pos else if Zero \<in> set vs then Zero else Neg)"
  unfolding join_any_foldl
proof (induction vs)
  case (Cons v vs)
  then show ?case
    by (cases v) (simp_all only: join_fold.foldl_Cons, auto simp: join_def)
qed simp

lemma bochvar_fold_add_mem:
  "bochvar_fold_add vs = (if Zero \<in> set vs then Zero else if Pos \<in> set vs then Pos else Neg)"
  unfolding bochvar_fold_add_foldl
proof (induction vs)
  case (Cons v vs)
  then show ?case
    by (cases v) (simp_all only: bochvar_fold.foldl_Cons, auto simp: bochvar_add_def)
qed simp

text \<open>
  The dependency folds: the 0/1/2/3-argument fast paths agree with the general fold, and
  each fold is decided by which values occur: \<open>meet_all\<close> is the minimum, \<open>join_any\<close> the maximum
  of the chain \<open>Neg < Zero < Pos\<close>, and one \<open>Zero\<close> anywhere infects the Bochvar fold.
\<close>

theorem dep_folds:
  "meet_all vs = foldl meet Pos vs \<and> join_any vs = foldl join Neg vs
   \<and> bochvar_fold_add vs = foldl bochvar_add Neg vs
   \<and> meet_all vs = Min (insert Pos (set vs)) \<and> join_any vs = Max (insert Neg (set vs))
   \<and> bochvar_fold_add vs = (if Zero \<in> set vs then Zero else join_any vs)"
proof (intro conjI)
  show "meet_all vs = Min (insert Pos (set vs))"
    unfolding meet_all_foldl
  proof (induction vs)
    case (Cons v vs)
    then show ?case by (simp only: meet_fold.foldl_Cons) (simp add: meet_min insert_commute[of Pos])
  qed simp
  show "join_any vs = Max (insert Neg (set vs))"
    unfolding join_any_foldl
  proof (induction vs)
    case (Cons v vs)
    then show ?case by (simp only: join_fold.foldl_Cons) (simp add: join_max insert_commute[of Neg])
  qed simp
qed (simp_all add: meet_all_foldl join_any_foldl bochvar_fold_add_foldl
      bochvar_fold_add_mem[unfolded bochvar_fold_add_foldl] join_any_mem[unfolded join_any_foldl])

section \<open>The propagation state\<close>

lemma count_pos_None: "(count_pos n vs = None) = (Zero \<in> set vs)"
  by (induction n vs rule: count_pos.induct) auto

lemma count_pos_Some: "count_pos n vs = Some m \<Longrightarrow> m = n + of_nat (count_list vs Pos)"
  by (induction n vs arbitrary: m rule: count_pos.induct) auto

lemma count_list_full: "(count_list vs v = length vs) = (\<forall>x \<in> set vs. x = v)"
proof (induction vs)
  case (Cons x vs)
  have "count_list vs v \<le> length vs" by (rule count_le_length)
  with Cons show ?case by auto
qed simp

lemma propagation_state_scan:
  assumes "length vs < 2 ^ 32"
  shows "propagation_state vs =
    (if Zero \<in> set vs then Conflicted else if Neg \<in> set vs then Pending else Ready)"
proof -
  have scan: "(case count_pos 0 vs of None \<Rightarrow> Conflicted
      | Some n \<Rightarrow> if unat n = length vs then Ready else Pending) =
    (if Zero \<in> set vs then Conflicted else if Neg \<in> set vs then Pending else Ready)"
  proof (cases "count_pos 0 vs")
    case None
    then show ?thesis using count_pos_None[of 0 vs] by simp
  next
    case (Some m)
    then have nz: "Zero \<notin> set vs" using count_pos_None[of 0 vs] by simp
    have "count_list vs Pos < 2 ^ 32"
      using assms count_le_length[of vs Pos] by linarith
    then have "unat m = count_list vs Pos"
      using count_pos_Some[OF Some] by (simp add: unat_of_nat)
    moreover have "(\<forall>x \<in> set vs. x = Pos) = (Neg \<notin> set vs)"
      using nz by (metis T.exhaust T.distinct(1))
    ultimately show ?thesis
      using Some nz count_list_full[of vs Pos] by simp
  qed
  show ?thesis
  proof (cases vs rule: propagation_state.cases)
    case (2 a)
    then show ?thesis by (cases a) auto
  next
    case (3 a b)
    then show ?thesis by (cases a; cases b) auto
  next
    case (4 v vb vc vd)
    then have "propagation_state vs = (case count_pos 0 vs of None \<Rightarrow> Conflicted
        | Some n \<Rightarrow> if unat n = length vs then Ready else Pending)"
      by (simp only: propagation_state.simps)
    then show ?thesis using scan by (simp only:)
  qed simp
qed

text \<open>
  \<open>propagation_state\<close> on every arity (up to the width of its \<open>u32\<close> counter) answers
  \<open>Conflicted\<close> when some dependency is \<open>Zero\<close>, else \<open>Ready\<close> exactly when all are \<open>Pos\<close>, else
  \<open>Pending\<close>; and when it answers \<open>Ready\<close> or \<open>Conflicted\<close> the meet and the Bochvar fold agree with it.
\<close>

theorem propagation_state_correct:
  assumes "length vs < 2 ^ 32"
  shows "(propagation_state vs = Conflicted) = (\<exists>v \<in> set vs. is_conflicted v)
    \<and> (propagation_state vs = Ready) = (\<forall>v \<in> set vs. is_ready v)
    \<and> (propagation_state vs = Pending) =
        ((\<exists>v \<in> set vs. is_pending v) \<and> \<not> (\<exists>v \<in> set vs. is_conflicted v))
    \<and> (propagation_state vs = Ready \<longrightarrow> meet_all vs = Pos)
    \<and> (propagation_state vs = Conflicted \<longrightarrow> bochvar_fold_add vs = Zero)"
proof -
  have all_pos: "(\<forall>v \<in> set vs. v = Pos) = (Zero \<notin> set vs \<and> Neg \<notin> set vs)"
    using T.exhaust by blast
  show ?thesis
    unfolding propagation_state_scan[OF assms] is_conflicted_def is_ready_def is_pending_def
      meet_all_mem bochvar_fold_add_mem all_pos
    by auto
qed

theorem propagation_state_correct_witness:
  "length [Pos, Neg, Pos, Zero] < 2 ^ 32 \<and> propagation_state [Pos, Neg, Pos, Zero] = Conflicted"
  using propagation_state_correct[of "[Pos, Neg, Pos, Zero]"] by (simp add: is_conflicted_def)

text \<open>
  \<open>merge\<close> is the median of its three arguments: the middle one in chain order.  It is
  symmetric in the branches and returns what both branches agree on.
\<close>

theorem merge_is_median:
  "merge base l r = sort [base, l, r] ! 1 \<and> merge base l r = merge base r l
   \<and> merge base l l = l"
  by (cases base; cases l; cases r) (simp_all add: merge_def median_def meet_def join_def)

end
