(* ===== verification/Prod_Time.thy ===== *)
theory Prod_Time
  imports Prelude
begin

text \<open>
  The five-dimensional causal clock of \<^verbatim>\<open>core-rs/src/time.rs\<close>: time dimensions and their
  bitmask sets, \<open>ProductTime\<close> with its component-wise order, event stamps, the \<open>Frontier\<close>
  antichain and the per-partition \<open>VectorClock\<close>.  The locale \<open>causal_order\<close> is the contract of
  the timestamp order under which a frontier is a faithful finite presentation of a
  downward-closed set of times.
\<close>

section \<open>Time dimensions and their bitmask sets\<close>

datatype time_dim = Identity | Attribute | Dependency | Egraph | Boundary

fun dim_index :: "time_dim \<Rightarrow> nat" where
  "dim_index Identity = 0"
| "dim_index Attribute = 1"
| "dim_index Dependency = 2"
| "dim_index Egraph = 3"
| "dim_index Boundary = 4"

type_synonym time_dim_set = u8

definition DIMS_NONE :: time_dim_set where "DIMS_NONE = 0"
definition DIMS_IDENTITY :: time_dim_set where "DIMS_IDENTITY = 1"
definition DIMS_ATTRIBUTE :: time_dim_set where "DIMS_ATTRIBUTE = 2"
definition DIMS_DEPENDENCY :: time_dim_set where "DIMS_DEPENDENCY = 4"
definition DIMS_EGRAPH :: time_dim_set where "DIMS_EGRAPH = 8"
definition DIMS_BOUNDARY :: time_dim_set where "DIMS_BOUNDARY = 16"
definition DIMS_ALL :: time_dim_set where "DIMS_ALL = 31"

lemmas dims_consts = DIMS_NONE_def DIMS_IDENTITY_def DIMS_ATTRIBUTE_def DIMS_DEPENDENCY_def
  DIMS_EGRAPH_def DIMS_BOUNDARY_def DIMS_ALL_def

definition dims_contains :: "time_dim_set \<Rightarrow> time_dim \<Rightarrow> bool" where
  "dims_contains s d = (drop_bit (dim_index d) s AND 1 = 1)"

definition dims_intersects :: "time_dim_set \<Rightarrow> time_dim_set \<Rightarrow> bool" where
  "dims_intersects a b = (a AND b \<noteq> 0)"

definition dims_union :: "time_dim_set \<Rightarrow> time_dim_set \<Rightarrow> time_dim_set" where
  "dims_union a b = a OR b"

definition dims_insert :: "time_dim_set \<Rightarrow> time_dim \<Rightarrow> time_dim_set" where
  "dims_insert s d = s OR push_bit (dim_index d) 1"

definition dims_is_empty :: "time_dim_set \<Rightarrow> bool" where
  "dims_is_empty s = (s = 0)"

lemma dim_index_less: "dim_index d < 8"
  by (cases d) simp_all

lemma dim_index_inj: "(dim_index a = dim_index b) = (a = b)"
  by (cases a; cases b) simp_all

lemma dims_contains_bit: "dims_contains s d = bit s (dim_index d)"
  by (simp add: dims_contains_def bit_iff_and_drop_bit_eq_1)

lemma dims_contains_insert [simp]:
  "dims_contains (dims_insert s d) e = (d = e \<or> dims_contains s e)"
  using dim_index_less[of e]
  by (auto simp: dims_contains_bit dims_insert_def bit_simps dim_index_inj bit_1_iff)

lemma dims_contains_union [simp]:
  "dims_contains (dims_union a b) d = (dims_contains a d \<or> dims_contains b d)"
  by (simp add: dims_contains_bit dims_union_def bit_or_iff)

lemma dims_contains_all [simp]: "dims_contains DIMS_ALL d"
  by (cases d) (simp_all add: dims_contains_bit DIMS_ALL_def)

lemma dims_intersectsI: "dims_contains a d \<Longrightarrow> dims_contains b d \<Longrightarrow> dims_intersects a b"
  using dim_index_less[of d] by (auto simp: dims_intersects_def dims_contains_bit bit_eq_iff bit_and_iff)

section \<open>Product timestamps\<close>

record product_time =
  identity :: u64
  attribute :: u64
  dependency :: u64
  egraph :: u64
  boundary :: u64

definition TIME_ZERO :: product_time where
  "TIME_ZERO = \<lparr>identity = 0, attribute = 0, dependency = 0, egraph = 0, boundary = 0\<rparr>"

definition time_dominates :: "product_time \<Rightarrow> product_time \<Rightarrow> bool" where
  "time_dominates a b \<longleftrightarrow> identity b \<le> identity a \<and> attribute b \<le> attribute a
     \<and> dependency b \<le> dependency a \<and> egraph b \<le> egraph a \<and> boundary b \<le> boundary a"

definition time_meet :: "product_time \<Rightarrow> product_time \<Rightarrow> product_time" where
  "time_meet a b = \<lparr>identity = min (identity a) (identity b),
     attribute = min (attribute a) (attribute b), dependency = min (dependency a) (dependency b),
     egraph = min (egraph a) (egraph b), boundary = min (boundary a) (boundary b)\<rparr>"

definition time_join :: "product_time \<Rightarrow> product_time \<Rightarrow> product_time" where
  "time_join a b = \<lparr>identity = max (identity a) (identity b),
     attribute = max (attribute a) (attribute b), dependency = max (dependency a) (dependency b),
     egraph = max (egraph a) (egraph b), boundary = max (boundary a) (boundary b)\<rparr>"

fun time_advance :: "product_time \<Rightarrow> time_dim \<Rightarrow> product_time" where
  "time_advance t Identity = t\<lparr>identity := identity t + 1\<rparr>"
| "time_advance t Attribute = t\<lparr>attribute := attribute t + 1\<rparr>"
| "time_advance t Dependency = t\<lparr>dependency := dependency t + 1\<rparr>"
| "time_advance t Egraph = t\<lparr>egraph := egraph t + 1\<rparr>"
| "time_advance t Boundary = t\<lparr>boundary := boundary t + 1\<rparr>"

fun time_get :: "product_time \<Rightarrow> time_dim \<Rightarrow> u64" where
  "time_get t Identity = identity t"
| "time_get t Attribute = attribute t"
| "time_get t Dependency = dependency t"
| "time_get t Egraph = egraph t"
| "time_get t Boundary = boundary t"

lemma time_eqI: "(\<And>d. time_get a d = time_get b d) \<Longrightarrow> a = b"
proof -
  assume eq: "\<And>d. time_get a d = time_get b d"
  show "a = b"
    using eq[of Identity] eq[of Attribute] eq[of Dependency] eq[of Egraph] eq[of Boundary]
    by (cases a; cases b) simp
qed

lemma time_dominates_get: "time_dominates a b = (\<forall>d. time_get b d \<le> time_get a d)"
proof
  assume h: "time_dominates a b"
  show "\<forall>d. time_get b d \<le> time_get a d"
  proof
    fix d
    show "time_get b d \<le> time_get a d"
      using h by (cases d) (simp_all add: time_dominates_def)
  qed
next
  assume h: "\<forall>d. time_get b d \<le> time_get a d"
  then show "time_dominates a b"
    using h[rule_format, of Identity] h[rule_format, of Attribute] h[rule_format, of Dependency]
      h[rule_format, of Egraph] h[rule_format, of Boundary]
    by (simp add: time_dominates_def)
qed

lemma time_get_meet [simp]: "time_get (time_meet a b) d = min (time_get a d) (time_get b d)"
  by (cases d) (simp_all add: time_meet_def)

lemma time_get_join [simp]: "time_get (time_join a b) d = max (time_get a d) (time_get b d)"
  by (cases d) (simp_all add: time_join_def)

lemma time_get_advance [simp]:
  "time_get (time_advance t d) e = (if e = d then time_get t d + 1 else time_get t e)"
  by (cases d; cases e) simp_all

lemma time_get_zero [simp]: "time_get TIME_ZERO d = 0"
  by (cases d) (simp_all add: TIME_ZERO_def)

section \<open>The contract of the timestamp order\<close>

definition antichain_insert :: "('t \<Rightarrow> 't \<Rightarrow> bool) \<Rightarrow> 't \<Rightarrow> 't list \<Rightarrow> 't list" where
  "antichain_insert dm t f =
     (if list_ex (\<lambda>x. dm x t) f then f else filter (\<lambda>x. \<not> dm t x) f @ [t])"

definition antichain :: "('t \<Rightarrow> 't \<Rightarrow> bool) \<Rightarrow> 't list \<Rightarrow> bool" where
  "antichain dm f \<longleftrightarrow> distinct f \<and> (\<forall>x \<in> set f. \<forall>y \<in> set f. dm x y \<longrightarrow> x = y)"

locale causal_order =
  fixes dm :: "'t \<Rightarrow> 't \<Rightarrow> bool"
  assumes refl: "dm a a"
    and trans: "dm a b \<Longrightarrow> dm b c \<Longrightarrow> dm a c"
    and antisym: "dm a b \<Longrightarrow> dm b a \<Longrightarrow> a = b"
begin

lemma insert_covers:
  "list_ex (\<lambda>x. dm x y) (antichain_insert dm t f) = (list_ex (\<lambda>x. dm x y) f \<or> dm t y)"
  unfolding antichain_insert_def using trans by (auto simp: list_ex_iff)

lemma insert_antichain: "antichain dm f \<Longrightarrow> antichain dm (antichain_insert dm t f)"
  using refl unfolding antichain_insert_def antichain_def by (auto simp: list_ex_iff)

lemma insert_fold_covers:
  "list_ex (\<lambda>x. dm x y) (fold (antichain_insert dm) ts f) = (list_ex (\<lambda>x. dm x y) f \<or> (\<exists>t \<in> set ts. dm t y))"
  by (induction ts arbitrary: f) (auto simp: insert_covers)

lemma insert_fold_antichain: "antichain dm f \<Longrightarrow> antichain dm (fold (antichain_insert dm) ts f)"
  by (induction ts arbitrary: f) (auto simp: insert_antichain)

end

locale causal_lattice = causal_order +
  fixes glb :: "'t \<Rightarrow> 't \<Rightarrow> 't" and lub :: "'t \<Rightarrow> 't \<Rightarrow> 't"
  assumes glb_iff: "dm (glb a b) c = (dm a c \<and> dm b c)"
    and lub_iff: "dm c (lub a b) = (dm c a \<and> dm c b)"
begin

lemma glb_lower: "dm a (glb a b)" "dm b (glb a b)"
  using glb_iff[of a b "glb a b"] refl by blast+

lemma lub_upper: "dm (lub a b) a" "dm (lub a b) b"
  using lub_iff[of "lub a b" a b] refl by blast+

end

interpretation ptime: causal_lattice time_dominates time_meet time_join
proof unfold_locales
  fix a b c
  show "time_dominates a a" by (simp add: time_dominates_get)
  show "time_dominates a b \<Longrightarrow> time_dominates b c \<Longrightarrow> time_dominates a c"
    unfolding time_dominates_get by (meson order_trans)
  show "time_dominates a b \<Longrightarrow> time_dominates b a \<Longrightarrow> a = b"
    unfolding time_dominates_get by (intro time_eqI) (simp add: order_antisym)
  show "time_dominates (time_meet a b) c = (time_dominates a c \<and> time_dominates b c)"
    by (auto simp: time_dominates_get)
  show "time_dominates c (time_join a b) = (time_dominates c a \<and> time_dominates c b)"
    by (auto simp: time_dominates_get)
qed

text \<open>
  \<open>ProductTime\<close> is a lattice under component-wise dominance: \<open>meet\<close> and \<open>join\<close> are the
  greatest lower and least upper bound, and dominance is a partial order that is not total
  (advancing two different dimensions of one time gives incomparable times).
\<close>

theorem product_time_lattice:
  "time_dominates c (time_join a b) = (time_dominates c a \<and> time_dominates c b)
   \<and> time_dominates (time_meet a b) c = (time_dominates a c \<and> time_dominates b c)
   \<and> (time_dominates a b \<and> time_dominates b a) = (a = b)
   \<and> \<not> time_dominates (time_advance TIME_ZERO Attribute) (time_advance TIME_ZERO Dependency)
   \<and> \<not> time_dominates (time_advance TIME_ZERO Dependency) (time_advance TIME_ZERO Attribute)"
  using ptime.lub_iff ptime.glb_iff ptime.antisym ptime.refl
  by (auto simp: time_dominates_def TIME_ZERO_def)

section \<open>Event stamps\<close>

record delta_time =
  dt_dim :: time_dim
  dt_counter :: u64

record event_stamp =
  causal :: product_time
  arrival :: u64

definition time_delta :: "product_time \<Rightarrow> product_time \<Rightarrow> delta_time" where
  "time_delta prev cur =
     (if identity prev < identity cur then \<lparr>dt_dim = Identity, dt_counter = identity cur\<rparr>
      else if dependency prev < dependency cur then \<lparr>dt_dim = Dependency, dt_counter = dependency cur\<rparr>
      else if attribute prev < attribute cur then \<lparr>dt_dim = Attribute, dt_counter = attribute cur\<rparr>
      else if egraph prev < egraph cur then \<lparr>dt_dim = Egraph, dt_counter = egraph cur\<rparr>
      else \<lparr>dt_dim = Boundary, dt_counter = boundary cur\<rparr>)"

lemma word_max_not_less: "(w :: u64) \<noteq> - 1 \<Longrightarrow> w < w + 1"
  by (simp add: word_less_nat_alt word_neq_max_Suc)

text \<open>
  One tick of the clock is recovered from two consecutive timestamps: after
  \<open>advance(dim)\<close> (away from the top of the \<open>u64\<close>), \<open>delta\<close> names that dimension and its new
  counter, the new time strictly dominates the old one, and no other dimension moved.
\<close>

theorem time_delta_advance:
  assumes "time_get t d \<noteq> - 1"
  shows "time_delta t (time_advance t d) = \<lparr>dt_dim = d, dt_counter = time_get t d + 1\<rparr>
    \<and> time_dominates (time_advance t d) t \<and> \<not> time_dominates t (time_advance t d)
    \<and> (\<forall>e. (time_get (time_advance t d) e = time_get t e) = (e \<noteq> d))"
proof -
  have less: "time_get t d < time_get t d + 1"
    using assms by (rule word_max_not_less)
  have "time_delta t (time_advance t d) = \<lparr>dt_dim = d, dt_counter = time_get t d + 1\<rparr>"
    using less by (cases d) (simp_all add: time_delta_def)
  then show ?thesis
    using less by (auto simp: time_dominates_get not_le intro!: exI[of _ d])
qed

theorem time_delta_advance_witness:
  "time_get TIME_ZERO Egraph \<noteq> - 1
   \<and> time_delta TIME_ZERO (time_advance TIME_ZERO Egraph) = \<lparr>dt_dim = Egraph, dt_counter = 1\<rparr>"
  using time_delta_advance[of TIME_ZERO Egraph] by (simp add: TIME_ZERO_def)

section \<open>Frontiers\<close>

type_synonym frontier = "product_time list"

definition frontier_dominates :: "frontier \<Rightarrow> product_time \<Rightarrow> bool" where
  "frontier_dominates f t = list_ex (\<lambda>x. time_dominates x t) f"

definition frontier_advance :: "frontier \<Rightarrow> product_time \<Rightarrow> frontier" where
  "frontier_advance f t =
     (if frontier_dominates f t then f
      else filter (\<lambda>existing. \<not> time_dominates t existing) f @ [t])"

definition frontier_join :: "frontier \<Rightarrow> frontier \<Rightarrow> frontier" where
  "frontier_join f g = fold (\<lambda>t r. frontier_advance r t) g f"

definition frontier_meet :: "frontier \<Rightarrow> frontier \<Rightarrow> frontier" where
  "frontier_meet f g =
     fold (\<lambda>a r. fold (\<lambda>b r. frontier_advance r (time_meet a b)) g r) f []"

definition frontier_from :: "product_time \<Rightarrow> frontier" where
  "frontier_from t = frontier_advance [] t"

lemma frontier_advance_insert:
  "frontier_advance f t = antichain_insert time_dominates t f"
  by (simp add: frontier_advance_def frontier_dominates_def antichain_insert_def)

lemma frontier_meet_fold:
  "frontier_meet f g =
     fold (antichain_insert time_dominates) (concat (map (\<lambda>a. map (time_meet a) g) f)) []"
proof -
  have "fold (\<lambda>a r. fold (\<lambda>b r. frontier_advance r (time_meet a b)) g r) f r =
      fold (antichain_insert time_dominates) (concat (map (\<lambda>a. map (time_meet a) g) f)) r" for r
    by (induction f arbitrary: r) (simp_all add: frontier_advance_insert fold_map comp_def)
  then show ?thesis by (simp add: frontier_meet_def)
qed

lemma frontier_join_fold:
  "frontier_join f g = fold (antichain_insert time_dominates) g f"
  by (simp add: frontier_join_def frontier_advance_insert)

text \<open>
  A frontier presents a downward-closed set of times: advancing by \<open>t\<close> adds exactly what
  \<open>t\<close> dominates, \<open>join\<close> is the union, \<open>meet\<close> the intersection of the sets presented, and each of
  them keeps the antichain invariant the type documents.
\<close>

theorem frontier_ops:
  assumes "antichain time_dominates f" "antichain time_dominates g"
  shows "frontier_dominates (frontier_advance f t) x = (frontier_dominates f x \<or> time_dominates t x)
    \<and> frontier_dominates (frontier_join f g) x = (frontier_dominates f x \<or> frontier_dominates g x)
    \<and> frontier_dominates (frontier_meet f g) x = (frontier_dominates f x \<and> frontier_dominates g x)
    \<and> antichain time_dominates (frontier_advance f t)
    \<and> antichain time_dominates (frontier_join f g) \<and> antichain time_dominates (frontier_meet f g)"
proof -
  have nil: "antichain time_dominates []" by (simp add: antichain_def)
  show ?thesis
    unfolding frontier_dominates_def frontier_join_fold frontier_meet_fold frontier_advance_insert
      ptime.insert_fold_covers ptime.insert_covers
    using assms nil by (auto simp: ptime.insert_antichain ptime.insert_fold_antichain list_ex_iff
        ptime.glb_iff)
qed

theorem frontier_ops_witness:
  "antichain time_dominates [time_advance TIME_ZERO Attribute]
   \<and> antichain time_dominates [time_advance TIME_ZERO Dependency]
   \<and> frontier_dominates (frontier_join [time_advance TIME_ZERO Attribute]
        [time_advance TIME_ZERO Dependency]) (time_advance TIME_ZERO Dependency)"
proof -
  have a: "antichain time_dominates [time_advance TIME_ZERO Attribute]"
    and b: "antichain time_dominates [time_advance TIME_ZERO Dependency]"
    by (simp_all add: antichain_def)
  show ?thesis
    using frontier_ops[OF a b, of TIME_ZERO "time_advance TIME_ZERO Dependency"] a b
    by (simp add: frontier_dominates_def ptime.refl)
qed

section \<open>Vector clocks\<close>

type_synonym partition_id = u128
type_synonym vector_clock = "(partition_id, u64) amap"

definition vc_get :: "vector_clock \<Rightarrow> partition_id \<Rightarrow> u64" where
  "vc_get c p = (case aget c p of None \<Rightarrow> 0 | Some v \<Rightarrow> v)"

definition vc_tick :: "vector_clock \<Rightarrow> partition_id \<Rightarrow> vector_clock" where
  "vc_tick c p = aput p (vc_get c p + 1) c"

definition vc_set :: "vector_clock \<Rightarrow> partition_id \<Rightarrow> u64 \<Rightarrow> vector_clock" where
  "vc_set c p v = aput p v c"

definition vc_merge :: "vector_clock \<Rightarrow> vector_clock \<Rightarrow> vector_clock" where
  "vc_merge c other = fold (\<lambda>(p, v) acc. aput p (max (vc_get acc p) v) acc) other c"

definition vc_dominates :: "vector_clock \<Rightarrow> vector_clock \<Rightarrow> bool" where
  "vc_dominates c other = list_all (\<lambda>(p, v). v \<le> vc_get c p) other"

definition vc_len :: "vector_clock \<Rightarrow> nat" where
  "vc_len c = length c"

definition vc_is_empty :: "vector_clock \<Rightarrow> bool" where
  "vc_is_empty c = (c = [])"

lemma vc_get_put [simp]: "vc_get (aput p v c) q = (if q = p then v else vc_get c q)"
  by (simp add: vc_get_def)

lemma vc_get_merge:
  "awf other \<Longrightarrow> vc_get (vc_merge c other) p = max (vc_get c p) (vc_get other p)"
proof (induction other arbitrary: c)
  case Nil
  then show ?case by (simp add: vc_merge_def vc_get_def)
next
  case (Cons e other)
  obtain q v where e: "e = (q, v)" by (cases e)
  have wf: "awf other" and q: "aget other q = None"
    using Cons.prems e by (auto simp: awf_def aget_def map_of_eq_None_iff)
  have "vc_merge c (e # other) = vc_merge (aput q (max (vc_get c q) v) c) other"
    by (simp add: vc_merge_def e)
  moreover have "vc_get (e # other) p = (if p = q then v else vc_get other p)"
    by (simp add: vc_get_def aget_def e)
  ultimately show ?case
    using Cons.IH[OF wf, of "aput q (max (vc_get c q) v) c"] q
    by (auto simp: vc_get_def)
qed

lemma awf_merge: "awf c \<Longrightarrow> awf (vc_merge c other)"
  unfolding vc_merge_def by (induction other arbitrary: c) (auto split: prod.splits)

lemma vc_dominates_get: "awf other \<Longrightarrow> vc_dominates c other = (\<forall>p. vc_get other p \<le> vc_get c p)"
  unfolding vc_dominates_def list_all_iff
proof
  assume wf: "awf other" and all: "\<forall>x \<in> set other. case x of (p, v) \<Rightarrow> v \<le> vc_get c p"
  show "\<forall>p. vc_get other p \<le> vc_get c p"
  proof
    fix p
    show "vc_get other p \<le> vc_get c p"
    proof (cases "aget other p")
      case (Some v)
      then have "(p, v) \<in> set other" by (rule aget_SomeD)
      with all Some show ?thesis by (auto simp: vc_get_def[of other])
    qed (simp add: vc_get_def[of other])
  qed
next
  assume wf: "awf other" and all: "\<forall>p. vc_get other p \<le> vc_get c p"
  show "\<forall>x \<in> set other. case x of (p, v) \<Rightarrow> v \<le> vc_get c p"
  proof (clarify)
    fix p v
    assume "(p, v) \<in> set other"
    then have "vc_get other p = v" using wf by (simp add: aget_in_set vc_get_def)
    with all show "v \<le> vc_get c p" by metis
  qed
qed

text \<open>
  \<open>VectorClock::merge\<close> is the least clock that dominates both: it takes the maximum entry
  by entry, dominates each argument, and every clock that dominates both dominates it.
\<close>

theorem vc_merge_lub:
  assumes "awf a" "awf b"
  shows "(\<forall>p. vc_get (vc_merge a b) p = max (vc_get a p) (vc_get b p))
    \<and> vc_dominates (vc_merge a b) a \<and> vc_dominates (vc_merge a b) b
    \<and> (\<forall>c. vc_dominates c (vc_merge a b) = (vc_dominates c a \<and> vc_dominates c b))"
  using assms by (auto simp: vc_dominates_get awf_merge vc_get_merge)

theorem vc_merge_lub_witness:
  "awf [(1 :: u128, 3 :: u64)] \<and> awf [(1 :: u128, 2), (2, 5 :: u64)]
   \<and> vc_get (vc_merge [(1, 3)] [(1, 2), (2, 5)]) 1 = 3
   \<and> vc_dominates (vc_merge [(1, 3)] [(1, 2), (2, 5)]) [(1, 2), (2, 5)]"
proof -
  have a: "awf [(1 :: u128, 3 :: u64)]" and b: "awf [(1 :: u128, 2), (2, 5 :: u64)]"
    by (simp_all add: awf_def)
  show ?thesis using vc_merge_lub[OF a b] a b by (simp add: vc_get_def aget_def)
qed

end
