(* ===== verification/Delta_Mask.thy ===== *)
theory Delta_Mask
  imports Prod_Time
begin

text \<open>
  The observability layer: shape masks, attribute-path sets, projection masks and deltas of
  \<^verbatim>\<open>core-rs/src/delta.rs\<close> with the \<open>affects\<close> gate and the \<open>covers\<close> comparison, and the mask
  interner of \<^verbatim>\<open>core-rs/src/mask.rs\<close>.  The locale \<open>observer_order\<close> is the contract a comparison of
  filters has to meet so that a larger filter sees whatever a smaller one sees.
\<close>

section \<open>Shape masks and attribute paths\<close>

type_synonym shape_mask = u8

definition SHAPE_NONE :: shape_mask where "SHAPE_NONE = 0"
definition SHAPE_ECLASS :: shape_mask where "SHAPE_ECLASS = 1"
definition SHAPE_PERSISTENCE :: shape_mask where "SHAPE_PERSISTENCE = 2"
definition SHAPE_EMITTED :: shape_mask where "SHAPE_EMITTED = 4"
definition SHAPE_ALL :: shape_mask where "SHAPE_ALL = 7"

lemmas shape_consts = SHAPE_NONE_def SHAPE_ECLASS_def SHAPE_PERSISTENCE_def SHAPE_EMITTED_def
  SHAPE_ALL_def

definition shape_intersects :: "shape_mask \<Rightarrow> shape_mask \<Rightarrow> bool" where
  "shape_intersects a b = (a AND b \<noteq> 0)"

definition shape_contains :: "shape_mask \<Rightarrow> shape_mask \<Rightarrow> bool" where
  "shape_contains a b = (a AND b = b)"

definition shape_union :: "shape_mask \<Rightarrow> shape_mask \<Rightarrow> shape_mask" where
  "shape_union a b = a OR b"

definition shape_is_empty :: "shape_mask \<Rightarrow> bool" where
  "shape_is_empty a = (a = 0)"

definition shape_eclass :: "shape_mask \<Rightarrow> bool" where
  "shape_eclass a = shape_intersects a SHAPE_ECLASS"

definition shape_persistence :: "shape_mask \<Rightarrow> bool" where
  "shape_persistence a = shape_intersects a SHAPE_PERSISTENCE"

definition shape_emitted :: "shape_mask \<Rightarrow> bool" where
  "shape_emitted a = shape_intersects a SHAPE_EMITTED"

type_synonym attr_path_set = "string set"

definition attrs_wildcard :: attr_path_set where
  "attrs_wildcard = {}"

definition attrs_insert :: "string \<Rightarrow> attr_path_set \<Rightarrow> attr_path_set" where
  "attrs_insert p s = insert p s"

definition attrs_from_paths :: "string list \<Rightarrow> attr_path_set" where
  "attrs_from_paths ps = foldl (\<lambda>s p. attrs_insert p s) {} ps"

definition attrs_is_wildcard :: "attr_path_set \<Rightarrow> bool" where
  "attrs_is_wildcard s = (s = {})"

definition attrs_matches :: "attr_path_set \<Rightarrow> attr_path_set \<Rightarrow> bool" where
  "attrs_matches s delta =
     (if attrs_is_wildcard s then True
      else if attrs_is_wildcard delta then True
      else (\<exists>p \<in> s. p \<in> delta))"

definition attrs_contains :: "attr_path_set \<Rightarrow> string \<Rightarrow> bool" where
  "attrs_contains s p = (p \<in> s)"

definition attrs_len :: "attr_path_set \<Rightarrow> nat" where
  "attrs_len s = card s"

section \<open>Projection masks and deltas\<close>

record projection_mask =
  pm_dims :: time_dim_set
  pm_attrs :: attr_path_set
  pm_shape :: "shape_mask option"

definition mask_wildcard :: projection_mask where
  "mask_wildcard = \<lparr>pm_dims = DIMS_ALL, pm_attrs = attrs_wildcard, pm_shape = None\<rparr>"

definition mask_attribute_only :: projection_mask where
  "mask_attribute_only = \<lparr>pm_dims = DIMS_ATTRIBUTE, pm_attrs = attrs_wildcard, pm_shape = None\<rparr>"

definition mask_structural :: projection_mask where
  "mask_structural = \<lparr>pm_dims = dims_union DIMS_IDENTITY DIMS_DEPENDENCY,
     pm_attrs = attrs_wildcard, pm_shape = Some SHAPE_PERSISTENCE\<rparr>"

definition mask_boundary :: projection_mask where
  "mask_boundary = \<lparr>pm_dims = DIMS_BOUNDARY, pm_attrs = attrs_wildcard,
     pm_shape = Some SHAPE_EMITTED\<rparr>"

lemmas mask_consts = mask_wildcard_def mask_attribute_only_def mask_structural_def
  mask_boundary_def attrs_wildcard_def

record delta =
  d_uid :: u128
  d_dims :: time_dim_set
  d_attrs :: attr_path_set
  d_shape :: shape_mask

definition delta_attribute :: "u128 \<Rightarrow> delta" where
  "delta_attribute u = \<lparr>d_uid = u, d_dims = DIMS_ATTRIBUTE, d_attrs = attrs_wildcard,
     d_shape = SHAPE_NONE\<rparr>"

definition delta_attr_path :: "u128 \<Rightarrow> string \<Rightarrow> delta" where
  "delta_attr_path u path = \<lparr>d_uid = u, d_dims = DIMS_ATTRIBUTE, d_attrs = attrs_insert path {},
     d_shape = SHAPE_NONE\<rparr>"

definition delta_structural :: "u128 \<Rightarrow> delta" where
  "delta_structural u = \<lparr>d_uid = u, d_dims = DIMS_IDENTITY, d_attrs = {}, d_shape = SHAPE_PERSISTENCE\<rparr>"

definition delta_dependency :: "u128 \<Rightarrow> delta" where
  "delta_dependency u = \<lparr>d_uid = u, d_dims = DIMS_DEPENDENCY, d_attrs = {}, d_shape = SHAPE_PERSISTENCE\<rparr>"

definition delta_egraph :: "u128 \<Rightarrow> delta" where
  "delta_egraph u = \<lparr>d_uid = u, d_dims = DIMS_EGRAPH, d_attrs = {}, d_shape = SHAPE_ECLASS\<rparr>"

definition delta_boundary :: "u128 \<Rightarrow> delta" where
  "delta_boundary u = \<lparr>d_uid = u, d_dims = DIMS_BOUNDARY, d_attrs = {}, d_shape = SHAPE_EMITTED\<rparr>"

lemmas delta_consts = delta_attribute_def delta_attr_path_def delta_structural_def
  delta_dependency_def delta_egraph_def delta_boundary_def attrs_insert_def

definition affects :: "projection_mask \<Rightarrow> delta \<Rightarrow> bool" where
  "affects m d =
     (if \<not> dims_intersects (pm_dims m) (d_dims d) then False
      else if \<not> attrs_matches (pm_attrs m) (d_attrs d) then False
      else (case pm_shape m of
              Some msk \<Rightarrow> if \<not> shape_intersects msk (d_shape d) then False else True
            | None \<Rightarrow> True))"

definition covers :: "projection_mask \<Rightarrow> projection_mask \<Rightarrow> bool" where
  "covers m other \<longleftrightarrow>
     pm_dims m \<ge> pm_dims other
     \<and> (attrs_is_wildcard (pm_attrs m)
        \<or> (\<forall>p \<in> pm_attrs other. attrs_contains (pm_attrs m) p))
     \<and> (case (pm_shape m, pm_shape other) of
          (None, _) \<Rightarrow> True
        | (Some _, None) \<Rightarrow> False
        | (Some a, Some b) \<Rightarrow> shape_contains a b)"

section \<open>What a comparison of filters has to promise\<close>

locale observer_order =
  fixes sees :: "'m \<Rightarrow> 'd \<Rightarrow> bool" and above :: "'m \<Rightarrow> 'm \<Rightarrow> bool"
  assumes above_refl: "above a a"
    and above_trans: "above a b \<Longrightarrow> above b c \<Longrightarrow> above a c"
    and above_sees: "above a b \<Longrightarrow> sees b d \<Longrightarrow> sees a d"
begin

lemma equivalent_observers: "above a b \<Longrightarrow> above b a \<Longrightarrow> sees a d = sees b d"
  using above_sees by blast

lemma unseen_below: "above a b \<Longrightarrow> \<not> sees a d \<Longrightarrow> \<not> sees b d"
  using above_sees by blast

lemma chain_sees: "above a b \<Longrightarrow> above b c \<Longrightarrow> sees c d \<Longrightarrow> sees a d"
  using above_trans above_sees by blast

end

definition dims_above :: "time_dim_set \<Rightarrow> time_dim_set \<Rightarrow> bool" where
  "dims_above a b = (b AND a = b)"

definition attrs_above :: "attr_path_set \<Rightarrow> attr_path_set \<Rightarrow> bool" where
  "attrs_above a b = (attrs_is_wildcard a \<or> \<not> attrs_is_wildcard b \<and> b \<subseteq> a)"

definition shape_above :: "shape_mask option \<Rightarrow> shape_mask option \<Rightarrow> bool" where
  "shape_above a b = (case (a, b) of (None, _) \<Rightarrow> True | (Some _, None) \<Rightarrow> False
     | (Some x, Some y) \<Rightarrow> shape_contains x y)"

definition shape_sees :: "shape_mask option \<Rightarrow> shape_mask \<Rightarrow> bool" where
  "shape_sees m s = (case m of None \<Rightarrow> True | Some x \<Rightarrow> shape_intersects x s)"

lemma word_subset_meets:
  fixes a b d :: "'a::len word"
  assumes "b AND a = b" "b AND d \<noteq> 0"
  shows "a AND d \<noteq> 0"
proof
  assume "a AND d = 0"
  then have "b AND (a AND d) = 0" by simp
  with assms show False by (simp add: and.assoc[symmetric])
qed

interpretation dims_obs: observer_order dims_intersects dims_above
  by unfold_locales
    (auto simp: dims_intersects_def dims_above_def intro: word_and_subset_trans dest: word_subset_meets)

interpretation attrs_obs: observer_order attrs_matches attrs_above
  by unfold_locales
    (auto simp: attrs_matches_def attrs_above_def attrs_is_wildcard_def split: if_splits)

interpretation shape_obs: observer_order shape_sees shape_above
proof unfold_locales
  fix a b c :: "shape_mask option" and d
  show "shape_above a a" by (simp add: shape_above_def shape_contains_def split: option.split)
  show "shape_above a b \<Longrightarrow> shape_above b c \<Longrightarrow> shape_above a c"
    by (auto simp: shape_above_def shape_contains_def split: option.splits)
      (metis and.assoc and.commute)
  show "shape_above a b \<Longrightarrow> shape_sees b d \<Longrightarrow> shape_sees a d"
    using word_subset_meets[of "the b" "the a" d]
    by (auto simp: shape_above_def shape_sees_def shape_contains_def shape_intersects_def
        and.commute split: option.splits)
qed

lemma affects_factors:
  "affects m d = (dims_intersects (pm_dims m) (d_dims d) \<and> attrs_matches (pm_attrs m) (d_attrs d)
     \<and> shape_sees (pm_shape m) (d_shape d))"
  by (simp add: affects_def shape_sees_def split: option.split)

definition mask_above :: "projection_mask \<Rightarrow> projection_mask \<Rightarrow> bool" where
  "mask_above a b \<longleftrightarrow> dims_above (pm_dims a) (pm_dims b) \<and> attrs_above (pm_attrs a) (pm_attrs b)
     \<and> shape_above (pm_shape a) (pm_shape b)"

interpretation mask_obs: observer_order affects mask_above
  by unfold_locales
    (auto simp: affects_factors mask_above_def dims_obs.above_refl attrs_obs.above_refl
      shape_obs.above_refl intro: dims_obs.above_trans attrs_obs.above_trans shape_obs.above_trans
      dims_obs.above_sees attrs_obs.above_sees shape_obs.above_sees)

lemma dims_above_le: "dims_above a b \<Longrightarrow> b \<le> a"
  unfolding dims_above_def by (metis word_and_le1)

text \<open>
  \<open>affects\<close> on the masks and deltas the engine builds: the wildcard mask observes every kind
  of delta, the attribute mask only value changes, the structural mask exactly the identity and
  dependency changes, the boundary mask only emissions; an attribute filter needs a common path
  unless one side names none.
\<close>

theorem affects_table:
  "affects mask_wildcard (delta_attribute u) \<and> affects mask_wildcard (delta_structural u)
   \<and> affects mask_wildcard (delta_dependency u) \<and> affects mask_wildcard (delta_egraph u)
   \<and> affects mask_wildcard (delta_boundary u)
   \<and> affects mask_attribute_only (delta_attribute u) \<and> \<not> affects mask_attribute_only (delta_structural u)
   \<and> \<not> affects mask_attribute_only (delta_dependency u) \<and> \<not> affects mask_attribute_only (delta_egraph u)
   \<and> affects mask_structural (delta_structural u) \<and> affects mask_structural (delta_dependency u)
   \<and> \<not> affects mask_structural (delta_attribute u) \<and> \<not> affects mask_structural (delta_egraph u)
   \<and> affects mask_boundary (delta_boundary u) \<and> \<not> affects mask_boundary (delta_attribute u)
   \<and> (affects \<lparr>pm_dims = DIMS_ALL, pm_attrs = s, pm_shape = None\<rparr> (delta_attr_path u p) = (s = {} \<or> p \<in> s))"
  by (auto simp: affects_def mask_consts delta_consts dims_consts shape_consts dims_intersects_def
      dims_union_def attrs_matches_def attrs_is_wildcard_def shape_intersects_def)

text \<open>
  \<open>covers\<close> is weaker than the superset relation its documentation names.  Every genuinely
  larger mask (\<open>mask_above\<close>, under which a mask sees whatever the smaller one sees) passes
  \<open>covers\<close>, but \<open>covers\<close> also accepts a mask whose dimension bits are numerically larger yet
  disjoint, and a named attribute filter against the wildcard; in both cases the "covered" mask
  observes a delta that the "covering" one misses.
\<close>

theorem covers_vs_superset:
  "(mask_above a b \<longrightarrow> covers a b \<and> (affects b d \<longrightarrow> affects a d))
   \<and> covers \<lparr>pm_dims = DIMS_BOUNDARY, pm_attrs = {}, pm_shape = None\<rparr> mask_attribute_only
   \<and> affects mask_attribute_only (delta_attribute u)
   \<and> \<not> affects \<lparr>pm_dims = DIMS_BOUNDARY, pm_attrs = {}, pm_shape = None\<rparr> (delta_attribute u)
   \<and> covers \<lparr>pm_dims = DIMS_ALL, pm_attrs = {''weight''}, pm_shape = None\<rparr> mask_wildcard
   \<and> affects mask_wildcard (delta_attr_path u ''color'')
   \<and> \<not> affects \<lparr>pm_dims = DIMS_ALL, pm_attrs = {''weight''}, pm_shape = None\<rparr> (delta_attr_path u ''color'')"
proof -
  have "mask_above a b \<Longrightarrow> covers a b"
    by (auto simp: mask_above_def covers_def attrs_above_def attrs_contains_def shape_above_def
        attrs_is_wildcard_def dest: dims_above_le split: option.splits)
  moreover have "covers \<lparr>pm_dims = DIMS_BOUNDARY, pm_attrs = {}, pm_shape = None\<rparr> mask_attribute_only
      \<and> covers \<lparr>pm_dims = DIMS_ALL, pm_attrs = {''weight''}, pm_shape = None\<rparr> mask_wildcard"
    by (simp add: covers_def mask_consts dims_consts attrs_is_wildcard_def)
  moreover have "\<not> affects \<lparr>pm_dims = DIMS_BOUNDARY, pm_attrs = {}, pm_shape = None\<rparr> (delta_attribute u)
      \<and> \<not> affects \<lparr>pm_dims = DIMS_ALL, pm_attrs = {''weight''}, pm_shape = None\<rparr>
            (delta_attr_path u ''color'')
      \<and> affects mask_attribute_only (delta_attribute u)
      \<and> affects mask_wildcard (delta_attr_path u ''color'')"
    by (simp add: affects_def mask_consts delta_consts dims_consts dims_intersects_def
        attrs_matches_def attrs_is_wildcard_def)
  ultimately show ?thesis
    using mask_obs.above_sees[of a b d] by blast
qed

theorem covers_vs_superset_witness:
  "mask_above mask_wildcard mask_structural \<and> covers mask_wildcard mask_structural
   \<and> affects mask_wildcard (delta_structural 1)"
proof -
  have ab: "mask_above mask_wildcard mask_structural"
    by (simp add: mask_above_def mask_consts dims_above_def attrs_above_def attrs_is_wildcard_def
        shape_above_def dims_consts dims_union_def)
  have "affects mask_structural (delta_structural 1)"
    by (simp add: affects_table)
  with ab show ?thesis
    using covers_vs_superset[of mask_wildcard mask_structural "delta_structural 1" 1] by blast
qed

section \<open>The mask interner\<close>

record mask_registry =
  by_mask :: "projection_mask \<Rightarrow> u32 option"
  by_id :: "projection_mask list"

definition registry_new :: mask_registry where
  "registry_new = \<lparr>by_mask = Map.empty, by_id = []\<rparr>"

definition intern :: "mask_registry \<Rightarrow> projection_mask \<Rightarrow> mask_registry \<times> u32" where
  "intern r m =
     (case by_mask r m of
        Some i \<Rightarrow> (r, i)
      | None \<Rightarrow>
          (let i = of_nat (length (by_id r))
           in (r\<lparr>by_id := by_id r @ [m], by_mask := (by_mask r)(m \<mapsto> i)\<rparr>, i)))"

text \<open>\<open>resolve\<close> indexes the vector and panics on an id the registry did not issue: \<open>None\<close>.\<close>

definition resolve :: "mask_registry \<Rightarrow> u32 \<Rightarrow> projection_mask option" where
  "resolve r i = (if unat i < length (by_id r) then Some (by_id r ! unat i) else None)"

definition registry_len :: "mask_registry \<Rightarrow> nat" where
  "registry_len r = length (by_id r)"

definition registry_wf :: "mask_registry \<Rightarrow> bool" where
  "registry_wf r \<longleftrightarrow> distinct (by_id r) \<and> length (by_id r) \<le> 2 ^ 32
     \<and> (\<forall>m i. by_mask r m = Some i \<longleftrightarrow> resolve r i = Some m)"

lemma registry_wf_new: "registry_wf registry_new"
  by (simp add: registry_wf_def registry_new_def resolve_def)

lemma registry_dom: "registry_wf r \<Longrightarrow> (by_mask r m = None) = (m \<notin> set (by_id r))"
proof
  assume wf: "registry_wf r" and none: "by_mask r m = None"
  show "m \<notin> set (by_id r)"
  proof
    assume "m \<in> set (by_id r)"
    then obtain n where n: "n < length (by_id r)" "by_id r ! n = m" by (auto simp: in_set_conv_nth)
    moreover have "unat (of_nat n :: u32) = n"
      using n wf by (simp add: registry_wf_def unat_of_nat)
    ultimately have "resolve r (of_nat n) = Some m" by (simp add: resolve_def)
    then have "by_mask r m = Some (of_nat n)" using wf by (simp add: registry_wf_def)
    with none show False by simp
  qed
next
  assume "registry_wf r" "m \<notin> set (by_id r)"
  then show "by_mask r m = None"
    unfolding registry_wf_def resolve_def by (metis nth_mem option.exhaust option.inject option.distinct(1))
qed

text \<open>
  The interner issues stable, exact handles: while fewer than \<open>2^32\<close> masks are interned,
  \<open>intern\<close> keeps the registry consistent, its handle resolves to the mask, interning the same
  mask again returns the same handle and changes nothing, and every handle issued before still
  resolves to its mask.
\<close>

theorem intern_correct:
  assumes "registry_wf r" "length (by_id r) < 2 ^ 32"
  shows "registry_wf (fst (intern r m))
    \<and> resolve (fst (intern r m)) (snd (intern r m)) = Some m
    \<and> intern (fst (intern r m)) m = intern r m
    \<and> (\<forall>i m'. resolve r i = Some m' \<longrightarrow> resolve (fst (intern r m)) i = Some m')"
proof (cases "by_mask r m")
  case (Some i)
  then have "intern r m = (r, i)" by (simp add: intern_def)
  moreover have "resolve r i = Some m" using assms(1) Some by (simp add: registry_wf_def)
  ultimately show ?thesis using assms(1) by simp
next
  case None
  let ?n = "length (by_id r)"
  have un: "unat (of_nat ?n :: u32) = ?n"
    using assms(2) by (simp add: unat_of_nat)
  have fresh: "m \<notin> set (by_id r)" using registry_dom[OF assms(1)] None by simp
  have res: "resolve (fst (intern r m)) i = (if unat i = ?n then Some m else resolve r i)" for i
    using None by (auto simp: intern_def resolve_def nth_append Let_def)
  have eq: "(of_nat ?n = i) = (unat i = ?n)" for i :: u32
    using un by (auto simp: word_unat_eq_iff)
  have old: "resolve r i = Some m' \<Longrightarrow> m' \<noteq> m \<and> unat i \<noteq> ?n" for i m'
    using fresh by (auto simp: resolve_def split: if_splits)
  have bm: "by_mask (fst (intern r m)) = (by_mask r)(m \<mapsto> of_nat ?n)"
    using None by (simp add: intern_def Let_def)
  have again: "intern (fst (intern r m)) m = intern r m"
    using None by (simp add: intern_def Let_def)
  have "registry_wf (fst (intern r m))"
    unfolding registry_wf_def
  proof (intro conjI allI)
    show "distinct (by_id (fst (intern r m)))" "length (by_id (fst (intern r m))) \<le> 2 ^ 32"
      using None fresh assms by (simp_all add: intern_def Let_def registry_wf_def)
    fix m' i
    show "(by_mask (fst (intern r m)) m' = Some i) = (resolve (fst (intern r m)) i = Some m')"
      using assms(1) old[of i m'] None unfolding res bm registry_wf_def by (auto simp: eq)
  qed
  moreover have "snd (intern r m) = of_nat ?n"
    using None by (simp add: intern_def Let_def)
  ultimately show ?thesis
    unfolding res using again un old by (simp split: if_split)
qed

theorem intern_correct_witness:
  "registry_wf registry_new \<and> length (by_id registry_new) < 2 ^ 32
   \<and> resolve (fst (intern registry_new mask_boundary)) (snd (intern registry_new mask_boundary))
       = Some mask_boundary"
proof -
  have l: "length (by_id registry_new) < 2 ^ 32" by (simp add: registry_new_def)
  show ?thesis using intern_correct[OF registry_wf_new l, of mask_boundary] registry_wf_new l by blast
qed

end
