(* ===== verification/Node_Types.thy ===== *)
theory Node_Types
  imports Ternary Delta_Mask
begin

text \<open>
  The id-layer vocabulary of \<^verbatim>\<open>core-rs/src/node.rs\<close> that does not mention nodes: compute rules
  and their evaluation, typed ports and the execution mode they prefer, and the stabilization
  and scheduling configurations.
\<close>

type_synonym uid = u128

definition NIL :: uid where
  "NIL = 0"

section \<open>Compute rules\<close>

datatype compute_rule =
    Identity_rule | MvNeg | MvAdd | MvMul | MvSub | Merge | MeetAll | JoinAny | BochvarFold
  | PowerProduct

datatype node_kind = Input | Computed compute_rule

definition slice_get :: "'a list \<Rightarrow> nat \<Rightarrow> 'a option" where
  "slice_get xs i = (if i < length xs then Some (xs ! i) else None)"

fun rule_eval :: "compute_rule \<Rightarrow> T list \<Rightarrow> T option" where
  "rule_eval Identity_rule deps = slice_get deps 0"
| "rule_eval MvNeg deps = map_option mv_neg (slice_get deps 0)"
| "rule_eval MvAdd deps =
     Option.bind (slice_get deps 0) (\<lambda>a. map_option (mv_add a) (slice_get deps 1))"
| "rule_eval MvMul deps =
     Option.bind (slice_get deps 0) (\<lambda>a. map_option (mv_mul a) (slice_get deps 1))"
| "rule_eval MvSub deps =
     Option.bind (slice_get deps 0) (\<lambda>a. map_option (mv_sub a) (slice_get deps 1))"
| "rule_eval Merge deps =
     Option.bind (slice_get deps 0) (\<lambda>a. Option.bind (slice_get deps 1)
       (\<lambda>b. map_option (merge a b) (slice_get deps 2)))"
| "rule_eval MeetAll deps = Some (meet_all deps)"
| "rule_eval JoinAny deps = Some (join_any deps)"
| "rule_eval BochvarFold deps = Some (bochvar_fold_add deps)"
| "rule_eval PowerProduct deps =
     Option.bind (slice_get deps 0) (\<lambda>a. map_option (mv_mul a) (slice_get deps 1))"

definition rule_diff :: "compute_rule \<Rightarrow> T list \<Rightarrow> T list \<Rightarrow> T option" where
  "rule_diff r old_deps new_deps =
     Option.bind (rule_eval r old_deps) (\<lambda>old_val.
       Option.bind (rule_eval r new_deps) (\<lambda>new_val.
         if new_val \<noteq> old_val then Some new_val else None))"

text \<open>How many dependencies a rule reads; the aggregates read any number.\<close>

fun rule_arity :: "compute_rule \<Rightarrow> nat" where
  "rule_arity Identity_rule = 1"
| "rule_arity MvNeg = 1"
| "rule_arity MvAdd = 2"
| "rule_arity MvMul = 2"
| "rule_arity MvSub = 2"
| "rule_arity Merge = 3"
| "rule_arity PowerProduct = 2"
| "rule_arity _ = 0"

lemma rule_eval_total: "(rule_eval r deps \<noteq> None) = (rule_arity r \<le> length deps)"
  by (cases r) (auto simp: slice_get_def Suc_le_eq)

lemma slice_get_all: "\<forall>v \<in> set vs. v = x \<Longrightarrow> slice_get vs i = (if i < length vs then Some x else None)"
  by (simp add: slice_get_def)

text \<open>On ready dependencies only negation, difference and an empty aggregate leave \<open>Pos\<close>.\<close>

lemma rule_eval_ready:
  assumes "\<forall>v \<in> set deps. v = Pos" "rule_arity r \<le> length deps"
  shows "rule_eval r deps =
    Some (if r \<in> {MvNeg, MvSub} \<or> deps = [] \<and> r \<in> {JoinAny, BochvarFold} then Neg else Pos)"
proof -
  have "Zero \<notin> set deps" "Neg \<notin> set deps"
    using assms(1) by auto
  moreover have "(Pos \<in> set deps) = (deps \<noteq> [])"
    using assms(1) by (cases deps) auto
  ultimately show ?thesis
    using assms(2) by (cases r)
      (auto simp: slice_get_all[OF assms(1)] meet_all_mem join_any_mem bochvar_fold_add_mem
        mv_sub_def merge_def median_def meet_def join_def Suc_le_eq)
qed

text \<open>
  \<open>ComputeRule::eval\<close> is total exactly when the rule's arity is met, \<open>diff\<close> reports a value
  precisely when both evaluations exist and differ (and then it is the new one), and on
  dependencies that are all ready every rule but negation and difference yields \<open>Pos\<close>.
\<close>

theorem rule_eval_diff:
  "(rule_eval r deps \<noteq> None) = (rule_arity r \<le> length deps)
   \<and> (rule_diff r deps deps' = Some v) =
        (rule_eval r deps' = Some v \<and> rule_arity r \<le> length deps \<and> rule_eval r deps \<noteq> Some v)
   \<and> ((\<forall>d \<in> set deps. d = Pos) \<and> deps \<noteq> [] \<and> rule_arity r \<le> length deps \<and> r \<noteq> MvNeg \<and> r \<noteq> MvSub
        \<longrightarrow> rule_eval r deps = Some Pos)"
  using rule_eval_total[of r deps] rule_eval_total[of r deps'] rule_eval_ready[of deps r]
  by (auto simp: rule_diff_def split: Option.bind_splits if_splits)

theorem rule_eval_diff_witness:
  "rule_arity MvMul \<le> length [Pos, Pos] \<and> rule_eval MvMul [Pos, Pos] = Some Pos
   \<and> rule_diff MvMul [Pos, Neg] [Pos, Pos] = Some Pos"
  using rule_eval_diff[of MvMul "[Pos, Pos]" "[Pos, Pos]" Pos]
    rule_eval_diff[of MvMul "[Pos, Neg]" "[Pos, Pos]" Pos]
  by (simp add: slice_get_def)

section \<open>Execution modes and ports\<close>

datatype exec_mode = Eager | Lazy | Stabilizing

datatype port_kind = Effort | Flow | Bond | Signal

record port =
  port_name :: string
  port_kind :: port_kind

definition port_new :: "string \<Rightarrow> port_kind \<Rightarrow> port" where
  "port_new n k = \<lparr>port_name = n, port_kind = k\<rparr>"

definition port_signal :: "string \<Rightarrow> port" where "port_signal n = \<lparr>port_name = n, port_kind = Signal\<rparr>"
definition port_effort :: "string \<Rightarrow> port" where "port_effort n = \<lparr>port_name = n, port_kind = Effort\<rparr>"
definition port_flow :: "string \<Rightarrow> port" where "port_flow n = \<lparr>port_name = n, port_kind = Flow\<rparr>"
definition port_bond :: "string \<Rightarrow> port" where "port_bond n = \<lparr>port_name = n, port_kind = Bond\<rparr>"

lemmas port_consts = port_new_def port_signal_def port_effort_def port_flow_def port_bond_def

definition preferred_mode :: "port \<Rightarrow> exec_mode option" where
  "preferred_mode p = (case port_kind p of
      Effort \<Rightarrow> Some Lazy | Flow \<Rightarrow> Some Eager | Bond \<Rightarrow> Some Stabilizing | Signal \<Rightarrow> None)"

definition is_power :: "port_kind \<Rightarrow> bool" where
  "is_power k = (k \<in> {Effort, Flow, Bond})"

definition power_sign :: "port_kind \<Rightarrow> T \<Rightarrow> T option" where
  "power_sign k v = (if is_power k then Some v else None)"

lemma preferred_mode_power: "(preferred_mode p = None) = (\<not> is_power (port_kind p))"
  by (cases "port_kind p") (simp_all add: preferred_mode_def is_power_def)

section \<open>Stabilization and scheduling configuration\<close>

datatype rewrite_strategy = FullL3 | Restricted u64
datatype stabilization_domain = LocalOnly | Federated | Inherit
record rewrite_budget = max_iterations :: nat
datatype convergence_policy = Canonical | ConvWitness | BudgetExhausted

record stabilization_config =
  strategy :: rewrite_strategy
  sc_domain :: stabilization_domain
  budget :: rewrite_budget
  convergence :: convergence_policy

definition stabilization_config_default :: stabilization_config where
  "stabilization_config_default = \<lparr>strategy = FullL3, sc_domain = Inherit,
     budget = \<lparr>max_iterations = 256\<rparr>, convergence = Canonical\<rparr>"

datatype queue_priority = Normal | High | Low
datatype retry_policy = Fail | Retry nat

record execution_policy =
  queue_priority :: queue_priority
  retry_policy :: retry_policy

definition execution_policy_default :: execution_policy where
  "execution_policy_default = \<lparr>queue_priority = Normal, retry_policy = Fail\<rparr>"

end
