(* ===== verification/Opcode_Admission.thy ===== *)
theory Opcode_Admission
  imports Node_Types
begin

text \<open>
  The first decisions of the session layer about a record, taken from its opcode alone:
  the opcode classes (\<^verbatim>\<open>session-rs/src/opcode.rs\<close>), admission under back-pressure
  (\<^verbatim>\<open>session-rs/src/admission.rs\<close>) and the action after a failed engine call
  (\<^verbatim>\<open>session-rs/src/recovery.rs\<close>), with the wire identifiers of \<^verbatim>\<open>session-rs/src/lib.rs\<close>.
\<close>

section \<open>Wire identifiers\<close>

type_synonym tenant_id = u64
type_synonym session_id = u64
type_synonym path_id = u64
type_synonym wire_partition_id = u64
type_synonym shard_id = u64

section \<open>Opcode classes\<close>

datatype opcode_class =
    OC_Control | OC_SetValue | OC_Propagate | OC_Subscribe | OC_Demand | OC_Stabilize
  | OC_Profile | OC_Data | OC_Unknown

definition from_opcode :: "u16 \<Rightarrow> opcode_class" where
  "from_opcode opc =
     (if opc = 0x0001 \<or> opc = 0x0002 then OC_Control
      else if opc = 0x0003 then OC_SetValue
      else if opc = 0x0004 then OC_Propagate
      else if opc = 0x0005 then OC_Subscribe
      else if opc = 0x0006 \<or> opc = 0x0007 then OC_Control
      else if opc = 0x0008 then OC_Demand
      else if opc = 0x0009 then OC_Control
      else if opc = 0x000A then OC_Data
      else if opc = 0x000B then OC_Stabilize
      else if 0x000C \<le> opc \<and> opc \<le> 0x0011 then OC_Control
      else if opc = 0x0012 then OC_Control
      else if opc = 0x0100 then OC_Profile
      else OC_Unknown)"

definition is_control_plane :: "opcode_class \<Rightarrow> bool" where
  "is_control_plane c = (c = OC_Control \<or> c = OC_Profile \<or> c = OC_Subscribe)"

section \<open>Admission\<close>

record shard_pressure =
  queue_depth :: u32
  budget_consumed :: u64
  cursor_count :: u32

definition pressure_default :: shard_pressure where
  "pressure_default = \<lparr>queue_depth = 0, budget_consumed = 0, cursor_count = 0\<rparr>"

datatype admission_decision =
    AD_Allow | AD_Delay | AD_Drop | AD_Coalesce | AD_Prioritize | AD_SlowLane | AD_ControlPlane

definition reaches_engine :: "admission_decision \<Rightarrow> bool" where
  "reaches_engine d = (d \<noteq> AD_Drop)"

record backpressure_policy =
  coalesce_threshold :: u32
  shed_threshold :: u32

definition backpressure_default :: backpressure_policy where
  "backpressure_default = \<lparr>coalesce_threshold = 1000, shed_threshold = 5000\<rparr>"

definition backpressure_new :: "u32 \<Rightarrow> u32 \<Rightarrow> backpressure_policy" where
  "backpressure_new c s = \<lparr>coalesce_threshold = c, shed_threshold = s\<rparr>"

fun decide :: "backpressure_policy \<Rightarrow> opcode_class \<Rightarrow> shard_pressure \<Rightarrow> admission_decision" where
  "decide b OC_Control p = AD_ControlPlane"
| "decide b OC_Profile p = AD_ControlPlane"
| "decide b OC_Subscribe p = AD_ControlPlane"
| "decide b OC_Demand p = AD_Prioritize"
| "decide b OC_Stabilize p = AD_SlowLane"
| "decide b OC_SetValue p = (if queue_depth p \<ge> coalesce_threshold b then AD_Coalesce else AD_Allow)"
| "decide b OC_Propagate p = (if queue_depth p \<ge> shed_threshold b then AD_Drop else AD_Allow)"
| "decide b OC_Data p = (if queue_depth p \<ge> coalesce_threshold b then AD_Delay else AD_Allow)"
| "decide b OC_Unknown p = AD_Drop"

section \<open>Recovery\<close>

record work_cursor =
  root_node :: uid
  steps_consumed :: u32
  wc_budget :: u32

definition cursor_new :: "uid \<Rightarrow> u32 \<Rightarrow> u32 \<Rightarrow> work_cursor" where
  "cursor_new r s b = \<lparr>root_node = r, steps_consumed = s, wc_budget = b\<rparr>"

text \<open>The products are \<open>u32\<close> products, which wrap.\<close>

definition near_limit :: "work_cursor \<Rightarrow> bool" where
  "near_limit c = (wc_budget c > 0 \<and> steps_consumed c * 10 \<ge> wc_budget c * 9)"

datatype engine_outcome =
    EO_Ok | EO_StepLimitExceeded work_cursor | EO_CycleDetected uid | EO_CapabilityViolation uid

datatype failure_action = FA_Requeue | FA_Shed | FA_Escalate

fun default_for :: "engine_outcome \<Rightarrow> failure_action" where
  "default_for EO_Ok = FA_Requeue"
| "default_for (EO_StepLimitExceeded _) = FA_Requeue"
| "default_for (EO_CycleDetected _) = FA_Escalate"
| "default_for (EO_CapabilityViolation _) = FA_Shed"

section \<open>Facts about classes and admission\<close>

lemma from_opcode_control:
  "from_opcode opc = OC_Control \<longleftrightarrow>
     opc \<in> {1, 2, 6, 7, 9, 0x0C, 0x0D, 0x0E, 0x0F, 0x10, 0x11, 0x12}"
proof -
  have "0x000C \<le> opc \<and> opc \<le> 0x0011 \<longleftrightarrow> opc \<in> {0x0C, 0x0D, 0x0E, 0x0F, 0x10, 0x11}" (is "?l = ?r")
  proof
    assume ?l
    then have "unat opc \<in> {12..17}" by (simp add: word_le_nat_alt)
    then have "unat opc = 12 \<or> unat opc = 13 \<or> unat opc = 14 \<or> unat opc = 15 \<or> unat opc = 16 \<or> unat opc = 17"
      by auto
    then show ?r by (auto simp: word_unat_eq_iff)
  qed auto
  then show ?thesis by (auto simp: from_opcode_def)
qed

lemma from_opcode_unknown:
  "from_opcode opc = OC_Unknown \<longleftrightarrow> opc = 0 \<or> (0x0012 < opc \<and> opc \<noteq> 0x0100)"
proof (cases "opc \<le> 0x0012")
  case True
  then have "unat opc \<in> {0..18}" by (simp add: word_le_nat_alt)
  then have "unat opc = 0 \<or> opc \<in> {1, 2, 3, 4, 5, 6, 7, 8, 9, 10, 11, 12, 13, 14, 15, 16, 17, 18}"
    by (simp add: word_unat_eq_iff) presburger
  then show ?thesis using True by (auto simp: from_opcode_def unat_eq_0)
next
  case False
  then have "opc \<notin> {0, 1, 2, 3, 4, 5, 6, 7, 8, 9, 10, 11, 12, 13, 14, 15, 16, 17, 18}"
    by (auto simp: word_le_nat_alt)
  moreover have "\<not> opc \<le> 0x11" using False by (simp add: word_le_nat_alt)
  ultimately show ?thesis using False by (simp add: from_opcode_def not_le)
qed

text \<open>How strongly a decision holds a record back.\<close>

fun severity :: "admission_decision \<Rightarrow> nat" where
  "severity AD_Drop = 3"
| "severity AD_Delay = 2"
| "severity AD_Coalesce = 1"
| "severity _ = 0"

lemma decide_mono:
  "queue_depth p \<le> queue_depth q \<Longrightarrow> severity (decide b c p) \<le> severity (decide b c q)"
  by (cases c) (auto intro: order_trans)

lemma decide_control: "is_control_plane c \<longleftrightarrow> decide b c p = AD_ControlPlane"
  by (cases c) (auto simp: is_control_plane_def)

lemma decide_drop:
  "decide b c p = AD_Drop \<longleftrightarrow> c = OC_Unknown \<or> (c = OC_Propagate \<and> shed_threshold b \<le> queue_depth p)"
  by (cases c) auto

lemma decide_delay:
  "decide b c p = AD_Delay \<longleftrightarrow> c = OC_Data \<and> coalesce_threshold b \<le> queue_depth p"
  by (cases c) auto

text \<open>
  Admission: a deeper queue never makes the controller hold a record back less; it is the
  control pipeline that gets exactly the control-plane classes; an unknown opcode is always
  dropped, a \<open>Propagate\<close> exactly from the shed threshold on, and no other class ever is; \<open>Demand\<close>
  and \<open>Stabilize\<close> keep their lane under any pressure.
\<close>

theorem admission_monotone:
  assumes "queue_depth p \<le> queue_depth q"
  shows "severity (decide b c p) \<le> severity (decide b c q)
    \<and> (decide b c p = AD_ControlPlane) = is_control_plane c
    \<and> (\<not> reaches_engine (decide b c p)) = (c = OC_Unknown \<or> c = OC_Propagate \<and> shed_threshold b \<le> queue_depth p)
    \<and> (decide b c p = AD_Delay) = (c = OC_Data \<and> coalesce_threshold b \<le> queue_depth p)
    \<and> decide b OC_Demand p = AD_Prioritize \<and> decide b OC_Stabilize p = AD_SlowLane"
  using decide_mono[OF assms] decide_control[of c b p] by (simp add: reaches_engine_def decide_drop decide_delay)

theorem admission_monotone_witness:
  "severity (decide backpressure_default OC_SetValue (pressure_default\<lparr>queue_depth := 999\<rparr>)) = 0
   \<and> severity (decide backpressure_default OC_SetValue (pressure_default\<lparr>queue_depth := 1000\<rparr>)) = 1
   \<and> \<not> reaches_engine (decide backpressure_default OC_Propagate (pressure_default\<lparr>queue_depth := 5000\<rparr>))"
  using admission_monotone[of "pressure_default\<lparr>queue_depth := 999\<rparr>" "pressure_default\<lparr>queue_depth := 1000\<rparr>"
      backpressure_default OC_SetValue]
    admission_monotone[of "pressure_default\<lparr>queue_depth := 5000\<rparr>" "pressure_default\<lparr>queue_depth := 5000\<rparr>"
      backpressure_default OC_Propagate]
  by (simp add: backpressure_default_def pressure_default_def)

text \<open>
  \<open>near_limit\<close> says exactly whether at least nine tenths of the budget are consumed, as long
  as neither product leaves \<open>u32\<close>; beyond that the products wrap: a cursor that has consumed one
  step of 477218589 counts as near its limit, one that has consumed 429496730 of 477218588 does not.
\<close>

theorem near_limit_exact:
  assumes "unat (steps_consumed c) * 10 < 2 ^ 32" "unat (wc_budget c) * 9 < 2 ^ 32"
  shows "near_limit c = (0 < unat (wc_budget c) \<and> 9 * unat (wc_budget c) \<le> 10 * unat (steps_consumed c))
    \<and> near_limit (cursor_new r 1 477218589) \<and> \<not> near_limit (cursor_new r 429496730 477218588)"
proof -
  have "unat (steps_consumed c * 10) = unat (steps_consumed c) * 10"
    using assms(1) by (simp add: unat_mult_lem[THEN iffD1])
  moreover have "unat (wc_budget c * 9) = unat (wc_budget c) * 9"
    using assms(2) by (simp add: unat_mult_lem[THEN iffD1])
  ultimately show ?thesis
    by (simp add: near_limit_def cursor_new_def word_le_nat_alt word_less_nat_alt mult.commute)
qed

theorem near_limit_exact_witness:
  "near_limit (cursor_new 7 90 100) \<and> \<not> near_limit (cursor_new 7 89 100)"
  using near_limit_exact[of "cursor_new 7 90 100"] near_limit_exact[of "cursor_new 7 89 100"]
  by (simp add: cursor_new_def)

end
