(* ===== verification/Authority.thy ===== *)
theory Authority
  imports Node_Types
begin

text \<open>
  Partitions and authority, \<^verbatim>\<open>core-rs/src/partition.rs\<close>: the Denning lattice class, capability
  bits and causal scopes, edge labels and their compiled form, the three-step \<open>authority_gate\<close>,
  cross-partition dependency metadata and the partition registry.  Capability bits, scopes and
  lattice classes all compare by bitmask inclusion; the locale \<open>bit_inclusion\<close> is that shared
  contract.
\<close>

section \<open>Lattice classes, capabilities, scopes\<close>

type_synonym lattice_class = u64

definition CLASS_BOTTOM :: lattice_class where "CLASS_BOTTOM = 0"
definition CLASS_TOP :: lattice_class where "CLASS_TOP = - 1"

definition flows_to :: "lattice_class \<Rightarrow> lattice_class \<Rightarrow> bool" where
  "flows_to a b = (a AND b = a)"

type_synonym capability_bits = u64

definition CAP_NONE :: capability_bits where "CAP_NONE = 0"
definition CAP_ALL :: capability_bits where "CAP_ALL = - 1"
definition CAP_READ :: capability_bits where "CAP_READ = push_bit 0 1"
definition CAP_PROPAGATE :: capability_bits where "CAP_PROPAGATE = push_bit 1 1"
definition CAP_STABILIZE :: capability_bits where "CAP_STABILIZE = push_bit 2 1"

definition allows :: "capability_bits \<Rightarrow> capability_bits \<Rightarrow> bool" where
  "allows granted required = (granted AND required = required)"

record causal_scope =
  scope_bits :: u64
  scope_root :: partition_id

definition SCOPE_UNIVERSAL :: causal_scope where
  "SCOPE_UNIVERSAL = \<lparr>scope_bits = - 1, scope_root = 0\<rparr>"

definition scope_contains :: "causal_scope \<Rightarrow> u64 \<Rightarrow> bool" where
  "scope_contains s bits = (scope_bits s AND bits = bits)"

locale bit_inclusion =
  fixes below :: "'w::len word \<Rightarrow> 'w word \<Rightarrow> bool"
  assumes below_iff: "below a b = (a AND b = a)"
begin

lemma below_bit: "below a b = (\<forall>n < LENGTH('w). bit a n \<longrightarrow> bit b n)"
  unfolding below_iff by (auto simp: bit_eq_iff bit_and_iff)

lemma below_refl: "below a a"
  by (simp add: below_iff)

lemma below_trans: "below a b \<Longrightarrow> below b c \<Longrightarrow> below a c"
  unfolding below_iff by (rule word_and_subset_trans)

lemma below_antisym: "below a b \<Longrightarrow> below b a \<Longrightarrow> a = b"
  unfolding below_iff by (rule word_and_subset_antisym)

lemma below_zero: "below 0 a" and below_max: "below a (- 1)"
  by (simp_all add: below_iff)

lemma below_and: "below a (b AND c) = (below a b \<and> below a c)"
  unfolding below_bit by (auto simp: bit_and_iff)

lemma and_below: "below (a AND b) a" "below (a AND b) b"
  unfolding below_bit by (auto simp: bit_and_iff)

end

interpretation flows: bit_inclusion flows_to
  by unfold_locales (rule flows_to_def)

interpretation cap: bit_inclusion "\<lambda>required granted. allows granted required"
  by unfold_locales (simp add: allows_def and.commute)

interpretation scp: bit_inclusion "\<lambda>bits sb. scope_contains \<lparr>scope_bits = sb, scope_root = r\<rparr> bits" for r
  by unfold_locales (simp add: scope_contains_def and.commute)

section \<open>Edge labels\<close>

record edge_label =
  el_capability :: capability_bits
  el_lattice_class :: lattice_class
  el_projection_mask :: projection_mask
  el_causal_scope :: causal_scope

definition edge_label_permissive :: edge_label where
  "edge_label_permissive = \<lparr>el_capability = CAP_ALL, el_lattice_class = CLASS_BOTTOM,
     el_projection_mask = mask_wildcard, el_causal_scope = SCOPE_UNIVERSAL\<rparr>"

record compiled_edge_label =
  capability :: capability_bits
  lattice_class :: lattice_class
  projection_mask :: projection_mask
  causal_scope_bits :: u64

definition compiled_permissive :: compiled_edge_label where
  "compiled_permissive = \<lparr>capability = CAP_ALL, lattice_class = CLASS_BOTTOM,
     projection_mask = mask_wildcard, causal_scope_bits = - 1\<rparr>"

definition label_compile :: "edge_label \<Rightarrow> compiled_edge_label" where
  "label_compile l = \<lparr>capability = el_capability l, lattice_class = el_lattice_class l,
     projection_mask = el_projection_mask l, causal_scope_bits = scope_bits (el_causal_scope l)\<rparr>"

section \<open>Cross-partition dependencies\<close>

datatype zero_kind = Conflict | Incomplete | Ambiguous | Retracted | BoundaryViolation | VersionSkew
datatype payload_kind = Definite | TypedZero zero_kind

record remote_dep =
  source_partition :: partition_id
  source_uid :: uid
  source_version :: u64
  rd_port_kind :: port_kind
  causal_frontier :: vector_clock
  rd_payload_kind :: payload_kind
  source_authority :: partition_id
  emitted_class :: lattice_class
  rd_capability :: capability_bits
  rd_causal_scope :: causal_scope

definition remote_dep_new ::
  "partition_id \<Rightarrow> uid \<Rightarrow> u64 \<Rightarrow> port_kind \<Rightarrow> vector_clock \<Rightarrow> payload_kind \<Rightarrow> remote_dep" where
  "remote_dep_new sp su sv pk cf pl = \<lparr>source_partition = sp, source_uid = su, source_version = sv,
     rd_port_kind = pk, causal_frontier = cf, rd_payload_kind = pl, source_authority = 0,
     emitted_class = CLASS_BOTTOM, rd_capability = CAP_ALL, rd_causal_scope = SCOPE_UNIVERSAL\<rparr>"

definition with_authority ::
  "remote_dep \<Rightarrow> partition_id \<Rightarrow> lattice_class \<Rightarrow> capability_bits \<Rightarrow> causal_scope \<Rightarrow> remote_dep" where
  "with_authority d sa ec c cs =
     d\<lparr>source_authority := sa, emitted_class := ec, rd_capability := c, rd_causal_scope := cs\<rparr>"

definition remote_is_zero :: "remote_dep \<Rightarrow> bool" where
  "remote_is_zero d = (case rd_payload_kind d of TypedZero _ \<Rightarrow> True | Definite \<Rightarrow> False)"

definition remote_zero_kind :: "remote_dep \<Rightarrow> zero_kind option" where
  "remote_zero_kind d = (case rd_payload_kind d of TypedZero k \<Rightarrow> Some k | Definite \<Rightarrow> None)"

datatype dep_kind = Local "port option" | Remote remote_dep

definition dep_port_kind :: "dep_kind \<Rightarrow> port_kind" where
  "dep_port_kind d = (case d of Local (Some p) \<Rightarrow> port_kind p | Local None \<Rightarrow> Signal
     | Remote r \<Rightarrow> rd_port_kind r)"

definition dep_port_name :: "dep_kind \<Rightarrow> string option" where
  "dep_port_name d = (case d of Local (Some p) \<Rightarrow> Some (port_name p) | _ \<Rightarrow> None)"

definition dep_is_remote :: "dep_kind \<Rightarrow> bool" where
  "dep_is_remote d = (case d of Remote _ \<Rightarrow> True | Local _ \<Rightarrow> False)"

definition dep_remote :: "dep_kind \<Rightarrow> remote_dep option" where
  "dep_remote d = (case d of Remote r \<Rightarrow> Some r | Local _ \<Rightarrow> None)"

section \<open>Partitions\<close>

record partition_decl =
  pd_id :: partition_id
  authority_root :: partition_id
  pd_lattice_class :: lattice_class
  causal_domain :: causal_scope

type_synonym partition_registry = "partition_id \<Rightarrow> partition_decl option"

definition partition_register :: "partition_registry \<Rightarrow> partition_decl \<Rightarrow> partition_registry" where
  "partition_register r d = r(pd_id d \<mapsto> d)"

definition partition_decl_of :: "partition_registry \<Rightarrow> partition_id \<Rightarrow> partition_decl option" where
  "partition_decl_of r p = r p"

definition compile_label ::
  "partition_registry \<Rightarrow> edge_label \<Rightarrow> partition_id option \<Rightarrow> compiled_edge_label" where
  "compile_label r l src =
     (let compiled = label_compile l in
      case src of
        None \<Rightarrow> compiled
      | Some pid \<Rightarrow>
          (case r pid of
             None \<Rightarrow> compiled
           | Some d \<Rightarrow> compiled\<lparr>causal_scope_bits :=
               causal_scope_bits compiled AND scope_bits (causal_domain d)\<rparr>))"

section \<open>Emitted authority and the gate\<close>

record emitted_auth =
  ea_source_root :: partition_id
  ea_class :: lattice_class
  ea_capability :: capability_bits
  ea_scope_bits :: u64

definition emitted_from_remote :: "remote_dep \<Rightarrow> emitted_auth" where
  "emitted_from_remote d = \<lparr>ea_source_root = source_authority d, ea_class = emitted_class d,
     ea_capability = rd_capability d, ea_scope_bits = scope_bits (rd_causal_scope d)\<rparr>"

definition emitted_from_local :: "compiled_edge_label \<Rightarrow> partition_decl \<Rightarrow> emitted_auth" where
  "emitted_from_local l p = \<lparr>ea_source_root = authority_root p, ea_class = pd_lattice_class p,
     ea_capability = capability l, ea_scope_bits = causal_scope_bits l\<rparr>"

definition emitted_unbound :: emitted_auth where
  "emitted_unbound = \<lparr>ea_source_root = 0, ea_class = CLASS_BOTTOM, ea_capability = CAP_ALL,
     ea_scope_bits = - 1\<rparr>"

datatype gate_reason =
    CapabilityDenied capability_bits capability_bits
  | ScopeViolation u64 u64
  | LatticeViolation lattice_class lattice_class
  | UnboundSource

definition authority_gate :: "compiled_edge_label \<Rightarrow> emitted_auth \<Rightarrow> gate_reason + unit" where
  "authority_gate c e =
     (if \<not> allows (capability c) (ea_capability e)
        then Inl (CapabilityDenied (capability c) (ea_capability e))
      else if \<not> scope_contains \<lparr>scope_bits = causal_scope_bits c, scope_root = 0\<rparr> (ea_scope_bits e)
        then Inl (ScopeViolation (causal_scope_bits c) (ea_scope_bits e))
      else if \<not> flows_to (ea_class e) (lattice_class c)
        then Inl (LatticeViolation (lattice_class c) (ea_class e))
      else Inr ())"

datatype authority_mode = Advisory | Audit | Enforced
datatype unbound_policy = Allow | AuditOnly | Deny

definition unbound_default_for :: "authority_mode \<Rightarrow> unbound_policy" where
  "unbound_default_for m = (case m of Advisory \<Rightarrow> Allow | Audit \<Rightarrow> AuditOnly | Enforced \<Rightarrow> Deny)"

text \<open>
  \<open>authority_gate\<close> accepts exactly when each of the three bitmasks is included in what the
  label grants (every emitted capability, every scope bit, every class bit), and a refusal names
  the first inclusion that fails, in the order capability, scope, class.
\<close>

theorem authority_gate_iff:
  "(authority_gate c e = Inr ()) =
     ((\<forall>n < 64. (bit (ea_capability e) n \<longrightarrow> bit (capability c) n)
         \<and> (bit (ea_scope_bits e) n \<longrightarrow> bit (causal_scope_bits c) n)
         \<and> (bit (ea_class e) n \<longrightarrow> bit (lattice_class c) n)))
   \<and> (authority_gate c e = Inl (CapabilityDenied (capability c) (ea_capability e)))
       = (\<not> allows (capability c) (ea_capability e))
   \<and> (authority_gate c e = Inl (LatticeViolation (lattice_class c) (ea_class e)))
       = (allows (capability c) (ea_capability e)
          \<and> scope_contains \<lparr>scope_bits = causal_scope_bits c, scope_root = 0\<rparr> (ea_scope_bits e)
          \<and> \<not> flows_to (ea_class e) (lattice_class c))"
  using cap.below_bit[where a="ea_capability e" and b="capability c"]
    scp.below_bit[where r=0 and a="ea_scope_bits e" and b="causal_scope_bits c"]
    flows.below_bit[where a="ea_class e" and b="lattice_class c"]
  by (auto simp: authority_gate_def)

theorem authority_gate_iff_witness:
  "authority_gate
      \<lparr>capability = 6, lattice_class = 3, projection_mask = mask_wildcard, causal_scope_bits = 12\<rparr>
      \<lparr>ea_source_root = 0, ea_class = 4, ea_capability = 4, ea_scope_bits = 8\<rparr> = Inl (LatticeViolation 3 4)
   \<and> authority_gate
      \<lparr>capability = 6, lattice_class = 3, projection_mask = mask_wildcard, causal_scope_bits = 12\<rparr>
      \<lparr>ea_source_root = 0, ea_class = 4, ea_capability = 1, ea_scope_bits = 8\<rparr> = Inl (CapabilityDenied 6 1)"
  using authority_gate_iff[of
      "\<lparr>capability = 6, lattice_class = 3, projection_mask = mask_wildcard, causal_scope_bits = 12\<rparr>"
      "\<lparr>ea_source_root = 0, ea_class = 4, ea_capability = 4, ea_scope_bits = 8\<rparr>"]
    authority_gate_iff[of
      "\<lparr>capability = 6, lattice_class = 3, projection_mask = mask_wildcard, causal_scope_bits = 12\<rparr>"
      "\<lparr>ea_source_root = 0, ea_class = 4, ea_capability = 1, ea_scope_bits = 8\<rparr>"]
  by (simp add: allows_def flows_to_def scope_contains_def)

lemma gate_from_local:
  "authority_gate l (emitted_from_local l p) =
     (if flows_to (pd_lattice_class p) (lattice_class l) then Inr ()
      else Inl (LatticeViolation (lattice_class l) (pd_lattice_class p)))"
  by (simp add: authority_gate_def emitted_from_local_def allows_def scope_contains_def)

text \<open>
  Inside a partition the gate is the lattice check alone: the authority derived from the
  label itself can never fail the capability or the scope test, so a push from a bound node is
  refused exactly when the partition's class does not flow into the label's class.  With the
  permissive default label only a partition of bottom class is let through.
\<close>

theorem local_gate_is_lattice_check:
  "(authority_gate l (emitted_from_local l p) = Inr ()) = flows_to (pd_lattice_class p) (lattice_class l)
   \<and> (\<forall>a b. authority_gate l (emitted_from_local l p) \<noteq> Inl (CapabilityDenied a b)
        \<and> authority_gate l (emitted_from_local l p) \<noteq> Inl (ScopeViolation a b))
   \<and> (authority_gate compiled_permissive (emitted_from_local compiled_permissive p) = Inr ())
       = (pd_lattice_class p = CLASS_BOTTOM)"
  by (simp add: gate_from_local compiled_permissive_def CLASS_BOTTOM_def flows_to_def)

text \<open>
  Compiling a label never widens it: with a known, declared source partition the compiled
  scope is the intersection of the label's scope and the partition's domain, and without one it
  is the label's own scope; capability, class and projection pass through unchanged.
\<close>

theorem compile_label_narrows:
  "capability (compile_label r l src) = el_capability l
   \<and> lattice_class (compile_label r l src) = el_lattice_class l
   \<and> projection_mask (compile_label r l src) = el_projection_mask l
   \<and> scope_contains (el_causal_scope l) (causal_scope_bits (compile_label r l src))
   \<and> (r pid = Some d \<longrightarrow> causal_scope_bits (compile_label r l (Some pid))
        = scope_bits (el_causal_scope l) AND scope_bits (causal_domain d)
        \<and> scope_contains (causal_domain d) (causal_scope_bits (compile_label r l (Some pid))))
   \<and> causal_scope_bits (compile_label r l None) = scope_bits (el_causal_scope l)"
  by (auto simp: compile_label_def label_compile_def Let_def scope_contains_def ac_simps
      split: option.splits)

theorem compile_label_narrows_witness:
  "[7 \<mapsto> \<lparr>pd_id = 7, authority_root = 7, pd_lattice_class = 0,
      causal_domain = \<lparr>scope_bits = 12, scope_root = 7\<rparr>\<rparr>] (7 :: u128) \<noteq> None
   \<and> causal_scope_bits (compile_label [7 \<mapsto> \<lparr>pd_id = 7, authority_root = 7, pd_lattice_class = 0,
      causal_domain = \<lparr>scope_bits = 12, scope_root = 7\<rparr>\<rparr>]
      (edge_label_permissive\<lparr>el_causal_scope := \<lparr>scope_bits = 10, scope_root = 0\<rparr>\<rparr>) (Some 7)) = 8"
  using compile_label_narrows[of "[7 \<mapsto> \<lparr>pd_id = 7, authority_root = 7, pd_lattice_class = 0,
      causal_domain = \<lparr>scope_bits = 12, scope_root = 7\<rparr>\<rparr>]"
      "edge_label_permissive\<lparr>el_causal_scope := \<lparr>scope_bits = 10, scope_root = 0\<rparr>\<rparr>" None 7
      "\<lparr>pd_id = 7, authority_root = 7, pd_lattice_class = 0,
      causal_domain = \<lparr>scope_bits = 12, scope_root = 7\<rparr>\<rparr>"]
  by simp

end
