(* ===== verification/Sess_Auth.thy ===== *)
theory Sess_Auth
  imports Opcode_Admission Authority
begin

text \<open>
  Partition-scoped authority, \<^verbatim>\<open>session-rs/src/auth.rs\<close>: the four-dimensional policies with their
  intersection, the rows of the authority table and its gate.  \<open>ceiling\<close> is what the rest of the
  session layer relies on: a policy clipped by a ceiling stays within it.
\<close>

section \<open>Policies\<close>

record authority_policy =
  assertion :: u64
  delegation :: u64
  observability :: u64
  disclosure :: u64

definition POLICY_ALL :: authority_policy where
  "POLICY_ALL = \<lparr>assertion = - 1, delegation = - 1, observability = - 1, disclosure = - 1\<rparr>"

definition POLICY_NONE :: authority_policy where
  "POLICY_NONE = \<lparr>assertion = 0, delegation = 0, observability = 0, disclosure = 0\<rparr>"

definition POLICY_READ_ONLY :: authority_policy where
  "POLICY_READ_ONLY = \<lparr>assertion = 0, delegation = 0, observability = - 1, disclosure = - 1\<rparr>"

definition intersect :: "authority_policy \<Rightarrow> authority_policy \<Rightarrow> authority_policy" where
  "intersect p q = \<lparr>assertion = assertion p AND assertion q, delegation = delegation p AND delegation q,
     observability = observability p AND observability q, disclosure = disclosure p AND disclosure q\<rparr>"

definition is_bounded_by :: "authority_policy \<Rightarrow> authority_policy \<Rightarrow> bool" where
  "is_bounded_by p c = (p = intersect p c)"

fun for_opcode_class :: "authority_policy \<Rightarrow> opcode_class \<Rightarrow> u64" where
  "for_opcode_class p OC_Control = assertion p"
| "for_opcode_class p OC_SetValue = assertion p"
| "for_opcode_class p OC_Propagate = assertion p"
| "for_opcode_class p OC_Stabilize = assertion p"
| "for_opcode_class p OC_Data = assertion p"
| "for_opcode_class p OC_Subscribe = observability p"
| "for_opcode_class p OC_Demand = observability p"
| "for_opcode_class p OC_Profile = delegation p"
| "for_opcode_class p OC_Unknown = 0"

section \<open>The authority table\<close>

datatype auth_axis = AX_Assertion | AX_Delegation | AX_Observability | AX_Disclosure

record auth_row =
  row_class :: lattice_class
  row_policy :: authority_policy

definition row_permissive :: auth_row where
  "row_permissive = \<lparr>row_class = CLASS_BOTTOM, row_policy = POLICY_NONE\<rparr>"

datatype dataplane_reason = DG_LatticeViolation | DG_PolicyViolation auth_axis
datatype gate_result = GR_Allow | GR_Deny dataplane_reason

definition is_allowed :: "gate_result \<Rightarrow> bool" where
  "is_allowed r = (r = GR_Allow)"

text \<open>The key of a row is its partition and opcode class.\<close>

type_synonym auth_key = "wire_partition_id \<times> opcode_class"
type_synonym auth_table = "auth_key \<Rightarrow> auth_row option"

definition auth_new :: auth_table where "auth_new = Map.empty"

definition auth_install :: "auth_table \<Rightarrow> auth_key \<Rightarrow> auth_row \<Rightarrow> auth_table" where
  "auth_install t k r = t(k \<mapsto> r)"

definition auth_remove :: "auth_table \<Rightarrow> auth_key \<Rightarrow> auth_table" where
  "auth_remove t k = t(k := None)"

definition violated_axis :: "opcode_class \<Rightarrow> auth_axis" where
  "violated_axis c = (case c of OC_Subscribe \<Rightarrow> AX_Observability | OC_Demand \<Rightarrow> AX_Observability
     | OC_Profile \<Rightarrow> AX_Delegation | _ \<Rightarrow> AX_Assertion)"

definition gate ::
  "auth_table \<Rightarrow> wire_partition_id \<Rightarrow> opcode_class \<Rightarrow> lattice_class \<Rightarrow> authority_policy \<Rightarrow> gate_result" where
  "gate t pid c emitted session_policy = (case t (pid, c) of
      None \<Rightarrow> GR_Allow
    | Some row \<Rightarrow>
        if \<not> flows_to emitted (row_class row) then GR_Deny DG_LatticeViolation
        else
          let session_dim = for_opcode_class session_policy c;
              required_dim = for_opcode_class (row_policy row) c in
          if session_dim AND required_dim \<noteq> required_dim
            then GR_Deny (DG_PolicyViolation (violated_axis c))
          else GR_Allow)"

section \<open>Ceilings\<close>

locale ceiling =
  fixes clip :: "'p \<Rightarrow> 'p \<Rightarrow> 'p" and within :: "'p \<Rightarrow> 'p \<Rightarrow> bool"
  assumes within_iff: "within p c \<longleftrightarrow> p = clip p c"
    and clip_assoc: "clip (clip p q) r = clip p (clip q r)"
    and clip_comm: "clip p q = clip q p"
    and clip_idem: "clip p p = p"
begin

lemma within_refl: "within p p"
  by (simp add: within_iff clip_idem)

lemma within_trans: "within p q \<Longrightarrow> within q r \<Longrightarrow> within p r"
  by (metis within_iff clip_assoc)

lemma within_antisym: "within p q \<Longrightarrow> within q p \<Longrightarrow> p = q"
  by (metis within_iff clip_comm)

lemma clip_within: "within (clip p c) c" "within (clip p c) p"
  by (metis within_iff clip_assoc clip_idem clip_comm)+

lemma clip_greatest: "within r p \<Longrightarrow> within r c \<Longrightarrow> within r (clip p c)"
  by (metis within_iff clip_assoc)

lemma clip_twice: "clip (clip p c) c = clip p c"
  by (simp add: clip_assoc clip_idem)

lemma clip_eq: "within p c \<longleftrightarrow> clip p c = p"
  by (auto simp: within_iff)

end

interpretation policy: ceiling intersect is_bounded_by
  by unfold_locales (simp_all add: is_bounded_by_def intersect_def ac_simps)

text \<open>A policy is bounded by another when each axis is included in the other's.\<close>

definition axes_included :: "authority_policy \<Rightarrow> authority_policy \<Rightarrow> bool" where
  "axes_included p c = (flows_to (assertion p) (assertion c) \<and> flows_to (delegation p) (delegation c)
     \<and> flows_to (observability p) (observability c) \<and> flows_to (disclosure p) (disclosure c))"

lemma bounded_axes: "is_bounded_by p c = axes_included p c"
  by (cases p; cases c) (auto simp: is_bounded_by_def intersect_def axes_included_def flows_to_def)

lemma bounded_disclosure: "is_bounded_by p c \<Longrightarrow> flows_to (disclosure p) (disclosure c)"
  by (simp add: bounded_axes axes_included_def)

lemma bounded_for_class: "is_bounded_by p c \<Longrightarrow> flows_to (for_opcode_class p k) (for_opcode_class c k)"
  by (cases k) (auto simp: bounded_axes axes_included_def flows_to_def)

lemma for_class_intersect:
  "for_opcode_class (intersect p q) k = for_opcode_class p k AND for_opcode_class q k"
  by (cases k) (simp_all add: intersect_def)

lemma bounded_ALL [simp]: "is_bounded_by p POLICY_ALL"
  by (simp add: bounded_axes axes_included_def flows_to_def POLICY_ALL_def)

lemma bounded_NONE [simp]: "is_bounded_by POLICY_NONE p"
  by (simp add: bounded_axes axes_included_def flows_to_def POLICY_NONE_def)

section \<open>The gate\<close>

lemma gate_allow_iff:
  "gate t pid c em pol = GR_Allow \<longleftrightarrow>
     (\<forall>row. t (pid, c) = Some row \<longrightarrow>
        flows_to em (row_class row) \<and> flows_to (for_opcode_class (row_policy row) c) (for_opcode_class pol c))"
  by (auto simp: gate_def flows_to_def and.commute Let_def split: option.splits)

lemma gate_mono:
  assumes "gate t pid c em p = GR_Allow" "is_bounded_by p q" "flows_to em' em"
  shows "gate t pid c em' q = GR_Allow"
  using assms bounded_for_class[OF assms(2), of c]
  by (auto simp: gate_allow_iff intro: flows.below_trans)

lemma gate_unknown_axis: "gate t pid c em p = GR_Deny (DG_PolicyViolation a) \<Longrightarrow> a = violated_axis c \<and> c \<noteq> OC_Unknown"
  by (cases c) (auto simp: gate_def Let_def split: option.splits if_splits)

lemma gate_permissive: "t (pid, c) \<in> {None, Some row_permissive} \<Longrightarrow> gate t pid c CLASS_BOTTOM p = GR_Allow"
  by (cases c) (auto simp: gate_def Let_def row_permissive_def POLICY_NONE_def flows_to_def CLASS_BOTTOM_def)

lemma gate_cong: "t (pid, c) = t' (pid, c) \<Longrightarrow> gate t pid c em p = gate t' pid c em p"
  by (simp add: gate_def)

lemma gate_other_key:
  assumes "(pid', c') \<noteq> (pid, c)"
  shows "gate (auth_install t (pid', c') r) pid c em p = gate t pid c em p"
    and "gate (auth_remove t (pid', c')) pid c em p = gate t pid c em p"
  using assms by (auto intro!: gate_cong simp: auth_install_def auth_remove_def)

lemma gate_same_key:
  "gate (auth_remove t (pid, c)) pid c em p = GR_Allow"
  "gate (auth_install t (pid, c) r) pid c em p = gate [(pid, c) \<mapsto> r] pid c em p"
  by (simp_all add: gate_def auth_install_def auth_remove_def)

lemma gate_policy_denied:
  "gate t pid c em p = GR_Deny (DG_PolicyViolation a) \<Longrightarrow> gate t pid c em POLICY_ALL = GR_Allow"
  by (cases c) (auto simp: gate_def Let_def POLICY_ALL_def split: option.splits if_splits)

text \<open>
  The dataplane gate admits a record exactly when no row is installed for its partition and
  class, or the emitted class flows into the row's class and the session holds every bit that the
  row requires on the axis of the opcode class; a refusal for want of bits names that axis, and
  happens only after the class check passed; a session with more authority, or a record of a lower
  class, is never refused where a lesser one passes; installing or removing a row changes the
  verdict of no other partition and class.
\<close>

theorem dataplane_gate_exact:
  assumes "is_bounded_by p q" "flows_to em' em" "(pid', c') \<noteq> (pid, c)"
  shows "(gate t pid c em p = GR_Allow) = (case t (pid, c) of None \<Rightarrow> True | Some row \<Rightarrow>
           (\<forall>n < 64. bit em n \<longrightarrow> bit (row_class row) n)
         \<and> (\<forall>n < 64. bit (for_opcode_class (row_policy row) c) n \<longrightarrow> bit (for_opcode_class p c) n))
    \<and> (gate t pid c em p = GR_Deny (DG_PolicyViolation a) \<longrightarrow> a = violated_axis c \<and> c \<noteq> OC_Unknown
         \<and> gate t pid c em POLICY_ALL = GR_Allow)
    \<and> (gate t pid c em p = GR_Allow \<longrightarrow> gate t pid c em' q = GR_Allow)
    \<and> gate (auth_install t (pid', c') row) pid c em p = gate t pid c em p
    \<and> gate (auth_remove t (pid', c')) pid c em p = gate t pid c em p
    \<and> gate (auth_remove t (pid, c)) pid c em p = GR_Allow"
proof (intro conjI impI)
  show "(gate t pid c em p = GR_Allow) = (case t (pid, c) of None \<Rightarrow> True | Some row \<Rightarrow>
           (\<forall>n < 64. bit em n \<longrightarrow> bit (row_class row) n)
         \<and> (\<forall>n < 64. bit (for_opcode_class (row_policy row) c) n \<longrightarrow> bit (for_opcode_class p c) n))"
    by (simp add: gate_allow_iff flows.below_bit split: option.split)
qed (use gate_other_key[OF assms(3)] gate_same_key gate_mono[OF _ assms(1,2)] in
      \<open>auto dest: gate_unknown_axis gate_policy_denied\<close>)

theorem dataplane_gate_exact_witness:
  "gate (auth_install auth_new (9, OC_SetValue) \<lparr>row_class = 1, row_policy = POLICY_NONE\<lparr>assertion := 6\<rparr>\<rparr>)
      9 OC_SetValue 0 (POLICY_NONE\<lparr>assertion := 7\<rparr>) = GR_Allow
   \<and> gate (auth_install auth_new (9, OC_SetValue) \<lparr>row_class = 1, row_policy = POLICY_NONE\<lparr>assertion := 6\<rparr>\<rparr>)
      9 OC_Demand 2 POLICY_NONE = GR_Allow"
  using dataplane_gate_exact[of "POLICY_NONE\<lparr>assertion := 6\<rparr>" "POLICY_NONE\<lparr>assertion := 7\<rparr>" 0 1 8 OC_SetValue 9 OC_SetValue
      "auth_install auth_new (9, OC_SetValue) \<lparr>row_class = 1, row_policy = POLICY_NONE\<lparr>assertion := 6\<rparr>\<rparr>" AX_Assertion]
    dataplane_gate_exact[of POLICY_NONE POLICY_NONE 2 2 9 OC_SetValue 9 OC_Demand auth_new]
  by (simp add: gate_def auth_install_def auth_new_def is_bounded_by_def intersect_def POLICY_NONE_def flows_to_def)

end
