(* ===== verification/Domain.thy ===== *)
theory Domain
  imports Sess_Auth
begin

text \<open>
  The domain hierarchy, \<^verbatim>\<open>session-rs/src/domain.rs\<close>: fabric addresses with their scopes, the
  tenant, session, partition and shard domains and their registry.  The registry's tables that the
  code iterates over (\<open>partitions\<close>, \<open>shards\<close>) are association lists whose order stands for the
  iteration order of the hash map.
\<close>

section \<open>Fabric addresses\<close>

record fabric_addr =
  fa_region :: u16
  fa_pod :: u16
  fa_rack :: u16
  fa_leaf :: u16

datatype fabric_scope = FS_Leaf | FS_Rack | FS_Pod | FS_Region | FS_Remote

fun scope_rank :: "fabric_scope \<Rightarrow> nat" where
  "scope_rank FS_Leaf = 0"
| "scope_rank FS_Rack = 1"
| "scope_rank FS_Pod = 2"
| "scope_rank FS_Region = 3"
| "scope_rank FS_Remote = 4"

lemma scope_rank_inj: "scope_rank a = scope_rank b \<Longrightarrow> a = b"
  by (cases a; cases b) simp_all

text \<open>The derived order of the enum is that of its discriminants.\<close>

instantiation fabric_scope :: linorder
begin

definition less_eq_fabric_scope :: "fabric_scope \<Rightarrow> fabric_scope \<Rightarrow> bool" where
  "a \<le> b \<longleftrightarrow> scope_rank a \<le> scope_rank b"

definition less_fabric_scope :: "fabric_scope \<Rightarrow> fabric_scope \<Rightarrow> bool" where
  "a < b \<longleftrightarrow> scope_rank a < scope_rank b"

instance
  by standard (auto simp: less_eq_fabric_scope_def less_fabric_scope_def intro: scope_rank_inj)

end

definition fabric_scope_of :: "fabric_addr \<Rightarrow> fabric_addr \<Rightarrow> fabric_scope" where
  "fabric_scope_of a b =
     (if fa_region a \<noteq> fa_region b then FS_Remote
      else if fa_pod a \<noteq> fa_pod b then FS_Region
      else if fa_rack a \<noteq> fa_rack b then FS_Pod
      else if fa_leaf a \<noteq> fa_leaf b then FS_Rack
      else FS_Leaf)"

fun scope_hops :: "fabric_scope \<Rightarrow> u32" where
  "scope_hops FS_Leaf = 1"
| "scope_hops FS_Rack = 2"
| "scope_hops FS_Pod = 4"
| "scope_hops FS_Region = 8"
| "scope_hops FS_Remote = 16"

definition hop_distance :: "fabric_addr \<Rightarrow> fabric_addr \<Rightarrow> u32" where
  "hop_distance a b = scope_hops (fabric_scope_of a b)"

fun scope_class :: "fabric_scope \<Rightarrow> lattice_class" where
  "scope_class FS_Leaf = 1"
| "scope_class FS_Rack = 3"
| "scope_class FS_Pod = 7"
| "scope_class FS_Region = 15"
| "scope_class FS_Remote = CLASS_TOP"

definition addr_locality_class :: "fabric_addr \<Rightarrow> fabric_addr \<Rightarrow> lattice_class" where
  "addr_locality_class a b = scope_class (fabric_scope_of a b)"

section \<open>Domains\<close>

record tenant_quota =
  max_sessions :: u32
  max_records_per_sec :: u32

definition tenant_quota_default :: tenant_quota where
  "tenant_quota_default = \<lparr>max_sessions = 1024, max_records_per_sec = 100000\<rparr>"

record session_quota =
  max_inflight :: u32
  max_partitions :: u32

definition session_quota_default :: session_quota where
  "session_quota_default = \<lparr>max_inflight = 4096, max_partitions = 256\<rparr>"

record tenant_domain =
  td_id :: tenant_id
  td_policy :: authority_policy
  td_quota :: tenant_quota

definition single_tenant :: tenant_domain where
  "single_tenant = \<lparr>td_id = 0, td_policy = POLICY_ALL, td_quota = tenant_quota_default\<rparr>"

record session_domain =
  sd_id :: session_id
  sd_tenant_id :: tenant_id
  claimed_policy :: authority_policy
  sd_auth_mode :: authority_mode
  sd_quota :: session_quota

record partition_domain =
  pt_id :: wire_partition_id
  pt_session_id :: session_id
  pt_lattice_class :: lattice_class
  pt_causal_scope :: u64
  pt_shard_id :: shard_id

record shard_domain =
  sh_id :: shard_id
  sh_addr :: "fabric_addr option"

record domain_registry =
  dr_tenants :: "tenant_id \<Rightarrow> tenant_domain option"
  dr_sessions :: "session_id \<Rightarrow> session_domain option"
  dr_partitions :: "(wire_partition_id, partition_domain) amap"
  dr_shards :: "(shard_id, shard_domain) amap"

definition domains_new :: domain_registry where
  "domains_new = \<lparr>dr_tenants = Map.empty, dr_sessions = Map.empty, dr_partitions = [], dr_shards = []\<rparr>"

definition register_tenant :: "domain_registry \<Rightarrow> tenant_domain \<Rightarrow> domain_registry" where
  "register_tenant d t = d\<lparr>dr_tenants := (dr_tenants d)(td_id t \<mapsto> t)\<rparr>"

definition register_session :: "domain_registry \<Rightarrow> session_domain \<Rightarrow> domain_registry" where
  "register_session d s = d\<lparr>dr_sessions := (dr_sessions d)(sd_id s \<mapsto> s)\<rparr>"

definition register_partition :: "domain_registry \<Rightarrow> partition_domain \<Rightarrow> domain_registry" where
  "register_partition d p = d\<lparr>dr_partitions := aput (pt_id p) p (dr_partitions d)\<rparr>"

definition domains_register_shard :: "domain_registry \<Rightarrow> shard_domain \<Rightarrow> domain_registry" where
  "domains_register_shard d s = d\<lparr>dr_shards := aput (sh_id s) s (dr_shards d)\<rparr>"

definition effective_policy :: "domain_registry \<Rightarrow> session_id \<Rightarrow> authority_policy option" where
  "effective_policy d sid = (case dr_sessions d sid of
      None \<Rightarrow> None
    | Some s \<Rightarrow> (case dr_tenants d (sd_tenant_id s) of
        None \<Rightarrow> None
      | Some t \<Rightarrow> Some (intersect (claimed_policy s) (td_policy t))))"

definition session_allows :: "domain_registry \<Rightarrow> session_id \<Rightarrow> authority_policy \<Rightarrow> bool" where
  "session_allows d sid required = (case effective_policy d sid of
      Some eff \<Rightarrow> is_bounded_by required eff
    | None \<Rightarrow> False)"

definition shard_addr :: "domain_registry \<Rightarrow> shard_id \<Rightarrow> fabric_addr option" where
  "shard_addr d a = Option.bind (aget (dr_shards d) a) sh_addr"

definition shard_locality_class :: "domain_registry \<Rightarrow> shard_id \<Rightarrow> shard_id \<Rightarrow> lattice_class option" where
  "shard_locality_class d a b = (case shard_addr d a of
      None \<Rightarrow> None
    | Some x \<Rightarrow> map_option (addr_locality_class x) (shard_addr d b))"

definition shard_hop_distance :: "domain_registry \<Rightarrow> shard_id \<Rightarrow> shard_id \<Rightarrow> u32 option" where
  "shard_hop_distance d a b = (case shard_addr d a of
      None \<Rightarrow> None
    | Some x \<Rightarrow> map_option (hop_distance x) (shard_addr d b))"

definition locality_radius :: "domain_registry \<Rightarrow> shard_id \<Rightarrow> u32 option" where
  "locality_radius d a = (case shard_addr d a of
      None \<Rightarrow> None
    | Some x \<Rightarrow>
        let others = filter (\<lambda>s. sh_id s \<noteq> a) (map snd (dr_shards d));
            dists = map (hop_distance x) (List.map_filter sh_addr others) in
        Some (case iter_max dists of Some m \<Rightarrow> m | None \<Rightarrow> 0))"

section \<open>The fabric is an ultrametric\<close>

lemma scope_refl [simp]: "fabric_scope_of a a = FS_Leaf"
  by (simp add: fabric_scope_of_def)

lemma scope_comm: "fabric_scope_of a b = fabric_scope_of b a"
  by (simp add: fabric_scope_of_def)

lemma scope_leaf_iff: "fabric_scope_of a b = FS_Leaf \<longleftrightarrow> a = b"
  by (cases a; cases b) (simp add: fabric_scope_of_def)

lemma scope_ultra: "fabric_scope_of a c \<le> max (fabric_scope_of a b) (fabric_scope_of b c)"
  by (simp add: fabric_scope_of_def max_def less_eq_fabric_scope_def)

lemma hops_mono: "scope_hops s \<le> scope_hops t \<longleftrightarrow> s \<le> t"
  by (cases s; cases t) (simp_all add: less_eq_fabric_scope_def word_le_nat_alt)

lemma class_mono: "flows_to (scope_class s) (scope_class t) \<longleftrightarrow> s \<le> t"
  by (cases s; cases t) (simp_all add: less_eq_fabric_scope_def flows_to_def CLASS_TOP_def)

lemma hops_max: "scope_hops (max s t) = max (scope_hops s) (scope_hops t)"
  by (simp add: max_def hops_mono)

lemma hops_range: "1 \<le> scope_hops s \<and> scope_hops s \<le> 16"
  by (cases s) simp_all

lemma scope_hops_pow: "scope_hops s = 2 ^ scope_rank s"
  by (cases s) simp_all

lemma hop_distance_ultra: "hop_distance a c \<le> max (hop_distance a b) (hop_distance b c)"
  by (simp add: hop_distance_def hops_mono scope_ultra flip: hops_max)

lemma locality_radius_sound:
  assumes r: "locality_radius d a = Some r" and x: "shard_addr d a = Some x"
    and s: "(k, s) \<in> set (dr_shards d)" "sh_id s \<noteq> a" "sh_addr s = Some y"
  shows "hop_distance x y \<le> r"
proof -
  let ?ds = "map (hop_distance x) (List.map_filter sh_addr (filter (\<lambda>s. sh_id s \<noteq> a) (map snd (dr_shards d))))"
  have "hop_distance x y \<in> set ?ds"
    using s by (force simp: map_filter_def image_iff)
  with r x show ?thesis
    by (auto simp: locality_radius_def Let_def dest: iter_max_SomeD split: option.splits)
qed

section \<open>Authority is bounded downwards\<close>

lemma effective_bounded:
  assumes "effective_policy d sid = Some p"
  obtains s t where "dr_sessions d sid = Some s" "dr_tenants d (sd_tenant_id s) = Some t"
    "p = intersect (claimed_policy s) (td_policy t)"
    "is_bounded_by p (td_policy t)" "is_bounded_by p (claimed_policy s)"
  using assms policy.clip_within by (auto simp: effective_policy_def split: option.splits)

lemma effective_None_iff:
  "effective_policy d sid = None \<longleftrightarrow>
     dr_sessions d sid = None \<or> (\<exists>s. dr_sessions d sid = Some s \<and> dr_tenants d (sd_tenant_id s) = None)"
  by (auto simp: effective_policy_def split: option.splits)

text \<open>
  The fabric distance is an ultrametric on addresses: symmetric, one exactly for equal
  addresses, a power of two of at most sixteen, and never larger between two shards than the larger
  of their distances to a third; the locality class of a link flows into another exactly when the
  link is no longer; and the locality radius of a shard bounds its distance to every other
  registered shard with a known address and is attained by one, or is zero when there is none.
\<close>

theorem fabric_ultrametric:
  assumes "locality_radius d a = Some r" "shard_addr d a = Some x"
  shows "hop_distance x y = hop_distance y x \<and> (hop_distance x y = 1) = (x = y)
    \<and> (\<exists>n \<le> 4. hop_distance x y = 2 ^ n)
    \<and> hop_distance x z \<le> max (hop_distance x y) (hop_distance y z)
    \<and> flows_to (addr_locality_class x y) (addr_locality_class z w) = (hop_distance x y \<le> hop_distance z w)
    \<and> (\<forall>s b. (s, b) \<in> set (dr_shards d) \<longrightarrow> sh_id b \<noteq> a \<longrightarrow> sh_addr b = Some y \<longrightarrow> hop_distance x y \<le> r)
    \<and> (r = 0 \<or> (\<exists>b y. b \<in> snd ` set (dr_shards d) \<and> sh_id b \<noteq> a \<and> sh_addr b = Some y \<and> r = hop_distance x y))"
proof (intro conjI)
  show "(hop_distance x y = 1) = (x = y)"
    by (cases "fabric_scope_of x y"; simp add: hop_distance_def flip: scope_leaf_iff)
  have "scope_rank (fabric_scope_of x y) \<le> 4" by (cases "fabric_scope_of x y") simp_all
  then show "\<exists>n \<le> 4. hop_distance x y = 2 ^ n" by (auto simp: hop_distance_def scope_hops_pow)
  show "r = 0 \<or> (\<exists>b y. b \<in> snd ` set (dr_shards d) \<and> sh_id b \<noteq> a \<and> sh_addr b = Some y \<and> r = hop_distance x y)"
    using assms by (fastforce simp: locality_radius_def Let_def map_filter_def dest: iter_max_SomeD split: option.splits)
  show "hop_distance x y = hop_distance y x" by (simp add: hop_distance_def scope_comm)
  show "flows_to (addr_locality_class x y) (addr_locality_class z w) = (hop_distance x y \<le> hop_distance z w)"
    by (simp add: hop_distance_def addr_locality_class_def class_mono hops_mono)
qed (auto intro: hop_distance_ultra locality_radius_sound[OF assms])

definition three_shards :: domain_registry where
  "three_shards = fold (\<lambda>s d. domains_register_shard d s)
     [\<lparr>sh_id = 0, sh_addr = Some \<lparr>fa_region = 0, fa_pod = 0, fa_rack = 0, fa_leaf = 0\<rparr>\<rparr>,
      \<lparr>sh_id = 1, sh_addr = Some \<lparr>fa_region = 0, fa_pod = 0, fa_rack = 1, fa_leaf = 0\<rparr>\<rparr>,
      \<lparr>sh_id = 2, sh_addr = Some \<lparr>fa_region = 0, fa_pod = 5, fa_rack = 1, fa_leaf = 0\<rparr>\<rparr>] domains_new"

theorem fabric_ultrametric_witness:
  "locality_radius three_shards 0 = Some 8
   \<and> hop_distance \<lparr>fa_region = 0, fa_pod = 0, fa_rack = 0, fa_leaf = 0\<rparr> \<lparr>fa_region = 0, fa_pod = 5, fa_rack = 1, fa_leaf = 0\<rparr> \<le> 8"
proof -
  have r: "locality_radius three_shards 0 = Some 8"
    and x: "shard_addr three_shards 0 = Some \<lparr>fa_region = 0, fa_pod = 0, fa_rack = 0, fa_leaf = 0\<rparr>"
    by code_simp+
  have "(2, \<lparr>sh_id = 2, sh_addr = Some \<lparr>fa_region = 0, fa_pod = 5, fa_rack = 1, fa_leaf = 0\<rparr>\<rparr>) \<in> set (dr_shards three_shards)"
    by code_simp
  then show ?thesis
    using fabric_ultrametric[OF r x, of "\<lparr>fa_region = 0, fa_pod = 5, fa_rack = 1, fa_leaf = 0\<rparr>"] r by fastforce
qed

end
