(* ===== verification/Session.thy ===== *)
theory Session
  imports Domain
begin

text \<open>
  Sessions and transport paths, \<^verbatim>\<open>session-rs/src/session.rs\<close>: the session table with replay
  floors, path migration and activity counters, the path table, and the reaper.  The order of the
  session table stands for the iteration order of the hash map, in which the reaper visits it.
\<close>

section \<open>State\<close>

datatype path_state = PS_Active | PS_Draining | PS_Closed

record path_entry =
  pe_path_id :: path_id
  pe_session_id :: session_id
  last_ack_stream_seq :: u64
  pe_state :: path_state

record session_entry =
  se_session_id :: session_id
  se_tenant_id :: tenant_id
  active_path_id :: "path_id option"
  prev_path_id :: "path_id option"
  stream_seq_floor :: u64
  se_auth_mode :: authority_mode
  last_active_causal_epoch :: u64
  consecutive_quiescent_epochs :: u32

datatype session_error = SE_NotFound session_id | SE_PathNotFound path_id

type_synonym session_table = "(session_id, session_entry) amap"
type_synonym path_table = "path_id \<Rightarrow> path_entry option"

definition sessions_new :: session_table where "sessions_new = []"
definition paths_new :: path_table where "paths_new = Map.empty"

section \<open>The session table\<close>

definition session_create :: "session_table \<Rightarrow> session_entry \<Rightarrow> session_table" where
  "session_create t s = aput (se_session_id s) s t"

definition session_get :: "session_table \<Rightarrow> session_id \<Rightarrow> session_entry option" where
  "session_get t sid = aget t sid"

definition terminate :: "session_table \<Rightarrow> session_id \<Rightarrow> session_table \<times> session_entry option" where
  "terminate t sid = (adel sid t, aget t sid)"

definition set_path_state :: "path_state \<Rightarrow> path_id \<Rightarrow> path_table \<Rightarrow> path_table" where
  "set_path_state st pid ps = (case ps pid of None \<Rightarrow> ps | Some e \<Rightarrow> ps(pid \<mapsto> e\<lparr>pe_state := st\<rparr>))"

definition migrate_path ::
  "session_table \<Rightarrow> session_id \<Rightarrow> path_id \<Rightarrow> u64 \<Rightarrow> path_table \<Rightarrow>
     session_table \<times> path_table \<times> (session_error + unit)" where
  "migrate_path t sid new_path last_ack ps = (case aget t sid of
      None \<Rightarrow> (t, ps, Inl (SE_NotFound sid))
    | Some s \<Rightarrow>
        let (s1, ps1) = (case active_path_id s of
               Some old \<Rightarrow> (s\<lparr>prev_path_id := Some old\<rparr>, set_path_state PS_Draining old ps)
             | None \<Rightarrow> (s, ps));
            ps2 = ps1(new_path \<mapsto> \<lparr>pe_path_id = new_path, pe_session_id = sid,
                       last_ack_stream_seq = last_ack, pe_state = PS_Active\<rparr>) in
        (aput sid (s1\<lparr>active_path_id := Some new_path\<rparr>) t, ps2, Inr ()))"

definition retire_draining_path ::
  "session_table \<Rightarrow> session_id \<Rightarrow> path_table \<Rightarrow> session_table \<times> path_table \<times> (session_error + unit)" where
  "retire_draining_path t sid ps = (case aget t sid of
      None \<Rightarrow> (t, ps, Inl (SE_NotFound sid))
    | Some s \<Rightarrow> (aput sid (s\<lparr>prev_path_id := None\<rparr>) t,
        (case prev_path_id s of Some prev \<Rightarrow> set_path_state PS_Closed prev ps | None \<Rightarrow> ps), Inr ()))"

definition is_seq_valid :: "session_table \<Rightarrow> session_id \<Rightarrow> u64 \<Rightarrow> bool" where
  "is_seq_valid t sid q = (case aget t sid of Some s \<Rightarrow> q \<ge> stream_seq_floor s | None \<Rightarrow> False)"

text \<open>\<open>acked_seq + 1\<close> wraps to zero at the largest sequence number.\<close>

definition ack_seq :: "session_table \<Rightarrow> session_id \<Rightarrow> u64 \<Rightarrow> session_table" where
  "ack_seq t sid acked = amod sid
     (\<lambda>s. if acked + 1 > stream_seq_floor s then s\<lparr>stream_seq_floor := acked + 1\<rparr> else s) t"

definition record_activity :: "session_table \<Rightarrow> session_id \<Rightarrow> u64 \<Rightarrow> session_table" where
  "record_activity t sid epoch = amod sid
     (\<lambda>s. (if epoch > last_active_causal_epoch s then s\<lparr>last_active_causal_epoch := epoch\<rparr> else s)
            \<lparr>consecutive_quiescent_epochs := 0\<rparr>) t"

definition increment_quiescent_epochs :: "session_table \<Rightarrow> session_id \<Rightarrow> session_table" where
  "increment_quiescent_epochs t sid = amod sid
     (\<lambda>s. s\<lparr>consecutive_quiescent_epochs := sat_inc (consecutive_quiescent_epochs s)\<rparr>) t"

section \<open>The path table\<close>

definition path_create :: "path_table \<Rightarrow> path_entry \<Rightarrow> path_table" where
  "path_create ps e = ps(pe_path_id e \<mapsto> e)"

definition path_get :: "path_table \<Rightarrow> path_id \<Rightarrow> path_entry option" where
  "path_get ps pid = ps pid"

definition resolve_session :: "path_table \<Rightarrow> path_id \<Rightarrow> session_id option" where
  "resolve_session ps pid = (case ps pid of
      None \<Rightarrow> None
    | Some e \<Rightarrow> if pe_state e = PS_Closed then None else Some (pe_session_id e))"

section \<open>The reaper\<close>

record expiry_policy =
  inactivity_epoch_threshold :: "u64 option"
  epoch_lag_threshold :: "u64 option"
  zero_frustration_threshold :: "u32 option"

definition expiry_default :: expiry_policy where
  "expiry_default = \<lparr>inactivity_epoch_threshold = Some 10000, epoch_lag_threshold = Some 50000,
     zero_frustration_threshold = None\<rparr>"

datatype expiry_reason = ER_Inactivity u64 u64 | ER_EpochLag u64 u64 | ER_ZeroFrustration u32

definition reap_inactivity :: "expiry_policy \<Rightarrow> u64 \<Rightarrow> session_entry \<Rightarrow> expiry_reason option" where
  "reap_inactivity pol current s = (case inactivity_epoch_threshold pol of
      Some thresh \<Rightarrow>
        if sat_sub current (last_active_causal_epoch s) > thresh
          then Some (ER_Inactivity (last_active_causal_epoch s) current) else None
    | None \<Rightarrow> None)"

definition reap_epoch_lag :: "expiry_policy \<Rightarrow> u64 \<Rightarrow> session_entry \<Rightarrow> expiry_reason option" where
  "reap_epoch_lag pol front s = (case epoch_lag_threshold pol of
      Some thresh \<Rightarrow>
        if sat_sub front (last_active_causal_epoch s) > thresh
          then Some (ER_EpochLag (last_active_causal_epoch s) front) else None
    | None \<Rightarrow> None)"

definition reap_zero_frustration :: "expiry_policy \<Rightarrow> session_entry \<Rightarrow> expiry_reason option" where
  "reap_zero_frustration pol s = (case zero_frustration_threshold pol of
      Some thresh \<Rightarrow>
        if consecutive_quiescent_epochs s \<ge> thresh
          then Some (ER_ZeroFrustration (consecutive_quiescent_epochs s)) else None
    | None \<Rightarrow> None)"

definition or_else :: "'a option \<Rightarrow> 'a option \<Rightarrow> 'a option" where
  "or_else x y = (case x of Some a \<Rightarrow> Some a | None \<Rightarrow> y)"

definition reap_reason :: "expiry_policy \<Rightarrow> u64 \<Rightarrow> u64 \<Rightarrow> session_entry \<Rightarrow> expiry_reason option" where
  "reap_reason pol current front s =
     or_else (or_else (reap_inactivity pol current s) (reap_epoch_lag pol front s)) (reap_zero_frustration pol s)"

definition reap_frontier :: "session_table \<Rightarrow> u64 \<Rightarrow> u64" where
  "reap_frontier t current =
     (case iter_max (map (last_active_causal_epoch \<circ> snd) t) of Some m \<Rightarrow> m | None \<Rightarrow> current)"

fun reap_ids ::
  "expiry_policy \<Rightarrow> u64 \<Rightarrow> u64 \<Rightarrow> session_id list \<Rightarrow> session_table \<Rightarrow> session_table \<times> (session_id \<times> expiry_reason) list" where
  "reap_ids pol current front [] t = (t, [])"
| "reap_ids pol current front (sid # ids) t = (case aget t sid of
      None \<Rightarrow> reap_ids pol current front ids t
    | Some s \<Rightarrow> (case reap_reason pol current front s of
        None \<Rightarrow> reap_ids pol current front ids t
      | Some r \<Rightarrow> (let (t', out) = reap_ids pol current front ids (fst (terminate t sid)) in (t', (sid, r) # out))))"

definition reap :: "expiry_policy \<Rightarrow> session_table \<Rightarrow> u64 \<Rightarrow> session_table \<times> (session_id \<times> expiry_reason) list" where
  "reap pol t current = reap_ids pol current (reap_frontier t current) (map fst t) t"

section \<open>The reaper removes exactly the expired sessions\<close>

definition doomed :: "expiry_policy \<Rightarrow> u64 \<Rightarrow> u64 \<Rightarrow> session_table \<Rightarrow> session_id \<Rightarrow> expiry_reason option" where
  "doomed pol current front t sid = Option.bind (aget t sid) (reap_reason pol current front)"

lemma reap_ids_result:
  "distinct ids \<Longrightarrow>
     snd (reap_ids pol current front ids t)
       = List.map_filter (\<lambda>sid. map_option (Pair sid) (doomed pol current front t sid)) ids
   \<and> (\<forall>sid. aget (fst (reap_ids pol current front ids t)) sid
       = (if sid \<in> set ids \<and> doomed pol current front t sid \<noteq> None then None else aget t sid))"
proof (induction pol current front ids t rule: reap_ids.induct)
  case (2 pol current front sid ids t)
  show ?case
  proof (cases "doomed pol current front t sid")
    case None
    then have "reap_ids pol current front (sid # ids) t = reap_ids pol current front ids t"
      by (auto simp: doomed_def split: option.splits)
    moreover have "snd (reap_ids pol current front ids t)
       = List.map_filter (\<lambda>sid. map_option (Pair sid) (doomed pol current front t sid)) ids
     \<and> (\<forall>sid. aget (fst (reap_ids pol current front ids t)) sid
       = (if sid \<in> set ids \<and> doomed pol current front t sid \<noteq> None then None else aget t sid))"
      using 2 None by (cases "aget t sid") (auto simp: doomed_def)
    ultimately show ?thesis using None by (auto simp: map_filter_simps)
  next
    case (Some r)
    then obtain s where s: "aget t sid = Some s" "reap_reason pol current front s = Some r"
      by (auto simp: doomed_def split: bind_splits)
    let ?t = "fst (terminate t sid)"
    have d: "doomed pol current front ?t k = doomed pol current front t k" if "k \<noteq> sid" for k
      using that by (simp add: doomed_def terminate_def)
    have m: "List.map_filter (\<lambda>k. map_option (Pair k) (doomed pol current front ?t k)) ids
        = List.map_filter (\<lambda>k. map_option (Pair k) (doomed pol current front t k)) ids"
      using 2(4) d by (induction ids) (auto simp: map_filter_simps split: option.splits)
    have "snd (reap_ids pol current front ids ?t)
         = List.map_filter (\<lambda>k. map_option (Pair k) (doomed pol current front ?t k)) ids
       \<and> (\<forall>k. aget (fst (reap_ids pol current front ids ?t)) k
         = (if k \<in> set ids \<and> doomed pol current front ?t k \<noteq> None then None else aget ?t k))"
      using 2(3)[OF s] 2(4) by simp
    then show ?thesis
      using s Some 2(4) d m
      by (auto simp: map_filter_simps terminate_def split_beta)
  qed
qed (simp add: map_filter_simps)

lemma reap_ids_awf: "awf t \<Longrightarrow> awf (fst (reap_ids pol current front ids t))"
  by (induction pol current front ids t rule: reap_ids.induct)
    (auto simp: terminate_def split_beta split: option.splits)

lemma map_fst_filter:
  "map fst (List.map_filter (\<lambda>k. map_option (Pair k) (f k)) ks) = filter (\<lambda>k. f k \<noteq> None) ks"
  by (induction ks) (auto simp: map_filter_simps split: option.splits)

lemma set_map_filter_pair:
  "(k, v) \<in> set (List.map_filter (\<lambda>k. map_option (Pair k) (f k)) ks) \<longleftrightarrow> k \<in> set ks \<and> f k = Some v"
  by (induction ks) (auto simp: map_filter_simps split: option.splits)

lemma in_reaped:
  assumes "awf t"
  shows "(sid, r) \<in> set (snd (reap pol t current)) \<longleftrightarrow> doomed pol current (reap_frontier t current) t sid = Some r"
    and "aget (fst (reap pol t current)) sid
      = (if doomed pol current (reap_frontier t current) t sid \<noteq> None then None else aget t sid)"
proof -
  note R = reap_ids_result[of "map fst t" pol current "reap_frontier t current" t]
  have k: "sid \<in> set (map fst t)" if "aget t sid \<noteq> None"
    using that by (auto simp: aget_def map_of_eq_None_iff)
  have u: "aget t sid \<noteq> None" if "doomed pol current (reap_frontier t current) t sid \<noteq> None"
    using that by (cases "aget t sid") (auto simp: doomed_def)
  show "(sid, r) \<in> set (snd (reap pol t current)) \<longleftrightarrow> doomed pol current (reap_frontier t current) t sid = Some r"
    using R assms k u by (auto simp: reap_def awf_def set_map_filter_pair)
  show "aget (fst (reap pol t current)) sid
      = (if doomed pol current (reap_frontier t current) t sid \<noteq> None then None else aget t sid)"
    using R assms k u by (auto simp: reap_def awf_def)
qed

lemma frontier_bound:
  "aget t sid = Some s \<Longrightarrow> last_active_causal_epoch s \<le> reap_frontier t current"
  by (cases "iter_max (map (last_active_causal_epoch \<circ> snd) t)")
    (force simp: reap_frontier_def dest: iter_max_SomeD aget_SomeD)+

lemma frontier_attained:
  "t \<noteq> [] \<Longrightarrow> \<exists>(sid, s) \<in> set t. last_active_causal_epoch s = reap_frontier t current"
  by (cases "iter_max (map (last_active_causal_epoch \<circ> snd) t)")
    (force simp: reap_frontier_def dest: iter_max_SomeD)+

lemma frontier_session:
  assumes "awf t" "aget t sid = Some s"
  shows "\<exists>k m. aget t k = Some m \<and> last_active_causal_epoch m = reap_frontier t current"
proof -
  have "t \<noteq> []" using assms(2) by auto
  then obtain k m where "(k, m) \<in> set t" "last_active_causal_epoch m = reap_frontier t current"
    using frontier_attained[of t current] by blast
  then show ?thesis using aget_in_set[OF assms(1)] by blast
qed

text \<open>Which reason a session is given: the first trigger it violates.\<close>

lemma reap_reason_first:
  "reap_reason pol current front s = Some (ER_Inactivity a b) \<longleftrightarrow> a = last_active_causal_epoch s \<and> b = current
     \<and> (\<exists>th. inactivity_epoch_threshold pol = Some th \<and> unat (last_active_causal_epoch s) + unat th < unat current)"
  "reap_reason pol current front s = Some (ER_EpochLag a b) \<longleftrightarrow> a = last_active_causal_epoch s \<and> b = front
     \<and> (\<forall>th. inactivity_epoch_threshold pol = Some th \<longrightarrow> unat current \<le> unat (last_active_causal_epoch s) + unat th)
     \<and> (\<exists>th. epoch_lag_threshold pol = Some th \<and> unat (last_active_causal_epoch s) + unat th < unat front)"
  by (auto simp: reap_reason_def or_else_def reap_inactivity_def reap_epoch_lag_def
      reap_zero_frustration_def sat_sub_exceeds not_less not_le split: option.splits if_splits)

lemma reap_reason_iff:
  "reap_reason pol current front s = None \<longleftrightarrow>
     (\<forall>th. inactivity_epoch_threshold pol = Some th \<longrightarrow>
        unat current \<le> unat (last_active_causal_epoch s) + unat th)
   \<and> (\<forall>th. epoch_lag_threshold pol = Some th \<longrightarrow>
        unat front \<le> unat (last_active_causal_epoch s) + unat th)
   \<and> (\<forall>th. zero_frustration_threshold pol = Some th \<longrightarrow> consecutive_quiescent_epochs s < th)"
  by (auto simp: reap_reason_def or_else_def reap_inactivity_def reap_epoch_lag_def
      reap_zero_frustration_def sat_sub_exceeds not_less not_le split: option.splits if_splits)

text \<open>
  C39. The reaper tombstones exactly the sessions that violate an enabled trigger, each once and
  with the reason of the first trigger violated, and leaves every other session as it is: a session
  survives exactly when its last activity is within the inactivity threshold of the current epoch
  and within the lag threshold of the most advanced live session, and its quiescence streak is
  below the frustration threshold (each only if enabled), counted in unbounded integers.  The frontier
  that lag is measured against is the epoch of a live session, and no live session is ahead of it;
  a session that no live session is ahead of never dies of lag, whatever the iteration order.
\<close>

theorem reaper_exact:
  assumes "awf t" "aget t sid = Some s"
  shows "let (t', dead) = reap pol t current; front = reap_frontier t current in
      awf t' \<and> distinct (map fst dead)
    \<and> ((sid, r) \<in> set dead) = (reap_reason pol current front s = Some r)
    \<and> (aget t' sid = None) = (reap_reason pol current front s \<noteq> None)
    \<and> (aget t' sid \<noteq> None \<longrightarrow> aget t' sid = Some s)
    \<and> (aget t other = None \<longrightarrow> aget t' other = None)
    \<and> (reap_reason pol current front s = None) =
        ((\<forall>th. inactivity_epoch_threshold pol = Some th \<longrightarrow> unat current \<le> unat (last_active_causal_epoch s) + unat th)
       \<and> (\<forall>th. epoch_lag_threshold pol = Some th \<longrightarrow> unat front \<le> unat (last_active_causal_epoch s) + unat th)
       \<and> (\<forall>th. zero_frustration_threshold pol = Some th \<longrightarrow> consecutive_quiescent_epochs s < th))
    \<and> ((sid, ER_Inactivity a b) \<in> set dead) = (a = last_active_causal_epoch s \<and> b = current
       \<and> (\<exists>th. inactivity_epoch_threshold pol = Some th \<and> unat (last_active_causal_epoch s) + unat th < unat current))
    \<and> ((sid, ER_EpochLag a b) \<in> set dead) = (a = last_active_causal_epoch s \<and> b = front
       \<and> (\<forall>th. inactivity_epoch_threshold pol = Some th \<longrightarrow> unat current \<le> unat (last_active_causal_epoch s) + unat th)
       \<and> (\<exists>th. epoch_lag_threshold pol = Some th \<and> unat (last_active_causal_epoch s) + unat th < unat front))
    \<and> (\<exists>k m. aget t k = Some m \<and> last_active_causal_epoch m = front)
    \<and> (\<forall>k m. aget t k = Some m \<longrightarrow> last_active_causal_epoch m \<le> front)
    \<and> ((\<forall>k m. aget t k = Some m \<longrightarrow> last_active_causal_epoch m \<le> last_active_causal_epoch s)
        \<longrightarrow> (sid, ER_EpochLag a b) \<notin> set dead)"
proof -
  let ?front = "reap_frontier t current"
  note R = reap_ids_result[of "map fst t" pol current ?front t]
  have d: "distinct (map fst (snd (reap pol t current)))"
    using R assms(1) by (simp add: reap_def awf_def map_fst_filter)
  have dead: "((sid, r) \<in> set (snd (reap pol t current))) = (reap_reason pol current ?front s = Some r)" for r
    using in_reaped(1)[OF assms(1), of sid r pol current] assms(2) by (simp add: doomed_def)
  obtain k m where front: "aget t k = Some m" "last_active_causal_epoch m = ?front"
    using frontier_session[OF assms] by blast
  have bound: "last_active_causal_epoch m \<le> ?front" if "aget t k = Some m" for k m
    by (rule frontier_bound[OF that])
  have "(\<forall>k m. aget t k = Some m \<longrightarrow> last_active_causal_epoch m \<le> last_active_causal_epoch s)
      \<longrightarrow> (sid, ER_EpochLag a b) \<notin> set (snd (reap pol t current))"
  proof
    assume "\<forall>k m. aget t k = Some m \<longrightarrow> last_active_causal_epoch m \<le> last_active_causal_epoch s"
    then have "?front \<le> last_active_causal_epoch s" using front by metis
    then show "(sid, ER_EpochLag a b) \<notin> set (snd (reap pol t current))"
      by (auto simp: dead reap_reason_first word_le_nat_alt)
  qed
  note lag = this
  have awf': "awf (fst (reap pol t current))" using assms(1) by (simp add: reap_def reap_ids_awf)
  have gone: "aget (fst (reap pol t current)) sid = (if reap_reason pol current ?front s \<noteq> None then None else Some s)"
    using in_reaped(2)[OF assms(1), of pol current sid] assms(2) by (simp add: doomed_def)
  have "aget t other = None \<longrightarrow> aget (fst (reap pol t current)) other = None"
    using in_reaped(2)[OF assms(1), of pol current other] by simp
  moreover have "(aget (fst (reap pol t current)) sid = None) = (reap_reason pol current ?front s \<noteq> None)"
    "aget (fst (reap pol t current)) sid \<noteq> None \<longrightarrow> aget (fst (reap pol t current)) sid = Some s"
    using gone by simp_all
  moreover have "\<exists>k m. aget t k = Some m \<and> last_active_causal_epoch m = ?front"
    "\<forall>k m. aget t k = Some m \<longrightarrow> last_active_causal_epoch m \<le> ?front"
    using front bound by blast+
  moreover note dead[of r] dead[of "ER_Inactivity a b", unfolded reap_reason_first]
    dead[of "ER_EpochLag a b", unfolded reap_reason_first] reap_reason_iff[of pol current ?front s]
  ultimately show ?thesis
    unfolding Let_def split_beta using awf' d lag by (intro conjI; (assumption | blast))
qed

definition session_at :: "session_id \<Rightarrow> u64 \<Rightarrow> session_entry" where
  "session_at sid epoch = \<lparr>se_session_id = sid, se_tenant_id = 0, active_path_id = None, prev_path_id = None,
     stream_seq_floor = 0, se_auth_mode = Advisory, last_active_causal_epoch = epoch,
     consecutive_quiescent_epochs = 0\<rparr>"

theorem reaper_exact_witness:
  "map fst (snd (reap expiry_default [(1, session_at 1 100), (2, session_at 2 10100)] 10101)) = [1]
   \<and> aget (fst (reap expiry_default [(1, session_at 1 100), (2, session_at 2 10100)] 10101)) 2 = Some (session_at 2 10100)"
proof -
  let ?t = "[(1, session_at 1 100), (2, session_at 2 10100)] :: session_table"
  have w: "awf ?t" "aget ?t 2 = Some (session_at 2 10100)" by (simp_all add: awf_def aget_def)
  have m: "map fst (snd (reap expiry_default ?t 10101)) = [1]"
    and s: "reap_reason expiry_default 10101 (reap_frontier ?t 10101) (session_at 2 10100) = None" by code_simp+
  show ?thesis
    using reaper_exact[OF w, of expiry_default 10101] m s by (auto simp: Let_def split_beta)
qed

section \<open>Sequences of operations\<close>

datatype session_op =
    SO_Create session_entry | SO_PathCreate path_entry | SO_Terminate session_id
  | SO_Migrate session_id path_id u64 | SO_Retire session_id
  | SO_Ack session_id u64 | SO_Activity session_id u64 | SO_Quiescent session_id

type_synonym session_state = "session_table \<times> path_table"

fun session_exec :: "session_op \<Rightarrow> session_state \<Rightarrow> session_state" where
  "session_exec (SO_Create s) (t, ps) = (session_create t s, ps)"
| "session_exec (SO_PathCreate e) (t, ps) = (t, path_create ps e)"
| "session_exec (SO_Terminate sid) (t, ps) = (fst (terminate t sid), ps)"
| "session_exec (SO_Migrate sid pid ack) (t, ps) = (let (t', ps', r) = migrate_path t sid pid ack ps in (t', ps'))"
| "session_exec (SO_Retire sid) (t, ps) = (let (t', ps', r) = retire_draining_path t sid ps in (t', ps'))"
| "session_exec (SO_Ack sid q) (t, ps) = (ack_seq t sid q, ps)"
| "session_exec (SO_Activity sid e) (t, ps) = (record_activity t sid e, ps)"
| "session_exec (SO_Quiescent sid) (t, ps) = (increment_quiescent_epochs t sid, ps)"

fun replaces :: "session_op \<Rightarrow> session_id \<Rightarrow> bool" where
  "replaces (SO_Create s) sid = (se_session_id s = sid)"
| "replaces (SO_Terminate k) sid = (k = sid)"
| "replaces _ sid = False"

lemma migrate_get:
  "aget (fst (migrate_path t k pid ack ps)) sid =
     (if sid = k then map_option (\<lambda>s. s\<lparr>active_path_id := Some pid,
          prev_path_id := (case active_path_id s of Some old \<Rightarrow> Some old | None \<Rightarrow> prev_path_id s)\<rparr>) (aget t k)
      else aget t sid)"
  by (auto simp: migrate_path_def Let_def split: option.split)

lemma retire_get:
  "aget (fst (retire_draining_path t k ps)) sid =
     (if sid = k then map_option (\<lambda>s. s\<lparr>prev_path_id := None\<rparr>) (aget t k) else aget t sid)"
  by (auto simp: retire_draining_path_def split: option.split)

lemma migrate_paths:
  "aget t sid = Some s \<Longrightarrow> fst (snd (migrate_path t sid pid ack ps)) =
     (case active_path_id s of Some old \<Rightarrow> set_path_state PS_Draining old ps | None \<Rightarrow> ps)
       (pid \<mapsto> \<lparr>pe_path_id = pid, pe_session_id = sid, last_ack_stream_seq = ack, pe_state = PS_Active\<rparr>)"
  by (simp add: migrate_path_def Let_def split: option.split)

lemma migrate_paths_None: "aget t sid = None \<Longrightarrow> migrate_path t sid pid ack ps = (t, ps, Inl (SE_NotFound sid))"
  by (simp add: migrate_path_def)

lemma retire_paths:
  "aget t sid = Some s \<Longrightarrow> fst (snd (retire_draining_path t sid ps)) =
     (case prev_path_id s of Some old \<Rightarrow> set_path_state PS_Closed old ps | None \<Rightarrow> ps)"
  by (simp add: retire_draining_path_def split: option.split)

lemma set_path_state_at:
  "set_path_state st p ps q = (if q = p then map_option (\<lambda>e. e\<lparr>pe_state := st\<rparr>) (ps p) else ps q)"
  by (auto simp: set_path_state_def split: option.split)

section \<open>Replay floors only rise\<close>

definition advanced :: "session_entry \<Rightarrow> session_entry \<Rightarrow> bool" where
  "advanced s s' \<longleftrightarrow> stream_seq_floor s \<le> stream_seq_floor s'
     \<and> last_active_causal_epoch s \<le> last_active_causal_epoch s'
     \<and> se_session_id s' = se_session_id s \<and> se_tenant_id s' = se_tenant_id s \<and> se_auth_mode s' = se_auth_mode s"

lemma advanced_refl: "advanced s s"
  by (simp add: advanced_def)

lemma advanced_trans: "advanced a b \<Longrightarrow> advanced b c \<Longrightarrow> advanced a c"
  by (auto simp: advanced_def)

lemma amod_advanced:
  "(\<And>s. advanced s (f s)) \<Longrightarrow> aget t sid = Some s \<Longrightarrow> \<exists>s'. aget (amod k f t) sid = Some s' \<and> advanced s s'"
  by (cases "sid = k") (auto intro: advanced_refl)

lemma exec_advanced:
  assumes "\<not> replaces op sid" "aget (fst st) sid = Some s"
  shows "\<exists>s'. aget (fst (session_exec op st)) sid = Some s' \<and> advanced s s'"
proof -
  have "\<exists>s'. aget (ack_seq (fst st) k q) sid = Some s' \<and> advanced s s'"
    "\<exists>s'. aget (record_activity (fst st) k e) sid = Some s' \<and> advanced s s'"
    "\<exists>s'. aget (increment_quiescent_epochs (fst st) k) sid = Some s' \<and> advanced s s'" for k q e
    unfolding ack_seq_def record_activity_def increment_quiescent_epochs_def
    by (rule amod_advanced[OF _ assms(2)]; auto simp: advanced_def intro: less_imp_le)+
  then show ?thesis
    using assms
    by (cases st; cases op)
      (auto simp: session_create_def terminate_def split_beta migrate_get retire_get advanced_def)
qed

lemma run_advanced:
  "\<forall>op \<in> set ops. \<not> replaces op sid \<Longrightarrow> aget (fst st) sid = Some s \<Longrightarrow>
     \<exists>s'. aget (fst (fold session_exec ops st)) sid = Some s' \<and> advanced s s'"
proof (induction ops arbitrary: st s)
  case (Cons op ops)
  obtain s1 where s1: "aget (fst (session_exec op st)) sid = Some s1" "advanced s s1"
    using exec_advanced[of op sid st s] Cons.prems by auto
  obtain s2 where "aget (fst (fold session_exec ops (session_exec op st))) sid = Some s2" "advanced s1 s2"
    using Cons.IH[OF _ s1(1)] Cons.prems(1) by auto
  then show ?case using advanced_trans[OF s1(2)] by auto
qed (auto intro: advanced_refl)

lemma ack_then_valid:
  assumes "aget t sid = Some s"
  shows "is_seq_valid (ack_seq t sid q) sid n \<longleftrightarrow> stream_seq_floor s \<le> n \<and> (q = - 1 \<or> q < n)"
proof -
  have w: "q + 1 \<le> n \<longleftrightarrow> q < n" if "q \<noteq> - 1"
    using word_neq_max_Suc[OF that] by (auto simp: word_le_nat_alt word_less_nat_alt)
  show ?thesis
  proof (cases "q = - 1")
    case True
    then show ?thesis using assms by (simp add: is_seq_valid_def ack_seq_def)
  next
    case False
    then show ?thesis using assms w by (auto simp: is_seq_valid_def ack_seq_def not_less)
  qed
qed

text \<open>
  Replay suppression: whatever operations the session layer runs, as long as they neither
  terminate nor re-create a session, its replay floor and its last active epoch never fall, so a
  sequence number once refused is refused for good, across path migrations too; after an
  acknowledgement exactly the numbers above it (and not below the old floor) are valid, except that
  acknowledging the largest number \<open>u64::MAX\<close> wraps and leaves the floor where it was.
\<close>

theorem replay_floor_monotone:
  assumes "\<forall>op \<in> set ops. \<not> replaces op sid" "aget t sid = Some s"
  shows "(\<exists>s'. aget (fst (fold session_exec ops (t, ps))) sid = Some s'
        \<and> stream_seq_floor s \<le> stream_seq_floor s' \<and> last_active_causal_epoch s \<le> last_active_causal_epoch s'
        \<and> se_tenant_id s' = se_tenant_id s)
    \<and> (\<not> is_seq_valid t sid n \<longrightarrow> \<not> is_seq_valid (fst (fold session_exec ops (t, ps))) sid n)
    \<and> is_seq_valid (ack_seq t sid q) sid n = (stream_seq_floor s \<le> n \<and> (q = - 1 \<or> q < n))
    \<and> is_seq_valid (ack_seq t sid (- 1)) sid n = is_seq_valid t sid n"
proof -
  obtain s' where s': "aget (fst (fold session_exec ops (t, ps))) sid = Some s'" "advanced s s'"
    using run_advanced[OF assms(1), of "(t, ps)"] assms(2) by auto
  then show ?thesis
    using assms(2) ack_then_valid[OF assms(2)] by (auto simp: advanced_def is_seq_valid_def)
qed

theorem replay_floor_monotone_witness:
  "\<not> is_seq_valid (fst (fold session_exec [SO_Ack 1 6, SO_Migrate 1 20 6, SO_Retire 1, SO_Ack 1 3]
        ([(1, (session_at 1 0)\<lparr>stream_seq_floor := 5\<rparr>)], paths_new))) 1 4
   \<and> is_seq_valid (ack_seq [(1, session_at 1 0)] 1 6) 1 7 \<and> \<not> is_seq_valid (ack_seq [(1, session_at 1 0)] 1 6) 1 6"
  using replay_floor_monotone[of "[SO_Ack 1 6, SO_Migrate 1 20 6, SO_Retire 1, SO_Ack 1 3]" 1
      "[(1, (session_at 1 0)\<lparr>stream_seq_floor := 5\<rparr>)]" "(session_at 1 0)\<lparr>stream_seq_floor := 5\<rparr>" paths_new 4 6]
    replay_floor_monotone[of "[]" 1 "[(1, session_at 1 0)]" "session_at 1 0" paths_new 7 6]
    replay_floor_monotone[of "[]" 1 "[(1, session_at 1 0)]" "session_at 1 0" paths_new 6 6]
  by (simp add: is_seq_valid_def aget_def session_at_def)

section \<open>Paths belong to their sessions\<close>

definition owns :: "path_table \<Rightarrow> session_id \<Rightarrow> path_id \<Rightarrow> path_state \<Rightarrow> bool" where
  "owns ps sid p st \<longleftrightarrow> (\<exists>e. ps p = Some e \<and> pe_session_id e = sid \<and> pe_path_id e = p \<and> pe_state e = st)"

definition entry_ok :: "path_table \<Rightarrow> session_id \<Rightarrow> session_entry \<Rightarrow> bool" where
  "entry_ok ps sid s \<longleftrightarrow> se_session_id s = sid
     \<and> (\<forall>p. active_path_id s = Some p \<longrightarrow> owns ps sid p PS_Active)
     \<and> (\<forall>p. prev_path_id s = Some p \<longrightarrow> owns ps sid p PS_Draining)"

definition paths_ok :: "session_state \<Rightarrow> bool" where
  "paths_ok st \<longleftrightarrow> (\<forall>sid s. aget (fst st) sid = Some s \<longrightarrow> entry_ok (snd st) sid s)"

text \<open>
  The operations under the discipline that a path identifier is bound to one path only: a new
  session starts without a path or on a path not yet known, and a migration goes to one.
\<close>

inductive session_step :: "session_state \<Rightarrow> session_state \<Rightarrow> bool" where
  host_create: "\<lbrakk>aget t (se_session_id s) = None; active_path_id s = None; prev_path_id s = None\<rbrakk>
     \<Longrightarrow> session_step (t, ps) (session_exec (SO_Create s) (t, ps))"
| bootstrap: "\<lbrakk>aget t (se_session_id s) = None; active_path_id s = Some p; prev_path_id s = None; ps p = None\<rbrakk>
     \<Longrightarrow> session_step (t, ps) (session_exec (SO_PathCreate \<lparr>pe_path_id = p, pe_session_id = se_session_id s,
           last_ack_stream_seq = q, pe_state = PS_Active\<rparr>) (session_exec (SO_Create s) (t, ps)))"
| migrate: "ps p = None \<Longrightarrow> session_step (t, ps) (session_exec (SO_Migrate sid p q) (t, ps))"
| retire: "session_step (t, ps) (session_exec (SO_Retire sid) (t, ps))"
| terminated: "session_step (t, ps) (session_exec (SO_Terminate sid) (t, ps))"
| acked: "session_step (t, ps) (session_exec (SO_Ack sid q) (t, ps))"
| active: "session_step (t, ps) (session_exec (SO_Activity sid e) (t, ps))"
| quiet: "session_step (t, ps) (session_exec (SO_Quiescent sid) (t, ps))"

lemma owns_other: "q \<noteq> p \<Longrightarrow> owns (set_path_state st p ps) sid q st' = owns ps sid q st'"
  by (simp add: owns_def set_path_state_at)

lemma owns_set: "owns ps sid p st \<Longrightarrow> owns (set_path_state st' p ps) sid p st'"
  by (auto simp: owns_def set_path_state_at)

lemma owns_unique: "owns ps sid p st \<Longrightarrow> owns ps sid' p st' \<Longrightarrow> sid = sid' \<and> st = st'"
  by (auto simp: owns_def)

lemma owns_fresh: "ps p = None \<Longrightarrow> owns ps sid q st \<Longrightarrow> owns (ps(p \<mapsto> e)) sid q st"
  by (auto simp: owns_def)

lemma entry_ok_mono:
  assumes "entry_ok ps sid s" "se_session_id s' = sid"
    "active_path_id s' = active_path_id s" "prev_path_id s' = prev_path_id s"
    "\<And>p st. active_path_id s = Some p \<or> prev_path_id s = Some p \<Longrightarrow> owns ps sid p st \<Longrightarrow> owns ps' sid p st"
  shows "entry_ok ps' sid s'"
  using assms by (auto simp: entry_ok_def)

text \<open>A state change of a session's own path does not touch the paths of another session.\<close>

lemma entry_ok_other:
  assumes "entry_ok ps k r" "owns ps sid p st" "k \<noteq> sid"
  shows "entry_ok (set_path_state st' p ps) k r"
  using assms(1)
proof (rule entry_ok_mono)
  fix q u assume "owns ps k q u"
  then have "q \<noteq> p" using owns_unique[OF assms(2)] assms(3) by blast
  with \<open>owns ps k q u\<close> show "owns (set_path_state st' p ps) k q u" by (simp add: owns_other)
qed (use assms(1) in \<open>simp_all add: entry_ok_def\<close>)

lemma entry_ok_marked:
  assumes "entry_ok ps k r" "\<And>p. f = Some p \<Longrightarrow> owns ps sid p st" "k \<noteq> sid"
  shows "entry_ok (case f of Some p \<Rightarrow> set_path_state st' p ps | None \<Rightarrow> ps) k r"
  using assms entry_ok_other by (cases f) auto

lemma entry_ok_fresh: "ps p = None \<Longrightarrow> entry_ok ps k r \<Longrightarrow> entry_ok (ps(p \<mapsto> e)) k r"
  by (rule entry_ok_mono) (auto simp: entry_ok_def intro: owns_fresh)

lemma paths_ok_same_paths:
  assumes "paths_ok (t, ps)"
    "\<And>sid s'. aget t' sid = Some s' \<Longrightarrow> \<exists>s. aget t sid = Some s \<and> se_session_id s' = se_session_id s
       \<and> active_path_id s' = active_path_id s \<and> prev_path_id s' = prev_path_id s"
  shows "paths_ok (t', ps)"
  unfolding paths_ok_def
proof (intro allI impI)
  fix sid s' assume "aget (fst (t', ps)) sid = Some s'"
  then obtain s where s: "aget t sid = Some s" "se_session_id s' = se_session_id s"
    "active_path_id s' = active_path_id s" "prev_path_id s' = prev_path_id s"
    using assms(2) by auto
  then have "entry_ok ps sid s" using assms(1) by (simp add: paths_ok_def)
  then show "entry_ok (snd (t', ps)) sid s'" using s by (simp add: entry_ok_def)
qed

lemma migrate_paths_ok:
  assumes "paths_ok (t, ps)" "ps p = None"
  shows "paths_ok (session_exec (SO_Migrate sid p q) (t, ps))"
proof (cases "aget t sid")
  case None
  then show ?thesis using assms(1) by (simp add: migrate_path_def)
next
  case (Some s)
  have ok: "entry_ok ps k r" if "aget t k = Some r" for k r
    using assms(1) that by (simp add: paths_ok_def)
  define ps1 where "ps1 = (case active_path_id s of Some old \<Rightarrow> set_path_state PS_Draining old ps | None \<Rightarrow> ps)"
  let ?e = "\<lparr>pe_path_id = p, pe_session_id = sid, last_ack_stream_seq = q, pe_state = PS_Active\<rparr>"
  have ow: "owns ps sid p' PS_Active" if "active_path_id s = Some p'" for p'
    using ok[OF Some] that by (simp add: entry_ok_def)
  have fresh: "ps1 p = None" using assms(2) by (simp add: ps1_def set_path_state_at split: option.split)
  have others: "entry_ok (ps1(p \<mapsto> ?e)) k r" if "aget t k = Some r" "k \<noteq> sid" for k r
  proof -
    have "entry_ok ps1 k r" unfolding ps1_def by (rule entry_ok_marked[OF ok[OF that(1)] ow that(2)])
    with fresh show ?thesis by (intro entry_ok_fresh)
  qed
  have own: "owns (ps1(p \<mapsto> ?e)) sid old PS_Draining" if "active_path_id s = Some old" for old
    using owns_fresh[where ps=ps1 and p=p, OF fresh] owns_set[OF ow[OF that]] that by (simp add: ps1_def)
  have prev: "owns (ps1(p \<mapsto> ?e)) sid o' PS_Draining" if "active_path_id s = None" "prev_path_id s = Some o'" for o'
    using ok[OF Some] that owns_fresh[where ps=ps1 and p=p, OF fresh] by (simp add: entry_ok_def ps1_def)
  have self: "owns (ps1(p \<mapsto> ?e)) sid p PS_Active" by (simp add: owns_def)
  have "entry_ok (ps1(p \<mapsto> ?e)) sid (s\<lparr>active_path_id := Some p,
      prev_path_id := (case active_path_id s of Some old \<Rightarrow> Some old | None \<Rightarrow> prev_path_id s)\<rparr>)"
    using own prev self ok[OF Some] by (auto simp: entry_ok_def split: option.splits)
  with others Some show ?thesis
    by (auto simp: paths_ok_def split_beta migrate_get migrate_paths simp flip: ps1_def)
qed

lemma retire_paths_ok:
  assumes "paths_ok (t, ps)"
  shows "paths_ok (session_exec (SO_Retire sid) (t, ps))"
proof (cases "aget t sid")
  case None
  then show ?thesis using assms by (simp add: retire_draining_path_def)
next
  case (Some s)
  have ok: "entry_ok ps k r" if "aget t k = Some r" for k r
    using assms that by (simp add: paths_ok_def)
  define ps1 where "ps1 = (case prev_path_id s of Some old \<Rightarrow> set_path_state PS_Closed old ps | None \<Rightarrow> ps)"
  have ow: "owns ps sid p PS_Draining" if "prev_path_id s = Some p" for p
    using ok[OF Some] that by (simp add: entry_ok_def)
  have others: "entry_ok ps1 k r" if "aget t k = Some r" "k \<noteq> sid" for k r
    unfolding ps1_def by (rule entry_ok_marked[OF ok[OF that(1)] ow that(2)])
  have own: "owns ps1 sid p PS_Active" if p: "active_path_id s = Some p" for p
  proof (cases "prev_path_id s")
    case (Some old)
    have a: "owns ps sid p PS_Active" using ok[OF \<open>aget t sid = Some s\<close>] p by (simp add: entry_ok_def)
    then have "p \<noteq> old" using owns_unique[OF ow[OF Some]] by blast
    then show ?thesis using a Some by (simp add: ps1_def owns_other)
  qed (use ok[OF Some] p in \<open>simp add: ps1_def entry_ok_def\<close>)
  have "entry_ok ps1 sid (s\<lparr>prev_path_id := None\<rparr>)"
    using own ok[OF Some] by (simp add: entry_ok_def)
  with others Some show ?thesis
    by (auto simp: paths_ok_def split_beta retire_get retire_paths simp flip: ps1_def)
qed

lemma create_paths_ok:
  assumes "paths_ok (t, ps)" "entry_ok ps' (se_session_id s) s"
    "\<And>k r. k \<noteq> se_session_id s \<Longrightarrow> entry_ok ps k r \<Longrightarrow> entry_ok ps' k r"
  shows "paths_ok (session_create t s, ps')"
  using assms by (simp add: paths_ok_def session_create_def)

lemma step_paths_ok: "session_step st st' \<Longrightarrow> paths_ok st \<Longrightarrow> paths_ok st'"
proof (induction rule: session_step.induct)
  case (host_create t s ps)
  then show ?case by (auto intro!: create_paths_ok simp: entry_ok_def)
next
  case (bootstrap t s p ps q)
  have "paths_ok (session_create t s, path_create ps \<lparr>pe_path_id = p, pe_session_id = se_session_id s,
      last_ack_stream_seq = q, pe_state = PS_Active\<rparr>)"
  proof (rule create_paths_ok[OF bootstrap(5)])
    show "entry_ok ps k r \<Longrightarrow> entry_ok (path_create ps \<lparr>pe_path_id = p, pe_session_id = se_session_id s,
      last_ack_stream_seq = q, pe_state = PS_Active\<rparr>) k r" for k r
      using entry_ok_fresh[where ps=ps and p=p, OF bootstrap(4)] by (simp add: path_create_def)
  qed (use bootstrap in \<open>simp add: entry_ok_def owns_def path_create_def\<close>)
  then show ?case by simp
next
  case (migrate ps p t sid q)
  then show ?case using migrate_paths_ok by blast
next
  case (retire t ps sid)
  then show ?case using retire_paths_ok by blast
qed (auto elim!: paths_ok_same_paths split: if_splits
      simp: terminate_def ack_seq_def record_activity_def increment_quiescent_epochs_def)

lemma reachable_paths_ok: "session_step\<^sup>*\<^sup>* (sessions_new, paths_new) st \<Longrightarrow> paths_ok st"
proof (induction rule: rtranclp_induct)
  case base
  show ?case by (simp add: paths_ok_def sessions_new_def)
next
  case (step st st')
  then show ?case by (blast intro: step_paths_ok)
qed

text \<open>
  C15. Paths: in every state reachable by bootstraps and host creations of sessions whose id and
  path are not yet known, migrations to paths not yet known, retirements, terminations,
  acknowledgements and activity, the active path of a session is an active entry of the path table
  that resolves to this session, the previous path is a draining entry that still resolves to it
  and is a different path, and no two sessions share a path.
\<close>

theorem paths_resolve:
  assumes "session_step\<^sup>*\<^sup>* (sessions_new, paths_new) (t, ps)" "aget t sid = Some s"
  shows "(active_path_id s = Some p \<longrightarrow> resolve_session ps p = Some sid \<and> owns ps sid p PS_Active)
    \<and> (prev_path_id s = Some q \<longrightarrow> resolve_session ps q = Some sid \<and> owns ps sid q PS_Draining)
    \<and> (active_path_id s = Some p \<longrightarrow> prev_path_id s \<noteq> Some p)
    \<and> (aget t k = Some r \<longrightarrow> active_path_id s = Some p \<longrightarrow>
         active_path_id r = Some p \<or> prev_path_id r = Some p \<longrightarrow> k = sid)"
proof -
  have ok: "entry_ok ps k r" if "aget t k = Some r" for k r
    using reachable_paths_ok[OF assms(1)] that by (simp add: paths_ok_def)
  have r: "owns ps sid p st \<Longrightarrow> st \<noteq> PS_Closed \<Longrightarrow> resolve_session ps p = Some sid" for sid p st
    by (auto simp: owns_def resolve_session_def)
  have "owns ps sid p PS_Active" if "active_path_id s = Some p"
    using ok[OF assms(2)] that by (simp add: entry_ok_def)
  moreover have "owns ps sid q PS_Draining" if "prev_path_id s = Some q" for q
    using ok[OF assms(2)] that by (simp add: entry_ok_def)
  moreover have "owns ps k p PS_Active \<or> owns ps k p PS_Draining"
    if "aget t k = Some r" "active_path_id r = Some p \<or> prev_path_id r = Some p"
    using ok[OF that(1)] that(2) by (auto simp: entry_ok_def)
  ultimately show ?thesis using r owns_unique by blast
qed

definition moved_session :: session_state where
  "moved_session = session_exec (SO_Migrate 1 11 4)
     (session_exec (SO_PathCreate \<lparr>pe_path_id = 10, pe_session_id = 1, last_ack_stream_seq = 0, pe_state = PS_Active\<rparr>)
       (session_exec (SO_Create ((session_at 1 0)\<lparr>active_path_id := Some 10\<rparr>)) (sessions_new, paths_new)))"

theorem paths_resolve_witness:
  "resolve_session (snd moved_session) 11 = Some 1 \<and> resolve_session (snd moved_session) 10 = Some 1"
proof -
  let ?st = "session_exec (SO_PathCreate \<lparr>pe_path_id = 10, pe_session_id = 1, last_ack_stream_seq = 0, pe_state = PS_Active\<rparr>)
       (session_exec (SO_Create ((session_at 1 0)\<lparr>active_path_id := Some 10\<rparr>)) (sessions_new, paths_new))"
  have "session_step (sessions_new, paths_new) ?st"
    using session_step.bootstrap[of sessions_new "(session_at 1 0)\<lparr>active_path_id := Some 10\<rparr>" 10 paths_new 0]
    by (simp add: sessions_new_def paths_new_def session_at_def)
  moreover have "session_step ?st moved_session"
    using session_step.migrate[of "snd ?st" 11 "fst ?st" 1 4]
    by (simp add: moved_session_def path_create_def paths_new_def)
  ultimately have reach: "session_step\<^sup>*\<^sup>* (sessions_new, paths_new) (fst moved_session, snd moved_session)"
    by (simp add: converse_rtranclp_into_rtranclp r_into_rtranclp)
  have s: "aget (fst moved_session) 1
      = Some ((session_at 1 0)\<lparr>active_path_id := Some 11, prev_path_id := Some 10\<rparr>)"
    by (simp add: moved_session_def split_beta migrate_get session_create_def sessions_new_def session_at_def)
  show ?thesis using paths_resolve[OF reach s, of 11 10 0 undefined] by simp
qed

text \<open>
  The discipline is needed.  A session that migrates onto its own active path (a profile sent
  again on the same connection) keeps it as active and as previous path, and the next retirement
  closes it: from then on its records no longer resolve.  A session that migrates onto the path of
  another takes it over: the path resolves to the newcomer while the other session still counts it
  as its active path, and the other's next migration marks the newcomer's path as draining.
\<close>

theorem path_reuse_breaks:
  assumes "aget t sid = Some s" "active_path_id s = Some p" "ps p = Some e"
    and "aget t k = Some r" "k \<noteq> sid"
  shows "(let (t1, ps1) = session_exec (SO_Migrate sid p q) (t, ps); (t2, ps2) = session_exec (SO_Retire sid) (t1, ps1) in
        resolve_session ps1 p = Some sid
      \<and> map_option active_path_id (aget t2 sid) = Some (Some p) \<and> resolve_session ps2 p = None)
    \<and> (let (t1, ps1) = session_exec (SO_Migrate k p q) (t, ps); (t2, ps2) = session_exec (SO_Migrate sid p' q) (t1, ps1) in
        map_option active_path_id (aget t1 sid) = Some (Some p) \<and> resolve_session ps1 p = Some k
      \<and> map_option active_path_id (aget t1 k) = Some (Some p)
      \<and> (p' \<noteq> p \<longrightarrow> owns ps2 k p PS_Draining))"
  using assms
  by (simp add: split_beta migrate_get retire_get migrate_paths retire_paths resolve_session_def owns_def
      set_path_state_at split: option.split)

theorem path_reuse_breaks_witness:
  "resolve_session (snd (session_exec (SO_Retire 1) (session_exec (SO_Migrate 1 11 4)
      (session_create (fst moved_session) (session_at 2 0), snd moved_session)))) 11 = None"
proof -
  have s: "aget (fst moved_session) 1
      = Some ((session_at 1 0)\<lparr>active_path_id := Some 11, prev_path_id := Some 10\<rparr>)"
    by (simp add: moved_session_def split_beta migrate_get session_create_def sessions_new_def session_at_def)
  have two: "aget (session_create (fst moved_session) (session_at 2 0)) 1
      = Some ((session_at 1 0)\<lparr>active_path_id := Some 11, prev_path_id := Some 10\<rparr>)"
    "aget (session_create (fst moved_session) (session_at 2 0)) 2 = Some (session_at 2 0)"
    using s by (simp_all add: session_create_def session_at_def)
  obtain e where e: "snd moved_session 11 = Some e"
    by (simp add: moved_session_def split_beta migrate_paths session_create_def sessions_new_def session_at_def)
  show ?thesis
    using path_reuse_breaks[where p=11 and ps="snd moved_session" and q=4 and p'=0, OF two(1) _ e two(2)]
    by (simp add: Let_def split_beta)
qed

end
