(* ===== verification/Topology.thy ===== *)
theory Topology
  imports Domain
begin

text \<open>
  Placement, \<^verbatim>\<open>session-rs/src/topology.rs\<close>: the ternary health of a shard computed from its
  pressure, the health map, and the choice of a shard for a new partition.  The map's list order
  stands for the hash map's iteration order; the results below hold for every order.
\<close>

type_synonym i8 = "8 word"

definition PARTITION_TOPOLOGY :: u64 where "PARTITION_TOPOLOGY = 0xFFFFFFFFFFFFFFFD"
definition CONGESTED_QUEUE_DEPTH :: u32 where "CONGESTED_QUEUE_DEPTH = 500"
definition HOT_CURSOR_COUNT :: u32 where "HOT_CURSOR_COUNT = 1"
definition HEALTH_POS :: i8 where "HEALTH_POS = 1"
definition HEALTH_ZERO :: i8 where "HEALTH_ZERO = 0"
definition HEALTH_NEG :: i8 where "HEALTH_NEG = - 1"

lemmas health_defs = HEALTH_POS_def HEALTH_ZERO_def HEALTH_NEG_def CONGESTED_QUEUE_DEPTH_def HOT_CURSOR_COUNT_def

definition health_from_pressure :: "shard_pressure \<Rightarrow> i8" where
  "health_from_pressure p =
     (if cursor_count p \<ge> HOT_CURSOR_COUNT then HEALTH_NEG
      else if queue_depth p \<ge> CONGESTED_QUEUE_DEPTH then HEALTH_ZERO
      else HEALTH_POS)"

record topology_node =
  tn_health :: i8
  tn_queue_depth :: u32
  tn_cursor_count :: u32
  tn_budget_consumed :: u64

definition from_pressure :: "shard_pressure \<Rightarrow> topology_node" where
  "from_pressure p = \<lparr>tn_health = health_from_pressure p, tn_queue_depth = queue_depth p,
     tn_cursor_count = cursor_count p, tn_budget_consumed = budget_consumed p\<rparr>"

definition is_healthy :: "topology_node \<Rightarrow> bool" where
  "is_healthy n = (tn_health n = HEALTH_POS)"

type_synonym topology = "(shard_id, topology_node) amap"

definition topology_new :: topology where "topology_new = []"

definition shard_health :: "topology \<Rightarrow> shard_id \<Rightarrow> i8" where
  "shard_health t s = (case aget t s of Some n \<Rightarrow> tn_health n | None \<Rightarrow> HEALTH_NEG)"

definition topology_update :: "topology \<Rightarrow> shard_id \<Rightarrow> shard_pressure \<Rightarrow> topology \<times> i8 \<times> i8" where
  "topology_update t s p =
     (let old = (case aget t s of Some n \<Rightarrow> tn_health n | None \<Rightarrow> HEALTH_NEG);
          nd = from_pressure p in
      (aput s nd t, old, tn_health nd))"

definition topology_node_of :: "topology \<Rightarrow> shard_id \<Rightarrow> topology_node option" where
  "topology_node_of t s = aget t s"

definition candidates :: "topology \<Rightarrow> fabric_addr \<Rightarrow> domain_registry \<Rightarrow> (shard_id \<times> u32) list" where
  "candidates t req d = List.map_filter
     (\<lambda>(s, _). map_option (\<lambda>addr. (s, hop_distance req addr)) (shard_addr d s))
     (filter (\<lambda>(_, n). is_healthy n) t)"

definition best_shard_for :: "topology \<Rightarrow> fabric_addr \<Rightarrow> domain_registry \<Rightarrow> shard_id option" where
  "best_shard_for t req d = map_option fst (min_by_key snd (candidates t req d))"

definition any_healthy_shard :: "topology \<Rightarrow> shard_id option" where
  "any_healthy_shard t = min_by_key (\<lambda>s. s) (map fst (filter (\<lambda>(_, n). is_healthy n) t))"

section \<open>Placement is sound\<close>

definition candidate :: "topology \<Rightarrow> domain_registry \<Rightarrow> shard_id \<Rightarrow> fabric_addr \<Rightarrow> bool" where
  "candidate t d s a = (shard_health t s = HEALTH_POS \<and> shard_addr d s = Some a)"

lemma healthy_in:
  assumes "awf t"
  shows "(\<exists>n. (s, n) \<in> set t \<and> is_healthy n) \<longleftrightarrow> shard_health t s = HEALTH_POS"
  using assms
  by (auto simp: aget_in_set shard_health_def is_healthy_def health_defs split: option.splits)

lemma candidates_set:
  assumes "awf t"
  shows "(s, h) \<in> set (candidates t req d) \<longleftrightarrow> (\<exists>a. candidate t d s a \<and> h = hop_distance req a)"
  using healthy_in[OF assms, of s]
  by (fastforce simp: candidates_def map_filter_def candidate_def image_iff)

lemma best_shard_SomeD:
  assumes "awf t" "best_shard_for t req d = Some s"
  shows "\<exists>a. candidate t d s a \<and> (\<forall>s' a'. candidate t d s' a' \<longrightarrow> hop_distance req a \<le> hop_distance req a')"
proof -
  obtain h where m: "min_by_key snd (candidates t req d) = Some (s, h)"
    using assms(2) by (auto simp: best_shard_for_def)
  have "(s, h) \<in> set (candidates t req d)" and le: "\<And>c. c \<in> set (candidates t req d) \<Longrightarrow> h \<le> snd c"
    using min_by_key_SomeD[OF m] by simp_all
  then obtain a where a: "candidate t d s a" "h = hop_distance req a" by (auto simp: candidates_set[OF assms(1)])
  moreover have "hop_distance req a \<le> hop_distance req a'" if "candidate t d s' a'" for s' a'
    using le[of "(s', hop_distance req a')"] that a(2) by (auto simp: candidates_set[OF assms(1)])
  ultimately show ?thesis by blast
qed

lemma best_shard_None:
  assumes "awf t"
  shows "best_shard_for t req d = None \<longleftrightarrow> (\<forall>s a. \<not> candidate t d s a)"
proof -
  have "candidates t req d = [] \<longleftrightarrow> (\<forall>s h. (s, h) \<notin> set (candidates t req d))"
    by (cases "candidates t req d") auto
  also have "\<dots> \<longleftrightarrow> (\<forall>s a. \<not> candidate t d s a)"
    unfolding candidates_set[OF assms] by blast
  finally show ?thesis by (simp add: best_shard_for_def)
qed

lemma any_healthy_SomeD:
  assumes "awf t" "any_healthy_shard t = Some s"
  shows "shard_health t s = HEALTH_POS \<and> (\<forall>s'. shard_health t s' = HEALTH_POS \<longrightarrow> s \<le> s')"
proof -
  have m: "s \<in> set (map fst (filter (\<lambda>(_, n). is_healthy n) t))"
    "\<forall>s' \<in> set (map fst (filter (\<lambda>(_, n). is_healthy n) t)). s \<le> s'"
    using min_by_key_SomeD[OF assms(2)[unfolded any_healthy_shard_def]] by simp_all
  have "s' \<in> set (map fst (filter (\<lambda>(_, n). is_healthy n) t)) \<longleftrightarrow> shard_health t s' = HEALTH_POS" for s'
    using healthy_in[OF assms(1), of s'] by (auto simp: image_iff)
  with m show ?thesis by blast
qed

lemma any_healthy_None:
  assumes "awf t"
  shows "any_healthy_shard t = None \<longleftrightarrow> (\<forall>s. shard_health t s \<noteq> HEALTH_POS)"
  unfolding healthy_in[OF assms, symmetric] by (auto simp: any_healthy_shard_def filter_empty_conv)

lemma topology_update_wf: "awf t \<Longrightarrow> awf (fst (topology_update t s p))"
  by (simp add: topology_update_def Let_def)

lemma topology_update_health:
  "shard_health (fst (topology_update t s p)) s' = (if s' = s then health_from_pressure p else shard_health t s')"
  "snd (topology_update t s p) = (shard_health t s, health_from_pressure p)"
  by (simp_all add: topology_update_def shard_health_def Let_def from_pressure_def)

text \<open>
  Placement: \<open>best_shard_for\<close> returns a shard that is healthy and has a known address, at the
  least hop distance of all such shards, and nothing exactly when there is none; \<open>any_healthy_shard\<close>
  returns the least id of the healthy shards, and nothing exactly when there is none; an update
  reports the old and the new health, changes the health of its shard alone, and the shard is
  healthy exactly with no parked cursor and a queue below 500.
\<close>

theorem placement_nearest:
  assumes "awf t"
  shows "(best_shard_for t req d = Some s \<longrightarrow> (\<exists>a. candidate t d s a
           \<and> (\<forall>s' a'. candidate t d s' a' \<longrightarrow> hop_distance req a \<le> hop_distance req a')))
    \<and> (best_shard_for t req d = None) = (\<forall>s a. \<not> candidate t d s a)
    \<and> (any_healthy_shard t = Some s \<longrightarrow> shard_health t s = HEALTH_POS
         \<and> (\<forall>s'. shard_health t s' = HEALTH_POS \<longrightarrow> s \<le> s'))
    \<and> (any_healthy_shard t = None) = (\<forall>s. shard_health t s \<noteq> HEALTH_POS)
    \<and> snd (topology_update t s p) = (shard_health t s, health_from_pressure p)
    \<and> shard_health (fst (topology_update t s p)) s' = (if s' = s then health_from_pressure p else shard_health t s')
    \<and> (health_from_pressure p = HEALTH_POS) = (cursor_count p = 0 \<and> queue_depth p < 500)"
proof (intro conjI)
  have "(1 :: u32) \<le> cursor_count p \<longleftrightarrow> cursor_count p \<noteq> 0"
    by (metis unat_gt_0 unat_1 word_le_nat_alt Suc_leI One_nat_def not_le gr0I unat_0 zero_less_one)
  then show "(health_from_pressure p = HEALTH_POS) = (cursor_count p = 0 \<and> queue_depth p < 500)"
    by (auto simp: health_from_pressure_def health_defs not_le)
qed (use best_shard_SomeD[OF assms] best_shard_None[OF assms] any_healthy_SomeD[OF assms]
      any_healthy_None[OF assms] topology_update_health in auto)

definition loaded_topology :: topology where
  "loaded_topology = fold (\<lambda>(s, q) t. fst (topology_update t s (pressure_default\<lparr>queue_depth := q\<rparr>)))
     [(2, 0), (0, 700), (1, 499)] topology_new"

theorem placement_nearest_witness:
  "best_shard_for loaded_topology \<lparr>fa_region = 0, fa_pod = 0, fa_rack = 0, fa_leaf = 0\<rparr> three_shards = Some 1
   \<and> any_healthy_shard loaded_topology = Some 1 \<and> shard_health loaded_topology 0 \<noteq> HEALTH_POS"
proof -
  have w: "awf loaded_topology"
    and b: "best_shard_for loaded_topology \<lparr>fa_region = 0, fa_pod = 0, fa_rack = 0, fa_leaf = 0\<rparr> three_shards = Some 1"
    and h: "any_healthy_shard loaded_topology = Some 1"
    by code_simp+
  show ?thesis
    using placement_nearest[OF w, of "\<lparr>fa_region = 0, fa_pod = 0, fa_rack = 0, fa_leaf = 0\<rparr>" three_shards 1 undefined 0] b h
    by auto
qed

end
