(* ===== verification/Telemetry.thy ===== *)
theory Telemetry
  imports Domain
begin

text \<open>
  Telemetry, \<^verbatim>\<open>session-rs/src/telemetry.rs\<close>: the events, the names of the telemetry nodes and the
  ring buffer that holds the events until a subscriber drains it.  A \<open>Uid\<close> is printed by the
  \<^verbatim>\<open>uuid\<close> crate, whose printing is an argument of the names that use it.
\<close>

definition PARTITION_TELEMETRY :: u64 where "PARTITION_TELEMETRY = 0xFFFFFFFFFFFFFFFE"
definition DEFAULT_RING_CAPACITY :: nat where "DEFAULT_RING_CAPACITY = 4096"

section \<open>Events\<close>

datatype telemetry_event =
    TE_ValueChanged uid u64
  | TE_AuthViolation uid string
  | TE_SessionHealthChanged session_id bool
  | TE_ShardPressureChanged shard_id u32
  | TE_DomainQuiescent wire_partition_id
  | TE_BudgetExhausted uid u32 u32
  | TE_TopologyHealthChanged shard_id "8 word" "8 word"
  | TE_FabricPlacementChanged shard_id fabric_addr
  | TE_CellQuiescent uid wire_partition_id bool
  | TE_RegionQuiescent uid wire_partition_id bool u32

section \<open>Node names\<close>

text \<open>The decimal numeral that \<open>{}\<close> prints for an unsigned integer.\<close>

fun show_nat :: "nat \<Rightarrow> string" where
  "show_nat n = (if n < 10 then [char_of (48 + n)] else show_nat (n div 10) @ [char_of (48 + n mod 10)])"

declare show_nat.simps [simp del]

definition show_u64 :: "u64 \<Rightarrow> string" where
  "show_u64 w = show_nat (unat w)"

definition name_node_value :: "(uid \<Rightarrow> string) \<Rightarrow> uid \<Rightarrow> string" where
  "name_node_value show_uid u = ''node::'' @ show_uid u @ ''::value''"

definition name_session_health :: "session_id \<Rightarrow> string" where
  "name_session_health s = ''session::'' @ show_u64 s @ ''::stream_health''"

definition name_shard_pressure :: "shard_id \<Rightarrow> string" where
  "name_shard_pressure s = ''shard::'' @ show_u64 s @ ''::pressure''"

definition name_auth_violations :: string where
  "name_auth_violations = ''auth::violations''"

definition name_domain_quiescent :: "wire_partition_id \<Rightarrow> string" where
  "name_domain_quiescent p = ''domain::'' @ show_u64 p @ ''::quiescent''"

definition name_topology_health :: "shard_id \<Rightarrow> string" where
  "name_topology_health s = ''shard::'' @ show_u64 s @ ''::topology_health''"

definition name_locality_radius :: "shard_id \<Rightarrow> string" where
  "name_locality_radius s = ''shard::'' @ show_u64 s @ ''::locality_radius''"

definition name_placement_coords :: "shard_id \<Rightarrow> string" where
  "name_placement_coords s = ''shard::'' @ show_u64 s @ ''::placement_coords''"

definition name_cell_is_at_zero :: "(uid \<Rightarrow> string) \<Rightarrow> uid \<Rightarrow> string" where
  "name_cell_is_at_zero show_uid u = ''cell::'' @ show_uid u @ ''::is_at_zero''"

definition name_region_quiescent :: "(uid \<Rightarrow> string) \<Rightarrow> uid \<Rightarrow> string" where
  "name_region_quiescent show_uid u = ''region::'' @ show_uid u @ ''::quiescent''"

definition name_domain_all_quiescent :: "wire_partition_id \<Rightarrow> string" where
  "name_domain_all_quiescent p = ''domain::'' @ show_u64 p @ ''::all_quiescent''"

text \<open>The topology partition's names (\<^verbatim>\<open>topology.rs\<close>); two of them are also telemetry names.\<close>

definition topo_name_shard :: "shard_id \<Rightarrow> string" where
  "topo_name_shard s = ''shard::'' @ show_u64 s @ ''::fabric''"

definition topo_name_locality_radius :: "shard_id \<Rightarrow> string" where
  "topo_name_locality_radius s = ''shard::'' @ show_u64 s @ ''::locality_radius''"

definition topo_name_placement_coords :: "shard_id \<Rightarrow> string" where
  "topo_name_placement_coords s = ''shard::'' @ show_u64 s @ ''::placement_coords''"

text \<open>No two subjects share a node: the numerals are read back, the words around them differ.\<close>

definition read_digits :: "string \<Rightarrow> nat" where
  "read_digits cs = foldl (\<lambda>n c. 10 * n + (of_char c - 48)) 0 cs"

lemma read_show_nat: "read_digits (show_nat n) = n"
proof (induction n rule: show_nat.induct)
  case (1 n)
  then show ?case
    by (subst show_nat.simps) (auto simp: read_digits_def)
qed

lemma show_u64_inj: "show_u64 a = show_u64 b \<longleftrightarrow> a = b"
  by (metis read_show_nat show_u64_def word_unat_eq_iff)

lemma names_inj:
  "name_session_health a = name_session_health b \<longleftrightarrow> a = b"
  "name_shard_pressure a = name_shard_pressure b \<longleftrightarrow> a = b"
  "name_domain_quiescent a = name_domain_quiescent b \<longleftrightarrow> a = b"
  "name_topology_health a = name_topology_health b \<longleftrightarrow> a = b"
  "name_locality_radius a = name_locality_radius b \<longleftrightarrow> a = b"
  "name_placement_coords a = name_placement_coords b \<longleftrightarrow> a = b"
  "name_domain_all_quiescent a = name_domain_all_quiescent b \<longleftrightarrow> a = b"
  "topo_name_shard a = topo_name_shard b \<longleftrightarrow> a = b"
  by (simp_all add: name_session_health_def name_shard_pressure_def name_domain_quiescent_def
      name_topology_health_def name_locality_radius_def name_placement_coords_def
      name_domain_all_quiescent_def topo_name_shard_def show_u64_inj)

lemma names_apart:
  "name_shard_pressure a \<noteq> name_topology_health b" "name_shard_pressure a \<noteq> name_locality_radius b"
  "name_shard_pressure a \<noteq> name_placement_coords b" "name_topology_health a \<noteq> name_locality_radius b"
  "name_topology_health a \<noteq> name_placement_coords b" "name_locality_radius a \<noteq> name_placement_coords b"
  by (auto simp: name_shard_pressure_def name_topology_health_def name_locality_radius_def
      name_placement_coords_def dest: arg_cong[where f=List.last])

lemma domain_names_apart: "name_domain_quiescent a \<noteq> name_domain_all_quiescent b"
proof
  assume "name_domain_quiescent a = name_domain_all_quiescent b"
  then have "rev (name_domain_quiescent a) ! 9 = rev (name_domain_all_quiescent b) ! 9" by simp
  then show False by (simp add: name_domain_quiescent_def name_domain_all_quiescent_def nth_append)
qed

lemma shared_names:
  "topo_name_locality_radius a = name_locality_radius a" "topo_name_placement_coords a = name_placement_coords a"
  by (simp_all add: topo_name_locality_radius_def name_locality_radius_def
      topo_name_placement_coords_def name_placement_coords_def)

section \<open>The ring buffer\<close>

record telemetry =
  tp_buffer :: "telemetry_event list"
  tp_capacity :: nat
  tp_dropped :: u64

definition telemetry_new :: "nat \<Rightarrow> telemetry" where
  "telemetry_new n = \<lparr>tp_buffer = [], tp_capacity = n, tp_dropped = 0\<rparr>"

definition emit :: "telemetry_event \<Rightarrow> telemetry \<Rightarrow> telemetry" where
  "emit ev t =
     (let t1 = (if length (tp_buffer t) \<ge> tp_capacity t
                then t\<lparr>tp_buffer := tl (tp_buffer t), tp_dropped := tp_dropped t + 1\<rparr> else t) in
      t1\<lparr>tp_buffer := tp_buffer t1 @ [ev]\<rparr>)"

definition drain_events :: "telemetry \<Rightarrow> telemetry \<times> telemetry_event list" where
  "drain_events t = (t\<lparr>tp_dropped := 0, tp_buffer := []\<rparr>, tp_buffer t)"

definition peek_events :: "telemetry \<Rightarrow> telemetry_event list" where
  "peek_events t = tp_buffer t"

section \<open>The buffer holds the end of the log\<close>

text \<open>
  The abstract telemetry stream is the log of everything emitted since the last drain; the buffer
  holds its end.
\<close>

definition holds_log :: "telemetry \<Rightarrow> telemetry_event list \<Rightarrow> bool" where
  "holds_log t evs = (tp_buffer t = drop (length evs - max 1 (tp_capacity t)) evs
     \<and> tp_dropped t = of_nat (length evs - tp_capacity t))"

lemma emit_capacity [simp]: "tp_capacity (emit ev t) = tp_capacity t"
  by (simp add: emit_def Let_def)

lemma holds_log_new: "holds_log (telemetry_new n) []"
  by (simp add: holds_log_def telemetry_new_def)

lemma holds_log_emit:
  assumes "holds_log t evs"
  shows "holds_log (emit ev t) (evs @ [ev])"
proof (cases "tp_capacity t \<le> length (tp_buffer t)")
  case True
  have b: "tp_buffer t = drop (length evs - max 1 (tp_capacity t)) evs"
    and d: "tp_dropped t = of_nat (length evs - tp_capacity t)"
    using assms by (simp_all add: holds_log_def)
  from True b have c: "tp_capacity t \<le> length evs" by simp
  have "tl (drop (length evs - max 1 (tp_capacity t)) evs) @ [ev]
      = drop (Suc (length evs) - max 1 (tp_capacity t)) (evs @ [ev])"
    using c by (cases "evs = []"; cases "tp_capacity t")
      (auto simp: tl_drop drop_Suc[symmetric] Suc_diff_le Suc_diff_Suc max_def)
  moreover have "tp_dropped t + 1 = of_nat (Suc (length evs) - tp_capacity t)"
    using c by (simp add: d Suc_diff_le)
  ultimately show ?thesis using True b by (simp add: holds_log_def emit_def Let_def)
next
  case False
  then have "length evs < tp_capacity t"
    using assms by (auto simp: holds_log_def max_def split: if_splits)
  with False assms show ?thesis by (simp add: holds_log_def emit_def Let_def)
qed

lemma holds_log_drain:
  "holds_log (fst (drain_events t)) []" "tp_capacity (fst (drain_events t)) = tp_capacity t"
  by (simp_all add: holds_log_def drain_events_def)

lemma holds_log_emits: "holds_log t evs \<Longrightarrow> holds_log (fold emit es t) (evs @ es)"
proof (induction es arbitrary: t evs)
  case (Cons e es)
  from Cons.IH[OF holds_log_emit[OF Cons.prems, of e]] show ?case by simp
qed simp

lemma buffer_bound: "holds_log t evs \<Longrightarrow> length (tp_buffer t) \<le> max 1 (tp_capacity t)"
  by (simp add: holds_log_def)

text \<open>
  The telemetry ring buffer refines the log of the events since the last drain: after any
  emissions it holds the end of the log, as many events as the capacity (one when the capacity is
  zero), in emission order, and the counter tells how many the log exceeds the capacity by;
  a drain hands that end over and starts an empty log.
\<close>

theorem telemetry_refines_log:
  "holds_log (fold emit es (telemetry_new n)) es
   \<and> peek_events (fold emit es (telemetry_new n)) = drop (length es - max 1 n) es
   \<and> length (tp_buffer (fold emit es (telemetry_new n))) = min (max 1 n) (length es)
   \<and> snd (drain_events (fold emit es (telemetry_new n))) = drop (length es - max 1 n) es
   \<and> holds_log (fold emit fs (fst (drain_events (fold emit es (telemetry_new n))))) fs"
proof -
  have h: "holds_log (fold emit es (telemetry_new n)) es" for es
    using holds_log_emits[OF holds_log_new[of n], of es] by simp
  have c: "tp_capacity (fold emit es t) = tp_capacity t" for t
    by (induction es arbitrary: t) simp_all
  have b: "tp_buffer (fold emit es (telemetry_new n)) = drop (length es - max 1 n) es"
    using h[of es] c[of "telemetry_new n"] by (simp add: holds_log_def telemetry_new_def)
  show ?thesis
    using h b holds_log_emits[OF holds_log_drain(1), of fs "fold emit es (telemetry_new n)"]
    by (auto simp: peek_events_def drain_events_def min_def max_def)
qed

end
