(* ===== verification/Bytes.thy ===== *)
theory Bytes
  imports Prelude
begin

text \<open>
  Bytes of the wire format: little-endian integers (\<open>to_le_bytes\<close>, \<open>from_le_bytes\<close> of the standard
  library), strings as their UTF-8 bytes with the validity check of \<open>std::str::from_utf8\<close>, and the
  little-endian round trips.  A string of the model is the list of its UTF-8 bytes.
\<close>

type_synonym byte = "8 word"

section \<open>Little-endian integers\<close>

definition to_le :: "'a::len word \<Rightarrow> byte list" where
  "to_le w = map (\<lambda>i. ucast (drop_bit (8 * i) w)) [0..<LENGTH('a) div 8]"

fun from_le :: "byte list \<Rightarrow> 'a::len word" where
  "from_le [] = 0"
| "from_le (b # bs) = ucast b OR push_bit 8 (from_le bs)"

lemma length_to_le [simp]: "length (to_le (w :: 'a::len word)) = LENGTH('a) div 8"
  by (simp add: to_le_def)

lemma bit_from_le:
  "bit (from_le bs :: 'a::len word) i \<longleftrightarrow> i < LENGTH('a) \<and> i div 8 < length bs \<and> bit (bs ! (i div 8)) (i mod 8)"
proof (induction bs arbitrary: i)
  case (Cons b bs)
  have "bit b i \<Longrightarrow> i < 8" using bit_imp_le_length[of b i] by simp
  then show ?case
  proof (cases "i < 8")
    case False
    then have "i div 8 = Suc ((i - 8) div 8)" "i mod 8 = (i - 8) mod 8" by (simp_all add: le_div_geq le_mod_geq)
    moreover have "\<not> bit b i" using False bit_imp_le_length[of b i] by auto
    ultimately show ?thesis
      using Cons[of "i - 8"] False by (auto simp: bit_or_iff bit_ucast_iff bit_push_bit_iff)
  qed (auto simp: bit_or_iff bit_ucast_iff bit_push_bit_iff)
qed simp

lemma bit_to_le:
  assumes "k < LENGTH('a) div 8"
  shows "bit (to_le (w :: 'a::len word) ! k) i \<longleftrightarrow> i < 8 \<and> bit w (8 * k + i)"
  using assms by (simp add: to_le_def bit_ucast_iff bit_drop_bit_eq)

lemma from_le_to_le:
  assumes "8 dvd LENGTH('a)"
  shows "from_le (to_le (w :: 'a::len word)) = w"
proof (rule bit_word_eqI)
  fix i assume i: "i < LENGTH('a)"
  then have "i div 8 < LENGTH('a) div 8" using assms by auto
  then show "bit (from_le (to_le w) :: 'a word) i \<longleftrightarrow> bit w i"
    using i by (simp add: bit_from_le bit_to_le)
qed

lemma to_le_from_le:
  assumes "8 dvd LENGTH('a)" "length bs = LENGTH('a) div 8"
  shows "to_le (from_le bs :: 'a::len word) = bs"
proof (rule nth_equalityI)
  fix k assume "k < length (to_le (from_le bs :: 'a word))"
  then have k: "k < LENGTH('a) div 8" by simp
  show "to_le (from_le bs :: 'a word) ! k = bs ! k"
  proof (rule bit_word_eqI)
    fix i assume "i < LENGTH(8)"
    then have i: "i < 8" by simp
    have "8 * k + i < LENGTH('a)" using k i by linarith
    then show "bit (to_le (from_le bs :: 'a word) ! k) i \<longleftrightarrow> bit (bs ! k) i"
      using k i assms(2) by (simp add: bit_to_le bit_from_le)
  qed
qed (use assms in simp)

lemma to_le_inj: "8 dvd LENGTH('a) \<Longrightarrow> to_le (v :: 'a::len word) = to_le w \<longleftrightarrow> v = w"
  by (metis from_le_to_le)

section \<open>Strings\<close>

definition byte_of :: "char \<Rightarrow> byte" where "byte_of c = of_nat (of_char c)"
definition char_at :: "byte \<Rightarrow> char" where "char_at b = char_of (unat b)"

definition str_bytes :: "string \<Rightarrow> byte list" where "str_bytes s = map byte_of s"
definition bytes_str :: "byte list \<Rightarrow> string" where "bytes_str bs = map char_at bs"

lemma char_at_byte_of [simp]: "char_at (byte_of c) = c"
proof -
  have "of_char c < (2 :: nat) ^ 8" using nat_of_char_less_256[of c] by simp
  then show ?thesis by (simp add: char_at_def byte_of_def unat_of_nat take_bit_nat_eq_self)
qed

lemma byte_of_char_at [simp]: "byte_of (char_at b) = b"
proof -
  have "unat b < 256" using unsigned_less[of b] by simp
  then show ?thesis by (simp add: char_at_def byte_of_def of_char_of)
qed

lemma length_str_bytes [simp]: "length (str_bytes s) = length s"
  by (simp add: str_bytes_def)

lemma bytes_str_bytes [simp]: "bytes_str (str_bytes s) = s" "str_bytes (bytes_str bs) = bs"
  by (simp_all add: str_bytes_def bytes_str_def comp_def)

text \<open>The well-formed byte sequences of the Unicode standard, which \<open>from_utf8\<close> accepts.\<close>

definition utf8_cont :: "byte \<Rightarrow> bool" where "utf8_cont b = (0x80 \<le> b \<and> b \<le> 0xBF)"

fun utf8_valid :: "byte list \<Rightarrow> bool" where
  "utf8_valid [] = True"
| "utf8_valid (a # bs) =
     (if a \<le> 0x7F then utf8_valid bs
      else if 0xC2 \<le> a \<and> a \<le> 0xDF then
        (case bs of b # cs \<Rightarrow> utf8_cont b \<and> utf8_valid cs | _ \<Rightarrow> False)
      else if 0xE0 \<le> a \<and> a \<le> 0xEF then
        (case bs of b # c # ds \<Rightarrow>
           (if a = 0xE0 then 0xA0 \<le> b \<and> b \<le> 0xBF
            else if a = 0xED then 0x80 \<le> b \<and> b \<le> 0x9F else utf8_cont b)
           \<and> utf8_cont c \<and> utf8_valid ds
         | _ \<Rightarrow> False)
      else if 0xF0 \<le> a \<and> a \<le> 0xF4 then
        (case bs of b # c # d # es \<Rightarrow>
           (if a = 0xF0 then 0x90 \<le> b \<and> b \<le> 0xBF
            else if a = 0xF4 then 0x80 \<le> b \<and> b \<le> 0x8F else utf8_cont b)
           \<and> utf8_cont c \<and> utf8_cont d \<and> utf8_valid es
         | _ \<Rightarrow> False)
      else False)"

definition is_str :: "string \<Rightarrow> bool" where "is_str s = utf8_valid (str_bytes s)"

lemma ascii_valid: "\<forall>b \<in> set bs. b \<le> 0x7F \<Longrightarrow> utf8_valid bs"
  by (induction bs) auto

lemma is_str_Nil [simp]: "is_str []"
  by (simp add: is_str_def str_bytes_def)

end
