(* ===== verification/Profile.thy ===== *)
theory Profile
  imports Sess_Auth Bytes
begin

text \<open>
  Session profiles, \<^verbatim>\<open>session-rs/src/profile.rs\<close>: the capability assertion of a stream, its
  canonical signing payload and its verification.  Ed25519 (\<^verbatim>\<open>ed25519_dalek\<close>) is a parameter:
  \<open>verify key payload signature\<close> is the verdict of \<open>verify_strict\<close> on a 64-byte signature, and the
  type \<open>'key\<close> is that of its verifying keys.
\<close>

datatype trust_level = TL_Advisory | TL_Asserted | TL_Attested

definition trust_from_u8 :: "byte \<Rightarrow> trust_level option" where
  "trust_from_u8 b = (if b = 0x01 then Some TL_Advisory else if b = 0x02 then Some TL_Asserted
     else if b = 0x03 then Some TL_Attested else None)"

fun trust_as_u8 :: "trust_level \<Rightarrow> byte" where
  "trust_as_u8 TL_Advisory = 0x01"
| "trust_as_u8 TL_Asserted = 0x02"
| "trust_as_u8 TL_Attested = 0x03"

type_synonym 'key trust_store = "tenant_id \<Rightarrow> 'key option"

record session_profile =
  sp_profile_id :: u32
  sp_profile_version :: u16
  sp_trust_level :: trust_level
  sp_assertion_mask :: u64
  sp_delegation_mask :: u64
  sp_observability_mask :: u64
  sp_disclosure_mask :: u64
  sp_issuer_domain :: tenant_id
  sp_session_id :: session_id
  sp_generation :: u64
  sp_expiry_epoch :: u64
  sp_signature :: "byte list"

datatype profile_error =
    PE_UnknownTrustLevel byte
  | PE_WrongTrustLevel
  | PE_Expired u64 u64
  | PE_GenerationRevoked u64 u64
  | PE_SessionMismatch session_id session_id
  | PE_UnknownIssuer tenant_id
  | PE_SignatureInvalid

definition profile_claimed :: "session_profile \<Rightarrow> authority_policy" where
  "profile_claimed p = \<lparr>assertion = sp_assertion_mask p, delegation = sp_delegation_mask p,
     observability = sp_observability_mask p, disclosure = sp_disclosure_mask p\<rparr>"

definition canonical_signing_payload :: "session_profile \<Rightarrow> byte list" where
  "canonical_signing_payload p = to_le (sp_assertion_mask p) @ to_le (sp_delegation_mask p)
     @ to_le (sp_observability_mask p) @ to_le (sp_disclosure_mask p) @ to_le (sp_issuer_domain p)
     @ to_le (sp_session_id p) @ to_le (sp_generation p) @ to_le (sp_expiry_epoch p)"

definition check_session_binding :: "session_profile \<Rightarrow> session_id \<Rightarrow> profile_error + unit" where
  "check_session_binding p actual =
     (if sp_session_id p \<noteq> actual then Inl (PE_SessionMismatch (sp_session_id p) actual) else Inr ())"

definition check_expiry :: "session_profile \<Rightarrow> u64 \<Rightarrow> profile_error + unit" where
  "check_expiry p current =
     (if sp_expiry_epoch p \<noteq> - 1 \<and> current > sp_expiry_epoch p
        then Inl (PE_Expired (sp_expiry_epoch p) current) else Inr ())"

definition check_generation :: "session_profile \<Rightarrow> u64 \<Rightarrow> profile_error + unit" where
  "check_generation p minimum =
     (if sp_generation p < minimum then Inl (PE_GenerationRevoked (sp_generation p) minimum) else Inr ())"

text \<open>The \<open>?\<close> of the code: an error ends the function.\<close>

definition and_then :: "'e + 'a \<Rightarrow> ('a \<Rightarrow> 'e + 'b) \<Rightarrow> 'e + 'b" where
  "and_then m f = (case m of Inl e \<Rightarrow> Inl e | Inr x \<Rightarrow> f x)"

definition verify_advisory ::
  "session_profile \<Rightarrow> authority_policy \<Rightarrow> u64 \<Rightarrow> u64 \<Rightarrow> session_id \<Rightarrow> profile_error + authority_policy" where
  "verify_advisory p parent current min_gen actual =
     (if sp_trust_level p \<noteq> TL_Advisory then Inl PE_WrongTrustLevel
      else and_then (check_session_binding p actual) (\<lambda>_.
           and_then (check_expiry p current) (\<lambda>_.
           and_then (check_generation p min_gen) (\<lambda>_.
           Inr (intersect (profile_claimed p) parent)))))"

definition verify_asserted ::
  "('key \<Rightarrow> byte list \<Rightarrow> byte list \<Rightarrow> bool) \<Rightarrow> session_profile \<Rightarrow> authority_policy \<Rightarrow> u64 \<Rightarrow> u64 \<Rightarrow> session_id
     \<Rightarrow> 'key trust_store \<Rightarrow> profile_error + authority_policy" where
  "verify_asserted verify p parent current min_gen actual store =
     (if \<not> (sp_trust_level p = TL_Asserted \<or> sp_trust_level p = TL_Attested) then Inl PE_WrongTrustLevel
      else and_then (check_session_binding p actual) (\<lambda>_.
           and_then (check_expiry p current) (\<lambda>_.
           and_then (check_generation p min_gen) (\<lambda>_.
           (case store (sp_issuer_domain p) of
              None \<Rightarrow> Inl (PE_UnknownIssuer (sp_issuer_domain p))
            | Some key \<Rightarrow>
                if length (sp_signature p) \<noteq> 64 then Inl PE_SignatureInvalid
                else if \<not> verify key (canonical_signing_payload p) (sp_signature p) then Inl PE_SignatureInvalid
                else Inr (intersect (profile_claimed p) parent))))))"

section \<open>What verification establishes\<close>

lemma and_then_simps [simp]: "and_then (Inl e) f = Inl e" "and_then (Inr x) f = f x"
  by (simp_all add: and_then_def)

lemma and_then_Inr: "and_then m f = Inr y \<longleftrightarrow> (\<exists>x. m = Inr x \<and> f x = Inr y)"
  by (cases m) simp_all

lemma trust_roundtrip: "trust_from_u8 b = Some t \<longleftrightarrow> b = trust_as_u8 t"
  by (cases t) (auto simp: trust_from_u8_def)

definition profile_current :: "session_profile \<Rightarrow> u64 \<Rightarrow> u64 \<Rightarrow> session_id \<Rightarrow> bool" where
  "profile_current p current min_gen actual \<longleftrightarrow> sp_session_id p = actual
     \<and> (sp_expiry_epoch p = - 1 \<or> current \<le> sp_expiry_epoch p) \<and> min_gen \<le> sp_generation p"

lemma verify_advisory_iff:
  "verify_advisory p parent current min_gen actual = Inr pol \<longleftrightarrow>
     sp_trust_level p = TL_Advisory \<and> profile_current p current min_gen actual
     \<and> pol = intersect (profile_claimed p) parent"
  by (auto simp: verify_advisory_def profile_current_def check_session_binding_def check_expiry_def
      check_generation_def and_then_Inr not_less split: if_splits)

lemma verify_asserted_iff:
  "verify_asserted verify p parent current min_gen actual store = Inr pol \<longleftrightarrow>
     sp_trust_level p \<in> {TL_Asserted, TL_Attested} \<and> profile_current p current min_gen actual
     \<and> (\<exists>key. store (sp_issuer_domain p) = Some key \<and> length (sp_signature p) = 64
          \<and> verify key (canonical_signing_payload p) (sp_signature p))
     \<and> pol = intersect (profile_claimed p) parent"
  by (auto simp: verify_asserted_def profile_current_def check_session_binding_def check_expiry_def
      check_generation_def and_then_Inr not_less split: if_splits option.splits)

lemma canonical_length: "length (canonical_signing_payload p) = 64"
  by (simp add: canonical_signing_payload_def)

lemma canonical_inj:
  "canonical_signing_payload p = canonical_signing_payload q \<longleftrightarrow>
     profile_claimed p = profile_claimed q \<and> sp_issuer_domain p = sp_issuer_domain q
     \<and> sp_session_id p = sp_session_id q \<and> sp_generation p = sp_generation q
     \<and> sp_expiry_epoch p = sp_expiry_epoch q"
  by (auto simp: canonical_signing_payload_def profile_claimed_def to_le_inj)

lemma verify_bounded:
  "verify_advisory p parent current min_gen actual = Inr pol \<Longrightarrow> is_bounded_by pol parent"
  "verify_asserted verify p parent current min_gen actual store = Inr pol \<Longrightarrow> is_bounded_by pol parent"
  by (auto simp: verify_advisory_iff verify_asserted_iff policy.clip_within)

text \<open>
  C40. A profile is accepted exactly when its trust level fits the path, it is bound to this very
  session, it has not expired and its generation is not revoked, and, on the asserted path, the
  issuer's key is known and accepts its 64-byte signature over the canonical payload; the policy
  granted is within the parent's ceiling and within the claim.  The canonical payload is 64 bytes
  and determines every claim, the issuer, the session, the generation and the expiry, so a
  signature that covers one profile covers no profile that differs in any of them.
\<close>

theorem profile_verification_exact:
  "(verify_advisory p parent now gen sid = Inr pol) =
     (sp_trust_level p = TL_Advisory \<and> sp_session_id p = sid
      \<and> (sp_expiry_epoch p = - 1 \<or> now \<le> sp_expiry_epoch p) \<and> gen \<le> sp_generation p
      \<and> pol = intersect (profile_claimed p) parent)
   \<and> (verify_asserted verify p parent now gen sid store = Inr pol) =
     (sp_trust_level p \<noteq> TL_Advisory \<and> sp_session_id p = sid
      \<and> (sp_expiry_epoch p = - 1 \<or> now \<le> sp_expiry_epoch p) \<and> gen \<le> sp_generation p
      \<and> (\<exists>key. store (sp_issuer_domain p) = Some key \<and> length (sp_signature p) = 64
           \<and> verify key (canonical_signing_payload p) (sp_signature p))
      \<and> pol = intersect (profile_claimed p) parent)
   \<and> is_bounded_by (intersect (profile_claimed p) parent) parent
   \<and> is_bounded_by (intersect (profile_claimed p) parent) (profile_claimed p)
   \<and> length (canonical_signing_payload p) = 64
   \<and> (canonical_signing_payload p = canonical_signing_payload q) =
      (profile_claimed p = profile_claimed q \<and> sp_issuer_domain p = sp_issuer_domain q
       \<and> sp_session_id p = sp_session_id q \<and> sp_generation p = sp_generation q
       \<and> sp_expiry_epoch p = sp_expiry_epoch q)"
proof -
  have "sp_trust_level p \<in> {TL_Asserted, TL_Attested} \<longleftrightarrow> sp_trust_level p \<noteq> TL_Advisory"
    by (cases "sp_trust_level p") simp_all
  then show ?thesis
    by (simp add: verify_advisory_iff verify_asserted_iff profile_current_def canonical_length canonical_inj
        policy.clip_within)
qed

end
