(* ===== verification/Runtime.thy ===== *)
theory Runtime
  imports Session Topology Telemetry Profile
begin

text \<open>
  The session runtime, \<^verbatim>\<open>session-rs/src/runtime.rs\<close>: the tables of the session layer together, the
  gate pipeline of a record header (\<open>route_record\<close>) and the notifications that keep the topology,
  the telemetry and the expiry counters in step.  \<open>'key\<close> is the type of the verifying keys.
\<close>

section \<open>State\<close>

record parsed_header =
  ph_opcode :: u16
  ph_flags :: u16
  ph_length :: u32
  ph_tenant_id :: tenant_id
  ph_session_id :: session_id
  ph_partition_id :: wire_partition_id
  ph_causal_epoch :: u64
  ph_stream_seq :: u64

datatype rejection_reason =
    RR_SessionNotFound
  | RR_TenantMismatch
  | RR_StreamSeqReplay
  | RR_AuthGateDenied dataplane_reason
  | RR_Shed
  | RR_Delay
  | RR_UnauthenticatedPath
  | RR_UnknownPartition

datatype route_outcome = RO_Admitted opcode_class | RO_Rejected rejection_reason

definition is_admitted :: "route_outcome \<Rightarrow> bool" where
  "is_admitted r = (case r of RO_Admitted _ \<Rightarrow> True | RO_Rejected _ \<Rightarrow> False)"

record 'key session_runtime =
  rt_sessions :: session_table
  rt_paths :: path_table
  rt_domains :: domain_registry
  rt_auth :: auth_table
  rt_admission :: backpressure_policy
  rt_telemetry :: telemetry
  rt_topology :: topology
  rt_trust_store :: "'key trust_store"
  rt_pressure :: "shard_id \<Rightarrow> shard_pressure option"

definition runtime_new :: "'key session_runtime" where
  "runtime_new = \<lparr>rt_sessions = sessions_new, rt_paths = paths_new, rt_domains = domains_new,
     rt_auth = auth_new, rt_admission = backpressure_default,
     rt_telemetry = telemetry_new DEFAULT_RING_CAPACITY, rt_topology = topology_new,
     rt_trust_store = Map.empty, rt_pressure = Map.empty\<rparr>"

definition rt_emit :: "telemetry_event \<Rightarrow> 'key session_runtime \<Rightarrow> 'key session_runtime" where
  "rt_emit ev rt = rt\<lparr>rt_telemetry := emit ev (rt_telemetry rt)\<rparr>"

definition resolve_path :: "'key session_runtime \<Rightarrow> path_id \<Rightarrow> session_id option" where
  "resolve_path rt p = resolve_session (rt_paths rt) p"

section \<open>The gate pipeline\<close>

text \<open>The derived \<open>Debug\<close> text of a reason.\<close>

fun debug_axis :: "auth_axis \<Rightarrow> string" where
  "debug_axis AX_Assertion = ''Assertion''"
| "debug_axis AX_Delegation = ''Delegation''"
| "debug_axis AX_Observability = ''Observability''"
| "debug_axis AX_Disclosure = ''Disclosure''"

fun debug_reason :: "dataplane_reason \<Rightarrow> string" where
  "debug_reason DG_LatticeViolation = ''LatticeViolation''"
| "debug_reason (DG_PolicyViolation a) = ''PolicyViolation('' @ debug_axis a @ '')''"

definition session_policy :: "'key session_runtime \<Rightarrow> session_id \<Rightarrow> authority_policy" where
  "session_policy rt sid =
     (case effective_policy (rt_domains rt) sid of Some p \<Rightarrow> p | None \<Rightarrow> POLICY_ALL)"

definition record_shard :: "'key session_runtime \<Rightarrow> wire_partition_id \<Rightarrow> opcode_class \<Rightarrow> shard_id option" where
  "record_shard rt pid c = (case aget (dr_partitions (rt_domains rt)) pid of
      Some p \<Rightarrow> Some (pt_shard_id p)
    | None \<Rightarrow> if c = OC_Control \<or> c = OC_Profile \<or> c = OC_Subscribe then Some 0 else None)"

definition shard_pressure_of :: "'key session_runtime \<Rightarrow> shard_id \<Rightarrow> shard_pressure" where
  "shard_pressure_of rt s = (case rt_pressure rt s of Some p \<Rightarrow> p | None \<Rightarrow> pressure_default)"

definition admit_record :: "parsed_header \<Rightarrow> opcode_class \<Rightarrow> 'key session_runtime \<Rightarrow> 'key session_runtime \<times> route_outcome" where
  "admit_record h c rt = (case record_shard rt (ph_partition_id h) c of
      None \<Rightarrow> (rt, RO_Rejected RR_UnknownPartition)
    | Some shard \<Rightarrow> (case decide (rt_admission rt) c (shard_pressure_of rt shard) of
        AD_Drop \<Rightarrow> (rt, RO_Rejected RR_Shed)
      | AD_Delay \<Rightarrow> (rt, RO_Rejected RR_Delay)
      | _ \<Rightarrow> (rt\<lparr>rt_sessions := record_activity (rt_sessions rt) (ph_session_id h) (ph_causal_epoch h)\<rparr>,
              RO_Admitted c)))"

definition route_record :: "parsed_header \<Rightarrow> 'key session_runtime \<Rightarrow> 'key session_runtime \<times> route_outcome" where
  "route_record h rt = (case session_get (rt_sessions rt) (ph_session_id h) of
      None \<Rightarrow> (rt, RO_Rejected RR_SessionNotFound)
    | Some s \<Rightarrow>
        if ph_tenant_id h \<noteq> 0 \<and> ph_tenant_id h \<noteq> se_tenant_id s then (rt, RO_Rejected RR_TenantMismatch)
        else if \<not> is_seq_valid (rt_sessions rt) (ph_session_id h) (ph_stream_seq h) then
          (rt_emit (TE_SessionHealthChanged (ph_session_id h) False) rt, RO_Rejected RR_StreamSeqReplay)
        else
          let c = from_opcode (ph_opcode h) in
          (case gate (rt_auth rt) (ph_partition_id h) c CLASS_BOTTOM (session_policy rt (ph_session_id h)) of
             GR_Deny r \<Rightarrow> (rt_emit (TE_AuthViolation NIL (debug_reason r)) rt, RO_Rejected (RR_AuthGateDenied r))
           | GR_Allow \<Rightarrow> admit_record h c rt))"

section \<open>Notifications\<close>

definition update_pressure :: "shard_id \<Rightarrow> shard_pressure \<Rightarrow> 'key session_runtime \<Rightarrow> 'key session_runtime" where
  "update_pressure s p rt =
     (let (topo, old_h, new_h) = topology_update (rt_topology rt) s p;
          rt1 = rt\<lparr>rt_pressure := (rt_pressure rt)(s \<mapsto> p), rt_topology := topo\<rparr> in
      if old_h \<noteq> new_h then rt_emit (TE_TopologyHealthChanged s old_h new_h) rt1 else rt1)"

definition register_shard :: "shard_domain \<Rightarrow> 'key session_runtime \<Rightarrow> 'key session_runtime" where
  "register_shard s rt =
     (let rt1 = rt\<lparr>rt_domains := domains_register_shard (rt_domains rt) s\<rparr> in
      case sh_addr s of Some a \<Rightarrow> rt_emit (TE_FabricPlacementChanged (sh_id s) a) rt1 | None \<Rightarrow> rt1)"

definition notify_domain_quiescent :: "wire_partition_id \<Rightarrow> 'key session_runtime \<Rightarrow> 'key session_runtime" where
  "notify_domain_quiescent pid rt =
     (let rt1 = rt_emit (TE_DomainQuiescent pid) rt in
      case aget (dr_partitions (rt_domains rt1)) pid of
        Some p \<Rightarrow> rt1\<lparr>rt_sessions := increment_quiescent_epochs (rt_sessions rt1) (pt_session_id p)\<rparr>
      | None \<Rightarrow> rt1)"

definition notify_cell_quiescent :: "uid \<Rightarrow> wire_partition_id \<Rightarrow> bool \<Rightarrow> 'key session_runtime \<Rightarrow> 'key session_runtime" where
  "notify_cell_quiescent cell pid q = rt_emit (TE_CellQuiescent cell pid q)"

definition notify_region_quiescent ::
  "uid \<Rightarrow> wire_partition_id \<Rightarrow> bool \<Rightarrow> u32 \<Rightarrow> 'key session_runtime \<Rightarrow> 'key session_runtime" where
  "notify_region_quiescent root pid q epochs = rt_emit (TE_RegionQuiescent root pid q epochs)"

definition run_reaper ::
  "expiry_policy \<Rightarrow> u64 \<Rightarrow> 'key session_runtime \<Rightarrow> 'key session_runtime \<times> (session_id \<times> expiry_reason) list" where
  "run_reaper pol now rt =
     (let (t, dead) = reap pol (rt_sessions rt) now in (rt\<lparr>rt_sessions := t\<rparr>, dead))"

definition notify_budget_exhausted :: "uid \<Rightarrow> u32 \<Rightarrow> u32 \<Rightarrow> 'key session_runtime \<Rightarrow> 'key session_runtime" where
  "notify_budget_exhausted nd steps b = rt_emit (TE_BudgetExhausted nd steps b)"

section \<open>The pipeline admits exactly what passes every gate\<close>

definition passes_gates :: "parsed_header \<Rightarrow> 'key session_runtime \<Rightarrow> bool" where
  "passes_gates h rt \<longleftrightarrow>
     (\<exists>s. aget (rt_sessions rt) (ph_session_id h) = Some s
        \<and> (ph_tenant_id h = 0 \<or> ph_tenant_id h = se_tenant_id s) \<and> stream_seq_floor s \<le> ph_stream_seq h)
   \<and> gate (rt_auth rt) (ph_partition_id h) (from_opcode (ph_opcode h)) CLASS_BOTTOM
        (session_policy rt (ph_session_id h)) = GR_Allow"

definition room_for :: "parsed_header \<Rightarrow> 'key session_runtime \<Rightarrow> bool" where
  "room_for h rt \<longleftrightarrow>
     (\<exists>shard. record_shard rt (ph_partition_id h) (from_opcode (ph_opcode h)) = Some shard
        \<and> decide (rt_admission rt) (from_opcode (ph_opcode h)) (shard_pressure_of rt shard) \<notin> {AD_Drop, AD_Delay})"

lemma admit_record_cases:
  "admit_record h c rt =
     (case record_shard rt (ph_partition_id h) c of
        None \<Rightarrow> (rt, RO_Rejected RR_UnknownPartition)
      | Some shard \<Rightarrow>
          if decide (rt_admission rt) c (shard_pressure_of rt shard) = AD_Drop then (rt, RO_Rejected RR_Shed)
          else if decide (rt_admission rt) c (shard_pressure_of rt shard) = AD_Delay then (rt, RO_Rejected RR_Delay)
          else (rt\<lparr>rt_sessions := record_activity (rt_sessions rt) (ph_session_id h) (ph_causal_epoch h)\<rparr>,
                RO_Admitted c))"
  by (simp add: admit_record_def split: option.split admission_decision.split)

lemma route_admitted:
  "snd (route_record h rt) = RO_Admitted c \<longleftrightarrow>
     c = from_opcode (ph_opcode h) \<and> passes_gates h rt \<and> room_for h rt"
  by (auto simp: route_record_def session_get_def is_seq_valid_def passes_gates_def room_for_def Let_def
      admit_record_cases split: option.splits gate_result.splits if_splits)

lemma route_state:
  "fst (route_record h rt) =
     (if is_admitted (snd (route_record h rt))
      then rt\<lparr>rt_sessions := record_activity (rt_sessions rt) (ph_session_id h) (ph_causal_epoch h)\<rparr>
      else rt\<lparr>rt_telemetry := rt_telemetry (fst (route_record h rt))\<rparr>)"
  by (auto simp: route_record_def is_admitted_def rt_emit_def Let_def admit_record_cases
      split: option.splits gate_result.splits)

lemma route_rejected:
  "snd (route_record h rt) = RO_Rejected RR_SessionNotFound \<longleftrightarrow> aget (rt_sessions rt) (ph_session_id h) = None"
  "aget (rt_sessions rt) (ph_session_id h) = Some s \<Longrightarrow>
     snd (route_record h rt) = RO_Rejected RR_TenantMismatch \<longleftrightarrow>
       ph_tenant_id h \<noteq> 0 \<and> ph_tenant_id h \<noteq> se_tenant_id s"
  "aget (rt_sessions rt) (ph_session_id h) = Some s \<Longrightarrow>
     snd (route_record h rt) = RO_Rejected RR_StreamSeqReplay \<longleftrightarrow>
       (ph_tenant_id h = 0 \<or> ph_tenant_id h = se_tenant_id s) \<and> ph_stream_seq h < stream_seq_floor s"
  "snd (route_record h rt) = RO_Rejected RR_UnknownPartition \<longleftrightarrow>
     passes_gates h rt \<and> record_shard rt (ph_partition_id h) (from_opcode (ph_opcode h)) = None"
  "snd (route_record h rt) \<noteq> RO_Rejected RR_UnauthenticatedPath"
  by (auto simp: route_record_def session_get_def is_seq_valid_def passes_gates_def Let_def
      admit_record_cases split: option.splits gate_result.splits if_splits)

lemma route_control:
  "is_control_plane (from_opcode (ph_opcode h)) \<Longrightarrow> passes_gates h rt \<Longrightarrow>
     snd (route_record h rt) = RO_Admitted (from_opcode (ph_opcode h))"
  using decide_control[of "from_opcode (ph_opcode h)"]
  by (auto simp: route_admitted room_for_def record_shard_def is_control_plane_def split: option.split)

lemma route_unknown: "from_opcode (ph_opcode h) = OC_Unknown \<Longrightarrow> \<not> is_admitted (snd (route_record h rt))"
  by (cases "snd (route_record h rt)") (auto simp: is_admitted_def route_admitted room_for_def)

text \<open>
  C8. The gate pipeline, outcome by outcome.  A record is refused for its session exactly when the
  session does not exist; for its tenant when the session exists and the record names a different
  tenant, not zero; as a replay when the tenant fits and the sequence number is below the replay floor;
  by the authority gate, with the gate's reason, when it is fresh and the gate denies it; for its
  partition when it passes the gates and no shard is known for it; it is shed or delayed exactly when it
  passes the gates and admission on its shard drops or delays it; and it is admitted, under the class of
  its opcode, in all other cases and no others.  A control-plane record that passes the gates is
  always admitted.  An admitted record changes nothing but its session's activity; a replay and a denial
  emit one telemetry event each; every other refusal changes nothing.
\<close>

theorem route_record_exact:
  "let sess = aget (rt_sessions rt) (ph_session_id h);
       c = from_opcode (ph_opcode h);
       tenant_ok = (\<exists>s. sess = Some s \<and> (ph_tenant_id h = 0 \<or> ph_tenant_id h = se_tenant_id s));
       fresh = (tenant_ok \<and> (\<exists>s. sess = Some s \<and> stream_seq_floor s \<le> ph_stream_seq h));
       verdict = gate (rt_auth rt) (ph_partition_id h) c CLASS_BOTTOM (session_policy rt (ph_session_id h));
       passes = (fresh \<and> verdict = GR_Allow);
       shard = record_shard rt (ph_partition_id h) c;
       answers = (\<lambda>d. \<exists>s. shard = Some s \<and> decide (rt_admission rt) c (shard_pressure_of rt s) = d);
       out = snd (route_record h rt)
   in (out = RO_Rejected RR_SessionNotFound) = (sess = None)
    \<and> (out = RO_Rejected RR_TenantMismatch) = (sess \<noteq> None \<and> \<not> tenant_ok)
    \<and> (out = RO_Rejected RR_StreamSeqReplay) = (tenant_ok \<and> \<not> fresh)
    \<and> (\<forall>r. (out = RO_Rejected (RR_AuthGateDenied r)) = (fresh \<and> verdict = GR_Deny r))
    \<and> (out = RO_Rejected RR_UnknownPartition) = (passes \<and> shard = None)
    \<and> (out = RO_Rejected RR_Shed) = (passes \<and> answers AD_Drop)
    \<and> (out = RO_Rejected RR_Delay) = (passes \<and> answers AD_Delay)
    \<and> (\<forall>k. (out = RO_Admitted k) = (k = c \<and> passes \<and> shard \<noteq> None \<and> \<not> answers AD_Drop \<and> \<not> answers AD_Delay))
    \<and> (is_control_plane c \<and> passes \<longrightarrow> out = RO_Admitted c)
    \<and> fst (route_record h rt) = (case out of
          RO_Admitted k \<Rightarrow> rt\<lparr>rt_sessions := record_activity (rt_sessions rt) (ph_session_id h) (ph_causal_epoch h)\<rparr>
        | RO_Rejected RR_StreamSeqReplay \<Rightarrow> rt_emit (TE_SessionHealthChanged (ph_session_id h) False) rt
        | RO_Rejected (RR_AuthGateDenied r) \<Rightarrow> rt_emit (TE_AuthViolation NIL (debug_reason r)) rt
        | _ \<Rightarrow> rt)"
proof (cases "aget (rt_sessions rt) (ph_session_id h)")
  case None
  then show ?thesis by (simp add: route_record_def session_get_def Let_def)
next
  case (Some s)
  note refuse = route_record_def session_get_def is_seq_valid_def Let_def Some
  let ?c = "from_opcode (ph_opcode h)"
  show ?thesis
  proof (cases "(ph_tenant_id h = 0 \<or> ph_tenant_id h = se_tenant_id s) \<and> stream_seq_floor s \<le> ph_stream_seq h")
    case False
    then show ?thesis by (auto simp: refuse)
  next
    case True
    show ?thesis
    proof (cases "gate (rt_auth rt) (ph_partition_id h) ?c CLASS_BOTTOM (session_policy rt (ph_session_id h))")
      case (GR_Deny r)
      then show ?thesis using True by (auto simp: refuse)
    next
      case GR_Allow
      then have run: "route_record h rt = admit_record h ?c rt" using True by (auto simp: refuse)
      have p: "passes_gates h rt" using Some True GR_Allow by (simp add: passes_gates_def)
      have "is_control_plane ?c \<longrightarrow> snd (admit_record h ?c rt) = RO_Admitted ?c"
        using route_control[OF _ p] run by simp
      then show ?thesis
        using True GR_Allow unfolding run by (auto simp: Let_def Some admit_record_cases split: option.splits)
    qed
  qed
qed

definition one_session :: "u64 session_runtime" where
  "one_session = runtime_new\<lparr>rt_sessions := session_create sessions_new ((session_at 1 0)\<lparr>stream_seq_floor := 5\<rparr>)\<rparr>"

definition header_of :: "u16 \<Rightarrow> u64 \<Rightarrow> parsed_header" where
  "header_of opc sq = \<lparr>ph_opcode = opc, ph_flags = 0, ph_length = 48, ph_tenant_id = 0, ph_session_id = 1,
     ph_partition_id = 7, ph_causal_epoch = 3, ph_stream_seq = sq\<rparr>"

theorem route_record_exact_witness:
  "snd (route_record (header_of 0x000C 5) one_session) = RO_Admitted OC_Control
   \<and> snd (route_record (header_of 0x000C 4) one_session) = RO_Rejected RR_StreamSeqReplay
   \<and> snd (route_record (header_of 0x0003 5) one_session) = RO_Rejected RR_UnknownPartition
   \<and> snd (route_record ((header_of 0x000C 5)\<lparr>ph_session_id := 2\<rparr>) one_session) = RO_Rejected RR_SessionNotFound"
proof -
  have s: "aget (rt_sessions one_session) 1 = Some ((session_at 1 0)\<lparr>stream_seq_floor := 5\<rparr>)"
    "aget (rt_sessions one_session) 2 = None"
    by (simp_all add: one_session_def session_create_def session_at_def sessions_new_def)
  have h: "ph_session_id (header_of opc q) = 1" "ph_tenant_id (header_of opc q) = 0" "ph_stream_seq (header_of opc q) = q"
    "ph_partition_id (header_of opc q) = 7" "ph_opcode (header_of opc q) = opc" for opc q
    by (simp_all add: header_of_def)
  have p: "gate (rt_auth one_session) 7 c CLASS_BOTTOM pol = GR_Allow" for c pol
    by (simp add: one_session_def runtime_new_def auth_new_def gate_def)
  have c: "from_opcode 0x000C = OC_Control" "from_opcode 0x0003 = OC_SetValue" "is_control_plane OC_Control"
    "record_shard one_session 7 OC_SetValue = None"
    by (simp_all add: from_opcode_def is_control_plane_def record_shard_def one_session_def runtime_new_def domains_new_def)
  have "snd (route_record (header_of 0x000C 5) one_session) = RO_Admitted OC_Control"
    using route_record_exact[of one_session "header_of 0x000C 5"] unfolding Let_def h s c by (simp add: p c(3))
  moreover have "snd (route_record (header_of 0x000C 4) one_session) = RO_Rejected RR_StreamSeqReplay"
    using route_record_exact[of one_session "header_of 0x000C 4"] unfolding Let_def h s by simp
  moreover have "snd (route_record (header_of 0x0003 5) one_session) = RO_Rejected RR_UnknownPartition"
    using route_record_exact[of one_session "header_of 0x0003 5"] unfolding Let_def h s c by (simp add: p)
  moreover have "snd (route_record ((header_of 0x000C 5)\<lparr>ph_session_id := 2\<rparr>) one_session) = RO_Rejected RR_SessionNotFound"
    using route_record_exact[of one_session "(header_of 0x000C 5)\<lparr>ph_session_id := 2\<rparr>"] unfolding Let_def by (simp add: s)
  ultimately show ?thesis by blast
qed

section \<open>Authority of an admitted record\<close>

text \<open>
  C12. Every bit that the row of an admitted record requires on the axis of its class is held by
  the session's claim and by its tenant's ceiling, so no claim reaches beyond the tenant; except
  that a session which the domain registry does not know, or whose tenant it does not know, counts
  as holding everything, so that the gate never refuses it for want of authority.
\<close>

theorem admitted_within_ceiling:
  assumes "snd (route_record h rt) = RO_Admitted c" "rt_auth rt (ph_partition_id h, c) = Some row"
    and "bit (for_opcode_class (row_policy row) c) n"
  shows "(\<forall>sd. dr_sessions (rt_domains rt) (ph_session_id h) = Some sd \<longrightarrow>
           bit (for_opcode_class (claimed_policy sd) c) n
         \<and> (\<forall>td. dr_tenants (rt_domains rt) (sd_tenant_id sd) = Some td \<longrightarrow> bit (for_opcode_class (td_policy td) c) n)
         \<or> dr_tenants (rt_domains rt) (sd_tenant_id sd) = None)
    \<and> (effective_policy (rt_domains rt) sid = None \<longrightarrow>
         gate t pid k em (session_policy rt sid) \<noteq> GR_Deny (DG_PolicyViolation a))"
proof -
  have n: "n < 64" using assms(3) bit_imp_le_length by fastforce
  have g: "gate (rt_auth rt) (ph_partition_id h) c CLASS_BOTTOM (session_policy rt (ph_session_id h)) = GR_Allow"
    using assms(1) by (auto simp: route_admitted passes_gates_def)
  then have b: "bit (for_opcode_class (session_policy rt (ph_session_id h)) c) n"
    using assms(2,3) n by (auto simp: gate_allow_iff flows.below_bit)
  have "gate t pid k em POLICY_ALL \<noteq> GR_Deny (DG_PolicyViolation a)"
    using gate_policy_denied[of t pid k em POLICY_ALL a] by auto
  with b show ?thesis
    by (auto simp: session_policy_def effective_policy_def for_class_intersect bit_and_iff split: option.splits)
qed

definition ruled_runtime :: "u64 session_runtime" where
  "ruled_runtime = one_session\<lparr>
     rt_auth := auth_install auth_new (7, OC_Control) \<lparr>row_class = CLASS_BOTTOM, row_policy = POLICY_NONE\<lparr>assertion := 4\<rparr>\<rparr>,
     rt_domains := register_session (register_tenant domains_new (single_tenant\<lparr>td_policy := POLICY_NONE\<lparr>assertion := 6\<rparr>\<rparr>))
       \<lparr>sd_id = 1, sd_tenant_id = 0, claimed_policy = POLICY_ALL, sd_auth_mode = Advisory, sd_quota = session_quota_default\<rparr>\<rparr>"

theorem admitted_within_ceiling_witness:
  "snd (route_record (header_of 0x000C 5) ruled_runtime) = RO_Admitted OC_Control
   \<and> bit (assertion (td_policy (single_tenant\<lparr>td_policy := POLICY_NONE\<lparr>assertion := 6\<rparr>\<rparr>))) 2
   \<and> gate (rt_auth ruled_runtime) 7 OC_Control CLASS_BOTTOM (session_policy ruled_runtime 9) \<noteq> GR_Deny (DG_PolicyViolation AX_Assertion)"
proof -
  have g: "gate (rt_auth ruled_runtime) 7 OC_Control CLASS_BOTTOM (session_policy ruled_runtime 1) = GR_Allow"
    by code_simp
  then have a: "snd (route_record (header_of 0x000C 5) ruled_runtime) = RO_Admitted OC_Control"
    by (simp add: route_admitted passes_gates_def room_for_def header_of_def ruled_runtime_def one_session_def
        session_create_def session_at_def from_opcode_def record_shard_def register_session_def register_tenant_def
        runtime_new_def split: option.split)
  have r: "rt_auth ruled_runtime (ph_partition_id (header_of 0x000C 5), OC_Control)
      = Some \<lparr>row_class = CLASS_BOTTOM, row_policy = POLICY_NONE\<lparr>assertion := 4\<rparr>\<rparr>"
    by (simp add: ruled_runtime_def auth_install_def header_of_def)
  have b: "bit (4 :: u64) 2" by (simp add: bit_numeral_rec)
  note at = admitted_within_ceiling[OF a r, of 2]
  have "effective_policy (rt_domains ruled_runtime) 9 = None"
    by (simp add: effective_policy_def ruled_runtime_def register_session_def register_tenant_def domains_new_def)
  then have c: "gate (rt_auth ruled_runtime) 7 OC_Control CLASS_BOTTOM (session_policy ruled_runtime 9) \<noteq> GR_Deny (DG_PolicyViolation AX_Assertion)"
    using at b by simp
  have "bit (assertion (td_policy (single_tenant\<lparr>td_policy := POLICY_NONE\<lparr>assertion := 6\<rparr>\<rparr>))) 2"
    using at b
    by (simp add: POLICY_NONE_def ruled_runtime_def register_session_def register_tenant_def header_of_def
        single_tenant_def domains_new_def)
  with a c show ?thesis by blast
qed

section \<open>Pressure, health and telemetry in step\<close>

text \<open>One call of the runtime by the dispatcher or the host.\<close>

inductive runtime_step :: "'key session_runtime \<Rightarrow> 'key session_runtime \<Rightarrow> bool" where
  "runtime_step rt (fst (route_record h rt))"
| "runtime_step rt (update_pressure s p rt)"
| "runtime_step rt (register_shard sd rt)"
| "runtime_step rt (notify_domain_quiescent pid rt)"
| "runtime_step rt (notify_cell_quiescent cell pid q rt)"
| "runtime_step rt (notify_region_quiescent root pid q n rt)"
| "runtime_step rt (notify_budget_exhausted u k b rt)"
| "runtime_step rt (fst (run_reaper pol now rt))"

definition health_in_step :: "'key session_runtime \<Rightarrow> bool" where
  "health_in_step rt \<longleftrightarrow> awf (rt_topology rt)
     \<and> (\<forall>s. shard_health (rt_topology rt) s =
          (case rt_pressure rt s of Some p \<Rightarrow> health_from_pressure p | None \<Rightarrow> HEALTH_NEG))"

lemma rt_emit_frame [frame_simps, simp]:
  "rt_sessions (rt_emit ev rt) = rt_sessions rt" "rt_paths (rt_emit ev rt) = rt_paths rt"
  "rt_domains (rt_emit ev rt) = rt_domains rt" "rt_auth (rt_emit ev rt) = rt_auth rt"
  "rt_admission (rt_emit ev rt) = rt_admission rt" "rt_topology (rt_emit ev rt) = rt_topology rt"
  "rt_pressure (rt_emit ev rt) = rt_pressure rt" "rt_trust_store (rt_emit ev rt) = rt_trust_store rt"
  by (simp_all add: rt_emit_def)

lemma update_pressure_simps:
  "rt_pressure (update_pressure s p rt) = (rt_pressure rt)(s \<mapsto> p)"
  "rt_topology (update_pressure s p rt) = fst (topology_update (rt_topology rt) s p)"
  "rt_sessions (update_pressure s p rt) = rt_sessions rt" "rt_domains (update_pressure s p rt) = rt_domains rt"
  "rt_auth (update_pressure s p rt) = rt_auth rt" "rt_paths (update_pressure s p rt) = rt_paths rt"
  "rt_admission (update_pressure s p rt) = rt_admission rt" "rt_trust_store (update_pressure s p rt) = rt_trust_store rt"
  "rt_telemetry (update_pressure s p rt) =
     (if shard_health (rt_topology rt) s \<noteq> health_from_pressure p
      then emit (TE_TopologyHealthChanged s (shard_health (rt_topology rt) s) (health_from_pressure p)) (rt_telemetry rt)
      else rt_telemetry rt)"
  using topology_update_health(2)[of "rt_topology rt" s p]
  by (auto simp: update_pressure_def Let_def split_beta rt_emit_def)

lemma update_in_step: "health_in_step rt \<Longrightarrow> health_in_step (update_pressure s p rt)"
  by (simp add: health_in_step_def update_pressure_simps topology_update_wf topology_update_health)

lemma step_in_step: "runtime_step rt rt' \<Longrightarrow> health_in_step rt \<Longrightarrow> health_in_step rt'"
proof (induction rule: runtime_step.induct)
  case (1 rt h)
  have "rt_topology (fst (route_record h rt)) = rt_topology rt" "rt_pressure (fst (route_record h rt)) = rt_pressure rt"
    by (subst route_state, simp)+
  with 1 show ?case by (simp add: health_in_step_def)
next
  case (2 rt s p)
  then show ?case by (rule update_in_step)
qed (simp_all add: health_in_step_def register_shard_def notify_domain_quiescent_def notify_cell_quiescent_def
      notify_region_quiescent_def notify_budget_exhausted_def run_reaper_def Let_def split_beta split: option.split)

lemma steps_in_step: "runtime_step\<^sup>*\<^sup>* rt rt' \<Longrightarrow> health_in_step rt \<Longrightarrow> health_in_step rt'"
  by (induction rule: rtranclp_induct) (auto intro: step_in_step)

lemma new_in_step: "health_in_step runtime_new"
  by (simp add: health_in_step_def runtime_new_def topology_new_def shard_health_def)

text \<open>
  In every state the runtime reaches from its initial one, the topology's health of a shard is
  that of the last pressure reported for it (negative while none was), so placement and admission
  never disagree about what was reported; a pressure update emits one health event, carrying the
  old and the new health, exactly when the health changes.
\<close>

theorem health_follows_pressure:
  assumes "runtime_step\<^sup>*\<^sup>* runtime_new rt"
  shows "shard_health (rt_topology rt) s =
       (case rt_pressure rt s of Some p \<Rightarrow> health_from_pressure p | None \<Rightarrow> HEALTH_NEG)
    \<and> shard_health (rt_topology (update_pressure s p rt)) s = health_from_pressure p
    \<and> (rt_telemetry (update_pressure s p rt) = rt_telemetry rt
       \<or> rt_telemetry (update_pressure s p rt) =
           emit (TE_TopologyHealthChanged s (shard_health (rt_topology rt) s) (health_from_pressure p)) (rt_telemetry rt)
         \<and> shard_health (rt_topology rt) s \<noteq> health_from_pressure p)
    \<and> (any_healthy_shard (rt_topology rt) = Some k \<longrightarrow>
         (\<exists>pr. rt_pressure rt k = Some pr \<and> cursor_count pr < 1 \<and> queue_depth pr < 500))"
proof -
  have h: "health_in_step rt" using steps_in_step[OF assms new_in_step] .
  have "\<exists>pr. rt_pressure rt k = Some pr \<and> cursor_count pr < 1 \<and> queue_depth pr < 500"
    if "any_healthy_shard (rt_topology rt) = Some k"
  proof -
    have "shard_health (rt_topology rt) k = HEALTH_POS"
      using any_healthy_SomeD[OF _ that] h by (simp add: health_in_step_def)
    then show ?thesis
      using h by (auto simp: health_in_step_def health_from_pressure_def health_defs not_le split: option.splits if_splits)
  qed
  with h show ?thesis
    by (simp add: health_in_step_def update_pressure_simps topology_update_health)
qed

theorem health_follows_pressure_witness:
  "shard_health (rt_topology (update_pressure 3 (pressure_default\<lparr>queue_depth := 500\<rparr>) (runtime_new :: u64 session_runtime))) 3
     = HEALTH_ZERO"
  using health_follows_pressure[of "runtime_new :: u64 session_runtime" 3 "pressure_default\<lparr>queue_depth := 500\<rparr>"]
  by (simp add: health_from_pressure_def pressure_default_def health_defs)

end
