(* ===== verification/Decode.thy ===== *)
theory Decode
  imports Runtime
begin

text \<open>
  Stream ingress, \<^verbatim>\<open>session-rs/src/decode.rs\<close>: the stream preamble, the record header with its
  ordering checks, and the profile payload with the update of the session's authority.  The code's
  buffers are arrays of 32 and 48 bytes; \<open>le_at bs a n\<close> reads the slice \<open>bs[a..a+n]\<close>.
\<close>

definition PGRS_MAGIC :: "byte list" where "PGRS_MAGIC = [0x50, 0x47, 0x52, 0x53]"
definition SUPPORTED_VERSION :: u16 where "SUPPORTED_VERSION = 0x0003"
definition MIN_RECORD_LEN :: u32 where "MIN_RECORD_LEN = 48"
definition PROFILE_OPCODE :: u16 where "PROFILE_OPCODE = 0x0100"
definition PROFILE_FIXED_LEN :: nat where "PROFILE_FIXED_LEN = 49"
definition PROFILE_FIXED_LEN_V2 :: nat where "PROFILE_FIXED_LEN_V2 = 73"

definition le_at :: "byte list \<Rightarrow> nat \<Rightarrow> nat \<Rightarrow> 'a::len word" where
  "le_at bs a n = from_le (take n (drop a bs))"

section \<open>State and errors\<close>

record stream_preamble =
  pr_abi_version :: u16
  pr_flags :: u16
  pr_feature_flags :: u64
  pr_path_id :: path_id
  pr_session_id :: session_id

datatype record_action =
    RA_RouteReady parsed_header
  | RA_SkipPayload parsed_header u32
  | RA_ReadProfile parsed_header u32

datatype ingress_error =
    IE_PreambleRequired
  | IE_BadMagic "byte list"
  | IE_UnsupportedVersion u16
  | IE_InvalidLength u32
  | IE_InvalidOpcode
  | IE_SessionIdMismatch session_id session_id
  | IE_StreamSeqGap session_id u64 u64
  | IE_EpochRegression session_id u64 u64
  | IE_ProfileTruncated nat nat
  | IE_UnknownTrustLevel byte
  | IE_UnknownProfileVersion u16
  | IE_ProfileVerification profile_error
  | IE_UnknownSession session_id

record stream_decoder =
  sdec_preamble :: "stream_preamble option"
  seq_trace :: "session_id \<Rightarrow> u64 option"
  epoch_trace :: "session_id \<Rightarrow> u64 option"
  gap_count :: u64
  epoch_regression_count :: u64

definition decoder_new :: stream_decoder where
  "decoder_new = \<lparr>sdec_preamble = None, seq_trace = Map.empty, epoch_trace = Map.empty,
     gap_count = 0, epoch_regression_count = 0\<rparr>"

section \<open>Preamble and record header\<close>

definition decode_preamble ::
  "byte list \<Rightarrow> stream_decoder \<Rightarrow> stream_decoder \<times> (ingress_error + stream_preamble)" where
  "decode_preamble buf d =
     (let magic = take 4 buf in
      if magic \<noteq> PGRS_MAGIC then (d, Inl (IE_BadMagic magic))
      else
        let abi_version = le_at buf 4 2 in
        if abi_version \<noteq> SUPPORTED_VERSION then (d, Inl (IE_UnsupportedVersion abi_version))
        else
          let pre = \<lparr>pr_abi_version = abi_version, pr_flags = le_at buf 6 2, pr_feature_flags = le_at buf 8 8,
                     pr_path_id = le_at buf 16 8, pr_session_id = le_at buf 24 8\<rparr> in
          (d\<lparr>sdec_preamble := Some pre\<rparr>, Inr pre))"

definition parse_header :: "byte list \<Rightarrow> parsed_header" where
  "parse_header buf = \<lparr>ph_opcode = le_at buf 0 2, ph_flags = le_at buf 2 2, ph_length = le_at buf 4 4,
     ph_tenant_id = le_at buf 8 8, ph_session_id = le_at buf 16 8, ph_partition_id = le_at buf 24 8,
     ph_causal_epoch = le_at buf 32 8, ph_stream_seq = le_at buf 40 8\<rparr>"

text \<open>Checks five and six, on the traces of the header's session.\<close>

definition record_epoch ::
  "parsed_header \<Rightarrow> stream_decoder \<Rightarrow> stream_decoder \<times> (ingress_error + unit)" where
  "record_epoch h d =
     (let sid = ph_session_id h; ep = ph_causal_epoch h;
          noted = (d\<lparr>epoch_trace := (epoch_trace d)(sid \<mapsto> ep)\<rparr>, Inr ()) in
      case epoch_trace d sid of
        Some last_ep \<Rightarrow>
          if ep < last_ep
            then (d\<lparr>epoch_regression_count := epoch_regression_count d + 1\<rparr>, Inl (IE_EpochRegression sid last_ep ep))
            else noted
      | None \<Rightarrow> noted)"

definition check_order ::
  "parsed_header \<Rightarrow> stream_decoder \<Rightarrow> stream_decoder \<times> (ingress_error + unit)" where
  "check_order h d =
     (let sid = ph_session_id h; sq = ph_stream_seq h;
          noted = record_epoch h (d\<lparr>seq_trace := (seq_trace d)(sid \<mapsto> sq)\<rparr>) in
      case seq_trace d sid of
        Some last_sq \<Rightarrow>
          if sq \<le> last_sq then (d\<lparr>gap_count := gap_count d + 1\<rparr>, Inl (IE_StreamSeqGap sid last_sq sq))
          else noted
      | None \<Rightarrow> noted)"

definition record_action_of :: "parsed_header \<Rightarrow> record_action" where
  "record_action_of h =
     (let payload_bytes = ph_length h - MIN_RECORD_LEN in
      if ph_opcode h = PROFILE_OPCODE then RA_ReadProfile h payload_bytes
      else if from_opcode (ph_opcode h) = OC_Unknown then RA_SkipPayload h payload_bytes
      else RA_RouteReady h)"

definition decode_record ::
  "byte list \<Rightarrow> stream_decoder \<Rightarrow> stream_decoder \<times> (ingress_error + record_action)" where
  "decode_record buf d = (case sdec_preamble d of
      None \<Rightarrow> (d, Inl IE_PreambleRequired)
    | Some pre \<Rightarrow>
        let h = parse_header buf in
        if ph_length h < MIN_RECORD_LEN then (d, Inl (IE_InvalidLength (ph_length h)))
        else if ph_opcode h = 0 then (d, Inl IE_InvalidOpcode)
        else if ph_session_id h \<noteq> pr_session_id pre
          then (d, Inl (IE_SessionIdMismatch (pr_session_id pre) (ph_session_id h)))
        else (case check_order h d of
            (d1, Inl e) \<Rightarrow> (d1, Inl e)
          | (d1, Inr _) \<Rightarrow> (d1, Inr (record_action_of h))))"

section \<open>Profiles on the wire\<close>

definition profile_v1 :: "u32 \<Rightarrow> u16 \<Rightarrow> trust_level \<Rightarrow> byte list \<Rightarrow> ingress_error + session_profile" where
  "profile_v1 pid ver trust payload =
     (if length payload < PROFILE_FIXED_LEN then Inl (IE_ProfileTruncated PROFILE_FIXED_LEN (length payload))
      else
        let cap = le_at payload 7 8;
            sig_len = unat (le_at payload 47 2 :: u16);
            total = PROFILE_FIXED_LEN + sig_len in
        if length payload < total then Inl (IE_ProfileTruncated total (length payload))
        else Inr \<lparr>sp_profile_id = pid, sp_profile_version = ver, sp_trust_level = trust,
          sp_assertion_mask = cap, sp_delegation_mask = cap, sp_observability_mask = cap, sp_disclosure_mask = cap,
          sp_issuer_domain = le_at payload 15 8, sp_session_id = le_at payload 23 8,
          sp_generation = le_at payload 31 8, sp_expiry_epoch = le_at payload 39 8,
          sp_signature = take sig_len (drop PROFILE_FIXED_LEN payload)\<rparr>)"

definition profile_v2 :: "u32 \<Rightarrow> u16 \<Rightarrow> trust_level \<Rightarrow> byte list \<Rightarrow> ingress_error + session_profile" where
  "profile_v2 pid ver trust payload =
     (if length payload < PROFILE_FIXED_LEN_V2 then Inl (IE_ProfileTruncated PROFILE_FIXED_LEN_V2 (length payload))
      else
        let sig_len = unat (le_at payload 71 2 :: u16);
            total = PROFILE_FIXED_LEN_V2 + sig_len in
        if length payload < total then Inl (IE_ProfileTruncated total (length payload))
        else Inr \<lparr>sp_profile_id = pid, sp_profile_version = ver, sp_trust_level = trust,
          sp_assertion_mask = le_at payload 7 8, sp_delegation_mask = le_at payload 15 8,
          sp_observability_mask = le_at payload 23 8, sp_disclosure_mask = le_at payload 31 8,
          sp_issuer_domain = le_at payload 39 8, sp_session_id = le_at payload 47 8,
          sp_generation = le_at payload 55 8, sp_expiry_epoch = le_at payload 63 8,
          sp_signature = take sig_len (drop PROFILE_FIXED_LEN_V2 payload)\<rparr>)"

definition parse_profile_payload :: "byte list \<Rightarrow> ingress_error + session_profile" where
  "parse_profile_payload payload =
     (if length payload < 7 then Inl (IE_ProfileTruncated 7 (length payload))
      else
        let pid = le_at payload 0 4; ver = le_at payload 4 2; tb = payload ! 6 in
        (case trust_from_u8 tb of
           None \<Rightarrow> Inl (IE_UnknownTrustLevel tb)
         | Some trust \<Rightarrow>
             if ver = 1 then profile_v1 pid ver trust payload
             else if ver = 2 then profile_v2 pid ver trust payload
             else Inl (IE_UnknownProfileVersion ver)))"

definition map_err :: "('e \<Rightarrow> 'f) \<Rightarrow> 'e + 'a \<Rightarrow> 'f + 'a" where
  "map_err f r = (case r of Inl e \<Rightarrow> Inl (f e) | Inr x \<Rightarrow> Inr x)"

definition parent_policy :: "'key session_runtime \<Rightarrow> session_domain \<Rightarrow> authority_policy" where
  "parent_policy rt s = (case dr_tenants (rt_domains rt) (sd_tenant_id s) of
      Some t \<Rightarrow> td_policy t | None \<Rightarrow> POLICY_NONE)"

definition process_profile ::
  "('key \<Rightarrow> byte list \<Rightarrow> byte list \<Rightarrow> bool) \<Rightarrow> parsed_header \<Rightarrow> byte list \<Rightarrow> 'key session_runtime
     \<Rightarrow> 'key session_runtime \<times> (ingress_error + authority_policy)" where
  "process_profile verify h payload rt = (case parse_profile_payload payload of
      Inl e \<Rightarrow> (rt, Inl e)
    | Inr profile \<Rightarrow> (case dr_sessions (rt_domains rt) (ph_session_id h) of
        None \<Rightarrow> (rt, Inl (IE_UnknownSession (ph_session_id h)))
      | Some s \<Rightarrow>
          (case map_err IE_ProfileVerification
                 (if sp_trust_level profile = TL_Advisory
                  then verify_advisory profile (parent_policy rt s) (ph_causal_epoch h) 0 (ph_session_id h)
                  else verify_asserted verify profile (parent_policy rt s) (ph_causal_epoch h) 0
                         (ph_session_id h) (rt_trust_store rt)) of
             Inl e \<Rightarrow> (rt, Inl e)
           | Inr effective \<Rightarrow>
               (rt\<lparr>rt_domains := (rt_domains rt)\<lparr>dr_sessions :=
                  (dr_sessions (rt_domains rt))(ph_session_id h \<mapsto> s\<lparr>claimed_policy := effective\<rparr>)\<rparr>\<rparr>,
                Inr effective))))"

section \<open>The stream is in order\<close>

fun action_header :: "record_action \<Rightarrow> parsed_header" where
  "action_header (RA_RouteReady h) = h"
| "action_header (RA_SkipPayload h _) = h"
| "action_header (RA_ReadProfile h _) = h"

lemma action_header_of [simp]: "action_header (record_action_of h) = h"
  by (simp add: record_action_of_def Let_def)

text \<open>The headers a decoder accepts from a sequence of buffers.\<close>

fun decode_all :: "byte list list \<Rightarrow> stream_decoder \<Rightarrow> stream_decoder \<times> parsed_header list" where
  "decode_all [] d = (d, [])"
| "decode_all (b # bs) d =
     (case decode_record b d of
        (d1, Inl e) \<Rightarrow> decode_all bs d1
      | (d1, Inr act) \<Rightarrow> (let (d2, hs) = decode_all bs d1 in (d2, action_header act # hs)))"

definition above_trace :: "stream_decoder \<Rightarrow> parsed_header \<Rightarrow> bool" where
  "above_trace d h \<longleftrightarrow>
     (\<forall>q. seq_trace d (ph_session_id h) = Some q \<longrightarrow> q < ph_stream_seq h)
   \<and> (\<forall>e. epoch_trace d (ph_session_id h) = Some e \<longrightarrow> e \<le> ph_causal_epoch h)"

lemma check_order_ok:
  "check_order h d = (d1, Inr u) \<longleftrightarrow> above_trace d h
     \<and> d1 = d\<lparr>seq_trace := (seq_trace d)(ph_session_id h \<mapsto> ph_stream_seq h),
             epoch_trace := (epoch_trace d)(ph_session_id h \<mapsto> ph_causal_epoch h)\<rparr>"
  by (auto simp: check_order_def record_epoch_def above_trace_def Let_def not_le not_less
      split: option.splits if_splits)

lemma check_order_err:
  "check_order h d = (d1, Inl e) \<Longrightarrow> sdec_preamble d1 = sdec_preamble d \<and> epoch_trace d1 = epoch_trace d
     \<and> (seq_trace d1 = seq_trace d \<or>
          seq_trace d1 = (seq_trace d)(ph_session_id h \<mapsto> ph_stream_seq h)
          \<and> (\<forall>q. seq_trace d (ph_session_id h) = Some q \<longrightarrow> q < ph_stream_seq h))"
  by (auto simp: check_order_def record_epoch_def Let_def not_le split: option.splits if_splits)

lemma check_order_not: "check_order h d = (d1, Inl e) \<Longrightarrow> \<not> above_trace d h"
  by (auto simp: check_order_def record_epoch_def above_trace_def Let_def split: option.splits if_splits)

lemma decode_record_ok:
  "decode_record b d = (d1, Inr act) \<longleftrightarrow>
     (\<exists>pre h. sdec_preamble d = Some pre \<and> h = parse_header b \<and> MIN_RECORD_LEN \<le> ph_length h
        \<and> ph_opcode h \<noteq> 0 \<and> ph_session_id h = pr_session_id pre \<and> above_trace d h
        \<and> act = record_action_of h
        \<and> d1 = d\<lparr>seq_trace := (seq_trace d)(ph_session_id h \<mapsto> ph_stream_seq h),
             epoch_trace := (epoch_trace d)(ph_session_id h \<mapsto> ph_causal_epoch h)\<rparr>)"
  by (auto simp: decode_record_def Let_def check_order_ok not_less split: option.splits prod.splits sum.splits if_splits
      dest: check_order_not)

lemma decode_record_err:
  "decode_record b d = (d1, Inl e) \<Longrightarrow> sdec_preamble d1 = sdec_preamble d \<and> epoch_trace d1 = epoch_trace d
     \<and> (seq_trace d1 = seq_trace d \<or>
          seq_trace d1 = (seq_trace d)(ph_session_id (parse_header b) \<mapsto> ph_stream_seq (parse_header b))
          \<and> (\<forall>q. seq_trace d (ph_session_id (parse_header b)) = Some q \<longrightarrow> q < ph_stream_seq (parse_header b)))"
  by (auto simp: decode_record_def Let_def split: option.splits prod.splits sum.splits if_splits
      dest!: check_order_err)

text \<open>Whatever a decoder does, a header above the later traces is above the earlier ones.\<close>

lemma above_trace_back:
  assumes "decode_record b d = (d1, r)" "above_trace d1 h"
  shows "above_trace d h"
proof (cases r)
  case (Inl e)
  then show ?thesis
    using decode_record_err[of b d d1 e] assms by (fastforce simp: above_trace_def split: if_splits)
next
  case (Inr act)
  then show ?thesis
    using assms by (fastforce simp: decode_record_ok above_trace_def split: if_splits)
qed

definition before :: "parsed_header \<Rightarrow> parsed_header \<Rightarrow> bool" where
  "before g h \<longleftrightarrow> ph_stream_seq g < ph_stream_seq h \<and> ph_causal_epoch g \<le> ph_causal_epoch h"

lemma decode_record_preamble: "decode_record b d = (d1, r) \<Longrightarrow> sdec_preamble d1 = sdec_preamble d"
  by (cases r) (auto simp: decode_record_ok dest!: decode_record_err)

lemma decode_all_ordered:
  assumes "sdec_preamble d = Some pre"
  shows "sorted_wrt before (snd (decode_all bs d))
    \<and> (\<forall>h \<in> set (snd (decode_all bs d)). above_trace d h \<and> ph_session_id h = pr_session_id pre
          \<and> MIN_RECORD_LEN \<le> ph_length h \<and> ph_opcode h \<noteq> 0)"
  using assms
proof (induction bs arbitrary: d)
  case (Cons b bs)
  obtain d1 r where r: "decode_record b d = (d1, r)" by (cases "decode_record b d")
  have pre: "sdec_preamble d1 = Some pre" using decode_record_preamble[OF r] Cons.prems by simp
  note IH = Cons.IH[OF pre]
  show ?case
  proof (cases r)
    case (Inl e)
    then show ?thesis using r IH above_trace_back[OF r] by auto
  next
    case (Inr act)
    let ?h = "parse_header b"
    have h: "above_trace d ?h" "ph_session_id ?h = pr_session_id pre" "MIN_RECORD_LEN \<le> ph_length ?h"
      "ph_opcode ?h \<noteq> 0" "act = record_action_of ?h"
      "seq_trace d1 (ph_session_id ?h) = Some (ph_stream_seq ?h)"
      "epoch_trace d1 (ph_session_id ?h) = Some (ph_causal_epoch ?h)"
      using r Inr Cons.prems by (auto simp: decode_record_ok)
    have "before ?h g" if "g \<in> set (snd (decode_all bs d1))" for g
      using IH that h by (auto simp: before_def above_trace_def)
    then show ?thesis
      using r Inr IH h above_trace_back[OF r] by (auto simp: split_beta)
  qed
qed simp

text \<open>
  C22. Ordering of a stream: whatever buffers arrive, the headers that a decoder with a preamble
  accepts carry strictly increasing sequence numbers and non-decreasing causal epochs, all belong
  to the session of the preamble, are at least 48 bytes long and have a non-zero opcode; without a
  preamble none is accepted.
\<close>

theorem stream_in_order:
  assumes "sdec_preamble d = Some pre"
  shows "sorted_wrt (\<lambda>g h. ph_stream_seq g < ph_stream_seq h \<and> ph_causal_epoch g \<le> ph_causal_epoch h)
       (snd (decode_all bs d))
    \<and> (\<forall>h \<in> set (snd (decode_all bs d)). ph_session_id h = pr_session_id pre
          \<and> 48 \<le> unat (ph_length h) \<and> ph_opcode h \<noteq> 0
          \<and> (\<forall>q. seq_trace d (ph_session_id h) = Some q \<longrightarrow> q < ph_stream_seq h))
    \<and> snd (decode_all bs (d\<lparr>sdec_preamble := None\<rparr>)) = []"
proof -
  have "snd (decode_all bs d') = []" if "sdec_preamble d' = None" for d'
    using that by (induction bs) (simp_all add: decode_record_def)
  then show ?thesis
    using decode_all_ordered[OF assms, of bs]
    by (auto simp: before_def[abs_def] above_trace_def MIN_RECORD_LEN_def word_le_nat_alt)
qed

definition demo_header :: "u64 \<Rightarrow> u64 \<Rightarrow> byte list" where
  "demo_header sq ep = to_le (0x0003 :: u16) @ to_le (0 :: u16) @ to_le (57 :: u32) @ to_le (0 :: u64)
     @ to_le (1 :: u64) @ to_le (7 :: u64) @ to_le ep @ to_le sq"

definition demo_decoder :: stream_decoder where
  "demo_decoder = decoder_new\<lparr>sdec_preamble := Some \<lparr>pr_abi_version = 3, pr_flags = 0, pr_feature_flags = 0,
     pr_path_id = 10, pr_session_id = 1\<rparr>\<rparr>"

theorem stream_in_order_witness:
  "map ph_stream_seq (snd (decode_all [demo_header 2 5, demo_header 1 5, demo_header 3 5] demo_decoder)) = [2, 3]
   \<and> sorted_wrt (\<lambda>g h. ph_stream_seq g < ph_stream_seq h \<and> ph_causal_epoch g \<le> ph_causal_epoch h)
       (snd (decode_all [demo_header 2 5, demo_header 1 5, demo_header 3 5] demo_decoder))"
proof -
  have "map ph_stream_seq (snd (decode_all [demo_header 2 5, demo_header 1 5, demo_header 3 5] demo_decoder)) = [2, 3]"
    by code_simp
  then show ?thesis
    using stream_in_order[of demo_decoder _ "[demo_header 2 5, demo_header 1 5, demo_header 3 5]"]
    by (simp add: demo_decoder_def)
qed

text \<open>
  A record refused for an epoch regression has already been counted: its sequence number is in
  the trace, so when the peer sends the record again with a corrected epoch it is refused as a gap,
  and counted as one, although no record with that number was ever accepted.
\<close>

theorem regression_consumes_seq:
  assumes "sdec_preamble d = Some pre"
    and "48 \<le> ph_length (parse_header b)" "ph_opcode (parse_header b) \<noteq> 0"
    and "ph_session_id (parse_header b) = pr_session_id pre"
    and "\<forall>q. seq_trace d (pr_session_id pre) = Some q \<longrightarrow> q < ph_stream_seq (parse_header b)"
    and "epoch_trace d (pr_session_id pre) = Some last_ep" "ph_causal_epoch (parse_header b) < last_ep"
    and "48 \<le> ph_length (parse_header b')" "ph_opcode (parse_header b') \<noteq> 0"
    and "ph_session_id (parse_header b') = pr_session_id pre"
    and "ph_stream_seq (parse_header b') = ph_stream_seq (parse_header b)"
  shows "let (d1, r1) = decode_record b d; (d2, r2) = decode_record b' d1 in
      r1 = Inl (IE_EpochRegression (pr_session_id pre) last_ep (ph_causal_epoch (parse_header b)))
    \<and> r2 = Inl (IE_StreamSeqGap (pr_session_id pre) (ph_stream_seq (parse_header b)) (ph_stream_seq (parse_header b)))
    \<and> gap_count d2 = gap_count d + 1 \<and> snd (decode_all [b, b'] d) = []"
proof -
  have "\<not> q \<ge> ph_stream_seq (parse_header b)" if "seq_trace d (pr_session_id pre) = Some q" for q
    using assms(5) that by (simp add: not_le)
  then show ?thesis
    using assms
    by (auto simp: decode_record_def check_order_def record_epoch_def Let_def MIN_RECORD_LEN_def not_less[symmetric]
        split: option.split)
qed

theorem regression_consumes_seq_witness:
  "snd (decode_all [demo_header 2 4, demo_header 2 5] (fst (decode_all [demo_header 1 5] demo_decoder))) = []"
proof -
  have h: "parse_header (demo_header sq ep) = \<lparr>ph_opcode = 3, ph_flags = 0, ph_length = 57, ph_tenant_id = 0,
      ph_session_id = 1, ph_partition_id = 7, ph_causal_epoch = ep, ph_stream_seq = sq\<rparr>" for sq ep
    by (simp add: parse_header_def le_at_def demo_header_def take_append from_le_to_le)
  have d: "fst (decode_all [demo_header 1 5] demo_decoder) = demo_decoder\<lparr>seq_trace := [1 \<mapsto> 1], epoch_trace := [1 \<mapsto> 5]\<rparr>"
    by (simp add: decode_record_def h Let_def MIN_RECORD_LEN_def check_order_def record_epoch_def demo_decoder_def decoder_new_def)
  show ?thesis
    unfolding d
    using regression_consumes_seq[of "demo_decoder\<lparr>seq_trace := [1 \<mapsto> 1], epoch_trace := [1 \<mapsto> 5]\<rparr>" _ "demo_header 2 4" 5 "demo_header 2 5"]
    by (simp add: h demo_decoder_def Let_def split_beta)
qed

section \<open>Profiles\<close>

lemma process_profile_ok:
  "process_profile verify h payload rt = (rt', Inr pol) \<longleftrightarrow>
     (\<exists>profile s. parse_profile_payload payload = Inr profile
        \<and> dr_sessions (rt_domains rt) (ph_session_id h) = Some s
        \<and> (if sp_trust_level profile = TL_Advisory
           then verify_advisory profile (parent_policy rt s) (ph_causal_epoch h) 0 (ph_session_id h)
           else verify_asserted verify profile (parent_policy rt s) (ph_causal_epoch h) 0
                  (ph_session_id h) (rt_trust_store rt)) = Inr pol
        \<and> rt' = rt\<lparr>rt_domains := (rt_domains rt)\<lparr>dr_sessions :=
            (dr_sessions (rt_domains rt))(ph_session_id h \<mapsto> s\<lparr>claimed_policy := pol\<rparr>)\<rparr>\<rparr>)"
  by (auto simp: process_profile_def map_err_def split: sum.splits option.splits)

lemma process_profile_err: "process_profile verify h payload rt = (rt', Inl e) \<Longrightarrow> rt' = rt"
  by (auto simp: process_profile_def map_err_def split: sum.splits option.splits)

lemma process_profile_bounded:
  assumes "process_profile verify h payload rt = (rt', Inr pol)"
    "dr_sessions (rt_domains rt) (ph_session_id h) = Some s"
  shows "is_bounded_by pol (parent_policy rt s)"
  using assms verify_bounded by (fastforce simp: process_profile_ok split: if_splits)

text \<open>
  \<open>process_profile\<close>: a profile that is refused changes nothing.  One that is accepted grants a
  policy within the ceiling of the session's tenant and within the profile's claim, and changes the
  claim of this session only; it is bound to this session and not expired; if its level is not
  advisory, the issuer's registered key accepted its signature; and from then on the effective
  policy of the session is exactly the policy granted, if its tenant is registered.
\<close>

theorem profile_within_tenant:
  assumes "process_profile verify h payload rt = (rt', r)"
  shows "(\<forall>e. r = Inl e \<longrightarrow> rt' = rt)
    \<and> (\<forall>pol. r = Inr pol \<longrightarrow> (\<exists>profile s. parse_profile_payload payload = Inr profile
          \<and> dr_sessions (rt_domains rt) (ph_session_id h) = Some s
          \<and> is_bounded_by pol (parent_policy rt s) \<and> is_bounded_by pol (profile_claimed profile)
          \<and> profile_current profile (ph_causal_epoch h) 0 (ph_session_id h)
          \<and> (sp_trust_level profile \<noteq> TL_Advisory \<longrightarrow>
               (\<exists>key. rt_trust_store rt (sp_issuer_domain profile) = Some key
                  \<and> verify key (canonical_signing_payload profile) (sp_signature profile)))
          \<and> dr_sessions (rt_domains rt') (ph_session_id h) = Some (s\<lparr>claimed_policy := pol\<rparr>)
          \<and> (\<forall>k. k \<noteq> ph_session_id h \<longrightarrow> dr_sessions (rt_domains rt') k = dr_sessions (rt_domains rt) k)
          \<and> effective_policy (rt_domains rt') (ph_session_id h) =
              (if dr_tenants (rt_domains rt) (sd_tenant_id s) = None then None else Some pol)))"
proof (intro conjI allI impI)
  fix e assume "r = Inl e"
  with assms show "rt' = rt" by (simp add: process_profile_err)
next
  fix pol assume r: "r = Inr pol"
  obtain profile s where o: "parse_profile_payload payload = Inr profile"
    "dr_sessions (rt_domains rt) (ph_session_id h) = Some s"
    and v: "(if sp_trust_level profile = TL_Advisory
           then verify_advisory profile (parent_policy rt s) (ph_causal_epoch h) 0 (ph_session_id h)
           else verify_asserted verify profile (parent_policy rt s) (ph_causal_epoch h) 0
                  (ph_session_id h) (rt_trust_store rt)) = Inr pol"
    and rt': "rt' = rt\<lparr>rt_domains := (rt_domains rt)\<lparr>dr_sessions :=
            (dr_sessions (rt_domains rt))(ph_session_id h \<mapsto> s\<lparr>claimed_policy := pol\<rparr>)\<rparr>\<rparr>"
    using assms r by (auto simp: process_profile_ok)
  have pol: "pol = intersect (profile_claimed profile) (parent_policy rt s)"
    and current: "profile_current profile (ph_causal_epoch h) 0 (ph_session_id h)"
    and signed: "sp_trust_level profile \<noteq> TL_Advisory \<Longrightarrow> \<exists>key. rt_trust_store rt (sp_issuer_domain profile) = Some key
                  \<and> verify key (canonical_signing_payload profile) (sp_signature profile)"
    using v by (auto simp: verify_advisory_iff verify_asserted_iff split: if_splits)
  have "intersect pol (td_policy t) = pol" if "dr_tenants (rt_domains rt) (sd_tenant_id s) = Some t" for t
    using that by (simp add: pol parent_policy_def policy.clip_twice)
  then have "effective_policy (rt_domains rt') (ph_session_id h) =
              (if dr_tenants (rt_domains rt) (sd_tenant_id s) = None then None else Some pol)"
    by (auto simp: rt' effective_policy_def split: option.split)
  with o current signed show "\<exists>profile s. parse_profile_payload payload = Inr profile
          \<and> dr_sessions (rt_domains rt) (ph_session_id h) = Some s
          \<and> is_bounded_by pol (parent_policy rt s) \<and> is_bounded_by pol (profile_claimed profile)
          \<and> profile_current profile (ph_causal_epoch h) 0 (ph_session_id h)
          \<and> (sp_trust_level profile \<noteq> TL_Advisory \<longrightarrow>
               (\<exists>key. rt_trust_store rt (sp_issuer_domain profile) = Some key
                  \<and> verify key (canonical_signing_payload profile) (sp_signature profile)))
          \<and> dr_sessions (rt_domains rt') (ph_session_id h) = Some (s\<lparr>claimed_policy := pol\<rparr>)
          \<and> (\<forall>k. k \<noteq> ph_session_id h \<longrightarrow> dr_sessions (rt_domains rt') k = dr_sessions (rt_domains rt) k)
          \<and> effective_policy (rt_domains rt') (ph_session_id h) =
              (if dr_tenants (rt_domains rt) (sd_tenant_id s) = None then None else Some pol)"
    by (intro exI[of _ profile] exI[of _ s]) (simp add: rt' pol policy.clip_within)
qed

definition demo_profile :: session_profile where
  "demo_profile = \<lparr>sp_profile_id = 5, sp_profile_version = 2, sp_trust_level = TL_Advisory, sp_assertion_mask = 7,
     sp_delegation_mask = 0, sp_observability_mask = 12, sp_disclosure_mask = 1, sp_issuer_domain = 0,
     sp_session_id = 1, sp_generation = 0, sp_expiry_epoch = - 1, sp_signature = []\<rparr>"

text \<open>The two layouts that the documentation of the code gives.\<close>

definition profile_tail :: "session_profile \<Rightarrow> byte list" where
  "profile_tail p = to_le (sp_issuer_domain p) @ to_le (sp_session_id p) @ to_le (sp_generation p)
     @ to_le (sp_expiry_epoch p) @ to_le (of_nat (length (sp_signature p)) :: u16) @ sp_signature p"

definition profile_bytes_v1 :: "session_profile \<Rightarrow> byte list" where
  "profile_bytes_v1 p = to_le (sp_profile_id p) @ to_le (1 :: u16) @ [trust_as_u8 (sp_trust_level p)]
     @ to_le (sp_assertion_mask p) @ profile_tail p"

definition profile_bytes_v2 :: "session_profile \<Rightarrow> byte list" where
  "profile_bytes_v2 p = to_le (sp_profile_id p) @ to_le (2 :: u16) @ [trust_as_u8 (sp_trust_level p)]
     @ to_le (sp_assertion_mask p) @ to_le (sp_delegation_mask p) @ to_le (sp_observability_mask p)
     @ to_le (sp_disclosure_mask p) @ profile_tail p"

definition one_mask :: "session_profile \<Rightarrow> session_profile" where
  "one_mask p = p\<lparr>sp_profile_version := 1, sp_delegation_mask := sp_assertion_mask p,
     sp_observability_mask := sp_assertion_mask p, sp_disclosure_mask := sp_assertion_mask p\<rparr>"

lemma sig_len_read: "n < 2 ^ 16 \<Longrightarrow> unat (of_nat n :: u16) = n"
  by (simp add: unat_of_nat take_bit_nat_eq_self)

lemma parse_profile_v2:
  assumes "length (sp_signature p) < 2 ^ 16"
  shows "parse_profile_payload (profile_bytes_v2 p @ extra) = Inr (p\<lparr>sp_profile_version := 2\<rparr>)"
proof -
  have t: "trust_from_u8 (trust_as_u8 k) = Some k" for k by (simp add: trust_roundtrip)
  show ?thesis
    using assms
    by (simp add: parse_profile_payload_def profile_bytes_v2_def profile_tail_def le_at_def take_append
        from_le_to_le t nth_append profile_v2_def PROFILE_FIXED_LEN_V2_def Let_def sig_len_read)
qed

lemma parse_profile_v1:
  assumes "length (sp_signature p) < 2 ^ 16"
  shows "parse_profile_payload (profile_bytes_v1 p @ extra) = Inr (one_mask p)"
proof -
  have t: "trust_from_u8 (trust_as_u8 k) = Some k" for k by (simp add: trust_roundtrip)
  show ?thesis
    using assms
    by (simp add: parse_profile_payload_def profile_bytes_v1_def profile_tail_def le_at_def take_append
        from_le_to_le t nth_append profile_v1_def PROFILE_FIXED_LEN_def Let_def sig_len_read one_mask_def)
qed

lemma le_at_take: "a + k \<le> n \<Longrightarrow> le_at (take n bs) a k = le_at bs a k"
  by (simp add: le_at_def drop_take min_def)

lemma profile_truncated:
  assumes "length bs = 73 + length sig" "length sig < 2 ^ 16" "le_at bs 4 2 = (2 :: u16)"
    "bs ! 6 = trust_as_u8 k" "le_at bs 71 2 = (of_nat (length sig) :: u16)" "n < length bs"
  shows "\<exists>needed. n < needed \<and> parse_profile_payload (take n bs) = Inl (IE_ProfileTruncated needed n)"
proof -
  have t: "trust_from_u8 (trust_as_u8 k) = Some k" by (simp add: trust_roundtrip)
  consider "n < 7" | "7 \<le> n" "n < 73" | "73 \<le> n" by linarith
  then show ?thesis
  proof cases
    case 3
    then have "n - 73 < length sig" using assms(1,6) by simp
    with 3 show ?thesis
      using assms t by (intro exI[of _ "73 + length sig"])
        (simp add: parse_profile_payload_def profile_v2_def PROFILE_FIXED_LEN_V2_def Let_def le_at_take sig_len_read)
  qed (use assms t in \<open>auto simp: parse_profile_payload_def profile_v2_def PROFILE_FIXED_LEN_V2_def Let_def le_at_take\<close>)
qed

text \<open>
  Profile payloads: parsing the documented version-two layout of a profile gives the profile
  back, whatever follows it; the version-one layout gives it back with its single mask on all four
  axes; a payload cut short anywhere is refused as truncated, with a needed length beyond what
  is there, before any field of it is used; and parsing never looks at bytes after the signature.
\<close>

theorem profile_payload_roundtrip:
  assumes "length (sp_signature p) < 2 ^ 16" "n < length (profile_bytes_v2 p)"
  shows "parse_profile_payload (profile_bytes_v2 p @ extra) = Inr (p\<lparr>sp_profile_version := 2\<rparr>)
    \<and> parse_profile_payload (profile_bytes_v1 p @ extra) = Inr (one_mask p)
    \<and> (\<exists>needed. n < needed
         \<and> parse_profile_payload (take n (profile_bytes_v2 p)) = Inl (IE_ProfileTruncated needed n))"
proof -
  have "\<exists>needed. n < needed
         \<and> parse_profile_payload (take n (profile_bytes_v2 p)) = Inl (IE_ProfileTruncated needed n)"
  proof (rule profile_truncated[OF _ assms(1) _ _ _ assms(2), of "sp_trust_level p"])
    show "length (profile_bytes_v2 p) = 73 + length (sp_signature p)"
      by (simp add: profile_bytes_v2_def profile_tail_def)
    show "le_at (profile_bytes_v2 p) 4 2 = (2 :: u16)"
      by (simp add: profile_bytes_v2_def le_at_def from_le_to_le)
    show "profile_bytes_v2 p ! 6 = trust_as_u8 (sp_trust_level p)"
      by (simp add: profile_bytes_v2_def nth_append)
    show "le_at (profile_bytes_v2 p) 71 2 = (of_nat (length (sp_signature p)) :: u16)"
      by (simp add: profile_bytes_v2_def profile_tail_def le_at_def take_append from_le_to_le)
  qed
  then show ?thesis using parse_profile_v1 parse_profile_v2 assms(1) by blast
qed

theorem profile_payload_roundtrip_witness:
  "parse_profile_payload (profile_bytes_v2 demo_profile) = Inr demo_profile
   \<and> (\<exists>needed > 72. parse_profile_payload (take 72 (profile_bytes_v2 demo_profile)) = Inl (IE_ProfileTruncated needed 72))"
  using profile_payload_roundtrip[of demo_profile 72 "[]"]
  by (simp add: demo_profile_def profile_bytes_v2_def profile_tail_def)

definition member_runtime :: "u64 session_runtime" where
  "member_runtime = runtime_new\<lparr>rt_domains := register_session
     (register_tenant domains_new (single_tenant\<lparr>td_policy := POLICY_NONE\<lparr>assertion := 6, observability := 4\<rparr>\<rparr>))
     \<lparr>sd_id = 1, sd_tenant_id = 0, claimed_policy = POLICY_NONE, sd_auth_mode = Advisory,
      sd_quota = session_quota_default\<rparr>\<rparr>"

theorem profile_within_tenant_witness:
  "effective_policy (rt_domains (fst (process_profile (\<lambda>_ _ _. False)
     ((header_of 0x0100 1)\<lparr>ph_session_id := 1\<rparr>) (profile_bytes_v2 demo_profile) member_runtime))) 1
   = Some (POLICY_NONE\<lparr>assertion := 6, observability := 4\<rparr>)"
proof -
  let ?h = "(header_of 0x0100 1)\<lparr>ph_session_id := 1\<rparr>"
  let ?rt = "fst (process_profile (\<lambda>_ _ _. False) ?h (profile_bytes_v2 demo_profile) member_runtime)"
  have parse: "parse_profile_payload (profile_bytes_v2 demo_profile) = Inr demo_profile"
    using parse_profile_v2[of demo_profile "[]"] by (simp add: demo_profile_def)
  have "snd (process_profile (\<lambda>_ _ _. False) ?h (profile_bytes_v2 demo_profile) member_runtime)
      = Inr (POLICY_NONE\<lparr>assertion := 6, observability := 4\<rparr>)"
    unfolding process_profile_def parse by code_simp
  then have "process_profile (\<lambda>_ _ _. False) ?h (profile_bytes_v2 demo_profile) member_runtime
      = (?rt, Inr (POLICY_NONE\<lparr>assertion := 6, observability := 4\<rparr>))"
    by (simp add: prod_eq_iff)
  from profile_within_tenant[OF this] show ?thesis
    by (auto simp: member_runtime_def register_session_def register_tenant_def single_tenant_def)
qed

text \<open>
  A profile on a session whose tenant is not registered is clipped to no authority at all, as
  documented; yet the effective policy of such a session does not exist, so the gate falls back to
  full authority: the session is refused nothing for want of authority, whatever rows the
  partition has, although its claim is empty.
\<close>

theorem unregistered_tenant_opens:
  assumes "process_profile verify h payload rt = (rt', Inr pol)"
    and "dr_sessions (rt_domains rt) (ph_session_id h) = Some s"
    and "dr_tenants (rt_domains rt) (sd_tenant_id s) = None"
  shows "pol = POLICY_NONE
    \<and> map_option claimed_policy (dr_sessions (rt_domains rt') (ph_session_id h)) = Some POLICY_NONE
    \<and> session_policy rt' (ph_session_id h) = POLICY_ALL
    \<and> gate (rt_auth rt') pid c em (session_policy rt' (ph_session_id h)) \<noteq> GR_Deny (DG_PolicyViolation a)"
proof -
  have "is_bounded_by pol POLICY_NONE"
    using process_profile_bounded[OF assms(1,2)] assms(3) by (simp add: parent_policy_def)
  then have n: "pol = POLICY_NONE" using policy.within_antisym by simp
  have e: "effective_policy (rt_domains rt') (ph_session_id h) = None"
    and c: "map_option claimed_policy (dr_sessions (rt_domains rt') (ph_session_id h)) = Some pol"
    using assms by (auto simp: process_profile_ok effective_policy_def)
  then show ?thesis
    using n gate_policy_denied[of "rt_auth rt'" pid c em POLICY_ALL a] by (auto simp: session_policy_def)
qed

theorem unregistered_tenant_opens_witness:
  "session_policy (fst (process_profile (\<lambda>_ _ _. False) ((header_of 0x0100 1)\<lparr>ph_session_id := 1\<rparr>)
     (profile_bytes_v2 demo_profile)
     (member_runtime\<lparr>rt_domains := (rt_domains member_runtime)\<lparr>dr_tenants := Map.empty\<rparr>\<rparr>))) 1 = POLICY_ALL"
proof -
  let ?h = "(header_of 0x0100 1)\<lparr>ph_session_id := 1\<rparr>"
  let ?bare = "member_runtime\<lparr>rt_domains := (rt_domains member_runtime)\<lparr>dr_tenants := Map.empty\<rparr>\<rparr>"
  let ?rt = "fst (process_profile (\<lambda>_ _ _. False) ?h (profile_bytes_v2 demo_profile) ?bare)"
  have parse: "parse_profile_payload (profile_bytes_v2 demo_profile) = Inr demo_profile"
    using parse_profile_v2[of demo_profile "[]"] by (simp add: demo_profile_def)
  have "snd (process_profile (\<lambda>_ _ _. False) ?h (profile_bytes_v2 demo_profile) ?bare) = Inr POLICY_NONE"
    unfolding process_profile_def parse by code_simp
  then have p: "process_profile (\<lambda>_ _ _. False) ?h (profile_bytes_v2 demo_profile) ?bare = (?rt, Inr POLICY_NONE)"
    by (simp add: prod_eq_iff)
  have d: "dr_sessions (rt_domains ?bare) (ph_session_id ?h) = Some \<lparr>sd_id = 1, sd_tenant_id = 0,
      claimed_policy = POLICY_NONE, sd_auth_mode = Advisory, sd_quota = session_quota_default\<rparr>"
    by (simp add: member_runtime_def register_session_def)
  show ?thesis
    using unregistered_tenant_opens[OF p d] by simp
qed

end
