(* ===== verification/Sensitivity.thy ===== *)
theory Sensitivity
  imports Authority
begin

text \<open>
  How a dependency reacts to what it can see, \<^verbatim>\<open>core-rs/src/sensitivity.rs\<close>, and the boundary
  event protocol of \<^verbatim>\<open>core-rs/src/stream.rs\<close>: versioned states and their dominance, the
  recompute predicate, subscription scopes, remote events and streams, and the \<open>emit\<close> gate.
\<close>

section \<open>Versioned states\<close>

datatype sensitivity = Exact | Monotone | StableOnly | Edge_sens

datatype state_class = Class_Pending | Class_Definite | Class_Uncertain

record 'v versioned_state =
  vs_val :: "'v option"
  vs_zero :: "zero_kind option"
  vs_mask :: projection_mask
  vs_time :: product_time

definition vs_pending :: "product_time \<Rightarrow> projection_mask \<Rightarrow> 'v versioned_state" where
  "vs_pending t m = \<lparr>vs_val = None, vs_zero = None, vs_mask = m, vs_time = t\<rparr>"

definition vs_definite :: "'v \<Rightarrow> product_time \<Rightarrow> projection_mask \<Rightarrow> 'v versioned_state" where
  "vs_definite v t m = \<lparr>vs_val = Some v, vs_zero = None, vs_mask = m, vs_time = t\<rparr>"

definition vs_uncertain :: "zero_kind \<Rightarrow> product_time \<Rightarrow> projection_mask \<Rightarrow> 'v versioned_state" where
  "vs_uncertain z t m = \<lparr>vs_val = None, vs_zero = Some z, vs_mask = m, vs_time = t\<rparr>"

definition vs_class :: "'v versioned_state \<Rightarrow> state_class" where
  "vs_class s = (if vs_zero s \<noteq> None then Class_Uncertain
     else if vs_val s \<noteq> None then Class_Definite else Class_Pending)"

fun less_informative :: "'v versioned_state \<Rightarrow> 'v versioned_state \<Rightarrow> bool" where
  "less_informative s other =
     (case (vs_val s, vs_zero s, vs_val other, vs_zero other) of
        (None, None, Some _, _) \<Rightarrow> True
      | (None, None, _, Some _) \<Rightarrow> True
      | _ \<Rightarrow> False)"

fun epistemic_ok :: "'v versioned_state \<Rightarrow> 'v versioned_state \<Rightarrow> bool" where
  "epistemic_ok s other =
     (case (vs_val s, vs_zero s, vs_val other, vs_zero other) of
        (Some _, None, None, Some _) \<Rightarrow> False
      | (None, Some _, Some _, None) \<Rightarrow> False
      | _ \<Rightarrow> True)"

definition vs_dominates :: "'v versioned_state \<Rightarrow> 'v versioned_state \<Rightarrow> bool" where
  "vs_dominates s other \<longleftrightarrow>
     epistemic_ok s other
     \<and> time_dominates (vs_time s) (vs_time other)
     \<and> covers (vs_mask s) (vs_mask other)
     \<and> \<not> less_informative s other"

text \<open>The three constructors never set both components.\<close>

definition vs_wf :: "'v versioned_state \<Rightarrow> bool" where
  "vs_wf s \<longleftrightarrow> vs_val s = None \<or> vs_zero s = None"

lemmas vs_consts = vs_pending_def vs_definite_def vs_uncertain_def

lemma vs_wf_constructors [simp]:
  "vs_wf (vs_pending t m)" "vs_wf (vs_definite v t m)" "vs_wf (vs_uncertain z t m)"
  by (simp_all add: vs_wf_def vs_consts)

lemma vs_fields [simp]:
  "vs_class (vs_pending t m) = Class_Pending" "vs_class (vs_definite v t m) = Class_Definite"
  "vs_class (vs_uncertain z t m) = Class_Uncertain"
  "vs_mask (vs_pending t m) = m" "vs_mask (vs_definite v t m) = m" "vs_mask (vs_uncertain z t m) = m"
  "vs_time (vs_pending t m) = t" "vs_time (vs_definite v t m) = t" "vs_time (vs_uncertain z t m) = t"
  by (simp_all add: vs_class_def vs_consts)

lemma vs_knowledge:
  assumes "vs_wf a" "vs_wf b"
  shows "(epistemic_ok a b \<and> \<not> less_informative a b)
    = (vs_class b = Class_Pending \<or> vs_class a = vs_class b)"
  using assms by (auto simp: vs_wf_def vs_class_def split: option.splits)

lemma covers_refl: "covers m m"
  by (simp add: covers_def attrs_contains_def shape_contains_def split: option.split)

text \<open>
  What \<open>VersionedState::dominates\<close> compares.  On states the constructors build, one state
  dominates another exactly when it is at least as recent, its mask covers the other's, and the
  other is pending or of the same class; so over one mask it is a preorder and \<open>Definite\<close> and
  \<open>Uncertain\<close> are incomparable, but it ignores the value itself: two different definite values
  at one time dominate each other, which the documented partial order rules out.
\<close>

theorem vs_dominates_knowledge:
  assumes "vs_wf a" "vs_wf b" "vs_wf c"
  shows "vs_dominates a b =
      (time_dominates (vs_time a) (vs_time b) \<and> covers (vs_mask a) (vs_mask b)
       \<and> (vs_class b = Class_Pending \<or> vs_class a = vs_class b))
    \<and> vs_dominates a a
    \<and> (vs_mask a = vs_mask c \<and> vs_dominates a b \<and> vs_dominates b c \<longrightarrow> vs_dominates a c)
    \<and> \<not> vs_dominates (vs_definite v t m) (vs_uncertain z t m)
    \<and> \<not> vs_dominates (vs_uncertain z t m) (vs_definite v t m)
    \<and> vs_dominates (vs_definite v t m) (vs_definite w t m)"
proof -
  have dom: "vs_dominates x y =
      (time_dominates (vs_time x) (vs_time y) \<and> covers (vs_mask x) (vs_mask y)
       \<and> (vs_class y = Class_Pending \<or> vs_class x = vs_class y))"
    if "vs_wf x" "vs_wf y" for x y :: "'v versioned_state"
    using vs_knowledge[OF that] unfolding vs_dominates_def by blast
  have "vs_mask a = vs_mask c \<and> vs_dominates a b \<and> vs_dominates b c \<longrightarrow> vs_dominates a c"
    unfolding dom[OF assms(1,2)] dom[OF assms(2,3)] dom[OF assms(1,3)]
    using ptime.trans[of "vs_time a" "vs_time b" "vs_time c"] covers_refl[of "vs_mask c"] by auto
  then show ?thesis
    using dom[OF assms(1,2)] dom[OF assms(1,1)]
      dom[of "vs_definite v t m" "vs_definite w t m"]
      dom[of "vs_definite v t m" "vs_uncertain z t m"]
      dom[of "vs_uncertain z t m" "vs_definite v t m"]
    by (simp add: ptime.refl covers_refl)
qed

theorem vs_dominates_knowledge_witness:
  "vs_wf (vs_definite Pos TIME_ZERO mask_wildcard) \<and> vs_wf (vs_pending TIME_ZERO mask_wildcard :: T versioned_state)
   \<and> vs_dominates (vs_definite Pos TIME_ZERO mask_wildcard) (vs_pending TIME_ZERO mask_wildcard)"
  using vs_dominates_knowledge[of "vs_definite Pos TIME_ZERO mask_wildcard"
      "vs_pending TIME_ZERO mask_wildcard" "vs_pending TIME_ZERO mask_wildcard"
      Pos TIME_ZERO mask_wildcard Conflict Neg]
  by (simp add: ptime.refl covers_refl)

section \<open>The recompute predicate\<close>

definition triggers_recompute ::
  "projection_mask \<Rightarrow> sensitivity \<Rightarrow> delta \<Rightarrow> 'v versioned_state \<Rightarrow> 'v versioned_state \<Rightarrow> bool" where
  "triggers_recompute m sens d before after =
     (if \<not> affects m d then False
      else (case sens of
          Exact \<Rightarrow> True
        | Monotone \<Rightarrow> vs_class before = Class_Pending \<and> vs_class after = Class_Definite
        | StableOnly \<Rightarrow> vs_class after = Class_Definite
        | Edge_sens \<Rightarrow> vs_class before \<noteq> vs_class after))"

text \<open>
  The recompute predicate is the mask gate refined by the sensitivity: nothing fires on an
  invisible delta, \<open>Monotone\<close> fires exactly on Pending-to-Definite and is the conjunction of
  \<open>Edge\<close> and \<open>StableOnly\<close> away from an Uncertain start, every sensitivity is below \<open>Exact\<close>, and
  a smaller mask never fires where a larger one would not.
\<close>

theorem triggers_recompute_gates:
  "(triggers_recompute m s d before after \<longrightarrow> affects m d \<and> triggers_recompute m Exact d before after)
   \<and> triggers_recompute m Monotone d before after =
       (triggers_recompute m Edge_sens d before after \<and> triggers_recompute m StableOnly d before after
        \<and> vs_class before \<noteq> Class_Uncertain)
   \<and> (vs_class before = vs_class after \<longrightarrow> \<not> triggers_recompute m Edge_sens d before after)
   \<and> (vs_class after \<noteq> Class_Definite \<longrightarrow> \<not> triggers_recompute m StableOnly d before after)
   \<and> (mask_above m m' \<and> triggers_recompute m' s d before after
        \<longrightarrow> triggers_recompute m s d before after)"
proof -
  have "mask_above m m' \<Longrightarrow> triggers_recompute m' s d before after
      \<Longrightarrow> triggers_recompute m s d before after"
    using mask_obs.above_sees[of m m' d] by (cases s) (simp_all add: triggers_recompute_def split: if_splits)
  moreover have "triggers_recompute m Monotone d before after =
       (triggers_recompute m Edge_sens d before after \<and> triggers_recompute m StableOnly d before after
        \<and> vs_class before \<noteq> Class_Uncertain)"
    by (cases "vs_class before") (auto simp: triggers_recompute_def)
  ultimately show ?thesis
    by (cases s) (auto simp: triggers_recompute_def)
qed

theorem triggers_recompute_gates_witness:
  "triggers_recompute mask_attribute_only Edge_sens (delta_attribute 1)
     (vs_pending TIME_ZERO mask_wildcard) (vs_definite Pos TIME_ZERO mask_wildcard)
   \<and> triggers_recompute mask_attribute_only Exact (delta_attribute 1)
       (vs_pending TIME_ZERO mask_wildcard) (vs_definite Pos TIME_ZERO mask_wildcard)"
proof -
  have "triggers_recompute mask_attribute_only Edge_sens (delta_attribute 1)
     (vs_pending TIME_ZERO mask_wildcard) (vs_definite Pos TIME_ZERO mask_wildcard)"
    by (simp add: triggers_recompute_def affects_def mask_consts delta_consts dims_consts
        dims_intersects_def attrs_matches_def attrs_is_wildcard_def)
  then show ?thesis
    using triggers_recompute_gates[of mask_attribute_only Edge_sens "delta_attribute 1"
        "vs_pending TIME_ZERO mask_wildcard" "vs_definite Pos TIME_ZERO mask_wildcard"
        mask_attribute_only]
    by blast
qed

section \<open>Subscription scopes, events, streams\<close>

datatype sub_scope =
    Scope_Uid uid
  | Scope_UidSet "uid list"
  | Scope_Partition partition_id
  | Scope_TypedNodes partition_id string

definition scope_uid_set :: "uid list \<Rightarrow> sub_scope" where
  "scope_uid_set us = Scope_UidSet us"

fun scope_matches :: "sub_scope \<Rightarrow> uid \<Rightarrow> string \<Rightarrow> partition_id \<Rightarrow> bool" where
  "scope_matches (Scope_Uid u) x ty p = (u = x)"
| "scope_matches (Scope_UidSet us) x ty p = (x \<in> set us)"
| "scope_matches (Scope_Partition q) x ty p = (q = p)"
| "scope_matches (Scope_TypedNodes q t) x ty p = (q = p \<and> t = ty)"

record subscription =
  sub_scope :: sub_scope
  sub_mask_id :: u32
  sub_sensitivity :: sensitivity
  sub_stream_id :: u128

record 'v remote_event =
  re_time :: product_time
  re_uid :: uid
  re_payload :: "'v option"
  re_zero :: "zero_kind option"
  re_frontier :: frontier

definition event_value :: "uid \<Rightarrow> 'v \<Rightarrow> product_time \<Rightarrow> frontier \<Rightarrow> 'v remote_event" where
  "event_value u v t f = \<lparr>re_time = t, re_uid = u, re_payload = Some v, re_zero = None, re_frontier = f\<rparr>"

definition event_typed_zero :: "uid \<Rightarrow> zero_kind \<Rightarrow> product_time \<Rightarrow> frontier \<Rightarrow> 'v remote_event" where
  "event_typed_zero u k t f = \<lparr>re_time = t, re_uid = u, re_payload = None, re_zero = Some k, re_frontier = f\<rparr>"

definition event_pending :: "uid \<Rightarrow> product_time \<Rightarrow> frontier \<Rightarrow> 'v remote_event" where
  "event_pending u t f = \<lparr>re_time = t, re_uid = u, re_payload = None, re_zero = None, re_frontier = f\<rparr>"

definition event_is_zero :: "'v remote_event \<Rightarrow> bool" where
  "event_is_zero e = (re_zero e \<noteq> None)"

definition event_is_pending :: "'v remote_event \<Rightarrow> bool" where
  "event_is_pending e = (re_payload e = None \<and> re_zero e = None)"

record 'v remote_stream =
  rs_origin :: partition_id
  rs_stream_id :: u128
  rs_events :: "'v remote_event list"

text \<open>The fresh random stream id of \<open>new\<close> is an argument.\<close>

definition stream_new :: "u128 \<Rightarrow> partition_id \<Rightarrow> 'v remote_stream" where
  "stream_new fresh p = \<lparr>rs_origin = p, rs_stream_id = fresh, rs_events = []\<rparr>"

definition stream_push :: "'v remote_stream \<Rightarrow> 'v remote_event \<Rightarrow> 'v remote_stream" where
  "stream_push s e = s\<lparr>rs_events := rs_events s @ [e]\<rparr>"

definition stream_drain :: "'v remote_stream \<Rightarrow> 'v remote_stream \<times> 'v remote_event list" where
  "stream_drain s = (s\<lparr>rs_events := []\<rparr>, rs_events s)"

definition stream_is_empty :: "'v remote_stream \<Rightarrow> bool" where
  "stream_is_empty s = (rs_events s = [])"

definition stream_len :: "'v remote_stream \<Rightarrow> nat" where
  "stream_len s = length (rs_events s)"

section \<open>Emission\<close>

record remote_metadata =
  md_source_partition :: partition_id
  md_source_uid :: uid
  md_source_version :: u64
  md_causal_frontier :: vector_clock

datatype 'v remote_payload =
    Payload_Value 'v remote_metadata
  | Payload_TypedZero zero_kind remote_metadata
  | Payload_Pending remote_metadata

fun payload_kind_of :: "'v remote_payload \<Rightarrow> payload_kind" where
  "payload_kind_of (Payload_Value v md) = Definite"
| "payload_kind_of (Payload_TypedZero k md) = TypedZero k"
| "payload_kind_of (Payload_Pending md) = Definite"

fun payload_metadata :: "'v remote_payload \<Rightarrow> remote_metadata" where
  "payload_metadata (Payload_Value v md) = md"
| "payload_metadata (Payload_TypedZero k md) = md"
| "payload_metadata (Payload_Pending md) = md"

definition emit ::
  "uid \<Rightarrow> u64 \<Rightarrow> 'v \<Rightarrow> zero_kind option \<Rightarrow> bool \<Rightarrow> partition_id \<Rightarrow> vector_clock \<Rightarrow> u64 \<Rightarrow> 'v remote_payload" where
  "emit u version v zk pending p clock boundary_time =
     (let md = \<lparr>md_source_partition = p, md_source_uid = u, md_source_version = version,
                md_causal_frontier = clock\<rparr> in
      if pending then Payload_Pending md
      else (case zk of Some k \<Rightarrow> Payload_TypedZero k md | None \<Rightarrow> Payload_Value v md))"

text \<open>
  \<open>emit\<close> chooses by two flags alone: pending wins over a zero kind, a zero kind over the
  value, and every form carries the same provenance.  The value is not inspected, so without a
  zero kind a raw \<open>Zero\<close> crosses as \<open>Value\<close> with payload kind \<open>Definite\<close>: the boundary
  invariant rests on the caller.
\<close>

theorem emit_decides:
  "payload_metadata (emit u ver v zk pend p vc bt) =
     \<lparr>md_source_partition = p, md_source_uid = u, md_source_version = ver, md_causal_frontier = vc\<rparr>
   \<and> (\<exists>md. emit u ver v zk True p vc bt = Payload_Pending md)
   \<and> (\<exists>md. emit u ver v (Some k) False p vc bt = Payload_TypedZero k md)
   \<and> (\<exists>md. emit u ver v None False p vc bt = Payload_Value v md)
   \<and> (payload_kind_of (emit u ver v zk pend p vc bt) = TypedZero k) = (\<not> pend \<and> zk = Some k)
   \<and> (\<exists>md. emit u ver Zero None False p vc bt = Payload_Value Zero md)
   \<and> payload_kind_of (emit u ver Zero None False p vc bt) = Definite"
  by (auto simp: emit_def Let_def split: option.splits)

end
