(* ===== verification/Graph_Store.thy ===== *)
theory Graph_Store
  imports Sensitivity
begin

text \<open>
  Attributes (\<^verbatim>\<open>core-rs/src/attr.rs\<close>), nodes and edges (\<^verbatim>\<open>core-rs/src/node.rs\<close>) and the
  persistent graph (\<^verbatim>\<open>core-rs/src/graph.rs\<close>).
\<close>

section \<open>Attributes\<close>

text \<open>\<open>Float\<close> carries the bits of an \<open>f64\<close>, \<open>Int\<close> those of an \<open>i64\<close>.\<close>

datatype attr_val = Val_Ternary T | Val_Int u64 | Val_Float u64 | Val_Text string | Val_Bool bool

definition as_ternary :: "attr_val \<Rightarrow> T option" where
  "as_ternary v = (case v of Val_Ternary t \<Rightarrow> Some t | _ \<Rightarrow> None)"

definition as_int :: "attr_val \<Rightarrow> u64 option" where
  "as_int v = (case v of Val_Int n \<Rightarrow> Some n | _ \<Rightarrow> None)"

type_synonym attrs = "string \<Rightarrow> attr_val option"

definition attrs_new :: attrs where "attrs_new = Map.empty"

definition attrs_get :: "attrs \<Rightarrow> string \<Rightarrow> attr_val option" where "attrs_get a k = a k"

definition attrs_set :: "attrs \<Rightarrow> string \<Rightarrow> attr_val \<Rightarrow> attrs" where "attrs_set a k v = a(k \<mapsto> v)"

definition attrs_ternary :: "attrs \<Rightarrow> string \<Rightarrow> T option" where
  "attrs_ternary a k = Option.bind (attrs_get a k) as_ternary"

definition reflect_ternary :: "attrs \<Rightarrow> attrs" where
  "reflect_ternary a = (\<lambda>k. map_option
     (\<lambda>v. case v of Val_Ternary t \<Rightarrow> Val_Ternary (mv_neg t) | _ \<Rightarrow> v) (a k))"

lemma reflect_ternary_twice: "reflect_ternary (reflect_ternary a) = a"
proof
  fix k
  show "reflect_ternary (reflect_ternary a) k = a k"
    by (cases "a k") (simp_all add: reflect_ternary_def t_mv.neg_neg split: attr_val.split)
qed

lemma reflect_ternary_get:
  "attrs_ternary (reflect_ternary a) k = map_option mv_neg (attrs_ternary a k)"
  by (cases "a k") (auto simp: attrs_ternary_def attrs_get_def reflect_ternary_def as_ternary_def
      split: attr_val.split)

section \<open>Nodes\<close>

record node =
  n_id :: uid
  n_typ :: string
  n_kind :: node_kind
  n_value :: T
  n_attrs :: attrs
  n_version :: u64

definition node_input :: "uid \<Rightarrow> string \<Rightarrow> node" where
  "node_input i ty = \<lparr>n_id = i, n_typ = ty, n_kind = Input, n_value = Neg,
     n_attrs = attrs_new, n_version = 0\<rparr>"

definition node_computed :: "uid \<Rightarrow> string \<Rightarrow> compute_rule \<Rightarrow> node" where
  "node_computed i ty r = \<lparr>n_id = i, n_typ = ty, n_kind = Computed r, n_value = Neg,
     n_attrs = attrs_new, n_version = 0\<rparr>"

definition node_set_value :: "node \<Rightarrow> T \<Rightarrow> node \<times> T" where
  "node_set_value n new =
     (let old = n_value n in
      (if new \<noteq> old then n\<lparr>n_value := new, n_version := n_version n + 1\<rparr> else n, old))"

text \<open>The result of \<open>self.attrs.reflect_ternary()\<close> is dropped by the code, here as there.\<close>

definition node_reflect_attrs :: "node \<Rightarrow> node" where
  "node_reflect_attrs n =
     (let dropped = reflect_ternary (n_attrs n) in n\<lparr>n_version := n_version n + 1\<rparr>)"

definition node_compute_rule :: "node \<Rightarrow> compute_rule option" where
  "node_compute_rule n = (case n_kind n of Computed r \<Rightarrow> Some r | Input \<Rightarrow> None)"

definition node_reflect :: "node \<Rightarrow> node \<times> T" where
  "node_reflect n =
     (let old = n_value n;
          n1 = n\<lparr>n_value := mv_neg (n_value n)\<rparr>;
          dropped = reflect_ternary (n_attrs n1)
      in (n1\<lparr>n_version := n_version n1 + 1\<rparr>, old))"

lemma node_set_value_frame [frame_simps]:
  "n_id (fst (node_set_value n v)) = n_id n" "n_kind (fst (node_set_value n v)) = n_kind n"
  "n_typ (fst (node_set_value n v)) = n_typ n" "n_attrs (fst (node_set_value n v)) = n_attrs n"
  "n_value (fst (node_set_value n v)) = v" "snd (node_set_value n v) = n_value n"
  by (simp_all add: node_set_value_def Let_def)

lemma node_reflect_frame [frame_simps]:
  "n_id (fst (node_reflect n)) = n_id n" "n_kind (fst (node_reflect n)) = n_kind n"
  "n_typ (fst (node_reflect n)) = n_typ n" "n_attrs (fst (node_reflect n)) = n_attrs n"
  "n_value (fst (node_reflect n)) = mv_neg (n_value n)" "snd (node_reflect n) = n_value n"
  by (simp_all add: node_reflect_def Let_def)

text \<open>
  The interpretation writes of a node: \<open>set_value\<close> returns the old value and bumps the
  version exactly when the value changes, \<open>reflect\<close> negates the value and always bumps, and no
  write touches the identity fields.  \<open>reflect\<close> leaves every attribute as it was, a ternary
  \<open>Pos\<close> included, although negating the attributes is what it is documented to do
  (\<open>reflect_ternary\<close> itself does negate, and is its own inverse).
\<close>

theorem node_writes:
  "node_set_value n v = (n\<lparr>n_value := v, n_version := n_version n + (if v = n_value n then 0 else 1)\<rparr>, n_value n)
   \<and> node_reflect n = (n\<lparr>n_value := mv_neg (n_value n), n_version := n_version n + 1\<rparr>, n_value n)
   \<and> n_value (fst (node_reflect (fst (node_reflect n)))) = n_value n
   \<and> n_attrs (fst (node_reflect n)) = n_attrs n \<and> n_attrs (node_reflect_attrs n) = n_attrs n
   \<and> attrs_ternary (reflect_ternary (n_attrs n)) k = map_option mv_neg (attrs_ternary (n_attrs n) k)
   \<and> reflect_ternary (reflect_ternary (n_attrs n)) = n_attrs n"
  by (simp add: node_set_value_def node_reflect_def node_reflect_attrs_def Let_def t_mv.neg_neg
      reflect_ternary_get reflect_ternary_twice)

section \<open>Edges\<close>

record edge =
  e_id :: uid
  e_typ :: string
  e_src :: uid
  e_tgt :: uid
  e_dep :: dep_kind
  e_attrs :: attrs

definition edge_new :: "uid \<Rightarrow> string \<Rightarrow> uid \<Rightarrow> uid \<Rightarrow> edge" where
  "edge_new i ty s t = \<lparr>e_id = i, e_typ = ty, e_src = s, e_tgt = t, e_dep = Local None,
     e_attrs = attrs_new\<rparr>"

definition edge_with_port :: "edge \<Rightarrow> port \<Rightarrow> edge" where
  "edge_with_port e p = e\<lparr>e_dep := Local (Some p)\<rparr>"

definition edge_port_kind :: "edge \<Rightarrow> port_kind" where
  "edge_port_kind e = dep_port_kind (e_dep e)"

definition edge_port_name :: "edge \<Rightarrow> string option" where
  "edge_port_name e = dep_port_name (e_dep e)"

definition edge_is_remote :: "edge \<Rightarrow> bool" where
  "edge_is_remote e = dep_is_remote (e_dep e)"

section \<open>The graph\<close>

record graph =
  nodes :: "(uid, node) amap"
  edges :: "(uid, edge) amap"

definition graph_new :: graph where
  "graph_new = \<lparr>nodes = [], edges = []\<rparr>"

definition add_node :: "graph \<Rightarrow> node \<Rightarrow> graph" where
  "add_node g n = g\<lparr>nodes := aput (n_id n) n (nodes g)\<rparr>"

definition remove_node :: "graph \<Rightarrow> uid \<Rightarrow> graph \<times> node option" where
  "remove_node g i = (g\<lparr>nodes := adel i (nodes g)\<rparr>, aget (nodes g) i)"

definition graph_node :: "graph \<Rightarrow> uid \<Rightarrow> node option" where
  "graph_node g i = aget (nodes g) i"

text \<open>\<open>node_mut\<close>: the caller's write through the reference, when there is one.\<close>

definition node_mut :: "graph \<Rightarrow> uid \<Rightarrow> (node \<Rightarrow> node) \<Rightarrow> graph" where
  "node_mut g i f = g\<lparr>nodes := amod i f (nodes g)\<rparr>"

definition add_edge :: "graph \<Rightarrow> edge \<Rightarrow> graph" where
  "add_edge g e = g\<lparr>edges := aput (e_id e) e (edges g)\<rparr>"

definition remove_edge :: "graph \<Rightarrow> uid \<Rightarrow> graph \<times> edge option" where
  "remove_edge g i = (g\<lparr>edges := adel i (edges g)\<rparr>, aget (edges g) i)"

definition graph_edge :: "graph \<Rightarrow> uid \<Rightarrow> edge option" where
  "graph_edge g i = aget (edges g) i"

definition edges_from :: "graph \<Rightarrow> uid \<Rightarrow> edge list" where
  "edges_from g s = filter (\<lambda>e. e_src e = s) (map snd (edges g))"

definition edges_to :: "graph \<Rightarrow> uid \<Rightarrow> edge list" where
  "edges_to g t = filter (\<lambda>e. e_tgt e = t) (map snd (edges g))"

definition dangling_edges :: "graph \<Rightarrow> uid \<Rightarrow> uid list" where
  "dangling_edges g i =
     sort (map e_id (filter (\<lambda>e. e_src e = i \<or> e_tgt e = i) (map snd (edges g))))"

definition snapshot :: "graph \<Rightarrow> graph" where "snapshot g = g"
definition node_count :: "graph \<Rightarrow> nat" where "node_count g = length (nodes g)"
definition edge_count :: "graph \<Rightarrow> nat" where "edge_count g = length (edges g)"

text \<open>Keys are the ids of what they hold; this is what the insertions establish.\<close>

definition graph_wf :: "graph \<Rightarrow> bool" where
  "graph_wf g \<longleftrightarrow> awf (nodes g) \<and> awf (edges g)
     \<and> (\<forall>i n. graph_node g i = Some n \<longrightarrow> n_id n = i)
     \<and> (\<forall>i e. graph_edge g i = Some e \<longrightarrow> e_id e = i)"

lemma graph_wf_new [simp]: "graph_wf graph_new"
  by (simp add: graph_wf_def graph_new_def graph_node_def graph_edge_def)

lemma graph_wf_ops:
  assumes "graph_wf g"
  shows "graph_wf (add_node g n)" "graph_wf (add_edge g e)" "graph_wf (fst (remove_node g i))"
    "graph_wf (fst (remove_edge g i))" "(\<And>m. n_id (f m) = n_id m) \<Longrightarrow> graph_wf (node_mut g i f)"
  using assms by (auto simp: graph_wf_def add_node_def add_edge_def remove_node_def remove_edge_def
      node_mut_def graph_node_def graph_edge_def split: if_splits)

lemma graph_node_simps [simp]:
  "graph_node (add_node g n) i = (if i = n_id n then Some n else graph_node g i)"
  "graph_node (fst (remove_node g j)) i = (if i = j then None else graph_node g i)"
  "graph_node (node_mut g j f) i = (if i = j then map_option f (graph_node g i) else graph_node g i)"
  "graph_node (add_edge g e) i = graph_node g i"
  "graph_node (fst (remove_edge g j)) i = graph_node g i"
  by (simp_all add: graph_node_def add_node_def remove_node_def node_mut_def add_edge_def remove_edge_def)

lemma graph_edge_simps [simp]:
  "graph_edge (add_node g n) i = graph_edge g i"
  "graph_edge (fst (remove_node g j)) i = graph_edge g i"
  "graph_edge (node_mut g j f) i = graph_edge g i"
  "graph_edge (add_edge g e) i = (if i = e_id e then Some e else graph_edge g i)"
  "graph_edge (fst (remove_edge g j)) i = (if i = j then None else graph_edge g i)"
  by (simp_all add: graph_edge_def add_node_def remove_node_def node_mut_def add_edge_def remove_edge_def)

lemma set_edges:
  assumes "graph_wf g"
  shows "(e \<in> snd ` set (edges g)) = (graph_edge g (e_id e) = Some e)"
proof
  assume "e \<in> snd ` set (edges g)"
  then obtain k where "(k, e) \<in> set (edges g)" by auto
  with assms show "graph_edge g (e_id e) = Some e"
    by (auto simp: graph_wf_def graph_edge_def aget_in_set)
next
  assume "graph_edge g (e_id e) = Some e"
  then show "e \<in> snd ` set (edges g)"
    by (force simp: graph_edge_def dest: aget_SomeD)
qed

lemma set_dangling:
  assumes "graph_wf g"
  shows "(x \<in> set (dangling_edges g i)) =
    (\<exists>e. graph_edge g x = Some e \<and> (e_src e = i \<or> e_tgt e = i))"
proof
  assume "x \<in> set (dangling_edges g i)"
  then obtain e where e: "e \<in> snd ` set (edges g)" "e_id e = x" "e_src e = i \<or> e_tgt e = i"
    by (auto simp: dangling_edges_def)
  then show "\<exists>e. graph_edge g x = Some e \<and> (e_src e = i \<or> e_tgt e = i)"
    using set_edges[OF assms, of e] by auto
next
  assume "\<exists>e. graph_edge g x = Some e \<and> (e_src e = i \<or> e_tgt e = i)"
  then obtain e where e: "graph_edge g x = Some e" "e_src e = i \<or> e_tgt e = i" by blast
  have "e_id e = x" using assms e(1) by (simp add: graph_wf_def)
  with e set_edges[OF assms, of e] have "e \<in> snd ` set (edges g)" by simp
  with e(2) \<open>e_id e = x\<close> show "x \<in> set (dangling_edges g i)"
    by (auto simp: dangling_edges_def)
qed

lemma distinct_dangling: "graph_wf g \<Longrightarrow> distinct (dangling_edges g i)"
proof -
  assume wf: "graph_wf g"
  have ids: "map (e_id \<circ> snd) (edges g) = map fst (edges g)"
    using wf by (auto simp: graph_wf_def graph_edge_def aget_in_set)
  have "distinct (map (e_id \<circ> snd) (edges g))"
    unfolding ids using wf by (simp add: graph_wf_def awf_def)
  then have "distinct (map e_id (map snd (edges g)))"
    by simp
  then show ?thesis
    by (simp add: dangling_edges_def distinct_map_filter)
qed

lemma sorted_dangling: "sorted (dangling_edges g i)"
  by (simp add: dangling_edges_def)

text \<open>
  Admissibility of node removal (the dangling edge condition): \<open>dangling_edges\<close> returns
  exactly the ids of the edges that touch the node, once each and in ascending order whatever
  order the hash map iterates in; removing them all leaves no edge that mentions the node and no
  other edge changed.
\<close>

theorem dangling_edges_exact:
  assumes "graph_wf g"
  shows "(x \<in> set (dangling_edges g i)) =
      (\<exists>e. graph_edge g x = Some e \<and> (e_src e = i \<or> e_tgt e = i))
    \<and> sorted (dangling_edges g i) \<and> distinct (dangling_edges g i)
    \<and> dangling_edges (fold (\<lambda>x g. fst (remove_edge g x)) (dangling_edges g i) g) i = []
    \<and> graph_edge (fold (\<lambda>x g. fst (remove_edge g x)) (dangling_edges g i) g) x =
        (if x \<in> set (dangling_edges g i) then None else graph_edge g x)"
proof -
  have del: "graph_edge (fold (\<lambda>x g. fst (remove_edge g x)) xs h) y =
      (if y \<in> set xs then None else graph_edge h y)" for xs h y
    by (induction xs arbitrary: h) auto
  have wf: "graph_wf (fold (\<lambda>x g. fst (remove_edge g x)) xs h)" if "graph_wf h" for xs h
    using that by (induction xs arbitrary: h) (simp_all add: graph_wf_ops)
  have "y \<notin> set (dangling_edges (fold (\<lambda>x g. fst (remove_edge g x)) (dangling_edges g i) g) i)" for y
    using set_dangling[OF wf[OF assms], where i=i] set_dangling[OF assms, where i=i]
    by (auto simp: del)
  then have "dangling_edges (fold (\<lambda>x g. fst (remove_edge g x)) (dangling_edges g i) g) i = []"
    by (metis list.set_intros(1) list.exhaust)
  then show ?thesis
    using set_dangling[OF assms] distinct_dangling[OF assms] del sorted_dangling
    by blast
qed

theorem dangling_edges_exact_witness:
  "graph_wf (add_edge (add_edge graph_new (edge_new 9 ''dep'' 1 2)) (edge_new 4 ''dep'' 2 3))
   \<and> dangling_edges (add_edge (add_edge graph_new (edge_new 9 ''dep'' 1 2)) (edge_new 4 ''dep'' 2 3)) 2 = [4, 9]
   \<and> distinct (dangling_edges (add_edge (add_edge graph_new (edge_new 9 ''dep'' 1 2)) (edge_new 4 ''dep'' 2 3)) 2)"
proof -
  have wf: "graph_wf (add_edge (add_edge graph_new (edge_new 9 ''dep'' 1 2)) (edge_new 4 ''dep'' 2 3))"
    by (simp add: graph_wf_ops)
  show ?thesis
    using wf dangling_edges_exact[OF wf, of 4 2]
    by (simp add: dangling_edges_def add_edge_def graph_new_def edge_new_def aput_def)
qed

end
