(* ===== verification/Deps.thy ===== *)
theory Deps
  imports Graph_Store
begin

text \<open>
  The subscription registry of \<^verbatim>\<open>core-rs/src/deps.rs\<close>: per-subscriber value counters, per-edge
  observability metadata with the propagation gate, and the two-sided dependency maps with the
  ordered dependency lists, their dense indices and the adjacency epochs.  The locale
  \<open>two_sided\<close> is the contract that keeps the upstream and downstream maps each other's converse.
\<close>

section \<open>Value counters\<close>

record dep_counters =
  neg_count :: u32
  zero_count :: u32
  pos_count :: u32

definition counters_default :: dep_counters where
  "counters_default = \<lparr>neg_count = 0, zero_count = 0, pos_count = 0\<rparr>"

definition counters_total :: "dep_counters \<Rightarrow> u32" where
  "counters_total c = neg_count c + zero_count c + pos_count c"

definition eval_aggregate :: "dep_counters \<Rightarrow> T" where
  "eval_aggregate c = (if zero_count c > 0 then Zero else if neg_count c > 0 then Neg else Pos)"

definition counters_add :: "dep_counters \<Rightarrow> T \<Rightarrow> dep_counters" where
  "counters_add c v = (case v of
      Neg \<Rightarrow> c\<lparr>neg_count := neg_count c + 1\<rparr>
    | Zero \<Rightarrow> c\<lparr>zero_count := zero_count c + 1\<rparr>
    | Pos \<Rightarrow> c\<lparr>pos_count := pos_count c + 1\<rparr>)"

definition counters_remove :: "dep_counters \<Rightarrow> T \<Rightarrow> dep_counters" where
  "counters_remove c v = (case v of
      Neg \<Rightarrow> c\<lparr>neg_count := sat_dec (neg_count c)\<rparr>
    | Zero \<Rightarrow> c\<lparr>zero_count := sat_dec (zero_count c)\<rparr>
    | Pos \<Rightarrow> c\<lparr>pos_count := sat_dec (pos_count c)\<rparr>)"

definition counters_update :: "dep_counters \<Rightarrow> T \<Rightarrow> T \<Rightarrow> dep_counters" where
  "counters_update c old new = (if old = new then c else counters_add (counters_remove c old) new)"

fun bucket :: "dep_counters \<Rightarrow> T \<Rightarrow> u32" where
  "bucket c Neg = neg_count c"
| "bucket c Zero = zero_count c"
| "bucket c Pos = pos_count c"

text \<open>The values a counter stands for, as a list; the counter only sees how often each occurs.\<close>

definition counts :: "dep_counters \<Rightarrow> T list \<Rightarrow> bool" where
  "counts c vs \<longleftrightarrow> (\<forall>v. unat (bucket c v) = count_list vs v)"

lemma bucket_add: "bucket (counters_add c v) w = (if w = v then bucket c v + 1 else bucket c w)"
  by (cases v; cases w) (simp_all add: counters_add_def)

lemma bucket_remove: "bucket (counters_remove c v) w = (if w = v then sat_dec (bucket c v) else bucket c w)"
  by (cases v; cases w) (simp_all add: counters_remove_def)

lemma unat_Suc_bounded: "unat w + 1 < 2 ^ LENGTH('a) \<Longrightarrow> unat ((w :: 'a::len word) + 1) = unat w + 1"
  by (metis Suc_eq_plus1 add.commute unatSuc unat_plus_simple word_neq_max_Suc word_plus_one_less
      not_less word_n1_ge order_le_less)

lemma counts_add:
  assumes "counts c vs" "length vs + 1 < 2 ^ 32"
  shows "counts (counters_add c v) (vs @ [v])"
proof -
  have "unat (bucket c v) + 1 < 2 ^ LENGTH(32)"
    using assms count_le_length[of vs v] by (simp add: counts_def)
  then show ?thesis
    using assms(1) by (simp add: counts_def bucket_add unat_Suc_bounded)
qed

lemma count_list_remove1: "count_list (remove1 x vs) v = count_list vs v - (if v = x then 1 else 0)"
proof (induction vs)
  case (Cons y ys)
  then show ?case
    by (cases "x = y"; cases "v = x") (auto simp: Suc_diff_le count_list_0_iff)
qed simp

lemma counts_remove: "counts c vs \<Longrightarrow> counts (counters_remove c v) (remove1 v vs)"
  by (simp add: counts_def bucket_remove unat_sat_dec count_list_remove1)

lemma counts_update:
  assumes "counts c vs" "old \<in> set vs" "length vs < 2 ^ 32"
  shows "counts (counters_update c old new) (remove1 old vs @ [new])"
proof (cases "old = new")
  case True
  have "count_list (remove1 new vs @ [new]) v = count_list vs v" for v
    using count_list_0_iff[of vs old] assms(2) True by (auto simp: count_list_remove1)
  with True assms(1) show ?thesis by (simp add: counters_update_def counts_def)
next
  case False
  have "length (remove1 old vs) + 1 < 2 ^ 32"
    using assms(2,3) by (simp add: length_remove1 length_pos_if_in_set)
  then show ?thesis
    using False counts_add[OF counts_remove[OF assms(1)]] by (simp add: counters_update_def)
qed

lemma counts_default: "counts counters_default []"
  unfolding counts_def
proof
  show "unat (bucket counters_default v) = count_list [] v" for v
    by (cases v) (simp_all add: counters_default_def)
qed

text \<open>The value a subscriber takes for each propagation state.\<close>

fun state_value :: "prop_state \<Rightarrow> T" where
  "state_value Ready = Pos"
| "state_value Pending = Neg"
| "state_value Conflicted = Zero"

lemma aggregate_of_counts:
  assumes "counts c vs"
  shows "eval_aggregate c = (if Zero \<in> set vs then Zero else if Neg \<in> set vs then Neg else Pos)"
proof -
  have "(bucket c v > 0) = (v \<in> set vs)" for v
    using assms by (simp add: counts_def word_greater_zero_iff unat_gt_0[symmetric] count_list_0_iff
        flip: neq0_conv)
  from this[of Zero] this[of Neg] show ?thesis by (simp add: eval_aggregate_def)
qed

lemma dep_counters_aggregate:
  "counts c vs \<Longrightarrow> length vs + 1 < 2 ^ 32 \<Longrightarrow> eval_aggregate c = state_value (propagation_state vs)"
  by (simp add: aggregate_of_counts propagation_state_scan)

text \<open>
  C38. The incremental counters refine the dependency list they summarise: adding, removing and
  updating one dependency keeps \<open>neg/zero/pos\<close> equal to the number of dependencies with that
  value, \<open>total\<close> is their number, and \<open>eval_aggregate\<close> answers what a full
  \<open>propagation_state\<close> scan of the dependencies would, in constant time.
\<close>

theorem dep_counters_refine:
  assumes "counts c vs" "length vs + 1 < 2 ^ 32"
  shows "counts counters_default []
    \<and> counts (counters_add c v) (vs @ [v])
    \<and> counts (counters_remove c v) (remove1 v vs)
    \<and> (v \<in> set vs \<longrightarrow> counts (counters_update c v w) (remove1 v vs @ [w]))
    \<and> unat (counters_total c) = length vs
    \<and> eval_aggregate c = state_value (propagation_state vs)"
proof -
  have sum: "count_list vs Neg + count_list vs Zero + count_list vs Pos = length vs"
  proof (induction vs)
    case (Cons x xs)
    then show ?case by (cases x) simp_all
  qed simp
  have "unat (neg_count c) = count_list vs Neg" "unat (zero_count c) = count_list vs Zero"
    "unat (pos_count c) = count_list vs Pos"
    using assms(1) by (metis counts_def bucket.simps)+
  then have "unat (counters_total c) = length vs"
    using sum assms(2) by (simp add: counters_total_def unat_word_ariths)
  moreover have "eval_aggregate c = state_value (propagation_state vs)"
    using assms by (rule dep_counters_aggregate)
  ultimately show ?thesis
    using counts_default counts_add[OF assms] counts_remove[OF assms(1)]
      counts_update[OF assms(1), of v w] assms(2) by simp
qed

theorem dep_counters_refine_witness:
  "counts \<lparr>neg_count = 1, zero_count = 0, pos_count = 2\<rparr> [Pos, Neg, Pos]
   \<and> eval_aggregate \<lparr>neg_count = 1, zero_count = 0, pos_count = 2\<rparr> = Neg
   \<and> counts (counters_update \<lparr>neg_count = 1, zero_count = 0, pos_count = 2\<rparr> Neg Zero) [Pos, Pos, Zero]"
proof -
  have c: "counts \<lparr>neg_count = 1, zero_count = 0, pos_count = 2\<rparr> [Pos, Neg, Pos]"
    unfolding counts_def
  proof
    show "unat (bucket \<lparr>neg_count = 1, zero_count = 0, pos_count = 2\<rparr> v) = count_list [Pos, Neg, Pos] v" for v
      by (cases v) simp_all
  qed
  show ?thesis
    using dep_counters_refine[OF c, of Neg Zero] c by simp
qed

section \<open>Edge metadata and the propagation gate\<close>

record dep_meta =
  dm_since :: product_time
  dm_until :: "frontier option"
  dm_label :: compiled_edge_label
  dm_sensitivity :: sensitivity
  dm_last_seen :: product_time

definition dep_meta_default :: dep_meta where
  "dep_meta_default = \<lparr>dm_since = TIME_ZERO, dm_until = None, dm_label = compiled_permissive,
     dm_sensitivity = Exact, dm_last_seen = TIME_ZERO\<rparr>"

definition dep_meta_new :: "compiled_edge_label \<Rightarrow> sensitivity \<Rightarrow> dep_meta" where
  "dep_meta_new l s = dep_meta_default\<lparr>dm_label := l, dm_sensitivity := s\<rparr>"

definition dep_meta_from_label :: "edge_label \<Rightarrow> sensitivity \<Rightarrow> dep_meta" where
  "dep_meta_from_label l s = dep_meta_default\<lparr>dm_label := label_compile l, dm_sensitivity := s\<rparr>"

definition is_active_at :: "dep_meta \<Rightarrow> product_time \<Rightarrow> bool" where
  "is_active_at m t \<longleftrightarrow> time_dominates t (dm_since m)
     \<and> (case dm_until m of None \<Rightarrow> True | Some u \<Rightarrow> \<not> frontier_dominates u t)"

definition should_propagate :: "dep_meta \<Rightarrow> product_time \<Rightarrow> bool" where
  "should_propagate m t =
     list_ex (\<lambda>d. dims_contains (pm_dims (projection_mask (dm_label m))) d
                \<and> time_get (dm_last_seen m) d < time_get t d)
       [Identity, Attribute, Dependency, Egraph, Boundary]"

lemma should_propagate_iff:
  "should_propagate m t = (\<exists>d. dims_contains (pm_dims (projection_mask (dm_label m))) d
     \<and> time_get (dm_last_seen m) d < time_get t d)" (is "_ = (\<exists>d. ?P d)")
proof
  assume "\<exists>d. ?P d"
  then obtain d where "?P d" ..
  then show "should_propagate m t" by (cases d) (simp_all add: should_propagate_def)
qed (auto simp: should_propagate_def)

section \<open>The registry\<close>

record dep_registry =
  dr_deps :: "uid \<Rightarrow> uid set option"
  dr_subs :: "uid \<Rightarrow> uid set option"
  dr_modes :: "uid \<Rightarrow> exec_mode option"
  dr_ordered :: "uid \<Rightarrow> uid list option"
  dr_indices :: "uid \<Rightarrow> u32 list option"
  dr_meta :: "uid \<times> uid \<Rightarrow> dep_meta option"
  dr_epochs :: "uid \<Rightarrow> u64 option"
  dr_epoch_counter :: u64
  dr_counters :: "uid \<Rightarrow> dep_counters option"

definition registry_empty :: dep_registry where
  "registry_empty = \<lparr>dr_deps = Map.empty, dr_subs = Map.empty, dr_modes = Map.empty,
     dr_ordered = Map.empty, dr_indices = Map.empty, dr_meta = Map.empty, dr_epochs = Map.empty,
     dr_epoch_counter = 0, dr_counters = Map.empty\<rparr>"

definition or_default :: "'a \<Rightarrow> 'a option \<Rightarrow> 'a" where
  "or_default d x = (case x of None \<Rightarrow> d | Some v \<Rightarrow> v)"

lemma or_default_simps [simp]: "or_default d None = d" "or_default d (Some v) = v"
  by (simp_all add: or_default_def)

lemma or_default_minus [simp]: "or_default {} (map_option (\<lambda>d. d - A) x) = or_default {} x - A"
  by (cases x) simp_all

lemma position_mem: "position v xs = Some i \<Longrightarrow> v \<in> set xs"
  by (metis option.distinct(1) position_None)

definition bump_epoch :: "dep_registry \<Rightarrow> uid \<Rightarrow> dep_registry" where
  "bump_epoch r n = (let e = dr_epoch_counter r + 1 in
     r\<lparr>dr_epoch_counter := e, dr_epochs := (dr_epochs r)(n \<mapsto> e)\<rparr>)"

definition adj_epoch :: "dep_registry \<Rightarrow> uid \<Rightarrow> u64" where
  "adj_epoch r n = or_default 0 (dr_epochs r n)"

definition max_epoch_for_nodes :: "dep_registry \<Rightarrow> uid list \<Rightarrow> u64" where
  "max_epoch_for_nodes r ns =
     (case map (adj_epoch r) ns of [] \<Rightarrow> 0 | e # es \<Rightarrow> fold max es e)"

definition subscribe_with_meta :: "dep_registry \<Rightarrow> uid \<Rightarrow> uid \<Rightarrow> dep_meta \<Rightarrow> dep_registry" where
  "subscribe_with_meta r src sub m =
     (let r1 = r\<lparr>dr_deps := (dr_deps r)(sub \<mapsto> insert src (or_default {} (dr_deps r sub)))\<rparr>;
          r2 = r1\<lparr>dr_subs := (dr_subs r1)(src \<mapsto> insert sub (or_default {} (dr_subs r1 src)))\<rparr>;
          r3 = r2\<lparr>dr_ordered := (dr_ordered r2)(sub \<mapsto> or_default [] (dr_ordered r2 sub) @ [src])\<rparr>;
          r4 = r3\<lparr>dr_meta := (dr_meta r3)((src, sub) \<mapsto> m)\<rparr>
      in bump_epoch (bump_epoch r4 src) sub)"

definition registry_subscribe :: "dep_registry \<Rightarrow> uid \<Rightarrow> uid \<Rightarrow> dep_registry" where
  "registry_subscribe r src sub = subscribe_with_meta r src sub dep_meta_default"

definition subscribe_indexed ::
  "dep_registry \<Rightarrow> uid \<Rightarrow> uid \<Rightarrow> u32 \<Rightarrow> dep_meta \<Rightarrow> dep_registry" where
  "subscribe_indexed r src sub dense m =
     (let r1 = r\<lparr>dr_deps := (dr_deps r)(sub \<mapsto> insert src (or_default {} (dr_deps r sub)))\<rparr>;
          r2 = r1\<lparr>dr_subs := (dr_subs r1)(src \<mapsto> insert sub (or_default {} (dr_subs r1 src)))\<rparr>;
          r3 = r2\<lparr>dr_ordered := (dr_ordered r2)(sub \<mapsto> or_default [] (dr_ordered r2 sub) @ [src])\<rparr>;
          r4 = r3\<lparr>dr_indices := (dr_indices r3)(sub \<mapsto> or_default [] (dr_indices r3 sub) @ [dense])\<rparr>;
          r5 = r4\<lparr>dr_meta := (dr_meta r4)((src, sub) \<mapsto> m)\<rparr>
      in bump_epoch (bump_epoch r5 src) sub)"

text \<open>The removal by position shared by \<open>unsubscribe\<close> and \<open>remove_node\<close>.\<close>

definition drop_dep_entry :: "dep_registry \<Rightarrow> uid \<Rightarrow> uid \<Rightarrow> dep_registry" where
  "drop_dep_entry r src sub =
     (case dr_ordered r sub of
        None \<Rightarrow> r
      | Some od \<Rightarrow>
          (case position src od of
             None \<Rightarrow> r
           | Some i \<Rightarrow>
               (let r1 = r\<lparr>dr_ordered := (dr_ordered r)(sub \<mapsto> remove_at i od)\<rparr> in
                case dr_indices r1 sub of
                  None \<Rightarrow> r1
                | Some odi \<Rightarrow>
                    if i < length odi
                    then r1\<lparr>dr_indices := (dr_indices r1)(sub \<mapsto> remove_at i odi)\<rparr>
                    else r1)))"

definition unsubscribe :: "dep_registry \<Rightarrow> uid \<Rightarrow> uid \<Rightarrow> dep_registry" where
  "unsubscribe r src sub =
     (let r1 = r\<lparr>dr_deps := (dr_deps r)(sub := map_option (\<lambda>d. d - {src}) (dr_deps r sub))\<rparr>;
          r2 = r1\<lparr>dr_subs := (dr_subs r1)(src := map_option (\<lambda>s. s - {sub}) (dr_subs r1 src))\<rparr>;
          r3 = drop_dep_entry r2 src sub;
          r4 = r3\<lparr>dr_meta := (dr_meta r3)((src, sub) := None)\<rparr>
      in bump_epoch (bump_epoch r4 src) sub)"

definition drop_downstream :: "dep_registry \<Rightarrow> uid \<Rightarrow> uid \<Rightarrow> dep_registry" where
  "drop_downstream r i sub =
     (let r1 = r\<lparr>dr_deps := (dr_deps r)(sub := map_option (\<lambda>d. d - {i}) (dr_deps r sub))\<rparr>;
          r2 = drop_dep_entry r1 i sub
      in r2\<lparr>dr_meta := (dr_meta r2)((i, sub) := None)\<rparr>)"

definition registry_remove_node :: "dep_registry \<Rightarrow> uid \<Rightarrow> dep_registry" where
  "registry_remove_node r i =
     (let upstream = sorted_uids (or_default {} (dr_deps r i));
          r1 = fold (\<lambda>src r. unsubscribe r src i) upstream r;
          downstream = sorted_uids (or_default {} (dr_subs r1 i));
          r2 = fold (\<lambda>sub r. drop_downstream r i sub) downstream r1;
          r3 = r2\<lparr>dr_deps := (dr_deps r2)(i := None), dr_subs := (dr_subs r2)(i := None),
                 dr_modes := (dr_modes r2)(i := None), dr_ordered := (dr_ordered r2)(i := None),
                 dr_indices := (dr_indices r2)(i := None), dr_counters := (dr_counters r2)(i := None)\<rparr>
      in bump_epoch r3 i)"

section \<open>Queries and updates\<close>

definition deps_of :: "dep_registry \<Rightarrow> uid \<Rightarrow> uid set" where
  "deps_of r i = or_default {} (dr_deps r i)"

definition ordered_deps_of :: "dep_registry \<Rightarrow> uid \<Rightarrow> uid list" where
  "ordered_deps_of r i = or_default [] (dr_ordered r i)"

definition ordered_dep_indices_of :: "dep_registry \<Rightarrow> uid \<Rightarrow> u32 list" where
  "ordered_dep_indices_of r i = or_default [] (dr_indices r i)"

definition subs_of :: "dep_registry \<Rightarrow> uid \<Rightarrow> uid set" where
  "subs_of r i = or_default {} (dr_subs r i)"

definition mode_of :: "dep_registry \<Rightarrow> uid \<Rightarrow> exec_mode" where
  "mode_of r i = or_default Eager (dr_modes r i)"

definition set_mode :: "dep_registry \<Rightarrow> uid \<Rightarrow> exec_mode \<Rightarrow> dep_registry" where
  "set_mode r i m = r\<lparr>dr_modes := (dr_modes r)(i \<mapsto> m)\<rparr>"

definition has_deps :: "dep_registry \<Rightarrow> uid \<Rightarrow> bool" where
  "has_deps r i = or_default False (map_option (\<lambda>s. s \<noteq> {}) (dr_deps r i))"

definition has_subs :: "dep_registry \<Rightarrow> uid \<Rightarrow> bool" where
  "has_subs r i = or_default False (map_option (\<lambda>s. s \<noteq> {}) (dr_subs r i))"

definition subs_vec :: "dep_registry \<Rightarrow> uid \<Rightarrow> uid list" where
  "subs_vec r i = sorted_uids (or_default {} (dr_subs r i))"

definition dep_meta_of :: "dep_registry \<Rightarrow> uid \<Rightarrow> uid \<Rightarrow> dep_meta option" where
  "dep_meta_of r src sub = dr_meta r (src, sub)"

definition compiled_label_of :: "dep_registry \<Rightarrow> uid \<Rightarrow> uid \<Rightarrow> compiled_edge_label" where
  "compiled_label_of r src sub = or_default compiled_permissive (map_option dm_label (dr_meta r (src, sub)))"

definition set_compiled_label :: "dep_registry \<Rightarrow> uid \<Rightarrow> uid \<Rightarrow> compiled_edge_label \<Rightarrow> dep_registry" where
  "set_compiled_label r src sub l =
     r\<lparr>dr_meta := (dr_meta r)((src, sub) := map_option (\<lambda>m. m\<lparr>dm_label := l\<rparr>) (dr_meta r (src, sub)))\<rparr>"

definition update_last_seen :: "dep_registry \<Rightarrow> uid \<Rightarrow> uid \<Rightarrow> product_time \<Rightarrow> dep_registry" where
  "update_last_seen r src sub t =
     r\<lparr>dr_meta := (dr_meta r)((src, sub) :=
        map_option (\<lambda>m. m\<lparr>dm_last_seen := time_join (dm_last_seen m) t\<rparr>) (dr_meta r (src, sub)))\<rparr>"

definition active_subs_for :: "dep_registry \<Rightarrow> uid \<Rightarrow> product_time \<Rightarrow> uid list" where
  "active_subs_for r src t =
     filter (\<lambda>sub. case dr_meta r (src, sub) of None \<Rightarrow> True | Some m \<Rightarrow> is_active_at m t) (subs_vec r src)"

definition dep_counter_of :: "dep_registry \<Rightarrow> uid \<Rightarrow> dep_counters option" where
  "dep_counter_of r i = dr_counters r i"

definition add_dep_to_counter :: "dep_registry \<Rightarrow> uid \<Rightarrow> T \<Rightarrow> dep_registry" where
  "add_dep_to_counter r sub v =
     r\<lparr>dr_counters := (dr_counters r)(sub \<mapsto> counters_add (or_default counters_default (dr_counters r sub)) v)\<rparr>"

definition remove_dep_from_counter :: "dep_registry \<Rightarrow> uid \<Rightarrow> T \<Rightarrow> dep_registry" where
  "remove_dep_from_counter r sub v =
     r\<lparr>dr_counters := (dr_counters r)(sub := map_option (\<lambda>c. counters_remove c v) (dr_counters r sub))\<rparr>"

definition update_dep_counter :: "dep_registry \<Rightarrow> uid \<Rightarrow> T \<Rightarrow> T \<Rightarrow> dep_registry" where
  "update_dep_counter r sub old new =
     r\<lparr>dr_counters := (dr_counters r)(sub := map_option (\<lambda>c. counters_update c old new) (dr_counters r sub))\<rparr>"

section \<open>What each operation does to each map\<close>

lemmas registry_queries = deps_of_def subs_of_def ordered_deps_of_def ordered_dep_indices_of_def
  dep_meta_of_def

lemma registry_empty_queries [simp]:
  "deps_of registry_empty c = {}" "subs_of registry_empty c = {}"
  "ordered_deps_of registry_empty c = []" "ordered_dep_indices_of registry_empty c = []"
  "dep_meta_of registry_empty x y = None"
  by (simp_all add: registry_empty_def registry_queries)

lemma bump_epoch_frame [simp]:
  "dr_deps (bump_epoch r n) = dr_deps r" "dr_subs (bump_epoch r n) = dr_subs r"
  "dr_modes (bump_epoch r n) = dr_modes r" "dr_ordered (bump_epoch r n) = dr_ordered r"
  "dr_indices (bump_epoch r n) = dr_indices r" "dr_meta (bump_epoch r n) = dr_meta r"
  "dr_counters (bump_epoch r n) = dr_counters r"
  "dr_epoch_counter (bump_epoch r n) = dr_epoch_counter r + 1"
  "dr_epochs (bump_epoch r n) = (dr_epochs r)(n \<mapsto> dr_epoch_counter r + 1)"
  by (simp_all add: bump_epoch_def Let_def)

lemma drop_dep_entry_frame [simp]:
  "dr_deps (drop_dep_entry r a b) = dr_deps r" "dr_subs (drop_dep_entry r a b) = dr_subs r"
  "dr_modes (drop_dep_entry r a b) = dr_modes r" "dr_meta (drop_dep_entry r a b) = dr_meta r"
  "dr_counters (drop_dep_entry r a b) = dr_counters r" "dr_epochs (drop_dep_entry r a b) = dr_epochs r"
  "dr_epoch_counter (drop_dep_entry r a b) = dr_epoch_counter r"
  by (simp_all add: drop_dep_entry_def Let_def split: option.split)

lemma subscribe_queries [simp]:
  "deps_of (subscribe_indexed r a b d m) c = (if c = b then insert a (deps_of r c) else deps_of r c)"
  "subs_of (subscribe_indexed r a b d m) c = (if c = a then insert b (subs_of r c) else subs_of r c)"
  "ordered_deps_of (subscribe_indexed r a b d m) c =
     (if c = b then ordered_deps_of r c @ [a] else ordered_deps_of r c)"
  "ordered_dep_indices_of (subscribe_indexed r a b d m) c =
     (if c = b then ordered_dep_indices_of r c @ [d] else ordered_dep_indices_of r c)"
  "deps_of (subscribe_with_meta r a b m) c = (if c = b then insert a (deps_of r c) else deps_of r c)"
  "subs_of (subscribe_with_meta r a b m) c = (if c = a then insert b (subs_of r c) else subs_of r c)"
  "ordered_deps_of (subscribe_with_meta r a b m) c =
     (if c = b then ordered_deps_of r c @ [a] else ordered_deps_of r c)"
  "ordered_dep_indices_of (subscribe_with_meta r a b m) c = ordered_dep_indices_of r c"
  "dep_meta_of (subscribe_indexed r a b d m) x y = (if x = a \<and> y = b then Some m else dep_meta_of r x y)"
  "dep_meta_of (subscribe_with_meta r a b m) x y = (if x = a \<and> y = b then Some m else dep_meta_of r x y)"
  by (simp_all add: subscribe_indexed_def subscribe_with_meta_def Let_def registry_queries)

lemma drop_dep_entry_ordered [simp]:
  "ordered_deps_of (drop_dep_entry r a b) c =
     (if c = b then remove1 a (ordered_deps_of r c) else ordered_deps_of r c)"
  by (auto simp: drop_dep_entry_def Let_def ordered_deps_of_def remove_at_position remove1_idem
      split: option.split)

lemma drop_dep_entry_indices:
  "ordered_dep_indices_of (drop_dep_entry r a b) c =
     (if c = b then (case position a (ordered_deps_of r b) of None \<Rightarrow> ordered_dep_indices_of r c
        | Some i \<Rightarrow> if i < length (ordered_dep_indices_of r c)
                    then remove_at i (ordered_dep_indices_of r c) else ordered_dep_indices_of r c)
      else ordered_dep_indices_of r c)"
  by (auto simp: drop_dep_entry_def Let_def ordered_dep_indices_of_def ordered_deps_of_def
      dest: position_mem split: option.split)

lemma unsubscribe_queries [simp]:
  "deps_of (unsubscribe r a b) c = (if c = b then deps_of r c - {a} else deps_of r c)"
  "subs_of (unsubscribe r a b) c = (if c = a then subs_of r c - {b} else subs_of r c)"
  "ordered_deps_of (unsubscribe r a b) c =
     (if c = b then remove1 a (ordered_deps_of r c) else ordered_deps_of r c)"
  "ordered_dep_indices_of (unsubscribe r a b) c = ordered_dep_indices_of (drop_dep_entry r a b) c"
  "dep_meta_of (unsubscribe r a b) x y = (if x = a \<and> y = b then None else dep_meta_of r x y)"
proof -
  define r2 where "r2 = r\<lparr>dr_deps := (dr_deps r)(b := map_option (\<lambda>d. d - {a}) (dr_deps r b)),
    dr_subs := (dr_subs r)(a := map_option (\<lambda>s. s - {b}) (dr_subs r a))\<rparr>"
  have u: "unsubscribe r a b = (let r3 = drop_dep_entry r2 a b in
      bump_epoch (bump_epoch (r3\<lparr>dr_meta := (dr_meta r3)((a, b) := None)\<rparr>) a) b)"
    by (simp add: unsubscribe_def r2_def Let_def)
  show "deps_of (unsubscribe r a b) c = (if c = b then deps_of r c - {a} else deps_of r c)"
    "subs_of (unsubscribe r a b) c = (if c = a then subs_of r c - {b} else subs_of r c)"
    "dep_meta_of (unsubscribe r a b) x y = (if x = a \<and> y = b then None else dep_meta_of r x y)"
    unfolding u Let_def by (auto simp: registry_queries r2_def split: option.split)
  have "ordered_deps_of (unsubscribe r a b) c = ordered_deps_of (drop_dep_entry r2 a b) c"
    "ordered_dep_indices_of (unsubscribe r a b) c = ordered_dep_indices_of (drop_dep_entry r2 a b) c"
    unfolding u Let_def by (simp_all add: ordered_deps_of_def ordered_dep_indices_of_def)
  moreover have "ordered_deps_of r2 c = ordered_deps_of r c" "ordered_dep_indices_of r2 c = ordered_dep_indices_of r c"
    "ordered_deps_of r2 b = ordered_deps_of r b" for c
    by (simp_all add: r2_def ordered_deps_of_def ordered_dep_indices_of_def)
  ultimately show "ordered_deps_of (unsubscribe r a b) c =
     (if c = b then remove1 a (ordered_deps_of r c) else ordered_deps_of r c)"
    "ordered_dep_indices_of (unsubscribe r a b) c = ordered_dep_indices_of (drop_dep_entry r a b) c"
    by (auto simp: drop_dep_entry_indices dest: position_mem split: option.split)
qed

lemma drop_downstream_queries [simp]:
  "deps_of (drop_downstream r a b) c = (if c = b then deps_of r c - {a} else deps_of r c)"
  "subs_of (drop_downstream r a b) c = subs_of r c"
  "ordered_deps_of (drop_downstream r a b) c =
     (if c = b then remove1 a (ordered_deps_of r c) else ordered_deps_of r c)"
  "ordered_dep_indices_of (drop_downstream r a b) c = ordered_dep_indices_of (drop_dep_entry r a b) c"
proof -
  define r1 where "r1 = r\<lparr>dr_deps := (dr_deps r)(b := map_option (\<lambda>d. d - {a}) (dr_deps r b))\<rparr>"
  have u: "drop_downstream r a b = (let r2 = drop_dep_entry r1 a b in
      r2\<lparr>dr_meta := (dr_meta r2)((a, b) := None)\<rparr>)"
    by (simp add: drop_downstream_def r1_def Let_def)
  show "deps_of (drop_downstream r a b) c = (if c = b then deps_of r c - {a} else deps_of r c)"
    "subs_of (drop_downstream r a b) c = subs_of r c"
    unfolding u Let_def by (auto simp: registry_queries r1_def split: option.split)
  have "ordered_deps_of (drop_downstream r a b) c = ordered_deps_of (drop_dep_entry r1 a b) c"
    "ordered_dep_indices_of (drop_downstream r a b) c = ordered_dep_indices_of (drop_dep_entry r1 a b) c"
    unfolding u Let_def by (simp_all add: ordered_deps_of_def ordered_dep_indices_of_def)
  moreover have "ordered_deps_of r1 c = ordered_deps_of r c" "ordered_dep_indices_of r1 c = ordered_dep_indices_of r c" for c
    by (simp_all add: r1_def ordered_deps_of_def ordered_dep_indices_of_def)
  ultimately show "ordered_deps_of (drop_downstream r a b) c =
     (if c = b then remove1 a (ordered_deps_of r c) else ordered_deps_of r c)"
    "ordered_dep_indices_of (drop_downstream r a b) c = ordered_dep_indices_of (drop_dep_entry r a b) c"
    by (auto simp: drop_dep_entry_indices dest: position_mem split: option.split)
qed

section \<open>The two-sided contract\<close>

definition converse_maps :: "('r \<Rightarrow> uid \<Rightarrow> uid set) \<Rightarrow> ('r \<Rightarrow> uid \<Rightarrow> uid set) \<Rightarrow> 'r \<Rightarrow> bool" where
  "converse_maps up down r \<longleftrightarrow> (\<forall>a b. (a \<in> up r b) = (b \<in> down r a))
     \<and> (\<forall>a. finite (up r a) \<and> finite (down r a))"

locale two_sided =
  fixes up :: "'r \<Rightarrow> uid \<Rightarrow> uid set" and down :: "'r \<Rightarrow> uid \<Rightarrow> uid set"
    and connect :: "'r \<Rightarrow> uid \<Rightarrow> uid \<Rightarrow> 'r" and disconnect :: "'r \<Rightarrow> uid \<Rightarrow> uid \<Rightarrow> 'r"
  assumes up_connect: "up (connect r a b) c = (if c = b then insert a (up r c) else up r c)"
    and down_connect: "down (connect r a b) c = (if c = a then insert b (down r c) else down r c)"
    and up_disconnect: "up (disconnect r a b) c = (if c = b then up r c - {a} else up r c)"
    and down_disconnect: "down (disconnect r a b) c = (if c = a then down r c - {b} else down r c)"
begin

lemma connect_converse: "converse_maps up down r \<Longrightarrow> converse_maps up down (connect r a b)"
  by (auto simp: converse_maps_def up_connect down_connect)

lemma disconnect_converse: "converse_maps up down r \<Longrightarrow> converse_maps up down (disconnect r a b)"
  by (auto simp: converse_maps_def up_disconnect down_disconnect)

lemma fold_disconnect_up:
  "up (fold (\<lambda>a r. disconnect r a i) xs r) c = (if c = i then up r c - set xs else up r c)"
  by (induction xs arbitrary: r) (auto simp: up_disconnect)

lemma fold_disconnect_down:
  "down (fold (\<lambda>a r. disconnect r a i) xs r) c = (if c \<in> set xs then down r c - {i} else down r c)"
  by (induction xs arbitrary: r) (auto simp: down_disconnect)

lemma fold_disconnect_converse:
  "converse_maps up down r \<Longrightarrow> converse_maps up down (fold (\<lambda>a r. disconnect r a i) xs r)"
  by (induction xs arbitrary: r) (simp_all add: disconnect_converse)

end

interpretation plain_reg: two_sided deps_of subs_of registry_subscribe unsubscribe
  by unfold_locales (simp_all add: registry_subscribe_def)

interpretation indexed_reg: two_sided deps_of subs_of "\<lambda>r a b. subscribe_indexed r a b d m" unsubscribe for d m
  by unfold_locales simp_all

abbreviation dr_wf :: "dep_registry \<Rightarrow> bool" where
  "dr_wf r \<equiv> converse_maps deps_of subs_of r"

lemma dr_wf_empty [simp]: "dr_wf registry_empty"
  by (simp add: converse_maps_def)

lemma dr_wfD: "dr_wf r \<Longrightarrow> (a \<in> deps_of r b) = (b \<in> subs_of r a)"
  "dr_wf r \<Longrightarrow> finite (deps_of r a)" "dr_wf r \<Longrightarrow> finite (subs_of r a)"
  by (simp_all add: converse_maps_def)

lemma set_sorted_finite [simp]: "finite A \<Longrightarrow> set (sorted_uids A) = A"
  by simp

lemma fold_downstream_deps:
  "deps_of (fold (\<lambda>s r. drop_downstream r i s) xs r) c =
     (if c \<in> set xs then deps_of r c - {i} else deps_of r c)"
  "subs_of (fold (\<lambda>s r. drop_downstream r i s) xs r) c = subs_of r c"
  by (induction xs arbitrary: r) auto

lemma remove_node_maps:
  assumes "dr_wf r"
  shows "deps_of (registry_remove_node r i) c = (if c = i then {} else deps_of r c - {i})"
    and "subs_of (registry_remove_node r i) c = (if c = i then {} else subs_of r c - {i})"
proof -
  define up where "up = sorted_uids (deps_of r i)"
  define r1 where "r1 = fold (\<lambda>s r. unsubscribe r s i) up r"
  define dn where "dn = sorted_uids (subs_of r1 i)"
  define r2 where "r2 = fold (\<lambda>s r. drop_downstream r i s) dn r1"
  have eq: "registry_remove_node r i = bump_epoch (r2\<lparr>dr_deps := (dr_deps r2)(i := None),
      dr_subs := (dr_subs r2)(i := None), dr_modes := (dr_modes r2)(i := None),
      dr_ordered := (dr_ordered r2)(i := None), dr_indices := (dr_indices r2)(i := None),
      dr_counters := (dr_counters r2)(i := None)\<rparr>) i"
    by (simp add: registry_remove_node_def r2_def dn_def r1_def up_def deps_of_def subs_of_def Let_def)
  have up: "set up = deps_of r i"
    using dr_wfD(2)[OF assms] by (simp add: up_def)
  have wf1: "dr_wf r1"
    unfolding r1_def by (rule plain_reg.fold_disconnect_converse[OF assms])
  have dn: "set dn = subs_of r1 i"
    using dr_wfD(3)[OF wf1] by (simp add: dn_def)
  have d1: "deps_of r1 c = (if c = i then {} else deps_of r c)" for c
    unfolding r1_def using up plain_reg.fold_disconnect_up[of i up r c] by simp
  have s1: "subs_of r1 c = (if c \<in> deps_of r i then subs_of r c - {i} else subs_of r c)" for c
    unfolding r1_def using up plain_reg.fold_disconnect_down[of i up r c] by simp
  have "deps_of r2 c = (if c \<in> subs_of r1 i then deps_of r1 c - {i} else deps_of r1 c)"
    unfolding r2_def fold_downstream_deps dn ..
  moreover have "subs_of r2 c = subs_of r1 c"
    unfolding r2_def fold_downstream_deps ..
  moreover have "deps_of (registry_remove_node r i) c = (if c = i then {} else deps_of r2 c)"
    "subs_of (registry_remove_node r i) c = (if c = i then {} else subs_of r2 c)"
    unfolding eq by (simp_all add: deps_of_def subs_of_def)
  ultimately show "deps_of (registry_remove_node r i) c = (if c = i then {} else deps_of r c - {i})"
    "subs_of (registry_remove_node r i) c = (if c = i then {} else subs_of r c - {i})"
    using d1[of c] s1[of c] dr_wfD(1)[OF wf1, of i c] dr_wfD(1)[OF assms, of c i] by auto
qed

lemma remove_node_wf: "dr_wf r \<Longrightarrow> dr_wf (registry_remove_node r i)"
  using dr_wfD unfolding converse_maps_def[of deps_of subs_of "registry_remove_node r i"]
  by (auto simp: remove_node_maps)

text \<open>
  C36. Upstream and downstream maps stay each other's converse under every registration,
  deregistration and node removal; what a node reads changes exactly by the edge named, and after
  the removal of a node nobody reads it, it reads nobody, and no other pair has changed.
\<close>

theorem registry_two_sided:
  assumes "dr_wf r"
  shows "dr_wf (registry_subscribe r a b) \<and> dr_wf (subscribe_with_meta r a b m)
    \<and> dr_wf (subscribe_indexed r a b d m)
    \<and> dr_wf (unsubscribe r a b) \<and> dr_wf (registry_remove_node r i)
    \<and> deps_of (subscribe_indexed r a b d m) c = (if c = b then insert a (deps_of r c) else deps_of r c)
    \<and> deps_of (unsubscribe r a b) c = (if c = b then deps_of r c - {a} else deps_of r c)
    \<and> deps_of (registry_remove_node r i) c = (if c = i then {} else deps_of r c - {i})
    \<and> (x \<in> set (subs_vec r c)) = (c \<in> deps_of r x) \<and> sorted (subs_vec r c)"
proof -
  have "dr_wf (subscribe_with_meta r a b m)"
    using assms by (auto simp: converse_maps_def)
  moreover have "(x \<in> set (subs_vec r c)) = (c \<in> deps_of r x)" and "sorted (subs_vec r c)"
    using dr_wfD(1)[OF assms, of c x] dr_wfD(3)[OF assms, of c]
    by (simp_all add: subs_vec_def subs_of_def sorted_uids_def)
  ultimately show ?thesis
    using assms plain_reg.connect_converse indexed_reg.connect_converse plain_reg.disconnect_converse
      remove_node_wf remove_node_maps by simp
qed

theorem registry_two_sided_witness:
  "dr_wf (registry_subscribe (registry_subscribe registry_empty 1 2) 2 3)
   \<and> deps_of (registry_remove_node (registry_subscribe (registry_subscribe registry_empty 1 2) 2 3) 2) 3 = {}"
proof -
  have wf: "dr_wf (registry_subscribe (registry_subscribe registry_empty 1 2) 2 3)"
    by (intro plain_reg.connect_converse dr_wf_empty)
  show ?thesis
    using wf registry_two_sided[OF wf, of 1 2 dep_meta_default 0 2 3 3]
    by (simp add: registry_subscribe_def)
qed

section \<open>Parallel lists, duplicates, epochs, last-seen times\<close>

definition lockstep :: "(uid \<Rightarrow> u32) \<Rightarrow> dep_registry \<Rightarrow> bool" where
  "lockstep idx r \<longleftrightarrow> (\<forall>b. ordered_dep_indices_of r b = map idx (ordered_deps_of r b))"

lemma lockstep_drop: "lockstep idx r \<Longrightarrow> lockstep idx (drop_dep_entry r a b)"
  unfolding lockstep_def
proof
  fix c
  assume l: "\<forall>b. ordered_dep_indices_of r b = map idx (ordered_deps_of r b)"
  show "ordered_dep_indices_of (drop_dep_entry r a b) c = map idx (ordered_deps_of (drop_dep_entry r a b) c)"
    using l by (auto simp: drop_dep_entry_indices remove1_idem map_remove_at[symmetric]
        remove_at_position split: option.split dest: position_less)
qed

lemma lockstep_unsubscribe: "lockstep idx r \<Longrightarrow> lockstep idx (unsubscribe r a b)"
  using lockstep_drop[of idx r a b] by (simp add: lockstep_def)

lemma lockstep_downstream: "lockstep idx r \<Longrightarrow> lockstep idx (drop_downstream r a b)"
  using lockstep_drop[of idx r a b] by (simp add: lockstep_def)

lemma lockstep_remove_node: "lockstep idx r \<Longrightarrow> lockstep idx (registry_remove_node r i)"
proof -
  assume l: "lockstep idx r"
  have up: "lockstep idx (fold (\<lambda>s r. unsubscribe r s i) xs h)" if "lockstep idx h" for xs h
    using that by (induction xs arbitrary: h) (simp_all add: lockstep_unsubscribe)
  have dn: "lockstep idx (fold (\<lambda>s r. drop_downstream r i s) xs h)" if "lockstep idx h" for xs h
    using that by (induction xs arbitrary: h) (simp_all add: lockstep_downstream)
  have fin: "lockstep idx (bump_epoch (h\<lparr>dr_deps := D, dr_subs := S, dr_modes := M,
      dr_ordered := (dr_ordered h)(i := None), dr_indices := (dr_indices h)(i := None),
      dr_counters := C\<rparr>) i)" if "lockstep idx h" for h D S M C
    using that by (simp add: lockstep_def ordered_deps_of_def ordered_dep_indices_of_def)
  show ?thesis
    unfolding registry_remove_node_def Let_def by (intro fin dn up l)
qed

text \<open>
  The dense index list stays parallel to the ordered dependency list: if every indexed
  subscription records the slot \<open>idx source\<close>, then after any sequence of indexed
  subscriptions, deregistrations and node removals entry \<open>i\<close> of one list is the slot of entry
  \<open>i\<close> of the other, so the fast read through the value cache reads the right dependency.  One
  subscription without an index breaks this for its subscriber.
\<close>

theorem registry_lockstep:
  assumes "lockstep idx r"
  shows "lockstep idx (subscribe_indexed r a b (idx a) m) \<and> lockstep idx (unsubscribe r a b)
    \<and> lockstep idx (registry_remove_node r i)
    \<and> length (ordered_dep_indices_of r b) = length (ordered_deps_of r b)
    \<and> (k < length (ordered_deps_of r b) \<longrightarrow> ordered_dep_indices_of r b ! k = idx (ordered_deps_of r b ! k))
    \<and> \<not> lockstep idx (subscribe_with_meta r a b m)"
proof -
  have "\<not> lockstep idx (subscribe_with_meta r a b m)"
    using assms unfolding lockstep_def by (auto dest: spec[of _ b])
  then show ?thesis
    using assms lockstep_unsubscribe lockstep_remove_node by (auto simp: lockstep_def)
qed

theorem registry_lockstep_witness:
  "lockstep (\<lambda>u. ucast u + 5) (registry_empty :: dep_registry)
   \<and> ordered_dep_indices_of (unsubscribe (subscribe_indexed (subscribe_indexed registry_empty 1 9 6 dep_meta_default)
       2 9 7 dep_meta_default) 1 9) 9 = [7]"
proof -
  have l: "lockstep (\<lambda>u. ucast u + 5) registry_empty"
    by (simp add: lockstep_def)
  show ?thesis
    using l registry_lockstep[OF l, of 1 9 dep_meta_default 0 0]
    by (simp add: drop_dep_entry_indices)
qed

text \<open>
  Parallel edges are not counted.  Registering the same pair twice lists the source twice in
  the subscriber's ordered dependencies, but the sets hold it once; dropping one of the two edges
  then removes the pair from both sets and its metadata while the ordered list still reads the
  source, so the remaining edge no longer carries a push.
\<close>

theorem duplicate_edge_drop:
  assumes "a \<notin> set (ordered_deps_of r b)"
  shows "let r' = unsubscribe (subscribe_indexed (subscribe_indexed r a b d m) a b d m') a b
    in a \<in> set (ordered_deps_of r' b) \<and> a \<notin> deps_of r' b \<and> b \<notin> subs_of r' a
       \<and> dep_meta_of r' a b = None"
  using assms by (simp add: Let_def remove1_append)

theorem duplicate_edge_drop_witness:
  "1 \<notin> set (ordered_deps_of registry_empty 2)
   \<and> 2 \<notin> set (subs_vec (unsubscribe (subscribe_indexed (subscribe_indexed registry_empty 1 2 0 dep_meta_default)
        1 2 0 dep_meta_default) 1 2) 1)"
proof -
  have n: "1 \<notin> set (ordered_deps_of registry_empty 2)"
    by simp
  show ?thesis
    using n duplicate_edge_drop[OF n, of 0 dep_meta_default dep_meta_default]
    by (simp add: Let_def subs_vec_def subs_of_def[symmetric])
qed

definition epochs_bounded :: "dep_registry \<Rightarrow> bool" where
  "epochs_bounded r \<longleftrightarrow> (\<forall>n. adj_epoch r n \<le> dr_epoch_counter r)"

lemma fold_max_ge: "fold max es (e :: u64) \<ge> e" "x \<in> set es \<Longrightarrow> fold max es e \<ge> x"
proof (induction es arbitrary: e)
  case (Cons a es)
  { case 1
    show ?case using Cons(1)[of "max a e"] by simp
  next
    case 2
    then show ?case using Cons(1,2)[of "max a e"] by auto }
qed simp_all

lemma fold_max_mem: "fold max es (e :: u64) \<in> insert e (set es)"
proof (induction es arbitrary: e)
  case (Cons x xs)
  from Cons[of "max x e"] show ?case by (auto simp: max_def split: if_splits)
qed simp

lemma max_epoch_member:
  "ns \<noteq> [] \<Longrightarrow> max_epoch_for_nodes r ns \<in> adj_epoch r ` set ns"
  using fold_max_mem by (cases ns) (force simp: max_epoch_for_nodes_def)+

lemma max_epoch_upper: "n \<in> set ns \<Longrightarrow> adj_epoch r n \<le> max_epoch_for_nodes r ns"
  using fold_max_ge by (cases ns) (auto simp: max_epoch_for_nodes_def)

lemma max_epoch_cong: "(\<And>n. n \<in> set ns \<Longrightarrow> adj_epoch r n = adj_epoch r' n)
    \<Longrightarrow> max_epoch_for_nodes r ns = max_epoch_for_nodes r' ns"
  by (simp add: max_epoch_for_nodes_def cong: map_cong)

lemma bump_epochs: "adj_epoch (bump_epoch r n) x = (if x = n then dr_epoch_counter r + 1 else adj_epoch r x)"
  by (simp add: adj_epoch_def)

lemma topology_epochs:
  "adj_epoch (subscribe_indexed r a b d m) x = adj_epoch (bump_epoch (bump_epoch r a) b) x"
  "adj_epoch (unsubscribe r a b) x = adj_epoch (bump_epoch (bump_epoch r a) b) x"
  "dr_epoch_counter (subscribe_indexed r a b d m) = dr_epoch_counter r + 1 + 1"
  "dr_epoch_counter (unsubscribe r a b) = dr_epoch_counter r + 1 + 1"
  by (simp_all add: subscribe_indexed_def unsubscribe_def Let_def adj_epoch_def)

text \<open>
  Adjacency epochs detect every topology change: a subscription or deregistration between
  \<open>a\<close> and \<open>b\<close> strictly raises the maximum epoch of a node list exactly when the list mentions
  \<open>a\<close> or \<open>b\<close>, and leaves it as it was otherwise (below the top of the \<open>u64\<close> counter).
\<close>

theorem epoch_detects_change:
  assumes "epochs_bounded r" "unat (dr_epoch_counter r) + 2 < 2 ^ 64"
  shows "(max_epoch_for_nodes r ns < max_epoch_for_nodes (subscribe_indexed r a b d m) ns)
      = (a \<in> set ns \<or> b \<in> set ns)
    \<and> (max_epoch_for_nodes r ns < max_epoch_for_nodes (unsubscribe r a b) ns)
      = (a \<in> set ns \<or> b \<in> set ns)
    \<and> (a \<notin> set ns \<and> b \<notin> set ns \<longrightarrow>
        max_epoch_for_nodes (unsubscribe r a b) ns = max_epoch_for_nodes r ns)
    \<and> epochs_bounded (subscribe_indexed r a b d m) \<and> epochs_bounded (unsubscribe r a b)"
proof -
  let ?c = "dr_epoch_counter r"
  have c1: "unat (?c + 1) = unat ?c + 1"
    using assms(2) by (simp add: unat_Suc_bounded)
  have "unat (?c + 1 + 1) = unat (?c + 1) + 1"
    by (rule unat_Suc_bounded) (use assms(2) c1 in simp)
  with c1 have c2: "unat (?c + 1 + 1) = unat ?c + 2"
    by (simp only:)
  have lt: "?c < ?c + 1" "?c < ?c + 1 + 1" "?c + 1 \<le> ?c + 1 + 1"
    unfolding word_less_nat_alt word_le_nat_alt c1 c2 by simp_all
  have main: "(max_epoch_for_nodes r ns < max_epoch_for_nodes r' ns) = (a \<in> set ns \<or> b \<in> set ns)
      \<and> (a \<notin> set ns \<and> b \<notin> set ns \<longrightarrow> max_epoch_for_nodes r' ns = max_epoch_for_nodes r ns)"
    if r': "\<And>x. adj_epoch r' x = adj_epoch (bump_epoch (bump_epoch r a) b) x" for r'
  proof (cases "a \<in> set ns \<or> b \<in> set ns")
    case True
    then obtain n where n: "n \<in> set ns" "n = a \<or> n = b" by blast
    have "ns \<noteq> []" using n by auto
    then have "max_epoch_for_nodes r ns \<le> ?c"
      using max_epoch_member[of ns r] assms(1) by (auto simp: epochs_bounded_def)
    also have "?c < adj_epoch r' n"
      using n(2) lt by (auto simp: r' bump_epochs)
    also have "\<dots> \<le> max_epoch_for_nodes r' ns"
      by (rule max_epoch_upper[OF n(1)])
    finally show ?thesis using True by blast
  next
    case False
    then have "max_epoch_for_nodes r' ns = max_epoch_for_nodes r ns"
      by (intro max_epoch_cong) (auto simp: r' bump_epochs)
    with False show ?thesis by simp
  qed
  have bd: "epochs_bounded r'"
    if "\<And>x. adj_epoch r' x = adj_epoch (bump_epoch (bump_epoch r a) b) x"
      "dr_epoch_counter r' = ?c + 1 + 1" for r'
  proof -
    have "adj_epoch r x \<le> ?c + 1 + 1" for x
      using assms(1) lt(2) by (auto simp: epochs_bounded_def intro: order_trans[OF _ less_imp_le])
    then show ?thesis
      using that lt(3) by (simp add: epochs_bounded_def bump_epochs)
  qed
  show ?thesis
    using main[of "subscribe_indexed r a b d m"] main[of "unsubscribe r a b"]
      bd[of "subscribe_indexed r a b d m"] bd[of "unsubscribe r a b"]
    by (simp add: topology_epochs)
qed

theorem epoch_detects_change_witness:
  "epochs_bounded registry_empty \<and> unat (dr_epoch_counter registry_empty) + 2 < 2 ^ 64
   \<and> max_epoch_for_nodes registry_empty [3, 2]
       < max_epoch_for_nodes (subscribe_indexed registry_empty 1 2 0 dep_meta_default) [3, 2]"
proof -
  have b: "epochs_bounded registry_empty" "unat (dr_epoch_counter registry_empty) + 2 < 2 ^ 64"
    by (simp_all add: epochs_bounded_def registry_empty_def adj_epoch_def)
  show ?thesis
    using b epoch_detects_change[OF b, of "[3, 2]" 1 2] by simp
qed

lemma last_seen_meta:
  "dep_meta_of (update_last_seen r a b t) x y = (if x = a \<and> y = b
     then map_option (\<lambda>m. m\<lparr>dm_last_seen := time_join (dm_last_seen m) t\<rparr>) (dep_meta_of r a b)
     else dep_meta_of r x y)"
  by (auto simp: dep_meta_of_def update_last_seen_def)

lemma not_less_max_u64: "(\<not> max a b < (b :: u64))" "(\<not> max a b < (a :: u64))"
  by auto

text \<open>
  The propagation gate is exactly-once per time: after \<open>update_last_seen\<close> at \<open>t\<close> the gate
  is closed for \<open>t\<close> and for every time \<open>t\<close> dominates, it never opens where it was closed before,
  it opens again precisely when a dimension the edge's projection observes ticks, and no other
  edge's metadata has changed.
\<close>

theorem last_seen_closes_gate:
  assumes "dep_meta_of r a b = Some m"
  shows "\<exists>m'. dep_meta_of (update_last_seen r a b t) a b = Some m'
    \<and> (\<forall>t'. time_dominates t t' \<longrightarrow> \<not> should_propagate m' t')
    \<and> (\<forall>t'. should_propagate m' t' \<longrightarrow> should_propagate m t')
    \<and> (dm_last_seen m = TIME_ZERO \<and> time_get t d \<noteq> - 1
        \<longrightarrow> should_propagate m' (time_advance t d) = dims_contains (pm_dims (projection_mask (dm_label m))) d)
    \<and> (\<forall>x y. (x, y) \<noteq> (a, b) \<longrightarrow> dep_meta_of (update_last_seen r a b t) x y = dep_meta_of r x y)"
proof (intro exI conjI)
  let ?m' = "m\<lparr>dm_last_seen := time_join (dm_last_seen m) t\<rparr>"
  show "dep_meta_of (update_last_seen r a b t) a b = Some ?m'"
    using assms by (simp add: last_seen_meta)
  show "\<forall>t'. time_dominates t t' \<longrightarrow> \<not> should_propagate ?m' t'"
    by (auto simp: should_propagate_iff time_dominates_get not_less intro: max.coboundedI2)
  show "\<forall>t'. should_propagate ?m' t' \<longrightarrow> should_propagate m t'"
    by (auto simp: should_propagate_iff)
  show "dm_last_seen m = TIME_ZERO \<and> time_get t d \<noteq> - 1
        \<longrightarrow> should_propagate ?m' (time_advance t d) = dims_contains (pm_dims (projection_mask (dm_label m))) d"
    by (auto simp: should_propagate_iff word_max_not_less max_def)
  show "\<forall>x y. (x, y) \<noteq> (a, b) \<longrightarrow> dep_meta_of (update_last_seen r a b t) x y = dep_meta_of r x y"
    by (auto simp: last_seen_meta)
qed

theorem last_seen_closes_gate_witness:
  "dep_meta_of (registry_subscribe registry_empty 1 2) 1 2 = Some dep_meta_default
   \<and> time_get TIME_ZERO Attribute \<noteq> - 1
   \<and> (\<exists>m'. dep_meta_of (update_last_seen (registry_subscribe registry_empty 1 2) 1 2 TIME_ZERO) 1 2 = Some m'
        \<and> should_propagate m' (time_advance TIME_ZERO Attribute))"
proof -
  have m: "dep_meta_of (registry_subscribe registry_empty 1 2) 1 2 = Some dep_meta_default"
    by (simp add: registry_subscribe_def)
  have d: "dims_contains (pm_dims (projection_mask (dm_label dep_meta_default))) Attribute"
    by (simp add: dep_meta_default_def compiled_permissive_def mask_wildcard_def DIMS_ALL_def
        dims_contains_def)
  have z: "time_get TIME_ZERO Attribute \<noteq> - 1" "dm_last_seen dep_meta_default = TIME_ZERO"
    by (simp_all add: TIME_ZERO_def dep_meta_default_def)
  show ?thesis
    using last_seen_closes_gate[OF m, of TIME_ZERO Attribute] m d z by blast
qed

end
