(* ===== verification/Value_Store.thy ===== *)
theory Value_Store
  imports Node_Types
begin

text \<open>
  The dense value cache with its bit-sliced planes, \<^verbatim>\<open>core-rs/src/value_store.rs\<close>.  Plane 0 has
  the bit of a slot set when it holds \<open>Pos\<close>, plane 1 when it holds \<open>Zero\<close>; the range folds work
  on 64 slots at a time.  A write that would index past the planes (a panic) or past the cache
  (the unchecked write of the code) is \<open>None\<close>.
\<close>

record value_store =
  st_cache :: "T list"
  st_idx :: "uid \<Rightarrow> u32 option"
  st_p0 :: "u64 list"
  st_p1 :: "u64 list"

definition store_new :: value_store where
  "store_new = \<lparr>st_cache = [], st_idx = Map.empty, st_p0 = [], st_p1 = []\<rparr>"

section \<open>Operations\<close>

function grow_planes :: "nat \<Rightarrow> u64 list \<Rightarrow> u64 list \<Rightarrow> u64 list \<times> u64 list" where
  "grow_planes needed p0 p1 =
     (if length p0 < needed then grow_planes needed (p0 @ [0]) (p1 @ [0]) else (p0, p1))"
  by pat_completeness auto
termination by (relation "measure (\<lambda>(needed, p0, p1). needed - length p0)") auto

declare grow_planes.simps [simp del]

definition alloc :: "value_store \<Rightarrow> uid \<Rightarrow> value_store \<times> u32" where
  "alloc st i =
     (let dense = of_nat (length (st_cache st));
          cache' = st_cache st @ [Neg];
          needed_words = (length cache' + 63) div 64;
          (p0, p1) = grow_planes needed_words (st_p0 st) (st_p1 st)
      in (\<lparr>st_cache = cache', st_idx = (st_idx st)(i \<mapsto> dense), st_p0 = p0, st_p1 = p1\<rparr>, dense))"

definition set_plane_bit :: "u64 \<Rightarrow> u64 \<Rightarrow> bool \<Rightarrow> u64" where
  "set_plane_bit w msk b = (if b then w OR msk else w AND NOT msk)"

definition set_by_dense :: "value_store \<Rightarrow> u32 \<Rightarrow> T \<Rightarrow> value_store option" where
  "set_by_dense st dense v =
     (let d = unat dense; wd = d div 64; bt = d mod 64; msk = push_bit bt 1; rep = repr_u8 v in
      if wd < length (st_p0 st) \<and> wd < length (st_p1 st) \<and> d < length (st_cache st)
      then Some (st\<lparr>
        st_p0 := (st_p0 st)[wd := set_plane_bit (st_p0 st ! wd) msk (rep AND 1 \<noteq> 0)],
        st_p1 := (st_p1 st)[wd := set_plane_bit (st_p1 st ! wd) msk (drop_bit 1 rep \<noteq> 0)],
        st_cache := (st_cache st)[d := v]\<rparr>)
      else None)"

definition store_set :: "value_store \<Rightarrow> uid \<Rightarrow> T \<Rightarrow> value_store option" where
  "store_set st i v = (case st_idx st i of None \<Rightarrow> Some st | Some dense \<Rightarrow> set_by_dense st dense v)"

definition store_get :: "value_store \<Rightarrow> uid \<Rightarrow> T" where
  "store_get st i = (case st_idx st i of None \<Rightarrow> Neg | Some d \<Rightarrow> st_cache st ! unat d)"

definition get_by_dense :: "value_store \<Rightarrow> u32 \<Rightarrow> T" where
  "get_by_dense st d = st_cache st ! unat d"

definition dense_index :: "value_store \<Rightarrow> uid \<Rightarrow> u32 option" where
  "dense_index st i = st_idx st i"

definition store_len :: "value_store \<Rightarrow> nat" where
  "store_len st = length (st_cache st)"

definition dealloc :: "value_store \<Rightarrow> uid \<Rightarrow> value_store option" where
  "dealloc st i = (case st_idx st i of None \<Rightarrow> Some st | Some dense \<Rightarrow> set_by_dense st dense Neg)"

section \<open>Range folds over the planes\<close>

definition range_mask :: "nat \<Rightarrow> nat \<Rightarrow> nat \<Rightarrow> u64" where
  "range_mask start finish w =
     (let w_lo = w * 64; w_hi = w_lo + 64 in
      if start \<ge> w_hi \<or> finish \<le> w_lo then 0
      else
        (let lo = max start w_lo - w_lo;
             hi = min finish w_hi - w_lo;
             lo_mask = (if lo = 0 then - 1 else push_bit lo (- 1));
             hi_mask = (if hi = 64 then - 1 else push_bit hi 1 - 1)
         in lo_mask AND hi_mask))"

fun meet_words :: "value_store \<Rightarrow> nat \<Rightarrow> nat \<Rightarrow> bool \<Rightarrow> nat list \<Rightarrow> T" where
  "meet_words st s e has_zero [] = (if has_zero then Zero else Pos)"
| "meet_words st s e has_zero (w # ws) =
     (let msk = range_mask s e w in
      if msk = 0 then meet_words st s e has_zero ws
      else
        (let p0m = st_p0 st ! w AND msk;
             p1m = st_p1 st ! w AND msk;
             neg_bits = (NOT p0m) AND (NOT p1m) AND msk
         in if neg_bits \<noteq> 0 then Neg
            else meet_words st s e (has_zero \<or> (NOT p0m) AND p1m \<noteq> 0) ws))"

definition meet_all_range :: "value_store \<Rightarrow> u32 \<Rightarrow> u32 \<Rightarrow> T" where
  "meet_all_range st start n =
     (if n = 0 then Pos
      else (let s = unat start; e = s + unat n; w0 = s div 64; w1 = (e + 63) div 64
            in meet_words st s e False [w0 ..< min w1 (length (st_p0 st))]))"

fun join_words :: "value_store \<Rightarrow> nat \<Rightarrow> nat \<Rightarrow> bool \<Rightarrow> nat list \<Rightarrow> T" where
  "join_words st s e has_zero [] = (if has_zero then Zero else Neg)"
| "join_words st s e has_zero (w # ws) =
     (let msk = range_mask s e w in
      if msk = 0 then join_words st s e has_zero ws
      else
        (let p0m = st_p0 st ! w AND msk;
             p1m = st_p1 st ! w AND msk;
             pos_bits = p0m AND (NOT p1m)
         in if pos_bits \<noteq> 0 then Pos
            else join_words st s e (has_zero \<or> (NOT p0m) AND p1m \<noteq> 0) ws))"

definition join_any_range :: "value_store \<Rightarrow> u32 \<Rightarrow> u32 \<Rightarrow> T" where
  "join_any_range st start n =
     (if n = 0 then Neg
      else (let s = unat start; e = s + unat n; w0 = s div 64; w1 = (e + 63) div 64
            in join_words st s e False [w0 ..< min w1 (length (st_p0 st))]))"

section \<open>The plane invariant\<close>

definition plane_bit :: "u64 list \<Rightarrow> nat \<Rightarrow> bool" where
  "plane_bit p d = bit (p ! (d div 64)) (d mod 64)"

definition plane_of :: "T \<Rightarrow> T list \<Rightarrow> u64 list \<Rightarrow> bool" where
  "plane_of v cache p \<longleftrightarrow> length p = (length cache + 63) div 64
     \<and> (\<forall>d < 64 * length p. plane_bit p d = (d < length cache \<and> cache ! d = v))"

definition store_wf :: "value_store \<Rightarrow> bool" where
  "store_wf st \<longleftrightarrow> plane_of Pos (st_cache st) (st_p0 st) \<and> plane_of Zero (st_cache st) (st_p1 st)
     \<and> (\<forall>i d. st_idx st i = Some d \<longrightarrow> unat d < length (st_cache st))"

lemma store_wf_new [simp]: "store_wf store_new"
  by (simp add: store_wf_def store_new_def plane_of_def)

lemma grow_planes_replicate:
  "length p0 = length p1 \<Longrightarrow> grow_planes n p0 p1
     = (p0 @ replicate (n - length p0) 0, p1 @ replicate (n - length p0) 0)"
proof (induction n p0 p1 rule: grow_planes.induct)
  case (1 needed p0 p1)
  show ?case
  proof (cases "length p0 < needed")
    case True
    then have "needed - length p0 = Suc (needed - Suc (length p0))" by simp
    with True 1 show ?thesis
      by (simp add: grow_planes.simps[of needed p0])
  qed (simp add: grow_planes.simps[of needed p0])
qed

lemma plane_bit_append: "d < 64 * length (p @ replicate k 0) \<Longrightarrow>
    plane_bit (p @ replicate k 0) d = (d < 64 * length p \<and> plane_bit p d)"
proof -
  assume d: "d < 64 * length (p @ replicate k 0)"
  have "(d div 64 < length p) = (d < 64 * length p)"
    by (simp add: div_less_iff_less_mult mult.commute)
  moreover have "d div 64 - length p < k" if "\<not> d div 64 < length p"
    using d that by (simp add: div_less_iff_less_mult)
  ultimately show ?thesis
    by (simp add: plane_bit_def nth_append)
qed

lemma plane_of_grow:
  assumes "plane_of v cache p" "v \<noteq> Neg"
  shows "plane_of v (cache @ [Neg]) (p @ replicate ((length cache + 64) div 64 - length p) 0)"
    (is "plane_of v _ (p @ replicate ?k 0)")
proof -
  have len: "length p + ?k = (length cache + 64) div 64"
    using assms(1) by (simp add: plane_of_def)
  have "plane_bit (p @ replicate ?k 0) d = (d < length (cache @ [Neg]) \<and> (cache @ [Neg]) ! d = v)"
    if "d < 64 * length (p @ replicate ?k 0)" for d
    using assms that plane_bit_append[OF that] by (auto simp: plane_of_def nth_append)
  then show ?thesis using len by (simp add: plane_of_def)
qed

lemma alloc_wf:
  assumes "store_wf st" "length (st_cache st) < 2 ^ 32 - 1"
  shows "store_wf (fst (alloc st i))"
proof -
  let ?n = "(length (st_cache st) + 64) div 64"
  have lens: "length (st_p0 st) = length (st_p1 st)"
    using assms(1) by (simp add: store_wf_def plane_of_def)
  have st': "fst (alloc st i) = \<lparr>st_cache = st_cache st @ [Neg],
      st_idx = (st_idx st)(i \<mapsto> of_nat (length (st_cache st))),
      st_p0 = st_p0 st @ replicate (?n - length (st_p0 st)) 0,
      st_p1 = st_p1 st @ replicate (?n - length (st_p1 st)) 0\<rparr>"
    using lens by (simp add: alloc_def Let_def grow_planes_replicate)
  have "unat (of_nat (length (st_cache st)) :: u32) = length (st_cache st)"
    using assms(2) by (simp add: unat_of_nat)
  moreover have "plane_of Pos (st_cache st) (st_p0 st)" "plane_of Zero (st_cache st) (st_p1 st)"
    using assms(1) by (simp_all add: store_wf_def)
  ultimately show ?thesis
    unfolding store_wf_def st' using assms(1) plane_of_grow
    by (auto simp: store_wf_def less_Suc_eq)
qed

lemma bit_set_plane:
  "m < 64 \<Longrightarrow> j < 64 \<Longrightarrow> bit (set_plane_bit w (push_bit m 1) b) j = (if j = m then b else bit w j)"
  by (auto simp: set_plane_bit_def bit_simps)

lemmas bit_set_plane_exp = bit_set_plane[unfolded push_bit_of_1]

lemma plane_of_set:
  assumes "plane_of v cache p" "d < length cache"
  shows "plane_of v (cache[d := x])
    (p[d div 64 := set_plane_bit (p ! (d div 64)) (push_bit (d mod 64) 1) (x = v)])"
proof -
  have dw: "d div 64 < length p"
    using assms by (simp add: plane_of_def div_less_iff_less_mult)
  have "plane_bit (p[d div 64 := set_plane_bit (p ! (d div 64)) (push_bit (d mod 64) 1) (x = v)]) k
      = (if k = d then x = v else plane_bit p k)" if "k < 64 * length p" for k
  proof (cases "k div 64 = d div 64")
    case True
    then have "(k mod 64 = d mod 64) = (k = d)"
      by (metis mod_mult_div_eq)
    with True dw show ?thesis by (simp add: plane_bit_def bit_set_plane_exp)
  next
    case False
    then show ?thesis by (auto simp: plane_bit_def)
  qed
  then show ?thesis using assms by (auto simp: plane_of_def nth_list_update)
qed

lemma repr_bits:
  "(repr_u8 v AND 1 \<noteq> 0) = (v = Pos)" "(drop_bit 1 (repr_u8 v) \<noteq> 0) = (v = Zero)"
  "(drop_bit (Suc 0) (repr_u8 v) \<noteq> 0) = (v = Zero)"
  by (cases v; simp add: repr_u8_def)+

lemma set_by_dense_wf:
  assumes "store_wf st" "unat d < length (st_cache st)"
  shows "\<exists>st'. set_by_dense st d v = Some st' \<and> store_wf st'
    \<and> st_cache st' = (st_cache st)[unat d := v] \<and> st_idx st' = st_idx st"
proof -
  have "unat d div 64 < length (st_p0 st)" "unat d div 64 < length (st_p1 st)"
    using assms by (simp_all add: store_wf_def plane_of_def div_less_iff_less_mult)
  moreover have "plane_of Pos (st_cache st) (st_p0 st)" "plane_of Zero (st_cache st) (st_p1 st)"
    using assms(1) by (simp_all add: store_wf_def)
  ultimately show ?thesis
    using assms plane_of_set[of Pos "st_cache st" "st_p0 st" "unat d" v]
      plane_of_set[of Zero "st_cache st" "st_p1 st" "unat d" v]
    by (simp add: set_by_dense_def Let_def repr_bits store_wf_def)
qed

lemma store_set_wf:
  assumes "store_wf st"
  shows "\<exists>st'. store_set st i v = Some st' \<and> store_wf st' \<and> st_idx st' = st_idx st
    \<and> st_cache st' = (case st_idx st i of None \<Rightarrow> st_cache st | Some d \<Rightarrow> (st_cache st)[unat d := v])"
proof (cases "st_idx st i")
  case (Some d)
  then have "unat d < length (st_cache st)" using assms by (simp add: store_wf_def)
  from set_by_dense_wf[OF assms this, of v] Some show ?thesis by (auto simp: store_set_def)
qed (use assms in \<open>simp add: store_set_def\<close>)

section \<open>The words of a range\<close>

lemma bit_range_mask:
  assumes "j < 64"
  shows "bit (range_mask s e w) j = (s \<le> w * 64 + j \<and> w * 64 + j < e)"
proof (cases "s \<ge> w * 64 + 64 \<or> e \<le> w * 64")
  case True
  then show ?thesis using assms by (auto simp: range_mask_def Let_def)
next
  case False
  define lo where "lo = max s (w * 64) - w * 64"
  define hi where "hi = min e (w * 64 + 64) - w * 64"
  have lo: "bit (if lo = 0 then - 1 else push_bit lo (- 1 :: u64)) j = (lo \<le> j)"
    using assms by (auto simp: bit_simps)
  have hi: "bit (if hi = 64 then - 1 else push_bit hi 1 - 1 :: u64) j = (j < hi)"
  proof (cases "hi = 64")
    case False
    have "push_bit hi 1 - 1 = (mask hi :: u64)"
      by (simp add: mask_eq_decr_exp push_bit_eq_mult)
    then show ?thesis using assms False by (simp add: bit_simps)
  qed (use assms in simp)
  have "range_mask s e w = (if lo = 0 then - 1 else push_bit lo (- 1)) AND
      (if hi = 64 then - 1 else push_bit hi 1 - 1)"
    using False unfolding range_mask_def Let_def lo_def hi_def by simp
  then have "bit (range_mask s e w) j = (lo \<le> j \<and> j < hi)"
    using lo hi by (simp only: bit_and_iff)
  also have "\<dots> = (s \<le> w * 64 + j \<and> w * 64 + j < e)"
    using False assms unfolding lo_def hi_def by auto
  finally show ?thesis .
qed

definition slot_in :: "value_store \<Rightarrow> nat \<Rightarrow> nat \<Rightarrow> nat \<Rightarrow> T \<Rightarrow> bool" where
  "slot_in st s e w v \<longleftrightarrow> (\<exists>j < 64. s \<le> w * 64 + j \<and> w * 64 + j < e \<and> st_cache st ! (w * 64 + j) = v)"

lemma plane_word:
  assumes "plane_of v cache p" "w < length p" "j < 64" "w * 64 + j < length cache"
  shows "bit (p ! w) j = (cache ! (w * 64 + j) = v)"
proof -
  have "w * 64 + j < 64 * length p"
    using assms(2,3) by linarith
  then show ?thesis
    using assms by (auto simp: plane_of_def plane_bit_def dest!: spec[of _ "w * 64 + j"])
qed

lemma word_tests:
  fixes s e w :: nat and st :: value_store
  assumes wf: "store_wf st" and w: "w < length (st_p0 st)" and e: "e \<le> length (st_cache st)"
  defines "msk \<equiv> range_mask s e w"
  defines "p0m \<equiv> st_p0 st ! w AND msk" and "p1m \<equiv> st_p1 st ! w AND msk"
  shows "((NOT p0m) AND (NOT p1m) AND msk \<noteq> 0) = slot_in st s e w Neg"
    and "((NOT p0m) AND p1m \<noteq> 0) = slot_in st s e w Zero"
    and "(p0m AND (NOT p1m) \<noteq> 0) = slot_in st s e w Pos"
    and "msk = 0 \<Longrightarrow> \<not> slot_in st s e w v"
proof -
  have w1: "w < length (st_p1 st)" using wf w by (simp add: store_wf_def plane_of_def)
  have bits: "bit (st_p0 st ! w) j = (st_cache st ! (w * 64 + j) = Pos)"
    "bit (st_p1 st ! w) j = (st_cache st ! (w * 64 + j) = Zero)" if "j < 64" "w * 64 + j < e" for j
    using wf w w1 e that plane_word[of Pos "st_cache st" "st_p0 st" w j]
      plane_word[of Zero "st_cache st" "st_p1 st" w j] by (simp_all add: store_wf_def)
  have m: "bit msk j = (s \<le> w * 64 + j \<and> w * 64 + j < e)" if "j < 64" for j
    using bit_range_mask[OF that] by (simp add: msk_def)
  have neg: "(x \<noteq> Pos \<and> x \<noteq> Zero) = (x = Neg)" for x
    by (cases x) simp_all
  show "((NOT p0m) AND (NOT p1m) AND msk \<noteq> 0) = slot_in st s e w Neg"
    unfolding word_nonzero_bit slot_in_def p0m_def p1m_def
    by (rule ex_cong1) (auto simp: bit_simps m bits neg[symmetric])
  show "((NOT p0m) AND p1m \<noteq> 0) = slot_in st s e w Zero"
    unfolding word_nonzero_bit slot_in_def p0m_def p1m_def
    by (rule ex_cong1) (auto simp: bit_simps m bits)
  show "(p0m AND (NOT p1m) \<noteq> 0) = slot_in st s e w Pos"
    unfolding word_nonzero_bit slot_in_def p0m_def p1m_def
    by (rule ex_cong1) (auto simp: bit_simps m bits)
  show "msk = 0 \<Longrightarrow> \<not> slot_in st s e w v"
    unfolding slot_in_def using m by auto
qed

lemma meet_words_spec:
  assumes "store_wf st" "e \<le> length (st_cache st)" "\<forall>w \<in> set ws. w < length (st_p0 st)"
  shows "meet_words st s e z ws = (if \<exists>w \<in> set ws. slot_in st s e w Neg then Neg
    else if z \<or> (\<exists>w \<in> set ws. slot_in st s e w Zero) then Zero else Pos)"
  using assms(3)
proof (induction ws arbitrary: z)
  case (Cons w ws)
  have w: "w < length (st_p0 st)" using Cons.prems by simp
  note tests = word_tests[OF assms(1) w assms(2), of s]
  show ?case
    unfolding meet_words.simps Let_def tests(1,2)
    using Cons tests(4)[of Neg] tests(4)[of Zero] by simp
qed simp

lemma join_words_spec:
  assumes "store_wf st" "e \<le> length (st_cache st)" "\<forall>w \<in> set ws. w < length (st_p0 st)"
  shows "join_words st s e z ws = (if \<exists>w \<in> set ws. slot_in st s e w Pos then Pos
    else if z \<or> (\<exists>w \<in> set ws. slot_in st s e w Zero) then Zero else Neg)"
  using assms(3)
proof (induction ws arbitrary: z)
  case (Cons w ws)
  have w: "w < length (st_p0 st)" using Cons.prems by simp
  note tests = word_tests[OF assms(1) w assms(2), of s]
  show ?case
    unfolding join_words.simps Let_def tests(2,3)
    using Cons tests(4)[of Pos] tests(4)[of Zero] by simp
qed simp

lemma slots_of_range:
  assumes "s + n \<le> length (st_cache st)" "length (st_p0 st) = (length (st_cache st) + 63) div 64"
  shows "(\<exists>w \<in> set [s div 64 ..< min ((s + n + 63) div 64) (length (st_p0 st))]. slot_in st s (s + n) w v)
    = (v \<in> set (take n (drop s (st_cache st))))" (is "?L = ?R")
proof
  assume ?L
  then obtain w j where j: "s \<le> w * 64 + j" "w * 64 + j < s + n" "st_cache st ! (w * 64 + j) = v"
    by (auto simp: slot_in_def)
  then have "take n (drop s (st_cache st)) ! (w * 64 + j - s) = v" "w * 64 + j - s < length (take n (drop s (st_cache st)))"
    using assms(1) by auto
  then show ?R by (metis nth_mem)
next
  assume ?R
  then obtain k where k: "k < n" "st_cache st ! (s + k) = v"
    using assms(1) by (auto simp: in_set_conv_nth)
  let ?d = "s + k"
  have "slot_in st s (s + n) (?d div 64) v"
    unfolding slot_in_def using k by (intro exI[of _ "?d mod 64"]) (simp add: div_mult_mod_eq)
  moreover have "?d div 64 < (s + n + 63) div 64" "?d div 64 < length (st_p0 st)" "s div 64 \<le> ?d div 64"
    using k(1) assms by (simp_all add: div_less_iff_less_mult div_le_mono)
  ultimately show ?L by (intro bexI[of _ "?d div 64"]) simp_all
qed

lemma range_folds:
  assumes "store_wf st" "unat start + unat n \<le> length (st_cache st)"
  shows "meet_all_range st start n = meet_all (take (unat n) (drop (unat start) (st_cache st)))
    \<and> join_any_range st start n = join_any (take (unat n) (drop (unat start) (st_cache st)))"
proof (cases "n = 0")
  case False
  have len: "length (st_p0 st) = (length (st_cache st) + 63) div 64"
    using assms(1) by (simp add: store_wf_def plane_of_def)
  let ?ws = "[unat start div 64 ..< min ((unat start + unat n + 63) div 64) (length (st_p0 st))]"
  have ws: "\<forall>w \<in> set ?ws. w < length (st_p0 st)" by simp
  note slots = slots_of_range[OF assms(2) len]
  show ?thesis
    unfolding meet_all_range_def join_any_range_def Let_def
      meet_words_spec[OF assms(1,2) ws] join_words_spec[OF assms(1,2) ws] slots
    using False by (simp add: meet_all_mem join_any_mem)
qed (simp add: meet_all_range_def join_any_range_def)

text \<open>
  The word-parallel folds over the bit planes equal the scalar folds over the slots they
  cover, for every range inside the cache, at any alignment and length, empty included.
\<close>

theorem range_folds_correct:
  assumes "store_wf st" "unat start + unat n \<le> length (st_cache st)"
  shows "meet_all_range st start n = meet_all (take (unat n) (drop (unat start) (st_cache st)))
    \<and> join_any_range st start n = join_any (take (unat n) (drop (unat start) (st_cache st)))"
  using assms by (rule range_folds)

theorem range_folds_correct_witness:
  "store_wf (fst (alloc (fst (alloc store_new 7)) 8))
   \<and> unat (0 :: u32) + unat (2 :: u32) \<le> length (st_cache (fst (alloc (fst (alloc store_new 7)) 8)))
   \<and> meet_all_range (fst (alloc (fst (alloc store_new 7)) 8)) 0 2 = Neg"
proof -
  have wf: "store_wf (fst (alloc (fst (alloc store_new 7)) 8))"
    by (intro alloc_wf store_wf_new) (simp_all add: alloc_def store_new_def Let_def split: prod.split)
  have c: "st_cache (fst (alloc (fst (alloc store_new 7)) 8)) = [Neg, Neg]"
    by (simp add: alloc_def store_new_def Let_def split: prod.split)
  show ?thesis
    using wf range_folds_correct[OF wf, of 0 2] by (simp add: c meet_def)
qed

text \<open>
  The store behaves as a map from ids to values whose planes follow its cache: every
  operation keeps the plane invariant and the index in range, a write never runs past the planes,
  a read returns the last value written to that id, and a fresh slot starts at \<open>Neg\<close>.
\<close>

theorem store_ops_correct:
  assumes "store_wf st" "length (st_cache st) < 2 ^ 32 - 1" "inj_on (st_idx st) (dom (st_idx st))"
  shows "store_wf (fst (alloc st i)) \<and> store_get (fst (alloc st i)) i = Neg
    \<and> (j \<noteq> i \<longrightarrow> store_get (fst (alloc st i)) j = store_get st j)
    \<and> (\<exists>st'. store_set st i v = Some st' \<and> store_wf st'
         \<and> (st_idx st i \<noteq> None \<longrightarrow> store_get st' i = v)
         \<and> (j \<noteq> i \<longrightarrow> store_get st' j = store_get st j))
    \<and> dealloc st i = store_set st i Neg"
proof -
  have len: "unat (of_nat (length (st_cache st)) :: u32) = length (st_cache st)"
    using assms(2) by (simp add: unat_of_nat)
  have idx: "unat d < length (st_cache st)" if "st_idx st x = Some d" for x d
    using assms(1) that by (simp add: store_wf_def)
  have al: "store_get (fst (alloc st i)) x = (if x = i then Neg else store_get st x)" for x
    using len idx[of x] by (auto simp: store_get_def alloc_def Let_def nth_append
        split: prod.split option.split)
  obtain st' where st': "store_set st i v = Some st'" "store_wf st'" "st_idx st' = st_idx st"
    "st_cache st' = (case st_idx st i of None \<Rightarrow> st_cache st | Some d \<Rightarrow> (st_cache st)[unat d := v])"
    using store_set_wf[OF assms(1)] by blast
  have ne: "unat d \<noteq> unat d'" if "st_idx st i = Some d" "st_idx st j = Some d'" "j \<noteq> i" for d d'
    using inj_onD[OF assms(3), of i j] that by (auto simp: word_unat_eq_iff[symmetric])
  have "store_get st' j = store_get st j" if "j \<noteq> i"
    using st'(3,4) that ne by (auto simp: store_get_def split: option.splits)
  moreover have "st_idx st i \<noteq> None \<longrightarrow> store_get st' i = v"
    using st'(3,4) idx by (auto simp: store_get_def)
  ultimately show ?thesis
    using al[of i] al[of j] alloc_wf[OF assms(1,2)] st'(1,2)
    by (auto simp: dealloc_def store_set_def)
qed

theorem store_ops_correct_witness:
  "store_wf store_new \<and> length (st_cache store_new) < 2 ^ 32 - 1
   \<and> inj_on (st_idx store_new) (dom (st_idx store_new)) \<and> store_get (fst (alloc store_new 7)) 7 = Neg"
proof -
  have h: "length (st_cache store_new) < 2 ^ 32 - 1" "inj_on (st_idx store_new) (dom (st_idx store_new))"
    by (simp_all add: store_new_def)
  show ?thesis using h store_ops_correct[OF store_wf_new h, of 7 7 Pos] by simp
qed

end
