(* ===== verification/Propagate.thy ===== *)
theory Propagate
  imports Deps Value_Store
begin

text \<open>
  The propagation engine of \<^verbatim>\<open>core-rs/src/propagate.rs\<close>: the authority check of one push, one
  push step with its counter shortcut and its dense-cache read, one demand step, and the drain
  loop with its step limit.  A step returns \<open>None\<close> only where the code would panic on an index
  out of range.
\<close>

section \<open>Statistics, work items, events\<close>

record prop_stats =
  nodes_materialized :: u64
  pushes_suppressed_by_mode :: u64
  pushes_suppressed_by_delta :: u64
  demands_fired :: u64
  max_queue_depth :: nat
  max_demand_frontier :: nat
  stabilize_region_size_total :: nat
  pushes_suppressed_by_compiled :: u64

definition stats_zero :: prop_stats where
  "stats_zero = \<lparr>nodes_materialized = 0, pushes_suppressed_by_mode = 0, pushes_suppressed_by_delta = 0,
     demands_fired = 0, max_queue_depth = 0, max_demand_frontier = 0,
     stabilize_region_size_total = 0, pushes_suppressed_by_compiled = 0\<rparr>"

datatype work_item = WPush uid | WDemand uid | WStabilize "uid list"

datatype prop_event =
    ValueChanged uid T T
  | BochvarInfected uid "zero_kind option"
  | DemandFired uid
  | StabilizeQueued "uid list"
  | AuthViolation uid uid gate_reason

section \<open>The authority check of a push\<close>

record auth_context =
  ac_mode :: authority_mode
  ac_unbound :: unbound_policy
  ac_node_partitions :: "uid \<Rightarrow> partition_id option"
  ac_decls :: "partition_id \<Rightarrow> partition_decl option"

definition ctx_emitted_auth :: "auth_context \<Rightarrow> uid \<Rightarrow> compiled_edge_label \<Rightarrow> emitted_auth \<times> bool" where
  "ctx_emitted_auth ctx i c = (case ac_node_partitions ctx i of
      Some pid \<Rightarrow> (case ac_decls ctx pid of
          Some d \<Rightarrow> (emitted_from_local c d, False)
        | None \<Rightarrow> (emitted_unbound, True))
    | None \<Rightarrow> (emitted_unbound, True))"

definition try_auth ::
  "uid \<Rightarrow> uid \<Rightarrow> dep_registry \<Rightarrow> auth_context option \<Rightarrow> prop_event list \<Rightarrow> bool \<times> prop_event list" where
  "try_auth src tgt deps actx events = (case actx of
      None \<Rightarrow> (True, events)
    | Some ctx \<Rightarrow>
        (let compiled = compiled_label_of deps src tgt;
             (emitted, is_unbound) = ctx_emitted_auth ctx src compiled in
         if is_unbound then
           (case ac_unbound ctx of
              Allow \<Rightarrow> (True, events)
            | AuditOnly \<Rightarrow> (True, events @ [AuthViolation src tgt UnboundSource])
            | Deny \<Rightarrow> if ac_mode ctx = Audit
                       then (True, events @ [AuthViolation src tgt UnboundSource])
                       else (False, events))
         else
           (case authority_gate compiled emitted of
              Inr _ \<Rightarrow> (True, events)
            | Inl reason \<Rightarrow>
                (case ac_mode ctx of
                   Advisory \<Rightarrow> (True, events)
                 | Audit \<Rightarrow> (True, events @ [AuthViolation src tgt reason])
                 | Enforced \<Rightarrow> (False, events)))))"

text \<open>
  What each authority mode does to a push.  Without a context, and in Advisory and Audit mode
  for every source with a declared partition, no push is suppressed; Audit records a violation
  exactly when the gate refuses; Enforced suppresses exactly when it refuses, without a record.
  A source without a declared partition is suppressed only by \<open>Deny\<close> outside Audit mode.
\<close>

theorem try_auth_modes:
  "try_auth a b deps None evs = (True, evs)
   \<and> (ac_node_partitions ctx a = Some p \<and> ac_decls ctx p = Some d \<longrightarrow>
        (let refused = \<not> flows_to (pd_lattice_class d) (lattice_class (compiled_label_of deps a b)) in
         fst (try_auth a b deps (Some ctx) evs) = (ac_mode ctx \<noteq> Enforced \<or> \<not> refused)
         \<and> (snd (try_auth a b deps (Some ctx) evs) \<noteq> evs) = (ac_mode ctx = Audit \<and> refused)))
   \<and> (ac_node_partitions ctx a = None \<longrightarrow>
        fst (try_auth a b deps (Some ctx) evs) = (ac_unbound ctx \<noteq> Deny \<or> ac_mode ctx = Audit))
   \<and> (\<exists>new. snd (try_auth a b deps (Some ctx) evs) = evs @ new \<and> length new \<le> 1)"
proof -
  have "\<exists>new. snd (try_auth a b deps (Some ctx) evs) = evs @ new \<and> length new \<le> 1"
    by (auto simp: try_auth_def Let_def split: prod.split unbound_policy.split sum.split authority_mode.split)
  then show ?thesis
    by (auto simp: try_auth_def ctx_emitted_auth_def gate_from_local Let_def
        split: unbound_policy.split authority_mode.split sum.split)
qed

theorem try_auth_modes_witness:
  "ac_node_partitions \<lparr>ac_mode = Enforced, ac_unbound = Deny, ac_node_partitions = [1 \<mapsto> 9],
     ac_decls = [9 \<mapsto> \<lparr>pd_id = 9, authority_root = 9, pd_lattice_class = 4, causal_domain = SCOPE_UNIVERSAL\<rparr>]\<rparr> 1 = Some 9
   \<and> \<not> fst (try_auth 1 2 registry_empty (Some \<lparr>ac_mode = Enforced, ac_unbound = Deny, ac_node_partitions = [1 \<mapsto> 9],
     ac_decls = [9 \<mapsto> \<lparr>pd_id = 9, authority_root = 9, pd_lattice_class = 4, causal_domain = SCOPE_UNIVERSAL\<rparr>]\<rparr>) [])"
  using try_auth_modes[of 1 2 registry_empty "[]" "\<lparr>ac_mode = Enforced, ac_unbound = Deny, ac_node_partitions = [1 \<mapsto> 9],
     ac_decls = [9 \<mapsto> \<lparr>pd_id = 9, authority_root = 9, pd_lattice_class = 4, causal_domain = SCOPE_UNIVERSAL\<rparr>]\<rparr>" 9
     "\<lparr>pd_id = 9, authority_root = 9, pd_lattice_class = 4, causal_domain = SCOPE_UNIVERSAL\<rparr>"]
  by (simp add: Let_def compiled_label_of_def registry_empty_def compiled_permissive_def flows_to_def
      CLASS_BOTTOM_def)

section \<open>One push step\<close>

record world =
  w_graph :: graph
  w_deps :: dep_registry
  w_store :: value_store

record push_loop =
  pl_deps :: dep_registry
  pl_stats :: prop_stats
  pl_events :: "prop_event list"
  pl_work :: "work_item list"

definition gate_open :: "dep_registry \<Rightarrow> uid \<Rightarrow> uid \<Rightarrow> product_time \<Rightarrow> bool" where
  "gate_open deps src sub t = (case dep_meta_of deps src sub of None \<Rightarrow> True | Some m \<Rightarrow> should_propagate m t)"

text \<open>The body the subscriber loops share: the delta gate, the mode gate, the authority gate.\<close>

definition offer_push ::
  "uid \<Rightarrow> product_time \<Rightarrow> auth_context option \<Rightarrow> uid set \<Rightarrow> uid \<Rightarrow> push_loop \<Rightarrow> push_loop" where
  "offer_push i t actx demanded sub L =
     (if \<not> gate_open (pl_deps L) i sub t
      then L\<lparr>pl_stats := (pl_stats L)\<lparr>pushes_suppressed_by_delta := pushes_suppressed_by_delta (pl_stats L) + 1\<rparr>\<rparr>
      else if mode_of (pl_deps L) sub \<noteq> Eager \<and> sub \<notin> demanded
      then L\<lparr>pl_stats := (pl_stats L)\<lparr>pushes_suppressed_by_mode := pushes_suppressed_by_mode (pl_stats L) + 1\<rparr>\<rparr>
      else (let (ok, evs) = try_auth i sub (pl_deps L) actx (pl_events L) in
            if ok then L\<lparr>pl_events := evs, pl_work := pl_work L @ [WPush sub],
                         pl_deps := update_last_seen (pl_deps L) i sub t\<rparr>
            else L\<lparr>pl_events := evs\<rparr>))"

definition visit_sub ::
  "uid \<Rightarrow> product_time \<Rightarrow> auth_context option \<Rightarrow> uid set \<Rightarrow> bool \<Rightarrow> bool \<Rightarrow> T \<Rightarrow> T
     \<Rightarrow> uid \<Rightarrow> push_loop \<Rightarrow> push_loop" where
  "visit_sub i t actx demanded counting offering old new sub L =
     (let L1 = (if counting then L\<lparr>pl_deps := update_dep_counter (pl_deps L) sub old new\<rparr> else L)
      in if offering then offer_push i t actx demanded sub L1 else L1)"

definition visit_subs ::
  "uid \<Rightarrow> product_time \<Rightarrow> auth_context option \<Rightarrow> uid set \<Rightarrow> bool \<Rightarrow> bool \<Rightarrow> T \<Rightarrow> T
     \<Rightarrow> push_loop \<Rightarrow> push_loop" where
  "visit_subs i t actx demanded counting offering old new L =
     fold (visit_sub i t actx demanded counting offering old new) (subs_vec (pl_deps L) i) L"

type_synonym step_result = "world \<times> prop_stats \<times> T option \<times> prop_event list \<times> work_item list"

text \<open>\<open>set_value\<close> on the node and the mirrored write to the dense cache.\<close>

definition write_value :: "world \<Rightarrow> uid \<Rightarrow> T \<Rightarrow> world option" where
  "write_value w i v = map_option
     (\<lambda>st. w\<lparr>w_graph := node_mut (w_graph w) i (\<lambda>n. fst (node_set_value n v)), w_store := st\<rparr>)
     (store_set (w_store w) i v)"

definition materialize ::
  "uid \<Rightarrow> T \<Rightarrow> T \<Rightarrow> prop_event list \<Rightarrow> prop_stats \<Rightarrow> world \<Rightarrow> (world \<times> prop_stats \<times> prop_event list) option" where
  "materialize i old new events stats w =
     (if new \<noteq> old
      then map_option (\<lambda>w'. (w', stats\<lparr>nodes_materialized := nodes_materialized stats + 1\<rparr>,
             events @ [ValueChanged i old new])) (write_value w i new)
      else Some (w, stats, events))"

definition finish_loop :: "world \<Rightarrow> T \<Rightarrow> push_loop \<Rightarrow> step_result" where
  "finish_loop w new L = (w\<lparr>w_deps := pl_deps L\<rparr>, pl_stats L, Some new, pl_events L, pl_work L)"

definition counter_shortcut :: "dep_registry \<Rightarrow> uid \<Rightarrow> compute_rule \<Rightarrow> dep_counters option" where
  "counter_shortcut deps i rule =
     (if rule \<in> {MeetAll, JoinAny} \<and> mode_of deps i \<noteq> Stabilizing then
        (case dep_counter_of deps i of
           None \<Rightarrow> None
         | Some ctrs \<Rightarrow>
             (let di = ordered_dep_indices_of deps i;
                  n_deps = (if di \<noteq> [] then length di else length (ordered_deps_of deps i)) in
              if n_deps > 0 \<and> unat (counters_total ctrs) = n_deps then Some ctrs else None))
      else None)"

definition push_by_counter ::
  "uid \<Rightarrow> T \<Rightarrow> T \<Rightarrow> product_time \<Rightarrow> auth_context option \<Rightarrow> uid set \<Rightarrow> prop_stats \<Rightarrow> world \<Rightarrow> step_result option" where
  "push_by_counter i old new t actx demanded stats w =
     (if new = Neg then Some (w, stats, None, [], [])
      else if new = Zero then
        map_option (\<lambda>(w1, stats1, events1).
            finish_loop w1 new (visit_subs i t actx demanded (new \<noteq> old) (mode_of (w_deps w1) i = Eager) old new
              \<lparr>pl_deps = w_deps w1, pl_stats = stats1, pl_events = events1, pl_work = []\<rparr>))
          (materialize i old new [BochvarInfected i None] stats w)
      else if new \<noteq> old then
        map_option (\<lambda>(w1, stats1, events1).
            finish_loop w1 new (visit_subs i t actx demanded True True old new
              \<lparr>pl_deps = w_deps w1, pl_stats = stats1, pl_events = events1, pl_work = []\<rparr>))
          (materialize i old new [] stats w)
      else Some (w, stats, Some new, [], []))"

definition read_dep_vals :: "world \<Rightarrow> uid \<Rightarrow> T list option" where
  "read_dep_vals w i =
     (let idx = ordered_dep_indices_of (w_deps w) i; cache = st_cache (w_store w) in
      if idx \<noteq> [] then
        (if list_all (\<lambda>d. unat d < length cache) idx then Some (map (\<lambda>d. cache ! unat d) idx) else None)
      else Some (map (\<lambda>d. case graph_node (w_graph w) d of None \<Rightarrow> Neg | Some n \<Rightarrow> n_value n)
             (ordered_deps_of (w_deps w) i)))"

definition push_by_scan ::
  "uid \<Rightarrow> compute_rule \<Rightarrow> T \<Rightarrow> T list \<Rightarrow> product_time \<Rightarrow> auth_context option \<Rightarrow> uid set \<Rightarrow> prop_stats
     \<Rightarrow> world \<Rightarrow> step_result option" where
  "push_by_scan i rule old vals t actx demanded stats w =
     (case propagation_state vals of
        Ready \<Rightarrow>
          (let new = or_default Neg (rule_eval rule vals) in
           if new \<noteq> old then
             map_option (\<lambda>(w1, stats1, events1).
                 finish_loop w1 new (visit_subs i t actx demanded True True old new
                   \<lparr>pl_deps = w_deps w1, pl_stats = stats1, pl_events = events1, pl_work = []\<rparr>))
               (materialize i old new [] stats w)
           else Some (w, stats, Some new, [], []))
      | Pending \<Rightarrow> Some (w, stats, None, [], [])
      | Conflicted \<Rightarrow>
          map_option (\<lambda>(w1, stats1, events1).
              let L0 = \<lparr>pl_deps = w_deps w1, pl_stats = stats1, pl_events = events1, pl_work = []\<rparr>;
                  L1 = visit_subs i t actx demanded (Zero \<noteq> old) False old Zero L0 in
              (case mode_of (w_deps w1) i of
                 Stabilizing \<Rightarrow>
                   (let region = ordered_deps_of (w_deps w) i @ [i] in
                    finish_loop w1 Zero (L1\<lparr>pl_work := pl_work L1 @ [WStabilize region],
                      pl_events := pl_events L1 @ [StabilizeQueued region]\<rparr>))
               | Lazy \<Rightarrow> finish_loop w1 Zero L1
               | Eager \<Rightarrow> finish_loop w1 Zero (visit_subs i t actx demanded False True old Zero L1)))
            (materialize i old Zero [BochvarInfected i None] stats w))"

definition step_push ::
  "uid \<Rightarrow> product_time \<Rightarrow> auth_context option \<Rightarrow> uid set \<Rightarrow> prop_stats \<Rightarrow> world \<Rightarrow> step_result option" where
  "step_push i t actx demanded stats w =
     (case graph_node (w_graph w) i of
        None \<Rightarrow> Some (w, stats, None, [], [])
      | Some node \<Rightarrow>
          (case n_kind node of
             Input \<Rightarrow> Some (w, stats, None, [], [])
           | Computed rule \<Rightarrow>
               (case counter_shortcut (w_deps w) i rule of
                  Some ctrs \<Rightarrow> push_by_counter i (n_value node) (eval_aggregate ctrs) t actx demanded stats w
                | None \<Rightarrow> Option.bind (read_dep_vals w i)
                    (\<lambda>vals. push_by_scan i rule (n_value node) vals t actx demanded stats w))))"

section \<open>One demand step and the drain loop\<close>

definition step_demand :: "uid \<Rightarrow> world \<Rightarrow> prop_event list \<times> work_item list" where
  "step_demand i w =
     (let dep_ids = sorted_uids (deps_of (w_deps w) i);
          pending = filter (\<lambda>d. is_pending (case graph_node (w_graph w) d of None \<Rightarrow> Neg | Some n \<Rightarrow> n_value n)) dep_ids
      in ([DemandFired i], map WDemand pending @ [WPush i]))"

record prop_engine =
  pe_queue :: "work_item list"
  pe_events :: "prop_event list"
  pe_stats :: prop_stats
  pe_demanded :: "uid set"

definition prop_engine_new :: prop_engine where
  "prop_engine_new = \<lparr>pe_queue = [], pe_events = [], pe_stats = stats_zero, pe_demanded = {}\<rparr>"

definition enqueue :: "prop_engine \<Rightarrow> work_item \<Rightarrow> prop_engine" where
  "enqueue pe x = pe\<lparr>pe_queue := pe_queue pe @ [x]\<rparr>"

definition reset_stats :: "prop_engine \<Rightarrow> prop_engine" where
  "reset_stats pe = pe\<lparr>pe_stats := stats_zero\<rparr>"

definition is_idle :: "prop_engine \<Rightarrow> bool" where
  "is_idle pe = (pe_queue pe = [])"

definition is_demand :: "work_item \<Rightarrow> bool" where
  "is_demand x = (case x of WDemand _ \<Rightarrow> True | _ \<Rightarrow> False)"

datatype prop_error = StepLimitExceeded nat

definition raise_frontier :: "nat \<Rightarrow> prop_stats \<Rightarrow> prop_stats" where
  "raise_frontier f s = (if f > max_demand_frontier s then s\<lparr>max_demand_frontier := f\<rparr> else s)"

definition bitset_member :: "u64 list \<Rightarrow> u32 \<Rightarrow> bool" where
  "bitset_member bs d = (let wd = unat d div 64; bt = unat d mod 64 in
     wd < length bs \<and> bs ! wd AND push_bit bt 1 \<noteq> 0)"

definition compiled_skip :: "u64 list \<Rightarrow> world \<Rightarrow> uid \<Rightarrow> bool" where
  "compiled_skip handled w i = (handled \<noteq> [] \<and>
     (case dense_index (w_store w) i of None \<Rightarrow> False | Some d \<Rightarrow> bitset_member handled d))"

text \<open>The two queueing loops: after a push every item goes to the back, after a demand
  sub-demands go to the front.\<close>

definition queue_pushed :: "work_item \<Rightarrow> nat \<times> prop_engine \<Rightarrow> nat \<times> prop_engine" where
  "queue_pushed x = (\<lambda>(f, pe).
     let f' = (if is_demand x then f + 1 else f);
         s' = (if is_demand x then raise_frontier f' (pe_stats pe) else pe_stats pe)
     in (f', pe\<lparr>pe_stats := s', pe_queue := pe_queue pe @ [x]\<rparr>))"

definition queue_demanded :: "work_item \<Rightarrow> nat \<times> prop_engine \<Rightarrow> nat \<times> prop_engine" where
  "queue_demanded x = (\<lambda>(f, pe).
     if is_demand x
     then (f + 1, pe\<lparr>pe_stats := raise_frontier (f + 1) (pe_stats pe), pe_queue := x # pe_queue pe\<rparr>)
     else (f, pe\<lparr>pe_queue := pe_queue pe @ [x]\<rparr>))"

definition drain_item ::
  "product_time \<Rightarrow> auth_context option \<Rightarrow> u64 list \<Rightarrow> work_item \<Rightarrow> nat \<Rightarrow> prop_engine \<Rightarrow> world
     \<Rightarrow> (nat \<times> prop_engine \<times> world) option" where
  "drain_item t actx handled item frontier pe w = (case item of
      WPush i \<Rightarrow>
        if compiled_skip handled w i
        then Some (frontier, pe\<lparr>pe_stats := (pe_stats pe)\<lparr>pushes_suppressed_by_compiled :=
               pushes_suppressed_by_compiled (pe_stats pe) + 1\<rparr>\<rparr>, w)
        else map_option (\<lambda>(w', stats', r, evs, work).
               let (f', pe') = fold queue_pushed work
                     (frontier, pe\<lparr>pe_stats := stats', pe_events := pe_events pe @ evs\<rparr>)
               in (f', pe', w'))
             (step_push i t actx (pe_demanded pe) (pe_stats pe) w)
    | WDemand i \<Rightarrow>
        (let f1 = (if frontier > 0 then frontier - 1 else frontier);
             pe1 = pe\<lparr>pe_stats := (pe_stats pe)\<lparr>demands_fired := demands_fired (pe_stats pe) + 1\<rparr>,
                      pe_demanded := insert i (pe_demanded pe)\<rparr>;
             (evs, work) = step_demand i w;
             (f', pe') = fold queue_demanded work (f1, pe1\<lparr>pe_events := pe_events pe1 @ evs\<rparr>)
         in Some (f', pe', w))
    | WStabilize region \<Rightarrow>
        Some (frontier, pe\<lparr>pe_stats := (pe_stats pe)\<lparr>stabilize_region_size_total :=
                stabilize_region_size_total (pe_stats pe) + length region\<rparr>,
              pe_events := pe_events pe @ [StabilizeQueued region]\<rparr>, w))"

text \<open>\<open>steps\<close> is what is left of \<open>max_steps\<close>; the item popped when none is left is lost.\<close>

fun drain_loop ::
  "product_time \<Rightarrow> auth_context option \<Rightarrow> u64 list \<Rightarrow> nat \<Rightarrow> nat \<Rightarrow> nat \<Rightarrow> prop_engine \<Rightarrow> world
     \<Rightarrow> ((prop_error + unit) \<times> prop_engine \<times> world) option" where
  "drain_loop t actx handled max_steps steps frontier pe w = (case pe_queue pe of
      [] \<Rightarrow> Some (Inr (), pe\<lparr>pe_demanded := {}\<rparr>, w)
    | item # queue \<Rightarrow>
        (case steps of
           0 \<Rightarrow> Some (Inl (StepLimitExceeded max_steps), pe\<lparr>pe_queue := queue\<rparr>, w)
         | Suc steps' \<Rightarrow>
             (let depth = length queue + 1;
                  pe1 = pe\<lparr>pe_queue := queue, pe_stats :=
                          (if depth > max_queue_depth (pe_stats pe)
                           then (pe_stats pe)\<lparr>max_queue_depth := depth\<rparr> else pe_stats pe)\<rparr>
              in (case drain_item t actx handled item frontier pe1 w of
                    None \<Rightarrow> None
                  | Some (frontier', pe2, w') \<Rightarrow>
                      drain_loop t actx handled max_steps steps' frontier' pe2 w'))))"

definition drain ::
  "product_time \<Rightarrow> auth_context option \<Rightarrow> u64 list \<Rightarrow> nat \<Rightarrow> prop_engine \<Rightarrow> world
     \<Rightarrow> ((prop_error + unit) \<times> prop_engine \<times> world) option" where
  "drain t actx handled max_steps pe w =
     (let frontier = length (filter is_demand (pe_queue pe))
      in drain_loop t actx handled max_steps max_steps frontier
           (pe\<lparr>pe_stats := raise_frontier frontier (pe_stats pe)\<rparr>) w)"

section \<open>What the subscriber loops do\<close>

definition accepts :: "uid \<Rightarrow> product_time \<Rightarrow> auth_context option \<Rightarrow> uid set \<Rightarrow> dep_registry \<Rightarrow> uid \<Rightarrow> bool" where
  "accepts i t actx demanded deps sub \<longleftrightarrow> gate_open deps i sub t
     \<and> (mode_of deps sub = Eager \<or> sub \<in> demanded) \<and> fst (try_auth i sub deps actx [])"

text \<open>What a step may not change in the registry.\<close>

definition same_topology :: "dep_registry \<Rightarrow> dep_registry \<Rightarrow> bool" where
  "same_topology r r' \<longleftrightarrow> dr_deps r' = dr_deps r \<and> dr_subs r' = dr_subs r \<and> dr_modes r' = dr_modes r
     \<and> dr_ordered r' = dr_ordered r \<and> dr_indices r' = dr_indices r \<and> dr_epochs r' = dr_epochs r
     \<and> dr_epoch_counter r' = dr_epoch_counter r
     \<and> (\<forall>x y. map_option dm_label (dep_meta_of r' x y) = map_option dm_label (dep_meta_of r x y))"

lemma same_topology_refl [simp]: "same_topology r r"
  by (simp add: same_topology_def)

lemma same_topology_trans: "same_topology r s \<Longrightarrow> same_topology s u \<Longrightarrow> same_topology r u"
  by (simp add: same_topology_def)

lemma same_topology_queries:
  assumes "same_topology r r'"
  shows "deps_of r' = deps_of r" "subs_of r' = subs_of r" "mode_of r' = mode_of r"
    "ordered_deps_of r' = ordered_deps_of r" "ordered_dep_indices_of r' = ordered_dep_indices_of r"
    "subs_vec r' = subs_vec r" "compiled_label_of r' x y = compiled_label_of r x y"
  using assms by (auto simp: same_topology_def registry_queries mode_of_def subs_vec_def
      compiled_label_of_def fun_eq_iff)

lemma same_topology_counter: "same_topology r (update_dep_counter r s a b)"
  by (simp add: same_topology_def update_dep_counter_def dep_meta_of_def)

lemma same_topology_seen: "same_topology r (update_last_seen r a b t)"
  by (auto simp: same_topology_def update_last_seen_def dep_meta_of_def option.map_comp comp_def)

lemma counter_meta [simp]: "dep_meta_of (update_dep_counter r s a b) x y = dep_meta_of r x y"
  by (simp add: update_dep_counter_def dep_meta_of_def)

lemma seen_counter [simp]: "dep_counter_of (update_last_seen r a b t) x = dep_counter_of r x"
  by (simp add: update_last_seen_def dep_counter_of_def)

lemma counter_counter: "dep_counter_of (update_dep_counter r s a b) x =
    (if x = s then map_option (\<lambda>c. counters_update c a b) (dep_counter_of r x) else dep_counter_of r x)"
  by (simp add: update_dep_counter_def dep_counter_of_def)

lemma try_auth_ok: "fst (try_auth a b deps actx evs) = fst (try_auth a b deps actx [])"
  by (auto simp: try_auth_def Let_def split: option.split prod.split unbound_policy.split
      sum.split authority_mode.split)

lemma try_auth_cong:
  "compiled_label_of r' a b = compiled_label_of r a b \<Longrightarrow> try_auth a b r' actx evs = try_auth a b r actx evs"
  by (cases actx) (simp_all add: try_auth_def)

lemma accepts_cong:
  assumes "same_topology r r'" "dep_meta_of r' i s = dep_meta_of r i s"
  shows "accepts i t actx dem r' s = accepts i t actx dem r s"
  using assms same_topology_queries[OF assms(1)]
  by (simp add: accepts_def gate_open_def try_auth_cong[of r' i s r])

lemma offer_push_effect:
  fixes L :: push_loop and i s :: uid and t :: product_time and actx :: "auth_context option"
    and dem :: "uid set"
  defines "L' \<equiv> offer_push i t actx dem s L"
  shows "pl_work L' = pl_work L @ (if accepts i t actx dem (pl_deps L) s then [WPush s] else [])"
    and "pl_deps L' = (if accepts i t actx dem (pl_deps L) s then update_last_seen (pl_deps L) i s t else pl_deps L)"
  using try_auth_ok[of i s "pl_deps L" actx "pl_events L"]
  by (auto simp: L'_def offer_push_def accepts_def split: prod.split)

definition stamp :: "product_time \<Rightarrow> dep_meta \<Rightarrow> dep_meta" where
  "stamp t m = m\<lparr>dm_last_seen := time_join (dm_last_seen m) t\<rparr>"

lemma visit_subs_fold:
  fixes L :: push_loop and i a b :: uid and t :: product_time and actx :: "auth_context option"
    and dem :: "uid set" and counting offering :: bool and old new :: T
  defines "L' \<equiv> \<lambda>xs L. fold (visit_sub i t actx dem counting offering old new) xs L"
  assumes "distinct xs"
  shows "(pl_work (L' xs L) = pl_work L @
      (if offering then map WPush (filter (accepts i t actx dem (pl_deps L)) xs) else []))
    \<and> same_topology (pl_deps L) (pl_deps (L' xs L))
    \<and> (\<forall>b. dep_counter_of (pl_deps (L' xs L)) b = (if counting \<and> b \<in> set xs
      then map_option (\<lambda>c. counters_update c old new) (dep_counter_of (pl_deps L) b)
      else dep_counter_of (pl_deps L) b))
    \<and> (\<forall>a b. dep_meta_of (pl_deps (L' xs L)) a b =
      (if offering \<and> a = i \<and> b \<in> set xs \<and> accepts i t actx dem (pl_deps L) b
       then map_option (stamp t) (dep_meta_of (pl_deps L) a b) else dep_meta_of (pl_deps L) a b))"
  using assms(2)
proof (induction xs arbitrary: L)
  case Nil
  show ?case by (simp add: L'_def)
next
  case (Cons x xs)
  define L1 where "L1 = visit_sub i t actx dem counting offering old new x L"
  have step: "L' (x # xs) L = L' xs L1" by (simp add: L'_def L1_def)
  define Lc where "Lc = (if counting then L\<lparr>pl_deps := update_dep_counter (pl_deps L) x old new\<rparr> else L)"
  have L1: "L1 = (if offering then offer_push i t actx dem x Lc else Lc)"
    by (simp add: L1_def Lc_def visit_sub_def)
  have Lc: "same_topology (pl_deps L) (pl_deps Lc)" "pl_work Lc = pl_work L"
    "dep_meta_of (pl_deps Lc) u v = dep_meta_of (pl_deps L) u v"
    "dep_counter_of (pl_deps Lc) v = (if counting \<and> v = x
      then map_option (\<lambda>c. counters_update c old new) (dep_counter_of (pl_deps L) v)
      else dep_counter_of (pl_deps L) v)" for u v
    by (auto simp: Lc_def same_topology_counter counter_counter)
  have accx: "accepts i t actx dem (pl_deps Lc) v = accepts i t actx dem (pl_deps L) v" for v
    by (rule accepts_cong[OF Lc(1) Lc(3)])
  have w1: "pl_work L1 = pl_work L @ (if offering \<and> accepts i t actx dem (pl_deps L) x then [WPush x] else [])"
    using offer_push_effect(1)[of i t actx dem x Lc] Lc(2) accx by (simp add: L1)
  have d1: "pl_deps L1 = (if offering \<and> accepts i t actx dem (pl_deps L) x
      then update_last_seen (pl_deps Lc) i x t else pl_deps Lc)"
    using offer_push_effect(2)[of i t actx dem x Lc] accx by (simp add: L1)
  have top: "same_topology (pl_deps L) (pl_deps L1)"
    using same_topology_trans[OF Lc(1) same_topology_seen] Lc(1) by (simp add: d1)
  have meta1: "dep_meta_of (pl_deps L1) u v = (if offering \<and> u = i \<and> v = x \<and> accepts i t actx dem (pl_deps L) x
      then map_option (stamp t) (dep_meta_of (pl_deps L) u v) else dep_meta_of (pl_deps L) u v)" for u v
    by (auto simp: d1 last_seen_meta Lc(3) stamp_def[abs_def])
  have cnt1: "dep_counter_of (pl_deps L1) v = dep_counter_of (pl_deps Lc) v" for v
    by (simp add: d1)
  have acc1: "accepts i t actx dem (pl_deps L1) v = accepts i t actx dem (pl_deps L) v" if "v \<noteq> x" for v
    using that by (intro accepts_cong[OF top]) (simp add: meta1)
  have filt: "filter (accepts i t actx dem (pl_deps L1)) xs = filter (accepts i t actx dem (pl_deps L)) xs"
  proof (rule filter_cong[OF refl])
    fix v assume "v \<in> set xs"
    then have "v \<noteq> x" using Cons.prems by auto
    then show "accepts i t actx dem (pl_deps L1) v = accepts i t actx dem (pl_deps L) v" by (rule acc1)
  qed
  have x: "x \<notin> set xs" and d: "distinct xs" using Cons.prems by auto
  note IH = Cons.IH[OF d, of L1]
  have "pl_work (L' (x # xs) L) = pl_work L @
      (if offering then map WPush (filter (accepts i t actx dem (pl_deps L)) (x # xs)) else [])"
    using conjunct1[OF IH] w1 filt by (simp add: step)
  moreover have "same_topology (pl_deps L) (pl_deps (L' (x # xs) L))"
    using IH same_topology_trans[OF top] by (simp add: step)
  moreover have "dep_counter_of (pl_deps (L' (x # xs) L)) b = (if counting \<and> b \<in> set (x # xs)
      then map_option (\<lambda>c. counters_update c old new) (dep_counter_of (pl_deps L) b)
      else dep_counter_of (pl_deps L) b)" for b
    using IH x by (auto simp: step cnt1 Lc(4))
  moreover have "dep_meta_of (pl_deps (L' (x # xs) L)) a b =
      (if offering \<and> a = i \<and> b \<in> set (x # xs) \<and> accepts i t actx dem (pl_deps L) b
       then map_option (stamp t) (dep_meta_of (pl_deps L) a b) else dep_meta_of (pl_deps L) a b)" for a b
    using IH x acc1[of b] by (auto simp: step meta1)
  ultimately show ?case by blast
qed

lemma visit_subs_effect:
  fixes L :: push_loop and i a b :: uid and t :: product_time and actx :: "auth_context option"
    and dem :: "uid set" and counting offering :: bool and old new :: T
  defines "L' \<equiv> visit_subs i t actx dem counting offering old new L"
  assumes "dr_wf (pl_deps L)"
  shows "pl_work L' = pl_work L @
      (if offering then map WPush (filter (accepts i t actx dem (pl_deps L)) (subs_vec (pl_deps L) i)) else [])"
    and "same_topology (pl_deps L) (pl_deps L')"
    and "dep_counter_of (pl_deps L') b = (if counting \<and> b \<in> subs_of (pl_deps L) i
      then map_option (\<lambda>c. counters_update c old new) (dep_counter_of (pl_deps L) b)
      else dep_counter_of (pl_deps L) b)"
    and "dep_meta_of (pl_deps L') a b =
      (if offering \<and> a = i \<and> b \<in> subs_of (pl_deps L) i \<and> accepts i t actx dem (pl_deps L) b
       then map_option (stamp t) (dep_meta_of (pl_deps L) a b) else dep_meta_of (pl_deps L) a b)"
proof -
  have s: "set (subs_vec (pl_deps L) i) = subs_of (pl_deps L) i" "distinct (subs_vec (pl_deps L) i)"
    using dr_wfD(3)[OF assms(2), of i] by (simp_all add: subs_vec_def subs_of_def)
  note eff = visit_subs_fold[OF s(2), where i=i and t=t and actx=actx and dem=dem
      and counting=counting and offering=offering and old=old and new=new and L=L, unfolded s(1)]
  show "pl_work L' = pl_work L @
      (if offering then map WPush (filter (accepts i t actx dem (pl_deps L)) (subs_vec (pl_deps L) i)) else [])"
    unfolding L'_def visit_subs_def using eff by blast
  show "same_topology (pl_deps L) (pl_deps L')"
    unfolding L'_def visit_subs_def using eff by blast
  show "dep_counter_of (pl_deps L') b = (if counting \<and> b \<in> subs_of (pl_deps L) i
      then map_option (\<lambda>c. counters_update c old new) (dep_counter_of (pl_deps L) b)
      else dep_counter_of (pl_deps L) b)"
    unfolding L'_def visit_subs_def using eff by blast
  show "dep_meta_of (pl_deps L') a b =
      (if offering \<and> a = i \<and> b \<in> subs_of (pl_deps L) i \<and> accepts i t actx dem (pl_deps L) b
       then map_option (stamp t) (dep_meta_of (pl_deps L) a b) else dep_meta_of (pl_deps L) a b)"
    unfolding L'_def visit_subs_def using eff by blast
qed

section \<open>Consistency of graph, cache, registry and counters\<close>

definition w_value :: "world \<Rightarrow> uid \<Rightarrow> T" where
  "w_value w i = store_get (w_store w) i"

definition dep_values :: "world \<Rightarrow> uid \<Rightarrow> T list" where
  "dep_values w b = map (w_value w) (ordered_deps_of (w_deps w) b)"

definition cells_agree :: "graph \<Rightarrow> value_store \<Rightarrow> bool" where
  "cells_agree g st \<longleftrightarrow> (\<forall>i. case graph_node g i of
      None \<Rightarrow> store_get st i = Neg
    | Some n \<Rightarrow> st_idx st i \<noteq> None \<and> n_value n = store_get st i)"

definition simple_deps :: "dep_registry \<Rightarrow> value_store \<Rightarrow> bool" where
  "simple_deps r st \<longleftrightarrow> lockstep (\<lambda>a. the (st_idx st a)) r
     \<and> (\<forall>b. distinct (ordered_deps_of r b) \<and> set (ordered_deps_of r b) = deps_of r b
          \<and> length (ordered_deps_of r b) + 1 < 2 ^ 32
          \<and> (\<forall>a \<in> deps_of r b. st_idx st a \<noteq> None))"

definition counters_agree :: "world \<Rightarrow> bool" where
  "counters_agree w \<longleftrightarrow> (\<forall>b c. dep_counter_of (w_deps w) b = Some c \<longrightarrow> counts c (dep_values w b))
     \<and> (\<forall>b. dep_counter_of (w_deps w) b = None \<longrightarrow> ordered_deps_of (w_deps w) b = [])"

definition world_wf :: "world \<Rightarrow> bool" where
  "world_wf w \<longleftrightarrow> graph_wf (w_graph w) \<and> dr_wf (w_deps w) \<and> store_wf (w_store w)
     \<and> inj_on (st_idx (w_store w)) (dom (st_idx (w_store w)))
     \<and> cells_agree (w_graph w) (w_store w) \<and> simple_deps (w_deps w) (w_store w) \<and> counters_agree w"

lemma read_dep_vals_correct:
  assumes "world_wf w"
  shows "read_dep_vals w i = Some (dep_values w i)"
proof -
  let ?od = "ordered_deps_of (w_deps w) i"
  have idx: "ordered_dep_indices_of (w_deps w) i = map (\<lambda>a. the (st_idx (w_store w) a)) ?od"
    using assms by (simp add: world_wf_def simple_deps_def lockstep_def)
  have def: "\<exists>d. st_idx (w_store w) a = Some d \<and> unat d < length (st_cache (w_store w))" if "a \<in> set ?od" for a
    using assms that by (fastforce simp: world_wf_def simple_deps_def store_wf_def)
  have "st_cache (w_store w) ! unat (the (st_idx (w_store w) a)) = w_value w a" if "a \<in> set ?od" for a
    using def[OF that] by (auto simp: w_value_def store_get_def)
  moreover have "unat (the (st_idx (w_store w) a)) < length (st_cache (w_store w))" if "a \<in> set ?od" for a
    using def[OF that] by auto
  ultimately show ?thesis
    by (simp add: read_dep_vals_def Let_def idx dep_values_def list_all_iff)
qed

lemma counts_cong: "(\<And>v. count_list xs v = count_list ys v) \<Longrightarrow> counts c xs = counts c ys"
  by (simp add: counts_def)

lemma count_after_write:
  assumes "distinct xs" "i \<in> set xs"
  shows "count_list (map (f(i := new)) xs) v = count_list (remove1 (f i) (map f xs) @ [new]) v"
proof -
  have "count_list (map (f(i := new)) xs) v + (if v = f i then 1 else 0)
      = count_list (map f xs) v + (if v = new then 1 else 0)"
    using assms
  proof (induction xs)
    case (Cons x xs)
    show ?case
    proof (cases "x = i")
      case True
      then have "count_list (map (f(i := new)) xs) v = count_list (map f xs) v"
        using Cons.prems(1) by (simp add: map_fun_upd del: fun_upd_apply)
      then show ?thesis using True by (auto simp: fun_upd_same simp del: fun_upd_apply)
    qed (use Cons in auto)
  qed simp
  moreover have "f i \<in> set (map f xs)" using assms(2) by simp
  then have "count_list (map f xs) (f i) > 0" by (metis count_list_0_iff neq0_conv)
  ultimately show ?thesis by (auto simp: count_list_remove1 split: if_splits)
qed

text \<open>The part of it that relates the graph and its dense mirror.\<close>

definition mirror_wf :: "world \<Rightarrow> bool" where
  "mirror_wf w \<longleftrightarrow> graph_wf (w_graph w) \<and> store_wf (w_store w)
     \<and> inj_on (st_idx (w_store w)) (dom (st_idx (w_store w))) \<and> cells_agree (w_graph w) (w_store w)"

lemma world_wf_mirror: "world_wf w \<Longrightarrow> mirror_wf w"
  by (simp add: world_wf_def mirror_wf_def)

lemma write_value_effect:
  assumes "mirror_wf w" "graph_node (w_graph w) i = Some n"
  shows "\<exists>w'. write_value w i v = Some w' \<and> w_deps w' = w_deps w \<and> graph_wf (w_graph w')
    \<and> store_wf (w_store w') \<and> st_idx (w_store w') = st_idx (w_store w)
    \<and> (\<forall>x. w_value w' x = (if x = i then v else w_value w x))
    \<and> cells_agree (w_graph w') (w_store w')
    \<and> (\<forall>x. map_option n_kind (graph_node (w_graph w') x) = map_option n_kind (graph_node (w_graph w) x))"
proof -
  let ?st = "w_store w"
  have wf: "store_wf ?st" and inj: "inj_on (st_idx ?st) (dom (st_idx ?st))" and gw: "graph_wf (w_graph w)"
    and cells: "cells_agree (w_graph w) ?st"
    using assms(1) by (simp_all add: mirror_wf_def)
  obtain d where d: "st_idx ?st i = Some d"
    using cells assms(2) by (fastforce simp: cells_agree_def dest: spec[of _ i])
  obtain st' where st': "store_set ?st i v = Some st'" "store_wf st'" "st_idx st' = st_idx ?st"
    "st_cache st' = (st_cache ?st)[unat d := v]"
    using store_set_wf[OF wf, of i v] d by auto
  have dl: "unat d < length (st_cache ?st)" using wf d by (simp add: store_wf_def)
  have val: "store_get st' x = (if x = i then v else store_get ?st x)" for x
  proof (cases "x = i")
    case True
    then show ?thesis using d dl st'(3,4) by (simp add: store_get_def)
  next
    case False
    have "unat d' \<noteq> unat d" if "st_idx ?st x = Some d'" for d'
      using inj_onD[OF inj, of x i] that d False by (auto simp: word_unat_eq_iff[symmetric])
    then show ?thesis using False st'(3,4) by (auto simp: store_get_def split: option.split)
  qed
  let ?g = "node_mut (w_graph w) i (\<lambda>n. fst (node_set_value n v))"
  have "cells_agree ?g st'"
    using cells d assms(2) unfolding cells_agree_def val st'(3)
    by (auto simp: frame_simps split: option.splits)
  moreover have "map_option n_kind (graph_node ?g x) = map_option n_kind (graph_node (w_graph w) x)" for x
    by (cases "graph_node (w_graph w) x"; cases "x = i") (simp_all add: frame_simps)
  ultimately show ?thesis
    using st' gw by (simp add: write_value_def w_value_def val graph_wf_ops frame_simps)
qed

lemma simple_deps_cong: "same_topology r r' \<Longrightarrow> st_idx st' = st_idx st \<Longrightarrow> simple_deps r' st' = simple_deps r st"
  by (simp add: simple_deps_def lockstep_def same_topology_queries)

lemma dr_wf_cong: "same_topology r r' \<Longrightarrow> dr_wf r' = dr_wf r"
  by (simp add: converse_maps_def same_topology_queries)

lemma materialize_effect:
  assumes wf: "world_wf w" and node: "graph_node (w_graph w) i = Some n"
    and top: "same_topology (w_deps w) r'"
    and cnt: "\<And>b. dep_counter_of r' b = (if new \<noteq> n_value n \<and> b \<in> subs_of (w_deps w) i
      then map_option (\<lambda>c. counters_update c (n_value n) new) (dep_counter_of (w_deps w) b)
      else dep_counter_of (w_deps w) b)"
  shows "\<exists>w1 s1 e1. materialize i (n_value n) new evs stats w = Some (w1, s1, e1) \<and> w_deps w1 = w_deps w
    \<and> world_wf (w1\<lparr>w_deps := r'\<rparr>)
    \<and> (\<forall>x. w_value w1 x = (if x = i then new else w_value w x))
    \<and> (\<forall>x. map_option n_kind (graph_node (w_graph w1) x) = map_option n_kind (graph_node (w_graph w) x))"
proof -
  have old: "w_value w i = n_value n" and parts: "dr_wf (w_deps w)" "simple_deps (w_deps w) (w_store w)"
    "counters_agree w"
    using wf node by (auto simp: world_wf_def cells_agree_def w_value_def dest: spec[of _ i])
  show ?thesis
  proof (cases "new = n_value n")
    case True
    have "counters_agree (w\<lparr>w_deps := r'\<rparr>)"
      using parts(3) cnt True top
      by (simp add: counters_agree_def dep_values_def w_value_def[abs_def] same_topology_queries)
    then have "world_wf (w\<lparr>w_deps := r'\<rparr>)"
      using wf top by (simp add: world_wf_def dr_wf_cong simple_deps_cong)
    then show ?thesis using True old by (auto simp: materialize_def)
  next
    case False
    obtain w1 where w1: "write_value w i new = Some w1" "w_deps w1 = w_deps w" "graph_wf (w_graph w1)"
      "store_wf (w_store w1)" "st_idx (w_store w1) = st_idx (w_store w)"
      "\<And>x. w_value w1 x = (if x = i then new else w_value w x)"
      "cells_agree (w_graph w1) (w_store w1)"
      "\<And>x. map_option n_kind (graph_node (w_graph w1) x) = map_option n_kind (graph_node (w_graph w) x)"
      using write_value_effect[OF world_wf_mirror[OF wf] node, of new] by blast
    have vals: "dep_values (w1\<lparr>w_deps := r'\<rparr>) b = map ((w_value w)(i := new)) (ordered_deps_of (w_deps w) b)" for b
      using top w1(6) by (simp add: dep_values_def w_value_def same_topology_queries)
    have "counters_agree (w1\<lparr>w_deps := r'\<rparr>)"
      unfolding counters_agree_def vals
    proof (intro conjI allI impI)
      fix b
      assume "dep_counter_of (w_deps (w1\<lparr>w_deps := r'\<rparr>)) b = None"
      then have "dep_counter_of (w_deps w) b = None" using cnt[of b] by (auto split: if_splits)
      then show "ordered_deps_of (w_deps (w1\<lparr>w_deps := r'\<rparr>)) b = []"
        using parts(3) top by (simp add: counters_agree_def same_topology_queries)
    next
      fix b c
      assume c: "dep_counter_of (w_deps (w1\<lparr>w_deps := r'\<rparr>)) b = Some c"
      let ?od = "ordered_deps_of (w_deps w) b"
      have od: "distinct ?od" "set ?od = deps_of (w_deps w) b" "length ?od + 1 < 2 ^ 32"
        using parts(2) by (simp_all add: simple_deps_def)
      have sub: "(b \<in> subs_of (w_deps w) i) = (i \<in> set ?od)"
        using dr_wfD(1)[OF parts(1), of i b] od(2) by simp
      show "counts c (map ((w_value w)(i := new)) ?od)"
      proof (cases "i \<in> set ?od")
        case True
        then obtain c0 where c0: "dep_counter_of (w_deps w) b = Some c0" "c = counters_update c0 (n_value n) new"
          using c cnt[of b] False sub by auto
        have "counts c0 (map (w_value w) ?od)"
          using parts(3) c0(1) by (simp add: counters_agree_def dep_values_def)
        moreover have "n_value n \<in> set (map (w_value w) ?od)"
          using True old by force
        ultimately have "counts c (remove1 (n_value n) (map (w_value w) ?od) @ [new])"
          using counts_update od(3) c0(2) by simp
        then show ?thesis
          using counts_cong[OF count_after_write[OF od(1) True, of "w_value w" new]] old by simp
      next
        case nin: False
        then have "dep_counter_of (w_deps w) b = Some c" using c cnt[of b] sub by simp
        then have "counts c (map (w_value w) ?od)"
          using parts(3) by (simp add: counters_agree_def dep_values_def)
        then show ?thesis by (simp only: map_fun_upd[OF nin])
      qed
    qed
    then have "world_wf (w1\<lparr>w_deps := r'\<rparr>)"
      using wf top w1 by (simp add: world_wf_def dr_wf_cong simple_deps_cong)
    then show ?thesis
      using False w1(1,2,6,8) by (auto simp: materialize_def)
  qed
qed

section \<open>Correctness of one push step\<close>

text \<open>What a push computes, from the dependency values alone.\<close>

definition push_target :: "compute_rule \<Rightarrow> T list \<Rightarrow> T \<Rightarrow> T" where
  "push_target rule vals old = (case propagation_state vals of
      Ready \<Rightarrow> or_default Neg (rule_eval rule vals) | Pending \<Rightarrow> old | Conflicted \<Rightarrow> Zero)"

text \<open>The registry side of a step: which subscribers \<open>xs\<close> were queued, and that exactly their
  edges were stamped.\<close>

definition queued_subs ::
  "uid \<Rightarrow> product_time \<Rightarrow> auth_context option \<Rightarrow> uid set \<Rightarrow> dep_registry \<Rightarrow> dep_registry \<Rightarrow> uid list \<Rightarrow> bool" where
  "queued_subs i t actx dem r r' xs \<longleftrightarrow> distinct xs
     \<and> (\<forall>s \<in> set xs. s \<in> subs_of r i \<and> accepts i t actx dem r s)
     \<and> (\<forall>a b. dep_meta_of r' a b = (if a = i \<and> b \<in> set xs
          then map_option (stamp t) (dep_meta_of r a b) else dep_meta_of r a b))"

text \<open>When a push must reach every accepting subscriber: an eager node whose value changes.\<close>

definition reaches ::
  "uid \<Rightarrow> T \<Rightarrow> product_time \<Rightarrow> auth_context option \<Rightarrow> uid set \<Rightarrow> world \<Rightarrow> uid list \<Rightarrow> bool" where
  "reaches i v t actx dem w xs \<longleftrightarrow> (v \<noteq> w_value w i \<and> mode_of (w_deps w) i = Eager
     \<longrightarrow> (\<forall>s \<in> subs_of (w_deps w) i. accepts i t actx dem (w_deps w) s \<longrightarrow> s \<in> set xs))"

definition step_post ::
  "uid \<Rightarrow> T \<Rightarrow> product_time \<Rightarrow> auth_context option \<Rightarrow> uid set \<Rightarrow> world \<Rightarrow> world \<Rightarrow> work_item list \<Rightarrow> bool" where
  "step_post i v t actx dem w w' work \<longleftrightarrow> world_wf w'
     \<and> (\<forall>x. w_value w' x = (if x = i then v else w_value w x))
     \<and> same_topology (w_deps w) (w_deps w')
     \<and> (\<forall>x. map_option n_kind (graph_node (w_graph w') x) = map_option n_kind (graph_node (w_graph w) x))
     \<and> (\<exists>xs zs. work = map WPush xs @ zs \<and> zs \<in> {[], [WStabilize (ordered_deps_of (w_deps w) i @ [i])]}
          \<and> queued_subs i t actx dem (w_deps w) (w_deps w') xs \<and> reaches i v t actx dem w xs)"

lemma step_post_same:
  assumes "world_wf w" "w_value w i = v"
  shows "step_post i v t actx dem w w []"
  using assms by (auto simp: step_post_def queued_subs_def reaches_def intro: exI[of _ "[]"])

lemma value_of_node: "world_wf w \<Longrightarrow> graph_node (w_graph w) i = Some n \<Longrightarrow> w_value w i = n_value n"
  by (auto simp: world_wf_def cells_agree_def w_value_def dest: spec[of _ i])

lemma loop_post:
  assumes wf: "world_wf w" and node: "graph_node (w_graph w) i = Some n"
    and loop: "\<And>s e. let L = loop s e in same_topology (w_deps w) (pl_deps L)
      \<and> (\<forall>b. dep_counter_of (pl_deps L) b = (if new \<noteq> n_value n \<and> b \<in> subs_of (w_deps w) i
          then map_option (\<lambda>c. counters_update c (n_value n) new) (dep_counter_of (w_deps w) b)
          else dep_counter_of (w_deps w) b))
      \<and> (\<exists>xs zs. pl_work L = map WPush xs @ zs \<and> zs \<in> {[], [WStabilize (ordered_deps_of (w_deps w) i @ [i])]}
          \<and> queued_subs i t actx dem (w_deps w) (pl_deps L) xs \<and> reaches i new t actx dem w xs)"
  shows "\<exists>w' s' e' work w1 s1 e1. materialize i (n_value n) new evs stats w = Some (w1, s1, e1)
    \<and> w_deps w1 = w_deps w
    \<and> finish_loop w1 new (loop s1 e1) = (w', s', Some new, e', work)
    \<and> step_post i new t actx dem w w' work"
proof -
  have mat: "\<exists>w1 s1 e1. materialize i (n_value n) new evs stats w = Some (w1, s1, e1) \<and> w_deps w1 = w_deps w
    \<and> world_wf (w1\<lparr>w_deps := pl_deps (loop s e)\<rparr>)
    \<and> (\<forall>x. w_value w1 x = (if x = i then new else w_value w x))
    \<and> (\<forall>x. map_option n_kind (graph_node (w_graph w1) x) = map_option n_kind (graph_node (w_graph w) x))" for s e
    using loop[of s e] by (intro materialize_effect[OF wf node]) (simp_all add: Let_def)
  obtain w1 s1 e1 where m1: "materialize i (n_value n) new evs stats w = Some (w1, s1, e1)"
    using mat by blast
  with mat[of s1 e1] have m2: "w_deps w1 = w_deps w" "world_wf (w1\<lparr>w_deps := pl_deps (loop s1 e1)\<rparr>)"
    "\<forall>x. w_value w1 x = (if x = i then new else w_value w x)"
    "\<forall>x. map_option n_kind (graph_node (w_graph w1) x) = map_option n_kind (graph_node (w_graph w) x)"
    by auto
  have "step_post i new t actx dem w (w1\<lparr>w_deps := pl_deps (loop s1 e1)\<rparr>) (pl_work (loop s1 e1))"
    using m2 loop[of s1 e1] unfolding step_post_def Let_def by (simp add: w_value_def)
  with m1 m2(1) show ?thesis
    by (auto simp: finish_loop_def)
qed

lemma queued_subs_none: "(\<forall>a b. dep_meta_of r' a b = dep_meta_of r a b) \<Longrightarrow> queued_subs i t actx dem r r' []"
  by (simp add: queued_subs_def)

lemma queued_subs_filter:
  assumes "dr_wf r"
    "\<forall>a b. dep_meta_of r' a b = (if a = i \<and> b \<in> subs_of r i \<and> accepts i t actx dem r b
       then map_option (stamp t) (dep_meta_of r a b) else dep_meta_of r a b)"
  shows "queued_subs i t actx dem r r' (filter (accepts i t actx dem r) (subs_vec r i))"
proof -
  have "set (subs_vec r i) = subs_of r i" "distinct (subs_vec r i)"
    using dr_wfD(3)[OF assms(1), of i] by (simp_all add: subs_vec_def subs_of_def)
  then show ?thesis using assms(2) by (auto simp: queued_subs_def)
qed

lemma single_visit:
  assumes wf: "world_wf w" and node: "graph_node (w_graph w) i = Some n"
    and c: "counting = (new \<noteq> n_value n)"
    and off: "mode_of (w_deps w) i = Eager \<Longrightarrow> offering (w_deps w)"
  shows "\<exists>w' s' e' work. map_option (\<lambda>(w1, stats1, events1).
        finish_loop w1 new (visit_subs i t actx dem counting (offering (w_deps w1)) (n_value n) new
          \<lparr>pl_deps = w_deps w1, pl_stats = stats1, pl_events = events1, pl_work = []\<rparr>))
        (materialize i (n_value n) new evs stats w) = Some (w', s', Some new, e', work)
      \<and> step_post i new t actx dem w w' work"
proof -
  define loop where "loop = (\<lambda>s e. visit_subs i t actx dem counting (offering (w_deps w)) (n_value n) new
    \<lparr>pl_deps = w_deps w, pl_stats = s, pl_events = e, pl_work = []\<rparr>)"
  have dw: "dr_wf (w_deps w)" using wf by (simp add: world_wf_def)
  have eff: "let L = loop s e in same_topology (w_deps w) (pl_deps L)
      \<and> (\<forall>b. dep_counter_of (pl_deps L) b = (if new \<noteq> n_value n \<and> b \<in> subs_of (w_deps w) i
          then map_option (\<lambda>c. counters_update c (n_value n) new) (dep_counter_of (w_deps w) b)
          else dep_counter_of (w_deps w) b))
      \<and> (\<exists>xs zs. pl_work L = map WPush xs @ zs \<and> zs \<in> {[], [WStabilize (ordered_deps_of (w_deps w) i @ [i])]}
          \<and> queued_subs i t actx dem (w_deps w) (pl_deps L) xs \<and> reaches i new t actx dem w xs)" for s e
  proof -
    note v = visit_subs_effect[where L="\<lparr>pl_deps = w_deps w, pl_stats = s, pl_events = e, pl_work = []\<rparr>"
        and i=i and t=t and actx=actx and dem=dem and counting=counting and offering="offering (w_deps w)"
        and old="n_value n" and new=new, simplified, OF dw, folded loop_def]
    have v': "same_topology (w_deps w) (pl_deps (loop s e))"
      "\<And>b. dep_counter_of (pl_deps (loop s e)) b = (if counting \<and> b \<in> subs_of (w_deps w) i
         then map_option (\<lambda>c. counters_update c (n_value n) new) (dep_counter_of (w_deps w) b)
         else dep_counter_of (w_deps w) b)"
      "pl_work (loop s e) = (if offering (w_deps w)
         then map WPush (filter (accepts i t actx dem (w_deps w)) (subs_vec (w_deps w) i)) else [])"
      "\<forall>a b. dep_meta_of (pl_deps (loop s e)) a b =
        (if offering (w_deps w) \<and> a = i \<and> b \<in> subs_of (w_deps w) i \<and> accepts i t actx dem (w_deps w) b
         then map_option (stamp t) (dep_meta_of (w_deps w) a b) else dep_meta_of (w_deps w) a b)"
      unfolding loop_def using v by simp_all
    have sub: "set (subs_vec (w_deps w) i) = subs_of (w_deps w) i"
      using dr_wfD(3)[OF dw, of i] by (simp add: subs_vec_def subs_of_def)
    obtain xs where "pl_work (loop s e) = map WPush xs" "queued_subs i t actx dem (w_deps w) (pl_deps (loop s e)) xs"
      "reaches i new t actx dem w xs"
      using v'(3,4) queued_subs_filter[OF dw, of "pl_deps (loop s e)" i t actx dem]
        queued_subs_none[of "pl_deps (loop s e)" "w_deps w" i t actx dem] off sub
      by (cases "offering (w_deps w)") (auto simp: reaches_def)
    then have "pl_work (loop s e) = map WPush xs @ []" and
      "queued_subs i t actx dem (w_deps w) (pl_deps (loop s e)) xs"
      "reaches i new t actx dem w xs" by simp_all
    then show ?thesis using v'(1,2) c unfolding Let_def by blast
  qed
  obtain w' s' e' work w1 s1 e1 where "materialize i (n_value n) new evs stats w = Some (w1, s1, e1)"
    "w_deps w1 = w_deps w" "finish_loop w1 new (loop s1 e1) = (w', s', Some new, e', work)"
    "step_post i new t actx dem w w' work"
    using loop_post[where loop=loop and evs=evs and stats=stats, OF wf node eff] by blast
  then show ?thesis by (auto simp: loop_def)
qed

lemma conflicted_visit:
  assumes wf: "world_wf w" and node: "graph_node (w_graph w) i = Some n"
    and conf: "propagation_state vals = Conflicted"
  shows "\<exists>w' s' e' work. push_by_scan i rule (n_value n) vals t actx dem stats w = Some (w', s', Some Zero, e', work)
      \<and> step_post i Zero t actx dem w w' work"
proof -
  define counted where "counted = (\<lambda>s e. visit_subs i t actx dem (Zero \<noteq> n_value n) False (n_value n) Zero
    \<lparr>pl_deps = w_deps w, pl_stats = s, pl_events = e, pl_work = []\<rparr>)"
  define region where "region = ordered_deps_of (w_deps w) i @ [i]"
  define loop where "loop = (\<lambda>s e. let L1 = counted s e in (case mode_of (w_deps w) i of
      Stabilizing \<Rightarrow> L1\<lparr>pl_work := pl_work L1 @ [WStabilize region], pl_events := pl_events L1 @ [StabilizeQueued region]\<rparr>
    | Lazy \<Rightarrow> L1
    | Eager \<Rightarrow> visit_subs i t actx dem False True (n_value n) Zero L1))"
  have dw: "dr_wf (w_deps w)" using wf by (simp add: world_wf_def)
  have c1: "same_topology (w_deps w) (pl_deps (counted s e))"
    "dep_counter_of (pl_deps (counted s e)) b = (if Zero \<noteq> n_value n \<and> b \<in> subs_of (w_deps w) i
       then map_option (\<lambda>c. counters_update c (n_value n) Zero) (dep_counter_of (w_deps w) b)
       else dep_counter_of (w_deps w) b)"
    "pl_work (counted s e) = []" "dep_meta_of (pl_deps (counted s e)) a b = dep_meta_of (w_deps w) a b" for s e a b
    using visit_subs_effect[where L="\<lparr>pl_deps = w_deps w, pl_stats = s, pl_events = e, pl_work = []\<rparr>"
        and i=i and t=t and actx=actx and dem=dem and counting="Zero \<noteq> n_value n" and offering=False
        and old="n_value n" and new=Zero] dw by (simp_all add: counted_def)
  have dc: "dr_wf (pl_deps (counted s e))" for s e
    using dr_wf_cong[OF c1(1)] dw by simp
  have acc: "accepts i t actx dem (pl_deps (counted s e)) b = accepts i t actx dem (w_deps w) b" for s e b
    by (rule accepts_cong[OF c1(1) c1(4)])
  have eff: "let L = loop s e in same_topology (w_deps w) (pl_deps L)
      \<and> (\<forall>b. dep_counter_of (pl_deps L) b = (if Zero \<noteq> n_value n \<and> b \<in> subs_of (w_deps w) i
          then map_option (\<lambda>c. counters_update c (n_value n) Zero) (dep_counter_of (w_deps w) b)
          else dep_counter_of (w_deps w) b))
      \<and> (\<exists>xs zs. pl_work L = map WPush xs @ zs \<and> zs \<in> {[], [WStabilize (ordered_deps_of (w_deps w) i @ [i])]}
          \<and> queued_subs i t actx dem (w_deps w) (pl_deps L) xs \<and> reaches i Zero t actx dem w xs)" for s e
  proof (cases "mode_of (w_deps w) i")
    case Eager
    define L2 where "L2 = visit_subs i t actx dem False True (n_value n) Zero (counted s e)"
    note v = visit_subs_effect[where L="counted s e" and i=i and t=t and actx=actx and dem=dem
        and counting=False and offering=True and old="n_value n" and new=Zero, OF dc, folded L2_def, simplified]
    let ?xs = "filter (accepts i t actx dem (w_deps w)) (subs_vec (w_deps w) i)"
    have q: "queued_subs i t actx dem (w_deps w) (pl_deps L2) ?xs"
      using v(4) by (intro queued_subs_filter[OF dw]) (simp add: c1(4) acc same_topology_queries[OF c1(1)])
    have wk: "pl_work L2 = map WPush ?xs @ []"
      using v(1) by (simp add: c1(3) acc same_topology_queries[OF c1(1)] cong: filter_cong)
    have top: "same_topology (w_deps w) (pl_deps L2)"
      using same_topology_trans[OF c1(1) v(2)] .
    have L2: "loop s e = L2" by (simp add: loop_def L2_def Eager)
    have "reaches i Zero t actx dem w ?xs"
      using dr_wfD(3)[OF dw, of i] by (simp add: reaches_def subs_vec_def subs_of_def)
    then show ?thesis
      unfolding Let_def L2
      by (intro conjI top exI[of _ ?xs] exI[of _ "[]"] wk q) (simp_all add: v(3) c1(2))
  next
    case Lazy
    have wk: "pl_work (counted s e) = map WPush [] @ []" by (simp add: c1(3))
    have q: "queued_subs i t actx dem (w_deps w) (pl_deps (counted s e)) []"
      by (simp add: queued_subs_none c1(4))
    have L: "loop s e = counted s e" by (simp add: loop_def Lazy)
    show ?thesis
      unfolding Let_def L
      by (intro conjI c1(1) exI[of _ "[]"] wk q) (simp_all add: c1(2) reaches_def Lazy)
  next
    case Stabilizing
    let ?z = "[WStabilize (ordered_deps_of (w_deps w) i @ [i])]"
    have wk: "pl_work (loop s e) = map WPush [] @ ?z"
      by (simp add: loop_def Stabilizing c1(3) region_def Let_def)
    have q: "queued_subs i t actx dem (w_deps w) (pl_deps (counted s e)) []"
      by (simp add: queued_subs_none c1(4))
    have L: "pl_deps (loop s e) = pl_deps (counted s e)" by (simp add: loop_def Stabilizing Let_def)
    show ?thesis
      unfolding Let_def L
      by (intro conjI c1(1) exI[of _ "[]"] exI[of _ ?z] wk q) (simp_all add: c1(2) reaches_def Stabilizing)
  qed
  obtain w' s' e' work w1 s1 e1 where r: "materialize i (n_value n) Zero [BochvarInfected i None] stats w = Some (w1, s1, e1)"
    "w_deps w1 = w_deps w" "finish_loop w1 Zero (loop s1 e1) = (w', s', Some Zero, e', work)"
    "step_post i Zero t actx dem w w' work"
    using loop_post[where loop=loop and evs="[BochvarInfected i None]" and stats=stats, OF wf node eff] by blast
  have "push_by_scan i rule (n_value n) vals t actx dem stats w = Some (finish_loop w1 Zero (loop s1 e1))"
    using r(1,2) by (simp add: push_by_scan_def conf loop_def counted_def region_def Let_def
        split: exec_mode.split)
  with r(3,4) show ?thesis by simp
qed

lemma shortcut_sound:
  assumes "world_wf w" "counter_shortcut (w_deps w) i rule = Some c"
  shows "eval_aggregate c = state_value (propagation_state (dep_values w i))"
    and "propagation_state (dep_values w i) = Ready \<Longrightarrow> rule_eval rule (dep_values w i) = Some Pos"
proof -
  have c: "dep_counter_of (w_deps w) i = Some c" "rule \<in> {MeetAll, JoinAny}"
    and n: "dep_values w i \<noteq> []"
    using assms by (auto simp: counter_shortcut_def Let_def dep_values_def world_wf_def simple_deps_def
        lockstep_def split: option.splits if_splits)
  have "counts c (dep_values w i)"
    using assms(1) c(1) by (simp add: world_wf_def counters_agree_def)
  moreover have len: "length (dep_values w i) + 1 < 2 ^ 32"
    using assms(1) by (simp add: world_wf_def simple_deps_def dep_values_def)
  ultimately show "eval_aggregate c = state_value (propagation_state (dep_values w i))"
    using dep_counters_aggregate by blast
  show "propagation_state (dep_values w i) = Ready \<Longrightarrow> rule_eval rule (dep_values w i) = Some Pos"
  proof -
    assume "propagation_state (dep_values w i) = Ready"
    then have "Zero \<notin> set (dep_values w i)" "Neg \<notin> set (dep_values w i)"
      using len by (auto simp: propagation_state_scan split: if_splits)
    then have "\<forall>v \<in> set (dep_values w i). v = Pos" using T.exhaust by metis
    from rule_eval_ready[OF this, of rule] c(2) n show ?thesis by auto
  qed
qed

lemma step_push_post:
  assumes wf: "world_wf w" and node: "graph_node (w_graph w) i = Some n" and rule: "n_kind n = Computed rule"
  shows "\<exists>w' stats' r evs work. step_push i t actx dem stats w = Some (w', stats', r, evs, work)
    \<and> step_post i (push_target rule (dep_values w i) (n_value n)) t actx dem w w' work
    \<and> (r = None) = (propagation_state (dep_values w i) = Pending)
    \<and> (r \<noteq> None \<longrightarrow> r = Some (push_target rule (dep_values w i) (n_value n)))"
proof -
  let ?ps = "propagation_state (dep_values w i)" and ?old = "n_value n"
  let ?v = "push_target rule (dep_values w i) ?old"
  have same: "step_post i ?old t actx dem w w []"
    using step_post_same[OF wf value_of_node[OF wf node]] .
  show ?thesis
  proof (cases "counter_shortcut (w_deps w) i rule")
    case (Some c)
    have agg: "eval_aggregate c = state_value ?ps" by (rule shortcut_sound(1)[OF wf Some])
    have eval: "?ps = Ready \<Longrightarrow> ?v = Pos"
      using shortcut_sound(2)[OF wf Some] by (simp add: push_target_def)
    have sp: "step_push i t actx dem stats w = push_by_counter i ?old (state_value ?ps) t actx dem stats w"
      using Some agg by (simp add: step_push_def node rule)
    show ?thesis
    proof (cases ?ps)
      case Pending
      then show ?thesis using sp same by (simp add: push_by_counter_def push_target_def)
    next
      case Conflicted
      have "\<exists>w' s' e' work. push_by_counter i ?old Zero t actx dem stats w = Some (w', s', Some Zero, e', work)
          \<and> step_post i Zero t actx dem w w' work"
        using single_visit[OF wf node refl, where new=Zero and t=t and actx=actx and dem=dem
            and offering="\<lambda>r. mode_of r i = Eager" and evs="[BochvarInfected i None]" and stats=stats]
        by (simp add: push_by_counter_def)
      then show ?thesis using sp Conflicted by (fastforce simp: push_target_def)
    next
      case Ready
      show ?thesis
      proof (cases "?old = Pos")
        case True
        then show ?thesis using sp same Ready eval by (simp add: push_by_counter_def)
      next
        case False
        have "\<exists>w' s' e' work. push_by_counter i ?old Pos t actx dem stats w = Some (w', s', Some Pos, e', work)
            \<and> step_post i Pos t actx dem w w' work"
          using single_visit[OF wf node, where new=Pos and t=t and actx=actx and dem=dem
              and offering="\<lambda>r. True" and counting=True and evs="[]" and stats=stats] False
          by (auto simp: push_by_counter_def)
        then show ?thesis using sp Ready eval by fastforce
      qed
    qed
  next
    case None
    have sp: "step_push i t actx dem stats w = push_by_scan i rule ?old (dep_values w i) t actx dem stats w"
      using None by (simp add: step_push_def node rule read_dep_vals_correct[OF wf])
    show ?thesis
    proof (cases ?ps)
      case Pending
      then show ?thesis using sp same by (simp add: push_by_scan_def push_target_def)
    next
      case Conflicted
      from conflicted_visit[OF wf node this, of rule t actx dem stats] sp Conflicted
      show ?thesis by (fastforce simp: push_target_def)
    next
      case Ready
      show ?thesis
      proof (cases "?v = ?old")
        case True
        then show ?thesis using sp same Ready by (simp add: push_by_scan_def push_target_def Let_def)
      next
        case False
        have "\<exists>w' s' e' work. push_by_scan i rule ?old (dep_values w i) t actx dem stats w = Some (w', s', Some ?v, e', work)
            \<and> step_post i ?v t actx dem w w' work"
          using single_visit[OF wf node, where new="?v" and t=t and actx=actx and dem=dem
              and offering="\<lambda>r. True" and counting=True and evs="[]" and stats=stats] False Ready
          by (auto simp: push_by_scan_def push_target_def Let_def)
        then show ?thesis using sp Ready by fastforce
      qed
    qed
  qed
qed

text \<open>
  C1. One push step computes the specified value whichever path the code takes.  On a consistent
  world (cache mirrors graph, counters match the dependency values, index lists parallel) a push
  of a computed node never panics, sets that node to \<open>push_target\<close> of its dependency values and
  no other node, returns \<open>None\<close> exactly while a dependency is pending, and leaves the world
  consistent: the counter shortcut, the dense-cache read and the graph scan agree.
\<close>

theorem step_push_correct:
  assumes "world_wf w" "graph_node (w_graph w) i = Some n" "n_kind n = Computed rule"
  shows "\<exists>w' stats' r evs work. step_push i t actx dem stats w = Some (w', stats', r, evs, work)
    \<and> world_wf w'
    \<and> (\<forall>x. w_value w' x = (if x = i then push_target rule (dep_values w i) (n_value n) else w_value w x))
    \<and> (r = None) = (propagation_state (dep_values w i) = Pending)
    \<and> (r \<noteq> None \<longrightarrow> r = Some (w_value w' i))"
proof -
  have "\<exists>w' stats' r evs work. step_push i t actx dem stats w = Some (w', stats', r, evs, work)
    \<and> step_post i (push_target rule (dep_values w i) (n_value n)) t actx dem w w' work
    \<and> (r = None) = (propagation_state (dep_values w i) = Pending)
    \<and> (r \<noteq> None \<longrightarrow> r = Some (push_target rule (dep_values w i) (n_value n)))"
    by (rule step_push_post[OF assms])
  then show ?thesis unfolding step_post_def by fastforce
qed

section \<open>The drain loop\<close>

definition is_input :: "world \<Rightarrow> uid \<Rightarrow> bool" where
  "is_input w x \<longleftrightarrow> (\<exists>n. graph_node (w_graph w) x = Some n \<and> n_kind n = Input)"

text \<open>What any step keeps: consistency, topology, node kinds, the values of input nodes.\<close>

definition kept :: "world \<Rightarrow> world \<Rightarrow> bool" where
  "kept w w' \<longleftrightarrow> world_wf w' \<and> same_topology (w_deps w) (w_deps w')
     \<and> (\<forall>x. map_option n_kind (graph_node (w_graph w') x) = map_option n_kind (graph_node (w_graph w) x))
     \<and> (\<forall>x. is_input w x \<longrightarrow> w_value w' x = w_value w x)"

lemma kept_refl: "world_wf w \<Longrightarrow> kept w w"
  by (simp add: kept_def)

lemma kept_input: "kept w w' \<Longrightarrow> is_input w' x = is_input w x"
  unfolding kept_def is_input_def
  by (metis (no_types, lifting) option.map_disc_iff option.map_sel option.sel option.exhaust option.distinct(1))

lemma kept_trans: "kept w w' \<Longrightarrow> kept w' w'' \<Longrightarrow> kept w w''"
  using kept_input[of w w'] by (auto simp: kept_def intro: same_topology_trans)

lemma step_push_any:
  assumes wf: "world_wf w"
  shows "\<exists>w' stats' r evs xs zs. step_push i t actx dem stats w = Some (w', stats', r, evs, map WPush xs @ zs)
    \<and> kept w w' \<and> zs \<in> {[], [WStabilize (ordered_deps_of (w_deps w) i @ [i])]}
    \<and> queued_subs i t actx dem (w_deps w) (w_deps w') xs"
proof (cases "\<exists>n rule. graph_node (w_graph w) i = Some n \<and> n_kind n = Computed rule")
  case True
  then obtain n rule where n: "graph_node (w_graph w) i = Some n" "n_kind n = Computed rule" by blast
  obtain w' stats' r evs work where s: "step_push i t actx dem stats w = Some (w', stats', r, evs, work)"
    "step_post i (push_target rule (dep_values w i) (n_value n)) t actx dem w w' work"
    using step_push_post[OF wf n, of t actx dem stats] by blast
  have "\<not> is_input w i" using n by (simp add: is_input_def)
  then have "kept w w'" using s(2) by (auto simp: step_post_def kept_def)
  with s show ?thesis unfolding step_post_def by blast
next
  case False
  then have "step_push i t actx dem stats w = Some (w, stats, None, [], map WPush [] @ [])"
    by (auto simp: step_push_def split: option.split node_kind.split)
  moreover have "queued_subs i t actx dem (w_deps w) (w_deps w) []" by (simp add: queued_subs_none)
  ultimately show ?thesis using kept_refl[OF wf] by blast
qed

lemma fold_queue_pushed:
  "\<exists>f' pe'. fold queue_pushed work (f, pe) = (f', pe') \<and> pe_queue pe' = pe_queue pe @ work"
proof (induction work arbitrary: f pe)
  case (Cons x work)
  obtain f1 pe1 where 1: "queue_pushed x (f, pe) = (f1, pe1)" by fastforce
  then have "pe_queue pe1 = pe_queue pe @ [x]"
    by (auto simp: queue_pushed_def Let_def)
  with 1 Cons[of f1 pe1] show ?case by auto
qed simp

lemma fold_queue_demands:
  "\<exists>f' pe'. fold queue_demanded (map WDemand ds) (f, pe) = (f', pe')
     \<and> pe_queue pe' = map WDemand (rev ds) @ pe_queue pe"
proof (induction ds arbitrary: f pe)
  case (Cons d ds)
  obtain f1 pe1 where 1: "queue_demanded (WDemand d) (f, pe) = (f1, pe1)" by fastforce
  then have "pe_queue pe1 = WDemand d # pe_queue pe"
    by (auto simp: queue_demanded_def is_demand_def)
  with 1 Cons[of f1 pe1] show ?case by auto
qed simp

definition pending_deps :: "world \<Rightarrow> uid \<Rightarrow> uid list" where
  "pending_deps w i = filter (\<lambda>d. is_pending (case graph_node (w_graph w) d of None \<Rightarrow> Neg | Some n \<Rightarrow> n_value n))
     (sorted_uids (deps_of (w_deps w) i))"

lemma drain_demand:
  "\<exists>f' pe'. drain_item t actx handled (WDemand i) f pe w = Some (f', pe', w)
     \<and> pe_queue pe' = map WDemand (rev (pending_deps w i)) @ pe_queue pe @ [WPush i]"
proof -
  define pe1 where "pe1 = pe\<lparr>pe_stats := (pe_stats pe)\<lparr>demands_fired := demands_fired (pe_stats pe) + 1\<rparr>,
    pe_demanded := insert i (pe_demanded pe), pe_events := pe_events pe @ [DemandFired i]\<rparr>"
  define f1 where "f1 = (if f > 0 then f - 1 else f)"
  obtain f2 pe2 where "fold queue_demanded (map WDemand (pending_deps w i)) (f1, pe1) = (f2, pe2)"
    "pe_queue pe2 = map WDemand (rev (pending_deps w i)) @ pe_queue pe1"
    using fold_queue_demands by blast
  then show ?thesis
    by (simp add: drain_item_def step_demand_def Let_def pending_deps_def[symmetric] pe1_def f1_def
        queue_demanded_def is_demand_def)
qed

lemma drain_item_any:
  assumes wf: "world_wf w"
  shows "\<exists>f' pe' w'. drain_item t actx handled item f pe w = Some (f', pe', w') \<and> kept w w'"
proof (cases item)
  case (WPush i)
  obtain w' stats' r evs xs zs where s: "step_push i t actx (pe_demanded pe) (pe_stats pe) w
      = Some (w', stats', r, evs, map WPush xs @ zs)" "kept w w'"
    using step_push_any[OF wf, of i t actx "pe_demanded pe" "pe_stats pe"] by blast
  show ?thesis
    using s kept_refl[OF wf] by (auto simp: drain_item_def WPush split: prod.split)
next
  case (WDemand i)
  then show ?thesis using drain_demand[of t actx handled i f pe w] kept_refl[OF wf] by auto
qed (use kept_refl[OF wf] in \<open>simp add: drain_item_def\<close>)

declare drain_loop.simps [simp del]

definition popped :: "prop_engine \<Rightarrow> work_item list \<Rightarrow> prop_engine" where
  "popped pe queue = pe\<lparr>pe_queue := queue, pe_stats :=
     (if length queue + 1 > max_queue_depth (pe_stats pe)
      then (pe_stats pe)\<lparr>max_queue_depth := length queue + 1\<rparr> else pe_stats pe)\<rparr>"

lemma popped_queue [simp]: "pe_queue (popped pe q) = q"
  by (simp add: popped_def)

lemma drain_loop_unfold:
  "pe_queue pe = [] \<Longrightarrow> drain_loop t actx handled mx steps f pe w = Some (Inr (), pe\<lparr>pe_demanded := {}\<rparr>, w)"
  "pe_queue pe = x # q \<Longrightarrow> drain_loop t actx handled mx 0 f pe w
     = Some (Inl (StepLimitExceeded mx), pe\<lparr>pe_queue := q\<rparr>, w)"
  "pe_queue pe = x # q \<Longrightarrow> drain_loop t actx handled mx (Suc steps) f pe w
     = (case drain_item t actx handled x f (popped pe q) w of None \<Rightarrow> None
        | Some (f', pe', w') \<Rightarrow> drain_loop t actx handled mx steps f' pe' w')"
  by (subst drain_loop.simps, simp add: Let_def popped_def)+

lemma drain_loop_any:
  "world_wf w \<Longrightarrow> \<exists>res pe' w'. drain_loop t actx handled mx steps f pe w = Some (res, pe', w') \<and> kept w w'
     \<and> (res = Inr () \<longrightarrow> pe_queue pe' = [] \<and> pe_demanded pe' = {})
     \<and> (res = Inr () \<or> res = Inl (StepLimitExceeded mx))"
proof (induction steps arbitrary: f pe w)
  case 0
  then show ?case using kept_refl by (cases "pe_queue pe") (auto simp: drain_loop_unfold)
next
  case (Suc steps)
  show ?case
  proof (cases "pe_queue pe")
    case Nil
    then show ?thesis using kept_refl[OF Suc.prems] by (simp add: drain_loop_unfold)
  next
    case (Cons item queue)
    obtain f' pe2 w' where i: "drain_item t actx handled item f (popped pe queue) w = Some (f', pe2, w')" "kept w w'"
      using drain_item_any[OF Suc.prems, of t actx handled item f "popped pe queue"] by blast
    have eq: "drain_loop t actx handled mx (Suc steps) f pe w = drain_loop t actx handled mx steps f' pe2 w'"
      using Cons i(1) by (simp add: drain_loop_unfold)
    have "world_wf w'" using i(2) by (simp add: kept_def)
    from Suc.IH[OF this, of f' pe2] show ?thesis
      unfolding eq using kept_trans[OF i(2)] by blast
  qed
qed

lemma drain_keeps:
  assumes "world_wf w"
  shows "\<exists>res pe' w'. drain t actx handled mx pe w = Some (res, pe', w') \<and> kept w w'
    \<and> (res = Inr () \<and> pe_queue pe' = [] \<and> pe_demanded pe' = {} \<or> res = Inl (StepLimitExceeded mx))"
  using drain_loop_any[OF assms, of t actx handled mx mx _ "pe\<lparr>pe_stats := raise_frontier
      (length (filter is_demand (pe_queue pe))) (pe_stats pe)\<rparr>"]
  unfolding drain_def Let_def by blast

text \<open>
  The drain loop always returns and keeps the world consistent: with any queue and any step
  limit it ends without a panic, with the queue and the demand set empty or with the step-limit
  error, the wiring and node kinds unchanged and no input node's value touched.
\<close>

theorem drain_total:
  assumes "world_wf w"
  shows "\<exists>res pe' w'. drain t actx handled mx pe w = Some (res, pe', w')
    \<and> world_wf w' \<and> same_topology (w_deps w) (w_deps w')
    \<and> (is_input w x \<longrightarrow> w_value w' x = w_value w x)
    \<and> (res = Inr () \<and> pe_queue pe' = [] \<and> pe_demanded pe' = {} \<or> res = Inl (StepLimitExceeded mx))"
  using drain_keeps[OF assms, of t actx handled mx pe] unfolding kept_def by blast

text \<open>
  C21. A demand can never be answered inside a cycle of pending nodes: if every node of a set has
  a pending dependency and all its pending dependencies lie in the set, then a drain that starts
  with a demand on a member ends with the step-limit error whatever the limit, and leaves the
  world as it was.
\<close>

theorem demand_cycle_hits_limit:
  assumes "\<forall>x \<in> X. pending_deps w x \<noteq> [] \<and> set (pending_deps w x) \<subseteq> X"
    "pe_queue pe = WDemand x # q" "x \<in> X"
  shows "\<exists>pe'. drain t actx handled mx pe w = Some (Inl (StepLimitExceeded mx), pe', w)"
proof -
  have loop: "\<exists>pe'. drain_loop t actx handled mx steps f pe w = Some (Inl (StepLimitExceeded mx), pe', w)"
    if "pe_queue pe = WDemand y # q" "y \<in> X" for steps f pe y q
    using that
  proof (induction steps arbitrary: f pe y q)
    case (Suc steps)
    obtain f' pe' where d: "drain_item t actx handled (WDemand y) f (popped pe q) w = Some (f', pe', w)"
      "pe_queue pe' = map WDemand (rev (pending_deps w y)) @ q @ [WPush y]"
      using drain_demand[of t actx handled y f "popped pe q" w] by auto
    obtain z zs where z: "rev (pending_deps w y) = z # zs"
      using assms(1) Suc.prems(2) by (cases "rev (pending_deps w y)") auto
    have "z \<in> set (pending_deps w y)" using arg_cong[OF z, of set] by auto
    then have "z \<in> X" using assms(1) Suc.prems(2) by blast
    moreover have "pe_queue pe' = WDemand z # (map WDemand zs @ q @ [WPush y])"
      using d(2) z by simp
    ultimately show ?case
      using d(1) Suc.IH[of pe' z "map WDemand zs @ q @ [WPush y]" f'] Suc.prems(1)
      by (simp add: drain_loop_unfold)
  qed (simp add: drain_loop_unfold)
  show ?thesis unfolding drain_def Let_def by (rule loop[where y=x and q=q]) (simp_all add: assms)
qed

section \<open>Pushes alone cannot run away\<close>

definition open_edges :: "dep_registry \<Rightarrow> product_time \<Rightarrow> (uid \<times> uid) set" where
  "open_edges r t = {(a, b). b \<in> subs_of r a \<and> gate_open r a b t}"

definition metas_complete :: "dep_registry \<Rightarrow> bool" where
  "metas_complete r \<longleftrightarrow> (\<forall>a. \<forall>b \<in> subs_of r a. dep_meta_of r a b \<noteq> None)"

lemma stamp_closes: "\<not> should_propagate (stamp t m) t"
  by (auto simp: should_propagate_iff stamp_def not_less_max_u64)

lemma queued_closes_edges:
  assumes q: "queued_subs i t actx dem r r' xs" and top: "same_topology r r'" and m: "metas_complete r"
  shows "open_edges r' t = open_edges r t - (\<lambda>s. (i, s)) ` set xs"
    and "(\<lambda>s. (i, s)) ` set xs \<subseteq> open_edges r t" and "metas_complete r'"
proof -
  have meta: "dep_meta_of r' a b = (if a = i \<and> b \<in> set xs
      then map_option (stamp t) (dep_meta_of r a b) else dep_meta_of r a b)" for a b
    using q by (simp add: queued_subs_def)
  have gate: "gate_open r' a b t = (gate_open r a b t \<and> \<not> (a = i \<and> b \<in> set xs))" if sub: "b \<in> subs_of r a" for a b
  proof -
    obtain md where "dep_meta_of r a b = Some md"
      using m sub unfolding metas_complete_def not_None_eq by blast
    then show ?thesis by (auto simp: gate_open_def meta stamp_closes)
  qed
  show "open_edges r' t = open_edges r t - (\<lambda>s. (i, s)) ` set xs"
  proof (rule set_eqI)
    fix p :: "uid \<times> uid"
    obtain a b where p: "p = (a, b)" by (cases p)
    have "(p \<in> open_edges r' t) = (b \<in> subs_of r a \<and> gate_open r' a b t)"
      by (simp add: p open_edges_def same_topology_queries[OF top])
    also have "\<dots> = (b \<in> subs_of r a \<and> gate_open r a b t \<and> \<not> (a = i \<and> b \<in> set xs))"
      using gate[of b a] by blast
    also have "\<dots> = (p \<in> open_edges r t - (\<lambda>s. (i, s)) ` set xs)"
      by (auto simp: p open_edges_def)
    finally show "(p \<in> open_edges r' t) = (p \<in> open_edges r t - (\<lambda>s. (i, s)) ` set xs)" .
  qed
  show "(\<lambda>s. (i, s)) ` set xs \<subseteq> open_edges r t"
    using q by (auto simp: queued_subs_def open_edges_def accepts_def)
  show "metas_complete r'"
    unfolding metas_complete_def same_topology_queries[OF top]
  proof (intro allI ballI)
    fix a b assume "b \<in> subs_of r a"
    then have "dep_meta_of r a b \<noteq> None" using m unfolding metas_complete_def by blast
    then show "dep_meta_of r' a b \<noteq> None" by (auto simp: meta)
  qed
qed

fun item_weight :: "work_item \<Rightarrow> nat" where
  "item_weight (WPush i) = 2"
| "item_weight (WStabilize r) = 1"
| "item_weight (WDemand i) = 0"

definition potential :: "work_item list \<Rightarrow> dep_registry \<Rightarrow> product_time \<Rightarrow> nat" where
  "potential q r t = sum_list (map item_weight q) + 2 * card (open_edges r t)"

lemma potential_step:
  assumes wf: "world_wf w" and m: "metas_complete (w_deps w)" and d: "\<not> is_demand item" "\<forall>x \<in> set (pe_queue pe). \<not> is_demand x"
  shows "\<exists>f' pe' w'. drain_item t actx handled item f pe w = Some (f', pe', w')
    \<and> potential (pe_queue pe') (w_deps w') t < potential (item # pe_queue pe) (w_deps w) t
    \<and> (\<forall>x \<in> set (pe_queue pe'). \<not> is_demand x) \<and> metas_complete (w_deps w') \<and> world_wf w'"
proof (cases item)
  case (WPush i)
  show ?thesis
  proof (cases "compiled_skip handled w i")
    case True
    then show ?thesis using wf m d by (simp add: WPush drain_item_def potential_def)
  next
    case False
    obtain w' stats' r evs xs zs where s: "step_push i t actx (pe_demanded pe) (pe_stats pe) w
        = Some (w', stats', r, evs, map WPush xs @ zs)" "kept w w'"
      "zs \<in> {[], [WStabilize (ordered_deps_of (w_deps w) i @ [i])]}"
      "queued_subs i t actx (pe_demanded pe) (w_deps w) (w_deps w') xs"
      using step_push_any[OF wf, of i t actx "pe_demanded pe" "pe_stats pe"] by blast
    have top: "same_topology (w_deps w) (w_deps w')" and wf': "world_wf w'"
      using s(2) by (simp_all add: kept_def)
    note closes = queued_closes_edges[OF s(4) top m]
    obtain f' pe' where f: "fold queue_pushed (map WPush xs @ zs)
        (f, pe\<lparr>pe_stats := stats', pe_events := pe_events pe @ evs\<rparr>) = (f', pe')"
      "pe_queue pe' = pe_queue pe @ map WPush xs @ zs"
      using fold_queue_pushed[of "map WPush xs @ zs" f "pe\<lparr>pe_stats := stats', pe_events := pe_events pe @ evs\<rparr>"]
      by auto
    have "card ((\<lambda>s. (i, s)) ` set xs) = length xs"
      using s(4) by (simp add: card_image inj_on_def distinct_card queued_subs_def)
    then have c: "card (open_edges (w_deps w) t) = card (open_edges (w_deps w') t) + length xs"
      using closes(1,2) card_Diff_subset[OF _ closes(2)] card_mono[OF _ closes(2)] by simp
    have wx: "sum_list (map item_weight (map WPush xs)) = 2 * length xs" by (induction xs) simp_all
    have wz: "sum_list (map item_weight zs) \<le> 1" using s(3) by auto
    have "drain_item t actx handled item f pe w = Some (f', pe', w')"
      using False s(1) f(1) by (simp add: WPush drain_item_def del: fold_append)
    moreover have "potential (pe_queue pe @ map WPush xs @ zs) (w_deps w') t
        < potential (item # pe_queue pe) (w_deps w) t"
      using c wx wz by (simp add: potential_def WPush)
    moreover have "\<forall>x \<in> set (pe_queue pe @ map WPush xs @ zs). \<not> is_demand x"
      using d(2) s(3) by (auto simp: is_demand_def)
    ultimately show ?thesis using closes(3) wf' f(2) by simp
  qed
next
  case (WStabilize region)
  then show ?thesis using wf m d(2) by (simp add: drain_item_def potential_def)
qed (use d in \<open>simp add: is_demand_def\<close>)

lemma pushes_drain:
  assumes "world_wf w" "metas_complete (w_deps w)" "\<forall>x \<in> set (pe_queue pe). \<not> is_demand x"
    "2 * (length (pe_queue pe) + card (open_edges (w_deps w) t)) \<le> mx"
  shows "\<exists>pe' w'. drain t actx handled mx pe w = Some (Inr (), pe', w')
    \<and> pe_queue pe' = [] \<and> pe_demanded pe' = {}"
proof -
  have loop: "\<exists>pe' w'. drain_loop t actx handled mx steps f pe w = Some (Inr (), pe', w')
      \<and> pe_queue pe' = [] \<and> pe_demanded pe' = {}"
    if "world_wf w" "metas_complete (w_deps w)" "\<forall>x \<in> set (pe_queue pe). \<not> is_demand x"
      "potential (pe_queue pe) (w_deps w) t \<le> steps" for steps f pe w
    using that
  proof (induction steps arbitrary: f pe w)
    case 0
    have "pe_queue pe = []"
    proof (cases "pe_queue pe")
      case (Cons x xs)
      then show ?thesis using 0(3,4) by (cases x) (simp_all add: potential_def is_demand_def)
    qed
    then show ?case by (simp add: drain_loop_unfold)
  next
    case (Suc steps)
    show ?case
    proof (cases "pe_queue pe")
      case (Cons item queue)
      define pe1 where "pe1 = popped pe queue"
      have q1: "pe_queue pe1 = queue" by (simp add: pe1_def)
      obtain f' pe2 w' where i: "drain_item t actx handled item f pe1 w = Some (f', pe2, w')"
        "potential (pe_queue pe2) (w_deps w') t < potential (item # pe_queue pe1) (w_deps w) t"
        "\<forall>x \<in> set (pe_queue pe2). \<not> is_demand x" "metas_complete (w_deps w')" "world_wf w'"
        using potential_step[OF Suc.prems(1,2), of item pe1 t actx handled f] Suc.prems(3) Cons q1 by auto
      have "drain_loop t actx handled mx (Suc steps) f pe w = drain_loop t actx handled mx steps f' pe2 w'"
        using Cons i(1) by (simp add: pe1_def drain_loop_unfold)
      moreover have "potential (pe_queue pe2) (w_deps w') t \<le> steps"
        using i(2) Suc.prems(4) q1 Cons by simp
      ultimately show ?thesis using Suc.IH[OF i(5,4,3)] by simp
    qed (simp add: drain_loop_unfold)
  qed
  have "sum_list (map item_weight q) \<le> 2 * length q" for q
  proof (induction q)
    case (Cons x q)
    then show ?case by (cases x) simp_all
  qed simp
  from this[of "pe_queue pe"] have "potential (pe_queue pe) (w_deps w) t \<le> mx"
    using assms(4) by (simp add: potential_def)
  then show ?thesis
    unfolding drain_def Let_def by (intro loop) (simp_all add: assms)
qed

text \<open>
  C20. Without demands the drain always completes, cycles included: every push stamps the edge it
  travels, a stamped edge stays closed for the rest of the drain, so a queue of \<open>q\<close> items over a
  registry with \<open>e\<close> open edges is drained within \<open>2 * (q + e)\<close> steps and the step limit is never
  reported.  The world must be consistent (\<open>world_wf\<close>: graph, registry, store and counters agree) and
  every subscription must carry its metadata (\<open>metas_complete\<close>).
\<close>

theorem push_drain_terminates:
  assumes "world_wf w" "metas_complete (w_deps w)" "\<forall>x \<in> set (pe_queue pe). \<not> is_demand x"
    "2 * (length (pe_queue pe) + card (open_edges (w_deps w) t)) \<le> mx"
  shows "\<exists>pe' w'. drain t actx handled mx pe w = Some (Inr (), pe', w')
    \<and> pe_queue pe' = [] \<and> pe_demanded pe' = {}"
  by (rule pushes_drain[OF assms])

section \<open>Changing the wiring of a world\<close>

text \<open>The engine's wiring steps on the three substrates: a new node with its slot, a subscription
  with its counter entry, a removed subscription.\<close>

definition world_empty :: world where
  "world_empty = \<lparr>w_graph = graph_new, w_deps = registry_empty, w_store = store_new\<rparr>"

definition create_node :: "world \<Rightarrow> node \<Rightarrow> world" where
  "create_node w n = \<lparr>w_graph = add_node (w_graph w) n, w_deps = set_mode (w_deps w) (n_id n) Eager,
     w_store = fst (alloc (w_store w) (n_id n))\<rparr>"

definition connect :: "world \<Rightarrow> uid \<Rightarrow> uid \<Rightarrow> world" where
  "connect w src tgt =
     (let r1 = (case dense_index (w_store w) src of
                  Some d \<Rightarrow> subscribe_indexed (w_deps w) src tgt d dep_meta_default
                | None \<Rightarrow> registry_subscribe (w_deps w) src tgt)
      in w\<lparr>w_deps := add_dep_to_counter r1 tgt (store_get (w_store w) src)\<rparr>)"

definition disconnect :: "world \<Rightarrow> uid \<Rightarrow> uid \<Rightarrow> world" where
  "disconnect w src tgt =
     w\<lparr>w_deps := unsubscribe (remove_dep_from_counter (w_deps w) tgt (store_get (w_store w) src)) src tgt\<rparr>"

lemma set_mode_frame [simp]:
  "deps_of (set_mode r i m) = deps_of r" "subs_of (set_mode r i m) = subs_of r"
  "ordered_deps_of (set_mode r i m) = ordered_deps_of r"
  "ordered_dep_indices_of (set_mode r i m) = ordered_dep_indices_of r"
  "dep_counter_of (set_mode r i m) = dep_counter_of r" "dep_meta_of (set_mode r i m) = dep_meta_of r"
  by (simp_all add: set_mode_def registry_queries dep_counter_of_def fun_eq_iff)

lemma counter_edit_frame [simp]:
  "deps_of (add_dep_to_counter r i v) = deps_of r" "subs_of (add_dep_to_counter r i v) = subs_of r"
  "ordered_deps_of (add_dep_to_counter r i v) = ordered_deps_of r"
  "ordered_dep_indices_of (add_dep_to_counter r i v) = ordered_dep_indices_of r"
  "dep_meta_of (add_dep_to_counter r i v) = dep_meta_of r"
  "deps_of (remove_dep_from_counter r i v) = deps_of r" "subs_of (remove_dep_from_counter r i v) = subs_of r"
  "ordered_deps_of (remove_dep_from_counter r i v) = ordered_deps_of r"
  "ordered_dep_indices_of (remove_dep_from_counter r i v) = ordered_dep_indices_of r"
  "dep_meta_of (remove_dep_from_counter r i v) = dep_meta_of r"
  by (simp_all add: add_dep_to_counter_def remove_dep_from_counter_def registry_queries fun_eq_iff)

lemma counters_kept [simp]:
  "dep_counter_of (subscribe_indexed r a b d m) c = dep_counter_of r c"
  "dep_counter_of (subscribe_with_meta r a b m) c = dep_counter_of r c"
  "dep_counter_of (unsubscribe r a b) c = dep_counter_of r c"
  "dep_counter_of (add_dep_to_counter r b v) c =
     (if c = b then Some (counters_add (or_default counters_default (dep_counter_of r b)) v) else dep_counter_of r c)"
  "dep_counter_of (remove_dep_from_counter r b v) c =
     (if c = b then map_option (\<lambda>x. counters_remove x v) (dep_counter_of r b) else dep_counter_of r c)"
  by (simp_all add: dep_counter_of_def subscribe_indexed_def subscribe_with_meta_def unsubscribe_def
      add_dep_to_counter_def remove_dep_from_counter_def Let_def)

lemma world_wf_empty [simp]: "world_wf world_empty"
  by (simp add: world_wf_def world_empty_def cells_agree_def simple_deps_def lockstep_def counters_agree_def
      graph_node_def graph_new_def store_get_def store_new_def[unfolded] dep_counter_of_def registry_empty_def
      graph_wf_new[unfolded graph_new_def] store_wf_new[unfolded store_new_def]
      dr_wf_empty[unfolded registry_empty_def] registry_empty_queries[unfolded registry_empty_def])

lemma world_wf_create:
  assumes wf: "world_wf w" and fresh: "st_idx (w_store w) (n_id n) = None"
    and n: "n_value n = Neg" and len: "length (st_cache (w_store w)) < 2 ^ 32 - 1"
  shows "world_wf (create_node w n)"
proof -
  let ?st = "w_store w" and ?i = "n_id n" and ?r = "w_deps w"
  have parts: "graph_wf (w_graph w)" "dr_wf ?r" "store_wf ?st" "inj_on (st_idx ?st) (dom (st_idx ?st))"
    "cells_agree (w_graph w) ?st" "simple_deps ?r ?st" "counters_agree w"
    using wf by (simp_all add: world_wf_def)
  have idx: "st_idx (fst (alloc ?st ?i)) = (st_idx ?st)(?i \<mapsto> of_nat (length (st_cache ?st)))"
    by (simp add: alloc_def Let_def split: prod.split)
  have un: "unat (of_nat (length (st_cache ?st)) :: u32) = length (st_cache ?st)"
    using len by (simp add: unat_of_nat)
  have lt: "unat d < length (st_cache ?st)" if "st_idx ?st a = Some d" for a d
    using parts(3) that by (simp add: store_wf_def)
  have val: "store_get (fst (alloc ?st ?i)) x = store_get ?st x" for x
    using fresh un lt[of x] by (auto simp: store_get_def alloc_def Let_def nth_append
        split: prod.split option.split)
  have inj: "inj_on (st_idx (fst (alloc ?st ?i))) (dom (st_idx (fst (alloc ?st ?i))))"
    unfolding idx
  proof (rule inj_onI)
    fix x y
    assume "((st_idx ?st)(?i \<mapsto> of_nat (length (st_cache ?st)))) x = ((st_idx ?st)(?i \<mapsto> of_nat (length (st_cache ?st)))) y"
      "x \<in> dom ((st_idx ?st)(?i \<mapsto> of_nat (length (st_cache ?st))))"
      "y \<in> dom ((st_idx ?st)(?i \<mapsto> of_nat (length (st_cache ?st))))"
    then show "x = y"
      using inj_onD[OF parts(4), of x y] lt[of x] lt[of y] un by (auto split: if_splits)
  qed
  have used: "a \<noteq> ?i" if "a \<in> set (ordered_deps_of ?r b)" for a b
  proof -
    have "st_idx ?st a \<noteq> None" using parts(6) that unfolding simple_deps_def by blast
    with fresh show ?thesis by auto
  qed
  have "simple_deps (set_mode ?r ?i Eager) (fst (alloc ?st ?i))"
    using parts(6) used by (auto simp: simple_deps_def lockstep_def idx)
  moreover have "cells_agree (add_node (w_graph w) n) (fst (alloc ?st ?i))"
    unfolding cells_agree_def val idx
  proof
    fix j
    have "store_get ?st ?i = Neg" using fresh by (simp add: store_get_def)
    then show "case graph_node (add_node (w_graph w) n) j of None \<Rightarrow> store_get ?st j = Neg
      | Some m \<Rightarrow> ((st_idx ?st)(?i \<mapsto> of_nat (length (st_cache ?st)))) j \<noteq> None \<and> n_value m = store_get ?st j"
      using parts(5)[unfolded cells_agree_def, THEN spec, of j] n
      by (cases "j = ?i") (auto split: option.splits)
  qed
  moreover have "counters_agree (create_node w n)"
    using parts(7) by (simp add: counters_agree_def create_node_def dep_values_def w_value_def[abs_def]
        ext[of "store_get (fst (alloc ?st ?i))", OF val])
  moreover have "dr_wf (set_mode ?r ?i Eager)"
    using parts(2) by (simp add: converse_maps_def)
  ultimately show ?thesis
    using parts graph_wf_ops inj alloc_wf[OF parts(3) len] by (simp add: world_wf_def create_node_def)
qed

lemma world_wf_connect:
  assumes wf: "world_wf w" and src: "st_idx (w_store w) src \<noteq> None" and new: "src \<notin> deps_of (w_deps w) tgt"
    and len: "length (ordered_deps_of (w_deps w) tgt) + 2 < 2 ^ 32"
  shows "world_wf (connect w src tgt)"
proof -
  let ?st = "w_store w" and ?r = "w_deps w"
  obtain d where d: "st_idx ?st src = Some d" using src by blast
  have parts: "dr_wf ?r" "simple_deps ?r ?st" "counters_agree w"
    using wf by (simp_all add: world_wf_def)
  define r' where "r' = add_dep_to_counter (subscribe_indexed ?r src tgt d dep_meta_default) tgt (store_get ?st src)"
  have c: "connect w src tgt = w\<lparr>w_deps := r'\<rparr>"
    by (simp add: connect_def dense_index_def d r'_def)
  have "simple_deps r' ?st"
    using parts(2) d new len by (auto simp: simple_deps_def r'_def lockstep_def)
  moreover have "counters_agree (w\<lparr>w_deps := r'\<rparr>)"
    unfolding counters_agree_def
  proof (intro conjI allI impI)
    fix b c'
    assume c': "dep_counter_of (w_deps (w\<lparr>w_deps := r'\<rparr>)) b = Some c'"
    have len': "length (dep_values w tgt) + 1 < 2 ^ 32" using len by (simp add: dep_values_def)
    have base: "counts (or_default counters_default (dep_counter_of ?r tgt)) (dep_values w tgt)"
      using parts(3) by (cases "dep_counter_of ?r tgt") (simp_all add: counters_agree_def dep_values_def counts_default)
    have dv: "dep_values (w\<lparr>w_deps := r'\<rparr>) b = dep_values w b @ (if b = tgt then [w_value w src] else [])"
      by (simp add: dep_values_def r'_def w_value_def)
    show "counts c' (dep_values (w\<lparr>w_deps := r'\<rparr>) b)"
      unfolding dv using c' counts_add[OF base len', of "w_value w src"] parts(3)
      by (auto simp: r'_def w_value_def counters_agree_def split: if_splits)
  next
    fix b
    assume "dep_counter_of (w_deps (w\<lparr>w_deps := r'\<rparr>)) b = None"
    then show "ordered_deps_of (w_deps (w\<lparr>w_deps := r'\<rparr>)) b = []"
      using parts(3) by (auto simp: r'_def counters_agree_def split: if_splits)
  qed
  moreover have "dr_wf r'"
    using indexed_reg.connect_converse[OF parts(1)] by (simp add: r'_def converse_maps_def)
  ultimately show ?thesis using wf by (simp add: c world_wf_def)
qed

lemma count_remove1_map:
  "a \<in> set xs \<Longrightarrow> count_list (map f (remove1 a xs)) v = count_list (remove1 (f a) (map f xs)) v"
proof (induction xs)
  case (Cons x xs)
  show ?case
  proof (cases "x = a")
    case False
    then have a: "a \<in> set xs" using Cons.prems by simp
    then have "count_list (map f xs) (f a) \<noteq> 0" by (simp add: count_list_0_iff)
    then show ?thesis using Cons.IH[OF a] False by (cases "f x = f a") (auto simp: count_list_remove1)
  qed simp
qed simp

lemma world_wf_disconnect:
  assumes wf: "world_wf w" and dep: "src \<in> deps_of (w_deps w) tgt"
  shows "world_wf (disconnect w src tgt)"
proof -
  let ?st = "w_store w" and ?r = "w_deps w"
  have parts: "dr_wf ?r" "simple_deps ?r ?st" "counters_agree w"
    using wf by (simp_all add: world_wf_def)
  define r' where "r' = unsubscribe (remove_dep_from_counter ?r tgt (store_get ?st src)) src tgt"
  have c: "disconnect w src tgt = w\<lparr>w_deps := r'\<rparr>"
    by (simp add: disconnect_def r'_def)
  have lock: "lockstep (\<lambda>a. the (st_idx ?st a)) r'"
    unfolding r'_def using parts(2) by (intro lockstep_unsubscribe) (simp add: simple_deps_def lockstep_def)
  have "simple_deps r' ?st"
    unfolding simple_deps_def
  proof (intro conjI lock allI)
    fix b
    have b: "distinct (ordered_deps_of ?r b)" "set (ordered_deps_of ?r b) = deps_of ?r b"
      "length (ordered_deps_of ?r b) + 1 < 2 ^ 32" "\<forall>a \<in> deps_of ?r b. st_idx ?st a \<noteq> None"
      using parts(2) by (simp_all add: simple_deps_def)
    have o: "ordered_deps_of r' b = (if b = tgt then remove1 src (ordered_deps_of ?r b) else ordered_deps_of ?r b)"
      "deps_of r' b = (if b = tgt then deps_of ?r b - {src} else deps_of ?r b)"
      by (simp_all add: r'_def)
    show "distinct (ordered_deps_of r' b)" unfolding o using b(1) distinct_remove1 by auto
    show "set (ordered_deps_of r' b) = deps_of r' b" unfolding o using set_remove1_eq[OF b(1), of src] b(2) by auto
    show "length (ordered_deps_of r' b) + 1 < 2 ^ 32"
      using b(3) by (auto simp: o length_remove1 split: if_splits)
    show "\<forall>a \<in> deps_of r' b. st_idx ?st a \<noteq> None" using b(4) by (auto simp: o)
  qed
  moreover have "counters_agree (w\<lparr>w_deps := r'\<rparr>)"
    unfolding counters_agree_def
  proof (intro conjI allI impI)
    fix b c'
    assume c': "dep_counter_of (w_deps (w\<lparr>w_deps := r'\<rparr>)) b = Some c'"
    have dv: "dep_values (w\<lparr>w_deps := r'\<rparr>) b = map (w_value w)
        (if b = tgt then remove1 src (ordered_deps_of ?r b) else ordered_deps_of ?r b)"
      by (simp add: dep_values_def r'_def w_value_def[abs_def])
    show "counts c' (dep_values (w\<lparr>w_deps := r'\<rparr>) b)"
    proof (cases "b = tgt")
      case True
      obtain c0 where c0: "dep_counter_of ?r tgt = Some c0" "c' = counters_remove c0 (w_value w src)"
        using c' True by (auto simp: r'_def w_value_def)
      have "counts c' (remove1 (w_value w src) (map (w_value w) (ordered_deps_of ?r tgt)))"
        using parts(3) c0 counts_remove by (simp add: counters_agree_def dep_values_def)
      moreover have "src \<in> set (ordered_deps_of ?r tgt)" using dep parts(2) by (simp add: simple_deps_def)
      ultimately show ?thesis
        using counts_cong[OF count_remove1_map[of src "ordered_deps_of ?r tgt" "w_value w"], of c']
        unfolding dv using True by simp
    next
      case False
      then show ?thesis
        unfolding dv using c' parts(3) by (simp add: r'_def counters_agree_def dep_values_def)
    qed
  next
    fix b
    assume "dep_counter_of (w_deps (w\<lparr>w_deps := r'\<rparr>)) b = None"
    then have "ordered_deps_of ?r b = []"
      using parts(3) by (auto simp: r'_def counters_agree_def split: if_splits)
    then show "ordered_deps_of (w_deps (w\<lparr>w_deps := r'\<rparr>)) b = []" by (auto simp: r'_def)
  qed
  moreover have "dr_wf r'"
    using plain_reg.disconnect_converse[of "remove_dep_from_counter ?r tgt (store_get ?st src)"] parts(1)
    by (simp add: r'_def converse_maps_def)
  ultimately show ?thesis using wf by (simp add: c world_wf_def)
qed

text \<open>
  Wiring keeps the world consistent: creating a fresh node, subscribing to an existing source
  once and dropping a subscription that exists each preserve the invariant the push step relies
  on, dense indices and counters included.
\<close>

theorem wiring_preserves_world:
  assumes "world_wf w"
  shows "(st_idx (w_store w) (n_id n) = None \<and> n_value n = Neg \<and> length (st_cache (w_store w)) < 2 ^ 32 - 1
       \<longrightarrow> world_wf (create_node w n))
    \<and> (st_idx (w_store w) a \<noteq> None \<and> a \<notin> deps_of (w_deps w) b
         \<and> length (ordered_deps_of (w_deps w) b) + 2 < 2 ^ 32
       \<longrightarrow> world_wf (connect w a b) \<and> b \<in> subs_of (w_deps (connect w a b)) a)
    \<and> (a \<in> deps_of (w_deps w) b \<longrightarrow> world_wf (disconnect w a b) \<and> b \<notin> subs_of (w_deps (disconnect w a b)) a)"
proof -
  have "b \<in> subs_of (w_deps (connect w a b)) a"
    by (simp add: connect_def Let_def registry_subscribe_def split: option.split)
  then show ?thesis
    using world_wf_create[OF assms, of n] world_wf_connect[OF assms, of a b] world_wf_disconnect[OF assms, of a b]
    by (auto simp: disconnect_def)
qed

section \<open>A small world, and the properties at it\<close>

text \<open>Two computed nodes that read each other.\<close>

definition ring_world :: world where
  "ring_world = connect (connect (create_node (create_node world_empty (node_computed 1 ''a'' Identity_rule))
     (node_computed 2 ''b'' Identity_rule)) 1 2) 2 1"

lemma create_node_sel [simp]:
  "w_deps (create_node w n) = set_mode (w_deps w) (n_id n) Eager"
  "w_graph (create_node w n) = add_node (w_graph w) n"
  "st_idx (w_store (create_node w n)) = (st_idx (w_store w))(n_id n \<mapsto> of_nat (length (st_cache (w_store w))))"
  "length (st_cache (w_store (create_node w n))) = Suc (length (st_cache (w_store w)))"
  by (simp_all add: create_node_def alloc_def Let_def split: prod.split)

lemma connect_sel [simp]:
  "w_graph (connect w a b) = w_graph w" "w_store (connect w a b) = w_store w"
  "deps_of (w_deps (connect w a b)) c = (if c = b then insert a (deps_of (w_deps w) c) else deps_of (w_deps w) c)"
  "subs_of (w_deps (connect w a b)) c = (if c = a then insert b (subs_of (w_deps w) c) else subs_of (w_deps w) c)"
  "ordered_deps_of (w_deps (connect w a b)) c
     = (if c = b then ordered_deps_of (w_deps w) c @ [a] else ordered_deps_of (w_deps w) c)"
  "dep_meta_of (w_deps (connect w a b)) x y
     = (if x = a \<and> y = b then Some dep_meta_default else dep_meta_of (w_deps w) x y)"
  by (simp_all add: connect_def Let_def registry_subscribe_def split: option.split)

lemma world_empty_sel [simp]:
  "w_deps world_empty = registry_empty" "w_graph world_empty = graph_new"
  "st_idx (w_store world_empty) = Map.empty" "st_cache (w_store world_empty) = []"
  by (simp_all add: world_empty_def store_new_def)

lemma node_ids [simp]: "n_id (node_computed i ty r) = i" "n_id (node_input i ty) = i"
  "n_value (node_computed i ty r) = Neg" "n_value (node_input i ty) = Neg"
  "n_kind (node_computed i ty r) = Computed r" "n_kind (node_input i ty) = Input"
  by (simp_all add: node_computed_def node_input_def)

lemma graph_node_new [simp]: "graph_node graph_new i = None"
  by (simp add: graph_node_def graph_new_def)

lemma ring_world_wf: "world_wf ring_world"
  unfolding ring_world_def
  by (intro world_wf_connect world_wf_create world_wf_empty) simp_all

lemma ring_world_deps:
  "deps_of (w_deps ring_world) x = (if x = 1 then {2} else if x = 2 then {1} else {})"
  "ordered_deps_of (w_deps ring_world) x = (if x = 1 then [2] else if x = 2 then [1] else [])"
  "graph_node (w_graph ring_world) 1 = Some (node_computed 1 ''a'' Identity_rule)"
  "graph_node (w_graph ring_world) 2 = Some (node_computed 2 ''b'' Identity_rule)"
  "metas_complete (w_deps ring_world)"
  by (auto simp: ring_world_def metas_complete_def)

theorem step_push_correct_witness:
  "world_wf ring_world \<and> (\<exists>w' stats' r evs work.
     step_push 2 TIME_ZERO None {} stats_zero ring_world = Some (w', stats', r, evs, work)
     \<and> world_wf w' \<and> r = None)"
proof -
  have v: "dep_values ring_world 2 = [Neg]"
    using value_of_node[OF ring_world_wf ring_world_deps(3)] by (simp add: dep_values_def ring_world_deps)
  obtain w' stats' r evs work where
    "step_push 2 TIME_ZERO None {} stats_zero ring_world = Some (w', stats', r, evs, work)"
    "world_wf w'" "(r = None) = (propagation_state (dep_values ring_world 2) = Pending)"
    using step_push_correct[OF ring_world_wf ring_world_deps(4), of Identity_rule TIME_ZERO None "{}" stats_zero]
    by auto
  then show ?thesis using ring_world_wf by (simp add: v)
qed

theorem drain_total_witness:
  "world_wf ring_world \<and> (\<exists>res pe' w'. drain TIME_ZERO None [] 3 (enqueue prop_engine_new (WPush 1)) ring_world
     = Some (res, pe', w') \<and> world_wf w')"
  using drain_total[OF ring_world_wf, of TIME_ZERO None "[]" 3 "enqueue prop_engine_new (WPush 1)" 1]
    ring_world_wf by blast

theorem demand_cycle_hits_limit_witness:
  "pending_deps ring_world 1 = [2] \<and> pending_deps ring_world 2 = [1]
   \<and> (\<exists>pe'. drain TIME_ZERO None [] 100000 (enqueue prop_engine_new (WDemand 1)) ring_world
        = Some (Inl (StepLimitExceeded 100000), pe', ring_world))"
proof -
  have p: "\<forall>x \<in> {1, 2}. pending_deps ring_world x \<noteq> [] \<and> set (pending_deps ring_world x) \<subseteq> {1, 2}"
    by (simp add: pending_deps_def ring_world_deps is_pending_def)
  moreover have "pending_deps ring_world 1 = [2]" "pending_deps ring_world 2 = [1]"
    by (simp_all add: pending_deps_def ring_world_deps is_pending_def)
  ultimately show ?thesis
    using demand_cycle_hits_limit[OF p, of "enqueue prop_engine_new (WDemand 1)" 1 "[]" TIME_ZERO None "[]" 100000]
    by (simp add: enqueue_def prop_engine_new_def)
qed

theorem push_drain_terminates_witness:
  "world_wf ring_world \<and> metas_complete (w_deps ring_world)
   \<and> (\<exists>mx pe' w'. drain TIME_ZERO None [] mx (enqueue prop_engine_new (WPush 1)) ring_world = Some (Inr (), pe', w')
        \<and> pe_queue pe' = [])"
proof -
  let ?mx = "2 * (1 + card (open_edges (w_deps ring_world) TIME_ZERO))"
  have "\<exists>pe' w'. drain TIME_ZERO None [] ?mx (enqueue prop_engine_new (WPush 1)) ring_world = Some (Inr (), pe', w')
      \<and> pe_queue pe' = [] \<and> pe_demanded pe' = {}"
    by (rule push_drain_terminates[OF ring_world_wf ring_world_deps(5)])
      (simp_all add: enqueue_def prop_engine_new_def is_demand_def)
  then show ?thesis using ring_world_wf ring_world_deps(5) by blast
qed

theorem wiring_preserves_world_witness:
  "world_wf world_empty \<and> world_wf (create_node world_empty (node_input 1 ''n''))
   \<and> world_wf (disconnect ring_world 1 2) \<and> 2 \<notin> subs_of (w_deps (disconnect ring_world 1 2)) 1"
  using wiring_preserves_world[OF world_wf_empty, of "node_input 1 ''n''" 1 2]
    wiring_preserves_world[OF ring_world_wf, of "node_input 1 ''n''" 1 2]
  by (simp add: ring_world_deps)

end
