(* ===== verification/Region.thy ===== *)
theory Region
  imports Propagate
begin

text \<open>
  Compiled regions, \<^verbatim>\<open>core-rs/src/region.rs\<close>: the sparse circuit of a frozen subgraph, its
  inverted index, the incremental execution over the dense cache, and the artifact cache with
  its invalidation rules.  Row and column arrays are lists.  Every index and slice expression of
  the code is partial here: out of range it is \<open>None\<close>, the panic of the code, and so is the
  unchecked read of a cache slot that does not exist.  The layout condition \<open>region_layout\<close> puts all
  of them in range, and the compiler establishes it.
\<close>

section \<open>Declarations and the artifact\<close>

datatype region_boundary = DepClosure nat | ExplicitSet "uid list" | PartitionScoped partition_id

definition explicit_members :: "region_boundary \<Rightarrow> uid list option" where
  "explicit_members b = (case b of ExplicitSet v \<Rightarrow> Some v | _ \<Rightarrow> None)"

datatype stability_contract = Pinned | EpochTracked
datatype compile_policy = CP_Eager | CP_Lazy | CP_Never

record compiled_region =
  rg_members :: "uid list"
  rg_rules :: "compute_rule list"
  rg_outputs :: "u32 list"
  rg_inputs :: "u32 list"
  rg_offsets :: "u32 list"
  rg_cols :: "u32 list"
  rg_compiled_at :: u64
  rg_inv_keys :: "u32 list"
  rg_inv_offsets :: "u32 list"
  rg_inv_rows :: "u32 list"
  rg_contig :: "u32 option list"

section \<open>Indexing\<close>

definition slice :: "'a list \<Rightarrow> nat \<Rightarrow> nat \<Rightarrow> 'a list" where
  "slice xs i j = take (j - i) (drop i xs)"

text \<open>\<open>&xs[i..j]\<close> panics when the bounds are out of order or past the end, \<open>xs[i]\<close> when \<open>i\<close> is.\<close>

definition sub_slice :: "'a list \<Rightarrow> nat \<Rightarrow> nat \<Rightarrow> 'a list option" where
  "sub_slice xs i j = (if i \<le> j \<and> j \<le> length xs then Some (slice xs i j) else None)"

definition row_span :: "u32 list \<Rightarrow> nat \<Rightarrow> (u32 \<times> u32) option" where
  "row_span offsets row = Option.bind (slice_get offsets row)
     (\<lambda>rs. map_option (Pair rs) (slice_get offsets (row + 1)))"

definition row_slice :: "u32 list \<Rightarrow> u32 list \<Rightarrow> nat \<Rightarrow> u32 list option" where
  "row_slice offsets cols row =
     Option.bind (row_span offsets row) (\<lambda>(rs, re). sub_slice cols (unat rs) (unat re))"

text \<open>A loop whose body may panic.\<close>

fun fold_opt :: "('a \<Rightarrow> 's \<Rightarrow> 's option) \<Rightarrow> 'a list \<Rightarrow> 's \<Rightarrow> 's option" where
  "fold_opt f [] s = Some s"
| "fold_opt f (x # xs) s = Option.bind (f x s) (fold_opt f xs)"

section \<open>The inverted index\<close>

definition inv_add :: "u32 \<Rightarrow> u32 \<Rightarrow> (u32, u32 list) amap \<Rightarrow> (u32, u32 list) amap" where
  "inv_add row col im = aput col (or_default [] (aget im col) @ [row]) im"

definition inv_rows :: "u32 list \<Rightarrow> u32 list \<Rightarrow> nat \<Rightarrow> (u32, u32 list) amap option" where
  "inv_rows offsets cols n_rows =
     fold_opt (\<lambda>row im. map_option (\<lambda>cs. fold (inv_add (of_nat row)) cs im) (row_slice offsets cols row))
       [0 ..< n_rows] []"

definition inv_pack :: "(u32, u32 list) amap \<Rightarrow> u32 list \<Rightarrow> u32 list \<times> u32 list" where
  "inv_pack im keys = fold (\<lambda>k (offs, rows). let rows' = rows @ or_default [] (aget im k)
      in (offs @ [of_nat (length rows')], rows')) keys ([0], [])"

definition contig_run :: "u32 list \<Rightarrow> u32 \<Rightarrow> bool" where
  "contig_run xs first = list_all (\<lambda>(k, c). c = first + of_nat k) (enumerate 0 xs)"

definition contig_hint :: "u32 list \<Rightarrow> u32 list \<Rightarrow> nat \<Rightarrow> u32 option option" where
  "contig_hint offsets cols row = Option.bind (row_span offsets row) (\<lambda>(rs, re).
     if rs \<ge> re then Some None
     else Option.bind (slice_get cols (unat rs)) (\<lambda>first.
       map_option (\<lambda>xs. if contig_run xs first then Some first else None) (sub_slice cols (unat rs) (unat re))))"

definition build_region_inv ::
  "u32 list \<Rightarrow> u32 list \<Rightarrow> nat \<Rightarrow> (u32 list \<times> u32 list \<times> u32 list \<times> u32 option list) option" where
  "build_region_inv offsets cols n_rows = Option.bind (inv_rows offsets cols n_rows) (\<lambda>im.
     let keys = sort (map fst im); (offs, rows) = inv_pack im keys
     in map_option (\<lambda>contig. (keys, offs, rows, contig)) (those (map (contig_hint offsets cols) [0 ..< n_rows])))"

section \<open>Execution\<close>

definition bits_set :: "u64 list \<Rightarrow> nat \<Rightarrow> u64 list" where
  "bits_set bs i = bs[i div 64 := (bs ! (i div 64)) OR push_bit (i mod 64) 1]"

text \<open>The positions the loop over \<open>w &= w - 1\<close> visits: the set bits of every word, ascending.\<close>

definition set_positions :: "u64 list \<Rightarrow> nat list" where
  "set_positions bs = filter (plane_bit bs) [0 ..< 64 * length bs]"

text \<open>\<open>binary_search\<close> on the keys, which the layout has ascending and distinct.\<close>

definition rows_reading :: "compiled_region \<Rightarrow> u32 \<Rightarrow> nat list option" where
  "rows_reading rg col = (case position col (rg_inv_keys rg) of
      None \<Rightarrow> Some []
    | Some k \<Rightarrow> map_option (map unat) (row_slice (rg_inv_offsets rg) (rg_inv_rows rg) k))"

text \<open>Setting the bits of the rows that satisfy \<open>P\<close> in the pending mask.\<close>

definition mark_rows :: "(nat \<Rightarrow> bool) \<Rightarrow> nat list \<Rightarrow> u64 list \<Rightarrow> u64 list option" where
  "mark_rows P = fold_opt (\<lambda>r p. if \<not> P r then Some p
     else if r div 64 < length p then Some (bits_set p r) else None)"

definition initial_pending :: "compiled_region \<Rightarrow> u64 list \<Rightarrow> u64 list option" where
  "initial_pending rg dirty =
     fold_opt (\<lambda>d p. Option.bind (rows_reading rg (of_nat d)) (\<lambda>rs. mark_rows (\<lambda>_. True) rs p))
       (set_positions dirty) (replicate ((length (rg_members rg) + 63) div 64) 0)"

definition dense_read :: "value_store \<Rightarrow> u32 \<Rightarrow> T option" where
  "dense_read st d = slice_get (st_cache st) (unat d)"

definition gather_row :: "compiled_region \<Rightarrow> value_store \<Rightarrow> nat \<Rightarrow> T list option" where
  "gather_row rg st i = Option.bind (row_slice (rg_offsets rg) (rg_cols rg) i)
     (\<lambda>cs. those (map (dense_read st) cs))"

definition scalar_row :: "compiled_region \<Rightarrow> value_store \<Rightarrow> nat \<Rightarrow> T option option" where
  "scalar_row rg st i = Option.bind (gather_row rg st i)
     (\<lambda>vs. map_option (\<lambda>r. rule_eval r vs) (slice_get (rg_rules rg) i))"

text \<open>The outer \<open>None\<close> is a panic, the inner one a rule without a value.\<close>

definition eval_row :: "compiled_region \<Rightarrow> value_store \<Rightarrow> nat \<Rightarrow> T option option" where
  "eval_row rg st i =
     Option.bind (row_span (rg_offsets rg) i) (\<lambda>(row_start, row_end).
     Option.bind (slice_get (rg_contig rg) i) (\<lambda>hint.
       case hint of
         Some first \<Rightarrow> Option.bind (slice_get (rg_rules rg) i) (\<lambda>rule.
           (case rule of
              MeetAll \<Rightarrow> Some (Some (meet_all_range st first (row_end - row_start)))
            | JoinAny \<Rightarrow> Some (Some (join_any_range st first (row_end - row_start)))
            | _ \<Rightarrow> scalar_row rg st i))
       | None \<Rightarrow> scalar_row rg st i))"

record region_run =
  rr_store :: value_store
  rr_dirty :: "u64 list"
  rr_pending :: "u64 list"
  rr_changed :: "(uid \<times> T \<times> T) list"

text \<open>A changed output: the slot, the report, the dirty bit, the later rows that read the slot.\<close>

definition commit_row :: "compiled_region \<Rightarrow> nat \<Rightarrow> u32 \<Rightarrow> T \<Rightarrow> T \<Rightarrow> region_run \<Rightarrow> region_run option" where
  "commit_row rg i out old new s =
     Option.bind (set_by_dense (rr_store s) out new) (\<lambda>st'.
     Option.bind (slice_get (rg_members rg) i) (\<lambda>m.
     Option.bind (rows_reading rg out) (\<lambda>rs.
     map_option (\<lambda>p. \<lparr>rr_store = st',
         rr_dirty = (if unat out div 64 < length (rr_dirty s) then bits_set (rr_dirty s) (unat out) else rr_dirty s),
         rr_pending = p, rr_changed = rr_changed s @ [(m, old, new)]\<rparr>)
       (mark_rows (\<lambda>r. r > i) rs (rr_pending s)))))"

definition run_row :: "compiled_region \<Rightarrow> nat \<Rightarrow> region_run \<Rightarrow> region_run option" where
  "run_row rg i s =
     (if i div 64 \<ge> length (rr_pending s) then None
      else if \<not> plane_bit (rr_pending s) i then Some s
      else Option.bind (slice_get (rg_outputs rg) i) (\<lambda>out.
           Option.bind (eval_row rg (rr_store s) i) (\<lambda>res.
             case res of
               None \<Rightarrow> Some s
             | Some new \<Rightarrow> Option.bind (dense_read (rr_store s) out) (\<lambda>old.
                 if old \<noteq> new then commit_row rg i out old new s else Some s))))"

fun run_rows :: "compiled_region \<Rightarrow> nat list \<Rightarrow> region_run \<Rightarrow> region_run option" where
  "run_rows rg [] s = Some s"
| "run_rows rg (i # is) s = Option.bind (run_row rg i s) (run_rows rg is)"

definition run_compiled_region ::
  "compiled_region \<Rightarrow> value_store \<Rightarrow> u64 list \<Rightarrow> (value_store \<times> u64 list \<times> (uid \<times> T \<times> T) list) option" where
  "run_compiled_region rg st dirty =
     (if rg_members rg = [] then Some (st, dirty, [])
      else Option.bind (initial_pending rg dirty) (\<lambda>pending.
        map_option (\<lambda>s. (rr_store s, rr_dirty s, rr_changed s))
          (run_rows rg [0 ..< length (rg_members rg)]
             \<lparr>rr_store = st, rr_dirty = dirty, rr_pending = pending, rr_changed = []\<rparr>)))"

section \<open>The artifact cache\<close>

record region_cache =
  rc_regions :: "(uid, compiled_region) amap"
  rc_contracts :: "uid \<Rightarrow> stability_contract option"
  rc_dirty :: "uid set"
  rc_inputs :: "u32 \<Rightarrow> uid list option"

definition cache_new :: region_cache where
  "cache_new = \<lparr>rc_regions = [], rc_contracts = Map.empty, rc_dirty = {}, rc_inputs = Map.empty\<rparr>"

definition cache_insert :: "region_cache \<Rightarrow> uid \<Rightarrow> compiled_region \<Rightarrow> stability_contract \<Rightarrow> region_cache" where
  "cache_insert c root rg k =
     (let inputs = fold (\<lambda>d m. m(d \<mapsto> or_default [] (m d) @ [root])) (rg_inputs rg) (rc_inputs c)
      in c\<lparr>rc_inputs := inputs, rc_regions := aput root rg (rc_regions c),
           rc_contracts := (rc_contracts c)(root \<mapsto> k)\<rparr>)"

definition cache_is_valid :: "region_cache \<Rightarrow> uid \<Rightarrow> u64 \<Rightarrow> bool" where
  "cache_is_valid c root epoch = (case rc_contracts c root of
      Some Pinned \<Rightarrow> aget (rc_regions c) root \<noteq> None
    | Some EpochTracked \<Rightarrow> (case aget (rc_regions c) root of None \<Rightarrow> False | Some r \<Rightarrow> rg_compiled_at r = epoch)
    | None \<Rightarrow> False)"

definition remove_reverse_map_for :: "region_cache \<Rightarrow> uid \<Rightarrow> region_cache" where
  "remove_reverse_map_for c root = (case aget (rc_regions c) root of
      None \<Rightarrow> c
    | Some rg \<Rightarrow> c\<lparr>rc_inputs := fold (\<lambda>d m. m(d := map_option (filter (\<lambda>r. r \<noteq> root)) (m d)))
                    (rg_inputs rg) (rc_inputs c)\<rparr>)"

definition evict :: "region_cache \<Rightarrow> uid \<Rightarrow> region_cache" where
  "evict c root = (let c1 = remove_reverse_map_for c root in
     c1\<lparr>rc_regions := adel root (rc_regions c1), rc_dirty := rc_dirty c1 - {root}\<rparr>)"

definition invalidate_for_node :: "region_cache \<Rightarrow> uid \<Rightarrow> region_cache" where
  "invalidate_for_node c n =
     fold (\<lambda>root c. evict c root)
       (map fst (filter (\<lambda>(root, r). rc_contracts c root = Some EpochTracked \<and> n \<in> set (rg_members r)) (rc_regions c))) c"

definition mark_dirty_for_input :: "region_cache \<Rightarrow> u32 \<Rightarrow> region_cache" where
  "mark_dirty_for_input c d = (case rc_inputs c d of
      None \<Rightarrow> c | Some roots \<Rightarrow> c\<lparr>rc_dirty := rc_dirty c \<union> set roots\<rparr>)"

text \<open>The set's iteration order is not fixed by the code; the model takes the ascending one.\<close>

definition take_dirty :: "region_cache \<Rightarrow> region_cache \<times> uid list" where
  "take_dirty c = (c\<lparr>rc_dirty := {}\<rparr>, sorted_uids (rc_dirty c))"

section \<open>The inverted index is the inverse\<close>

lemma inv_add_rows: "r \<in> set (or_default [] (aget (inv_add row col im) c))
    = (r \<in> set (or_default [] (aget im c)) \<or> r = row \<and> c = col)"
  by (auto simp: inv_add_def)

lemma inv_add_dom: "(aget (inv_add row col im) c \<noteq> None) = (aget im c \<noteq> None \<or> c = col)"
  by (simp add: inv_add_def)

lemma inv_add_fold:
  "r \<in> set (or_default [] (aget (fold (inv_add row) cs im) c))
     = (r \<in> set (or_default [] (aget im c)) \<or> r = row \<and> c \<in> set cs)"
  "(aget (fold (inv_add row) cs im) c \<noteq> None) = (aget im c \<noteq> None \<or> c \<in> set cs)"
  by (induction cs arbitrary: im) (auto simp: inv_add_rows inv_add_dom[unfolded not_None_eq])

lemma inv_add_fold_wf: "awf im \<Longrightarrow> awf (fold (inv_add row) cs im)"
  by (induction cs arbitrary: im) (auto simp: inv_add_def)

lemma inv_rows_fold:
  "r \<in> set (or_default [] (aget (fold (\<lambda>row. fold (inv_add (of_nat row)) (f row)) ns im) c))
      = (r \<in> set (or_default [] (aget im c)) \<or> (\<exists>row \<in> set ns. r = of_nat row \<and> c \<in> set (f row)))"
  by (induction ns arbitrary: im) (auto simp: inv_add_fold(1))

lemma inv_rows_fold_dom:
  "(aget (fold (\<lambda>row. fold (inv_add (of_nat row)) (f row)) ns im) c \<noteq> None)
     = (aget im c \<noteq> None \<or> (\<exists>row \<in> set ns. c \<in> set (f row)))"
proof (induction ns arbitrary: im)
  case (Cons n ns)
  show ?case
    using Cons[of "fold (inv_add (of_nat n)) (f n) im"] inv_add_fold(2)[of "of_nat n" "f n" im c]
    by (simp del: not_None_eq)
qed simp

lemma inv_rows_fold_wf: "awf im \<Longrightarrow> awf (fold (\<lambda>row. fold (inv_add (of_nat row)) (f row)) ns im)"
  by (induction ns arbitrary: im) (auto simp: inv_add_fold_wf)

lemma slice_concat:
  "k < length ks \<Longrightarrow> slice (concat (map f ks)) (length (concat (map f (take k ks))))
     (length (concat (map f (take (Suc k) ks)))) = f (ks ! k)"
proof (induction ks arbitrary: k)
  case (Cons x ks)
  then show ?case by (cases k) (auto simp: slice_def)
qed simp

lemma inv_pack_fold:
  "fold (\<lambda>k (offs, rows). let rows' = rows @ or_default [] (aget im k)
      in (offs @ [of_nat (length rows')], rows')) ks (offs, rows)
   = (offs @ map (\<lambda>j. of_nat (length rows + length (concat (map (\<lambda>k. or_default [] (aget im k)) (take (Suc j) ks))))) [0 ..< length ks],
      rows @ concat (map (\<lambda>k. or_default [] (aget im k)) ks))"
proof (induction ks arbitrary: offs rows)
  case (Cons x ks)
  have "[0 ..< length (x # ks)] = 0 # map Suc [0 ..< length ks]"
    by (simp add: upt_conv_Cons map_Suc_upt del: upt_Suc)
  with Cons show ?case by (simp add: Let_def comp_def add.assoc del: upt_Suc)
qed simp

lemma position_distinct: "distinct xs \<Longrightarrow> k < length xs \<Longrightarrow> position (xs ! k) xs = Some k"
proof (induction xs arbitrary: k)
  case (Cons x xs)
  then show ?case by (cases k) (auto simp: nth_mem)
qed simp

text \<open>A row whose index and slice expressions are in range, and the columns it then holds.\<close>

definition span_ok :: "u32 list \<Rightarrow> 'a list \<Rightarrow> nat \<Rightarrow> bool" where
  "span_ok offsets cols row \<longleftrightarrow> row + 1 < length offsets
     \<and> unat (offsets ! row) \<le> unat (offsets ! (row + 1)) \<and> unat (offsets ! (row + 1)) \<le> length cols"

definition row_cols :: "u32 list \<Rightarrow> 'a list \<Rightarrow> nat \<Rightarrow> 'a list" where
  "row_cols offsets cols row = slice cols (unat (offsets ! row)) (unat (offsets ! (row + 1)))"

lemma row_span_eq: "row_span offsets row
    = (if row + 1 < length offsets then Some (offsets ! row, offsets ! (row + 1)) else None)"
  by (simp add: row_span_def slice_get_def)

lemma row_slice_eq: "row_slice offsets cols row
    = (if span_ok offsets cols row then Some (row_cols offsets cols row) else None)"
  by (auto simp: row_slice_def row_span_eq sub_slice_def span_ok_def row_cols_def)

lemma row_cols_length: "span_ok offsets cols row
    \<Longrightarrow> length (row_cols offsets cols row) = unat (offsets ! (row + 1)) - unat (offsets ! row)"
  by (auto simp: span_ok_def row_cols_def slice_def)

lemma slice_Cons: "i < j \<Longrightarrow> j \<le> length xs \<Longrightarrow> slice xs i j = xs ! i # slice xs (Suc i) j"
proof -
  assume "i < j" "j \<le> length xs"
  then have "drop i xs = xs ! i # drop (Suc i) xs" "j - i = Suc (j - Suc i)"
    by (simp_all add: Cons_nth_drop_Suc)
  then show ?thesis by (simp add: slice_def)
qed

lemma fold_opt_total:
  "(\<And>x s. x \<in> set xs \<Longrightarrow> f x s = Some (g x s)) \<Longrightarrow> fold_opt f xs s = Some (fold g xs s)"
  by (induction xs arbitrary: s) simp_all

lemma fold_opt_partial:
  "fold_opt (\<lambda>x s. map_option (\<lambda>y. f x y s) (if P x then Some (g x) else None)) xs s
     = (if \<forall>x \<in> set xs. P x then Some (fold (\<lambda>x. f x (g x)) xs s) else None)"
  by (induction xs arbitrary: s) auto

lemma those_total: "(\<And>x. x \<in> set xs \<Longrightarrow> f x = Some (g x)) \<Longrightarrow> those (map f xs) = Some (map g xs)"
  by (induction xs) simp_all

definition inv_map :: "u32 list \<Rightarrow> u32 list \<Rightarrow> nat \<Rightarrow> (u32, u32 list) amap" where
  "inv_map offsets cols n_rows =
     fold (\<lambda>row. fold (inv_add (of_nat row)) (row_cols offsets cols row)) [0 ..< n_rows] []"

lemma inv_rows_eq: "inv_rows offsets cols n
    = (if \<forall>row < n. span_ok offsets cols row then Some (inv_map offsets cols n) else None)"
  unfolding inv_rows_def inv_map_def row_slice_eq
  by (simp add: fold_opt_partial[where f = "\<lambda>row cs im. fold (inv_add (of_nat row)) cs im"]
      atLeast0LessThan)

definition row_hint :: "u32 list \<Rightarrow> u32 option" where
  "row_hint xs = (case xs of [] \<Rightarrow> None | first # _ \<Rightarrow> if contig_run xs first then Some first else None)"

lemma contig_hint_eq:
  assumes "span_ok offsets cols row"
  shows "contig_hint offsets cols row = Some (row_hint (row_cols offsets cols row))"
proof -
  let ?rs = "offsets ! row" and ?re = "offsets ! (row + 1)"
  have ok: "row + 1 < length offsets" "unat ?rs \<le> unat ?re" "unat ?re \<le> length cols"
    using assms by (simp_all add: span_ok_def)
  show ?thesis
  proof (cases "?re \<le> ?rs")
    case True
    then have "row_cols offsets cols row = []" by (simp add: row_cols_def slice_def word_le_nat_alt)
    with True ok show ?thesis by (simp add: contig_hint_def row_span_eq row_hint_def)
  next
    case False
    then have lt: "unat ?rs < unat ?re" by (simp add: word_le_nat_alt)
    have "row_cols offsets cols row = (cols ! unat ?rs) # slice cols (Suc (unat ?rs)) (unat ?re)"
      unfolding row_cols_def by (rule slice_Cons[OF lt ok(3)])
    moreover have "sub_slice cols (unat ?rs) (unat ?re) = Some (row_cols offsets cols row)"
      using ok by (simp add: sub_slice_def row_cols_def)
    ultimately show ?thesis
      using False lt ok by (simp add: contig_hint_def row_span_eq row_hint_def slice_get_def)
  qed
qed

lemma build_region_inv_eq:
  "build_region_inv offsets cols n = (if \<forall>row < n. span_ok offsets cols row
     then (let keys = sort (map fst (inv_map offsets cols n)); (offs, rows) = inv_pack (inv_map offsets cols n) keys
           in Some (keys, offs, rows, map (\<lambda>row. row_hint (row_cols offsets cols row)) [0 ..< n]))
     else None)"
proof -
  have "those (map (contig_hint offsets cols) [0 ..< n])
      = Some (map (\<lambda>row. row_hint (row_cols offsets cols row)) [0 ..< n])"
    if "\<forall>row < n. span_ok offsets cols row"
    using that by (intro those_total) (simp add: contig_hint_eq)
  then show ?thesis by (auto simp: build_region_inv_def inv_rows_eq Let_def split: prod.split)
qed

definition index_correct :: "compiled_region \<Rightarrow> bool" where
  "index_correct rg \<longleftrightarrow> sorted (rg_inv_keys rg) \<and> distinct (rg_inv_keys rg)
     \<and> (\<forall>col. \<exists>rs. rows_reading rg col = Some rs
          \<and> set rs = {r. r < length (rg_members rg) \<and> col \<in> set (row_cols (rg_offsets rg) (rg_cols rg) r)})"

lemma build_index_correct:
  assumes b: "build_region_inv (rg_offsets rg) (rg_cols rg) n
      = Some (rg_inv_keys rg, rg_inv_offsets rg, rg_inv_rows rg, rg_contig rg)"
    and n: "n = length (rg_members rg)" "n < 2 ^ 32" and len: "length (rg_inv_rows rg) < 2 ^ 32"
  shows "index_correct rg"
proof -
  define im where "im = inv_map (rg_offsets rg) (rg_cols rg) n"
  define f where "f = (\<lambda>k. or_default [] (aget im k))"
  define keys where "keys = sort (map fst im)"
  have wf: "awf im"
    unfolding im_def inv_map_def by (rule inv_rows_fold_wf) simp
  have keys: "distinct keys" "c \<in> set keys \<longleftrightarrow> aget im c \<noteq> None" for c
  proof -
    show "distinct keys" using wf by (simp add: keys_def awf_def)
    show "c \<in> set keys \<longleftrightarrow> aget im c \<noteq> None"
      by (simp add: keys_def aget_def map_of_eq_None_iff)
  qed
  have parts: "rg_inv_keys rg = keys" "rg_inv_rows rg = concat (map f keys)"
    "rg_inv_offsets rg = 0 # map (\<lambda>j. of_nat (length (concat (map f (take (Suc j) keys))))) [0 ..< length keys]"
  proof -
    have "inv_pack im keys = (0 # map (\<lambda>j. of_nat (length (concat (map f (take (Suc j) keys))))) [0 ..< length keys],
        concat (map f keys))"
      unfolding inv_pack_def inv_pack_fold f_def by simp
    then show "rg_inv_keys rg = keys" "rg_inv_rows rg = concat (map f keys)"
      "rg_inv_offsets rg = 0 # map (\<lambda>j. of_nat (length (concat (map f (take (Suc j) keys))))) [0 ..< length keys]"
      using b by (auto simp: build_region_inv_eq im_def[symmetric] keys_def[symmetric] Let_def split: if_splits)
  qed
  have offs: "unat (rg_inv_offsets rg ! k) = length (concat (map f (take k keys)))" if "k \<le> length keys" for k
  proof -
    have "concat (map f keys) = concat (map f (take k keys)) @ concat (map f (drop k keys))"
      by (metis append_take_drop_id concat_append map_append)
    then have "length (concat (map f (take k keys))) < 2 ^ 32"
      using len by (simp add: parts(2))
    then have u: "unat (of_nat (length (concat (map f (take k keys)))) :: u32) = length (concat (map f (take k keys)))"
      by (simp add: unat_of_nat)
    show ?thesis
    proof (cases k)
      case (Suc j)
      then have "rg_inv_offsets rg ! k = of_nat (length (concat (map f (take k keys))))"
        using that by (simp add: parts(3) del: upt_Suc)
      then show ?thesis using u by simp
    qed (simp add: parts(3))
  qed
  have row: "set (f col) = of_nat ` {r. r < n \<and> col \<in> set (row_cols (rg_offsets rg) (rg_cols rg) r)}"
    "(aget im col \<noteq> None) = (\<exists>r < n. col \<in> set (row_cols (rg_offsets rg) (rg_cols rg) r))" for col
    unfolding f_def im_def inv_map_def inv_rows_fold_dom by (fastforce simp: inv_rows_fold)+
  have span: "span_ok (rg_inv_offsets rg) (rg_inv_rows rg) k" if "k < length keys" for k
  proof -
    have "concat (map f keys) = concat (map f (take j keys)) @ concat (map f (drop j keys))" for j
      by (metis append_take_drop_id concat_append map_append)
    then have "length (concat (map f (take j keys))) \<le> length (concat (map f keys))" for j
      by (metis le_add1 length_append)
    from this[of "Suc k"] this[of k] show ?thesis
      using that offs[of k] offs[of "Suc k"]
      by (simp add: span_ok_def parts(2)) (simp add: parts(3) take_Suc_conv_app_nth)
  qed
  have reading: "\<exists>rs. rows_reading rg col = Some rs
      \<and> set rs = {r. r < length (rg_members rg) \<and> col \<in> set (row_cols (rg_offsets rg) (rg_cols rg) r)}" for col
  proof (cases "col \<in> set keys")
    case True
    then obtain k where k: "k < length keys" "keys ! k = col" by (auto simp: in_set_conv_nth)
    have "row_cols (rg_inv_offsets rg) (rg_inv_rows rg) k = f col"
      using slice_concat[OF k(1), of f] offs[of k] offs[of "Suc k"] k by (simp add: row_cols_def parts(2))
    then have "rows_reading rg col = Some (map unat (f col))"
      using k position_distinct[OF keys(1) k(1)] span[OF k(1)]
      by (simp add: rows_reading_def row_slice_eq parts(1))
    moreover have "unat ` set (f col) = {r. r < n \<and> col \<in> set (row_cols (rg_offsets rg) (rg_cols rg) r)}"
      using n(2) by (force simp: row(1) unat_of_nat)
    ultimately show ?thesis by (simp add: n(1))
  next
    case False
    then have "position col keys = None" by simp
    then have "rows_reading rg col = Some []" by (simp only: rows_reading_def parts(1) option.case)
    with False show ?thesis using keys(2)[of col] row(2)[of col] n(1) by auto
  qed
  have "sorted (rg_inv_keys rg)" "distinct (rg_inv_keys rg)"
    using keys(1) by (simp_all add: parts(1)) (simp add: keys_def)
  with reading show ?thesis by (simp add: index_correct_def)
qed

section \<open>The incremental run reaches the fixpoint\<close>

definition gather :: "compiled_region \<Rightarrow> value_store \<Rightarrow> nat \<Rightarrow> T list" where
  "gather rg st i = map (get_by_dense st) (row_cols (rg_offsets rg) (rg_cols rg) i)"

definition row_consistent :: "compiled_region \<Rightarrow> value_store \<Rightarrow> nat \<Rightarrow> bool" where
  "row_consistent rg st i \<longleftrightarrow> (\<forall>v. rule_eval (rg_rules rg ! i) (gather rg st i) = Some v
     \<longrightarrow> get_by_dense st (rg_outputs rg ! i) = v)"

abbreviation rg_row :: "compiled_region \<Rightarrow> nat \<Rightarrow> u32 list" where
  "rg_row rg i \<equiv> row_cols (rg_offsets rg) (rg_cols rg) i"

text \<open>What compiling a region establishes: parallel arrays, row bounds inside the columns, slots
  inside the cache, distinct outputs, rows after the rows they read, the index the inverse of the
  rows, hints true.\<close>

definition region_layout :: "compiled_region \<Rightarrow> nat \<Rightarrow> bool" where
  "region_layout rg slots \<longleftrightarrow>
     (let n = length (rg_members rg) in
      length (rg_outputs rg) = n \<and> length (rg_rules rg) = n \<and> length (rg_contig rg) = n
      \<and> length (rg_offsets rg) = n + 1 \<and> (\<forall>i < n. span_ok (rg_offsets rg) (rg_cols rg) i)
      \<and> distinct (rg_outputs rg)
      \<and> (\<forall>d \<in> set (rg_outputs rg). unat d < slots)
      \<and> (\<forall>i < n. \<forall>c \<in> set (rg_row rg i). unat c < slots)
      \<and> (\<forall>i < n. \<forall>j < n. rg_outputs rg ! j \<in> set (rg_row rg i) \<longrightarrow> j < i)
      \<and> index_correct rg
      \<and> (\<forall>i < n. \<forall>f. rg_contig rg ! i = Some f \<longrightarrow>
           map unat (rg_row rg i) = [unat f ..< unat f + length (rg_row rg i)]))"

lemma region_layoutD:
  assumes "region_layout rg slots" "i < length (rg_members rg)"
  shows "i < length (rg_outputs rg)" "i < length (rg_rules rg)" "i < length (rg_contig rg)"
    "span_ok (rg_offsets rg) (rg_cols rg) i" "unat (rg_outputs rg ! i) < slots"
    "c \<in> set (rg_row rg i) \<Longrightarrow> unat c < slots"
  using assms by (simp_all add: region_layout_def Let_def)

lemma scalar_row_total:
  assumes lay: "region_layout rg (length (st_cache st))" and i: "i < length (rg_members rg)"
  shows "scalar_row rg st i = Some (rule_eval (rg_rules rg ! i) (gather rg st i))"
proof -
  note d = region_layoutD[OF lay i]
  have "those (map (dense_read st) (rg_row rg i)) = Some (gather rg st i)"
    unfolding gather_def using d(6) by (intro those_total) (simp add: dense_read_def slice_get_def get_by_dense_def)
  then show ?thesis using d(2,4) by (simp add: scalar_row_def gather_row_def row_slice_eq slice_get_def)
qed

lemma eval_row_scalar:
  assumes lay: "region_layout rg (length (st_cache st))" and wf: "store_wf st" and i: "i < length (rg_members rg)"
  shows "eval_row rg st i = Some (rule_eval (rg_rules rg ! i) (gather rg st i))"
proof (cases "rg_contig rg ! i")
  case None
  then show ?thesis
    using region_layoutD[OF lay i] scalar_row_total[OF lay i]
    by (simp add: eval_row_def row_span_eq slice_get_def span_ok_def)
next
  case (Some f)
  let ?row = "rg_row rg i" and ?cache = "st_cache st" and ?n = "rg_offsets rg ! (i + 1) - rg_offsets rg ! i"
  note d = region_layoutD[OF lay i]
  have row: "map unat ?row = [unat f ..< unat f + length ?row]" "\<forall>c \<in> set ?row. unat c < length ?cache"
    using lay i Some by (simp_all add: region_layout_def Let_def)
  have n: "unat ?n = length ?row"
    using d(4) row_cols_length[OF d(4)] by (simp add: span_ok_def unat_sub word_le_nat_alt)
  have bound: "unat f + length ?row \<le> length ?cache" if "?row \<noteq> []"
  proof -
    have "unat f + length ?row - 1 \<in> set (map unat ?row)"
      unfolding row(1) using that by (cases ?row) simp_all
    then have "unat f + length ?row - 1 < length ?cache" using row(2) by auto
    moreover have "length ?row > 0" using that by simp
    ultimately show ?thesis by linarith
  qed
  have g: "gather rg st i = take (length ?row) (drop (unat f) ?cache)" if "?row \<noteq> []"
  proof -
    have "gather rg st i = map ((!) ?cache) (map unat ?row)"
      by (simp add: gather_def get_by_dense_def comp_def)
    also have "\<dots> = take (length ?row) (drop (unat f) ?cache)"
      unfolding row(1) using bound[OF that] by (intro nth_equalityI) simp_all
    finally show ?thesis .
  qed
  have fold: "meet_all_range st f ?n = meet_all (gather rg st i)
      \<and> join_any_range st f ?n = join_any (gather rg st i)"
  proof (cases "?row = []")
    case True
    then have "?n = 0" using n by (simp only: unat_eq_0 list.size)
    then show ?thesis using True
      by (simp only: meet_all_range_def join_any_range_def) (simp add: gather_def)
  next
    case False
    then show ?thesis using range_folds[OF wf, of f ?n] bound g by (simp only: n) simp
  qed
  have "eval_row rg st i = (case rg_rules rg ! i of
      MeetAll \<Rightarrow> Some (Some (meet_all_range st f ?n)) | JoinAny \<Rightarrow> Some (Some (join_any_range st f ?n))
    | _ \<Rightarrow> scalar_row rg st i)"
    using d(2-4) by (cases "rg_rules rg ! i") (simp_all add: eval_row_def row_span_eq slice_get_def span_ok_def Some)
  then show ?thesis
    using fold scalar_row_total[OF lay i] by (cases "rg_rules rg ! i") simp_all
qed

lemma plane_bits_set:
  assumes "i < 64 * length bs" "j < 64 * length bs"
  shows "plane_bit (bits_set bs i) j = (j = i \<or> plane_bit bs j)"
proof (cases "j div 64 = i div 64")
  case True
  have "(j mod 64 = i mod 64) = (j = i)" using True by (metis mod_mult_div_eq)
  moreover have "i div 64 < length bs" using assms(1) by (simp add: div_less_iff_less_mult mult.commute)
  ultimately show ?thesis using True by (auto simp: plane_bit_def bits_set_def bit_simps)
next
  case False
  then show ?thesis by (auto simp: plane_bit_def bits_set_def)
qed

lemma length_bits_set [simp]: "length (bits_set bs i) = length bs"
  by (simp add: bits_set_def)

lemma mark_rows_bits:
  assumes "\<forall>r \<in> set rs. r < 64 * length p"
  shows "\<exists>p'. mark_rows P rs p = Some p' \<and> length p' = length p
    \<and> (\<forall>j < 64 * length p. plane_bit p' j = (plane_bit p j \<or> (j \<in> set rs \<and> P j)))"
  using assms
proof (induction rs arbitrary: p)
  case (Cons r rs)
  show ?case
  proof (cases "P r")
    case True
    have "r div 64 < length p" using Cons.prems by (simp add: div_less_iff_less_mult mult.commute)
    then have "mark_rows P (r # rs) p = mark_rows P rs (bits_set p r)" using True by (simp add: mark_rows_def)
    moreover obtain p' where "mark_rows P rs (bits_set p r) = Some p'" "length p' = length (bits_set p r)"
      "\<forall>j < 64 * length (bits_set p r). plane_bit p' j = (plane_bit (bits_set p r) j \<or> (j \<in> set rs \<and> P j))"
      using Cons.IH[of "bits_set p r"] Cons.prems by auto
    ultimately show ?thesis using Cons.prems True by (auto simp: plane_bits_set)
  next
    case False
    then have "mark_rows P (r # rs) p = mark_rows P rs p" by (simp add: mark_rows_def)
    moreover obtain p' where "mark_rows P rs p = Some p'" "length p' = length p"
      "\<forall>j < 64 * length p. plane_bit p' j = (plane_bit p j \<or> (j \<in> set rs \<and> P j))"
      using Cons.IH[of p] Cons.prems by auto
    ultimately show ?thesis using False by auto
  qed
qed (simp add: mark_rows_def)

lemma readingD:
  assumes "index_correct rg"
  obtains rs where "rows_reading rg c = Some rs"
    "set rs = {r. r < length (rg_members rg) \<and> c \<in> set (rg_row rg r)}"
  using assms unfolding index_correct_def by blast

lemma initial_pending_rows:
  assumes ix: "index_correct rg" and d: "64 * length dirty \<le> 2 ^ 32"
  shows "\<exists>p. initial_pending rg dirty = Some p \<and> length p = (length (rg_members rg) + 63) div 64
    \<and> (\<forall>i < length (rg_members rg). plane_bit p i
        = (\<exists>c \<in> set (rg_row rg i). unat c < 64 * length dirty \<and> plane_bit dirty (unat c)))"
proof -
  let ?n = "length (rg_members rg)"
  let ?p0 = "replicate ((?n + 63) div 64) (0 :: u64)"
  let ?f = "\<lambda>d p. Option.bind (rows_reading rg (of_nat d)) (\<lambda>rs. mark_rows (\<lambda>_. True) rs p)"
  have n64: "r < 64 * ((?n + 63) div 64)" if "r < ?n" for r using that by linarith
  have fold: "\<exists>p'. fold_opt ?f ds p = Some p' \<and> length p' = length p
      \<and> (\<forall>j < ?n. plane_bit p' j = (plane_bit p j \<or> (\<exists>d \<in> set ds. of_nat d \<in> set (rg_row rg j))))"
    if "length p = (?n + 63) div 64" for ds p
    using that
  proof (induction ds arbitrary: p)
    case (Cons d ds)
    obtain rs where rs: "rows_reading rg (of_nat d) = Some rs"
      "set rs = {r. r < ?n \<and> of_nat d \<in> set (rg_row rg r)}"
      by (rule readingD[OF ix])
    have "\<forall>r \<in> set rs. r < 64 * length p" using rs(2) n64 Cons.prems by auto
    from mark_rows_bits[OF this, of "\<lambda>_. True"] obtain p1 where p1: "mark_rows (\<lambda>_. True) rs p = Some p1"
      "length p1 = length p" "\<forall>j < 64 * length p. plane_bit p1 j = (plane_bit p j \<or> j \<in> set rs)"
      by auto
    obtain p' where p': "fold_opt ?f ds p1 = Some p'" "length p' = length p1"
      "\<forall>j < ?n. plane_bit p' j = (plane_bit p1 j \<or> (\<exists>d \<in> set ds. of_nat d \<in> set (rg_row rg j)))"
      using Cons.IH[of p1] p1(2) Cons.prems by auto
    have "plane_bit p1 j = (plane_bit p j \<or> of_nat d \<in> set (rg_row rg j))" if "j < ?n" for j
      using p1(3) n64[OF that] that Cons.prems rs(2) by simp
    then show ?case using p1(1,2) p' rs(1) by auto
  qed simp
  obtain p where p: "initial_pending rg dirty = Some p" "length p = (?n + 63) div 64"
    "\<forall>j < ?n. plane_bit p j = (plane_bit ?p0 j \<or> (\<exists>d \<in> set (set_positions dirty). of_nat d \<in> set (rg_row rg j)))"
    unfolding initial_pending_def using fold[of ?p0 "set_positions dirty"] by auto
  have "plane_bit p i = (\<exists>c \<in> set (rg_row rg i). unat c < 64 * length dirty \<and> plane_bit dirty (unat c))"
    if i: "i < ?n" for i
  proof -
    have z: "\<not> plane_bit ?p0 i"
      using n64[OF i] by (simp add: plane_bit_def div_less_iff_less_mult mult.commute)
    have "plane_bit p i = (\<exists>d < 64 * length dirty. plane_bit dirty d \<and> of_nat d \<in> set (rg_row rg i))"
      using p(3) z i by (auto simp: set_positions_def)
    also have "\<dots> = (\<exists>c \<in> set (rg_row rg i). unat c < 64 * length dirty \<and> plane_bit dirty (unat c))"
    proof
      assume "\<exists>d < 64 * length dirty. plane_bit dirty d \<and> of_nat d \<in> set (rg_row rg i)"
      then obtain x where x: "x < 64 * length dirty" "plane_bit dirty x" "of_nat x \<in> set (rg_row rg i)" by blast
      have "unat (of_nat x :: u32) = x" using x(1) d by (simp add: unat_of_nat)
      with x show "\<exists>c \<in> set (rg_row rg i). unat c < 64 * length dirty \<and> plane_bit dirty (unat c)"
        by (intro bexI[of _ "of_nat x"]) simp_all
    next
      assume "\<exists>c \<in> set (rg_row rg i). unat c < 64 * length dirty \<and> plane_bit dirty (unat c)"
      then obtain c where "c \<in> set (rg_row rg i)" "unat c < 64 * length dirty" "plane_bit dirty (unat c)" by blast
      then show "\<exists>d < 64 * length dirty. plane_bit dirty d \<and> of_nat d \<in> set (rg_row rg i)"
        by (intro exI[of _ "unat c"]) simp
    qed
    finally show ?thesis .
  qed
  then show ?thesis using p(1,2) by blast
qed

definition run_inv :: "compiled_region \<Rightarrow> value_store \<Rightarrow> nat \<Rightarrow> region_run \<Rightarrow> bool" where
  "run_inv rg st0 k s \<longleftrightarrow> store_wf (rr_store s) \<and> st_idx (rr_store s) = st_idx st0
     \<and> length (st_cache (rr_store s)) = length (st_cache st0)
     \<and> length (rr_pending s) = (length (rg_members rg) + 63) div 64
     \<and> (\<forall>d. d \<notin> unat ` set (rg_outputs rg) \<longrightarrow> st_cache (rr_store s) ! d = st_cache st0 ! d)
     \<and> (\<forall>j. k \<le> j \<and> j < length (rg_members rg) \<longrightarrow>
          get_by_dense (rr_store s) (rg_outputs rg ! j) = get_by_dense st0 (rg_outputs rg ! j)
          \<and> (plane_bit (rr_pending s) j \<or> row_consistent rg (rr_store s) j))
     \<and> (\<forall>j < k. j < length (rg_members rg) \<longrightarrow> row_consistent rg (rr_store s) j)
     \<and> rr_changed s = map (\<lambda>j. (rg_members rg ! j, get_by_dense st0 (rg_outputs rg ! j),
          get_by_dense (rr_store s) (rg_outputs rg ! j)))
          (filter (\<lambda>j. get_by_dense st0 (rg_outputs rg ! j) \<noteq> get_by_dense (rr_store s) (rg_outputs rg ! j)) [0 ..< k])"

lemma run_row_inv:
  assumes lay: "region_layout rg (length (st_cache st0))" and k: "k < length (rg_members rg)"
    and inv: "run_inv rg st0 k s"
  shows "\<exists>s'. run_row rg k s = Some s' \<and> run_inv rg st0 (Suc k) s'"
proof -
  let ?n = "length (rg_members rg)" and ?st = "rr_store s" and ?out = "rg_outputs rg ! k"
  have wf: "store_wf ?st" and len: "length (st_cache ?st) = length (st_cache st0)"
    using inv by (simp_all add: run_inv_def)
  have outs: "length (rg_outputs rg) = ?n" "distinct (rg_outputs rg)"
    and topo: "\<And>i j. i < ?n \<Longrightarrow> j < ?n \<Longrightarrow> rg_outputs rg ! j \<in> set (rg_row rg i) \<Longrightarrow> j < i"
    and ix: "index_correct rg"
    using lay by (simp_all add: region_layout_def Let_def)
  have slot: "unat (rg_outputs rg ! j) < length (st_cache ?st)" if "j < ?n" for j
    using lay len that by (simp add: region_layout_def Let_def)
  have eval: "eval_row rg ?st k = Some (rule_eval (rg_rules rg ! k) (gather rg ?st k))"
    using eval_row_scalar[OF _ wf k] lay len by simp
  have plen: "length (rr_pending s) = (?n + 63) div 64" using inv by (simp add: run_inv_def)
  have word: "k div 64 < length (rr_pending s)" using k plen by linarith
  have out: "slice_get (rg_outputs rg) k = Some ?out" "dense_read ?st ?out = Some (get_by_dense ?st ?out)"
    using k outs(1) slot[OF k] by (simp_all add: slice_get_def dense_read_def get_by_dense_def)
  have same: "rr_changed s = map (\<lambda>j. (rg_members rg ! j, get_by_dense st0 (rg_outputs rg ! j),
          get_by_dense ?st (rg_outputs rg ! j)))
          (filter (\<lambda>j. get_by_dense st0 (rg_outputs rg ! j) \<noteq> get_by_dense ?st (rg_outputs rg ! j)) [0 ..< Suc k])"
    using inv k by (simp add: run_inv_def)
  have skip: "run_inv rg st0 (Suc k) s" if "row_consistent rg ?st k"
    using inv that same unfolding run_inv_def by (auto simp: less_Suc_eq)
  show ?thesis
  proof (cases "plane_bit (rr_pending s) k \<and> (\<exists>v. eval_row rg ?st k = Some (Some v) \<and> get_by_dense ?st ?out \<noteq> v)")
    case False
    have "row_consistent rg ?st k"
      using inv k False eval by (auto simp: run_inv_def row_consistent_def)
    moreover have "run_row rg k s = Some s"
      using False word eval out by (auto simp: run_row_def split: option.split)
    ultimately show ?thesis using skip by simp
  next
    case True
    then obtain v where v: "plane_bit (rr_pending s) k" "eval_row rg ?st k = Some (Some v)" "get_by_dense ?st ?out \<noteq> v"
      by blast
    obtain st' where st': "set_by_dense ?st ?out v = Some st'" "store_wf st'"
      "st_cache st' = (st_cache ?st)[unat ?out := v]" "st_idx st' = st_idx ?st"
      using set_by_dense_wf[OF wf slot[OF k], of v] by blast
    obtain rs where rs: "rows_reading rg ?out = Some rs" "set rs = {r. r < ?n \<and> ?out \<in> set (rg_row rg r)}"
      by (rule readingD[OF ix])
    have n64: "r < 64 * length (rr_pending s)" if "r < ?n" for r using that plen by linarith
    have "\<forall>r \<in> set rs. r < 64 * length (rr_pending s)" using rs(2) n64 by auto
    from mark_rows_bits[OF this, of "\<lambda>r. r > k"] obtain p' where
      p': "mark_rows (\<lambda>r. r > k) rs (rr_pending s) = Some p'" "length p' = length (rr_pending s)"
        "\<forall>j < 64 * length (rr_pending s). plane_bit p' j = (plane_bit (rr_pending s) j \<or> (j \<in> set rs \<and> j > k))"
      by blast
    define s' where "s' = \<lparr>rr_store = st', rr_dirty = (if unat ?out div 64 < length (rr_dirty s)
        then bits_set (rr_dirty s) (unat ?out) else rr_dirty s), rr_pending = p',
        rr_changed = rr_changed s @ [(rg_members rg ! k, get_by_dense ?st ?out, v)]\<rparr>"
    have run: "run_row rg k s = Some s'"
      using v st'(1) word out k rs(1) p'(1) by (simp add: run_row_def commit_row_def s'_def slice_get_def)
    have get: "get_by_dense st' d = (if d = ?out then v else get_by_dense ?st d)" for d
      using slot[OF k] st'(3) by (auto simp: get_by_dense_def nth_list_update word_unat_eq_iff[symmetric])
    have out_ne: "rg_outputs rg ! j \<noteq> ?out" if "j < ?n" "j \<noteq> k" for j
      using outs that k by (simp add: nth_eq_iff_index_eq)
    have gath: "gather rg st' j = gather rg ?st j" if "?out \<notin> set (rg_row rg j)" for j
      using that by (auto simp: gather_def get)
    have "?out \<notin> set (rg_row rg k)" using topo[OF k k] by auto
    then have cons_k: "row_consistent rg st' k"
      using gath[of k] v(2) eval by (simp add: row_consistent_def get)
    have cons: "row_consistent rg st' j" if "row_consistent rg ?st j" "?out \<notin> set (rg_row rg j)" "j < ?n" "j \<noteq> k" for j
      using that gath[of j] out_ne[of j] by (simp add: row_consistent_def get)
    have pend: "plane_bit p' j = (plane_bit (rr_pending s) j \<or> (j < ?n \<and> ?out \<in> set (rg_row rg j) \<and> k < j))" if "j < ?n" for j
      using p'(3) n64[OF that] rs(2) by auto
    have "run_inv rg st0 (Suc k) s'"
      unfolding run_inv_def
    proof (intro conjI allI impI)
      show "store_wf (rr_store s')" "st_idx (rr_store s') = st_idx st0"
        "length (st_cache (rr_store s')) = length (st_cache st0)"
        "length (rr_pending s') = (?n + 63) div 64"
        using st' inv p'(2) by (simp_all add: s'_def run_inv_def)
    next
      fix d assume "d \<notin> unat ` set (rg_outputs rg)"
      moreover have "?out \<in> set (rg_outputs rg)" using k outs(1) by simp
      ultimately have "d \<noteq> unat ?out" by blast
      then show "st_cache (rr_store s') ! d = st_cache st0 ! d"
        using inv st'(3) \<open>d \<notin> _\<close> by (simp add: s'_def run_inv_def)
    next
      fix j assume j: "Suc k \<le> j \<and> j < ?n"
      then show "get_by_dense (rr_store s') (rg_outputs rg ! j) = get_by_dense st0 (rg_outputs rg ! j)"
        using inv out_ne[of j] by (simp add: s'_def get run_inv_def)
      show "plane_bit (rr_pending s') j \<or> row_consistent rg (rr_store s') j"
      proof -
        have "k \<le> j \<and> j < ?n" using j by simp
        then have "plane_bit (rr_pending s) j \<or> row_consistent rg ?st j"
          using inv unfolding run_inv_def by blast
        then show ?thesis using j pend[of j] cons[of j] by (auto simp: s'_def)
      qed
    next
      fix j assume j: "j < Suc k" "j < ?n"
      show "row_consistent rg (rr_store s') j"
      proof (cases "j = k")
        case False
        then have "j < k" using j by simp
        moreover have "?out \<notin> set (rg_row rg j)" using topo[of j k] j k \<open>j < k\<close> by auto
        ultimately show ?thesis using inv j cons[of j] False by (simp add: s'_def run_inv_def)
      qed (use cons_k in \<open>simp add: s'_def\<close>)
    next
      have g0: "get_by_dense ?st ?out = get_by_dense st0 ?out" using inv k by (simp add: run_inv_def)
      have eq: "get_by_dense st' (rg_outputs rg ! j) = get_by_dense ?st (rg_outputs rg ! j)" if "j < k" for j
        using get out_ne[of j] that k by simp
      have getk: "get_by_dense st' ?out = v" by (simp add: get)
      have ch: "rr_changed s = map (\<lambda>j. (rg_members rg ! j, get_by_dense st0 (rg_outputs rg ! j),
          get_by_dense ?st (rg_outputs rg ! j)))
          (filter (\<lambda>j. get_by_dense st0 (rg_outputs rg ! j) \<noteq> get_by_dense ?st (rg_outputs rg ! j)) [0 ..< k])"
        using inv by (simp only: run_inv_def)
      have f: "filter (\<lambda>j. get_by_dense st0 (rg_outputs rg ! j) \<noteq> get_by_dense st' (rg_outputs rg ! j)) [0 ..< k]
          = filter (\<lambda>j. get_by_dense st0 (rg_outputs rg ! j) \<noteq> get_by_dense ?st (rg_outputs rg ! j)) [0 ..< k]"
        by (rule filter_cong[OF refl]) (use eq in simp)
      have m: "map (\<lambda>j. (rg_members rg ! j, get_by_dense st0 (rg_outputs rg ! j), get_by_dense st' (rg_outputs rg ! j))) (filter P [0 ..< k])
          = map (\<lambda>j. (rg_members rg ! j, get_by_dense st0 (rg_outputs rg ! j), get_by_dense ?st (rg_outputs rg ! j))) (filter P [0 ..< k])" for P
        by (rule map_cong[OF refl]) (use eq in auto)
      show "rr_changed s' = map (\<lambda>j. (rg_members rg ! j, get_by_dense st0 (rg_outputs rg ! j),
          get_by_dense (rr_store s') (rg_outputs rg ! j)))
          (filter (\<lambda>j. get_by_dense st0 (rg_outputs rg ! j) \<noteq> get_by_dense (rr_store s') (rg_outputs rg ! j)) [0 ..< Suc k])"
        using v(3) g0 getk by (simp add: s'_def ch f m)
    qed
    with run show ?thesis by blast
  qed
qed

lemma run_rows_inv:
  assumes lay: "region_layout rg (length (st_cache st0))"
  shows "run_inv rg st0 k s \<Longrightarrow> k \<le> length (rg_members rg)
    \<Longrightarrow> \<exists>s'. run_rows rg [k ..< length (rg_members rg)] s = Some s' \<and> run_inv rg st0 (length (rg_members rg)) s'"
proof (induction "length (rg_members rg) - k" arbitrary: k s)
  case (Suc m)
  then have k: "k < length (rg_members rg)" by simp
  obtain s' where s': "run_row rg k s = Some s'" "run_inv rg st0 (Suc k) s'"
    using run_row_inv[OF lay k Suc.prems(1)] by blast
  have "[k ..< length (rg_members rg)] = k # [Suc k ..< length (rg_members rg)]"
    using k by (simp add: upt_conv_Cons)
  then show ?case using Suc.hyps(1)[of "Suc k" s'] Suc.hyps(2) k s' by simp
qed simp

lemma region_run_fixpoint:
  assumes lay: "region_layout rg (length (st_cache st))" and wf: "store_wf st"
    and d: "64 * length dirty \<le> 2 ^ 32"
    and clean: "\<forall>i < length (rg_members rg). (\<forall>c \<in> set (rg_row rg i).
          \<not> (unat c < 64 * length dirty \<and> plane_bit dirty (unat c))) \<longrightarrow> row_consistent rg st i"
  shows "\<exists>st' dirty' ch. run_compiled_region rg st dirty = Some (st', dirty', ch)
    \<and> store_wf st' \<and> st_idx st' = st_idx st \<and> length (st_cache st') = length (st_cache st)
    \<and> (\<forall>i < length (rg_members rg). row_consistent rg st' i)
    \<and> (\<forall>d. d \<notin> unat ` set (rg_outputs rg) \<longrightarrow> st_cache st' ! d = st_cache st ! d)
    \<and> ch = map (\<lambda>j. (rg_members rg ! j, get_by_dense st (rg_outputs rg ! j), get_by_dense st' (rg_outputs rg ! j)))
        (filter (\<lambda>j. get_by_dense st (rg_outputs rg ! j) \<noteq> get_by_dense st' (rg_outputs rg ! j))
          [0 ..< length (rg_members rg)])"
proof (cases "rg_members rg = []")
  case True
  then show ?thesis using wf by (simp add: run_compiled_region_def)
next
  case False
  have ix: "index_correct rg" using lay by (simp add: region_layout_def Let_def)
  obtain p where p: "initial_pending rg dirty = Some p" "length p = (length (rg_members rg) + 63) div 64"
    "\<forall>i < length (rg_members rg). plane_bit p i
        = (\<exists>c \<in> set (rg_row rg i). unat c < 64 * length dirty \<and> plane_bit dirty (unat c))"
    using initial_pending_rows[OF ix d] by blast
  let ?s = "\<lparr>rr_store = st, rr_dirty = dirty, rr_pending = p, rr_changed = []\<rparr>"
  have "run_inv rg st 0 ?s"
  proof -
    have "plane_bit p j \<or> row_consistent rg st j" if "j < length (rg_members rg)" for j
      using p(3) clean that by blast
    then show ?thesis using wf p(2) by (simp add: run_inv_def)
  qed
  from run_rows_inv[OF lay this] obtain s' where "run_rows rg [0 ..< length (rg_members rg)] ?s = Some s'"
    "run_inv rg st (length (rg_members rg)) s'" by auto
  with False p(1) show ?thesis by (simp add: run_compiled_region_def run_inv_def)
qed

text \<open>
  C11. The incremental run of a compiled region equals a full re-evaluation.  On a well-laid-out
  circuit whose rows are up to date except where a dirty column feeds them, the run panics on no
  index, slice or slot; it leaves every row at the value its rule gives on the final cache, where
  evaluating every row again panics nowhere and would change nothing; it writes no slot but the outputs, and reports exactly the outputs that
  changed, with their old and new values, in topological order.
\<close>

theorem compiled_run_correct:
  assumes "region_layout rg (length (st_cache st))" "store_wf st" "64 * length dirty \<le> 2 ^ 32"
    "\<forall>i < length (rg_members rg). (\<forall>c \<in> set (rg_row rg i).
        \<not> (unat c < 64 * length dirty \<and> plane_bit dirty (unat c))) \<longrightarrow> row_consistent rg st i"
  shows "\<exists>st' dirty' ch. run_compiled_region rg st dirty = Some (st', dirty', ch) \<and> store_wf st'
    \<and> length (st_cache st') = length (st_cache st)
    \<and> (\<forall>i < length (rg_members rg). \<exists>r. eval_row rg st' i = Some r
          \<and> (\<forall>v. r = Some v \<longrightarrow> get_by_dense st' (rg_outputs rg ! i) = v))
    \<and> (\<forall>d. d \<notin> unat ` set (rg_outputs rg) \<longrightarrow> st_cache st' ! d = st_cache st ! d)
    \<and> ch = map (\<lambda>j. (rg_members rg ! j, get_by_dense st (rg_outputs rg ! j), get_by_dense st' (rg_outputs rg ! j)))
        (filter (\<lambda>j. get_by_dense st (rg_outputs rg ! j) \<noteq> get_by_dense st' (rg_outputs rg ! j))
          [0 ..< length (rg_members rg)])"
proof -
  obtain st' dirty' ch where r: "run_compiled_region rg st dirty = Some (st', dirty', ch)" "store_wf st'"
    "length (st_cache st') = length (st_cache st)" "\<forall>i < length (rg_members rg). row_consistent rg st' i"
    "\<forall>d. d \<notin> unat ` set (rg_outputs rg) \<longrightarrow> st_cache st' ! d = st_cache st ! d"
    "ch = map (\<lambda>j. (rg_members rg ! j, get_by_dense st (rg_outputs rg ! j), get_by_dense st' (rg_outputs rg ! j)))
        (filter (\<lambda>j. get_by_dense st (rg_outputs rg ! j) \<noteq> get_by_dense st' (rg_outputs rg ! j))
          [0 ..< length (rg_members rg)])"
    using region_run_fixpoint[OF assms] by blast
  have "eval_row rg st' i = Some (rule_eval (rg_rules rg ! i) (gather rg st' i))" if "i < length (rg_members rg)" for i
    using eval_row_scalar[OF _ r(2) that] assms(1) r(3) by simp
  then show ?thesis using r by (auto simp: row_consistent_def)
qed

text \<open>One negation row over slot 0, writing slot 1.\<close>

definition neg_region :: compiled_region where
  "neg_region = \<lparr>rg_members = [8], rg_rules = [MvNeg], rg_outputs = [1], rg_inputs = [0],
     rg_offsets = [0, 1], rg_cols = [0], rg_compiled_at = 0, rg_inv_keys = [0], rg_inv_offsets = [0, 1],
     rg_inv_rows = [0], rg_contig = [None]\<rparr>"

definition two_slots :: value_store where
  "two_slots = fst (alloc (fst (alloc store_new 7)) 8)"

lemma two_slots_facts: "store_wf two_slots" "st_cache two_slots = [Neg, Neg]"
proof -
  show "store_wf two_slots"
    unfolding two_slots_def
    by (intro alloc_wf store_wf_new) (simp_all add: alloc_def store_new_def Let_def split: prod.split)
  show "st_cache two_slots = [Neg, Neg]"
    by (simp add: two_slots_def alloc_def store_new_def Let_def split: prod.split)
qed

lemma neg_region_row [simp]: "rg_row neg_region 0 = [0]"
  by (simp add: neg_region_def row_cols_def slice_def)

lemma neg_region_layout: "region_layout neg_region 2"
proof -
  have "\<exists>rs. rows_reading neg_region col = Some rs \<and> set rs = {r. r < 1 \<and> col \<in> set (rg_row neg_region r)}" for col
    by (auto simp: rows_reading_def neg_region_def row_slice_eq span_ok_def row_cols_def slice_def)
  then have "index_correct neg_region"
    by (simp add: index_correct_def neg_region_def)
  then show ?thesis
    by (simp add: region_layout_def Let_def) (simp add: neg_region_def span_ok_def row_cols_def slice_def)
qed

theorem compiled_run_correct_witness:
  "region_layout neg_region (length (st_cache two_slots)) \<and> store_wf two_slots
   \<and> (\<exists>st' dirty' ch. run_compiled_region neg_region two_slots [1] = Some (st', dirty', ch)
        \<and> get_by_dense st' 1 = Pos \<and> ch = [(8, Neg, Pos)])"
proof -
  have n: "length (rg_members neg_region) = 1" "rg_outputs neg_region = [1]" "rg_members neg_region = [8]"
    by (simp_all add: neg_region_def)
  have clean: "\<forall>i < length (rg_members neg_region). (\<forall>c \<in> set (rg_row neg_region i).
        \<not> (unat c < 64 * length [1 :: u64] \<and> plane_bit [1] (unat c))) \<longrightarrow> row_consistent neg_region two_slots i"
    by (simp add: n plane_bit_def)
  have lay: "region_layout neg_region (length (st_cache two_slots))"
    using neg_region_layout by (simp add: two_slots_facts numeral_2_eq_2)
  obtain st' dirty' ch where r: "run_compiled_region neg_region two_slots [1] = Some (st', dirty', ch)"
    "length (st_cache st') = length (st_cache two_slots)"
    "\<forall>i < length (rg_members neg_region). \<exists>r. eval_row neg_region st' i = Some r
        \<and> (\<forall>v. r = Some v \<longrightarrow> get_by_dense st' (rg_outputs neg_region ! i) = v)"
    "\<forall>d. d \<notin> unat ` set (rg_outputs neg_region) \<longrightarrow> st_cache st' ! d = st_cache two_slots ! d"
    "ch = map (\<lambda>j. (rg_members neg_region ! j, get_by_dense two_slots (rg_outputs neg_region ! j), get_by_dense st' (rg_outputs neg_region ! j)))
        (filter (\<lambda>j. get_by_dense two_slots (rg_outputs neg_region ! j) \<noteq> get_by_dense st' (rg_outputs neg_region ! j))
          [0 ..< length (rg_members neg_region)])"
    using compiled_run_correct[OF lay two_slots_facts(1) _ clean] by auto
  have "st_cache st' ! 0 = Neg" using r(4) by (simp add: n two_slots_facts)
  moreover have "st_cache st' \<noteq> []" using r(2) by (auto simp: two_slots_facts)
  ultimately have "eval_row neg_region st' 0 = Some (Some Pos)"
    by (simp add: eval_row_def scalar_row_def gather_row_def row_span_eq row_slice_eq neg_region_def
        slice_get_def span_ok_def row_cols_def slice_def dense_read_def)
  then have v: "get_by_dense st' 1 = Pos" using r(3) by (simp add: n)
  then have "ch = [(8, Neg, Pos)]"
    using r(5) by (simp add: n) (simp add: get_by_dense_def two_slots_facts)
  with r(1) v lay two_slots_facts(1) show ?thesis by blast
qed

text \<open>
  The compiled tier does not compute what the push path computes.  On ready dependencies a
  row's value and the pushed value agree, but on a pending or conflicted dependency they need not:
  \<open>JoinAny\<close> over \<open>Pos, Neg\<close> is \<open>Pos\<close> compiled and left pending by a push, \<open>JoinAny\<close> over
  \<open>Pos, Zero\<close> is \<open>Pos\<close> compiled and infected by a push, \<open>MvNeg\<close> of \<open>Neg\<close> is \<open>Pos\<close> compiled and
  left pending by a push; yet handled nodes are skipped by the drain as already evaluated.
\<close>

theorem compiled_differs_from_push:
  "(propagation_state vals = Ready \<and> rule_eval r vals = Some v \<longrightarrow> push_target r vals old = v)
   \<and> rule_eval JoinAny [Pos, Neg] = Some Pos \<and> push_target JoinAny [Pos, Neg] Neg = Neg
   \<and> rule_eval JoinAny [Pos, Zero] = Some Pos \<and> push_target JoinAny [Pos, Zero] Neg = Zero
   \<and> rule_eval MvNeg [Neg] = Some Pos \<and> push_target MvNeg [Neg] Neg = Neg"
  by (simp add: push_target_def join_def slice_get_def)

theorem compiled_differs_from_push_witness:
  "propagation_state [Pos, Pos] = Ready \<and> rule_eval MvMul [Pos, Pos] = Some Pos
   \<and> push_target MvMul [Pos, Pos] Neg = Pos"
  using compiled_differs_from_push[of "[Pos, Pos]" MvMul Pos Neg] by (simp add: slice_get_def)

section \<open>The artifact cache tracks its artifacts\<close>

definition input_roots :: "region_cache \<Rightarrow> u32 \<Rightarrow> uid list" where
  "input_roots c d = or_default [] (rc_inputs c d)"

definition cache_wf :: "region_cache \<Rightarrow> bool" where
  "cache_wf c \<longleftrightarrow> awf (rc_regions c) \<and> (\<forall>r \<in> rc_dirty c. aget (rc_regions c) r \<noteq> None)
     \<and> (\<forall>d r. r \<in> set (input_roots c d) \<longleftrightarrow> (\<exists>rg. aget (rc_regions c) r = Some rg \<and> d \<in> set (rg_inputs rg)))"

lemma inputs_insert:
  "r \<in> set (or_default [] (fold (\<lambda>d m. m(d \<mapsto> or_default [] (m d) @ [root])) ds m x))
     = (r \<in> set (or_default [] (m x)) \<or> r = root \<and> x \<in> set ds)"
  by (induction ds arbitrary: m) auto

lemma or_default_filter: "set (or_default [] (map_option (filter P) x)) = {r \<in> set (or_default [] x). P r}"
  by (cases x) auto

lemma inputs_remove:
  "r \<in> set (or_default [] (fold (\<lambda>d m. m(d := map_option (filter (\<lambda>r. r \<noteq> root)) (m d))) ds m x))
     = (r \<in> set (or_default [] (m x)) \<and> \<not> (r = root \<and> x \<in> set ds))"
  by (induction ds arbitrary: m) (auto simp: or_default_filter)

lemma cache_wf_insert:
  assumes "cache_wf c" "aget (rc_regions c) root = None"
  shows "cache_wf (cache_insert c root rg k)"
proof -
  have roots: "set (input_roots (cache_insert c root rg k) d)
      = set (input_roots c d) \<union> (if d \<in> set (rg_inputs rg) then {root} else {})" for d
    by (auto simp: input_roots_def cache_insert_def inputs_insert)
  have regions: "rc_regions (cache_insert c root rg k) = aput root rg (rc_regions c)"
    "rc_dirty (cache_insert c root rg k) = rc_dirty c"
    by (simp_all add: cache_insert_def)
  show ?thesis
    using assms unfolding cache_wf_def roots regions by (auto split: if_splits)
qed

lemma evict_sel:
  "rc_regions (evict c root) = adel root (rc_regions c)" "rc_dirty (evict c root) = rc_dirty c - {root}"
  "rc_contracts (evict c root) = rc_contracts c"
  "r \<in> set (input_roots (evict c root) d) = (r \<in> set (input_roots c d)
     \<and> \<not> (r = root \<and> (\<exists>rg. aget (rc_regions c) root = Some rg \<and> d \<in> set (rg_inputs rg))))"
  by (auto simp: evict_def remove_reverse_map_for_def input_roots_def Let_def inputs_remove split: option.split)

lemma cache_wf_evict: "cache_wf c \<Longrightarrow> cache_wf (evict c root)"
  unfolding cache_wf_def evict_sel by (auto simp: evict_sel(4) dest!: spec)

lemma fold_evict:
  "cache_wf c \<Longrightarrow> cache_wf (fold (\<lambda>root c. evict c root) rs c)"
  "rc_contracts (fold (\<lambda>root c. evict c root) rs c) = rc_contracts c"
  "aget (rc_regions (fold (\<lambda>root c. evict c root) rs c)) r = (if r \<in> set rs then None else aget (rc_regions c) r)"
  "rc_dirty (fold (\<lambda>root c. evict c root) rs c) = rc_dirty c - set rs"
  by (induction rs arbitrary: c) (auto simp: cache_wf_evict evict_sel)

lemma invalidate_regions:
  assumes "cache_wf c"
  shows "cache_wf (invalidate_for_node c n)"
    and "aget (rc_regions (invalidate_for_node c n)) r = (case aget (rc_regions c) r of
        None \<Rightarrow> None
      | Some rg \<Rightarrow> if rc_contracts c r = Some EpochTracked \<and> n \<in> set (rg_members rg) then None else Some rg)"
    and "rc_contracts (invalidate_for_node c n) = rc_contracts c"
    and "r \<in> rc_dirty (invalidate_for_node c n)
      \<longleftrightarrow> r \<in> rc_dirty c \<and> aget (rc_regions (invalidate_for_node c n)) r \<noteq> None"
proof -
  let ?rs = "map fst (filter (\<lambda>(root, r). rc_contracts c root = Some EpochTracked \<and> n \<in> set (rg_members r)) (rc_regions c))"
  have inv: "invalidate_for_node c n = fold (\<lambda>root c. evict c root) ?rs c"
    by (simp add: invalidate_for_node_def)
  show "cache_wf (invalidate_for_node c n)" unfolding inv by (rule fold_evict(1)[OF assms])
  show "rc_contracts (invalidate_for_node c n) = rc_contracts c" unfolding inv by (rule fold_evict(2))
  have "r \<in> set ?rs \<longleftrightarrow> (\<exists>rg. aget (rc_regions c) r = Some rg \<and> rc_contracts c r = Some EpochTracked \<and> n \<in> set (rg_members rg))"
  proof -
    have mem: "(r, rg) \<in> set (rc_regions c) \<longleftrightarrow> aget (rc_regions c) r = Some rg" for rg
      using assms by (intro aget_in_set) (simp add: cache_wf_def)
    have "r \<in> set ?rs \<longleftrightarrow> (\<exists>rg. (r, rg) \<in> set (rc_regions c) \<and> rc_contracts c r = Some EpochTracked \<and> n \<in> set (rg_members rg))"
      by (auto simp: image_iff)
    then show ?thesis by (simp only: mem)
  qed
  then show "aget (rc_regions (invalidate_for_node c n)) r = (case aget (rc_regions c) r of
        None \<Rightarrow> None
      | Some rg \<Rightarrow> if rc_contracts c r = Some EpochTracked \<and> n \<in> set (rg_members rg) then None else Some rg)"
    unfolding inv fold_evict(3) by (auto split: option.split)
  show "r \<in> rc_dirty (invalidate_for_node c n)
      \<longleftrightarrow> r \<in> rc_dirty c \<and> aget (rc_regions (invalidate_for_node c n)) r \<noteq> None"
    using assms unfolding inv fold_evict(3,4) by (auto simp: cache_wf_def)
qed

lemma mark_dirty_exact:
  assumes "cache_wf c"
  shows "rc_dirty (mark_dirty_for_input c d)
      = rc_dirty c \<union> {r. \<exists>rg. aget (rc_regions c) r = Some rg \<and> d \<in> set (rg_inputs rg)}"
    and "cache_wf (mark_dirty_for_input c d)"
proof -
  have "rc_dirty (mark_dirty_for_input c d) = rc_dirty c \<union> set (input_roots c d)"
    by (simp add: mark_dirty_for_input_def input_roots_def split: option.split)
  then show dirty: "rc_dirty (mark_dirty_for_input c d)
      = rc_dirty c \<union> {r. \<exists>rg. aget (rc_regions c) r = Some rg \<and> d \<in> set (rg_inputs rg)}"
    using assms by (auto simp: cache_wf_def)
  have "rc_regions (mark_dirty_for_input c d) = rc_regions c" "rc_inputs (mark_dirty_for_input c d) = rc_inputs c"
    by (simp_all add: mark_dirty_for_input_def split: option.split)
  then show "cache_wf (mark_dirty_for_input c d)"
    using assms unfolding cache_wf_def dirty by (auto simp: input_roots_def)
qed


definition demo_region :: "u32 list \<Rightarrow> compiled_region" where
  "demo_region inputs = \<lparr>rg_members = [7], rg_rules = [Identity_rule], rg_outputs = [0], rg_inputs = inputs,
     rg_offsets = [0, 0], rg_cols = [], rg_compiled_at = 0, rg_inv_keys = [], rg_inv_offsets = [0],
     rg_inv_rows = [], rg_contig = [None]\<rparr>"

text \<open>
  C18. The artifact cache follows its artifacts.  In a consistent cache (the reverse map lists a root
  under a slot exactly when the root's artifact reads the slot, and every dirty root has an
  artifact): touching a node removes exactly the epoch-tracked artifacts that contain it and takes
  exactly these off the dirty set; a write to a slot marks dirty exactly the roots whose artifact
  reads it; draining the dirty set returns each of its roots, all of which have an artifact, and
  empties it; and the cache stays consistent under the three and under the declaration of a root
  without an artifact, whose artifact is then the declared one and valid at the epoch it was compiled
  at, or at any when it is pinned.  Declaring a root that has an artifact breaks this: the reverse
  map keeps the old inputs, and after an invalidation a write to one of them marks a root dirty that
  has no artifact.
\<close>

theorem invalidation_exact:
  assumes "cache_wf c"
  shows "aget (rc_regions (invalidate_for_node c n)) r = (case aget (rc_regions c) r of
        None \<Rightarrow> None
      | Some rg \<Rightarrow> if rc_contracts c r = Some EpochTracked \<and> n \<in> set (rg_members rg) then None else Some rg)
    \<and> (r \<in> rc_dirty (invalidate_for_node c n)
         \<longleftrightarrow> r \<in> rc_dirty c \<and> aget (rc_regions (invalidate_for_node c n)) r \<noteq> None)
    \<and> rc_dirty (mark_dirty_for_input c d)
        = rc_dirty c \<union> {x. \<exists>rg. aget (rc_regions c) x = Some rg \<and> d \<in> set (rg_inputs rg)}
    \<and> rc_dirty (fst (take_dirty c)) = {} \<and> set (snd (take_dirty c)) = rc_dirty c
    \<and> (\<forall>x \<in> set (snd (take_dirty c)). aget (rc_regions c) x \<noteq> None)
    \<and> cache_wf (invalidate_for_node c n) \<and> cache_wf (mark_dirty_for_input c d) \<and> cache_wf (fst (take_dirty c))
    \<and> (aget (rc_regions c) root = None \<longrightarrow> cache_wf (cache_insert c root rg k)
         \<and> aget (rc_regions (cache_insert c root rg k)) root = Some rg
         \<and> (cache_is_valid (cache_insert c root rg k) root t \<longleftrightarrow> k = Pinned \<or> t = rg_compiled_at rg))
    \<and> (let stale = mark_dirty_for_input (invalidate_for_node
          (cache_insert (cache_insert cache_new 5 (demo_region [3]) EpochTracked) 5 (demo_region []) EpochTracked) 7) 3
       in 5 \<in> rc_dirty stale \<and> aget (rc_regions stale) 5 = None)"
proof -
  have "let stale = mark_dirty_for_input (invalidate_for_node
          (cache_insert (cache_insert cache_new 5 (demo_region [3]) EpochTracked) 5 (demo_region []) EpochTracked) 7) 3
       in 5 \<in> rc_dirty stale \<and> aget (rc_regions stale) 5 = None"
    by (simp add: Let_def mark_dirty_for_input_def invalidate_for_node_def cache_insert_def cache_new_def
        evict_def remove_reverse_map_for_def demo_region_def aput_def aget_def adel_def)
  moreover have "aget (rc_regions (cache_insert c root rg k)) root = Some rg"
    "cache_is_valid (cache_insert c root rg k) root t \<longleftrightarrow> k = Pinned \<or> t = rg_compiled_at rg"
    by (cases k; auto simp: cache_insert_def cache_is_valid_def)+
  moreover have "cache_wf (fst (take_dirty c))" "rc_dirty (fst (take_dirty c)) = {}" "set (snd (take_dirty c)) = rc_dirty c"
    "\<forall>x \<in> rc_dirty c. aget (rc_regions c) x \<noteq> None"
    using assms by (auto simp: take_dirty_def cache_wf_def input_roots_def)
  ultimately show ?thesis
    using invalidate_regions[OF assms] cache_wf_insert[OF assms] mark_dirty_exact[OF assms] by simp
qed

definition pair_cache :: region_cache where
  "pair_cache = mark_dirty_for_input (cache_insert (cache_insert cache_new 5 (demo_region [3]) EpochTracked)
     6 (demo_region [3, 4]) Pinned) 3"

theorem invalidation_exact_witness:
  "rc_dirty pair_cache = {5, 6}
   \<and> aget (rc_regions (invalidate_for_node pair_cache 7)) 5 = None
   \<and> aget (rc_regions (invalidate_for_node pair_cache 7)) 6 = Some (demo_region [3, 4])
   \<and> rc_dirty (invalidate_for_node pair_cache 7) = {6} \<and> set (snd (take_dirty pair_cache)) = {5, 6}"
proof -
  let ?c1 = "cache_insert cache_new 5 (demo_region [3]) EpochTracked"
  have 0: "cache_wf cache_new" by (simp add: cache_wf_def cache_new_def input_roots_def)
  have "cache_wf ?c1" using invalidation_exact[OF 0, of 0 0 0 5] by (simp add: cache_new_def)
  then have wf: "cache_wf (cache_insert ?c1 6 (demo_region [3, 4]) Pinned)"
    using invalidation_exact[of ?c1 0 0 0 6] by (simp add: cache_insert_def cache_new_def)
  have d: "rc_dirty pair_cache = {5, 6}"
    using invalidation_exact[OF wf, of 0 0 3]
    by (auto simp: pair_cache_def cache_insert_def cache_new_def demo_region_def aput_def aget_def)
  have p: "cache_wf pair_cache"
    using invalidation_exact[OF wf, of 0 0 3] by (simp add: pair_cache_def)
  have f: "rc_regions pair_cache = [(5, demo_region [3]), (6, demo_region [3, 4])]"
    "rc_contracts pair_cache = [5 \<mapsto> EpochTracked, 6 \<mapsto> Pinned]"
    by (simp_all add: pair_cache_def mark_dirty_for_input_def cache_insert_def cache_new_def aput_def split: option.split)
  have g: "aget (rc_regions (invalidate_for_node pair_cache 7)) 5 = None"
    "aget (rc_regions (invalidate_for_node pair_cache 7)) 6 = Some (demo_region [3, 4])"
    using invalidation_exact[OF p, of 7 5] invalidation_exact[OF p, of 7 6]
    by (simp_all add: f aget_def demo_region_def)
  have "x \<in> rc_dirty (invalidate_for_node pair_cache 7) \<longleftrightarrow> x = 6" for x
    using conjunct1[OF conjunct2[OF invalidation_exact[OF p, of 7 x]]] g unfolding d by auto
  then have "rc_dirty (invalidate_for_node pair_cache 7) = {6}" by blast
  moreover have "set (snd (take_dirty pair_cache)) = {5, 6}"
    using invalidation_exact[OF p, of 0 0 0] unfolding d by blast
  ultimately show ?thesis using d g by blast
qed

end
