(* ===== verification/Isa.thy ===== *)
theory Isa
  imports Region
begin

text \<open>
  The instruction set, \<^verbatim>\<open>core-rs/src/isa.rs\<close>: the operations through which the graph is changed,
  their convenience constructors, and the classification into primitives and layers.
\<close>

datatype isa_op =
    NodeCreate uid string node_kind attrs
  | EdgeConnect uid string uid uid dep_kind
  | Subscribe uid uid
  | SetValue uid T
  | Propagate uid
  | DelNode uid
  | DelEdge uid
  | Demand uid
  | SetMode uid exec_mode
  | Reflect uid
  | Stabilize "uid list option"
  | PartitionCreate partition_id u128 lattice_class causal_scope
  | PartitionBind uid partition_id
  | SetPartitionAuthority partition_id lattice_class causal_scope
  | SetEdgeLabel uid uid edge_label
  | SetStabilizationConfig uid stabilization_config
  | SetExecutionPolicy uid execution_policy
  | RegionDeclare uid region_boundary stability_contract compile_policy

section \<open>Constructors\<close>

definition input_node :: "uid \<Rightarrow> string \<Rightarrow> isa_op" where
  "input_node i ty = NodeCreate i ty Input attrs_new"

definition computed_node :: "uid \<Rightarrow> string \<Rightarrow> compute_rule \<Rightarrow> isa_op" where
  "computed_node i ty r = NodeCreate i ty (Computed r) attrs_new"

definition dep_edge :: "uid \<Rightarrow> uid \<Rightarrow> uid \<Rightarrow> isa_op" where
  "dep_edge i s t = EdgeConnect i ''dep'' s t (Local None)"

definition effort_edge :: "uid \<Rightarrow> uid \<Rightarrow> uid \<Rightarrow> string \<Rightarrow> isa_op" where
  "effort_edge i s t p = EdgeConnect i ''effort'' s t (Local (Some (port_effort p)))"

definition flow_edge :: "uid \<Rightarrow> uid \<Rightarrow> uid \<Rightarrow> string \<Rightarrow> isa_op" where
  "flow_edge i s t p = EdgeConnect i ''flow'' s t (Local (Some (port_flow p)))"

definition bond_edge :: "uid \<Rightarrow> uid \<Rightarrow> uid \<Rightarrow> string \<Rightarrow> isa_op" where
  "bond_edge i s t p = EdgeConnect i ''bond'' s t (Local (Some (port_bond p)))"

definition named_dep_edge :: "uid \<Rightarrow> uid \<Rightarrow> uid \<Rightarrow> string \<Rightarrow> isa_op" where
  "named_dep_edge i s t p = EdgeConnect i ''dep'' s t (Local (Some (port_signal p)))"

definition remote_dep_edge :: "uid \<Rightarrow> uid \<Rightarrow> uid \<Rightarrow> remote_dep \<Rightarrow> isa_op" where
  "remote_dep_edge i s t r = EdgeConnect i ''remote-dep'' s t (Remote r)"

section \<open>Classification\<close>

fun primitive_class :: "isa_op \<Rightarrow> string" where
  "primitive_class (NodeCreate _ _ _ _) = ''extension''"
| "primitive_class (EdgeConnect _ _ _ _ _) = ''extension''"
| "primitive_class (Subscribe _ _) = ''extension''"
| "primitive_class (SetValue _ _) = ''extension''"
| "primitive_class (Propagate _) = ''extension''"
| "primitive_class (DelNode _) = ''inhibition''"
| "primitive_class (DelEdge _) = ''inhibition''"
| "primitive_class (Demand _) = ''inhibition''"
| "primitive_class (SetMode _ _) = ''inhibition''"
| "primitive_class (Reflect _) = ''reflection''"
| "primitive_class (Stabilize _) = ''reflection''"
| "primitive_class _ = ''extension''"

datatype layer_touch = IdOnly | InterpOnly | BothLayers

fun touches_layers :: "isa_op \<Rightarrow> layer_touch" where
  "touches_layers (SetValue _ _) = InterpOnly"
| "touches_layers (Reflect _) = InterpOnly"
| "touches_layers (Stabilize _) = InterpOnly"
| "touches_layers (Propagate _) = InterpOnly"
| "touches_layers (Demand _) = InterpOnly"
| "touches_layers _ = IdOnly"

end
