(* ===== verification/Compile.thy ===== *)
theory Compile
  imports Region
begin

text \<open>
  Region compilation, the helpers of \<^verbatim>\<open>core-rs/src/engine.rs\<close>: the breadth-first dependency
  closure, Kahn's topological sort over the members of a region, and the sparse arrays laid out
  in topological order.  A hash set's iteration order, which the code leaves open, is taken
  ascending.
\<close>

section \<open>The dependency closure\<close>

definition visit_deps ::
  "nat \<Rightarrow> uid list \<Rightarrow> uid set \<times> (uid \<times> nat) list \<Rightarrow> uid set \<times> (uid \<times> nat) list" where
  "visit_deps depth ds s = fold (\<lambda>d (visited, queue).
     if d \<in> visited then (visited, queue) else (insert d visited, queue @ [(d, depth)])) ds s"

lemma visit_deps_card:
  "visit_deps depth ds (visited, queue) = (visited', queue')
    \<Longrightarrow> card (- visited') + length queue' = card (- visited) + length queue"
proof (induction ds arbitrary: visited queue)
  case (Cons d ds)
  show ?case
  proof (cases "d \<in> visited")
    case False
    have "- insert d visited = - visited - {d}" by auto
    moreover have "card (- visited) > 0" using False by (auto simp: card_gt_0_iff)
    ultimately have "card (- insert d visited) + 1 = card (- visited)"
      using False by (simp add: card_Diff_singleton)
    then show ?thesis
      using False Cons.IH[of "insert d visited" "queue @ [(d, depth)]"] Cons.prems
      by (simp add: visit_deps_def)
  qed (use Cons in \<open>simp add: visit_deps_def\<close>)
qed (simp add: visit_deps_def)

function bfs_loop :: "dep_registry \<Rightarrow> nat \<Rightarrow> uid set \<Rightarrow> (uid \<times> nat) list \<Rightarrow> uid list" where
  "bfs_loop deps max_depth visited [] = []"
| "bfs_loop deps max_depth visited ((i, depth) # queue) =
     i # (if depth < max_depth
          then (case visit_deps (depth + 1) (sorted_uids (deps_of deps i)) (visited, queue) of
                  (visited', queue') \<Rightarrow> bfs_loop deps max_depth visited' queue')
          else bfs_loop deps max_depth visited queue)"
  by pat_completeness auto

termination bfs_loop
  by (relation "measure (\<lambda>(deps, m, visited, queue). card (- visited) + length queue)")
    (auto split: prod.split dest: visit_deps_card)

definition bfs_dep_closure :: "uid \<Rightarrow> nat \<Rightarrow> dep_registry \<Rightarrow> uid list" where
  "bfs_dep_closure root max_depth deps = bfs_loop deps max_depth {root} [(root, 0)]"

section \<open>Kahn's sort\<close>

definition in_degree :: "dep_registry \<Rightarrow> uid set \<Rightarrow> uid \<Rightarrow> nat" where
  "in_degree deps members i = card (deps_of deps i \<inter> members)"

text \<open>The decrements for the subscribers of one popped node; \<open>None\<close> is the underflow panic.\<close>

fun relax :: "uid list \<Rightarrow> (uid \<Rightarrow> nat) \<times> uid list \<Rightarrow> ((uid \<Rightarrow> nat) \<times> uid list) option" where
  "relax [] s = Some s"
| "relax (sub # subs) (deg, queue) =
     (if deg sub = 0 then None
      else (let d = deg sub - 1
            in relax subs (deg(sub := d), if d = 0 then queue @ [sub] else queue)))"

lemma relax_measure:
  "relax subs (deg, queue) = Some (deg', queue') \<Longrightarrow> set subs \<subseteq> M \<Longrightarrow> finite M
    \<Longrightarrow> sum deg' M + length queue' \<le> sum deg M + length queue"
proof (induction subs arbitrary: deg queue)
  case (Cons s subs)
  then have s: "deg s \<noteq> 0" "s \<in> M" by (auto split: if_splits)
  have "sum (deg(s := deg s - 1)) M = deg s - 1 + sum deg (M - {s})"
    using Cons.prems(3) s(2) by (subst sum.remove[of M s]) (auto intro!: sum.cong)
  moreover have "sum deg M = deg s + sum deg (M - {s})"
    using Cons.prems(3) s(2) by (simp add: sum.remove)
  ultimately have "sum (deg(s := deg s - 1)) M + 1 = sum deg M" using s(1) by simp
  moreover have "sum deg' M + length queue'
      \<le> sum (deg(s := deg s - 1)) M + length (if deg s - 1 = 0 then queue @ [s] else queue)"
    using Cons.prems s(1) by (intro Cons.IH) (simp_all add: Let_def del: fun_upd_apply split del: if_split)
  ultimately show ?case by (auto split: if_splits)
qed simp

function kahn_loop ::
  "dep_registry \<Rightarrow> uid set \<Rightarrow> (uid \<Rightarrow> nat) \<Rightarrow> uid list \<Rightarrow> uid list \<Rightarrow> uid list option" where
  "kahn_loop deps members deg topo [] = Some topo"
| "kahn_loop deps members deg topo (i # queue) =
     (case relax (sorted_uids (subs_of deps i \<inter> members)) (deg, queue) of
        None \<Rightarrow> None
      | Some (deg', queue') \<Rightarrow> kahn_loop deps members deg' (topo @ [i]) queue')"
  by pat_completeness auto

termination kahn_loop
proof (relation "measure (\<lambda>(deps, members, deg, topo, queue). sum deg members + length queue)")
  fix deps members i queue x deg' queue' and deg :: "uid \<Rightarrow> nat" and topo :: "uid list"
  assume "relax (sorted_uids (subs_of deps i \<inter> members)) (deg, queue) = Some x" "(deg', queue') = x"
  then have "sum deg' members + length queue' \<le> sum deg members + length queue"
    by (intro relax_measure[where subs = "sorted_uids (subs_of deps i \<inter> members)"]) auto
  then show "((deps, members, deg', topo @ [i], queue'), deps, members, deg, topo, i # queue)
      \<in> measure (\<lambda>(deps, members, deg, topo, queue). sum deg members + length queue)"
    by simp
qed simp

text \<open>\<open>None\<close> is the panic, \<open>Some None\<close> the answer that the members contain a cycle.\<close>

definition kahn :: "dep_registry \<Rightarrow> uid list \<Rightarrow> uid list option option" where
  "kahn deps members =
     (let M = set members;
          deg = in_degree deps M
      in case kahn_loop deps M deg [] (sorted_uids {i \<in> M. deg i = 0}) of
           None \<Rightarrow> None
         | Some topo \<Rightarrow> Some (if length topo \<noteq> length members then None else Some topo))"

section \<open>The arrays\<close>

record csr =
  cs_offsets :: "u32 list"
  cs_cols :: "u32 list"
  cs_rules :: "compute_rule list"
  cs_outputs :: "u32 list"
  cs_seen :: "u32 set"
  cs_inputs :: "u32 list"

definition csr_new :: csr where
  "csr_new = \<lparr>cs_offsets = [0], cs_cols = [], cs_rules = [], cs_outputs = [], cs_seen = {}, cs_inputs = []\<rparr>"

definition add_col :: "u32 \<Rightarrow> csr \<Rightarrow> csr" where
  "add_col di c =
     (let c1 = c\<lparr>cs_cols := cs_cols c @ [di], cs_seen := insert di (cs_seen c)\<rparr>
      in if di \<notin> cs_seen c \<and> di \<notin> set (cs_outputs c) then c1\<lparr>cs_inputs := cs_inputs c1 @ [di]\<rparr> else c1)"

fun add_uid_cols :: "value_store \<Rightarrow> uid list \<Rightarrow> csr \<Rightarrow> csr option" where
  "add_uid_cols st [] c = Some c"
| "add_uid_cols st (d # ds) c =
     (case dense_index st d of None \<Rightarrow> None | Some di \<Rightarrow> add_uid_cols st ds (add_col di c))"

definition node_rule :: "graph \<Rightarrow> uid \<Rightarrow> compute_rule" where
  "node_rule g i = or_default Identity_rule (Option.bind (graph_node g i) node_compute_rule)"

definition add_row :: "graph \<Rightarrow> dep_registry \<Rightarrow> value_store \<Rightarrow> uid \<Rightarrow> csr \<Rightarrow> csr option" where
  "add_row g deps st i c =
     (case dense_index st i of
        None \<Rightarrow> None
      | Some out \<Rightarrow>
          (let c1 = c\<lparr>cs_outputs := cs_outputs c @ [out], cs_rules := cs_rules c @ [node_rule g i]\<rparr>;
               idx = ordered_dep_indices_of deps i
           in map_option (\<lambda>c2. c2\<lparr>cs_offsets := cs_offsets c2 @ [of_nat (length (cs_cols c2))]\<rparr>)
                (if idx \<noteq> [] then Some (fold add_col idx c1)
                 else add_uid_cols st (sorted_uids (deps_of deps i)) c1)))"

fun add_rows :: "graph \<Rightarrow> dep_registry \<Rightarrow> value_store \<Rightarrow> uid list \<Rightarrow> csr \<Rightarrow> csr option" where
  "add_rows g deps st [] c = Some c"
| "add_rows g deps st (i # is) c = Option.bind (add_row g deps st i c) (add_rows g deps st is)"

text \<open>Beyond \<open>2 ^ 32\<close> columns the offsets wrap and building the index may panic: \<open>None\<close>.\<close>

definition freeze :: "uid list \<Rightarrow> u64 \<Rightarrow> csr \<Rightarrow> compiled_region option" where
  "freeze topo epoch c = map_option (\<lambda>(keys, offs, rows, contig).
         \<lparr>rg_members = topo, rg_rules = cs_rules c, rg_outputs = cs_outputs c, rg_inputs = cs_inputs c,
          rg_offsets = cs_offsets c, rg_cols = cs_cols c, rg_compiled_at = epoch, rg_inv_keys = keys,
          rg_inv_offsets = offs, rg_inv_rows = rows, rg_contig = contig\<rparr>)
     (build_region_inv (cs_offsets c) (cs_cols c) (length topo))"

definition compile_region ::
  "uid list \<Rightarrow> graph \<Rightarrow> dep_registry \<Rightarrow> value_store \<Rightarrow> u64 \<Rightarrow> compiled_region option option" where
  "compile_region members g deps st epoch =
     (case kahn deps members of
        None \<Rightarrow> None
      | Some None \<Rightarrow> Some None
      | Some (Some topo) \<Rightarrow>
          (case add_rows g deps st topo csr_new of
             None \<Rightarrow> Some None
           | Some c \<Rightarrow> map_option Some (freeze topo epoch c)))"

section \<open>The sort is topological\<close>

lemma relax_effect:
  "distinct xs \<Longrightarrow> \<forall>s \<in> set xs. 0 < deg s \<Longrightarrow> relax xs (deg, queue)
    = Some (\<lambda>n. if n \<in> set xs then deg n - 1 else deg n, queue @ filter (\<lambda>s. deg s = 1) xs)"
proof (induction xs arbitrary: deg queue)
  case (Cons s xs)
  have "relax xs (deg(s := deg s - 1), if deg s - 1 = 0 then queue @ [s] else queue)
      = Some (\<lambda>n. if n \<in> set xs then (deg(s := deg s - 1)) n - 1 else (deg(s := deg s - 1)) n,
          (if deg s - 1 = 0 then queue @ [s] else queue) @ filter (\<lambda>x. (deg(s := deg s - 1)) x = 1) xs)"
    using Cons.prems by (intro Cons.IH) auto
  moreover have "filter (\<lambda>x. (deg(s := deg s - 1)) x = 1) xs = filter (\<lambda>x. deg x = 1) xs"
    using Cons.prems(1) by (intro filter_cong) auto
  moreover have "(\<lambda>n. if n \<in> set xs then (deg(s := deg s - 1)) n - 1 else (deg(s := deg s - 1)) n)
      = (\<lambda>n. if n \<in> set (s # xs) then deg n - 1 else deg n)"
    using Cons.prems(1) by (auto simp: fun_eq_iff)
  ultimately show ?case using Cons.prems(2) by (auto simp: Let_def)
qed simp

definition kahn_inv :: "dep_registry \<Rightarrow> uid set \<Rightarrow> (uid \<Rightarrow> nat) \<Rightarrow> uid list \<Rightarrow> uid list \<Rightarrow> bool" where
  "kahn_inv deps M deg topo queue \<longleftrightarrow> distinct (topo @ queue) \<and> set (topo @ queue) \<subseteq> M
     \<and> (\<forall>n \<in> M. deg n = card (deps_of deps n \<inter> (M - set topo)))
     \<and> (\<forall>n \<in> M. (deg n = 0) = (n \<in> set (topo @ queue)))
     \<and> (\<forall>k < length topo. deps_of deps (topo ! k) \<inter> M \<subseteq> set (take k topo))"

lemma kahn_inv_step:
  assumes wf: "dr_wf deps" and inv: "kahn_inv deps M deg topo (i # queue)"
  shows "\<exists>deg' queue'. relax (sorted_uids (subs_of deps i \<inter> M)) (deg, queue) = Some (deg', queue')
    \<and> kahn_inv deps M deg' (topo @ [i]) queue'"
proof -
  let ?xs = "sorted_uids (subs_of deps i \<inter> M)"
  have fin: "finite (deps_of deps n)" for n using dr_wfD(2)[OF wf] .
  have xs: "set ?xs = subs_of deps i \<inter> M" "distinct ?xs" by simp_all
  have i: "i \<in> M" "i \<notin> set topo" "i \<notin> set queue"
    using inv by (auto simp: kahn_inv_def)
  have zero: "\<forall>n \<in> M. (deg n = 0) = (n \<in> set (topo @ i # queue))"
    using inv unfolding kahn_inv_def by blast
  then have i0: "deg i = 0" using i(1) by simp
  have deg: "deg n = card (deps_of deps n \<inter> (M - set topo))" if "n \<in> M" for n
    using inv that by (simp add: kahn_inv_def)
  have mem: "n \<in> subs_of deps i \<longleftrightarrow> i \<in> deps_of deps n" for n
    using dr_wfD(1)[OF wf] by blast
  have split: "deg n = (if n \<in> set ?xs then 1 else 0) + card (deps_of deps n \<inter> (M - set (topo @ [i])))" if n: "n \<in> M" for n
  proof (cases "i \<in> deps_of deps n")
    case True
    then have "deps_of deps n \<inter> (M - set topo) = insert i (deps_of deps n \<inter> (M - set (topo @ [i])))"
      using i by auto
    then show ?thesis using True n fin by (simp add: deg xs mem)
  next
    case False
    then have "deps_of deps n \<inter> (M - set topo) = deps_of deps n \<inter> (M - set (topo @ [i]))" by auto
    then show ?thesis using False n by (simp add: deg xs mem)
  qed
  let ?deg = "\<lambda>n. if n \<in> set ?xs then deg n - 1 else deg n" and ?q = "queue @ filter (\<lambda>s. deg s = 1) ?xs"
  have r: "relax ?xs (deg, queue) = Some (?deg, ?q)"
    using split xs by (intro relax_effect) auto
  have "kahn_inv deps M ?deg (topo @ [i]) ?q"
    unfolding kahn_inv_def
  proof (intro conjI ballI allI impI)
    have "n \<notin> set (topo @ i # queue)" if "n \<in> set ?xs" for n
      using zero that split[of n] xs(1) by auto
    then show "distinct ((topo @ [i]) @ ?q)"
      using inv xs(2) by (auto simp: kahn_inv_def)
    show "set ((topo @ [i]) @ ?q) \<subseteq> M"
      using inv xs(1) by (auto simp: kahn_inv_def)
    fix n assume n: "n \<in> M"
    show "?deg n = card (deps_of deps n \<inter> (M - set (topo @ [i])))"
      using split[OF n] by auto
    have "(deg n = 0) = (n \<in> set (topo @ i # queue))"
      using zero n by blast
    then show "(?deg n = 0) = (n \<in> set ((topo @ [i]) @ ?q))"
      using split[OF n] by (auto split: if_splits)
  next
    fix k assume k: "k < length (topo @ [i])"
    have "deps_of deps i \<inter> (M - set topo) = {}"
      using deg[OF i(1)] i0 fin by simp
    then have "deps_of deps i \<inter> M \<subseteq> set topo" by blast
    moreover have "\<forall>k < length topo. deps_of deps (topo ! k) \<inter> M \<subseteq> set (take k topo)"
      using inv by (simp add: kahn_inv_def)
    ultimately show "deps_of deps ((topo @ [i]) ! k) \<inter> M \<subseteq> set (take k (topo @ [i]))"
      using k by (cases "k = length topo") (simp_all add: nth_append)
  qed
  with r show ?thesis by blast
qed

lemma kahn_loop_correct:
  "dr_wf deps \<Longrightarrow> kahn_inv deps M deg topo queue
    \<Longrightarrow> \<exists>topo' deg'. kahn_loop deps M deg topo queue = Some topo' \<and> kahn_inv deps M deg' topo' []"
proof (induction deps M deg topo queue rule: kahn_loop.induct)
  case (2 deps M deg topo i queue)
  obtain deg' queue' where s: "relax (sorted_uids (subs_of deps i \<inter> M)) (deg, queue) = Some (deg', queue')"
    "kahn_inv deps M deg' (topo @ [i]) queue'"
    using kahn_inv_step[OF 2(2,3)] by blast
  show ?case using 2(1)[OF s(1) refl 2(2) s(2)] s(1) by simp
qed auto

definition topological :: "dep_registry \<Rightarrow> uid list \<Rightarrow> uid list \<Rightarrow> bool" where
  "topological deps members topo \<longleftrightarrow> distinct topo \<and> set topo = set members
     \<and> (\<forall>k < length topo. deps_of deps (topo ! k) \<inter> set members \<subseteq> set (take k topo))"

lemma kahn_correct:
  assumes wf: "dr_wf deps"
  shows "\<exists>res. kahn deps members = Some res
    \<and> (\<forall>topo. res = Some topo \<longrightarrow> topological deps members topo)
    \<and> (res = None \<longrightarrow> \<not> distinct members
        \<or> (\<exists>C \<subseteq> set members. C \<noteq> {} \<and> (\<forall>n \<in> C. deps_of deps n \<inter> C \<noteq> {})))"
proof -
  let ?M = "set members" and ?deg = "in_degree deps (set members)"
  have "kahn_inv deps ?M ?deg [] (sorted_uids {i \<in> ?M. ?deg i = 0})"
    by (auto simp: kahn_inv_def in_degree_def)
  from kahn_loop_correct[OF wf this] obtain topo deg where
    k: "kahn_loop deps ?M ?deg [] (sorted_uids {i \<in> ?M. ?deg i = 0}) = Some topo" "kahn_inv deps ?M deg topo []"
    by blast
  have inv: "distinct topo" "set topo \<subseteq> ?M" "\<forall>k < length topo. deps_of deps (topo ! k) \<inter> ?M \<subseteq> set (take k topo)"
    "\<forall>n \<in> ?M. deg n = card (deps_of deps n \<inter> (?M - set topo))" "\<forall>n \<in> ?M. (deg n = 0) = (n \<in> set topo)"
    using k(2) unfolding kahn_inv_def append_Nil2 by blast+
  have res: "kahn deps members = Some (if length topo \<noteq> length members then None else Some topo)"
    using k(1) by (simp add: kahn_def Let_def)
  have "set topo = ?M" if "length topo = length members"
  proof -
    have "card (set topo) = length members" using inv(1) that by (simp add: distinct_card)
    then show ?thesis using inv(2) card_length[of members] by (metis card_seteq List.finite_set)
  qed
  moreover have "\<exists>C \<subseteq> ?M. C \<noteq> {} \<and> (\<forall>n \<in> C. deps_of deps n \<inter> C \<noteq> {})"
    if "length topo \<noteq> length members" "distinct members"
  proof -
    have "set topo \<noteq> ?M" using that inv(1) by (metis distinct_card)
    moreover have "deps_of deps n \<inter> (?M - set topo) \<noteq> {}" if "n \<in> ?M - set topo" for n
      using inv(4,5) that by (metis DiffE card.empty)
    ultimately show ?thesis using inv(2) by (intro exI[of _ "?M - set topo"]) blast
  qed
  ultimately show ?thesis using inv(1,3) by (auto simp: res topological_def)
qed

section \<open>The arrays are the wiring in topological order\<close>

definition dense_of :: "value_store \<Rightarrow> uid \<Rightarrow> u32" where
  "dense_of st i = or_default 0 (dense_index st i)"

definition wired_row :: "dep_registry \<Rightarrow> value_store \<Rightarrow> uid \<Rightarrow> u32 list" where
  "wired_row deps st i = map (dense_of st) (ordered_deps_of deps i)"

lemma add_cols_effect:
  "cs_cols (fold add_col ds c) = cs_cols c @ ds"
  "cs_outputs (fold add_col ds c) = cs_outputs c" "cs_rules (fold add_col ds c) = cs_rules c"
  "cs_offsets (fold add_col ds c) = cs_offsets c" "cs_seen (fold add_col ds c) = cs_seen c \<union> set ds"
  "set (cs_inputs (fold add_col ds c)) = set (cs_inputs c) \<union> (set ds - cs_seen c - set (cs_outputs c))"
  by (induction ds arbitrary: c) (auto simp: add_col_def Let_def)

text \<open>The arrays after the rows of \<open>topo\<close>.\<close>

definition csr_of :: "graph \<Rightarrow> dep_registry \<Rightarrow> value_store \<Rightarrow> uid list \<Rightarrow> csr \<Rightarrow> bool" where
  "csr_of g deps st topo c \<longleftrightarrow> cs_outputs c = map (dense_of st) topo
     \<and> cs_rules c = map (node_rule g) topo
     \<and> cs_cols c = concat (map (wired_row deps st) topo)
     \<and> cs_offsets c = map (\<lambda>k. of_nat (length (concat (map (wired_row deps st) (take k topo))))) [0 ..< Suc (length topo)]
     \<and> cs_seen c = set (cs_cols c)
     \<and> set (cs_cols c) - set (cs_inputs c) \<subseteq> set (cs_outputs c)
     \<and> (\<forall>x \<in> set (cs_inputs c). \<exists>k < length topo. x \<in> set (wired_row deps st (topo ! k))
          \<and> x \<notin> dense_of st ` set (take (Suc k) topo))"

lemma add_row_csr:
  assumes sd: "simple_deps deps st" and c: "csr_of g deps st topo c" and r: "add_row g deps st i c = Some c'"
  shows "csr_of g deps st (topo @ [i]) c' \<and> dense_index st i \<noteq> None"
proof -
  obtain out where out: "dense_index st i = Some out" using r by (auto simp: add_row_def split: option.splits)
  let ?c1 = "c\<lparr>cs_outputs := cs_outputs c @ [out], cs_rules := cs_rules c @ [node_rule g i]\<rparr>"
  have idx: "ordered_dep_indices_of deps i = wired_row deps st i"
  proof -
    have "ordered_dep_indices_of deps i = map (\<lambda>a. the (st_idx st a)) (ordered_deps_of deps i)"
      using sd by (simp add: simple_deps_def lockstep_def)
    moreover have "\<forall>a \<in> set (ordered_deps_of deps i). st_idx st a \<noteq> None"
      using sd by (auto simp: simple_deps_def)
    ultimately show ?thesis by (auto simp: wired_row_def dense_of_def dense_index_def)
  qed
  have "set (ordered_deps_of deps i) = deps_of deps i"
    using sd by (simp add: simple_deps_def)
  then have "deps_of deps i = {}" if "wired_row deps st i = []"
    using that by (auto simp: wired_row_def)
  then have "c' = (fold add_col (wired_row deps st i) ?c1)\<lparr>cs_offsets :=
      cs_offsets (fold add_col (wired_row deps st i) ?c1) @ [of_nat (length (cs_cols (fold add_col (wired_row deps st i) ?c1)))]\<rparr>"
    using r by (cases "wired_row deps st i = []") (simp_all add: add_row_def out Let_def idx)
  then have f: "cs_outputs c' = cs_outputs c @ [dense_of st i]" "cs_rules c' = cs_rules c @ [node_rule g i]"
    "cs_cols c' = cs_cols c @ wired_row deps st i" "cs_seen c' = cs_seen c \<union> set (wired_row deps st i)"
    "cs_offsets c' = cs_offsets c @ [of_nat (length (cs_cols c @ wired_row deps st i))]"
    "set (cs_inputs c') = set (cs_inputs c) \<union> (set (wired_row deps st i) - cs_seen c - set (cs_outputs c'))"
    using out by (simp_all add: add_cols_effect dense_of_def)
  have c0: "cs_outputs c = map (dense_of st) topo" "cs_rules c = map (node_rule g) topo"
    "cs_cols c = concat (map (wired_row deps st) topo)" "cs_seen c = set (cs_cols c)"
    "set (cs_cols c) - set (cs_inputs c) \<subseteq> set (cs_outputs c)"
    "cs_offsets c = map (\<lambda>k. of_nat (length (concat (map (wired_row deps st) (take k topo))))) [0 ..< Suc (length topo)]"
    "\<forall>x \<in> set (cs_inputs c). \<exists>k < length topo. x \<in> set (wired_row deps st (topo ! k)) \<and> x \<notin> dense_of st ` set (take (Suc k) topo)"
    using c unfolding csr_of_def by blast+
  have "cs_offsets c' = map (\<lambda>k. of_nat (length (concat (map (wired_row deps st) (take k (topo @ [i])))))) [0 ..< Suc (length (topo @ [i]))]"
    by (simp add: f(5) c0(3,6))
  moreover have "set (cs_cols c') - set (cs_inputs c') \<subseteq> set (cs_outputs c')"
    using c0(4,5) f(1,3,6) by auto
  moreover have "\<exists>k < length (topo @ [i]). x \<in> set (wired_row deps st ((topo @ [i]) ! k))
      \<and> x \<notin> dense_of st ` set (take (Suc k) (topo @ [i]))" if x: "x \<in> set (cs_inputs c')" for x
  proof (cases "x \<in> set (cs_inputs c)")
    case True
    then obtain k where "k < length topo" "x \<in> set (wired_row deps st (topo ! k))" "x \<notin> dense_of st ` set (take (Suc k) topo)"
      using c0(7) by blast
    then show ?thesis by (intro exI[of _ k]) (simp add: nth_append)
  next
    case False
    then have "x \<in> set (wired_row deps st i)" "x \<notin> set (cs_outputs c')" using x f(6) by auto
    then show ?thesis by (intro exI[of _ "length topo"]) (auto simp: f(1) c0(1))
  qed
  ultimately show ?thesis
    using out by (simp add: csr_of_def f(1-4) c0(1-4))
qed

lemma add_rows_csr:
  "simple_deps deps st \<Longrightarrow> csr_of g deps st topo c \<Longrightarrow> add_rows g deps st is c = Some c'
    \<Longrightarrow> csr_of g deps st (topo @ is) c' \<and> (\<forall>i \<in> set is. dense_index st i \<noteq> None)"
proof (induction "is" arbitrary: topo c)
  case (Cons i "is")
  obtain c1 where c1: "add_row g deps st i c = Some c1" "add_rows g deps st is c1 = Some c'"
    using Cons.prems(3) by (auto split: Option.bind_splits)
  show ?case
    using Cons.IH[OF Cons.prems(1) _ c1(2), of "topo @ [i]"] add_row_csr[OF Cons.prems(1,2) c1(1)] by simp
qed simp

lemma csr_new_of: "csr_of g deps st [] csr_new"
  by (simp add: csr_of_def csr_new_def)

section \<open>Sizes and hints\<close>

definition rows_total :: "(u32, u32 list) amap \<Rightarrow> nat" where
  "rows_total im = sum_list (map (length \<circ> snd) im)"

lemma rows_total_put:
  "awf im \<Longrightarrow> rows_total (aput c (or_default [] (aget im c) @ [r]) im) = Suc (rows_total im)"
proof (induction im)
  case (Cons p im)
  obtain k v where p: "p = (k, v)" by (cases p)
  show ?case
  proof (cases "k = c")
    case True
    then show ?thesis by (simp add: p aput_def aget_def rows_total_def)
  next
    case False
    then have "aput c (or_default [] (aget (p # im) c) @ [r]) (p # im) = p # aput c (or_default [] (aget im c) @ [r]) im"
      by (simp add: p aput_def aget_def)
    then show ?thesis using Cons False by (simp add: rows_total_def awf_def)
  qed
qed (simp add: aput_def aget_def rows_total_def)

lemma rows_total_add: "awf im \<Longrightarrow> rows_total (fold (inv_add row) cs im) = rows_total im + length cs"
proof (induction cs arbitrary: im)
  case (Cons c cs)
  have "awf (inv_add row c im)" using Cons.prems by (simp add: inv_add_def)
  then show ?case using Cons by (simp add: inv_add_def rows_total_put)
qed simp

lemma rows_total_rows:
  "awf im \<Longrightarrow> rows_total (fold (\<lambda>row. fold (inv_add (of_nat row)) (f row)) ns im)
    = rows_total im + length (concat (map f ns))"
proof (induction ns arbitrary: im)
  case (Cons n ns)
  then show ?case using inv_add_fold_wf[OF Cons.prems, of "of_nat n" "f n"] by (simp add: rows_total_add)
qed simp

lemma inv_rows_length:
  assumes "build_region_inv offs cols n = Some (keys, io, rows, contig)"
  shows "length rows = length (concat (map (row_cols offs cols) [0 ..< n]))"
proof -
  let ?im = "inv_map offs cols n"
  have wf: "awf ?im" unfolding inv_map_def by (rule inv_rows_fold_wf) simp
  let ?f = "\<lambda>k. or_default [] (aget ?im k)" and ?ks = "map fst ?im"
  have ks: "distinct ?ks" using wf by (simp add: awf_def)
  have "snd (inv_pack ?im (sort ?ks)) = concat (map ?f (sort ?ks))"
    unfolding inv_pack_def inv_pack_fold by simp
  then have "rows = concat (map ?f (sort ?ks))"
    using assms by (auto simp: build_region_inv_eq Let_def split: prod.splits if_splits)
  then have "length rows = sum_list (map (length \<circ> ?f) (sort ?ks))"
    by (simp add: length_concat comp_def)
  also have "\<dots> = sum_list (map (length \<circ> ?f) ?ks)"
    using ks by (simp add: sum_list_distinct_conv_sum_set del: map_map)
  also have "\<dots> = rows_total ?im"
  proof -
    have "aget ?im (fst p) = Some (snd p)" if "p \<in> set ?im" for p
      using that wf by (simp add: aget_def awf_def)
    then show ?thesis by (simp add: rows_total_def comp_def cong: map_cong)
  qed
  also have "\<dots> = length (concat (map (row_cols offs cols) [0 ..< n]))"
    using rows_total_rows[of "[]" "row_cols offs cols" "[0 ..< n]"] by (simp add: inv_map_def rows_total_def)
  finally show ?thesis .
qed

lemma hint_run:
  assumes "\<forall>c \<in> set cols. unat c < slots" "slots < 2 ^ 32"
    "contig_run cols f"
  shows "map unat cols = [unat f ..< unat f + length cols]"
proof (rule nth_equalityI)
  fix k assume "k < length (map unat cols)"
  then have k: "k < length cols" by simp
  have el: "cols ! j = f + of_nat j" if "j < length cols" for j
  proof -
    have "(j, cols ! j) \<in> set (enumerate 0 cols)"
      using that by (auto simp: in_set_conv_nth nth_enumerate_eq intro: exI[of _ j])
    then show ?thesis using assms(3) by (fastforce simp: contig_run_def list_all_iff)
  qed
  have "unat (f + of_nat j) = unat f + j" if "j < length cols" for j
    using that
  proof (induction j)
    case (Suc j)
    then have "unat (f + of_nat j) < slots" using el[of j] assms(1) by (metis Suc_lessD nth_mem)
    moreover have "unat (- 1 :: u32) = 2 ^ 32 - 1"
      by (simp add: unsigned_minus_1_eq_mask mask_eq_exp_minus_1)
    ultimately have "f + of_nat j \<noteq> - 1" using assms(2) by auto
    then have "unat (1 + (f + of_nat j)) = Suc (unat (f + of_nat j))"
      by (simp add: unatSuc add_eq_0_iff eq_neg_iff_add_eq_0)
    moreover have "f + of_nat (Suc j) = 1 + (f + of_nat j)" by simp
    ultimately show ?case using Suc by (simp only: of_nat_Suc add.left_commute add_Suc_right)
  qed simp
  then show "map unat cols ! k = [unat f ..< unat f + length cols] ! k"
    using k el[OF k] by simp
qed simp

section \<open>Compilation establishes the layout\<close>

lemma slots_of_world:
  assumes wf: "world_wf w"
  shows "st_idx (w_store w) a = Some d \<Longrightarrow> dense_of (w_store w) a = d \<and> unat d < length (st_cache (w_store w))"
    and "st_idx (w_store w) a \<noteq> None \<Longrightarrow> st_idx (w_store w) b \<noteq> None
      \<Longrightarrow> dense_of (w_store w) a = dense_of (w_store w) b \<Longrightarrow> a = b"
    and "a \<in> set (ordered_deps_of (w_deps w) i) \<Longrightarrow> st_idx (w_store w) a \<noteq> None \<and> a \<in> deps_of (w_deps w) i"
    and "x \<in> set (wired_row (w_deps w) (w_store w) i) \<Longrightarrow> unat x < length (st_cache (w_store w))"
proof -
  have parts: "simple_deps (w_deps w) (w_store w)" "store_wf (w_store w)"
    "inj_on (st_idx (w_store w)) (dom (st_idx (w_store w)))"
    using wf by (simp_all add: world_wf_def)
  show dense: "dense_of (w_store w) a = d \<and> unat d < length (st_cache (w_store w))"
    if "st_idx (w_store w) a = Some d" for a d
    using that parts(2) by (simp add: dense_of_def dense_index_def store_wf_def)
  show "st_idx (w_store w) a \<noteq> None \<Longrightarrow> st_idx (w_store w) b \<noteq> None
      \<Longrightarrow> dense_of (w_store w) a = dense_of (w_store w) b \<Longrightarrow> a = b"
    using dense parts(3) by (metis domIff inj_onD not_None_eq)
  show slot: "a \<in> set (ordered_deps_of (w_deps w) i) \<Longrightarrow> st_idx (w_store w) a \<noteq> None \<and> a \<in> deps_of (w_deps w) i" for a
    using parts(1) by (auto simp: simple_deps_def)
  show "unat x < length (st_cache (w_store w))" if "x \<in> set (wired_row (w_deps w) (w_store w) i)"
  proof -
    have "x \<in> dense_of (w_store w) ` set (ordered_deps_of (w_deps w) i)"
      using that by (simp add: wired_row_def)
    then obtain a where "a \<in> set (ordered_deps_of (w_deps w) i)" "x = dense_of (w_store w) a" by blast
    then show ?thesis using slot dense by fastforce
  qed
qed

lemma rows_read_back:
  assumes wf: "world_wf w" and top: "topological (w_deps w) members topo"
    and slots: "\<forall>i \<in> set topo. st_idx (w_store w) i \<noteq> None" and lt: "i < length topo" "j < length topo"
    and inrow: "dense_of (w_store w) (topo ! j) \<in> set (wired_row (w_deps w) (w_store w) (topo ! i))"
  shows "j < i"
proof -
  obtain a where a: "a \<in> set (ordered_deps_of (w_deps w) (topo ! i))" "dense_of (w_store w) (topo ! j) = dense_of (w_store w) a"
    using inrow by (auto simp: wired_row_def)
  have "topo ! j = a"
    using slots_of_world(2)[OF wf] slots_of_world(3)[OF wf a(1)] a(2) slots lt(2) by simp
  then have "topo ! j \<in> deps_of (w_deps w) (topo ! i) \<inter> set members"
    using slots_of_world(3)[OF wf a(1)] top lt(2) by (auto simp: topological_def)
  then have "topo ! j \<in> set (take i topo)" using top lt(1) by (auto simp: topological_def)
  then obtain l where "l < i" "l < length topo" "topo ! l = topo ! j"
    by (auto simp: in_set_conv_nth)
  then show ?thesis using top lt(2) by (metis nth_eq_iff_index_eq topological_def)
qed

text \<open>What the arrays hold, once they are small enough for their 32-bit offsets.\<close>

lemma csr_ofD:
  assumes "csr_of g deps st topo c"
  shows "cs_outputs c = map (dense_of st) topo" "cs_rules c = map (node_rule g) topo"
    "cs_cols c = concat (map (wired_row deps st) topo)"
    "set (cs_cols c) - set (cs_inputs c) \<subseteq> set (cs_outputs c)"
    "x \<in> set (cs_inputs c) \<Longrightarrow> \<exists>k < length topo. x \<in> set (wired_row deps st (topo ! k))
          \<and> x \<notin> dense_of st ` set (take (Suc k) topo)"
  using assms unfolding csr_of_def by blast+

lemma csr_offset:
  assumes c: "csr_of g deps st topo c" and len: "length (cs_cols c) < 2 ^ 32" and k: "k \<le> length topo"
  shows "unat (cs_offsets c ! k) = length (concat (map (wired_row deps st) (take k topo)))"
proof -
  have "concat (map (wired_row deps st) topo)
      = concat (map (wired_row deps st) (take k topo)) @ concat (map (wired_row deps st) (drop k topo))"
    by (metis append_take_drop_id concat_append map_append)
  then have "length (concat (map (wired_row deps st) (take k topo))) < 2 ^ 32"
    using len by (simp add: csr_ofD(3)[OF c])
  moreover have "cs_offsets c ! k = of_nat (length (concat (map (wired_row deps st) (take k topo))))"
    using c k by (simp add: csr_of_def del: upt_Suc)
  ultimately show ?thesis by (simp add: unat_of_nat)
qed

lemma csr_row:
  assumes c: "csr_of g deps st topo c" and len: "length (cs_cols c) < 2 ^ 32" and i: "i < length topo"
  shows "row_cols (cs_offsets c) (cs_cols c) i = wired_row deps st (topo ! i)"
    and "length (wired_row deps st (topo ! i)) = unat (cs_offsets c ! Suc i) - unat (cs_offsets c ! i)"
  using slice_concat[OF i, of "wired_row deps st"] csr_offset[OF c len, of i] csr_offset[OF c len, of "Suc i"] i
  by (simp_all add: row_cols_def csr_ofD(3)[OF c] take_Suc_conv_app_nth)

lemma csr_inputs:
  assumes c: "csr_of g deps st topo c"
    and earlier: "\<And>i j. i < length topo \<Longrightarrow> j < length topo
      \<Longrightarrow> dense_of st (topo ! j) \<in> set (wired_row deps st (topo ! i)) \<Longrightarrow> j < i"
  shows "set (cs_inputs c) = (\<Union>i < length topo. set (wired_row deps st (topo ! i))) - set (cs_outputs c)"
proof (intro set_eqI iffI)
  fix x assume "x \<in> set (cs_inputs c)"
  from csr_ofD(5)[OF c this] obtain k where k: "k < length topo" "x \<in> set (wired_row deps st (topo ! k))"
    "x \<notin> dense_of st ` set (take (Suc k) topo)" by blast
  have "x \<noteq> dense_of st (topo ! j)" if "j < length topo" for j
  proof
    assume x: "x = dense_of st (topo ! j)"
    then have "j < Suc k" using earlier[OF k(1) that] k(2) by simp
    then have "topo ! j \<in> set (take (Suc k) topo)"
      using that by (metis length_take min_less_iff_conj nth_mem nth_take)
    with x k(3) show False by blast
  qed
  then have "x \<notin> dense_of st ` set topo" by (metis imageE in_set_conv_nth)
  then have "x \<notin> set (cs_outputs c)" by (simp add: csr_ofD(1)[OF c])
  then show "x \<in> (\<Union>i < length topo. set (wired_row deps st (topo ! i))) - set (cs_outputs c)"
    using k(1,2) by blast
next
  fix x assume x: "x \<in> (\<Union>i < length topo. set (wired_row deps st (topo ! i))) - set (cs_outputs c)"
  then have "x \<in> set (cs_cols c)" by (auto simp: csr_ofD(3)[OF c])
  then show "x \<in> set (cs_inputs c)" using csr_ofD(4)[OF c] x by blast
qed

lemma csr_span:
  assumes c: "csr_of g deps st topo c" and len: "length (cs_cols c) < 2 ^ 32" and i: "i < length topo"
  shows "span_ok (cs_offsets c) (cs_cols c) i"
proof -
  have "concat (map (wired_row deps st) topo)
      = concat (map (wired_row deps st) (take (Suc i) topo)) @ concat (map (wired_row deps st) (drop (Suc i) topo))"
    by (metis append_take_drop_id concat_append map_append)
  then have "length (concat (map (wired_row deps st) (take (Suc i) topo))) \<le> length (cs_cols c)"
    by (simp add: csr_ofD(3)[OF c])
  moreover have "length (cs_offsets c) = Suc (length topo)" using c by (simp add: csr_of_def)
  ultimately show ?thesis
    using csr_offset[OF c len, of i] csr_offset[OF c len, of "Suc i"] i
    by (simp add: span_ok_def take_Suc_conv_app_nth)
qed

text \<open>Small enough arrays freeze, into the arrays themselves and the index built from them.\<close>

lemma freeze_total:
  assumes c: "csr_of g deps st topo c" and len: "length (cs_cols c) < 2 ^ 32"
  shows "freeze topo epoch c \<noteq> None"
  using csr_span[OF c len] by (simp add: freeze_def build_region_inv_eq Let_def split: prod.split)

lemma freeze_sel:
  assumes "freeze topo epoch c = Some rg"
  shows "rg_members rg = topo" "rg_rules rg = cs_rules c" "rg_outputs rg = cs_outputs c"
    "rg_inputs rg = cs_inputs c" "rg_offsets rg = cs_offsets c" "rg_cols rg = cs_cols c"
    "build_region_inv (rg_offsets rg) (rg_cols rg) (length topo)
      = Some (rg_inv_keys rg, rg_inv_offsets rg, rg_inv_rows rg, rg_contig rg)"
    "rg_contig rg = map (\<lambda>row. row_hint (row_cols (cs_offsets c) (cs_cols c) row)) [0 ..< length topo]"
proof -
  obtain keys offs rows contig where b:
    "build_region_inv (cs_offsets c) (cs_cols c) (length topo) = Some (keys, offs, rows, contig)"
    "rg = \<lparr>rg_members = topo, rg_rules = cs_rules c, rg_outputs = cs_outputs c,
      rg_inputs = cs_inputs c, rg_offsets = cs_offsets c, rg_cols = cs_cols c, rg_compiled_at = epoch,
      rg_inv_keys = keys, rg_inv_offsets = offs, rg_inv_rows = rows, rg_contig = contig\<rparr>"
    using assms by (auto simp: freeze_def)
  show "rg_members rg = topo" "rg_rules rg = cs_rules c" "rg_outputs rg = cs_outputs c"
    "rg_inputs rg = cs_inputs c" "rg_offsets rg = cs_offsets c" "rg_cols rg = cs_cols c"
    "build_region_inv (rg_offsets rg) (rg_cols rg) (length topo)
      = Some (rg_inv_keys rg, rg_inv_offsets rg, rg_inv_rows rg, rg_contig rg)"
    using b(1) by (simp_all add: b(2))
  show "rg_contig rg = map (\<lambda>row. row_hint (row_cols (cs_offsets c) (cs_cols c) row)) [0 ..< length topo]"
    using b(1) by (auto simp: b(2) build_region_inv_eq Let_def split: prod.splits if_splits)
qed

lemma freeze_index:
  assumes f: "freeze topo epoch c = Some rg" and c: "csr_of g deps st topo c"
    and len: "length (cs_cols c) < 2 ^ 32" "length topo < 2 ^ 32"
  shows "index_correct rg"
proof -
  note sel = freeze_sel[OF f]
  have "map (row_cols (cs_offsets c) (cs_cols c)) [0 ..< length topo] = map (wired_row deps st) topo"
    using csr_row(1)[OF c len(1)] by (auto intro: nth_equalityI)
  then have "length (rg_inv_rows rg) = length (cs_cols c)"
    using inv_rows_length[OF sel(7)] by (simp add: csr_ofD(3)[OF c] sel)
  then show ?thesis
    using len sel(7) by (intro build_index_correct[where n = "length topo"]) (simp_all add: sel)
qed

lemma freeze_hint:
  assumes f: "freeze topo epoch c = Some rg" and i: "i < length topo" and h: "rg_contig rg ! i = Some x"
    and row: "\<forall>x \<in> set (row_cols (cs_offsets c) (cs_cols c) i). unat x < slots" and s: "slots < 2 ^ 32"
  shows "map unat (row_cols (cs_offsets c) (cs_cols c) i)
    = [unat x ..< unat x + length (row_cols (cs_offsets c) (cs_cols c) i)]"
proof -
  have "row_hint (row_cols (cs_offsets c) (cs_cols c) i) = Some x"
    using h i by (simp add: freeze_sel(8)[OF f])
  then have "contig_run (row_cols (cs_offsets c) (cs_cols c) i) x"
    by (auto simp: row_hint_def split: list.splits if_splits)
  then show ?thesis by (rule hint_run[OF row s])
qed

lemma freeze_layout:
  assumes wf: "world_wf w" and top: "topological (w_deps w) members topo"
    and slots: "\<forall>i \<in> set topo. dense_index (w_store w) i \<noteq> None"
    and c: "csr_of (w_graph w) (w_deps w) (w_store w) topo c" and f: "freeze topo epoch c = Some rg"
    and size: "length (st_cache (w_store w)) < 2 ^ 32" "length topo < 2 ^ 32" "length (cs_cols c) < 2 ^ 32"
  shows "region_layout rg (length (st_cache (w_store w)))"
proof -
  let ?r = "w_deps w" and ?st = "w_store w"
  note sel = freeze_sel[OF f]
  have sl: "\<forall>i \<in> set topo. st_idx ?st i \<noteq> None" using slots by (simp add: dense_index_def)
  have bound: "\<forall>x \<in> set (row_cols (cs_offsets c) (cs_cols c) i). unat x < length (st_cache ?st)" if "i < length topo" for i
    using csr_row(1)[OF c size(3) that] slots_of_world(4)[OF wf] by simp
  have earlier: "dense_of ?st (topo ! j) \<in> set (row_cols (cs_offsets c) (cs_cols c) i) \<longrightarrow> j < i"
    if "i < length topo" "j < length topo" for i j
    using csr_row(1)[OF c size(3) that(1)] rows_read_back[OF wf top sl that] by simp
  have hint: "map unat (row_cols (cs_offsets c) (cs_cols c) i) = [unat x ..< unat x + length (row_cols (cs_offsets c) (cs_cols c) i)]"
    if "i < length topo" "rg_contig rg ! i = Some x" for i x
    by (rule freeze_hint[OF f that bound[OF that(1)] size(1)])
  have outs: "distinct (cs_outputs c)"
    using top slots_of_world(2)[OF wf] sl
    by (auto simp: csr_ofD(1)[OF c] distinct_map topological_def intro!: inj_onI)
  have dense: "\<forall>d \<in> set (cs_outputs c). unat d < length (st_cache ?st)"
    using sl slots_of_world(1)[OF wf] by (fastforce simp: csr_ofD(1)[OF c])
  have lens: "length (cs_outputs c) = length topo" "length (cs_rules c) = length topo"
    "length (cs_offsets c) = length topo + 1" "length (rg_contig rg) = length topo"
    using c by (simp_all add: csr_of_def sel(8))
  show ?thesis
    using hint earlier bound outs dense lens csr_span[OF c size(3)] freeze_index[OF f c size(3,2)]
    unfolding region_layout_def Let_def by (simp add: sel(1-6) csr_ofD(1)[OF c])
qed

lemma compile_region_Some:
  assumes "world_wf w" "compile_region members (w_graph w) (w_deps w) (w_store w) epoch = Some (Some rg)"
  obtains topo cs where "topological (w_deps w) members topo"
    "csr_of (w_graph w) (w_deps w) (w_store w) topo cs" "\<forall>i \<in> set topo. dense_index (w_store w) i \<noteq> None"
    "freeze topo epoch cs = Some rg"
proof -
  have sd: "simple_deps (w_deps w) (w_store w)" and dw: "dr_wf (w_deps w)"
    using assms(1) by (simp_all add: world_wf_def)
  obtain topo cs where k: "kahn (w_deps w) members = Some (Some topo)"
    "add_rows (w_graph w) (w_deps w) (w_store w) topo csr_new = Some cs" "freeze topo epoch cs = Some rg"
    using assms(2) by (auto simp: compile_region_def split: option.splits)
  have "topological (w_deps w) members topo" using kahn_correct[OF dw, of members] k(1) by auto
  then show ?thesis
    using add_rows_csr[OF sd csr_new_of k(2)] k(3) by (intro that) simp_all
qed

lemma compiled_layout:
  assumes wf: "world_wf w" and c: "compile_region members (w_graph w) (w_deps w) (w_store w) epoch = Some (Some rg)"
    and size: "length (st_cache (w_store w)) < 2 ^ 32" "length members < 2 ^ 32" "length (rg_cols rg) < 2 ^ 32"
  shows "region_layout rg (length (st_cache (w_store w)))"
    and "topological (w_deps w) members (rg_members rg)"
    and "i < length (rg_members rg) \<Longrightarrow> rg_row rg i = wired_row (w_deps w) (w_store w) (rg_members rg ! i)"
    and "i < length (rg_members rg) \<Longrightarrow> rg_rules rg ! i = node_rule (w_graph w) (rg_members rg ! i)"
    and "set (rg_inputs rg) = (\<Union>i < length (rg_members rg). set (rg_row rg i)) - set (rg_outputs rg)"
proof -
  let ?r = "w_deps w" and ?st = "w_store w" and ?g = "w_graph w"
  obtain topo cs where top: "topological ?r members topo" and cs: "csr_of ?g ?r ?st topo cs"
    and sl: "\<forall>i \<in> set topo. dense_index ?st i \<noteq> None" and f: "freeze topo epoch cs = Some rg"
    by (rule compile_region_Some[OF wf c])
  note rg = freeze_sel(1-6)[OF f]
  have cl: "length (cs_cols cs) < 2 ^ 32" using size(3) by (simp add: rg)
  have "length topo = card (set members)" using top by (metis topological_def distinct_card)
  then have len: "length topo < 2 ^ 32" using card_length[of members] size(2) by linarith
  show "region_layout rg (length (st_cache ?st))"
    by (rule freeze_layout[OF wf top sl cs f size(1) len cl])
  show "topological ?r members (rg_members rg)" using top by (simp add: rg)
  show row: "rg_row rg i = wired_row ?r ?st (rg_members rg ! i)" if "i < length (rg_members rg)" for i
    using csr_row(1)[OF cs cl] that by (simp add: rg)
  show "i < length (rg_members rg) \<Longrightarrow> rg_rules rg ! i = node_rule ?g (rg_members rg ! i)"
    by (simp add: rg csr_ofD(2)[OF cs])
  have "\<forall>i \<in> set topo. st_idx ?st i \<noteq> None" using sl by (simp add: dense_index_def)
  from csr_inputs[OF cs rows_read_back[OF wf top this]]
  show "set (rg_inputs rg) = (\<Union>i < length (rg_members rg). set (rg_row rg i)) - set (rg_outputs rg)"
    using csr_row(1)[OF cs cl] by (simp add: rg)
qed

text \<open>The size of the compiled columns, and the two ways compilation ends without a region.\<close>

definition wired_total :: "dep_registry \<Rightarrow> value_store \<Rightarrow> uid set \<Rightarrow> nat" where
  "wired_total deps st M = (\<Sum>i \<in> M. length (wired_row deps st i))"

lemma compiled_cols:
  assumes "topological deps members topo" "csr_of g deps st topo c"
  shows "length (cs_cols c) = wired_total deps st (set members)"
proof -
  have "length (cs_cols c) = (\<Sum>i \<leftarrow> topo. length (wired_row deps st i))"
    by (simp add: csr_ofD(3)[OF assms(2)] length_concat comp_def)
  also have "\<dots> = wired_total deps st (set topo)"
    using assms(1) by (simp add: wired_total_def topological_def sum_list_distinct_conv_sum_set)
  finally show ?thesis using assms(1) by (simp add: topological_def)
qed

lemma add_rows_total:
  assumes sd: "simple_deps deps st"
  shows "\<forall>i \<in> set is. dense_index st i \<noteq> None \<Longrightarrow> add_rows g deps st is c \<noteq> None"
proof (induction "is" arbitrary: c)
  case (Cons i "is")
  have "add_uid_cols st ds c \<noteq> None" if "set ds \<subseteq> deps_of deps i" for ds c
    using that
  proof (induction ds arbitrary: c)
    case (Cons d ds)
    then have "dense_index st d \<noteq> None" using sd by (auto simp: simple_deps_def dense_index_def)
    then show ?case using Cons by auto
  qed simp
  then have "add_row g deps st i c \<noteq> None"
    using Cons.prems by (auto simp: add_row_def Let_def)
  then show ?case using Cons by auto
qed simp

lemma compile_region_total:
  assumes wf: "world_wf w" and small: "wired_total (w_deps w) (w_store w) (set members) < 2 ^ 32"
  shows "compile_region members (w_graph w) (w_deps w) (w_store w) epoch \<noteq> None"
proof -
  have dw: "dr_wf (w_deps w)" and sd: "simple_deps (w_deps w) (w_store w)"
    using wf by (simp_all add: world_wf_def)
  obtain kr where k: "kahn (w_deps w) members = Some kr"
    "\<forall>topo. kr = Some topo \<longrightarrow> topological (w_deps w) members topo"
    using kahn_correct[OF dw, of members] by blast
  show ?thesis
  proof (cases kr)
    case (Some topo)
    show ?thesis
    proof (cases "add_rows (w_graph w) (w_deps w) (w_store w) topo csr_new")
      case (Some cs)
      then have "csr_of (w_graph w) (w_deps w) (w_store w) topo cs"
        using add_rows_csr[OF sd csr_new_of] by fastforce
      then have "freeze topo epoch cs \<noteq> None"
        using compiled_cols k(2) \<open>kr = Some topo\<close> small by (intro freeze_total) auto
      then show ?thesis using k(1) \<open>kr = Some topo\<close> Some by (simp add: compile_region_def)
    qed (use k(1) Some in \<open>simp add: compile_region_def\<close>)
  qed (use k(1) in \<open>simp add: compile_region_def\<close>)
qed

lemma compile_region_refuses:
  assumes wf: "world_wf w" and c: "compile_region members (w_graph w) (w_deps w) (w_store w) epoch = Some None"
  shows "\<not> distinct members \<or> (\<exists>i \<in> set members. dense_index (w_store w) i = None)
    \<or> (\<exists>C \<subseteq> set members. C \<noteq> {} \<and> (\<forall>n \<in> C. deps_of (w_deps w) n \<inter> C \<noteq> {}))"
proof -
  have dw: "dr_wf (w_deps w)" and sd: "simple_deps (w_deps w) (w_store w)"
    using wf by (simp_all add: world_wf_def)
  obtain kr where k: "kahn (w_deps w) members = Some kr"
    "\<forall>topo. kr = Some topo \<longrightarrow> topological (w_deps w) members topo"
    "kr = None \<longrightarrow> \<not> distinct members
        \<or> (\<exists>C \<subseteq> set members. C \<noteq> {} \<and> (\<forall>n \<in> C. deps_of (w_deps w) n \<inter> C \<noteq> {}))"
    using kahn_correct[OF dw, of members] by blast
  show ?thesis
  proof (cases kr)
    case (Some topo)
    then have "add_rows (w_graph w) (w_deps w) (w_store w) topo csr_new = None"
      using c k(1) by (auto simp: compile_region_def split: option.splits)
    then obtain i where "i \<in> set topo" "dense_index (w_store w) i = None" using add_rows_total[OF sd] by blast
    then show ?thesis using k(2) Some by (auto simp: topological_def)
  qed (use k(3) in blast)
qed

text \<open>
  C10. Region compilation is correct.  On a consistent engine state compilation never panics while
  the dependency lists of the members add up to fewer than \<open>2 ^ 32\<close> columns (beyond that the 32-bit
  row offsets wrap and a slice may panic); whatever the size it refuses only a member list with a
  repetition, a cycle among the members or a member without a slot; and with fewer than \<open>2 ^ 32\<close>
  slots, members and columns the circuit it builds satisfies every layout condition the incremental
  run relies on: parallel arrays with every row in range, the members in topological order, row \<open>i\<close>
  the slots of the dependencies of member \<open>i\<close> in wiring order, its rule the node's rule, the inverted
  index and the contiguity hints right, and the declared inputs exactly the columns that no member
  writes.
\<close>

theorem compile_region_correct:
  assumes "world_wf w" "length (st_cache (w_store w)) < 2 ^ 32" "length members < 2 ^ 32"
  shows "(wired_total (w_deps w) (w_store w) (set members) < 2 ^ 32
        \<longrightarrow> compile_region members (w_graph w) (w_deps w) (w_store w) epoch \<noteq> None)
    \<and> (\<forall>rg. compile_region members (w_graph w) (w_deps w) (w_store w) epoch = Some (Some rg)
          \<and> length (rg_cols rg) < 2 ^ 32 \<longrightarrow>
          region_layout rg (length (st_cache (w_store w)))
          \<and> topological (w_deps w) members (rg_members rg)
          \<and> (\<forall>i < length (rg_members rg). rg_row rg i = wired_row (w_deps w) (w_store w) (rg_members rg ! i)
               \<and> rg_rules rg ! i = node_rule (w_graph w) (rg_members rg ! i))
          \<and> set (rg_inputs rg) = (\<Union>i < length (rg_members rg). set (rg_row rg i)) - set (rg_outputs rg))
    \<and> (compile_region members (w_graph w) (w_deps w) (w_store w) epoch = Some None
        \<longrightarrow> \<not> distinct members \<or> (\<exists>i \<in> set members. dense_index (w_store w) i = None)
          \<or> (\<exists>C \<subseteq> set members. C \<noteq> {} \<and> (\<forall>n \<in> C. deps_of (w_deps w) n \<inter> C \<noteq> {})))"
proof (intro conjI impI allI)
  show "wired_total (w_deps w) (w_store w) (set members) < 2 ^ 32
      \<Longrightarrow> compile_region members (w_graph w) (w_deps w) (w_store w) epoch \<noteq> None"
    by (rule compile_region_total[OF assms(1)])
  show "compile_region members (w_graph w) (w_deps w) (w_store w) epoch = Some None
      \<Longrightarrow> \<not> distinct members \<or> (\<exists>i \<in> set members. dense_index (w_store w) i = None)
          \<or> (\<exists>C \<subseteq> set members. C \<noteq> {} \<and> (\<forall>n \<in> C. deps_of (w_deps w) n \<inter> C \<noteq> {}))"
    by (rule compile_region_refuses[OF assms(1)])
next
  fix rg assume r: "compile_region members (w_graph w) (w_deps w) (w_store w) epoch = Some (Some rg)
      \<and> length (rg_cols rg) < 2 ^ 32"
  note lay = compiled_layout[OF assms(1) conjunct1[OF r] assms(2,3) conjunct2[OF r]]
  show "region_layout rg (length (st_cache (w_store w)))" "topological (w_deps w) members (rg_members rg)"
    by (rule lay(1), rule lay(2))
  show "set (rg_inputs rg) = (\<Union>i < length (rg_members rg). set (rg_row rg i)) - set (rg_outputs rg)"
    by (rule lay(5))
  fix i assume "i < length (rg_members rg)"
  then show "rg_row rg i = wired_row (w_deps w) (w_store w) (rg_members rg ! i)"
    "rg_rules rg ! i = node_rule (w_graph w) (rg_members rg ! i)"
    by (rule lay(3), rule lay(4))
qed

text \<open>An input, its negation and a copy of that.\<close>

definition chain_world :: world where
  "chain_world = connect (connect (create_node (create_node (create_node world_empty (node_input 7 ''in''))
     (node_computed 8 ''not'' MvNeg)) (node_computed 9 ''copy'' Identity_rule)) 7 8) 8 9"

lemma chain_wf: "world_wf chain_world"
  unfolding chain_world_def
  by (intro world_wf_connect world_wf_create world_wf_empty) simp_all

lemma chain_facts:
  "deps_of (w_deps chain_world) 8 = {7}" "deps_of (w_deps chain_world) 9 = {8}"
  "subs_of (w_deps chain_world) 8 = {9}" "subs_of (w_deps chain_world) 9 = {}"
  "dense_index (w_store chain_world) 8 = Some 1" "dense_index (w_store chain_world) 9 = Some 2"
  "length (st_cache (w_store chain_world)) = 3"
  "ordered_deps_of (w_deps chain_world) 8 = [7]" "ordered_deps_of (w_deps chain_world) 9 = [8]"
  by (simp_all add: chain_world_def dense_index_def)

lemma chain_kahn: "kahn (w_deps chain_world) [9, 8] = Some (Some [8, 9])"
proof -
  have "{i \<in> set [9, 8]. in_degree (w_deps chain_world) (set [9, 8]) i = 0} = {8}"
    by (auto simp: in_degree_def chain_facts)
  moreover have "sorted_uids (subs_of (w_deps chain_world) 8 \<inter> {9, 8}) = [9]"
    "sorted_uids (subs_of (w_deps chain_world) 9 \<inter> {9, 8}) = []"
    by (simp_all add: chain_facts)
  moreover have "in_degree (w_deps chain_world) {9, 8} 9 = 1"
    by (simp add: in_degree_def chain_facts)
  ultimately show ?thesis by (simp add: kahn_def Let_def)
qed

theorem compile_region_correct_witness:
  "world_wf chain_world
   \<and> (\<exists>rg. compile_region [9, 8] (w_graph chain_world) (w_deps chain_world) (w_store chain_world) 0 = Some (Some rg)
        \<and> rg_members rg = [8, 9]
        \<and> region_layout rg 3)"
proof -
  have nc: "\<not> (\<exists>C \<subseteq> set [9, 8]. C \<noteq> {} \<and> (\<forall>n \<in> C. deps_of (w_deps chain_world) n \<inter> C \<noteq> {}))"
  proof
    assume "\<exists>C \<subseteq> set [9, 8]. C \<noteq> {} \<and> (\<forall>n \<in> C. deps_of (w_deps chain_world) n \<inter> C \<noteq> {})"
    then obtain C where C: "C \<subseteq> {9, 8 :: uid}" "C \<noteq> {}" "\<forall>n \<in> C. deps_of (w_deps chain_world) n \<inter> C \<noteq> {}" by auto
    have "8 \<notin> C"
    proof
      assume "8 \<in> C"
      then have "(7 :: uid) \<in> C" using C(3) chain_facts(1) by fastforce
      then show False using C(1) by auto
    qed
    then have "9 \<notin> C" using C(3) chain_facts(2) by fastforce
    with \<open>8 \<notin> C\<close> C(1,2) show False by auto
  qed
  have sl: "\<not> (\<exists>i \<in> set [9, 8]. dense_index (w_store chain_world) i = None)"
    by (simp add: chain_facts)
  have len: "length (st_cache (w_store chain_world)) < 2 ^ 32" "length [9, 8 :: uid] < 2 ^ 32"
    by (simp_all add: chain_facts(7))
  let ?c = "compile_region [9, 8] (w_graph chain_world) (w_deps chain_world) (w_store chain_world) 0"
  have small: "wired_total (w_deps chain_world) (w_store chain_world) (set [9, 8]) < 2 ^ 32"
    by (simp add: wired_total_def wired_row_def chain_facts)
  then obtain rg where rg: "?c = Some (Some rg)"
    using compile_region_correct[OF chain_wf len, of 0] nc sl by (cases ?c) (auto split: option.splits)
  obtain topo cs where cs: "topological (w_deps chain_world) [9, 8] topo"
    "csr_of (w_graph chain_world) (w_deps chain_world) (w_store chain_world) topo cs" "freeze topo 0 cs = Some rg"
    by (rule compile_region_Some[OF chain_wf rg])
  have "length (rg_cols rg) < 2 ^ 32"
    using small compiled_cols[OF cs(1,2)] freeze_sel(6)[OF cs(3)] by simp
  then have lay: "region_layout rg 3"
    using compile_region_correct[OF chain_wf len, of 0] rg chain_facts(7) by simp
  obtain c where "freeze [8, 9] 0 c = Some rg"
    using rg by (auto simp: compile_region_def chain_kahn split: option.splits)
  then have "rg_members rg = [8, 9]" by (rule freeze_sel(1))
  with rg lay chain_wf show ?thesis by auto
qed

end
