(* ===== verification/Egraph.thy ===== *)
theory Egraph
  imports Deps
begin

text \<open>
  Structural stabilization, \<^verbatim>\<open>core-rs/src/egraph.rs\<close>: the term language handed to the e-graph,
  its constant analysis and rewrite rules, the port history, the section grown around conflicted
  nodes, the expressions built for its members, and the decision to accept a section.  The
  saturation engine (the crate \<open>egg\<close>) is a parameter: a function from the root expressions to the
  constants their classes end with.  Before any rewriting an e-class is one hash-consed term, so
  class ids are modelled by the terms they stand for.
\<close>

section \<open>The language and its constant analysis\<close>

datatype 's pgrs_lang =
    LitNeg | LitZero | LitPos
  | TmNeg "'s pgrs_lang" | TmAdd "'s pgrs_lang" "'s pgrs_lang" | TmMul "'s pgrs_lang" "'s pgrs_lang"
  | TmSub "'s pgrs_lang" "'s pgrs_lang" | TmMeet "'s pgrs_lang" "'s pgrs_lang"
  | TmJoin "'s pgrs_lang" "'s pgrs_lang"
  | TmMerge "'s pgrs_lang" "'s pgrs_lang" "'s pgrs_lang" | TmBAdd "'s pgrs_lang" "'s pgrs_lang"
  | Symbol 's

fun lit :: "T \<Rightarrow> 's pgrs_lang" where
  "lit Neg = LitNeg"
| "lit Zero = LitZero"
| "lit Pos = LitPos"

fun eval_tm :: "('s \<Rightarrow> T) \<Rightarrow> 's pgrs_lang \<Rightarrow> T" where
  "eval_tm \<rho> LitNeg = Neg"
| "eval_tm \<rho> LitZero = Zero"
| "eval_tm \<rho> LitPos = Pos"
| "eval_tm \<rho> (TmNeg x) = mv_neg (eval_tm \<rho> x)"
| "eval_tm \<rho> (TmAdd a b) = mv_add (eval_tm \<rho> a) (eval_tm \<rho> b)"
| "eval_tm \<rho> (TmMul a b) = mv_mul (eval_tm \<rho> a) (eval_tm \<rho> b)"
| "eval_tm \<rho> (TmSub a b) = mv_sub (eval_tm \<rho> a) (eval_tm \<rho> b)"
| "eval_tm \<rho> (TmMeet a b) = meet (eval_tm \<rho> a) (eval_tm \<rho> b)"
| "eval_tm \<rho> (TmJoin a b) = join (eval_tm \<rho> a) (eval_tm \<rho> b)"
| "eval_tm \<rho> (TmMerge b l r) = merge (eval_tm \<rho> b) (eval_tm \<rho> l) (eval_tm \<rho> r)"
| "eval_tm \<rho> (TmBAdd a b) = bochvar_add (eval_tm \<rho> a) (eval_tm \<rho> b)"
| "eval_tm \<rho> (Symbol s) = \<rho> s"

definition opt_map2 :: "('a \<Rightarrow> 'b \<Rightarrow> 'c) \<Rightarrow> 'a option \<Rightarrow> 'b option \<Rightarrow> 'c option" where
  "opt_map2 f x y = Option.bind x (\<lambda>a. map_option (f a) y)"

text \<open>\<open>TernaryData::make\<close>, on a class whose children are the classes of its subterms.\<close>

fun const_of :: "'s pgrs_lang \<Rightarrow> T option" where
  "const_of LitNeg = Some Neg"
| "const_of LitZero = Some Zero"
| "const_of LitPos = Some Pos"
| "const_of (TmNeg x) = map_option mv_neg (const_of x)"
| "const_of (TmAdd a b) = opt_map2 mv_add (const_of a) (const_of b)"
| "const_of (TmMul a b) = opt_map2 mv_mul (const_of a) (const_of b)"
| "const_of (TmSub a b) = opt_map2 mv_sub (const_of a) (const_of b)"
| "const_of (TmMeet a b) = opt_map2 meet (const_of a) (const_of b)"
| "const_of (TmJoin a b) = opt_map2 join (const_of a) (const_of b)"
| "const_of (TmMerge b l r) =
     Option.bind (const_of b) (\<lambda>bv. opt_map2 (merge bv) (const_of l) (const_of r))"
| "const_of (TmBAdd a b) = opt_map2 bochvar_add (const_of a) (const_of b)"
| "const_of (Symbol s) = None"

text \<open>\<open>TernaryData::merge\<close>: the merged data and the two flags of \<open>DidMerge\<close>.\<close>

fun td_merge :: "T option \<Rightarrow> T option \<Rightarrow> T option \<times> (bool \<times> bool)" where
  "td_merge None (Some v) = (Some v, (True, False))"
| "td_merge to_c from_c = (to_c, (False, False))"

section \<open>Rewrite rules\<close>

text \<open>A rule is its name and two patterns; the symbols of a pattern are its variables.\<close>

definition pv :: "string \<Rightarrow> string pgrs_lang" where "pv s = Symbol s"

definition pgrs_rules :: "(string \<times> string pgrs_lang \<times> string pgrs_lang) list" where
  "pgrs_rules =
    [(''neg-invol'', TmNeg (TmNeg (pv ''x'')), pv ''x''),
     (''neg-zero'', TmNeg LitZero, LitZero),
     (''add-comm'', TmAdd (pv ''a'') (pv ''b''), TmAdd (pv ''b'') (pv ''a'')),
     (''add-id-l'', TmAdd LitNeg (pv ''x''), pv ''x''),
     (''add-id-r'', TmAdd (pv ''x'') LitNeg, pv ''x''),
     (''mul-comm'', TmMul (pv ''a'') (pv ''b''), TmMul (pv ''b'') (pv ''a'')),
     (''mul-id-l'', TmMul LitPos (pv ''x''), pv ''x''),
     (''mul-id-r'', TmMul (pv ''x'') LitPos, pv ''x''),
     (''annihilator'', TmAdd (pv ''x'') (TmNeg (pv ''x'')), LitPos),
     (''merge-same'', TmMerge (pv ''b'') (pv ''x'') (pv ''x''), pv ''x''),
     (''merge-comm'', TmMerge (pv ''b'') (pv ''l'') (pv ''r''), TmMerge (pv ''b'') (pv ''r'') (pv ''l'')),
     (''bochvar-l'', TmBAdd LitZero (pv ''x''), LitZero),
     (''bochvar-r'', TmBAdd (pv ''x'') LitZero, LitZero),
     (''de-morgan-add'', TmNeg (TmAdd (pv ''a'') (pv ''b'')), TmMul (TmNeg (pv ''a'')) (TmNeg (pv ''b''))),
     (''meet-neg-l'', TmMeet LitNeg (pv ''x''), LitNeg),
     (''meet-pos-l'', TmMeet LitPos (pv ''x''), pv ''x''),
     (''join-pos-l'', TmJoin LitPos (pv ''x''), LitPos),
     (''join-neg-l'', TmJoin LitNeg (pv ''x''), pv ''x'')]"

fun instance_of :: "('v \<Rightarrow> 's pgrs_lang) \<Rightarrow> 'v pgrs_lang \<Rightarrow> 's pgrs_lang" where
  "instance_of \<sigma> LitNeg = LitNeg"
| "instance_of \<sigma> LitZero = LitZero"
| "instance_of \<sigma> LitPos = LitPos"
| "instance_of \<sigma> (TmNeg x) = TmNeg (instance_of \<sigma> x)"
| "instance_of \<sigma> (TmAdd a b) = TmAdd (instance_of \<sigma> a) (instance_of \<sigma> b)"
| "instance_of \<sigma> (TmMul a b) = TmMul (instance_of \<sigma> a) (instance_of \<sigma> b)"
| "instance_of \<sigma> (TmSub a b) = TmSub (instance_of \<sigma> a) (instance_of \<sigma> b)"
| "instance_of \<sigma> (TmMeet a b) = TmMeet (instance_of \<sigma> a) (instance_of \<sigma> b)"
| "instance_of \<sigma> (TmJoin a b) = TmJoin (instance_of \<sigma> a) (instance_of \<sigma> b)"
| "instance_of \<sigma> (TmMerge b l r) = TmMerge (instance_of \<sigma> b) (instance_of \<sigma> l) (instance_of \<sigma> r)"
| "instance_of \<sigma> (TmBAdd a b) = TmBAdd (instance_of \<sigma> a) (instance_of \<sigma> b)"
| "instance_of \<sigma> (Symbol s) = \<sigma> s"

text \<open>What a sound saturation may merge: the congruence generated by the rules and by folding
  a constant subterm.\<close>

inductive derivable :: "'s pgrs_lang \<Rightarrow> 's pgrs_lang \<Rightarrow> bool" where
  d_rewrite: "(n, l, r) \<in> set pgrs_rules \<Longrightarrow> derivable (instance_of \<sigma> l) (instance_of \<sigma> r)"
| d_const: "const_of t = Some v \<Longrightarrow> derivable t (lit v)"
| d_refl: "derivable t t"
| d_sym: "derivable t u \<Longrightarrow> derivable u t"
| d_trans: "derivable t u \<Longrightarrow> derivable u w \<Longrightarrow> derivable t w"
| d_cong1: "derivable a a' \<Longrightarrow> derivable (TmNeg a) (TmNeg a')"
| d_cong2: "f \<in> {TmAdd, TmMul, TmSub, TmMeet, TmJoin, TmBAdd} \<Longrightarrow> derivable a a' \<Longrightarrow> derivable b b'
    \<Longrightarrow> derivable (f a b) (f a' b')"
| d_cong3: "derivable a a' \<Longrightarrow> derivable b b' \<Longrightarrow> derivable c c' \<Longrightarrow> derivable (TmMerge a b c) (TmMerge a' b' c')"

lemma eval_lit [simp]: "eval_tm \<rho> (lit v) = v"
  by (cases v) simp_all

lemma eval_instance: "eval_tm \<rho> (instance_of \<sigma> t) = eval_tm (\<lambda>x. eval_tm \<rho> (\<sigma> x)) t"
  by (induction t) simp_all

lemma const_of_eval: "const_of t = Some v \<Longrightarrow> eval_tm \<rho> t = v"
  by (induction t arbitrary: v) (auto simp: opt_map2_def split: Option.bind_splits)

lemma T_laws:
  "mv_neg (mv_neg x) = x" "mv_neg Zero = Zero" "mv_add Neg x = x" "mv_add x Neg = x"
  "mv_mul Pos x = x" "mv_mul x Pos = x" "mv_add x (mv_neg x) = Pos" "merge b x x = x"
  "bochvar_add Zero x = Zero" "bochvar_add x Zero = Zero"
  "mv_neg (mv_add x y) = mv_mul (mv_neg x) (mv_neg y)"
  by (cases x; cases b; cases y; simp add: merge_def median_def meet_def join_def bochvar_add_def; fail)+

lemma T_comm: "mv_add x y = mv_add y x" "mv_mul x y = mv_mul y x" "merge b x y = merge b y x"
  by (cases x; cases b; cases y; simp add: merge_def median_def meet_def join_def; fail)+

lemma rules_sound: "(n, l, r) \<in> set pgrs_rules \<Longrightarrow> eval_tm \<rho> l = eval_tm \<rho> r"
  by (auto simp: pgrs_rules_def pv_def T_laws law_simps intro: T_comm)

lemma derivable_sound: "derivable t u \<Longrightarrow> eval_tm \<rho> t = eval_tm \<rho> u"
  by (induction rule: derivable.induct) (auto simp: eval_instance const_of_eval intro: rules_sound)

text \<open>
  Saturation is sound.  All eighteen rewrite rules hold in the ternary algebra under every
  valuation of the symbols, a constant found by the analysis is the term's value, any two terms
  the rules and the analysis can merge have the same value under every valuation, and merging two
  sound analyses of one class keeps the known constant; but the merge reports no change when the
  class merged in learns a constant it did not have.
\<close>

theorem pgrs_rules_sound:
  "length pgrs_rules = 18
   \<and> (\<forall>(n, l, r) \<in> set pgrs_rules. eval_tm \<rho> (instance_of \<sigma> l) = eval_tm \<rho> (instance_of \<sigma> r))
   \<and> (\<forall>v. const_of t = Some v \<longrightarrow> eval_tm \<rho> t = v)
   \<and> (derivable t u \<longrightarrow> eval_tm \<rho> t = eval_tm \<rho> u)
   \<and> (fst (td_merge a b) = (case a of None \<Rightarrow> b | Some v \<Rightarrow> Some v))
   \<and> td_merge (Some w) None = (Some w, (False, False))"
proof -
  have "fst (td_merge a b) = (case a of None \<Rightarrow> b | Some v \<Rightarrow> Some v)"
    by (cases a; cases b) simp_all
  moreover have "length pgrs_rules = 18"
    by (simp add: pgrs_rules_def)
  ultimately show ?thesis
    using rules_sound derivable_sound const_of_eval by (auto simp: eval_instance)
qed

theorem pgrs_rules_sound_witness:
  "const_of (TmAdd LitZero LitZero :: nat pgrs_lang) = Some Pos
   \<and> derivable (TmAdd LitZero LitZero :: nat pgrs_lang) (lit Pos)
   \<and> eval_tm (\<lambda>_. Neg) (TmAdd LitZero LitZero :: nat pgrs_lang) = eval_tm (\<lambda>_. Neg) (lit Pos :: nat pgrs_lang)"
proof -
  have c: "const_of (TmAdd LitZero LitZero :: nat pgrs_lang) = Some Pos"
    by (simp add: opt_map2_def)
  then have "derivable (TmAdd LitZero LitZero :: nat pgrs_lang) (lit Pos)" by (rule d_const)
  then show ?thesis
    using c pgrs_rules_sound[of "\<lambda>_. Neg" "\<lambda>_. LitNeg" "TmAdd LitZero LitZero :: nat pgrs_lang" "lit Pos"] by blast
qed

section \<open>Port histories\<close>

datatype stab_zero_kind = Structural | Boundary | Informational
datatype port_compliance = CompPos | CompNeg | CompZero stab_zero_kind

record port_history =
  ph_state :: "T option"
  ph_transition :: "(T \<times> T) option"
  ph_alternating :: u8
  ph_arrival :: u64

definition port_history_default :: port_history where
  "port_history_default = \<lparr>ph_state = None, ph_transition = None, ph_alternating = 0, ph_arrival = 0\<rparr>"

definition port_update :: "port_history \<Rightarrow> T \<Rightarrow> u64 \<Rightarrow> port_history \<times> bool" where
  "port_update h new arr =
     (let changed = ph_state h \<noteq> Some new in
      if changed then
        (let h1 = (case (ph_state h, ph_transition h) of
               (Some last_st, Some (_, prev_to)) \<Rightarrow>
                 if last_st \<noteq> prev_to then h\<lparr>ph_alternating := sat_inc (ph_alternating h)\<rparr>
                 else h\<lparr>ph_alternating := 0\<rparr>
             | _ \<Rightarrow> h)
         in (h1\<lparr>ph_transition := map_option (\<lambda>old. (old, new)) (ph_state h),
                ph_state := Some new, ph_arrival := arr\<rparr>, changed))
      else (h, changed))"

definition is_oscillating :: "port_history \<Rightarrow> bool" where
  "is_oscillating h \<longleftrightarrow> 3 \<le> ph_alternating h"

definition port_run :: "(T \<times> u64) list \<Rightarrow> port_history" where
  "port_run us = fold (\<lambda>(v, a) h. fst (port_update h v a)) us port_history_default"

definition steady :: "port_history \<Rightarrow> bool" where
  "steady h \<longleftrightarrow> ph_alternating h = 0 \<and> (\<forall>a b. ph_transition h = Some (a, b) \<longrightarrow> ph_state h = Some b)"

lemma steady_update: "steady h \<Longrightarrow> steady (fst (port_update h v a))"
  by (cases "ph_state h"; cases "ph_transition h") (auto simp: steady_def port_update_def Let_def)

lemma steady_fold: "steady h \<Longrightarrow> steady (fold (\<lambda>(v, a) h. fst (port_update h v a)) us h)"
  by (induction us arbitrary: h) (auto simp: steady_update)

lemma run_state: "us \<noteq> [] \<Longrightarrow> ph_state (port_run us) = Some (fst (last us))"
proof (induction us rule: rev_induct)
  case (snoc u us)
  obtain v a where u: "u = (v, a)" by (cases u)
  define h where "h = port_run us"
  have "port_run (us @ [u]) = fst (port_update h v a)"
    by (simp add: port_run_def h_def u)
  then show ?case by (auto simp: u port_update_def Let_def)
qed simp

text \<open>
  The oscillation detector never fires.  The history compares the last state with the target
  of the last transition, and these are the same value, so the alternation counter is never
  incremented: whatever sequence of states a port goes through (a strict alternation between
  \<open>Pos\<close> and \<open>Neg\<close> included), \<open>is_oscillating\<close> is false afterwards.
\<close>

theorem port_history_never_oscillates:
  "\<not> is_oscillating (port_run us) \<and> ph_alternating (port_run us) = 0
   \<and> (us \<noteq> [] \<longrightarrow> ph_state (port_run us) = Some (fst (last us)))
   \<and> (\<forall>h. ph_state h = Some v \<longrightarrow> port_update h v a = (h, False))"
proof -
  have "steady (port_run us)"
    unfolding port_run_def by (rule steady_fold) (simp add: steady_def port_history_default_def)
  then show ?thesis
    using run_state[of us] by (simp add: steady_def is_oscillating_def word_le_nat_alt port_update_def Let_def)
qed

theorem port_history_never_oscillates_witness:
  "ph_state (port_run [(Pos, 1), (Neg, 2), (Pos, 3), (Neg, 4), (Pos, 5), (Neg, 6)]) = Some Neg
   \<and> \<not> is_oscillating (port_run [(Pos, 1), (Neg, 2), (Pos, 3), (Neg, 4), (Pos, 5), (Neg, 6)])"
  using port_history_never_oscillates[of "[(Pos, 1), (Neg, 2), (Pos, 3), (Neg, 4), (Pos, 5), (Neg, 6)]" Pos 0]
  by simp

section \<open>Section regions\<close>

record boundary_pin =
  bp_uid :: uid
  bp_version :: u64
  bp_value :: T

text \<open>The members are kept in insertion order; the code's set has no order.\<close>

record section_region =
  sr_members :: "uid list"
  sr_boundary :: "(uid, boundary_pin) amap"

definition pin_of :: "uid \<Rightarrow> node \<Rightarrow> boundary_pin" where
  "pin_of i n = \<lparr>bp_uid = i, bp_version = n_version n, bp_value = n_value n\<rparr>"

definition classified :: "section_region \<Rightarrow> uid \<Rightarrow> bool" where
  "classified sr i \<longleftrightarrow> i \<in> set (sr_members sr) \<or> aget (sr_boundary sr) i \<noteq> None"

definition new_deps :: "dep_registry \<Rightarrow> section_region \<Rightarrow> uid \<Rightarrow> uid list" where
  "new_deps r sr i = filter (\<lambda>d. \<not> classified sr d) (sorted_uids (deps_of r i))"

function section_bfs ::
  "graph \<Rightarrow> dep_registry \<Rightarrow> nat \<Rightarrow> (uid \<times> bool) list \<Rightarrow> section_region \<Rightarrow> section_region" where
  "section_bfs g r max_members [] sr = sr"
| "section_bfs g r max_members ((nid, is_seed) # queue) sr =
     (if classified sr nid then section_bfs g r max_members queue sr
      else case graph_node g nid of
        None \<Rightarrow> section_bfs g r max_members queue sr
      | Some n \<Rightarrow>
          if \<not> is_seed \<and> n_value n \<noteq> Zero then
            section_bfs g r max_members queue (sr\<lparr>sr_boundary := aput nid (pin_of nid n) (sr_boundary sr)\<rparr>)
          else if max_members \<le> length (sr_members sr) then sr
          else
            (let sr1 = sr\<lparr>sr_members := sr_members sr @ [nid]\<rparr> in
             section_bfs g r max_members (queue @ map (\<lambda>d. (d, False)) (new_deps r sr1 nid)) sr1))"
  by pat_completeness auto

termination section_bfs
  by (relation "measures [\<lambda>(g, r, m, q, sr). m - length (sr_members sr), \<lambda>(g, r, m, q, sr). length q]")
    auto

definition pin_dep :: "graph \<Rightarrow> uid \<Rightarrow> section_region \<Rightarrow> section_region" where
  "pin_dep g d sr =
     (if classified sr d then sr
      else case graph_node g d of
        None \<Rightarrow> sr
      | Some n \<Rightarrow> sr\<lparr>sr_boundary := aput d (pin_of d n) (sr_boundary sr)\<rparr>)"

definition pin_rest :: "graph \<Rightarrow> dep_registry \<Rightarrow> section_region \<Rightarrow> section_region" where
  "pin_rest g r sr =
     fold (\<lambda>m. fold (pin_dep g) (sorted_uids (deps_of r m))) (sr_members sr) sr"

definition build_section_region :: "uid list \<Rightarrow> graph \<Rightarrow> dep_registry \<Rightarrow> nat \<Rightarrow> section_region" where
  "build_section_region seeds g r max_members =
     pin_rest g r (section_bfs g r max_members (map (\<lambda>i. (i, True)) seeds) \<lparr>sr_members = [], sr_boundary = []\<rparr>)"

definition section_inv :: "uid list \<Rightarrow> graph \<Rightarrow> nat \<Rightarrow> section_region \<Rightarrow> bool" where
  "section_inv seeds g k sr \<longleftrightarrow> distinct (sr_members sr) \<and> length (sr_members sr) \<le> k
     \<and> (\<forall>m \<in> set (sr_members sr). aget (sr_boundary sr) m = None
          \<and> (\<exists>n. graph_node g m = Some n \<and> (m \<in> set seeds \<or> n_value n = Zero)))
     \<and> (\<forall>d p. aget (sr_boundary sr) d = Some p \<longrightarrow> (\<exists>n. graph_node g d = Some n \<and> p = pin_of d n))"

lemma section_inv_pin:
  assumes "section_inv seeds g k sr" "\<not> classified sr d" "graph_node g d = Some n"
  shows "section_inv seeds g k (sr\<lparr>sr_boundary := aput d (pin_of d n) (sr_boundary sr)\<rparr>)"
  using assms by (auto simp: section_inv_def classified_def)

lemma section_bfs_inv:
  "section_inv seeds g k sr \<Longrightarrow> (\<forall>(d, s) \<in> set q. s \<longrightarrow> d \<in> set seeds)
    \<Longrightarrow> section_inv seeds g k (section_bfs g r k q sr)"
proof (induction g r k q sr rule: section_bfs.induct)
  case (2 g r k nid is_seed queue sr)
  show ?case
  proof (cases "classified sr nid \<or> graph_node g nid = None")
    case True
    then show ?thesis using 2 by auto
  next
    case False
    then obtain n where n: "graph_node g nid = Some n" "\<not> classified sr nid" by auto
    consider "\<not> is_seed \<and> n_value n \<noteq> Zero" | "is_seed \<or> n_value n = Zero" "k \<le> length (sr_members sr)"
      | "is_seed \<or> n_value n = Zero" "length (sr_members sr) < k" by linarith
    then show ?thesis
    proof cases
      case 1
      then show ?thesis
        using 2(3)[OF n(2,1) 1] section_inv_pin[OF 2(5) n(2,1)] 2(6) n by auto
    next
      case 2
      then show ?thesis using \<open>section_inv seeds g k sr\<close> n by auto
    next
      case 3
      let ?sr = "sr\<lparr>sr_members := sr_members sr @ [nid]\<rparr>"
      have "section_inv seeds g k ?sr"
        using 2(5,6) 3 n by (auto simp: section_inv_def classified_def)
      then show ?thesis using 2(4)[OF n(2,1)] 2(6) 3 n by (auto simp: Let_def)
    qed
  qed
qed simp

lemma pin_dep_post:
  assumes "section_inv seeds g k sr"
  shows "section_inv seeds g k (pin_dep g d sr) \<and> sr_members (pin_dep g d sr) = sr_members sr
    \<and> (classified sr e \<longrightarrow> classified (pin_dep g d sr) e)
    \<and> (graph_node g d \<noteq> None \<longrightarrow> classified (pin_dep g d sr) d)"
  using assms section_inv_pin[OF assms]
  by (auto simp: pin_dep_def classified_def split: option.split)

lemma pin_list_post:
  assumes "section_inv seeds g k sr"
  shows "section_inv seeds g k (fold (pin_dep g) ds sr) \<and> sr_members (fold (pin_dep g) ds sr) = sr_members sr
    \<and> (classified sr e \<longrightarrow> classified (fold (pin_dep g) ds sr) e)
    \<and> (\<forall>d \<in> set ds. graph_node g d \<noteq> None \<longrightarrow> classified (fold (pin_dep g) ds sr) d)"
  using assms
proof (induction ds arbitrary: sr e)
  case (Cons d ds)
  have p: "section_inv seeds g k (pin_dep g d sr)" using pin_dep_post[OF Cons.prems] by blast
  show ?case
    using Cons.IH[OF p] pin_dep_post[OF Cons.prems] by (simp add: Ball_def)
qed simp

lemma pin_members_post:
  assumes "section_inv seeds g k sr"
  shows "section_inv seeds g k (fold (\<lambda>m. fold (pin_dep g) (sorted_uids (deps_of r m))) ms sr)
    \<and> sr_members (fold (\<lambda>m. fold (pin_dep g) (sorted_uids (deps_of r m))) ms sr) = sr_members sr
    \<and> (classified sr e \<longrightarrow> classified (fold (\<lambda>m. fold (pin_dep g) (sorted_uids (deps_of r m))) ms sr) e)
    \<and> (\<forall>m \<in> set ms. \<forall>d \<in> deps_of r m. graph_node g d \<noteq> None
        \<longrightarrow> classified (fold (\<lambda>m. fold (pin_dep g) (sorted_uids (deps_of r m))) ms sr) d)"
  using assms
proof (induction ms arbitrary: sr e)
  case (Cons m ms)
  let ?s = "fold (pin_dep g) (sorted_uids (deps_of r m)) sr"
  have p: "section_inv seeds g k ?s" using pin_list_post[OF Cons.prems] by blast
  show ?case
    using Cons.IH[OF p] pin_list_post[OF Cons.prems, of "sorted_uids (deps_of r m)"]
    by (simp add: Ball_def)
qed simp

lemma section_region_facts:
  "section_inv seeds g k (build_section_region seeds g r k)
   \<and> (\<forall>m \<in> set (sr_members (build_section_region seeds g r k)). \<forall>d \<in> deps_of r m.
        graph_node g d \<noteq> None \<longrightarrow> classified (build_section_region seeds g r k) d)"
proof -
  let ?sr = "section_bfs g r k (map (\<lambda>i. (i, True)) seeds) \<lparr>sr_members = [], sr_boundary = []\<rparr>"
  have "section_inv seeds g k ?sr"
    by (rule section_bfs_inv) (auto simp: section_inv_def)
  then show ?thesis
    using pin_members_post[of seeds g k ?sr r "sr_members ?sr"]
    by (simp add: build_section_region_def pin_rest_def)
qed

text \<open>
  Growing a section around seed nodes yields at most \<open>max_members\<close> distinct members, each an
  existing node that is a seed or holds \<open>Zero\<close>; no member is pinned; every pin is an existing node
  with its current version and value; and every existing dependency of a member is a member or a
  pin, so the section is cut off from the rest of the graph by its pins.
\<close>

theorem section_region_correct:
  assumes sr: "sr = build_section_region seeds g r k"
  shows "distinct (sr_members sr) \<and> length (sr_members sr) \<le> k
   \<and> (\<forall>m \<in> set (sr_members sr). aget (sr_boundary sr) m = None
        \<and> (\<exists>n. graph_node g m = Some n \<and> (m \<in> set seeds \<or> n_value n = Zero))
        \<and> (\<forall>d \<in> deps_of r m. graph_node g d = None \<or> d \<in> set (sr_members sr) \<or> aget (sr_boundary sr) d \<noteq> None))
   \<and> (\<forall>d p. aget (sr_boundary sr) d = Some p
        \<longrightarrow> (\<exists>n. graph_node g d = Some n \<and> p = \<lparr>bp_uid = d, bp_version = n_version n, bp_value = n_value n\<rparr>))"
proof -
  have i: "section_inv seeds g k sr" "\<forall>m \<in> set (sr_members sr). \<forall>d \<in> deps_of r m. graph_node g d \<noteq> None \<longrightarrow> classified sr d"
    using section_region_facts[of seeds g k r] unfolding sr by blast+
  have "\<forall>m \<in> set (sr_members sr). \<forall>d \<in> deps_of r m. graph_node g d = None \<or> d \<in> set (sr_members sr)
      \<or> aget (sr_boundary sr) d \<noteq> None"
    using i(2) by (metis classified_def)
  with i(1) show ?thesis by (auto simp: section_inv_def pin_of_def)
qed

definition duo_graph :: graph where
  "duo_graph = add_node (add_node graph_new (node_input 1 ''in'')) (node_computed 2 ''not'' MvNeg)"

definition duo_deps :: dep_registry where
  "duo_deps = registry_subscribe registry_empty 1 2"

lemma duo_facts:
  "graph_node duo_graph 1 = Some (node_input 1 ''in'')"
  "graph_node duo_graph 2 = Some (node_computed 2 ''not'' MvNeg)"
  "deps_of duo_deps 2 = {1}" "ordered_deps_of duo_deps 2 = [1]"
  by (simp_all add: duo_graph_def graph_node_def add_node_def node_input_def node_computed_def
      duo_deps_def registry_subscribe_def deps_of_def registry_empty_def ordered_deps_of_def
      subscribe_with_meta_def bump_epoch_def Let_def)

lemma duo_section:
  "build_section_region [2] duo_graph duo_deps 64
     = \<lparr>sr_members = [2], sr_boundary = [(1, \<lparr>bp_uid = 1, bp_version = 0, bp_value = Neg\<rparr>)]\<rparr>"
  by (simp add: build_section_region_def pin_rest_def duo_facts classified_def new_deps_def pin_dep_def
      Let_def aput_absent pin_of_def node_input_def aget_def)

theorem section_region_correct_witness:
  "sr_members (build_section_region [2] duo_graph duo_deps 64) = [2]
   \<and> (\<exists>n. graph_node duo_graph 2 = Some n \<and> aget (sr_boundary (build_section_region [2] duo_graph duo_deps 64)) 1 \<noteq> None)"
  using section_region_correct[OF refl, of "[2]" duo_graph duo_deps 64]
  by (auto simp: duo_section duo_facts)

section \<open>Expressions for a section\<close>

datatype sym = BndSym uid u64 | MuSym uid

type_synonym sterm = "sym pgrs_lang"

definition symbol_name :: "boundary_pin \<Rightarrow> sym" where
  "symbol_name p = BndSym (bp_uid p) (bp_version p)"

text \<open>\<open>iter().reduce(f).unwrap_or_else(LitNeg)\<close>\<close>

definition reduce_or_neg :: "(sterm \<Rightarrow> sterm \<Rightarrow> sterm) \<Rightarrow> sterm list \<Rightarrow> sterm" where
  "reduce_or_neg f ts = (case ts of [] \<Rightarrow> LitNeg | t # ts' \<Rightarrow> foldl f t ts')"

fun rule_to_node :: "compute_rule \<Rightarrow> sterm list \<Rightarrow> sterm" where
  "rule_to_node r ts =
     (let dep = (\<lambda>i. case slice_get ts i of Some t \<Rightarrow> t | None \<Rightarrow> LitNeg) in
      case r of
        Identity_rule \<Rightarrow> dep 0
      | MvNeg \<Rightarrow> TmNeg (dep 0)
      | MvAdd \<Rightarrow> TmAdd (dep 0) (dep 1)
      | MvMul \<Rightarrow> TmMul (dep 0) (dep 1)
      | MvSub \<Rightarrow> TmSub (dep 0) (dep 1)
      | Merge \<Rightarrow> TmMerge (dep 0) (dep 1) (dep 2)
      | MeetAll \<Rightarrow> reduce_or_neg TmMeet ts
      | JoinAny \<Rightarrow> reduce_or_neg TmJoin ts
      | BochvarFold \<Rightarrow> reduce_or_neg TmBAdd ts
      | PowerProduct \<Rightarrow> TmMul (dep 0) (dep 1))"

type_synonym memo = "uid \<Rightarrow> sterm option"

text \<open>A dependency outside the section: its pin, its literal value, or \<open>neg\<close>.\<close>

definition external_term :: "section_region \<Rightarrow> graph \<Rightarrow> uid \<Rightarrow> sterm" where
  "external_term sr g d =
     (case aget (sr_boundary sr) d of
        Some p \<Rightarrow> Symbol (symbol_name p)
      | None \<Rightarrow> (case graph_node g d of Some n \<Rightarrow> lit (n_value n) | None \<Rightarrow> LitNeg))"

text \<open>\<open>build_node_expr\<close> and its loop over the dependencies.  The first argument bounds the depth of
  the recursion; \<open>None\<close> is running out of it.  The set \<open>on_stack\<close> is restored on every return, so
  it is passed down only.\<close>

fun build_node_expr ::
  "nat \<Rightarrow> section_region \<Rightarrow> graph \<Rightarrow> dep_registry \<Rightarrow> uid \<Rightarrow> memo \<Rightarrow> uid set \<Rightarrow> (sterm \<times> memo) option"
and build_dep_exprs ::
  "nat \<Rightarrow> section_region \<Rightarrow> graph \<Rightarrow> dep_registry \<Rightarrow> uid list \<Rightarrow> memo \<Rightarrow> uid set \<Rightarrow> (sterm list \<times> memo) option"
where
  "build_node_expr 0 sr g r i memo on_stack = None"
| "build_node_expr (Suc k) sr g r i memo on_stack =
     (case memo i of
        Some cached \<Rightarrow> Some (cached, memo)
      | None \<Rightarrow>
          if i \<in> on_stack then
            (let t = Symbol (MuSym i) in Some (t, memo(i \<mapsto> t)))
          else case aget (sr_boundary sr) i of
            Some p \<Rightarrow> (let t = Symbol (symbol_name p) in Some (t, memo(i \<mapsto> t)))
          | None \<Rightarrow>
              (case graph_node g i of
                 None \<Rightarrow> Some (LitNeg, memo(i \<mapsto> LitNeg))
               | Some n \<Rightarrow>
                   (case n_kind n of
                      Input \<Rightarrow> (let t = lit (n_value n) in Some (t, memo(i \<mapsto> t)))
                    | Computed rule \<Rightarrow>
                        (case build_dep_exprs k sr g r (ordered_deps_of r i) memo (insert i on_stack) of
                           None \<Rightarrow> None
                         | Some (ts, memo') \<Rightarrow>
                             (let t = rule_to_node rule ts in Some (t, memo'(i \<mapsto> t)))))))"
| "build_dep_exprs k sr g r [] memo on_stack = Some ([], memo)"
| "build_dep_exprs k sr g r (d # ds) memo on_stack =
     (case (if d \<in> set (sr_members sr) then build_node_expr k sr g r d memo on_stack
            else Some (external_term sr g d, memo)) of
        None \<Rightarrow> None
      | Some (t, memo') \<Rightarrow>
          (case build_dep_exprs k sr g r ds memo' on_stack of
             None \<Rightarrow> None
           | Some (ts, memo'') \<Rightarrow> Some (t # ts, memo'')))"

text \<open>\<open>build_region_exprs\<close>: the members in ascending order, sharing one memo.\<close>

fun build_members :: "section_region \<Rightarrow> graph \<Rightarrow> dep_registry \<Rightarrow> uid list \<Rightarrow> memo \<Rightarrow> memo option" where
  "build_members sr g r [] memo = Some memo"
| "build_members sr g r (m # ms) memo =
     (case build_node_expr (Suc (length (sr_members sr))) sr g r m memo {} of
        None \<Rightarrow> None
      | Some (_, memo') \<Rightarrow> build_members sr g r ms memo')"

definition build_region_exprs :: "section_region \<Rightarrow> graph \<Rightarrow> dep_registry \<Rightarrow> memo option" where
  "build_region_exprs sr g r = build_members sr g r (sort (sr_members sr)) Map.empty"

section \<open>Accepting a section\<close>

text \<open>The scan over the root constants: early exit on two different constants.\<close>

fun agree_scan :: "T option \<Rightarrow> bool \<Rightarrow> T option list \<Rightarrow> (T option \<times> bool) option" where
  "agree_scan agreed all_resolved [] = Some (agreed, all_resolved)"
| "agree_scan agreed all_resolved (c # cs) =
     (case c of
        None \<Rightarrow> agree_scan agreed False cs
      | Some Zero \<Rightarrow> agree_scan agreed False cs
      | Some v \<Rightarrow>
          (case agreed of
             None \<Rightarrow> agree_scan (Some v) all_resolved cs
           | Some existing \<Rightarrow> if existing = v then agree_scan agreed all_resolved cs else None))"

definition check_port_compliance ::
  "section_region \<Rightarrow> T option list \<Rightarrow> (uid, port_history) amap \<Rightarrow> port_compliance" where
  "check_port_compliance sr roots histories =
     (case agree_scan None True roots of
        None \<Rightarrow> CompZero Structural
      | Some (agreed, all_resolved) \<Rightarrow>
          (case (all_resolved, agreed) of
             (True, Some Pos) \<Rightarrow> CompPos
           | (True, Some Neg) \<Rightarrow> CompNeg
           | (True, Some Zero) \<Rightarrow> CompZero Structural
           | _ \<Rightarrow>
               if \<exists>p \<in> set (sr_boundary sr). bp_value (snd p) = Zero then CompZero Boundary
               else if \<exists>h \<in> set histories. is_oscillating (snd h) then CompZero Boundary
               else CompZero Structural))"

fun first_some :: "'a option list \<Rightarrow> 'a option" where
  "first_some [] = None"
| "first_some (None # xs) = first_some xs"
| "first_some (Some x # xs) = Some x"

type_synonym saturation = "sterm list \<Rightarrow> T option list"

text \<open>\<open>saturate\<close> maps the root expressions to the constants of their classes when the runner stops.\<close>

definition stabilize :: "saturation \<Rightarrow> sterm list \<Rightarrow> T option" where
  "stabilize saturate exprs = first_some (saturate exprs)"

definition member_roots :: "section_region \<Rightarrow> memo \<Rightarrow> sterm list" where
  "member_roots sr memo = List.map_filter memo (sort (sr_members sr))"

definition stabilize_section ::
  "saturation \<Rightarrow> section_region \<Rightarrow> graph \<Rightarrow> dep_registry \<Rightarrow> (uid, port_history) amap
    \<Rightarrow> (T option \<times> port_compliance) option" where
  "stabilize_section saturate sr g r histories =
     (if sr_members sr = [] then Some (None, CompZero Structural)
      else case build_region_exprs sr g r of
        None \<Rightarrow> None
      | Some memo \<Rightarrow>
          (let roots = saturate (member_roots sr memo);
               compliance = check_port_compliance sr roots histories
           in case compliance of
                CompZero k \<Rightarrow> Some (None, compliance)
              | _ \<Rightarrow> Some (first_some roots, compliance)))"

definition stabilize_nodes :: "saturation \<Rightarrow> uid list \<Rightarrow> graph \<Rightarrow> dep_registry \<Rightarrow> T option option" where
  "stabilize_nodes saturate ids g r =
     map_option (\<lambda>(v, c). case c of CompZero _ \<Rightarrow> None | _ \<Rightarrow> v)
       (stabilize_section saturate (build_section_region ids g r 64) g r [])"

section \<open>Soundness of stabilization\<close>

text \<open>What \<open>egg\<close> documents: one class per root, and classes merged only by the rules and the
  analysis.\<close>

definition sound_saturation :: "saturation \<Rightarrow> bool" where
  "sound_saturation saturate \<longleftrightarrow> (\<forall>ts. length (saturate ts) = length ts
     \<and> (\<forall>i < length ts. \<forall>v. saturate ts ! i = Some v \<longrightarrow> derivable (ts ! i) (lit v)))"

text \<open>The value a rule gives with absent operands read as \<open>Neg\<close> and every empty aggregate \<open>Neg\<close>.\<close>

definition rule_padded :: "compute_rule \<Rightarrow> T list \<Rightarrow> T" where
  "rule_padded r vs =
     (if vs = [] \<and> r = MeetAll then Neg
      else or_default Neg (rule_eval r (vs @ replicate (rule_arity r - length vs) Neg)))"

definition outside_value :: "section_region \<Rightarrow> graph \<Rightarrow> (uid \<Rightarrow> T) \<Rightarrow> uid \<Rightarrow> T" where
  "outside_value sr g pins d =
     (if aget (sr_boundary sr) d \<noteq> None then pins d
      else case graph_node g d of Some n \<Rightarrow> n_value n | None \<Rightarrow> Neg)"

text \<open>A solution of the section's equations, for given values of its pins.\<close>

definition section_solution ::
  "section_region \<Rightarrow> graph \<Rightarrow> dep_registry \<Rightarrow> (uid \<Rightarrow> T) \<Rightarrow> (uid \<Rightarrow> T) \<Rightarrow> bool" where
  "section_solution sr g r pins val \<longleftrightarrow> (\<forall>m \<in> set (sr_members sr). \<forall>n. graph_node g m = Some n \<longrightarrow>
     val m = (case n_kind n of
        Input \<Rightarrow> n_value n
      | Computed rule \<Rightarrow> rule_padded rule
          (map (\<lambda>d. if d \<in> set (sr_members sr) then val d else outside_value sr g pins d) (ordered_deps_of r m))))"

lemma eval_foldl:
  "(\<And>a b. eval_tm \<rho> (c a b) = f (eval_tm \<rho> a) (eval_tm \<rho> b))
    \<Longrightarrow> eval_tm \<rho> (foldl c t ts) = foldl f (eval_tm \<rho> t) (map (eval_tm \<rho>) ts)"
  by (induction ts arbitrary: t) simp_all

lemma slice_get_cons:
  "slice_get [] i = None" "slice_get (x # xs) 0 = Some x" "slice_get (x # xs) (Suc i) = slice_get xs i"
  by (simp_all add: slice_get_def)

lemma eval_rule_to_node:
  "eval_tm \<rho> (rule_to_node r ts) = rule_padded r (map (eval_tm \<rho>) ts)"
proof -
  consider "ts = []" | a where "ts = [a]" | a b where "ts = [a, b]" | a b c us where "ts = a # b # c # us"
    by (metis neq_Nil_conv)
  then show ?thesis
    by cases (cases r; simp add: rule_padded_def reduce_or_neg_def Let_def meet_all_foldl join_any_foldl
        bochvar_fold_add_foldl eval_foldl[where f = meet] eval_foldl[where f = join]
        eval_foldl[where f = bochvar_add] law_simps slice_get_cons numeral_2_eq_2 numeral_3_eq_3)+
qed

text \<open>The pins' symbols read the pins' values, the cycle symbols the solution.\<close>

definition section_env :: "(uid \<Rightarrow> T) \<Rightarrow> (uid \<Rightarrow> T) \<Rightarrow> sym \<Rightarrow> T" where
  "section_env pins val s = (case s of BndSym u v \<Rightarrow> pins u | MuSym u \<Rightarrow> val u)"

definition section_ok :: "section_region \<Rightarrow> graph \<Rightarrow> bool" where
  "section_ok sr g \<longleftrightarrow> (\<forall>m \<in> set (sr_members sr). aget (sr_boundary sr) m = None \<and> graph_node g m \<noteq> None)
     \<and> (\<forall>d p. aget (sr_boundary sr) d = Some p \<longrightarrow> bp_uid p = d)"

definition memo_ok :: "section_region \<Rightarrow> (uid \<Rightarrow> T) \<Rightarrow> (uid \<Rightarrow> T) \<Rightarrow> memo \<Rightarrow> bool" where
  "memo_ok sr pins val memo \<longleftrightarrow>
     (\<forall>i t. memo i = Some t \<longrightarrow> i \<in> set (sr_members sr) \<and> eval_tm (section_env pins val) t = val i)"

lemma external_value:
  "section_ok sr g \<Longrightarrow> eval_tm (section_env pins val) (external_term sr g d) = outside_value sr g pins d"
  by (auto simp: external_term_def outside_value_def section_env_def symbol_name_def section_ok_def
      split: option.split)

abbreviation dep_value :: "section_region \<Rightarrow> graph \<Rightarrow> (uid \<Rightarrow> T) \<Rightarrow> (uid \<Rightarrow> T) \<Rightarrow> uid \<Rightarrow> T" where
  "dep_value sr g pins val d \<equiv> (if d \<in> set (sr_members sr) then val d else outside_value sr g pins d)"

lemma memo_ok_put:
  "memo_ok sr pins val memo \<Longrightarrow> i \<in> set (sr_members sr) \<Longrightarrow> eval_tm (section_env pins val) t = val i
    \<Longrightarrow> memo_ok sr pins val (memo(i \<mapsto> t))"
  by (simp add: memo_ok_def)

lemma build_value:
  shows "section_ok sr g \<and> section_solution sr g r pins val \<and> memo_ok sr pins val memo \<and> i \<in> set (sr_members sr)
      \<Longrightarrow> build_node_expr k sr g r i memo stack = Some (t, memo')
      \<Longrightarrow> memo_ok sr pins val memo' \<and> memo' i = Some t \<and> eval_tm (section_env pins val) t = val i
        \<and> dom memo \<subseteq> dom memo'"
    and "section_ok sr g \<and> section_solution sr g r pins val \<and> memo_ok sr pins val memo
      \<Longrightarrow> build_dep_exprs k sr g r ds memo stack = Some (ts, memo')
      \<Longrightarrow> memo_ok sr pins val memo' \<and> dom memo \<subseteq> dom memo'
        \<and> map (eval_tm (section_env pins val)) ts = map (dep_value sr g pins val) ds"
proof (induction k sr g r i memo stack and k sr g r ds memo stack arbitrary: t memo' and ts memo'
    rule: build_node_expr_build_dep_exprs.induct)
  case (2 k sr g r i memo stack)
  note ok = 2(2) and run = 2(3)
  show ?case
  proof (cases "memo i")
    case (Some c)
    then show ?thesis using run ok by (auto simp: memo_ok_def)
  next
    case m: None
    show ?thesis
    proof (cases "i \<in> stack")
      case True
      then show ?thesis using run ok m by (auto simp: Let_def section_env_def memo_ok_def split: if_splits)
    next
      case s: False
      obtain n where n: "aget (sr_boundary sr) i = None" "graph_node g i = Some n"
        using ok by (auto simp: section_ok_def)
      have v: "val i = (case n_kind n of Input \<Rightarrow> n_value n
          | Computed rule \<Rightarrow> rule_padded rule (map (dep_value sr g pins val) (ordered_deps_of r i)))"
        using ok n(2) by (simp add: section_solution_def)
      show ?thesis
      proof (cases "n_kind n")
        case Input
        then show ?thesis using run ok m s n v by (auto simp: Let_def memo_ok_def split: if_splits)
      next
        case (Computed rule)
        obtain us m1 where b: "build_dep_exprs k sr g r (ordered_deps_of r i) memo (insert i stack) = Some (us, m1)"
          "t = rule_to_node rule us" "memo' = m1(i \<mapsto> t)"
          using run m s n Computed by (auto simp: Let_def split: option.splits)
        have "memo_ok sr pins val m1 \<and> dom memo \<subseteq> dom m1
            \<and> map (eval_tm (section_env pins val)) us = map (dep_value sr g pins val) (ordered_deps_of r i)"
          using 2(1)[OF m s n Computed _ b(1)] ok by blast
        then show ?thesis
          using ok v Computed by (auto simp: b(2,3) eval_rule_to_node memo_ok_def simp del: rule_to_node.simps split: if_splits)
      qed
    qed
  qed
next
  case (4 k sr g r d ds memo stack)
  obtain t m1 us where b: "(if d \<in> set (sr_members sr) then build_node_expr k sr g r d memo stack
            else Some (external_term sr g d, memo)) = Some (t, m1)"
    "build_dep_exprs k sr g r ds m1 stack = Some (us, memo')" "ts = t # us"
    using 4(4) by (auto split: option.splits prod.splits)
  have d: "memo_ok sr pins val m1 \<and> dom memo \<subseteq> dom m1 \<and> eval_tm (section_env pins val) t = dep_value sr g pins val d"
    using b(1) 4(1)[of t m1] 4(3) external_value by (auto split: if_splits)
  then show ?case
    using 4(2)[OF b(1) refl _ b(2)] 4(3) b(3) by auto
qed simp_all

text \<open>The depth bound suffices: every nested member is off the stack and then on it.\<close>

lemma build_total:
  shows "set stack \<subseteq> set (sr_members sr) \<and> distinct stack \<Longrightarrow> i \<in> set (sr_members sr)
      \<Longrightarrow> length (sr_members sr) < k + length stack \<Longrightarrow> build_node_expr k sr g r i memo (set stack) \<noteq> None"
    and "set stack \<subseteq> set (sr_members sr) \<and> distinct stack
      \<Longrightarrow> length (sr_members sr) < k + length stack \<Longrightarrow> build_dep_exprs k sr g r ds memo (set stack) \<noteq> None"
proof (induction k arbitrary: i memo ds stack)
  case 0
  have "length stack \<le> length (sr_members sr)" if "set stack \<subseteq> set (sr_members sr) \<and> distinct stack" for stack
    using that by (metis card_length card_mono distinct_card finite_set le_trans)
  then show "length (sr_members sr) < 0 + length stack \<Longrightarrow> build_node_expr 0 sr g r i memo (set stack) \<noteq> None"
    and "length (sr_members sr) < 0 + length stack \<Longrightarrow> build_dep_exprs 0 sr g r ds memo (set stack) \<noteq> None"
    if "set stack \<subseteq> set (sr_members sr) \<and> distinct stack" for i memo ds stack
    using that by (metis add_0 linorder_not_less)+
next
  case (Suc k)
  have node: "build_node_expr (Suc k) sr g r i memo (set stack) \<noteq> None"
    if s: "set stack \<subseteq> set (sr_members sr) \<and> distinct stack" "i \<in> set (sr_members sr)"
      "length (sr_members sr) < Suc k + length stack" for i memo stack
  proof (cases "i \<in> set stack")
    case False
    then have "build_dep_exprs k sr g r ds memo (insert i (set stack)) \<noteq> None" for ds memo
      using Suc.IH(2)[of "i # stack" ds memo] s by simp
    then obtain us m1 where "build_dep_exprs k sr g r (ordered_deps_of r i) memo (insert i (set stack)) = Some (us, m1)"
      by fast
    with False show ?thesis
      by (simp add: Let_def split: option.split node_kind.split)
  qed (simp split: option.split add: Let_def)
  have deps: "build_dep_exprs (Suc k) sr g r ds memo (set stack) \<noteq> None"
    if s: "set stack \<subseteq> set (sr_members sr) \<and> distinct stack"
      "length (sr_members sr) < Suc k + length stack" for ds memo stack
  proof (induction ds arbitrary: memo)
    case (Cons d ds)
    obtain t m1 where "(if d \<in> set (sr_members sr) then build_node_expr (Suc k) sr g r d memo (set stack)
        else Some (external_term sr g d, memo)) = Some (t, m1)"
      using node[OF s(1) _ s(2), of d memo] by (cases "d \<in> set (sr_members sr)") (auto simp del: build_node_expr.simps)
    moreover obtain us m2 where "build_dep_exprs (Suc k) sr g r ds m1 (set stack) = Some (us, m2)"
      using Cons.IH[of m1] by fast
    ultimately show ?case
      by (simp del: build_node_expr.simps)
  qed simp
  show "set stack \<subseteq> set (sr_members sr) \<and> distinct stack \<Longrightarrow> i \<in> set (sr_members sr)
      \<Longrightarrow> length (sr_members sr) < Suc k + length stack \<Longrightarrow> build_node_expr (Suc k) sr g r i memo (set stack) \<noteq> None"
    and "set stack \<subseteq> set (sr_members sr) \<and> distinct stack
      \<Longrightarrow> length (sr_members sr) < Suc k + length stack \<Longrightarrow> build_dep_exprs (Suc k) sr g r ds memo (set stack) \<noteq> None"
    for i memo ds stack
    using node deps by blast+
qed

lemma build_members_total:
  "set ms \<subseteq> set (sr_members sr) \<Longrightarrow> build_members sr g r ms memo \<noteq> None"
proof (induction ms arbitrary: memo)
  case (Cons m ms)
  have "build_node_expr (Suc (length (sr_members sr))) sr g r m memo (set []) \<noteq> None"
    using Cons.prems by (intro build_total(1)) auto
  then obtain t memo' where b: "build_node_expr (Suc (length (sr_members sr))) sr g r m memo {} = Some (t, memo')"
    by (auto simp del: build_node_expr.simps)
  then show ?case using Cons by (simp del: build_node_expr.simps)
qed simp

lemma build_members_value:
  assumes "section_ok sr g" "section_solution sr g r pins val"
  shows "memo_ok sr pins val memo \<Longrightarrow> set ms \<subseteq> set (sr_members sr) \<Longrightarrow> build_members sr g r ms memo = Some memo'
    \<Longrightarrow> memo_ok sr pins val memo' \<and> dom memo \<union> set ms \<subseteq> dom memo'"
proof (induction ms arbitrary: memo)
  case (Cons m ms)
  obtain t m1 where b: "build_node_expr (Suc (length (sr_members sr))) sr g r m memo {} = Some (t, m1)"
    "build_members sr g r ms m1 = Some memo'"
    using Cons.prems(3) by (auto simp del: build_node_expr.simps split: option.splits prod.splits)
  have v: "memo_ok sr pins val m1 \<and> m1 m = Some t \<and> dom memo \<subseteq> dom m1"
    using build_value(1)[OF _ b(1)] assms Cons.prems by auto
  then show ?case
    using Cons.IH[OF _ _ b(2)] Cons.prems(2) by (auto simp: subset_iff)
qed auto

lemma agree_scan_all:
  "agree_scan a al cs = Some (b, True) \<Longrightarrow> al \<and> (\<forall>c \<in> set cs. c = b) \<and> (a \<noteq> None \<longrightarrow> a = b)"
  by (induction a al cs rule: agree_scan.induct) (auto split: option.splits T.splits if_splits)

lemma first_some_all: "cs \<noteq> [] \<Longrightarrow> \<forall>c \<in> set cs. c = Some v \<Longrightarrow> first_some cs = Some v"
  by (cases cs) auto

lemma compliance_accept:
  assumes "check_port_compliance sr cs hs = c" "c = CompPos \<or> c = CompNeg"
  shows "cs \<noteq> [] \<and> (\<forall>x \<in> set cs. x = Some (if c = CompPos then Pos else Neg))"
proof -
  have "cs \<noteq> []"
    using assms by (auto simp: check_port_compliance_def split: if_splits)
  obtain b where s: "agree_scan None True cs = Some (b, True)" "b = Some (if c = CompPos then Pos else Neg)"
    using assms by (auto simp: check_port_compliance_def split: option.splits bool.splits T.splits if_splits)
  with \<open>cs \<noteq> []\<close> show ?thesis using agree_scan_all[OF s(1)] by simp
qed

lemma roots_all:
  assumes "set (sr_members sr) \<subseteq> dom memo"
  shows "member_roots sr memo = map (\<lambda>m. the (memo m)) (sort (sr_members sr))"
proof -
  have "List.map_filter memo xs = map (\<lambda>m. the (memo m)) xs" if "set xs \<subseteq> dom memo" for xs
    using that by (induction xs) (auto simp: List.map_filter_def)
  then show ?thesis using assms by (simp add: member_roots_def)
qed

lemma section_accept:
  assumes ok: "section_ok sr g" and sound: "sound_saturation saturate"
    and acc: "stabilize_section saturate sr g r hs = Some (res, c)" "c = CompPos \<or> c = CompNeg"
  shows "res = Some (if c = CompPos then Pos else Neg)"
    and "section_solution sr g r pins val \<Longrightarrow> m \<in> set (sr_members sr)
      \<Longrightarrow> val m = (if c = CompPos then Pos else Neg)"
proof -
  let ?v = "if c = CompPos then Pos else Neg"
  obtain memo where b: "build_region_exprs sr g r = Some memo" "sr_members sr \<noteq> []"
    "check_port_compliance sr (saturate (member_roots sr memo)) hs = c"
    "res = first_some (saturate (member_roots sr memo))"
    using acc by (auto simp: stabilize_section_def Let_def split: if_splits option.splits port_compliance.splits)
  have all: "\<forall>x \<in> set (saturate (member_roots sr memo)). x = Some ?v"
    and ne: "saturate (member_roots sr memo) \<noteq> []"
    using compliance_accept[OF b(3) acc(2)] by blast+
  have len: "length (saturate (member_roots sr memo)) = length (member_roots sr memo)"
    using sound by (simp add: sound_saturation_def)
  note build = b(1)[unfolded build_region_exprs_def]
  show "res = Some ?v"
    using first_some_all[OF ne all] b(4) by simp
  show "val m = ?v" if sol: "section_solution sr g r pins val" and m: "m \<in> set (sr_members sr)"
  proof -
    have mv: "memo_ok sr pins val memo" "set (sr_members sr) \<subseteq> dom memo"
      using build_members_value[OF ok sol _ _ build] by (auto simp: memo_ok_def)
    let ?ms = "sort (sr_members sr)"
    obtain j where j: "j < length ?ms" "?ms ! j = m" using m by (metis in_set_conv_nth set_sort)
    have r: "member_roots sr memo ! j = the (memo m)" "j < length (member_roots sr memo)"
      using j by (simp_all add: roots_all[OF mv(2)])
    have "saturate (member_roots sr memo) ! j = Some ?v"
      using all r(2) len by (metis nth_mem)
    then have "derivable (the (memo m)) (lit ?v)"
      using sound r by (metis sound_saturation_def)
    from derivable_sound[OF this, of "section_env pins val"]
    have "eval_tm (section_env pins val) (the (memo m)) = ?v" by simp
    moreover have "eval_tm (section_env pins val) (the (memo m)) = val m"
      using mv m by (auto simp: memo_ok_def)
    ultimately show ?thesis by simp
  qed
qed

lemma section_ok_build: "section_ok (build_section_region seeds g r k) g"
proof -
  have i: "section_inv seeds g k (build_section_region seeds g r k)"
    using section_region_facts by blast
  have "bp_uid p = d" if "aget (sr_boundary (build_section_region seeds g r k)) d = Some p" for d p
    using i that unfolding section_inv_def by (metis boundary_pin.select_convs(1) pin_of_def)
  with i show ?thesis by (auto simp: section_ok_def section_inv_def)
qed

lemma stabilize_total: "stabilize_section saturate sr g r hs \<noteq> None"
proof -
  have "build_region_exprs sr g r \<noteq> None"
    unfolding build_region_exprs_def by (rule build_members_total) simp
  then show ?thesis
    by (auto simp: stabilize_section_def Let_def split: port_compliance.split)
qed

text \<open>
  C35. An accepted section has only the accepted solution.  Stabilizing the section grown around
  any seeds always ends (building its expressions never recurses deeper than its members), and if
  the section is accepted then the returned value is \<open>Pos\<close> or \<open>Neg\<close> as the verdict says and every
  assignment of values to the members that satisfies their compute rules, whatever the values of
  the pins and around cycles too, gives every member that value; this for any saturation engine
  that merges only by the rules and by constant folding.
\<close>

theorem stabilize_section_sound:
  assumes sr: "sr = build_section_region seeds g r k"
  shows "stabilize_section saturate sr g r hs \<noteq> None
   \<and> (sound_saturation saturate \<and> stabilize_section saturate sr g r hs = Some (res, c) \<and> (c = CompPos \<or> c = CompNeg)
       \<longrightarrow> res = Some (if c = CompPos then Pos else Neg)
         \<and> (\<forall>pins val. section_solution sr g r pins val
              \<longrightarrow> (\<forall>m \<in> set (sr_members sr). val m = (if c = CompPos then Pos else Neg))))"
proof -
  have "section_ok sr g" unfolding sr by (rule section_ok_build)
  from section_accept[OF this] show ?thesis using stabilize_total by blast
qed

text \<open>An engine that applies no rewrite and reports the constants of the analysis is sound.  It
  accepts the section of an input that holds \<open>Pos\<close> and a node that copies it.\<close>

lemma const_only_sound: "sound_saturation (map const_of)"
  by (auto simp: sound_saturation_def intro: d_const)

definition echo_graph :: graph where
  "echo_graph = add_node (add_node graph_new (fst (node_set_value (node_input 5 ''in'') Pos)))
     (node_computed 6 ''echo'' Identity_rule)"

definition echo_deps :: dep_registry where
  "echo_deps = registry_subscribe registry_empty 5 6"

lemma echo_facts:
  "graph_node echo_graph 5 = Some (fst (node_set_value (node_input 5 ''in'') Pos))"
  "graph_node echo_graph 6 = Some (node_computed 6 ''echo'' Identity_rule)"
  "deps_of echo_deps 6 = {5}" "ordered_deps_of echo_deps 6 = [5]" "deps_of echo_deps 5 = {}"
  by (simp_all add: echo_graph_def graph_node_def add_node_def node_input_def node_computed_def
      node_set_value_def echo_deps_def registry_subscribe_def deps_of_def registry_empty_def
      ordered_deps_of_def subscribe_with_meta_def bump_epoch_def Let_def)

lemma echo_section:
  "build_section_region [5, 6] echo_graph echo_deps 64 = \<lparr>sr_members = [5, 6], sr_boundary = []\<rparr>"
  by (simp add: build_section_region_def pin_rest_def echo_facts classified_def new_deps_def pin_dep_def
      Let_def aget_def)

lemma echo_accepts:
  "stabilize_section (map const_of) \<lparr>sr_members = [5, 6], sr_boundary = []\<rparr> echo_graph echo_deps []
    = Some (Some Pos, CompPos)"
  by (simp add: stabilize_section_def build_region_exprs_def echo_facts Let_def member_roots_def
      List.map_filter_def check_port_compliance_def node_input_def node_set_value_def node_computed_def
      slice_get_def aget_def)

theorem stabilize_section_sound_witness:
  "sound_saturation (map const_of)
   \<and> stabilize_section (map const_of) (build_section_region [5, 6] echo_graph echo_deps 64) echo_graph echo_deps []
       = Some (Some Pos, CompPos)
   \<and> {val. section_solution (build_section_region [5, 6] echo_graph echo_deps 64) echo_graph echo_deps (\<lambda>_. Neg) val}
        \<subseteq> {val. val 6 = Pos}
   \<and> section_solution (build_section_region [5, 6] echo_graph echo_deps 64) echo_graph echo_deps (\<lambda>_. Neg) (\<lambda>_. Pos)"
proof -
  have sol: "section_solution (build_section_region [5, 6] echo_graph echo_deps 64) echo_graph echo_deps (\<lambda>_. Neg) (\<lambda>_. Pos)"
    by (simp add: echo_section section_solution_def echo_facts node_input_def node_set_value_def node_computed_def
        rule_padded_def slice_get_def)
  have acc: "stabilize_section (map const_of) (build_section_region [5, 6] echo_graph echo_deps 64) echo_graph echo_deps []
      = Some (Some Pos, CompPos)"
    by (simp add: echo_section echo_accepts)
  note s = stabilize_section_sound[where sr = "build_section_region [5, 6] echo_graph echo_deps 64" and seeds = "[5, 6]"
      and g = echo_graph and r = echo_deps and k = 64 and saturate = "map const_of" and hs = "[]" and res = "Some Pos"
      and c = CompPos, OF HOL.refl]
  have "6 \<in> set (sr_members (build_section_region [5, 6] echo_graph echo_deps 64))"
    by (simp add: echo_section)
  then have "{val. section_solution (build_section_region [5, 6] echo_graph echo_deps 64) echo_graph echo_deps (\<lambda>_. Neg) val}
        \<subseteq> {val. val 6 = Pos}"
    using const_only_sound acc s by fastforce
  then show ?thesis using const_only_sound acc sol by blast
qed

end
