(* ===== verification/Engine.thy ===== *)
theory Engine
  imports Isa Compile Egraph
begin

text \<open>
  The engine, \<^verbatim>\<open>core-rs/src/engine.rs\<close>: the three substrates with the causal clock, the partition
  tables and the compiled-region cache, one handler per instruction, and the drain with its
  compiled tier and its stabilization loop.  The saturation engine of \<open>Egraph\<close> is an argument.
  A handler returns \<open>None\<close> for a panic or a drain that never ends.  Hash maps that the code only
  looks up are functions; where it iterates over one in no fixed order, the model takes the
  insertion order of the list that holds it.
\<close>

section \<open>State\<close>

record engine_event =
  ev_op :: string
  ev_node :: "uid option"
  ev_stamp :: event_stamp

text \<open>\<open>en_world\<close> holds the fields \<open>graph\<close>, \<open>deps\<close> and \<open>value_store\<close>.\<close>

record engine =
  en_world :: world
  en_prop :: prop_engine
  en_history :: "engine_event list"
  en_max_steps :: nat
  en_time :: product_time
  en_arrival :: u64
  en_port_histories :: "(uid, port_history) amap"
  en_registry :: partition_registry
  en_mode :: authority_mode
  en_unbound :: unbound_policy
  en_partitions :: "(uid, partition_id) amap"
  en_stabilization :: "uid \<Rightarrow> stabilization_config option"
  en_execution :: "uid \<Rightarrow> execution_policy option"
  en_cache :: region_cache
  en_dirty :: "u64 list"
  en_handled :: "u64 list"

definition engine_new :: engine where
  "engine_new = \<lparr>en_world = world_empty, en_prop = prop_engine_new, en_history = [],
     en_max_steps = 100000, en_time = TIME_ZERO, en_arrival = 0, en_port_histories = [],
     en_registry = Map.empty, en_mode = Advisory, en_unbound = Allow, en_partitions = [],
     en_stabilization = Map.empty, en_execution = Map.empty, en_cache = cache_new,
     en_dirty = [], en_handled = []\<rparr>"

datatype engine_error =
    NodeNotFound uid | EdgeNotFound uid | PropErr prop_error | StabilizeErr string | DpoViolation uid string

type_synonym engine_step = "(engine \<times> (engine_error + unit)) option"

abbreviation en_graph :: "engine \<Rightarrow> graph" where "en_graph e \<equiv> w_graph (en_world e)"
abbreviation en_deps :: "engine \<Rightarrow> dep_registry" where "en_deps e \<equiv> w_deps (en_world e)"
abbreviation en_store :: "engine \<Rightarrow> value_store" where "en_store e \<equiv> w_store (en_world e)"

definition set_world :: "(world \<Rightarrow> world) \<Rightarrow> engine \<Rightarrow> engine" where
  "set_world f e = e\<lparr>en_world := f (en_world e)\<rparr>"

definition set_deps :: "(dep_registry \<Rightarrow> dep_registry) \<Rightarrow> engine \<Rightarrow> engine" where
  "set_deps f = set_world (\<lambda>w. w\<lparr>w_deps := f (w_deps w)\<rparr>)"

definition set_cache :: "(region_cache \<Rightarrow> region_cache) \<Rightarrow> engine \<Rightarrow> engine" where
  "set_cache f e = e\<lparr>en_cache := f (en_cache e)\<rparr>"

definition push_event :: "prop_event \<Rightarrow> engine \<Rightarrow> engine" where
  "push_event ev e = e\<lparr>en_prop := (en_prop e)\<lparr>pe_events := pe_events (en_prop e) @ [ev]\<rparr>\<rparr>"

definition engine_enqueue :: "work_item \<Rightarrow> engine \<Rightarrow> engine" where
  "engine_enqueue x e = e\<lparr>en_prop := enqueue (en_prop e) x\<rparr>"

text \<open>\<open>log\<close>: one tick of the causal clock in one dimension, one arrival, one history entry.\<close>

definition log_op :: "string \<Rightarrow> uid option \<Rightarrow> time_dim \<Rightarrow> engine \<Rightarrow> engine" where
  "log_op op i dim e =
     (let t = time_advance (en_time e) dim; a = en_arrival e + 1
      in e\<lparr>en_time := t, en_arrival := a,
           en_history := en_history e @ [\<lparr>ev_op = op, ev_node = i, ev_stamp = \<lparr>causal = t, arrival = a\<rparr>\<rparr>]\<rparr>)"

section \<open>Offering a change to the subscribers\<close>

text \<open>The loop over \<open>subs_vec\<close> the handlers share: the counter update (all but stabilization do
  it), the delta gate, the mode gate, the enqueue and the last-seen stamp.\<close>

definition notify_sub :: "bool \<Rightarrow> product_time \<Rightarrow> uid \<Rightarrow> T \<Rightarrow> T \<Rightarrow> uid \<Rightarrow> engine \<Rightarrow> engine" where
  "notify_sub counting t i old new sub e =
     (let e1 = (if counting then set_deps (\<lambda>r. update_dep_counter r sub old new) e else e)
      in if gate_open (en_deps e1) i sub t \<and> mode_of (en_deps e1) sub = Eager
         then set_deps (\<lambda>r. update_last_seen r i sub t) (engine_enqueue (WPush sub) e1)
         else e1)"

definition notify_subs :: "bool \<Rightarrow> product_time \<Rightarrow> uid \<Rightarrow> T \<Rightarrow> T \<Rightarrow> uid list \<Rightarrow> engine \<Rightarrow> engine" where
  "notify_subs counting t i old new subs e = fold (notify_sub counting t i old new) subs e"

text \<open>\<open>mark_dirty_for_input\<close> and the active-lane bit for a slot that received a new value.\<close>

definition mark_slot :: "u64 list \<Rightarrow> u32 \<Rightarrow> u64 list" where
  "mark_slot bs d = (if unat d div 64 < length bs then bits_set bs (unat d) else bs)"

definition mark_written :: "uid \<Rightarrow> engine \<Rightarrow> engine" where
  "mark_written i e =
     (case dense_index (en_store e) i of
        None \<Rightarrow> e
      | Some d \<Rightarrow> (set_cache (\<lambda>c. mark_dirty_for_input c d) e)\<lparr>en_dirty := mark_slot (en_dirty e) d\<rparr>)"

section \<open>Structural stabilization\<close>

text \<open>One member of an accepted section: a conflicted node takes the value, its subscribers are
  offered the change, and no counter is updated.\<close>

definition resolve_member :: "T \<Rightarrow> product_time \<Rightarrow> uid \<Rightarrow> engine \<Rightarrow> engine option" where
  "resolve_member v t i e =
     (case graph_node (en_graph e) i of
        None \<Rightarrow> Some e
      | Some n \<Rightarrow>
          if n_value n = Zero then
            (case write_value (en_world e) i v of
               None \<Rightarrow> None
             | Some w' \<Rightarrow>
                 (let e1 = push_event (ValueChanged i (n_value n) v) (e\<lparr>en_world := w'\<rparr>)
                  in Some (notify_subs False t i (n_value n) v (subs_vec (en_deps e1) i) e1)))
          else Some e)"

fun resolve_members :: "T \<Rightarrow> product_time \<Rightarrow> uid list \<Rightarrow> engine \<Rightarrow> engine option" where
  "resolve_members v t [] e = Some e"
| "resolve_members v t (i # is) e = Option.bind (resolve_member v t i e) (resolve_members v t is)"

definition demand_deps :: "uid \<Rightarrow> engine \<Rightarrow> engine" where
  "demand_deps i e = fold (\<lambda>d e.
     case graph_node (en_graph e) d of
       Some n \<Rightarrow> if n_value n = Neg then engine_enqueue (WDemand d) e else e
     | None \<Rightarrow> e) (sorted_uids (deps_of (en_deps e) i)) e"

definition run_stabilize :: "saturation \<Rightarrow> uid list \<Rightarrow> engine \<Rightarrow> engine option" where
  "run_stabilize saturate seeds e =
     (if seeds = [] then Some e
      else
        (let sr = build_section_region seeds (en_graph e) (en_deps e) 64 in
         case stabilize_section saturate sr (en_graph e) (en_deps e) (en_port_histories e) of
           None \<Rightarrow> None
         | Some (resolved, compliance) \<Rightarrow>
             (case compliance of
                CompZero Boundary \<Rightarrow>
                  Some (fold (\<lambda>i. push_event (BochvarInfected i (Some Conflict))) (sr_members sr) e)
              | CompZero Informational \<Rightarrow> Some (fold demand_deps (sr_members sr) e)
              | CompZero Structural \<Rightarrow> Some e
              | _ \<Rightarrow>
                  (case resolved of
                     None \<Rightarrow> Some e
                   | Some v \<Rightarrow>
                       map_option (\<lambda>e1. e1\<lparr>en_time := time_advance (en_time e1) Egraph,
                             en_arrival := en_arrival e1 + 1\<rparr>)
                         (resolve_members v (en_time e) (sort (sr_members sr)) e)))))"

section \<open>The compiled tier\<close>

definition mark_handled :: "compiled_region \<Rightarrow> engine \<Rightarrow> engine" where
  "mark_handled rg e = fold (\<lambda>m e.
     case dense_index (en_store e) m of
       None \<Rightarrow> e
     | Some d \<Rightarrow> e\<lparr>en_handled := mark_slot (en_handled e) d\<rparr>) (rg_members rg) e"

definition publish_change :: "compiled_region \<Rightarrow> product_time \<Rightarrow> uid \<times> T \<times> T \<Rightarrow> engine \<Rightarrow> engine" where
  "publish_change rg t = (\<lambda>(i, old, new) e.
     let e1 = set_world (\<lambda>w. w\<lparr>w_graph := node_mut (w_graph w) i (\<lambda>n. fst (node_set_value n new))\<rparr>) e;
         e2 = push_event (ValueChanged i old new) e1
     in notify_subs True t i old new (filter (\<lambda>s. s \<notin> set (rg_members rg)) (subs_vec (en_deps e2) i)) e2)"

definition run_dirty_region :: "uid \<Rightarrow> engine \<Rightarrow> engine option" where
  "run_dirty_region root e =
     (case aget (rc_regions (en_cache e)) root of
        None \<Rightarrow> Some e
      | Some rg \<Rightarrow>
          (case run_compiled_region rg (en_store e) (en_dirty e) of
             None \<Rightarrow> None
           | Some (st', dirty', changed) \<Rightarrow>
               (let e1 = mark_handled rg (set_world (\<lambda>w. w\<lparr>w_store := st'\<rparr>) (e\<lparr>en_dirty := dirty'\<rparr>))
                in if changed = [] then Some e1
                   else
                     (let pe = en_prop e1;
                          s = (pe_stats pe)\<lparr>nodes_materialized := nodes_materialized (pe_stats pe) + of_nat (length changed)\<rparr>;
                          e2 = e1\<lparr>en_prop := pe\<lparr>pe_stats := s\<rparr>\<rparr>
                      in Some (fold (publish_change rg (en_time e2)) changed e2)))))"

fun run_dirty_regions :: "uid list \<Rightarrow> engine \<Rightarrow> engine option" where
  "run_dirty_regions [] e = Some e"
| "run_dirty_regions (r # rs) e = Option.bind (run_dirty_region r e) (run_dirty_regions rs)"

definition compiled_tier :: "engine \<Rightarrow> engine option" where
  "compiled_tier e =
     (case take_dirty (en_cache e) of
        (c, roots) \<Rightarrow>
          map_option (\<lambda>e1. e1\<lparr>en_dirty := map (\<lambda>_. 0) (en_dirty e1)\<rparr>)
            (run_dirty_regions roots (e\<lparr>en_cache := c\<rparr>)))"

section \<open>The warm drain and its stabilization loop\<close>

definition engine_auth :: "engine \<Rightarrow> auth_context option" where
  "engine_auth e = (if en_mode e = Advisory then None
     else Some \<lparr>ac_mode = en_mode e, ac_unbound = en_unbound e,
            ac_node_partitions = aget (en_partitions e), ac_decls = en_registry e\<rparr>)"

definition engine_drain :: "engine \<Rightarrow> engine_step" where
  "engine_drain e = map_option (\<lambda>(res, pe, w).
       (e\<lparr>en_prop := pe, en_world := w\<rparr>, case res of Inl err \<Rightarrow> Inl (PropErr err) | Inr u \<Rightarrow> Inr u))
     (drain (en_time e) (engine_auth e) (en_handled e) (en_max_steps e) (en_prop e) (en_world e))"

definition queued_seeds :: "prop_event list \<Rightarrow> uid list list" where
  "queued_seeds evs = List.map_filter (\<lambda>ev. case ev of StabilizeQueued r \<Rightarrow> Some r | _ \<Rightarrow> None) evs"

definition drop_queued :: "engine \<Rightarrow> engine" where
  "drop_queued e = e\<lparr>en_prop := (en_prop e)\<lparr>pe_events :=
     filter (\<lambda>ev. case ev of StabilizeQueued r \<Rightarrow> False | _ \<Rightarrow> True) (pe_events (en_prop e))\<rparr>\<rparr>"

fun stabilize_all :: "saturation \<Rightarrow> uid list list \<Rightarrow> engine \<Rightarrow> engine option" where
  "stabilize_all saturate [] e = Some e"
| "stabilize_all saturate (s # ss) e = Option.bind (run_stabilize saturate s e) (stabilize_all saturate ss)"

partial_function (option) warm_loop :: "saturation \<Rightarrow> engine \<Rightarrow> engine_step" where
  "warm_loop saturate e =
     (case engine_drain e of
        None \<Rightarrow> None
      | Some (e1, Inl err) \<Rightarrow> Some (e1, Inl err)
      | Some (e1, Inr _) \<Rightarrow>
          (let seeds = queued_seeds (pe_events (en_prop e1)) in
           if seeds = [] then Some (e1\<lparr>en_handled := map (\<lambda>_. 0) (en_handled e1)\<rparr>, Inr ())
           else (case stabilize_all saturate seeds (drop_queued e1) of
                   None \<Rightarrow> None
                 | Some e2 \<Rightarrow> warm_loop saturate e2)))"

declare warm_loop.simps [code]

definition drain_and_stabilize :: "saturation \<Rightarrow> engine \<Rightarrow> engine_step" where
  "drain_and_stabilize saturate e = Option.bind (compiled_tier e) (warm_loop saturate)"

section \<open>The handlers\<close>

definition done_op :: "engine \<Rightarrow> engine_step" where "done_op e = Some (e, Inr ())"

definition fail_op :: "engine_error \<Rightarrow> engine \<Rightarrow> engine_step" where "fail_op err e = Some (e, Inl err)"

text \<open>One word is appended when the slots outgrow the mask.\<close>

definition widen_masks :: "engine \<Rightarrow> engine" where
  "widen_masks e =
     (if length (en_dirty e) < (length (st_cache (en_store e)) + 63) div 64
      then e\<lparr>en_dirty := en_dirty e @ [0], en_handled := en_handled e @ [0]\<rparr> else e)"

definition op_node_create :: "uid \<Rightarrow> string \<Rightarrow> node_kind \<Rightarrow> attrs \<Rightarrow> engine \<Rightarrow> engine_step" where
  "op_node_create i ty k a e =
     (let n = (case k of Input \<Rightarrow> node_input i ty | Computed r \<Rightarrow> node_computed i ty r)\<lparr>n_attrs := a\<rparr>
      in done_op (log_op ''NodeCreate'' (Some i) Identity
           (widen_masks (set_world (\<lambda>w. create_node w n) e))))"

text \<open>Port-mode inference: only a target still at the default mode changes.\<close>

definition infer_mode :: "dep_kind \<Rightarrow> uid \<Rightarrow> dep_registry \<Rightarrow> dep_registry" where
  "infer_mode dep tgt r =
     (case (case dep of Local (Some p) \<Rightarrow> preferred_mode p | Local None \<Rightarrow> None
              | Remote rd \<Rightarrow> preferred_mode (port_new ''remote'' (rd_port_kind rd))) of
        None \<Rightarrow> r
      | Some m \<Rightarrow> if mode_of r tgt = Eager then set_mode r tgt m else r)"

definition op_edge_connect :: "uid \<Rightarrow> string \<Rightarrow> uid \<Rightarrow> uid \<Rightarrow> dep_kind \<Rightarrow> engine \<Rightarrow> engine_step" where
  "op_edge_connect i ty src tgt dep e =
     (if graph_node (en_graph e) src = None then fail_op (NodeNotFound src) e
      else if graph_node (en_graph e) tgt = None then fail_op (NodeNotFound tgt) e
      else
        (let e1 = set_deps (infer_mode dep tgt) e;
             ed = \<lparr>e_id = i, e_typ = ty, e_src = src, e_tgt = tgt, e_dep = dep, e_attrs = attrs_new\<rparr>;
             e2 = set_world (\<lambda>w. connect (w\<lparr>w_graph := add_edge (w_graph w) ed\<rparr>) src tgt) e1;
             e3 = set_cache (\<lambda>c. invalidate_for_node (invalidate_for_node c src) tgt) e2
         in done_op (log_op ''EdgeConnect'' (Some i) Dependency e3)))"

definition op_subscribe :: "uid \<Rightarrow> uid \<Rightarrow> engine \<Rightarrow> engine_step" where
  "op_subscribe src sub e =
     done_op (log_op ''Subscribe'' (Some sub) Dependency (set_world (\<lambda>w. connect w src sub) e))"

definition op_set_value :: "saturation \<Rightarrow> uid \<Rightarrow> T \<Rightarrow> engine \<Rightarrow> engine_step" where
  "op_set_value saturate i v e =
     (case graph_node (en_graph e) i of
        None \<Rightarrow> fail_op (NodeNotFound i) e
      | Some n \<Rightarrow>
          if v = n_value n then done_op e
          else (case write_value (en_world e) i v of
              None \<Rightarrow> None
            | Some w' \<Rightarrow>
                (let old = n_value n;
                     e1 = mark_written i (e\<lparr>en_world := w'\<rparr>);
                     e2 = log_op ''SetValue'' (Some i) Attribute (push_event (ValueChanged i old v) e1);
                     e3 = notify_subs True (en_time e2) i old v (subs_vec (en_deps e2) i) e2
                 in drain_and_stabilize saturate e3)))"

definition op_propagate :: "saturation \<Rightarrow> uid \<Rightarrow> engine \<Rightarrow> engine_step" where
  "op_propagate saturate i e =
     drain_and_stabilize saturate (log_op ''Propagate'' (Some i) Attribute (engine_enqueue (WPush i) e))"

text \<open>One dangling edge of a deleted node: its counter contribution, then its subscription.\<close>

definition drop_edge :: "uid \<Rightarrow> engine \<Rightarrow> engine" where
  "drop_edge eid e =
     (case remove_edge (en_graph e) eid of
        (g, None) \<Rightarrow> e
      | (g, Some ed) \<Rightarrow> set_world (\<lambda>w. disconnect (w\<lparr>w_graph := g\<rparr>) (e_src ed) (e_tgt ed)) e)"

definition has_remote_interface :: "engine \<Rightarrow> uid \<Rightarrow> bool" where
  "has_remote_interface e i = list_ex (\<lambda>eid. case graph_edge (en_graph e) eid of
     Some ed \<Rightarrow> edge_is_remote ed | None \<Rightarrow> False) (dangling_edges (en_graph e) i)"

definition op_del_node :: "uid \<Rightarrow> engine \<Rightarrow> engine_step" where
  "op_del_node i e =
     (if has_remote_interface e i
      then fail_op (DpoViolation i ''node has remote-dep edges; deletion would violate interface preservation'') e
      else
        (let e1 = fold drop_edge (dangling_edges (en_graph e) i) e;
             w = en_world e1
         in case dealloc (w_store w) i of
              None \<Rightarrow> None
            | Some st \<Rightarrow>
                (let e2 = e1\<lparr>en_world := w\<lparr>w_graph := fst (remove_node (w_graph w) i),
                            w_deps := registry_remove_node (w_deps w) i, w_store := st\<rparr>\<rparr>;
                     e3 = set_cache (\<lambda>c. invalidate_for_node c i) e2
                 in done_op (log_op ''DelNode'' (Some i) Identity e3))))"

definition op_del_edge :: "uid \<Rightarrow> engine \<Rightarrow> engine_step" where
  "op_del_edge i e =
     (case graph_edge (en_graph e) i of
        None \<Rightarrow> done_op e
      | Some ed \<Rightarrow>
          if edge_is_remote ed
          then fail_op (DpoViolation i ''remote-dep edge cannot be deleted locally; partition boundary is preserved'') e
          else done_op (log_op ''DelEdge'' (Some i) Dependency (drop_edge i
                 (set_cache (\<lambda>c. invalidate_for_node (invalidate_for_node c (e_src ed)) (e_tgt ed)) e))))"

definition op_demand :: "saturation \<Rightarrow> uid \<Rightarrow> engine \<Rightarrow> engine_step" where
  "op_demand saturate i e =
     drain_and_stabilize saturate (log_op ''Demand'' (Some i) Attribute (engine_enqueue (WDemand i) e))"

definition op_set_mode :: "uid \<Rightarrow> exec_mode \<Rightarrow> engine \<Rightarrow> engine_step" where
  "op_set_mode i m e =
     (if graph_node (en_graph e) i = None then fail_op (NodeNotFound i) e
      else done_op (log_op ''SetMode'' (Some i) Identity (set_deps (\<lambda>r. set_mode r i m) e)))"

text \<open>The log entry comes before the lookup, so a missing node still ticks the clock.\<close>

definition op_reflect :: "saturation \<Rightarrow> uid \<Rightarrow> engine \<Rightarrow> engine_step" where
  "op_reflect saturate i e =
     (let e0 = log_op ''Reflect'' (Some i) Attribute e in
      case graph_node (en_graph e0) i of
        None \<Rightarrow> fail_op (NodeNotFound i) e0
      | Some n \<Rightarrow>
          (let old = n_value n; new = n_value (fst (node_reflect n)) in
           case store_set (en_store e0) i new of
             None \<Rightarrow> None
           | Some st \<Rightarrow>
               (let e1 = set_world (\<lambda>w. w\<lparr>w_graph := node_mut (w_graph w) i (\<lambda>n. fst (node_reflect n)), w_store := st\<rparr>) e0;
                    e2 = (if new \<noteq> old then push_event (ValueChanged i old new) (mark_written i e1) else e1);
                    e3 = notify_subs True (en_time e2) i old new (subs_vec (en_deps e2) i) e2
                in drain_and_stabilize saturate e3)))"

definition zero_nodes :: "graph \<Rightarrow> uid list" where
  "zero_nodes g = map fst (filter (\<lambda>(i, n). n_value n = Zero) (nodes g))"

definition op_stabilize :: "saturation \<Rightarrow> uid list option \<Rightarrow> engine \<Rightarrow> engine_step" where
  "op_stabilize saturate region e =
     (let seeds = sort (case region of Some r \<Rightarrow> r | None \<Rightarrow> zero_nodes (en_graph e)) in
      case run_stabilize saturate seeds e of
        None \<Rightarrow> None
      | Some e1 \<Rightarrow> done_op (log_op ''Stabilize'' None Egraph e1))"

definition op_partition_create :: "partition_id \<Rightarrow> u128 \<Rightarrow> lattice_class \<Rightarrow> causal_scope \<Rightarrow> engine \<Rightarrow> engine_step" where
  "op_partition_create p root cls cd e =
     done_op (log_op ''PartitionCreate'' None Identity
       (e\<lparr>en_registry := partition_register (en_registry e)
            \<lparr>pd_id = p, authority_root = root, pd_lattice_class = cls, causal_domain = cd\<rparr>\<rparr>))"

definition recompile_edges_for_node :: "uid \<Rightarrow> engine \<Rightarrow> engine" where
  "recompile_edges_for_node i e =
     (case Option.bind (aget (en_partitions e) i) (en_registry e) of
        None \<Rightarrow> e
      | Some d \<Rightarrow>
          fold (\<lambda>sub e. set_deps (\<lambda>r. set_compiled_label r i sub
              ((compiled_label_of r i sub)\<lparr>causal_scope_bits :=
                 causal_scope_bits (compiled_label_of r i sub) AND scope_bits (causal_domain d)\<rparr>)) e)
            (sorted_uids (subs_of (en_deps e) i)) e)"

definition op_partition_bind :: "uid \<Rightarrow> partition_id \<Rightarrow> engine \<Rightarrow> engine_step" where
  "op_partition_bind i p e =
     done_op (log_op ''PartitionBind'' (Some i) Identity
       (recompile_edges_for_node i (e\<lparr>en_partitions := aput i p (en_partitions e)\<rparr>)))"

definition op_set_partition_authority :: "partition_id \<Rightarrow> lattice_class \<Rightarrow> causal_scope \<Rightarrow> engine \<Rightarrow> engine_step" where
  "op_set_partition_authority p cls cd e =
     done_op (log_op ''SetPartitionAuthority'' None Identity
       (e\<lparr>en_registry := (en_registry e)(p := map_option
            (\<lambda>d. d\<lparr>pd_lattice_class := cls, causal_domain := cd\<rparr>) (en_registry e p))\<rparr>))"

definition op_set_edge_label :: "uid \<Rightarrow> uid \<Rightarrow> edge_label \<Rightarrow> engine \<Rightarrow> engine_step" where
  "op_set_edge_label src tgt l e =
     done_op (log_op ''SetEdgeLabel'' None Identity
       (set_deps (\<lambda>r. set_compiled_label r src tgt (compile_label (en_registry e) l (aget (en_partitions e) src))) e))"

definition op_set_stabilization :: "uid \<Rightarrow> stabilization_config \<Rightarrow> engine \<Rightarrow> engine_step" where
  "op_set_stabilization i c e =
     done_op (log_op ''SetStabilizationConfig'' (Some i) Identity
       (e\<lparr>en_stabilization := (en_stabilization e)(i \<mapsto> c)\<rparr>))"

definition op_set_execution :: "uid \<Rightarrow> execution_policy \<Rightarrow> engine \<Rightarrow> engine_step" where
  "op_set_execution i p e =
     done_op (log_op ''SetExecutionPolicy'' (Some i) Identity
       (e\<lparr>en_execution := (en_execution e)(i \<mapsto> p)\<rparr>))"

definition region_member_list :: "uid \<Rightarrow> region_boundary \<Rightarrow> engine \<Rightarrow> uid list" where
  "region_member_list root b e = (case b of
      ExplicitSet v \<Rightarrow> v
    | DepClosure d \<Rightarrow> bfs_dep_closure root d (en_deps e)
    | PartitionScoped p \<Rightarrow> map fst (filter (\<lambda>(i, q). q = p) (en_partitions e)))"

definition op_region_declare ::
  "uid \<Rightarrow> region_boundary \<Rightarrow> stability_contract \<Rightarrow> compile_policy \<Rightarrow> engine \<Rightarrow> engine_step" where
  "op_region_declare root b k pol e =
     (let members = region_member_list root b e;
          e1 = set_cache (\<lambda>c. c\<lparr>rc_contracts := (rc_contracts c)(root \<mapsto> k)\<rparr>) e
      in if pol = CP_Eager then
           (case compile_region members (en_graph e1) (en_deps e1) (en_store e1)
                   (max_epoch_for_nodes (en_deps e1) members) of
              None \<Rightarrow> None
            | Some None \<Rightarrow> done_op (log_op ''RegionDeclare'' (Some root) Identity e1)
            | Some (Some rg) \<Rightarrow>
                done_op (log_op ''RegionDeclare'' (Some root) Identity (set_cache (\<lambda>c. cache_insert c root rg k) e1)))
         else done_op (log_op ''RegionDeclare'' (Some root) Identity e1))"

fun dispatch :: "saturation \<Rightarrow> isa_op \<Rightarrow> engine \<Rightarrow> engine_step" where
  "dispatch S (NodeCreate i ty k a) e = op_node_create i ty k a e"
| "dispatch S (EdgeConnect i ty src tgt dep) e = op_edge_connect i ty src tgt dep e"
| "dispatch S (Subscribe src sub) e = op_subscribe src sub e"
| "dispatch S (SetValue i v) e = op_set_value S i v e"
| "dispatch S (Propagate i) e = op_propagate S i e"
| "dispatch S (DelNode i) e = op_del_node i e"
| "dispatch S (DelEdge i) e = op_del_edge i e"
| "dispatch S (Demand i) e = op_demand S i e"
| "dispatch S (SetMode i m) e = op_set_mode i m e"
| "dispatch S (Reflect i) e = op_reflect S i e"
| "dispatch S (Stabilize r) e = op_stabilize S r e"
| "dispatch S (PartitionCreate p root cls cd) e = op_partition_create p root cls cd e"
| "dispatch S (PartitionBind i p) e = op_partition_bind i p e"
| "dispatch S (SetPartitionAuthority p cls cd) e = op_set_partition_authority p cls cd e"
| "dispatch S (SetEdgeLabel src tgt l) e = op_set_edge_label src tgt l e"
| "dispatch S (SetStabilizationConfig i c) e = op_set_stabilization i c e"
| "dispatch S (SetExecutionPolicy i p) e = op_set_execution i p e"
| "dispatch S (RegionDeclare root b k pol) e = op_region_declare root b k pol e"

text \<open>\<open>apply\<close>: the event buffer is cleared first and handed out when the handler succeeds; an error
  leaves it in place.  The same-value write returns an empty list, which the cleared buffer is.\<close>

definition engine_apply :: "saturation \<Rightarrow> isa_op \<Rightarrow> engine \<Rightarrow> (engine \<times> (engine_error + prop_event list)) option" where
  "engine_apply S x e = map_option
     (\<lambda>(e1, res). case res of
        Inl err \<Rightarrow> (e1, Inl err)
      | Inr _ \<Rightarrow> (e1\<lparr>en_prop := (en_prop e1)\<lparr>pe_events := []\<rparr>\<rparr>, Inr (pe_events (en_prop e1))))
     (dispatch S x (e\<lparr>en_prop := (en_prop e)\<lparr>pe_events := []\<rparr>\<rparr>))"

section \<open>Inspection\<close>

definition engine_value_of :: "engine \<Rightarrow> uid \<Rightarrow> T option" where
  "engine_value_of e i = map_option n_value (graph_node (en_graph e) i)"

definition engine_version_of :: "engine \<Rightarrow> uid \<Rightarrow> u64 option" where
  "engine_version_of e i = map_option n_version (graph_node (en_graph e) i)"

definition engine_attrs_of :: "engine \<Rightarrow> uid \<Rightarrow> attrs option" where
  "engine_attrs_of e i = map_option n_attrs (graph_node (en_graph e) i)"

definition engine_set_attr :: "uid \<Rightarrow> string \<Rightarrow> attr_val \<Rightarrow> engine \<Rightarrow> engine \<times> (engine_error + unit)" where
  "engine_set_attr i k v e =
     (if graph_node (en_graph e) i = None then (e, Inl (NodeNotFound i))
      else (set_world (\<lambda>w. w\<lparr>w_graph := node_mut (w_graph w) i
              (\<lambda>n. n\<lparr>n_attrs := attrs_set (n_attrs n) k v, n_version := n_version n + 1\<rparr>)\<rparr>) e, Inr ()))"

definition set_authority_mode :: "authority_mode \<Rightarrow> engine \<Rightarrow> engine" where
  "set_authority_mode m e = e\<lparr>en_mode := m, en_unbound := unbound_default_for m\<rparr>"

definition partition_of :: "engine \<Rightarrow> uid \<Rightarrow> partition_id option" where
  "partition_of e i = aget (en_partitions e) i"

definition stabilization_config_of :: "engine \<Rightarrow> uid \<Rightarrow> stabilization_config" where
  "stabilization_config_of e i = or_default stabilization_config_default (en_stabilization e i)"

definition execution_policy_of :: "engine \<Rightarrow> uid \<Rightarrow> execution_policy" where
  "execution_policy_of e i = or_default execution_policy_default (en_execution e i)"

end
