(* ===== verification/Parse.thy ===== *)
theory Parse
  imports Decode Engine
begin

text \<open>
  Deserialisation of record payloads, the first part of \<^verbatim>\<open>session-rs/src/dispatch.rs\<close>: the cursor
  over the payload, the attribute map and one parser per opcode.  \<open>and_then\<close> is the \<open>?\<close> of the
  code.  A failing parser discards the cursor, so its result is the error alone.
\<close>

section \<open>Errors\<close>

datatype dispatch_error =
    DE_Ingress ingress_error
  | DE_Engine engine_error
  | DE_PayloadTruncated nat nat
  | DE_InvalidUtf8
  | DE_InvalidTernaryValue i8
  | DE_UnknownOpcode u16
  | DE_UnknownNodeRule byte
  | DE_UnknownPortKind byte
  | DE_UnknownDepKind byte
  | DE_UnknownExecMode byte
  | DE_UnsupportedAttrTag byte
  | DE_UnknownZeroKind byte
  | DE_UnknownPayloadKind byte
  | DE_UnknownRegionBoundaryTag byte
  | DE_UnknownStabilityContract byte
  | DE_UnknownCompilePolicy byte
  | DE_DisclosureViolation u64 u64

definition wire_to_uid :: "u64 \<Rightarrow> uid" where "wire_to_uid w = ucast w"
definition wire_to_partition_id :: "u64 \<Rightarrow> partition_id" where "wire_to_partition_id w = ucast w"

definition wire_to_t :: "i8 \<Rightarrow> dispatch_error + T" where
  "wire_to_t v = (if v = - 1 then Inr Neg else if v = 0 then Inr Zero else if v = 1 then Inr Pos
     else Inl (DE_InvalidTernaryValue v))"

section \<open>The reader\<close>

record reader =
  rd_buf :: "byte list"
  rd_pos :: nat

type_synonym 'a read = "reader \<Rightarrow> dispatch_error + ('a \<times> reader)"

definition reader_new :: "byte list \<Rightarrow> reader" where
  "reader_new bs = \<lparr>rd_buf = bs, rd_pos = 0\<rparr>"

definition remaining :: "reader \<Rightarrow> nat" where
  "remaining r = length (rd_buf r) - rd_pos r"

definition need :: "nat \<Rightarrow> reader \<Rightarrow> dispatch_error + unit" where
  "need n r = (if remaining r < n then Inl (DE_PayloadTruncated n (remaining r)) else Inr ())"

definition advance :: "nat \<Rightarrow> reader \<Rightarrow> reader" where
  "advance n r = r\<lparr>rd_pos := rd_pos r + n\<rparr>"

definition read_u8 :: "byte read" where
  "read_u8 r = and_then (need 1 r) (\<lambda>_. Inr (rd_buf r ! rd_pos r, advance 1 r))"

definition read_i8 :: "i8 read" where
  "read_i8 r = read_u8 r"

definition read_u16 :: "u16 read" where
  "read_u16 r = and_then (need 2 r) (\<lambda>_. Inr (le_at (rd_buf r) (rd_pos r) 2, advance 2 r))"

definition read_u32 :: "u32 read" where
  "read_u32 r = and_then (need 4 r) (\<lambda>_. Inr (le_at (rd_buf r) (rd_pos r) 4, advance 4 r))"

definition read_u64 :: "u64 read" where
  "read_u64 r = and_then (need 8 r) (\<lambda>_. Inr (le_at (rd_buf r) (rd_pos r) 8, advance 8 r))"

definition read_i64 :: "u64 read" where
  "read_i64 r = and_then (need 8 r) (\<lambda>_. Inr (le_at (rd_buf r) (rd_pos r) 8, advance 8 r))"

text \<open>The bits of an \<open>f64\<close> that is not a number, and the quiet one the wire uses for all of them.\<close>

definition f64_is_nan :: "u64 \<Rightarrow> bool" where
  "f64_is_nan b \<longleftrightarrow> b AND 0x7FF0000000000000 = 0x7FF0000000000000 \<and> b AND 0x000FFFFFFFFFFFFF \<noteq> 0"

definition f64_canonical :: "u64 \<Rightarrow> u64" where
  "f64_canonical b = (if f64_is_nan b then 0x7FF8000000000000 else b)"

definition read_f64 :: "u64 read" where
  "read_f64 r = and_then (need 8 r) (\<lambda>_. Inr (f64_canonical (le_at (rd_buf r) (rd_pos r) 8), advance 8 r))"

definition read_str :: "nat \<Rightarrow> string read" where
  "read_str n r = and_then (need n r) (\<lambda>_.
     let bs = take n (drop (rd_pos r) (rd_buf r)) in
     if utf8_valid bs then Inr (bytes_str bs, advance n r) else Inl DE_InvalidUtf8)"

definition read_str_u16 :: "string read" where
  "read_str_u16 r = and_then (read_u16 r) (\<lambda>(n, r1). read_str (unat n) r1)"

definition read_bytes_u32 :: "byte list read" where
  "read_bytes_u32 r = and_then (read_u32 r) (\<lambda>(n, r1).
     and_then (need (unat n) r1) (\<lambda>_.
     Inr (take (unat n) (drop (rd_pos r1) (rd_buf r1)), advance (unat n) r1)))"

definition read_uid :: "uid read" where
  "read_uid r = and_then (read_u64 r) (\<lambda>(w, r1). Inr (wire_to_uid w, r1))"

definition read_pid :: "partition_id read" where
  "read_pid r = and_then (read_u64 r) (\<lambda>(w, r1). Inr (wire_to_partition_id w, r1))"

definition read_t :: "T read" where
  "read_t r = and_then (read_i8 r) (\<lambda>(v, r1). and_then (wire_to_t v) (\<lambda>t. Inr (t, r1)))"

text \<open>The loop \<open>for _ in 0..count\<close> that collects node ids.\<close>

fun read_uids :: "nat \<Rightarrow> uid list read" where
  "read_uids 0 r = Inr ([], r)"
| "read_uids (Suc n) r = and_then (read_uid r) (\<lambda>(u, r1).
     and_then (read_uids n r1) (\<lambda>(us, r2). Inr (u # us, r2)))"

section \<open>Attribute maps\<close>

definition read_attr_val :: "byte \<Rightarrow> attr_val read" where
  "read_attr_val tag r =
     (if tag = 0x01 then and_then (read_u8 r) (\<lambda>(b, r1). Inr (Val_Bool (b \<noteq> 0), r1))
      else if tag = 0x02 then and_then (read_i64 r) (\<lambda>(i, r1). Inr (Val_Int i, r1))
      else if tag = 0x03 then and_then (read_f64 r) (\<lambda>(f, r1). Inr (Val_Float f, r1))
      else if tag = 0x04 then and_then (read_u16 r) (\<lambda>(n, r1).
             and_then (read_str (unat n) r1) (\<lambda>(s, r2). Inr (Val_Text s, r2)))
      else if tag = 0x05 then and_then (read_bytes_u32 r) (\<lambda>_. Inl (DE_UnsupportedAttrTag 0x05))
      else if tag = 0x06 then and_then (read_t r) (\<lambda>(t, r1). Inr (Val_Ternary t, r1))
      else if tag = 0x07 then and_then (read_u64 r) (\<lambda>(u, r1). Inr (Val_Int u, r1))
      else Inl (DE_UnsupportedAttrTag tag))"

fun read_attrs :: "nat \<Rightarrow> attrs \<Rightarrow> attrs read" where
  "read_attrs 0 a r = Inr (a, r)"
| "read_attrs (Suc n) a r =
     and_then (read_str_u16 r) (\<lambda>(key, r1).
     and_then (read_u8 r1) (\<lambda>(tag, r2).
     and_then (read_attr_val tag r2) (\<lambda>(v, r3).
     read_attrs n (attrs_set a key v) r3)))"

definition parse_attr_map :: "attrs read" where
  "parse_attr_map r = and_then (read_u16 r) (\<lambda>(n, r1). read_attrs (unat n) attrs_new r1)"

section \<open>Discriminant bytes\<close>

definition node_kind_of_byte :: "byte \<Rightarrow> dispatch_error + node_kind" where
  "node_kind_of_byte b =
     (if b = 0x00 then Inr Input
      else if b = 0x01 then Inr (Computed Identity_rule)
      else if b = 0x02 then Inr (Computed MvNeg)
      else if b = 0x03 then Inr (Computed MvAdd)
      else if b = 0x04 then Inr (Computed MvMul)
      else if b = 0x05 then Inr (Computed MvSub)
      else if b = 0x06 then Inr (Computed Merge)
      else if b = 0x07 then Inr (Computed MeetAll)
      else if b = 0x08 then Inr (Computed JoinAny)
      else if b = 0x09 then Inr (Computed BochvarFold)
      else if b = 0x0A then Inr (Computed PowerProduct)
      else Inl (DE_UnknownNodeRule b))"

definition port_kind_of_byte :: "byte \<Rightarrow> dispatch_error + port_kind" where
  "port_kind_of_byte b =
     (if b = 0x00 then Inr Signal else if b = 0x01 then Inr Effort
      else if b = 0x02 then Inr Flow else if b = 0x03 then Inr Bond
      else Inl (DE_UnknownPortKind b))"

definition zero_kind_of_byte :: "byte \<Rightarrow> dispatch_error + zero_kind" where
  "zero_kind_of_byte b =
     (if b = 0x00 then Inr Conflict else if b = 0x01 then Inr Incomplete
      else if b = 0x02 then Inr Ambiguous else if b = 0x03 then Inr Retracted
      else if b = 0x04 then Inr BoundaryViolation else if b = 0x05 then Inr VersionSkew
      else Inl (DE_UnknownZeroKind b))"

definition exec_mode_of_byte :: "byte \<Rightarrow> dispatch_error + exec_mode" where
  "exec_mode_of_byte b =
     (if b = 0x00 then Inr Eager else if b = 0x01 then Inr Lazy else if b = 0x02 then Inr Stabilizing
      else Inl (DE_UnknownExecMode b))"

definition stability_of_byte :: "byte \<Rightarrow> dispatch_error + stability_contract" where
  "stability_of_byte b =
     (if b = 0x00 then Inr Pinned else if b = 0x01 then Inr EpochTracked
      else Inl (DE_UnknownStabilityContract b))"

definition compile_of_byte :: "byte \<Rightarrow> dispatch_error + compile_policy" where
  "compile_of_byte b =
     (if b = 0x00 then Inr CP_Eager else if b = 0x01 then Inr CP_Lazy else if b = 0x02 then Inr CP_Never
      else Inl (DE_UnknownCompilePolicy b))"

definition strategy_of_byte :: "byte \<Rightarrow> rewrite_strategy" where
  "strategy_of_byte b = (if b = 0x00 then FullL3 else Restricted (ucast b))"

definition domain_of_byte :: "byte \<Rightarrow> stabilization_domain" where
  "domain_of_byte b = (if b = 0x00 then LocalOnly else if b = 0x01 then Federated else Inherit)"

definition convergence_of_byte :: "byte \<Rightarrow> convergence_policy" where
  "convergence_of_byte b = (if b = 0x00 then Canonical else if b = 0x01 then ConvWitness else BudgetExhausted)"

definition priority_of_byte :: "byte \<Rightarrow> queue_priority" where
  "priority_of_byte b = (if b = 0x01 then High else if b = 0x02 then Low else Normal)"

definition retry_of_byte :: "byte \<Rightarrow> retry_policy" where
  "retry_of_byte b = (if b = 0x01 then Retry 3 else Fail)"

section \<open>One parser per opcode\<close>

definition parse_node_create :: "reader \<Rightarrow> dispatch_error + isa_op" where
  "parse_node_create r =
     and_then (read_uid r) (\<lambda>(u, r1).
     and_then (read_str_u16 r1) (\<lambda>(typ, r2).
     and_then (read_u8 r2) (\<lambda>(rule, r3).
     and_then (node_kind_of_byte rule) (\<lambda>kind.
     and_then (parse_attr_map r3) (\<lambda>(attrs, r4).
     Inr (NodeCreate u typ kind attrs))))))"

definition read_payload_kind :: "payload_kind read" where
  "read_payload_kind r =
     and_then (read_u8 r) (\<lambda>(b, r1).
     if b = 0x00 then Inr (Definite, r1)
     else if b = 0x01 then
       and_then (read_u8 r1) (\<lambda>(z, r2). and_then (zero_kind_of_byte z) (\<lambda>zk. Inr (TypedZero zk, r2)))
     else Inl (DE_UnknownPayloadKind b))"

fun read_frontier :: "nat \<Rightarrow> vector_clock \<Rightarrow> vector_clock read" where
  "read_frontier 0 c r = Inr (c, r)"
| "read_frontier (Suc n) c r =
     and_then (read_pid r) (\<lambda>(pid, r1).
     and_then (read_u64 r1) (\<lambda>(clock, r2).
     read_frontier n (vc_set c pid clock) r2))"

definition read_remote_dep :: "port_kind \<Rightarrow> remote_dep read" where
  "read_remote_dep pk r =
     and_then (read_pid r) (\<lambda>(source_partition, r1).
     and_then (read_uid r1) (\<lambda>(source_uid, r2).
     and_then (read_u64 r2) (\<lambda>(source_version, r3).
     and_then (read_payload_kind r3) (\<lambda>(payload_kind, r4).
     and_then (read_u16 r4) (\<lambda>(n, r5).
     and_then (read_frontier (unat n) [] r5) (\<lambda>(frontier, r6).
     and_then (read_pid r6) (\<lambda>(source_authority, r7).
     and_then (read_u64 r7) (\<lambda>(cls, r8).
     and_then (read_u8 r8) (\<lambda>(cap, r9).
     and_then (read_u64 r9) (\<lambda>(bits, r10).
     Inr (\<lparr>source_partition = source_partition, source_uid = source_uid, source_version = source_version,
            rd_port_kind = pk, causal_frontier = frontier, rd_payload_kind = payload_kind,
            source_authority = source_authority, emitted_class = cls, rd_capability = ucast cap,
            rd_causal_scope = \<lparr>scope_bits = bits, scope_root = 0\<rparr>\<rparr>, r10)))))))))))"

definition parse_edge_connect :: "reader \<Rightarrow> dispatch_error + isa_op" where
  "parse_edge_connect r =
     and_then (read_uid r) (\<lambda>(edge_id, r1).
     and_then (read_uid r1) (\<lambda>(src, r2).
     and_then (read_uid r2) (\<lambda>(tgt, r3).
     and_then (read_u8 r3) (\<lambda>(kind, r4).
     and_then (read_u8 r4) (\<lambda>(pkb, r5).
     and_then (read_str_u16 r5) (\<lambda>(pname, r6).
     and_then (port_kind_of_byte pkb) (\<lambda>pk.
     if kind = 0x00 then
       Inr (EdgeConnect edge_id ''dep'' src tgt
         (Local (if pname = [] then None else Some \<lparr>port_name = pname, port_kind = pk\<rparr>)))
     else if kind = 0x01 then
       and_then (read_remote_dep pk r6) (\<lambda>(rd, r7). Inr (EdgeConnect edge_id ''dep'' src tgt (Remote rd)))
     else Inl (DE_UnknownDepKind kind))))))))"

definition parse_set_value :: "reader \<Rightarrow> dispatch_error + isa_op" where
  "parse_set_value r = and_then (read_uid r) (\<lambda>(u, r1). and_then (read_t r1) (\<lambda>(v, r2). Inr (SetValue u v)))"

text \<open>The records that hold one or two node ids only.\<close>

definition parse_uid_op :: "(uid \<Rightarrow> isa_op) \<Rightarrow> reader \<Rightarrow> dispatch_error + isa_op" where
  "parse_uid_op mk r = and_then (read_uid r) (\<lambda>(u, r1). Inr (mk u))"

definition parse_subscribe :: "reader \<Rightarrow> dispatch_error + isa_op" where
  "parse_subscribe r = and_then (read_uid r) (\<lambda>(s, r1). and_then (read_uid r1) (\<lambda>(t, r2). Inr (Subscribe s t)))"

definition parse_set_mode :: "reader \<Rightarrow> dispatch_error + isa_op" where
  "parse_set_mode r = and_then (read_uid r) (\<lambda>(u, r1). and_then (read_u8 r1) (\<lambda>(b, r2).
     and_then (exec_mode_of_byte b) (\<lambda>m. Inr (SetMode u m))))"

definition parse_stabilize :: "reader \<Rightarrow> dispatch_error + isa_op" where
  "parse_stabilize r = and_then (read_u32 r) (\<lambda>(count, r1).
     if count = 0 then Inr (Stabilize None)
     else and_then (read_uids (unat count) r1) (\<lambda>(us, r2). Inr (Stabilize (Some us))))"

definition parse_partition_create :: "reader \<Rightarrow> dispatch_error + isa_op" where
  "parse_partition_create r =
     and_then (read_u64 r) (\<lambda>(wire_id, r1).
     and_then (read_u64 r1) (\<lambda>(root, r2).
     and_then (read_u64 r2) (\<lambda>(cls, r3).
     and_then (read_u64 r3) (\<lambda>(bits, r4).
     Inr (PartitionCreate (wire_to_partition_id wire_id) (wire_to_partition_id root) cls
       \<lparr>scope_bits = bits, scope_root = wire_to_partition_id wire_id\<rparr>)))))"

definition parse_partition_bind :: "reader \<Rightarrow> dispatch_error + isa_op" where
  "parse_partition_bind r = and_then (read_uid r) (\<lambda>(u, r1). and_then (read_pid r1) (\<lambda>(p, r2). Inr (PartitionBind u p)))"

definition parse_set_partition_authority :: "reader \<Rightarrow> dispatch_error + isa_op" where
  "parse_set_partition_authority r =
     and_then (read_u64 r) (\<lambda>(p, r1).
     and_then (read_u64 r1) (\<lambda>(cls, r2).
     and_then (read_u64 r2) (\<lambda>(bits, r3).
     Inr (SetPartitionAuthority (wire_to_partition_id p) cls \<lparr>scope_bits = bits, scope_root = 0\<rparr>))))"

definition parse_set_edge_label :: "reader \<Rightarrow> dispatch_error + isa_op" where
  "parse_set_edge_label r =
     and_then (read_uid r) (\<lambda>(src, r1).
     and_then (read_uid r1) (\<lambda>(tgt, r2).
     and_then (read_u64 r2) (\<lambda>(cls, r3).
     and_then (read_u8 r3) (\<lambda>(cap, r4).
     and_then (read_u64 r4) (\<lambda>(bits, r5).
     Inr (SetEdgeLabel src tgt \<lparr>el_capability = ucast cap, el_lattice_class = cls,
       el_projection_mask = mask_wildcard, el_causal_scope = \<lparr>scope_bits = bits, scope_root = 0\<rparr>\<rparr>))))))"

definition parse_set_stabilization :: "reader \<Rightarrow> dispatch_error + isa_op" where
  "parse_set_stabilization r =
     and_then (read_uid r) (\<lambda>(u, r1).
     and_then (read_u8 r1) (\<lambda>(sb, r2).
     and_then (read_u8 r2) (\<lambda>(db, r3).
     and_then (read_u32 r3) (\<lambda>(iters, r4).
     and_then (read_u8 r4) (\<lambda>(cb, r5).
     Inr (SetStabilizationConfig u \<lparr>strategy = strategy_of_byte sb, sc_domain = domain_of_byte db,
       budget = \<lparr>max_iterations = unat iters\<rparr>, convergence = convergence_of_byte cb\<rparr>))))))"

definition parse_set_execution :: "reader \<Rightarrow> dispatch_error + isa_op" where
  "parse_set_execution r =
     and_then (read_uid r) (\<lambda>(u, r1).
     and_then (read_u8 r1) (\<lambda>(pb, r2).
     and_then (read_u8 r2) (\<lambda>(rb, r3).
     Inr (SetExecutionPolicy u \<lparr>queue_priority = priority_of_byte pb, retry_policy = retry_of_byte rb\<rparr>))))"

definition read_boundary :: "region_boundary read" where
  "read_boundary r =
     and_then (read_u8 r) (\<lambda>(tag, r1).
     if tag = 0x00 then and_then (read_u32 r1) (\<lambda>(d, r2). Inr (DepClosure (unat d), r2))
     else if tag = 0x01 then
       and_then (read_u32 r1) (\<lambda>(count, r2).
       and_then (read_uids (unat count) r2) (\<lambda>(us, r3). Inr (ExplicitSet us, r3)))
     else if tag = 0x02 then and_then (read_pid r1) (\<lambda>(p, r2). Inr (PartitionScoped p, r2))
     else Inl (DE_UnknownRegionBoundaryTag tag))"

definition parse_region_declare :: "reader \<Rightarrow> dispatch_error + isa_op" where
  "parse_region_declare r =
     and_then (read_uid r) (\<lambda>(root, r1).
     and_then (read_boundary r1) (\<lambda>(boundary, r2).
     and_then (read_u8 r2) (\<lambda>(sb, r3).
     and_then (stability_of_byte sb) (\<lambda>stability.
     and_then (read_u8 r3) (\<lambda>(cb, r4).
     and_then (compile_of_byte cb) (\<lambda>policy.
     Inr (RegionDeclare root boundary stability policy)))))))"

definition parse_payload :: "u16 \<Rightarrow> byte list \<Rightarrow> dispatch_error + isa_op" where
  "parse_payload opc payload =
     (let r = reader_new payload in
      if opc = 0x0001 then parse_node_create r
      else if opc = 0x0002 then parse_edge_connect r
      else if opc = 0x0003 then parse_set_value r
      else if opc = 0x0004 then parse_uid_op Propagate r
      else if opc = 0x0005 then parse_subscribe r
      else if opc = 0x0006 then parse_uid_op DelNode r
      else if opc = 0x0007 then parse_uid_op DelEdge r
      else if opc = 0x0008 then parse_uid_op Demand r
      else if opc = 0x0009 then parse_set_mode r
      else if opc = 0x000A then parse_uid_op Reflect r
      else if opc = 0x000B then parse_stabilize r
      else if opc = 0x000C then parse_partition_create r
      else if opc = 0x000D then parse_partition_bind r
      else if opc = 0x000E then parse_set_partition_authority r
      else if opc = 0x000F then parse_set_edge_label r
      else if opc = 0x0010 then parse_set_stabilization r
      else if opc = 0x0011 then parse_set_execution r
      else if opc = 0x0012 then parse_region_declare r
      else Inl (DE_UnknownOpcode opc))"

end
