(* ===== verification/Wire.thy ===== *)
theory Wire
  imports Parse "HOL-Library.List_Lexorder" "HOL-Library.Char_ord"
begin

text \<open>
  The wire encoder, \<^verbatim>\<open>session-rs/src/encode.rs\<close>: payloads, full records and the stream preamble.
  A \<open>put_\<close> function is the bytes that the code's push helper appends to its buffer.  Strings are
  compared byte by byte, so the code's sort of the attribute keys is the lexicographic order of
  the model's strings.
\<close>

section \<open>Push helpers\<close>

definition uid_to_wire :: "uid \<Rightarrow> u64" where "uid_to_wire u = ucast u"
definition partition_id_to_wire :: "partition_id \<Rightarrow> u64" where "partition_id_to_wire p = ucast p"

fun t_to_wire :: "T \<Rightarrow> i8" where
  "t_to_wire Neg = - 1"
| "t_to_wire Zero = 0"
| "t_to_wire Pos = 1"

definition put_u8 :: "byte \<Rightarrow> byte list" where "put_u8 v = [v]"
definition put_i8 :: "i8 \<Rightarrow> byte list" where "put_i8 v = [v]"
definition put_u16 :: "u16 \<Rightarrow> byte list" where "put_u16 v = to_le v"
definition put_u32 :: "u32 \<Rightarrow> byte list" where "put_u32 v = to_le v"
definition put_u64 :: "u64 \<Rightarrow> byte list" where "put_u64 v = to_le v"
definition put_i64 :: "u64 \<Rightarrow> byte list" where "put_i64 v = to_le v"

definition put_str_u16 :: "string \<Rightarrow> byte list" where
  "put_str_u16 s = put_u16 (of_nat (length (str_bytes s))) @ str_bytes s"

definition put_uid :: "uid \<Rightarrow> byte list" where "put_uid u = put_u64 (uid_to_wire u)"
definition put_pid :: "partition_id \<Rightarrow> byte list" where "put_pid p = put_u64 (partition_id_to_wire p)"

section \<open>Attribute maps\<close>

fun put_attr_val :: "attr_val \<Rightarrow> byte list" where
  "put_attr_val (Val_Bool b) = put_u8 0x01 @ put_u8 (if b then 1 else 0)"
| "put_attr_val (Val_Int i) = put_u8 0x02 @ put_i64 i"
| "put_attr_val (Val_Float f) = put_u8 0x03 @ put_u64 (if f64_is_nan f then 0x7FF8000000000000 else f)"
| "put_attr_val (Val_Text s) = put_u8 0x04 @ put_str_u16 s"
| "put_attr_val (Val_Ternary t) = put_u8 0x06 @ put_i8 (t_to_wire t)"

text \<open>The entries of an attribute map, sorted by key.\<close>

definition sorted_entries :: "attrs \<Rightarrow> (string \<times> attr_val) list" where
  "sorted_entries a = map (\<lambda>k. (k, the (a k))) (sorted_list_of_set (dom a))"

definition write_attr_map :: "attrs \<Rightarrow> byte list" where
  "write_attr_map a =
     (let entries = sorted_entries a in
      put_u16 (of_nat (length entries)) @ concat (map (\<lambda>(k, v). put_str_u16 k @ put_attr_val v) entries))"

section \<open>Discriminants\<close>

fun opcode_for :: "isa_op \<Rightarrow> u16" where
  "opcode_for (NodeCreate _ _ _ _) = 0x0001"
| "opcode_for (EdgeConnect _ _ _ _ _) = 0x0002"
| "opcode_for (SetValue _ _) = 0x0003"
| "opcode_for (Propagate _) = 0x0004"
| "opcode_for (Subscribe _ _) = 0x0005"
| "opcode_for (DelNode _) = 0x0006"
| "opcode_for (DelEdge _) = 0x0007"
| "opcode_for (Demand _) = 0x0008"
| "opcode_for (SetMode _ _) = 0x0009"
| "opcode_for (Reflect _) = 0x000A"
| "opcode_for (Stabilize _) = 0x000B"
| "opcode_for (PartitionCreate _ _ _ _) = 0x000C"
| "opcode_for (PartitionBind _ _) = 0x000D"
| "opcode_for (SetPartitionAuthority _ _ _) = 0x000E"
| "opcode_for (SetEdgeLabel _ _ _) = 0x000F"
| "opcode_for (SetStabilizationConfig _ _) = 0x0010"
| "opcode_for (SetExecutionPolicy _ _) = 0x0011"
| "opcode_for (RegionDeclare _ _ _ _) = 0x0012"

fun rule_byte :: "node_kind \<Rightarrow> byte" where
  "rule_byte Input = 0x00"
| "rule_byte (Computed Identity_rule) = 0x01"
| "rule_byte (Computed MvNeg) = 0x02"
| "rule_byte (Computed MvAdd) = 0x03"
| "rule_byte (Computed MvMul) = 0x04"
| "rule_byte (Computed MvSub) = 0x05"
| "rule_byte (Computed Merge) = 0x06"
| "rule_byte (Computed MeetAll) = 0x07"
| "rule_byte (Computed JoinAny) = 0x08"
| "rule_byte (Computed BochvarFold) = 0x09"
| "rule_byte (Computed PowerProduct) = 0x0A"

fun port_byte :: "port_kind \<Rightarrow> byte" where
  "port_byte Signal = 0x00"
| "port_byte Effort = 0x01"
| "port_byte Flow = 0x02"
| "port_byte Bond = 0x03"

fun zero_byte :: "zero_kind \<Rightarrow> byte" where
  "zero_byte Conflict = 0x00"
| "zero_byte Incomplete = 0x01"
| "zero_byte Ambiguous = 0x02"
| "zero_byte Retracted = 0x03"
| "zero_byte BoundaryViolation = 0x04"
| "zero_byte VersionSkew = 0x05"

fun put_payload_kind :: "payload_kind \<Rightarrow> byte list" where
  "put_payload_kind Definite = put_u8 0x00"
| "put_payload_kind (TypedZero z) = put_u8 0x01 @ put_u8 (zero_byte z)"

fun mode_byte :: "exec_mode \<Rightarrow> byte" where
  "mode_byte Eager = 0x00"
| "mode_byte Lazy = 0x01"
| "mode_byte Stabilizing = 0x02"

fun strategy_byte :: "rewrite_strategy \<Rightarrow> byte" where
  "strategy_byte FullL3 = 0x00"
| "strategy_byte (Restricted v) = ucast v"

fun domain_byte :: "stabilization_domain \<Rightarrow> byte" where
  "domain_byte LocalOnly = 0x00"
| "domain_byte Federated = 0x01"
| "domain_byte Inherit = 0x02"

fun convergence_byte :: "convergence_policy \<Rightarrow> byte" where
  "convergence_byte Canonical = 0x00"
| "convergence_byte ConvWitness = 0x01"
| "convergence_byte BudgetExhausted = 0x02"

fun priority_byte :: "queue_priority \<Rightarrow> byte" where
  "priority_byte Normal = 0x00"
| "priority_byte High = 0x01"
| "priority_byte Low = 0x02"

fun retry_byte :: "retry_policy \<Rightarrow> byte" where
  "retry_byte Fail = 0x00"
| "retry_byte (Retry _) = 0x01"

fun stability_byte :: "stability_contract \<Rightarrow> byte" where
  "stability_byte Pinned = 0x00"
| "stability_byte EpochTracked = 0x01"

fun compile_byte :: "compile_policy \<Rightarrow> byte" where
  "compile_byte CP_Eager = 0x00"
| "compile_byte CP_Lazy = 0x01"
| "compile_byte CP_Never = 0x02"

section \<open>Payloads\<close>

definition put_remote_dep :: "remote_dep \<Rightarrow> byte list" where
  "put_remote_dep d =
     (let entries = sort_key fst (causal_frontier d) in
      put_pid (source_partition d) @ put_uid (source_uid d) @ put_u64 (source_version d)
      @ put_payload_kind (rd_payload_kind d)
      @ put_u16 (of_nat (length entries)) @ concat (map (\<lambda>(p, c). put_pid p @ put_u64 c) entries)
      @ put_pid (source_authority d) @ put_u64 (emitted_class d) @ put_u8 (ucast (rd_capability d))
      @ put_u64 (scope_bits (rd_causal_scope d)))"

fun put_dep :: "dep_kind \<Rightarrow> byte list" where
  "put_dep (Local None) = put_u8 0x00 @ put_u8 0x00 @ put_str_u16 []"
| "put_dep (Local (Some p)) = put_u8 0x00 @ put_u8 (port_byte (port_kind p)) @ put_str_u16 (port_name p)"
| "put_dep (Remote d) = put_u8 0x01 @ put_u8 (port_byte (rd_port_kind d)) @ put_str_u16 [] @ put_remote_dep d"

fun put_boundary :: "region_boundary \<Rightarrow> byte list" where
  "put_boundary (DepClosure d) = put_u8 0x00 @ put_u32 (of_nat d)"
| "put_boundary (ExplicitSet ids) = put_u8 0x01 @ put_u32 (of_nat (length ids)) @ concat (map put_uid ids)"
| "put_boundary (PartitionScoped p) = put_u8 0x02 @ put_pid p"

fun write_payload :: "isa_op \<Rightarrow> byte list" where
  "write_payload (NodeCreate i typ rule attrs) =
     put_uid i @ put_str_u16 typ @ put_u8 (rule_byte rule) @ write_attr_map attrs"
| "write_payload (EdgeConnect i _ src tgt dep) = put_uid i @ put_uid src @ put_uid tgt @ put_dep dep"
| "write_payload (SetValue nd v) = put_uid nd @ put_i8 (t_to_wire v)"
| "write_payload (Propagate nd) = put_uid nd"
| "write_payload (Subscribe source subscriber) = put_uid source @ put_uid subscriber"
| "write_payload (DelNode i) = put_uid i"
| "write_payload (DelEdge i) = put_uid i"
| "write_payload (Demand nd) = put_uid nd"
| "write_payload (SetMode nd m) = put_uid nd @ put_u8 (mode_byte m)"
| "write_payload (Reflect nd) = put_uid nd"
| "write_payload (Stabilize None) = put_u32 0"
| "write_payload (Stabilize (Some ids)) = put_u32 (of_nat (length ids)) @ concat (map put_uid ids)"
| "write_payload (PartitionCreate i root cls scope) =
     put_pid i @ put_pid root @ put_u64 cls @ put_u64 (scope_bits scope)"
| "write_payload (PartitionBind nd p) = put_uid nd @ put_pid p"
| "write_payload (SetPartitionAuthority p cls scope) = put_pid p @ put_u64 cls @ put_u64 (scope_bits scope)"
| "write_payload (SetEdgeLabel src tgt l) =
     put_uid src @ put_uid tgt @ put_u64 (el_lattice_class l) @ put_u8 (ucast (el_capability l))
     @ put_u64 (scope_bits (el_causal_scope l))"
| "write_payload (SetStabilizationConfig nd cfg) =
     put_uid nd @ put_u8 (strategy_byte (strategy cfg)) @ put_u8 (domain_byte (sc_domain cfg))
     @ put_u32 (of_nat (max_iterations (budget cfg))) @ put_u8 (convergence_byte (convergence cfg))"
| "write_payload (SetExecutionPolicy nd pol) =
     put_uid nd @ put_u8 (priority_byte (queue_priority pol)) @ put_u8 (retry_byte (retry_policy pol))"
| "write_payload (RegionDeclare root bnd stability pol) =
     put_uid root @ put_boundary bnd @ put_u8 (stability_byte stability) @ put_u8 (compile_byte pol)"

section \<open>Records and the preamble\<close>

record record_context =
  rc_tenant_id :: tenant_id
  rc_session_id :: session_id
  rc_partition_id :: wire_partition_id
  rc_causal_epoch :: u64
  rc_stream_seq :: u64
  rc_flags :: u16

definition context_simple :: "session_id \<Rightarrow> u64 \<Rightarrow> record_context" where
  "context_simple sid q = \<lparr>rc_tenant_id = 0, rc_session_id = sid, rc_partition_id = 0,
     rc_causal_epoch = 0, rc_stream_seq = q, rc_flags = 0\<rparr>"

definition encode_record :: "isa_op \<Rightarrow> record_context \<Rightarrow> byte list" where
  "encode_record x ctx =
     (let payload = write_payload x; len = of_nat (48 + length payload) :: u32 in
      to_le (opcode_for x) @ to_le (rc_flags ctx) @ to_le len @ to_le (rc_tenant_id ctx)
      @ to_le (rc_session_id ctx) @ to_le (rc_partition_id ctx) @ to_le (rc_causal_epoch ctx)
      @ to_le (rc_stream_seq ctx) @ payload)"

definition encode_stream_preamble :: "path_id \<Rightarrow> session_id \<Rightarrow> u64 \<Rightarrow> u16 \<Rightarrow> byte list" where
  "encode_stream_preamble path sid features flags =
     PGRS_MAGIC @ to_le (0x0003 :: u16) @ to_le flags @ to_le features @ to_le path @ to_le sid"

end
