(* ===== verification/Wire_Codec.thy ===== *)
theory Wire_Codec
  imports Wire
begin

text \<open>
  Encoder and decoder against each other.  \<open>codec\<close> is the contract of one \<open>put\<close> with its reader:
  a reader that stands before the bytes of a value returns the value's image and stands behind
  them.  The image is what the format keeps of a value.  Every pair of \<^verbatim>\<open>encode.rs\<close> and
  \<^verbatim>\<open>dispatch.rs\<close> is an interpretation; the contract of whole payloads is \<open>payload_roundtrip\<close>.
\<close>

section \<open>Readers within a payload\<close>

definition rd :: "byte list \<Rightarrow> byte list \<Rightarrow> reader" where
  "rd pre rest = \<lparr>rd_buf = pre @ rest, rd_pos = length pre\<rparr>"

lemma reader_new_rd: "reader_new bs = rd [] bs"
  by (simp add: reader_new_def rd_def)

lemma remaining_rd [simp]: "remaining (rd pre rest) = length rest"
  by (simp add: remaining_def rd_def)

lemma advance_rd: "length bs = n \<Longrightarrow> advance n (rd pre (bs @ rest)) = rd (pre @ bs) rest"
  by (simp add: advance_def rd_def)

lemma slice_rd: "length bs = n \<Longrightarrow> take n (drop (rd_pos (rd pre (bs @ rest))) (rd_buf (rd pre (bs @ rest)))) = bs"
  by (simp add: rd_def)

lemma need_rd: "n \<le> length rest \<Longrightarrow> need n (rd pre rest) = Inr ()"
  by (simp add: need_def)

lemma and_then_assoc: "and_then (and_then m f) g = and_then m (\<lambda>x. and_then (f x) g)"
  by (cases m) simp_all

section \<open>The contract\<close>

locale codec =
  fixes put :: "'a \<Rightarrow> byte list" and get :: "'b read" and img :: "'a \<Rightarrow> 'b" and ok :: "'a \<Rightarrow> bool"
  assumes decode: "ok x \<Longrightarrow> get (rd pre (put x @ rest)) = Inr (img x, rd (pre @ put x) rest)"
begin

lemma decode_bind:
  "ok x \<Longrightarrow> and_then (get (rd pre (put x @ rest))) k = k (img x, rd (pre @ put x) rest)"
  by (simp add: decode)

end

text \<open>A counted loop that folds the values it reads into an accumulator.\<close>

locale codec_loop = codec +
  fixes step :: "'b \<Rightarrow> 's \<Rightarrow> 's" and loop :: "nat \<Rightarrow> 's \<Rightarrow> 's read"
  assumes loop_0: "loop 0 s r = Inr (s, r)"
    and loop_Suc: "loop (Suc n) s r = and_then (get r) (\<lambda>(x, r1). loop n (step x s) r1)"
begin

lemma loop_decode:
  "list_all ok xs \<Longrightarrow>
     loop (length xs) s (rd pre (concat (map put xs) @ rest))
       = Inr (fold step (map img xs) s, rd (pre @ concat (map put xs)) rest)"
proof (induction xs arbitrary: s pre)
  case Nil
  show ?case by (simp add: loop_0)
next
  case (Cons x xs)
  then show ?case by (simp add: loop_Suc decode_bind)
qed

end

section \<open>Integers and strings\<close>

lemma le_at_rd: "length bs = n \<Longrightarrow> le_at (rd_buf (rd pre (bs @ rest))) (rd_pos (rd pre (bs @ rest))) n = from_le bs"
  by (simp add: le_at_def slice_rd)

interpretation u8_codec: codec put_u8 read_u8 "\<lambda>x. x" "\<lambda>_. True"
  by unfold_locales (simp add: put_u8_def read_u8_def need_def remaining_def advance_def rd_def nth_append)

interpretation i8_codec: codec put_i8 read_i8 "\<lambda>x. x" "\<lambda>_. True"
  by unfold_locales (simp add: put_i8_def read_i8_def read_u8_def need_def remaining_def advance_def rd_def nth_append)

interpretation u16_codec: codec put_u16 read_u16 "\<lambda>x. x" "\<lambda>_. True"
  by unfold_locales (simp add: put_u16_def read_u16_def need_rd le_at_rd advance_rd from_le_to_le)

interpretation u32_codec: codec put_u32 read_u32 "\<lambda>x. x" "\<lambda>_. True"
  by unfold_locales (simp add: put_u32_def read_u32_def need_rd le_at_rd advance_rd from_le_to_le)

interpretation u64_codec: codec put_u64 read_u64 "\<lambda>x. x" "\<lambda>_. True"
  by unfold_locales (simp add: put_u64_def read_u64_def need_rd le_at_rd advance_rd from_le_to_le)

interpretation i64_codec: codec put_i64 read_i64 "\<lambda>x. x" "\<lambda>_. True"
  by unfold_locales (simp add: put_i64_def read_i64_def need_rd le_at_rd advance_rd from_le_to_le)

interpretation f64_codec: codec put_u64 read_f64 f64_canonical "\<lambda>_. True"
  by unfold_locales (simp add: put_u64_def read_f64_def need_rd le_at_rd advance_rd from_le_to_le)

lemma f64_canonical_idem [simp]: "f64_canonical (f64_canonical b) = f64_canonical b"
  by (simp add: f64_canonical_def f64_is_nan_def)

interpretation t_codec: codec "\<lambda>t. put_i8 (t_to_wire t)" read_t "\<lambda>x. x" "\<lambda>_. True"
proof unfold_locales
  fix t pre rest
  show "read_t (rd pre (put_i8 (t_to_wire t) @ rest)) = Inr (t, rd (pre @ put_i8 (t_to_wire t)) rest)"
    by (cases t) (simp_all add: read_t_def i8_codec.decode wire_to_t_def)
qed

definition uid_image :: "uid \<Rightarrow> uid" where "uid_image u = wire_to_uid (uid_to_wire u)"
definition pid_image :: "partition_id \<Rightarrow> partition_id" where
  "pid_image p = wire_to_partition_id (partition_id_to_wire p)"

lemma uid_image_take: "uid_image u = take_bit 64 u"
  by (rule bit_word_eqI)
    (auto simp: uid_image_def wire_to_uid_def uid_to_wire_def bit_ucast_iff bit_take_bit_iff)

lemma pid_image_uid: "pid_image p = uid_image p"
  by (simp add: pid_image_def uid_image_def wire_to_uid_def uid_to_wire_def wire_to_partition_id_def
      partition_id_to_wire_def)

lemma uid_image_id: "uid_image u = u \<longleftrightarrow> unat u < 2 ^ 64"
  by (simp add: uid_image_take word_unat_eq_iff unsigned_take_bit_eq take_bit_nat_eq_self_iff)

lemma uid_image_twice [simp]: "uid_image (uid_image u) = uid_image u"
  by (simp add: uid_image_take)

interpretation uid_codec: codec put_uid read_uid uid_image "\<lambda>_. True"
  by unfold_locales (simp add: put_uid_def read_uid_def u64_codec.decode uid_image_def)

interpretation pid_codec: codec put_pid read_pid pid_image "\<lambda>_. True"
  by unfold_locales (simp add: put_pid_def read_pid_def u64_codec.decode pid_image_def)

definition str_ok :: "string \<Rightarrow> bool" where
  "str_ok s \<longleftrightarrow> is_str s \<and> length s < 2 ^ 16"

lemma read_str_rd:
  "is_str s \<Longrightarrow> length s = n \<Longrightarrow> read_str n (rd pre (str_bytes s @ rest)) = Inr (s, rd (pre @ str_bytes s) rest)"
  by (simp add: read_str_def need_rd slice_rd advance_rd is_str_def Let_def)

interpretation str_codec: codec put_str_u16 read_str_u16 "\<lambda>x. x" str_ok
  by unfold_locales
    (simp add: put_str_u16_def read_str_u16_def u16_codec.decode str_ok_def read_str_rd sig_len_read)

section \<open>Lists of node ids\<close>

locale codec_list = codec +
  fixes loop :: "nat \<Rightarrow> 'b list read"
  assumes loop_0: "loop 0 r = Inr ([], r)"
    and loop_Suc: "loop (Suc n) r = and_then (get r) (\<lambda>(x, r1).
      and_then (loop n r1) (\<lambda>(xs, r2). Inr (x # xs, r2)))"
begin

lemma list_decode:
  "list_all ok xs \<Longrightarrow>
     loop (length xs) (rd pre (concat (map put xs) @ rest)) = Inr (map img xs, rd (pre @ concat (map put xs)) rest)"
proof (induction xs arbitrary: pre)
  case Nil
  show ?case by (simp add: loop_0)
next
  case (Cons x xs)
  then show ?case by (simp add: loop_Suc decode_bind)
qed

end

interpretation uids: codec_list put_uid read_uid uid_image "\<lambda>_. True" read_uids
  by unfold_locales simp_all

lemma read_uids_rd:
  "length us = n \<Longrightarrow> read_uids n (rd pre (concat (map put_uid us) @ rest))
     = Inr (map uid_image us, rd (pre @ concat (map put_uid us)) rest)"
  using uids.list_decode[of us pre rest] by (simp add: list_all_iff)

section \<open>Attribute maps\<close>

fun val_image :: "attr_val \<Rightarrow> attr_val" where
  "val_image (Val_Float f) = Val_Float (f64_canonical f)"
| "val_image v = v"

fun val_ok :: "attr_val \<Rightarrow> bool" where
  "val_ok (Val_Text s) = str_ok s"
| "val_ok _ = True"

lemma put_float: "put_attr_val (Val_Float f) = put_u8 0x03 @ put_u64 (f64_canonical f)"
  by (simp add: f64_canonical_def)

text \<open>A tagged value, and an entry of the map, as the code reads them one after the other.\<close>

definition read_val :: "attr_val read" where
  "read_val r = and_then (read_u8 r) (\<lambda>(tag, r2). read_attr_val tag r2)"

definition read_entry :: "(string \<times> attr_val) read" where
  "read_entry r = and_then (read_str_u16 r) (\<lambda>(key, r1). and_then (read_val r1) (\<lambda>(v, r2). Inr ((key, v), r2)))"

definition put_entry :: "string \<times> attr_val \<Rightarrow> byte list" where
  "put_entry = (\<lambda>(k, v). put_str_u16 k @ put_attr_val v)"

interpretation val_codec: codec put_attr_val read_val val_image val_ok
proof unfold_locales
  fix x pre rest assume "val_ok x"
  then show "read_val (rd pre (put_attr_val x @ rest)) = Inr (val_image x, rd (pre @ put_attr_val x) rest)"
  proof (cases x)
    case (Val_Text t)
    have "read_attr_val 4 r = and_then (read_str_u16 r) (\<lambda>(s, r2). Inr (Val_Text s, r2))" for r
      by (simp add: read_attr_val_def read_str_u16_def and_then_assoc case_prod_unfold)
    then show ?thesis
      using Val_Text \<open>val_ok x\<close> by (simp add: read_val_def u8_codec.decode str_codec.decode)
  qed (simp_all add: read_val_def read_attr_val_def u8_codec.decode i64_codec.decode f64_codec.decode
      t_codec.decode put_float del: put_attr_val.simps(3))
qed

interpretation entry_codec: codec put_entry read_entry "\<lambda>(k, v). (k, val_image v)" "\<lambda>(k, v). str_ok k \<and> val_ok v"
  by unfold_locales (auto simp: put_entry_def read_entry_def str_codec.decode val_codec.decode)

interpretation attrs_loop: codec_loop put_entry read_entry "\<lambda>(k, v). (k, val_image v)" "\<lambda>(k, v). str_ok k \<and> val_ok v"
  "\<lambda>(k, v) a. attrs_set a k v" read_attrs
  by unfold_locales (simp_all add: read_entry_def read_val_def and_then_assoc case_prod_unfold)

definition attrs_image :: "attrs \<Rightarrow> attrs" where
  "attrs_image a = (\<lambda>k. map_option val_image (a k))"

definition attrs_ok :: "attrs \<Rightarrow> bool" where
  "attrs_ok a \<longleftrightarrow> finite (dom a) \<and> card (dom a) < 2 ^ 16 \<and> (\<forall>k v. a k = Some v \<longrightarrow> str_ok k \<and> val_ok v)"

lemma fold_attrs_set:
  "fold (\<lambda>(k, v) a. attrs_set a k v) (map (\<lambda>k. (k, f k)) ks) m = (\<lambda>k. if k \<in> set ks then Some (f k) else m k)"
  by (induction ks arbitrary: m) (auto simp: attrs_set_def)

lemma fold_entries:
  "finite (dom a) \<Longrightarrow>
     fold (\<lambda>(k, v) a. attrs_set a k v) (map (\<lambda>(k, v). (k, val_image v)) (sorted_entries a)) attrs_new = attrs_image a"
proof -
  assume f: "finite (dom a)"
  have "map (\<lambda>(k, v). (k, val_image v)) (sorted_entries a)
      = map (\<lambda>k. (k, val_image (the (a k)))) (sorted_list_of_set (dom a))"
    by (simp add: sorted_entries_def)
  moreover have "(\<lambda>k. if k \<in> dom a then Some (val_image (the (a k))) else attrs_new k) = attrs_image a"
    by (rule ext) (auto simp: attrs_image_def attrs_new_def dom_def)
  ultimately show ?thesis
    using f by (simp only: fold_attrs_set set_sorted_list_of_set)
qed

interpretation attrs_codec: codec write_attr_map parse_attr_map attrs_image attrs_ok
proof unfold_locales
  fix a pre rest assume a: "attrs_ok a"
  let ?es = "sorted_entries a"
  have n: "length ?es = card (dom a)" "length ?es < 2 ^ 16"
    using a by (simp_all add: attrs_ok_def sorted_entries_def)
  have ok: "list_all (\<lambda>(k, v). str_ok k \<and> val_ok v) ?es"
    using a by (auto simp: list_all_iff sorted_entries_def attrs_ok_def)
  have w: "write_attr_map a = put_u16 (of_nat (length ?es)) @ concat (map put_entry ?es)"
    by (simp add: write_attr_map_def put_entry_def Let_def)
  show "parse_attr_map (rd pre (write_attr_map a @ rest)) = Inr (attrs_image a, rd (pre @ write_attr_map a) rest)"
    using attrs_loop.loop_decode[OF ok, of attrs_new] fold_entries a n
    by (simp add: w parse_attr_map_def u16_codec.decode sig_len_read attrs_ok_def)
qed

section \<open>Dependencies and boundaries\<close>

interpretation payload_kind_codec: codec put_payload_kind read_payload_kind "\<lambda>x. x" "\<lambda>_. True"
proof unfold_locales
  fix x pre rest
  have z: "zero_kind_of_byte (zero_byte k) = Inr k" for k by (cases k) (simp_all add: zero_kind_of_byte_def)
  show "read_payload_kind (rd pre (put_payload_kind x @ rest)) = Inr (x, rd (pre @ put_payload_kind x) rest)"
    by (cases x) (simp_all add: read_payload_kind_def u8_codec.decode z)
qed

definition put_clock :: "partition_id \<times> u64 \<Rightarrow> byte list" where
  "put_clock = (\<lambda>(p, c). put_pid p @ put_u64 c)"

definition read_clock :: "(partition_id \<times> u64) read" where
  "read_clock r = and_then (read_pid r) (\<lambda>(p, r1). and_then (read_u64 r1) (\<lambda>(c, r2). Inr ((p, c), r2)))"

interpretation clock_codec: codec put_clock read_clock "\<lambda>(p, c). (pid_image p, c)" "\<lambda>_. True"
  by unfold_locales (auto simp: put_clock_def read_clock_def pid_codec.decode u64_codec.decode)

interpretation frontier_loop: codec_loop put_clock read_clock "\<lambda>(p, c). (pid_image p, c)" "\<lambda>_. True"
  "\<lambda>(p, c) f. vc_set f p c" read_frontier
  by unfold_locales (simp_all add: read_clock_def and_then_assoc case_prod_unfold)

definition frontier_image :: "vector_clock \<Rightarrow> vector_clock" where
  "frontier_image f = fold (\<lambda>(p, c) g. vc_set g p c) (map (\<lambda>(p, c). (pid_image p, c)) (sort_key fst f)) []"

definition remote_image :: "remote_dep \<Rightarrow> remote_dep" where
  "remote_image d = d\<lparr>source_partition := pid_image (source_partition d), source_uid := uid_image (source_uid d),
     causal_frontier := frontier_image (causal_frontier d), source_authority := pid_image (source_authority d),
     rd_capability := ucast (ucast (rd_capability d) :: byte),
     rd_causal_scope := \<lparr>scope_bits = scope_bits (rd_causal_scope d), scope_root = 0\<rparr>\<rparr>"

definition remote_ok :: "remote_dep \<Rightarrow> bool" where
  "remote_ok d \<longleftrightarrow> length (causal_frontier d) < 2 ^ 16"

lemma read_remote_rd:
  assumes "remote_ok d"
  shows "read_remote_dep (rd_port_kind d) (rd pre (put_remote_dep d @ rest))
    = Inr (remote_image d, rd (pre @ put_remote_dep d) rest)"
proof -
  let ?es = "sort_key fst (causal_frontier d)"
  have n: "length ?es < 2 ^ 16" using assms by (simp add: remote_ok_def)
  have w: "put_remote_dep d = put_pid (source_partition d) @ put_uid (source_uid d) @ put_u64 (source_version d)
      @ put_payload_kind (rd_payload_kind d) @ put_u16 (of_nat (length ?es)) @ concat (map put_clock ?es)
      @ put_pid (source_authority d) @ put_u64 (emitted_class d) @ put_u8 (ucast (rd_capability d))
      @ put_u64 (scope_bits (rd_causal_scope d))"
    by (simp add: put_remote_dep_def put_clock_def Let_def)
  have f: "read_frontier (length ?es) [] (rd q (concat (map put_clock ?es) @ r))
      = Inr (frontier_image (causal_frontier d), rd (q @ concat (map put_clock ?es)) r)" for q r
    using frontier_loop.loop_decode[of ?es "[]" q r] by (simp add: frontier_image_def list_all_iff)
  show ?thesis
    using n f
    by (simp add: w read_remote_dep_def pid_codec.decode uid_codec.decode u64_codec.decode
        payload_kind_codec.decode u16_codec.decode u8_codec.decode sig_len_read remote_image_def)
qed

lemma count_read: "n < 2 ^ 32 \<Longrightarrow> unat (of_nat n :: u32) = n"
  by (simp add: unat_of_nat take_bit_nat_eq_self)

fun boundary_image :: "region_boundary \<Rightarrow> region_boundary" where
  "boundary_image (DepClosure d) = DepClosure (unat (of_nat d :: u32))"
| "boundary_image (ExplicitSet ids) = ExplicitSet (map uid_image ids)"
| "boundary_image (PartitionScoped p) = PartitionScoped (pid_image p)"

fun boundary_ok :: "region_boundary \<Rightarrow> bool" where
  "boundary_ok (ExplicitSet ids) = (length ids < 2 ^ 32)"
| "boundary_ok _ = True"

interpretation boundary_codec: codec put_boundary read_boundary boundary_image boundary_ok
proof unfold_locales
  fix x pre rest assume "boundary_ok x"
  then show "read_boundary (rd pre (put_boundary x @ rest)) = Inr (boundary_image x, rd (pre @ put_boundary x) rest)"
    by (cases x) (simp_all add: read_boundary_def u8_codec.decode u32_codec.decode pid_codec.decode
        count_read read_uids_rd)
qed

section \<open>What the format keeps of an instruction\<close>

fun wire_image :: "isa_op \<Rightarrow> isa_op" where
  "wire_image (NodeCreate i typ rule attrs) = NodeCreate (uid_image i) typ rule (attrs_image attrs)"
| "wire_image (EdgeConnect i _ src tgt (Local None)) =
     EdgeConnect (uid_image i) ''dep'' (uid_image src) (uid_image tgt) (Local None)"
| "wire_image (EdgeConnect i _ src tgt (Local (Some p))) =
     EdgeConnect (uid_image i) ''dep'' (uid_image src) (uid_image tgt)
       (Local (if port_name p = [] then None else Some p))"
| "wire_image (EdgeConnect i _ src tgt (Remote d)) =
     EdgeConnect (uid_image i) ''dep'' (uid_image src) (uid_image tgt) (Remote (remote_image d))"
| "wire_image (SetValue nd v) = SetValue (uid_image nd) v"
| "wire_image (Propagate nd) = Propagate (uid_image nd)"
| "wire_image (Subscribe source subscriber) = Subscribe (uid_image source) (uid_image subscriber)"
| "wire_image (DelNode i) = DelNode (uid_image i)"
| "wire_image (DelEdge i) = DelEdge (uid_image i)"
| "wire_image (Demand nd) = Demand (uid_image nd)"
| "wire_image (SetMode nd m) = SetMode (uid_image nd) m"
| "wire_image (Reflect nd) = Reflect (uid_image nd)"
| "wire_image (Stabilize None) = Stabilize None"
| "wire_image (Stabilize (Some ids)) = Stabilize (if ids = [] then None else Some (map uid_image ids))"
| "wire_image (PartitionCreate i root cls scope) = PartitionCreate (pid_image i) (pid_image root) cls
     \<lparr>scope_bits = scope_bits scope, scope_root = pid_image i\<rparr>"
| "wire_image (PartitionBind nd p) = PartitionBind (uid_image nd) (pid_image p)"
| "wire_image (SetPartitionAuthority p cls scope) =
     SetPartitionAuthority (pid_image p) cls \<lparr>scope_bits = scope_bits scope, scope_root = 0\<rparr>"
| "wire_image (SetEdgeLabel src tgt l) = SetEdgeLabel (uid_image src) (uid_image tgt)
     \<lparr>el_capability = ucast (ucast (el_capability l) :: byte), el_lattice_class = el_lattice_class l,
      el_projection_mask = mask_wildcard,
      el_causal_scope = \<lparr>scope_bits = scope_bits (el_causal_scope l), scope_root = 0\<rparr>\<rparr>"
| "wire_image (SetStabilizationConfig nd cfg) = SetStabilizationConfig (uid_image nd)
     (cfg\<lparr>strategy := (case strategy cfg of FullL3 \<Rightarrow> FullL3
         | Restricted v \<Rightarrow> if (ucast v :: byte) = 0 then FullL3 else Restricted (ucast (ucast v :: byte))),
         budget := \<lparr>max_iterations = unat (of_nat (max_iterations (budget cfg)) :: u32)\<rparr>\<rparr>)"
| "wire_image (SetExecutionPolicy nd pol) = SetExecutionPolicy (uid_image nd)
     (pol\<lparr>retry_policy := (case retry_policy pol of Fail \<Rightarrow> Fail | Retry _ \<Rightarrow> Retry 3)\<rparr>)"
| "wire_image (RegionDeclare root bnd stability pol) =
     RegionDeclare (uid_image root) (boundary_image bnd) stability pol"

text \<open>What must fit: counts in their fields, strings valid and short enough.\<close>

fun op_fits :: "isa_op \<Rightarrow> bool" where
  "op_fits (NodeCreate _ typ _ attrs) = (str_ok typ \<and> attrs_ok attrs)"
| "op_fits (EdgeConnect _ _ _ _ (Local (Some p))) = str_ok (port_name p)"
| "op_fits (EdgeConnect _ _ _ _ (Remote d)) = remote_ok d"
| "op_fits (Stabilize (Some ids)) = (length ids < 2 ^ 32)"
| "op_fits (RegionDeclare _ bnd _ _) = boundary_ok bnd"
| "op_fits _ = True"

lemmas codec_decodes = u8_codec.decode u16_codec.decode u32_codec.decode u64_codec.decode uid_codec.decode
  pid_codec.decode t_codec.decode str_codec.decode attrs_codec.decode boundary_codec.decode

lemma node_kind_image: "node_kind_of_byte (rule_byte k) = Inr k"
  by (cases k rule: rule_byte.cases) (simp_all add: node_kind_of_byte_def)

lemma port_kind_image: "port_kind_of_byte (port_byte p) = Inr p"
  by (cases p) (simp_all add: port_kind_of_byte_def)

lemma mode_image: "exec_mode_of_byte (mode_byte m) = Inr m"
  by (cases m) (simp_all add: exec_mode_of_byte_def)

lemma stability_image: "stability_of_byte (stability_byte st) = Inr st"
  by (cases st) (simp_all add: stability_of_byte_def)

lemma compile_image: "compile_of_byte (compile_byte cp) = Inr cp"
  by (cases cp) (simp_all add: compile_of_byte_def)

lemma config_images:
  "domain_of_byte (domain_byte d) = d" "convergence_of_byte (convergence_byte c) = c"
  "priority_of_byte (priority_byte q) = q"
proof -
  show "domain_of_byte (domain_byte d) = d" by (cases d) (simp_all add: domain_of_byte_def)
  show "convergence_of_byte (convergence_byte c) = c" by (cases c) (simp_all add: convergence_of_byte_def)
  show "priority_of_byte (priority_byte q) = q" by (cases q) (simp_all add: priority_of_byte_def)
qed

lemma retry_image: "retry_of_byte (retry_byte r) = (case r of Fail \<Rightarrow> Fail | Retry _ \<Rightarrow> Retry 3)"
  by (cases r) (simp_all add: retry_of_byte_def)

lemma strategy_image:
  "strategy_of_byte (strategy_byte s) = (case s of FullL3 \<Rightarrow> FullL3
     | Restricted v \<Rightarrow> if (ucast v :: byte) = 0 then FullL3 else Restricted (ucast (ucast v :: byte)))"
  by (cases s) (simp_all add: strategy_of_byte_def)

lemmas byte_images = node_kind_image port_kind_image mode_image stability_image compile_image
  config_images retry_image strategy_image

section \<open>Payloads\<close>

lemma put_empty_name: "put_str_u16 [] = put_u16 0"
  by (simp add: put_str_u16_def str_bytes_def)

lemma str_ok_Nil [simp]: "str_ok []"
  by (simp add: str_ok_def)

lemma decode_edge:
  assumes "op_fits (EdgeConnect i typ src tgt dep)"
  shows "parse_edge_connect (rd pre (write_payload (EdgeConnect i typ src tgt dep) @ rest))
    = Inr (wire_image (EdgeConnect i typ src tgt dep))"
proof (cases dep)
  case (Local q)
  have "port_kind_of_byte 0 = Inr Signal" by (simp add: port_kind_of_byte_def)
  with Local show ?thesis
    using assms by (cases q) (simp_all add: parse_edge_connect_def codec_decodes byte_images)
next
  case (Remote d)
  then show ?thesis
    using assms by (simp add: parse_edge_connect_def codec_decodes byte_images read_remote_rd)
qed

lemma count_zero: "n < 2 ^ 32 \<Longrightarrow> (of_nat n :: u32) = 0 \<longleftrightarrow> n = 0"
  by (metis count_read unat_eq_0)

lemma decode_stabilize:
  assumes "op_fits (Stabilize region)"
  shows "parse_stabilize (rd pre (write_payload (Stabilize region) @ rest)) = Inr (wire_image (Stabilize region))"
proof (cases region)
  case None
  then show ?thesis by (simp add: parse_stabilize_def codec_decodes)
next
  case (Some ids)
  then show ?thesis
    using assms by (auto simp: parse_stabilize_def codec_decodes count_zero count_read read_uids_rd)
qed

lemma decode_payload:
  assumes "op_fits x"
  shows "parse_payload (opcode_for x) (write_payload x @ rest) = Inr (wire_image x)"
proof (cases x)
  case (EdgeConnect i ty src tgt dep)
  then show ?thesis using decode_edge assms by (simp add: parse_payload_def reader_new_rd del: write_payload.simps)
next
  case (Stabilize region)
  then show ?thesis
    using decode_stabilize assms by (simp add: parse_payload_def reader_new_rd del: write_payload.simps)
next
  case (NodeCreate i ty k a)
  then show ?thesis
    using assms by (simp add: parse_payload_def reader_new_rd parse_node_create_def codec_decodes byte_images)
next
  case (RegionDeclare root bnd stability pol)
  then show ?thesis
    using assms by (simp add: parse_payload_def reader_new_rd parse_region_declare_def codec_decodes byte_images)
next
  case (PartitionCreate i root cls scope)
  then show ?thesis
    by (simp add: parse_payload_def reader_new_rd parse_partition_create_def put_pid_def u64_codec.decode pid_image_def)
next
  case (SetPartitionAuthority p cls scope)
  then show ?thesis
    by (simp add: parse_payload_def reader_new_rd parse_set_partition_authority_def put_pid_def u64_codec.decode
        pid_image_def)
qed (simp_all add: parse_payload_def reader_new_rd parse_set_value_def parse_uid_op_def parse_subscribe_def
      parse_set_mode_def parse_partition_bind_def parse_set_edge_label_def parse_set_stabilization_def
      parse_set_execution_def codec_decodes byte_images)

text \<open>
  C9. Payloads survive the wire: for every instruction whose strings are valid UTF-8 shorter than
  65536 bytes and whose lists fit their counts, the parser for its opcode reads what the encoder
  wrote, whatever bytes follow, and returns the instruction's wire image; two such instructions of
  one opcode with the same bytes have the same image; node and partition ids come back unchanged
  exactly when they fit 64 bits.
\<close>

theorem payload_roundtrip:
  assumes "op_fits x" "op_fits y"
  shows "parse_payload (opcode_for x) (write_payload x @ extra) = Inr (wire_image x)
    \<and> (opcode_for x = opcode_for y \<longrightarrow> write_payload x = write_payload y \<longrightarrow> wire_image x = wire_image y)
    \<and> (uid_image u = u) = (unat u < 2 ^ 64) \<and> (pid_image p = p) = (unat p < 2 ^ 64)"
  using decode_payload[OF assms(1)] decode_payload[OF assms(2), of "[]"] decode_payload[OF assms(1), of "[]"]
  by (auto simp: uid_image_id pid_image_uid)

theorem payload_roundtrip_witness:
  "parse_payload 0x0001 (write_payload (NodeCreate 7 ''in'' (Computed MvAdd) [''k'' \<mapsto> Val_Int 5]) @ [1, 2])
     = Inr (NodeCreate 7 ''in'' (Computed MvAdd) [''k'' \<mapsto> Val_Int 5])"
proof -
  have a: "attrs_image [''k'' \<mapsto> Val_Int 5] = [''k'' \<mapsto> Val_Int 5]"
    by (auto simp: attrs_image_def)
  have u: "uid_image 7 = 7" by (simp add: uid_image_id)
  have f: "op_fits (NodeCreate 7 ''in'' (Computed MvAdd) [''k'' \<mapsto> Val_Int 5])"
    by (simp add: str_ok_def is_str_def str_bytes_def byte_of_def attrs_ok_def)
  show ?thesis using payload_roundtrip[OF f f, of "[1, 2]" 7 7] by (simp add: a u del: write_payload.simps)
qed

text \<open>
  What the wire loses: an explicit but empty stabilization region arrives as no region, that
  is, as a request to stabilize everything; a retry policy arrives with three attempts; a rewrite
  restriction arrives with its low byte, and without any restriction when that is zero; of an edge
  label's capability only the low byte arrives, its projection mask becomes the wildcard and its scope loses
  the root; an edge arrives with the type \<open>dep\<close>; and of a string of 65536 bytes the length arrives as
  zero, so that the reader stands before its bytes as if they were the next fields.
\<close>

theorem wire_losses:
  assumes "is_str s" "length s = 2 ^ 16" "str_ok (port_name p)" "port_name p \<noteq> []"
  shows "parse_payload 0x000B (write_payload (Stabilize (Some []))) = Inr (Stabilize None)
    \<and> parse_payload 0x0011 (write_payload (SetExecutionPolicy 1 \<lparr>queue_priority = High, retry_policy = Retry n\<rparr>))
        = Inr (SetExecutionPolicy 1 \<lparr>queue_priority = High, retry_policy = Retry 3\<rparr>)
    \<and> parse_payload 0x0010 (write_payload (SetStabilizationConfig 1 (stabilization_config_default\<lparr>strategy := Restricted 0x100\<rparr>)))
        = Inr (SetStabilizationConfig 1 stabilization_config_default)
    \<and> parse_payload 0x000F (write_payload (SetEdgeLabel 1 2 \<lparr>el_capability = CAP_ALL, el_lattice_class = c,
           el_projection_mask = m, el_causal_scope = \<lparr>scope_bits = b, scope_root = r\<rparr>\<rparr>))
        = Inr (SetEdgeLabel 1 2 \<lparr>el_capability = 0xFF, el_lattice_class = c, el_projection_mask = mask_wildcard,
           el_causal_scope = \<lparr>scope_bits = b, scope_root = 0\<rparr>\<rparr>)
    \<and> parse_payload 0x0002 (write_payload (EdgeConnect 1 ''flow'' 2 3 (Local (Some p))))
        = Inr (EdgeConnect 1 ''dep'' 2 3 (Local (Some p)))
    \<and> read_str_u16 (rd pre (put_str_u16 s @ rest)) = Inr ([], rd (pre @ [0, 0]) (str_bytes s @ rest))"
proof -
  have u: "uid_image 1 = 1" "uid_image 2 = 2" "uid_image 3 = 3" by (simp_all add: uid_image_id)
  have cap: "ucast (ucast (- 1 :: u64) :: byte) = (0xFF :: u64)" by code_simp
  note R = decode_payload[of _ "[]", simplified append_Nil2]
  have "parse_payload 0x000B (write_payload (Stabilize (Some []))) = Inr (Stabilize None)"
    using R[of "Stabilize (Some [])"] by simp
  moreover have "parse_payload 0x0011 (write_payload (SetExecutionPolicy 1 \<lparr>queue_priority = High, retry_policy = Retry n\<rparr>))
        = Inr (SetExecutionPolicy 1 \<lparr>queue_priority = High, retry_policy = Retry 3\<rparr>)"
    using R[of "SetExecutionPolicy 1 \<lparr>queue_priority = High, retry_policy = Retry n\<rparr>"] u by simp
  moreover have "parse_payload 0x0010 (write_payload (SetStabilizationConfig 1 (stabilization_config_default\<lparr>strategy := Restricted 0x100\<rparr>)))
        = Inr (SetStabilizationConfig 1 stabilization_config_default)"
    using R[of "SetStabilizationConfig 1 (stabilization_config_default\<lparr>strategy := Restricted 0x100\<rparr>)"] u
    by (simp add: stabilization_config_default_def)
  moreover have "parse_payload 0x000F (write_payload (SetEdgeLabel 1 2 \<lparr>el_capability = CAP_ALL, el_lattice_class = c,
           el_projection_mask = m, el_causal_scope = \<lparr>scope_bits = b, scope_root = r\<rparr>\<rparr>))
        = Inr (SetEdgeLabel 1 2 \<lparr>el_capability = 0xFF, el_lattice_class = c, el_projection_mask = mask_wildcard,
           el_causal_scope = \<lparr>scope_bits = b, scope_root = 0\<rparr>\<rparr>)"
    using R[of "SetEdgeLabel 1 2 \<lparr>el_capability = CAP_ALL, el_lattice_class = c,
           el_projection_mask = m, el_causal_scope = \<lparr>scope_bits = b, scope_root = r\<rparr>\<rparr>"] u
    by (simp add: CAP_ALL_def cap)
  moreover have "parse_payload 0x0002 (write_payload (EdgeConnect 1 ''flow'' 2 3 (Local (Some p))))
        = Inr (EdgeConnect 1 ''dep'' 2 3 (Local (Some p)))"
    using R[of "EdgeConnect 1 ''flow'' 2 3 (Local (Some p))"] u assms by simp
  moreover have "read_str_u16 (rd pre (put_str_u16 s @ rest)) = Inr ([], rd (pre @ [0, 0]) (str_bytes s @ rest))"
  proof -
    have z: "(of_nat (length s) :: u16) = 0" using assms(2) by (simp add: word_unat_eq_iff unat_of_nat take_bit_eq_mod)
    have b: "put_u16 0 = [0, 0]" by code_simp
    have "put_str_u16 s @ rest = put_u16 0 @ str_bytes s @ rest" by (simp add: put_str_u16_def z)
    moreover have "read_str_u16 (rd pre (put_u16 0 @ str_bytes s @ rest)) = read_str 0 (rd (pre @ put_u16 0) (str_bytes s @ rest))"
      by (simp add: read_str_u16_def u16_codec.decode)
    moreover have "read_str 0 (rd (pre @ put_u16 0) (str_bytes s @ rest)) = Inr ([], rd (pre @ put_u16 0) (str_bytes s @ rest))"
      using read_str_rd[of "[]" 0 "pre @ put_u16 0" "str_bytes s @ rest"] by (simp add: str_bytes_def)
    ultimately show ?thesis by (simp only: b)
  qed
  ultimately show ?thesis by blast
qed

theorem wire_losses_witness:
  "parse_payload 0x000B (write_payload (Stabilize (Some []))) = Inr (Stabilize None)
   \<and> read_str_u16 (rd [] (put_str_u16 (replicate (2 ^ 16) (CHR ''a'')) @ [9]))
       = Inr ([], rd ([] @ [0, 0]) (str_bytes (replicate (2 ^ 16) (CHR ''a'')) @ [9]))"
proof -
  have s: "is_str (replicate (2 ^ 16) (CHR ''a''))"
    by (auto simp: is_str_def str_bytes_def byte_of_def intro!: ascii_valid)
  have p: "str_ok (port_name (port_flow ''p''))" "port_name (port_flow ''p'') \<noteq> []"
    by (simp_all add: port_flow_def str_ok_def is_str_def str_bytes_def byte_of_def)
  show ?thesis using wire_losses[OF s _ p, where pre="[]" and rest="[9]"] by (simp del: write_payload.simps)
qed

end
