(* ===== verification/Wire_Record.thy ===== *)
theory Wire_Record
  imports Wire_Codec
begin

text \<open>
  Whole records: what \<^verbatim>\<open>encode.rs\<close> writes as preamble and record is what \<^verbatim>\<open>decode.rs\<close> reads, up to the
  payload that \<open>Wire_Codec\<close> is about, and every encoder opcode has a class of its own.
\<close>

definition context_header :: "isa_op \<Rightarrow> record_context \<Rightarrow> parsed_header" where
  "context_header x ctx = \<lparr>ph_opcode = opcode_for x, ph_flags = rc_flags ctx,
     ph_length = of_nat (48 + length (write_payload x)), ph_tenant_id = rc_tenant_id ctx,
     ph_session_id = rc_session_id ctx, ph_partition_id = rc_partition_id ctx,
     ph_causal_epoch = rc_causal_epoch ctx, ph_stream_seq = rc_stream_seq ctx\<rparr>"

lemma encoded_length: "length (encode_record x ctx) = 48 + length (write_payload x)"
  by (simp add: encode_record_def Let_def)

lemma encoded_header: "parse_header (take 48 (encode_record x ctx)) = context_header x ctx"
  by (simp add: parse_header_def context_header_def encode_record_def Let_def le_at_def take_append from_le_to_le
      drop_take)

lemma encoded_payload: "drop 48 (encode_record x ctx) = write_payload x"
  by (simp add: encode_record_def Let_def)

lemma opcode_class_known:
  "from_opcode (opcode_for x) \<noteq> OC_Unknown" "opcode_for x \<noteq> 0" "opcode_for x \<noteq> PROFILE_OPCODE"
  "from_opcode (opcode_for x) \<noteq> OC_Profile"
  by (cases x; simp add: from_opcode_def PROFILE_OPCODE_def)+

lemma opcode_classes:
  "from_opcode (opcode_for (SetValue nd v)) = OC_SetValue" "from_opcode (opcode_for (Propagate nd)) = OC_Propagate"
  "from_opcode (opcode_for (Demand nd)) = OC_Demand" "from_opcode (opcode_for (Stabilize rg)) = OC_Stabilize"
  "from_opcode (opcode_for (Reflect nd)) = OC_Data" "from_opcode (opcode_for (Subscribe s t)) = OC_Subscribe"
  by (simp_all add: from_opcode_def)

lemma preamble_decodes:
  "decode_preamble (encode_stream_preamble path sid features flags) d =
     (d\<lparr>sdec_preamble := Some \<lparr>pr_abi_version = 3, pr_flags = flags, pr_feature_flags = features,
         pr_path_id = path, pr_session_id = sid\<rparr>\<rparr>,
      Inr \<lparr>pr_abi_version = 3, pr_flags = flags, pr_feature_flags = features,
         pr_path_id = path, pr_session_id = sid\<rparr>)"
  by (simp add: decode_preamble_def encode_stream_preamble_def PGRS_MAGIC_def SUPPORTED_VERSION_def Let_def
      le_at_def take_append from_le_to_le)

lemma payload_length_fits:
  assumes "48 + length (write_payload x) < 2 ^ 32"
  shows "unat (ph_length (context_header x ctx)) = 48 + length (write_payload x)"
    "MIN_RECORD_LEN \<le> ph_length (context_header x ctx)"
proof -
  show u: "unat (ph_length (context_header x ctx)) = 48 + length (write_payload x)"
    using count_read[OF assms] by (simp add: context_header_def)
  show "MIN_RECORD_LEN \<le> ph_length (context_header x ctx)"
    using u by (simp add: MIN_RECORD_LEN_def word_le_nat_alt)
qed

lemma record_decodes:
  assumes "sdec_preamble d = Some pre" "rc_session_id ctx = pr_session_id pre"
    "48 + length (write_payload x) < 2 ^ 32" "above_trace d (context_header x ctx)"
  shows "snd (decode_record (take 48 (encode_record x ctx)) d) = Inr (RA_RouteReady (context_header x ctx))"
proof -
  have a: "record_action_of (context_header x ctx) = RA_RouteReady (context_header x ctx)"
    using opcode_class_known by (simp add: record_action_of_def context_header_def Let_def)
  have "decode_record (take 48 (encode_record x ctx)) d
      = (d\<lparr>seq_trace := (seq_trace d)(pr_session_id pre \<mapsto> rc_stream_seq ctx),
           epoch_trace := (epoch_trace d)(pr_session_id pre \<mapsto> rc_causal_epoch ctx)\<rparr>,
         Inr (RA_RouteReady (context_header x ctx)))"
    using assms payload_length_fits[OF assms(3), of ctx] a opcode_class_known(2)[of x]
    by (auto simp: decode_record_ok encoded_header context_header_def)
  then show ?thesis by simp
qed

text \<open>
  C4. A stream that the encoder writes is read back by the decoder: the preamble with its path,
  session and flags; then for a record of the preamble's session that is in order, whose length
  fits 32 bits and whose fields fit, the first 48 bytes decode to a header with every field of the
  context, ready for routing under a known class; its length field counts the whole record; and
  the bytes after the header parse to the wire image of the instruction.
\<close>

theorem record_roundtrip:
  assumes "rc_session_id ctx = sid" "48 + length (write_payload x) < 2 ^ 32" "op_fits x"
    and "\<forall>q. seq_trace d sid = Some q \<longrightarrow> q < rc_stream_seq ctx"
    and "\<forall>e. epoch_trace d sid = Some e \<longrightarrow> e \<le> rc_causal_epoch ctx"
  shows "let (d1, r1) = decode_preamble (encode_stream_preamble path sid features flags) d;
             bs = encode_record x ctx; (d2, r2) = decode_record (take 48 bs) d1 in
      r1 = Inr \<lparr>pr_abi_version = 3, pr_flags = flags, pr_feature_flags = features, pr_path_id = path, pr_session_id = sid\<rparr>
    \<and> r2 = Inr (RA_RouteReady (context_header x ctx))
    \<and> unat (ph_length (context_header x ctx)) = length bs
    \<and> ph_tenant_id (context_header x ctx) = rc_tenant_id ctx \<and> ph_partition_id (context_header x ctx) = rc_partition_id ctx
    \<and> ph_causal_epoch (context_header x ctx) = rc_causal_epoch ctx \<and> ph_stream_seq (context_header x ctx) = rc_stream_seq ctx
    \<and> from_opcode (ph_opcode (context_header x ctx)) \<notin> {OC_Unknown, OC_Profile}
    \<and> parse_payload (ph_opcode (context_header x ctx)) (drop 48 bs) = Inr (wire_image x)"
proof -
  let ?d = "fst (decode_preamble (encode_stream_preamble path sid features flags) d)"
  have p: "sdec_preamble ?d = Some \<lparr>pr_abi_version = 3, pr_flags = flags, pr_feature_flags = features,
      pr_path_id = path, pr_session_id = sid\<rparr>"
    by (simp add: preamble_decodes)
  have "above_trace ?d (context_header x ctx)"
    using assms(1,4,5) by (simp add: preamble_decodes above_trace_def context_header_def)
  from record_decodes[OF p _ assms(2) this] assms(1)
  have r: "snd (decode_record (take 48 (encode_record x ctx)) ?d) = Inr (RA_RouteReady (context_header x ctx))" by simp
  show ?thesis
    using r payload_length_fits(1)[OF assms(2), of ctx] decode_payload[OF assms(3), of "[]"] opcode_class_known[of x]
    by (simp add: Let_def split_beta preamble_decodes encoded_length encoded_payload context_header_def)
qed

theorem record_roundtrip_witness:
  "parse_payload 0x0003 (drop 48 (encode_record (SetValue 9 Pos) (context_simple 4 1))) = Inr (SetValue 9 Pos)"
proof -
  have "uid_image 9 = 9" by (simp add: uid_image_id)
  then show ?thesis
    using record_roundtrip[of "context_simple 4 1" 4 "SetValue 9 Pos" decoder_new 7 0 0]
    by (simp add: context_simple_def decoder_new_def put_uid_def put_u64_def put_i8_def Let_def split_beta
        context_header_def)
qed

end
