(* ===== verification/Dispatcher.thy ===== *)
theory Dispatcher
  imports Wire_Record
begin

text \<open>
  The dispatcher, second half of \<^verbatim>\<open>session-rs/src/dispatch.rs\<close>: the pool of engines, one per shard, and
  the pipeline that takes the bytes of a record through the stream decoder, the gates of the session
  runtime, the payload parser and the disclosure check to the engine of a shard, and feeds what the
  engine did back into the runtime.  The saturation engine and the signature check are arguments, as
  they are of the functions that call them; \<open>None\<close> is an engine that panics or does not return.
\<close>

section \<open>Engine pool\<close>

record engine_pool =
  ep_engines :: "(shard_id, engine) amap"
  ep_stabilize :: "wire_partition_id \<Rightarrow> u32 option"

definition pool_new :: engine_pool where
  "pool_new = \<lparr>ep_engines = [], ep_stabilize = Map.empty\<rparr>"

definition get_or_insert :: "shard_id \<Rightarrow> engine_pool \<Rightarrow> engine_pool \<times> engine" where
  "get_or_insert s pl = (case aget (ep_engines pl) s of
      Some e \<Rightarrow> (pl, e)
    | None \<Rightarrow> (pl\<lparr>ep_engines := aput s engine_new (ep_engines pl)\<rparr>, engine_new))"

definition pool_apply ::
  "saturation \<Rightarrow> shard_id \<Rightarrow> isa_op \<Rightarrow> engine_pool \<Rightarrow> (engine_pool \<times> (dispatch_error + prop_event list)) option" where
  "pool_apply S s x pl =
     (let (pl1, e) = get_or_insert s pl in
      map_option (\<lambda>(e1, res). (pl1\<lparr>ep_engines := aput s e1 (ep_engines pl1)\<rparr>, map_err DE_Engine res))
        (engine_apply S x e))"

definition record_stabilize_complete :: "wire_partition_id \<Rightarrow> engine_pool \<Rightarrow> engine_pool \<times> u32" where
  "record_stabilize_complete pid pl =
     (let n = sat_inc (case ep_stabilize pl pid of Some k \<Rightarrow> k | None \<Rightarrow> 0) in
      (pl\<lparr>ep_stabilize := (ep_stabilize pl)(pid \<mapsto> n)\<rparr>, n))"

definition record_region_wake :: "wire_partition_id \<Rightarrow> engine_pool \<Rightarrow> engine_pool" where
  "record_region_wake pid pl = pl\<lparr>ep_stabilize := (ep_stabilize pl)(pid := None)\<rparr>"

definition stabilize_epochs :: "engine_pool \<Rightarrow> wire_partition_id \<Rightarrow> u32" where
  "stabilize_epochs pl pid = (case ep_stabilize pl pid of Some k \<Rightarrow> k | None \<Rightarrow> 0)"

definition pressure_snapshot :: "engine_pool \<Rightarrow> shard_id \<Rightarrow> shard_pressure" where
  "pressure_snapshot pl s = (case aget (ep_engines pl) s of
      Some e \<Rightarrow> \<lparr>queue_depth = of_nat (max_queue_depth (pe_stats (en_prop e))),
                  budget_consumed = nodes_materialized (pe_stats (en_prop e)), cursor_count = 0\<rparr>
    | None \<Rightarrow> pressure_default)"

definition shard_count :: "engine_pool \<Rightarrow> nat" where
  "shard_count pl = length (ep_engines pl)"

section \<open>Dispatcher\<close>

datatype dispatch_outcome =
    DO_Applied shard_id "prop_event list"
  | DO_Bootstrapped session_id
  | DO_Skipped
  | DO_Rejected rejection_reason

record 'key dispatcher =
  dp_decoder :: stream_decoder
  dp_runtime :: "'key session_runtime"
  dp_shards :: engine_pool

type_synonym 'key dispatched = "'key dispatcher \<times> (dispatch_error + dispatch_outcome)"

definition dispatcher_new :: "'key dispatcher" where
  "dispatcher_new = \<lparr>dp_decoder = decoder_new, dp_runtime = runtime_new, dp_shards = pool_new\<rparr>"

definition process_preamble ::
  "byte list \<Rightarrow> 'key dispatcher \<Rightarrow> 'key dispatcher \<times> (dispatch_error + stream_preamble)" where
  "process_preamble buf d =
     (let (dec, res) = decode_preamble buf (dp_decoder d) in
      (d\<lparr>dp_decoder := dec\<rparr>, map_err DE_Ingress res))"

subsection \<open>Placement\<close>

definition placement_hint :: "'key session_runtime \<Rightarrow> session_id \<Rightarrow> fabric_addr option" where
  "placement_hint rt sid =
     Option.bind (find (\<lambda>p. pt_session_id p = sid) (map snd (dr_partitions (rt_domains rt))))
       (\<lambda>p. shard_addr (rt_domains rt) (pt_shard_id p))"

definition pick_shard_for :: "'key session_runtime \<Rightarrow> session_id \<Rightarrow> shard_id" where
  "pick_shard_for rt sid =
     (case Option.bind (placement_hint rt sid) (\<lambda>a. best_shard_for (rt_topology rt) a (rt_domains rt)) of
        Some best \<Rightarrow> best
      | None \<Rightarrow> (case any_healthy_shard (rt_topology rt) of Some s \<Rightarrow> s | None \<Rightarrow> 0))"

subsection \<open>Profiles\<close>

definition preamble_path :: "stream_decoder \<Rightarrow> path_id" where
  "preamble_path dec = (case sdec_preamble dec of Some p \<Rightarrow> pr_path_id p | None \<Rightarrow> 0)"

text \<open>The first profile of a session creates it, its path and its domain entry.\<close>

definition bootstrap_session ::
  "parsed_header \<Rightarrow> path_id \<Rightarrow> 'key session_runtime \<Rightarrow> 'key session_runtime" where
  "bootstrap_session h path rt = rt\<lparr>
     rt_sessions := session_create (rt_sessions rt)
       \<lparr>se_session_id = ph_session_id h, se_tenant_id = 0, active_path_id = Some path,
        prev_path_id = None, stream_seq_floor = ph_stream_seq h, se_auth_mode = Advisory,
        last_active_causal_epoch = 0, consecutive_quiescent_epochs = 0\<rparr>,
     rt_paths := path_create (rt_paths rt)
       \<lparr>pe_path_id = path, pe_session_id = ph_session_id h, last_ack_stream_seq = ph_stream_seq h,
        pe_state = PS_Active\<rparr>,
     rt_domains := register_session (rt_domains rt)
       \<lparr>sd_id = ph_session_id h, sd_tenant_id = 0, claimed_policy = POLICY_NONE,
        sd_auth_mode = Advisory, sd_quota = session_quota_default\<rparr>\<rparr>"

text \<open>A later one migrates the session to the path of the stream.\<close>

definition reconnect_session ::
  "parsed_header \<Rightarrow> path_id \<Rightarrow> 'key session_runtime \<Rightarrow> 'key session_runtime" where
  "reconnect_session h path rt =
     (let last_ack = (case Option.bind (Option.bind (session_get (rt_sessions rt) (ph_session_id h)) active_path_id)
                             (path_get (rt_paths rt)) of
                        Some p \<Rightarrow> last_ack_stream_seq p | None \<Rightarrow> 0);
          (t, ps, _) = migrate_path (rt_sessions rt) (ph_session_id h) path last_ack (rt_paths rt)
      in rt\<lparr>rt_sessions := t, rt_paths := ps\<rparr>)"

definition handle_profile ::
  "('key \<Rightarrow> byte list \<Rightarrow> byte list \<Rightarrow> bool) \<Rightarrow> parsed_header \<Rightarrow> byte list \<Rightarrow> 'key dispatcher \<Rightarrow> 'key dispatched" where
  "handle_profile verify h payload d =
     (let rt = dp_runtime d;
          path = preamble_path (dp_decoder d);
          rt1 = (if session_get (rt_sessions rt) (ph_session_id h) = None then bootstrap_session h path rt
                 else reconnect_session h path rt);
          (rt2, res) = process_profile verify h payload rt1
      in (d\<lparr>dp_runtime := rt2\<rparr>,
          map_err DE_Ingress (case res of Inl e \<Rightarrow> Inl e | Inr _ \<Rightarrow> Inr (DO_Bootstrapped (ph_session_id h)))))"

subsection \<open>Admitted records\<close>

definition required_disclosure :: "isa_op \<Rightarrow> u64 option" where
  "required_disclosure x = (case x of
      EdgeConnect _ _ _ _ (Remote rm) \<Rightarrow>
        (if scope_bits (rd_causal_scope rm) \<noteq> 0 then Some (scope_bits (rd_causal_scope rm)) else None)
    | SetEdgeLabel _ _ l \<Rightarrow>
        (if scope_bits (el_causal_scope l) \<noteq> 0 then Some (scope_bits (el_causal_scope l)) else None)
    | _ \<Rightarrow> None)"

definition held_disclosure :: "'key session_runtime \<Rightarrow> session_id \<Rightarrow> u64" where
  "held_disclosure rt sid = (case effective_policy (rt_domains rt) sid of
      Some p \<Rightarrow> disclosure p | None \<Rightarrow> - 1)"

definition check_disclosure :: "'key session_runtime \<Rightarrow> session_id \<Rightarrow> isa_op \<Rightarrow> dispatch_error + unit" where
  "check_disclosure rt sid x = (case required_disclosure x of
      None \<Rightarrow> Inr ()
    | Some required \<Rightarrow>
        (let held = held_disclosure rt sid in
         if held AND required \<noteq> required then Inl (DE_DisclosureViolation required held) else Inr ()))"

definition CREATED_CLASSES :: "opcode_class list" where
  "CREATED_CLASSES = [OC_Control, OC_SetValue, OC_Propagate, OC_Demand, OC_Stabilize, OC_Data, OC_Subscribe]"

definition feedback_control_op :: "parsed_header \<Rightarrow> isa_op \<Rightarrow> 'key session_runtime \<Rightarrow> 'key session_runtime" where
  "feedback_control_op h x rt = (case x of
      PartitionCreate p _ cls cd \<Rightarrow>
        (let wire_id = ucast p;
             shard = pick_shard_for rt (ph_session_id h)
         in rt\<lparr>rt_domains := register_partition (rt_domains rt)
                 \<lparr>pt_id = wire_id, pt_session_id = ph_session_id h, pt_lattice_class = cls,
                  pt_causal_scope = scope_bits cd, pt_shard_id = shard\<rparr>,
               rt_auth := fold (\<lambda>c t. auth_install t (wire_id, c) row_permissive) CREATED_CLASSES (rt_auth rt)\<rparr>)
    | SetPartitionAuthority p cls cd \<Rightarrow>
        rt\<lparr>rt_domains := (rt_domains rt)\<lparr>dr_partitions := amod (ucast p)
          (\<lambda>e. e\<lparr>pt_lattice_class := cls, pt_causal_scope := scope_bits cd\<rparr>) (dr_partitions (rt_domains rt))\<rparr>\<rparr>
    | _ \<Rightarrow> rt)"

text \<open>What follows the instruction of class \<open>c\<close>: the quiescence count of the partition.\<close>

definition count_quiescence ::
  "parsed_header \<Rightarrow> opcode_class \<Rightarrow> isa_op \<Rightarrow> 'key dispatcher \<Rightarrow> 'key dispatcher" where
  "count_quiescence h c x d = (case x of
      Stabilize region \<Rightarrow>
        (let root = (case region of Some (s # _) \<Rightarrow> s | _ \<Rightarrow> wire_to_uid (ph_partition_id h));
             (pl, n) = record_stabilize_complete (ph_partition_id h) (dp_shards d)
         in d\<lparr>dp_shards := pl, dp_runtime := notify_region_quiescent root (ph_partition_id h) True n (dp_runtime d)\<rparr>)
    | _ \<Rightarrow> if c = OC_SetValue \<or> c = OC_Propagate
           then d\<lparr>dp_shards := record_region_wake (ph_partition_id h) (dp_shards d)\<rparr> else d)"

definition partition_shard :: "'key session_runtime \<Rightarrow> wire_partition_id \<Rightarrow> shard_id" where
  "partition_shard rt pid = (case aget (dr_partitions (rt_domains rt)) pid of
      Some p \<Rightarrow> pt_shard_id p | None \<Rightarrow> 0)"

text \<open>After a successful instruction: pressure, feedback, quiescence.\<close>

definition after_apply ::
  "parsed_header \<Rightarrow> opcode_class \<Rightarrow> isa_op \<Rightarrow> shard_id \<Rightarrow> 'key dispatcher \<Rightarrow> 'key dispatcher" where
  "after_apply h c x s d =
     (let rt1 = update_pressure s (pressure_snapshot (dp_shards d) s) (dp_runtime d);
          rt2 = (if c = OC_Control then feedback_control_op h x rt1 else rt1)
      in count_quiescence h c x (d\<lparr>dp_runtime := rt2\<rparr>))"

definition handle_admitted ::
  "saturation \<Rightarrow> parsed_header \<Rightarrow> opcode_class \<Rightarrow> byte list \<Rightarrow> 'key dispatcher \<Rightarrow> 'key dispatched option" where
  "handle_admitted S h c payload d =
     (let s = partition_shard (dp_runtime d) (ph_partition_id h) in
      case and_then (parse_payload (ph_opcode h) payload) (\<lambda>x.
             and_then (check_disclosure (dp_runtime d) (ph_session_id h) x) (\<lambda>_. Inr x)) of
        Inl e \<Rightarrow> Some (d, Inl e)
      | Inr x \<Rightarrow> (case pool_apply S s x (dp_shards d) of
          None \<Rightarrow> None
        | Some (pl, Inl e) \<Rightarrow> Some (d\<lparr>dp_shards := pl\<rparr>, Inl e)
        | Some (pl, Inr events) \<Rightarrow> Some (after_apply h c x s (d\<lparr>dp_shards := pl\<rparr>), Inr (DO_Applied s events))))"

definition process_record ::
  "('key \<Rightarrow> byte list \<Rightarrow> byte list \<Rightarrow> bool) \<Rightarrow> saturation \<Rightarrow> byte list \<Rightarrow> byte list \<Rightarrow> 'key dispatcher
     \<Rightarrow> 'key dispatched option" where
  "process_record verify S header_buf payload d =
     (let (dec, res) = decode_record header_buf (dp_decoder d);
          d1 = d\<lparr>dp_decoder := dec\<rparr>
      in case res of
        Inl e \<Rightarrow> Some (d1, Inl (DE_Ingress e))
      | Inr (RA_SkipPayload _ _) \<Rightarrow> Some (d1, Inr DO_Skipped)
      | Inr (RA_ReadProfile h _) \<Rightarrow> Some (handle_profile verify h payload d1)
      | Inr (RA_RouteReady h) \<Rightarrow>
          (let (rt, out) = route_record h (dp_runtime d1);
               d2 = d1\<lparr>dp_runtime := rt\<rparr>
           in case out of
             RO_Rejected r \<Rightarrow> Some (d2, Inr (DO_Rejected r))
           | RO_Admitted c \<Rightarrow> handle_admitted S h c payload d2))"

section \<open>The outcomes of a record\<close>

text \<open>The ways a record can end, one rule each, with what decides between them.\<close>

definition checked_op :: "'key session_runtime \<Rightarrow> parsed_header \<Rightarrow> byte list \<Rightarrow> dispatch_error + isa_op" where
  "checked_op rt h payload = and_then (parse_payload (ph_opcode h) payload) (\<lambda>x.
     and_then (check_disclosure rt (ph_session_id h) x) (\<lambda>_. Inr x))"

inductive record_step ::
  "('key \<Rightarrow> byte list \<Rightarrow> byte list \<Rightarrow> bool) \<Rightarrow> saturation \<Rightarrow> byte list \<Rightarrow> byte list \<Rightarrow> 'key dispatcher
     \<Rightarrow> 'key dispatched \<Rightarrow> bool" for verify S hb payload d where
  ingress: "decode_record hb (dp_decoder d) = (dec, Inl e) \<Longrightarrow>
     record_step verify S hb payload d (d\<lparr>dp_decoder := dec\<rparr>, Inl (DE_Ingress e))"
| skip: "decode_record hb (dp_decoder d) = (dec, Inr (RA_SkipPayload h n)) \<Longrightarrow>
     record_step verify S hb payload d (d\<lparr>dp_decoder := dec\<rparr>, Inr DO_Skipped)"
| profile: "decode_record hb (dp_decoder d) = (dec, Inr (RA_ReadProfile h n)) \<Longrightarrow>
     record_step verify S hb payload d (handle_profile verify h payload (d\<lparr>dp_decoder := dec\<rparr>))"
| rejected: "decode_record hb (dp_decoder d) = (dec, Inr (RA_RouteReady h)) \<Longrightarrow>
     route_record h (dp_runtime d) = (rt, RO_Rejected r) \<Longrightarrow>
     record_step verify S hb payload d (d\<lparr>dp_decoder := dec, dp_runtime := rt\<rparr>, Inr (DO_Rejected r))"
| refused: "decode_record hb (dp_decoder d) = (dec, Inr (RA_RouteReady h)) \<Longrightarrow>
     route_record h (dp_runtime d) = (rt, RO_Admitted c) \<Longrightarrow> checked_op rt h payload = Inl e \<Longrightarrow>
     record_step verify S hb payload d (d\<lparr>dp_decoder := dec, dp_runtime := rt\<rparr>, Inl e)"
| failed: "decode_record hb (dp_decoder d) = (dec, Inr (RA_RouteReady h)) \<Longrightarrow>
     route_record h (dp_runtime d) = (rt, RO_Admitted c) \<Longrightarrow> checked_op rt h payload = Inr x \<Longrightarrow>
     pool_apply S (partition_shard rt (ph_partition_id h)) x (dp_shards d) = Some (pl, Inl e) \<Longrightarrow>
     record_step verify S hb payload d (d\<lparr>dp_decoder := dec, dp_runtime := rt, dp_shards := pl\<rparr>, Inl e)"
| applied: "decode_record hb (dp_decoder d) = (dec, Inr (RA_RouteReady h)) \<Longrightarrow>
     route_record h (dp_runtime d) = (rt, RO_Admitted c) \<Longrightarrow> checked_op rt h payload = Inr x \<Longrightarrow>
     s = partition_shard rt (ph_partition_id h) \<Longrightarrow>
     pool_apply S s x (dp_shards d) = Some (pl, Inr evs) \<Longrightarrow>
     record_step verify S hb payload d
       (after_apply h c x s (d\<lparr>dp_decoder := dec, dp_runtime := rt, dp_shards := pl\<rparr>), Inr (DO_Applied s evs))"

lemma process_record_step:
  "process_record verify S hb payload d = Some r \<longleftrightarrow> record_step verify S hb payload d r"
proof
  assume "process_record verify S hb payload d = Some r"
  then show "record_step verify S hb payload d r"
    by (auto simp: process_record_def handle_admitted_def Let_def checked_op_def[symmetric] intro: record_step.intros
        split: prod.splits sum.splits record_action.splits route_outcome.splits option.splits)
next
  assume "record_step verify S hb payload d r"
  then show "process_record verify S hb payload d = Some r"
    by cases (simp_all add: process_record_def handle_admitted_def Let_def checked_op_def[symmetric])
qed

lemma checked_op_ok:
  "checked_op rt h payload = Inr x \<longleftrightarrow> parse_payload (ph_opcode h) payload = Inr x
     \<and> (\<forall>req. required_disclosure x = Some req \<longrightarrow> held_disclosure rt (ph_session_id h) AND req = req)"
  by (auto simp: checked_op_def check_disclosure_def and_then_def Let_def split: sum.splits option.splits if_splits)

lemma route_keeps:
  "rt_domains (fst (route_record h rt)) = rt_domains rt" "rt_auth (fst (route_record h rt)) = rt_auth rt"
  "rt_topology (fst (route_record h rt)) = rt_topology rt" "rt_pressure (fst (route_record h rt)) = rt_pressure rt"
  "rt_paths (fst (route_record h rt)) = rt_paths rt" "rt_admission (fst (route_record h rt)) = rt_admission rt"
  "rt_trust_store (fst (route_record h rt)) = rt_trust_store rt"
  by (subst route_state, simp)+

lemma route_keepsD:
  assumes "route_record h rt = (rt', out)"
  shows "rt_domains rt' = rt_domains rt" "rt_auth rt' = rt_auth rt" "rt_topology rt' = rt_topology rt"
    "rt_pressure rt' = rt_pressure rt" "rt_paths rt' = rt_paths rt"
  using route_keeps[of h rt] assms by simp_all

lemma partition_shard_cong: "rt_domains rt' = rt_domains rt \<Longrightarrow> partition_shard rt' = partition_shard rt"
  by (simp add: partition_shard_def fun_eq_iff)

lemma held_disclosure_cong: "rt_domains rt' = rt_domains rt \<Longrightarrow> held_disclosure rt' = held_disclosure rt"
  by (simp add: held_disclosure_def fun_eq_iff)

text \<open>What each part leaves alone.\<close>

lemma count_quiescence_frame [simp]:
  "dp_decoder (count_quiescence h c x d) = dp_decoder d"
  "ep_engines (dp_shards (count_quiescence h c x d)) = ep_engines (dp_shards d)"
  "rt_sessions (dp_runtime (count_quiescence h c x d)) = rt_sessions (dp_runtime d)"
  "rt_paths (dp_runtime (count_quiescence h c x d)) = rt_paths (dp_runtime d)"
  "rt_domains (dp_runtime (count_quiescence h c x d)) = rt_domains (dp_runtime d)"
  "rt_auth (dp_runtime (count_quiescence h c x d)) = rt_auth (dp_runtime d)"
  "rt_topology (dp_runtime (count_quiescence h c x d)) = rt_topology (dp_runtime d)"
  "rt_pressure (dp_runtime (count_quiescence h c x d)) = rt_pressure (dp_runtime d)"
  by (simp_all add: count_quiescence_def Let_def split_beta record_stabilize_complete_def record_region_wake_def
      notify_region_quiescent_def split: isa_op.split)

lemma feedback_frame [simp]:
  "rt_sessions (feedback_control_op h x rt) = rt_sessions rt" "rt_paths (feedback_control_op h x rt) = rt_paths rt"
  "rt_topology (feedback_control_op h x rt) = rt_topology rt" "rt_pressure (feedback_control_op h x rt) = rt_pressure rt"
  "dr_sessions (rt_domains (feedback_control_op h x rt)) = dr_sessions (rt_domains rt)"
  "dr_tenants (rt_domains (feedback_control_op h x rt)) = dr_tenants (rt_domains rt)"
  "dr_shards (rt_domains (feedback_control_op h x rt)) = dr_shards (rt_domains rt)"
  by (simp_all add: feedback_control_op_def Let_def register_partition_def split: isa_op.split)

lemma after_apply_frame [simp]:
  "dp_decoder (after_apply h c x s d) = dp_decoder d"
  "ep_engines (dp_shards (after_apply h c x s d)) = ep_engines (dp_shards d)"
  "rt_sessions (dp_runtime (after_apply h c x s d)) = rt_sessions (dp_runtime d)"
  "rt_paths (dp_runtime (after_apply h c x s d)) = rt_paths (dp_runtime d)"
  "dr_sessions (rt_domains (dp_runtime (after_apply h c x s d))) = dr_sessions (rt_domains (dp_runtime d))"
  "dr_tenants (rt_domains (dp_runtime (after_apply h c x s d))) = dr_tenants (rt_domains (dp_runtime d))"
  by (simp_all add: after_apply_def Let_def update_pressure_simps)


lemma get_or_insert_engine:
  "snd (get_or_insert s pl) = (case aget (ep_engines pl) s of Some e \<Rightarrow> e | None \<Rightarrow> engine_new)"
  "ep_stabilize (fst (get_or_insert s pl)) = ep_stabilize pl"
  "t \<noteq> s \<Longrightarrow> aget (ep_engines (fst (get_or_insert s pl))) t = aget (ep_engines pl) t"
  by (simp_all add: get_or_insert_def split: option.split)

text \<open>The engine of a shard: the one in the pool, or a new one.\<close>

definition engine_at :: "engine_pool \<Rightarrow> shard_id \<Rightarrow> engine" where
  "engine_at pl s = (case aget (ep_engines pl) s of Some e \<Rightarrow> e | None \<Rightarrow> engine_new)"

lemma pool_apply_iff:
  "pool_apply S s x pl = Some (pl', r) \<longleftrightarrow>
     (\<exists>e' res. engine_apply S x (engine_at pl s) = Some (e', res) \<and> r = map_err DE_Engine res
        \<and> pl' = (fst (get_or_insert s pl))\<lparr>ep_engines := aput s e' (ep_engines (fst (get_or_insert s pl)))\<rparr>)"
  by (auto simp: pool_apply_def Let_def split_beta get_or_insert_engine(1) engine_at_def)

lemma pool_apply_effect:
  assumes "pool_apply S s x pl = Some (pl', r)"
  shows "ep_stabilize pl' = ep_stabilize pl" "t \<noteq> s \<Longrightarrow> aget (ep_engines pl') t = aget (ep_engines pl) t"
    "aget (ep_engines pl') s = map_option fst (engine_apply S x (engine_at pl s))"
  using assms get_or_insert_engine(2,3)[where s = s and pl = pl] by (auto simp: pool_apply_iff get_or_insert_engine)

lemma process_profile_frame:
  "rt_sessions (fst (process_profile verify h payload rt)) = rt_sessions rt"
  "rt_paths (fst (process_profile verify h payload rt)) = rt_paths rt"
  "rt_auth (fst (process_profile verify h payload rt)) = rt_auth rt"
  "rt_topology (fst (process_profile verify h payload rt)) = rt_topology rt"
  "rt_pressure (fst (process_profile verify h payload rt)) = rt_pressure rt"
  "dr_tenants (rt_domains (fst (process_profile verify h payload rt))) = dr_tenants (rt_domains rt)"
  "dr_partitions (rt_domains (fst (process_profile verify h payload rt))) = dr_partitions (rt_domains rt)"
  "dr_shards (rt_domains (fst (process_profile verify h payload rt))) = dr_shards (rt_domains rt)"
  by (simp_all add: process_profile_def split: sum.split option.split)

definition profile_runtime :: "parsed_header \<Rightarrow> path_id \<Rightarrow> 'key session_runtime \<Rightarrow> 'key session_runtime" where
  "profile_runtime h path rt = (if session_get (rt_sessions rt) (ph_session_id h) = None
     then bootstrap_session h path rt else reconnect_session h path rt)"

lemma handle_profile_runtime:
  "fst (handle_profile verify h payload d) = d\<lparr>dp_runtime :=
     fst (process_profile verify h payload (profile_runtime h (preamble_path (dp_decoder d)) (dp_runtime d)))\<rparr>"
  by (simp add: handle_profile_def profile_runtime_def Let_def split_beta)

lemma profile_runtime_frame:
  "rt_auth (profile_runtime h path rt) = rt_auth rt" "rt_topology (profile_runtime h path rt) = rt_topology rt"
  "rt_pressure (profile_runtime h path rt) = rt_pressure rt"
  "dr_tenants (rt_domains (profile_runtime h path rt)) = dr_tenants (rt_domains rt)"
  "dr_partitions (rt_domains (profile_runtime h path rt)) = dr_partitions (rt_domains rt)"
  "dr_shards (rt_domains (profile_runtime h path rt)) = dr_shards (rt_domains rt)"
  by (simp_all add: profile_runtime_def bootstrap_session_def reconnect_session_def Let_def split_beta register_session_def)

lemma handle_profile_frame [simp]:
  "dp_decoder (fst (handle_profile verify h payload d)) = dp_decoder d"
  "dp_shards (fst (handle_profile verify h payload d)) = dp_shards d"
  "rt_auth (dp_runtime (fst (handle_profile verify h payload d))) = rt_auth (dp_runtime d)"
  "rt_topology (dp_runtime (fst (handle_profile verify h payload d))) = rt_topology (dp_runtime d)"
  "rt_pressure (dp_runtime (fst (handle_profile verify h payload d))) = rt_pressure (dp_runtime d)"
  "dr_tenants (rt_domains (dp_runtime (fst (handle_profile verify h payload d)))) = dr_tenants (rt_domains (dp_runtime d))"
  "dr_partitions (rt_domains (dp_runtime (fst (handle_profile verify h payload d)))) = dr_partitions (rt_domains (dp_runtime d))"
  "dr_shards (rt_domains (dp_runtime (fst (handle_profile verify h payload d)))) = dr_shards (rt_domains (dp_runtime d))"
  by (simp_all add: handle_profile_runtime process_profile_frame profile_runtime_frame)

lemma handle_profile_not_applied: "snd (handle_profile verify h payload d) \<noteq> Inr (DO_Applied s evs)"
  by (auto simp: handle_profile_def map_err_def Let_def split_beta split: sum.splits)

definition mediated :: "saturation \<Rightarrow> byte list \<Rightarrow> byte list \<Rightarrow> 'key dispatcher \<Rightarrow> 'key dispatcher \<Rightarrow> shard_id \<Rightarrow> isa_op \<Rightarrow> bool" where
  "mediated S hb payload d d' s x \<longleftrightarrow> (let h = parse_header hb; rt = dp_runtime d in
      snd (decode_record hb (dp_decoder d)) = Inr (RA_RouteReady h)
    \<and> passes_gates h rt \<and> checked_op rt h payload = Inr x
    \<and> s = partition_shard rt (ph_partition_id h)
    \<and> aget (ep_engines (dp_shards d')) s = map_option fst (engine_apply S x (engine_at (dp_shards d) s))
    \<and> (\<forall>t. t \<noteq> s \<longrightarrow> aget (ep_engines (dp_shards d')) t = aget (ep_engines (dp_shards d)) t))"

lemma decode_routed_header:
  "decode_record hb dec = (dec', Inr (RA_RouteReady h)) \<Longrightarrow> h = parse_header hb"
  by (auto simp: decode_record_ok record_action_of_def Let_def split: if_splits)

lemma checked_op_cong: "rt_domains rt' = rt_domains rt \<Longrightarrow> checked_op rt' = checked_op rt"
proof -
  assume "rt_domains rt' = rt_domains rt"
  from held_disclosure_cong[OF this] have "check_disclosure rt' = check_disclosure rt"
    by (simp add: check_disclosure_def fun_eq_iff cong: option.case_cong)
  then show ?thesis by (simp add: checked_op_def fun_eq_iff)
qed

lemma mediated_step:
  assumes dec: "decode_record hb (dp_decoder d) = (dec, Inr (RA_RouteReady h))"
    and route: "route_record h (dp_runtime d) = (rt, RO_Admitted c)" and x: "checked_op rt h payload = Inr x"
    and pool: "pool_apply S (partition_shard rt (ph_partition_id h)) x (dp_shards d) = Some (pl, r)"
    and pl: "ep_engines (dp_shards d') = ep_engines pl"
  shows "mediated S hb payload d d' (partition_shard (dp_runtime d) (ph_partition_id (parse_header hb))) x"
proof -
  have h: "parse_header hb = h" using decode_routed_header[OF dec] by simp
  have g: "passes_gates h (dp_runtime d)" using route route_admitted[of h "dp_runtime d" c] by simp
  have ps: "partition_shard rt = partition_shard (dp_runtime d)" "checked_op rt = checked_op (dp_runtime d)"
    by (rule partition_shard_cong checked_op_cong, rule route_keepsD(1)[OF route])+
  have x': "checked_op (dp_runtime d) h payload = Inr x" using x by (simp only: ps)
  have pool': "pool_apply S (partition_shard (dp_runtime d) (ph_partition_id h)) x (dp_shards d) = Some (pl, r)"
    using pool by (simp only: ps)
  show ?thesis
    unfolding mediated_def Let_def h pl
    using pool_apply_effect(2,3)[OF pool'] x' g dec by simp
qed

lemma engines_changed:
  assumes "process_record verify S hb payload d = Some (d', res)"
  shows "dp_shards d' = dp_shards d \<or>
     (\<exists>x. mediated S hb payload d d' (partition_shard (dp_runtime d) (ph_partition_id (parse_header hb))) x)"
proof -
  from assms have "record_step verify S hb payload d (d', res)" by (simp add: process_record_step)
  then show ?thesis
  proof cases
    case (profile dec h n)
    then have "d' = fst (handle_profile verify h payload (d\<lparr>dp_decoder := dec\<rparr>))" by (metis fst_conv)
    then show ?thesis by simp
  next
    case (failed dec h rt c x pl e)
    then have "ep_engines (dp_shards d') = ep_engines pl" by simp
    then show ?thesis using mediated_step[OF failed(3-6)] by blast
  next
    case (applied dec h rt c x s' pl evs)
    then have "ep_engines (dp_shards d') = ep_engines pl" by simp
    then show ?thesis using mediated_step[OF applied(3-5) applied(7)[unfolded applied(6)]] by blast
  qed simp_all
qed

text \<open>A payload parses only to an instruction of its opcode.\<close>


lemma parsers_opcode:
  "parse_node_create r = Inr x \<Longrightarrow> opcode_for x = 0x0001"
  "parse_edge_connect r = Inr x \<Longrightarrow> opcode_for x = 0x0002"
  "parse_set_value r = Inr x \<Longrightarrow> opcode_for x = 0x0003"
  "parse_uid_op mk r = Inr x \<Longrightarrow> \<exists>u. x = mk u"
  "parse_subscribe r = Inr x \<Longrightarrow> opcode_for x = 0x0005"
  "parse_set_mode r = Inr x \<Longrightarrow> opcode_for x = 0x0009"
  "parse_stabilize r = Inr x \<Longrightarrow> opcode_for x = 0x000B"
  "parse_partition_create r = Inr x \<Longrightarrow> opcode_for x = 0x000C"
  "parse_partition_bind r = Inr x \<Longrightarrow> opcode_for x = 0x000D"
  "parse_set_partition_authority r = Inr x \<Longrightarrow> opcode_for x = 0x000E"
  "parse_set_edge_label r = Inr x \<Longrightarrow> opcode_for x = 0x000F"
  "parse_set_stabilization r = Inr x \<Longrightarrow> opcode_for x = 0x0010"
  "parse_set_execution r = Inr x \<Longrightarrow> opcode_for x = 0x0011"
  "parse_region_declare r = Inr x \<Longrightarrow> opcode_for x = 0x0012"
  by (auto simp: parse_node_create_def parse_edge_connect_def parse_set_value_def parse_uid_op_def
      parse_subscribe_def parse_set_mode_def parse_stabilize_def parse_partition_create_def parse_partition_bind_def
      parse_set_partition_authority_def parse_set_edge_label_def parse_set_stabilization_def parse_set_execution_def
      parse_region_declare_def and_then_Inr split: prod.splits if_splits)

lemma parsed_opcode: "parse_payload opc payload = Inr x \<Longrightarrow> opcode_for x = opc"
  by (auto simp: parse_payload_def Let_def split: if_splits dest: parsers_opcode)

section \<open>Parse errors\<close>

lemma and_then_Inl: "and_then r f = Inl e \<longleftrightarrow> r = Inl e \<or> (\<exists>x. r = Inr x \<and> f x = Inl e)"
  by (cases r) (simp_all add: and_then_def)

definition payload_error :: "dispatch_error \<Rightarrow> bool" where
  "payload_error e = (case e of DE_Ingress _ \<Rightarrow> False | DE_Engine _ \<Rightarrow> False | DE_DisclosureViolation _ _ \<Rightarrow> False | _ \<Rightarrow> True)"

lemma need_error: "need n r = Inl e \<Longrightarrow> payload_error e"
  by (auto simp: need_def payload_error_def split: if_splits)

lemma read_errors:
  "read_u8 r = Inl e \<Longrightarrow> payload_error e" "read_u16 r = Inl e \<Longrightarrow> payload_error e"
  "read_u32 r = Inl e \<Longrightarrow> payload_error e" "read_u64 r = Inl e \<Longrightarrow> payload_error e"
  "read_i64 r = Inl e \<Longrightarrow> payload_error e" "read_f64 r = Inl e \<Longrightarrow> payload_error e"
  "read_str n r = Inl e \<Longrightarrow> payload_error e"
  by (auto simp: read_u8_def read_u16_def read_u32_def read_u64_def read_i64_def read_f64_def read_str_def
      and_then_Inl Let_def payload_error_def dest: need_error split: if_splits)

lemma read_errors2:
  "read_str_u16 r = Inl e \<Longrightarrow> payload_error e" "read_bytes_u32 r = Inl e \<Longrightarrow> payload_error e"
  "read_uid r = Inl e \<Longrightarrow> payload_error e" "read_pid r = Inl e \<Longrightarrow> payload_error e"
  "read_t r = Inl e \<Longrightarrow> payload_error e" "read_payload_kind r = Inl e \<Longrightarrow> payload_error e"
  by (auto simp: read_str_u16_def read_bytes_u32_def read_uid_def read_pid_def read_t_def read_i8_def wire_to_t_def
      read_payload_kind_def zero_kind_of_byte_def and_then_Inl payload_error_def
      dest: need_error read_errors split: prod.splits if_splits)

lemma read_uids_error: "read_uids n r = Inl e \<Longrightarrow> payload_error e"
  by (induction n arbitrary: r) (auto simp: and_then_Inl dest: read_errors2 split: prod.splits)

lemma read_attr_val_error: "read_attr_val tag r = Inl e \<Longrightarrow> payload_error e"
  unfolding read_attr_val_def
  by (auto simp: and_then_Inl payload_error_def dest: read_errors read_errors2 split: prod.splits if_splits)

lemma read_attrs_error: "read_attrs n a r = Inl e \<Longrightarrow> payload_error e"
  by (induction n arbitrary: a r) (auto simp: and_then_Inl dest: read_errors read_errors2 read_attr_val_error split: prod.splits)

lemma read_frontier_error: "read_frontier n c r = Inl e \<Longrightarrow> payload_error e"
  by (induction n arbitrary: c r) (auto simp: and_then_Inl dest: read_errors read_errors2 split: prod.splits)

lemma byte_errors:
  "node_kind_of_byte b = Inl e \<Longrightarrow> payload_error e" "port_kind_of_byte b = Inl e \<Longrightarrow> payload_error e"
  "exec_mode_of_byte b = Inl e \<Longrightarrow> payload_error e" "stability_of_byte b = Inl e \<Longrightarrow> payload_error e"
  "compile_of_byte b = Inl e \<Longrightarrow> payload_error e"
  by (auto simp: node_kind_of_byte_def port_kind_of_byte_def exec_mode_of_byte_def stability_of_byte_def
      compile_of_byte_def payload_error_def split: if_splits)

lemma read_remote_error: "read_remote_dep pk r = Inl e \<Longrightarrow> payload_error e"
  by (auto simp: read_remote_dep_def and_then_Inl dest: read_errors read_errors2 read_frontier_error split: prod.splits)

lemma read_boundary_error: "read_boundary r = Inl e \<Longrightarrow> payload_error e"
  by (auto simp: read_boundary_def and_then_Inl payload_error_def dest: read_errors read_errors2 read_uids_error
      split: prod.splits if_splits)

lemmas reader_errors = read_errors read_errors2 read_uids_error read_attrs_error byte_errors read_remote_error read_boundary_error

lemma parser_errors:
  "parse_node_create r = Inl e \<Longrightarrow> payload_error e" "parse_edge_connect r = Inl e \<Longrightarrow> payload_error e"
  "parse_set_value r = Inl e \<Longrightarrow> payload_error e" "parse_uid_op mk r = Inl e \<Longrightarrow> payload_error e"
  "parse_subscribe r = Inl e \<Longrightarrow> payload_error e" "parse_set_mode r = Inl e \<Longrightarrow> payload_error e"
  "parse_stabilize r = Inl e \<Longrightarrow> payload_error e" "parse_partition_create r = Inl e \<Longrightarrow> payload_error e"
  "parse_partition_bind r = Inl e \<Longrightarrow> payload_error e" "parse_set_partition_authority r = Inl e \<Longrightarrow> payload_error e"
  "parse_set_edge_label r = Inl e \<Longrightarrow> payload_error e" "parse_set_stabilization r = Inl e \<Longrightarrow> payload_error e"
  "parse_set_execution r = Inl e \<Longrightarrow> payload_error e" "parse_region_declare r = Inl e \<Longrightarrow> payload_error e"
  by (auto simp: parse_node_create_def parse_edge_connect_def parse_set_value_def parse_uid_op_def
      parse_subscribe_def parse_set_mode_def parse_stabilize_def parse_partition_create_def parse_partition_bind_def
      parse_set_partition_authority_def parse_set_edge_label_def parse_set_stabilization_def parse_set_execution_def
      parse_region_declare_def parse_attr_map_def and_then_Inl payload_error_def[of "DE_UnknownDepKind _"]
      dest: reader_errors split: prod.splits if_splits)

lemma parse_payload_error: "parse_payload opc payload = Inl e \<Longrightarrow> payload_error e"
  by (auto simp: parse_payload_def payload_error_def[of "DE_UnknownOpcode _"] Let_def dest: parser_errors split: if_splits)

end
