(* ===== verification/Dispatch_Safety.thy ===== *)
theory Dispatch_Safety
  imports Dispatcher
begin

text \<open>
  What the dispatcher as a whole guarantees, and what it does not: the engines are reached only
  through every check, a record that is not applied leaves the structure alone, what a partition's
  creation opens, what a first profile opens, the replay floor, the count of quiescent epochs.
\<close>

section \<open>Inversion of an applied record\<close>

lemma applied_record:
  assumes "process_record verify S hb payload d = Some (d', Inr (DO_Applied s evs))"
  obtains dec rt x pl where
    "decode_record hb (dp_decoder d) = (dec, Inr (RA_RouteReady (parse_header hb)))"
    "route_record (parse_header hb) (dp_runtime d) = (rt, RO_Admitted (from_opcode (ph_opcode (parse_header hb))))"
    "checked_op (dp_runtime d) (parse_header hb) payload = Inr x"
    "s = partition_shard (dp_runtime d) (ph_partition_id (parse_header hb))"
    "pool_apply S s x (dp_shards d) = Some (pl, Inr evs)"
    "d' = after_apply (parse_header hb) (from_opcode (ph_opcode (parse_header hb))) x s
            (d\<lparr>dp_decoder := dec, dp_runtime := rt, dp_shards := pl\<rparr>)"
    "opcode_for x = ph_opcode (parse_header hb)"
proof -
  have "record_step verify S hb payload d (d', Inr (DO_Applied s evs))" using assms by (simp add: process_record_step)
  then show ?thesis
  proof cases
    case (profile dec h n)
    then show ?thesis using handle_profile_not_applied by (metis snd_conv)
  next
    case (applied dec h rt c x pl)
    have h: "h = parse_header hb" using decode_routed_header[OF applied(2)] .
    have c: "c = from_opcode (ph_opcode h)" using route_admitted[of h "dp_runtime d" c] applied(3) by simp
    note dom = route_keepsD(1)[OF applied(3)]
    note ps = partition_shard_cong[OF dom] and co = checked_op_cong[OF dom]
    have x: "checked_op (dp_runtime d) h payload = Inr x" using applied(4) by (simp only: co)
    have o: "opcode_for x = ph_opcode h" using x parsed_opcode by (auto simp: checked_op_ok)
    show ?thesis
      by (rule that[of dec rt x pl]; use applied(1-3,5,6) x o in \<open>simp only: h[symmetric] c[symmetric] ps\<close>)
  qed
qed

lemma applied_engine:
  assumes "process_record verify S hb payload d = Some (d', Inr (DO_Applied s evs))"
  shows "\<exists>e'. aget (ep_engines (dp_shards d')) s = Some e'"
  using assms by (elim applied_record) (auto simp: pool_apply_iff)

section \<open>Complete mediation\<close>

text \<open>
  C7. The engines are reached only through every check.  Whatever bytes arrive, if processing a
  record changes an engine, then the stream decoder accepted its header, its session exists with a
  matching tenant and a sequence number not below its replay floor, the authority gate let it pass,
  its payload parsed, and the session holds every disclosure bit that the instruction requires; the
  engine that changed is the one of the shard of the header's partition, it changed by exactly that
  instruction, and no other shard's engine changed.
\<close>

theorem engines_mediated:
  assumes "process_record verify S hb payload d = Some (d', res)"
    and "aget (ep_engines (dp_shards d')) s \<noteq> aget (ep_engines (dp_shards d)) s"
  shows "let h = parse_header hb; rt = dp_runtime d in
      snd (decode_record hb (dp_decoder d)) = Inr (RA_RouteReady h)
    \<and> (\<exists>sn. aget (rt_sessions rt) (ph_session_id h) = Some sn
          \<and> (ph_tenant_id h = 0 \<or> ph_tenant_id h = se_tenant_id sn) \<and> stream_seq_floor sn \<le> ph_stream_seq h)
    \<and> gate (rt_auth rt) (ph_partition_id h) (from_opcode (ph_opcode h)) CLASS_BOTTOM
          (session_policy rt (ph_session_id h)) = GR_Allow
    \<and> s = partition_shard rt (ph_partition_id h)
    \<and> (\<exists>x. parse_payload (ph_opcode h) payload = Inr x \<and> opcode_for x = ph_opcode h
         \<and> (\<forall>req. required_disclosure x = Some req \<longrightarrow> held_disclosure rt (ph_session_id h) AND req = req)
         \<and> aget (ep_engines (dp_shards d')) s = map_option fst (engine_apply S x (engine_at (dp_shards d) s)))
    \<and> (\<forall>t. t \<noteq> s \<longrightarrow> aget (ep_engines (dp_shards d')) t = aget (ep_engines (dp_shards d)) t)"
proof -
  let ?s = "partition_shard (dp_runtime d) (ph_partition_id (parse_header hb))"
  obtain x where m: "mediated S hb payload d d' ?s x"
    using engines_changed[OF assms(1)] assms(2) by metis
  then have "s = ?s" using assms(2) by (metis mediated_def)
  with m show ?thesis
    by (auto simp: mediated_def passes_gates_def checked_op_ok Let_def dest: parsed_opcode)
qed

text \<open>A dispatcher with one session, one partition on shard 3 and a stream of that session.\<close>

definition demo_runtime :: "u64 session_runtime" where
  "demo_runtime = one_session\<lparr>rt_domains := register_partition domains_new
     \<lparr>pt_id = 7, pt_session_id = 1, pt_lattice_class = CLASS_BOTTOM, pt_causal_scope = 0, pt_shard_id = 3\<rparr>\<rparr>"

definition demo_preamble :: stream_preamble where
  "demo_preamble = \<lparr>pr_abi_version = 3, pr_flags = 0, pr_feature_flags = 0, pr_path_id = 5, pr_session_id = 1\<rparr>"

definition demo_dispatcher :: "u64 dispatcher" where
  "demo_dispatcher = dispatcher_new\<lparr>dp_runtime := demo_runtime,
     dp_decoder := decoder_new\<lparr>sdec_preamble := Some demo_preamble\<rparr>\<rparr>"

definition demo_context :: "u64 \<Rightarrow> u64 \<Rightarrow> record_context" where
  "demo_context pid sq = (context_simple 1 sq)\<lparr>rc_partition_id := pid\<rparr>"

text \<open>A record that the encoder wrote runs through the pipeline.\<close>

lemma encoded_record_runs:
  assumes dec: "decode_record (take 48 (encode_record x ctx)) (dp_decoder d) = (dec, Inr (RA_RouteReady (context_header x ctx)))"
    and rt: "route_record (context_header x ctx) (dp_runtime d) = (rt, RO_Admitted c)"
    and fits: "op_fits x" and disc: "required_disclosure (wire_image x) = None"
    and s: "s = partition_shard rt (rc_partition_id ctx)"
    and pool: "pool_apply S s (wire_image x) (dp_shards d) = Some (pl, Inr evs)"
  shows "process_record verify S (take 48 (encode_record x ctx)) (drop 48 (encode_record x ctx)) d
     = Some (after_apply (context_header x ctx) c (wire_image x) s (d\<lparr>dp_decoder := dec, dp_runtime := rt, dp_shards := pl\<rparr>),
         Inr (DO_Applied s evs))"
proof -
  let ?h = "context_header x ctx"
  have "parse_payload (ph_opcode ?h) (write_payload x) = Inr (wire_image x)"
    using decode_payload[OF fits, of "[]"] by (simp add: context_header_def)
  then have x: "checked_op rt ?h (drop 48 (encode_record x ctx)) = Inr (wire_image x)"
    using disc by (simp add: checked_op_ok encoded_payload)
  have ps: "s = partition_shard rt (ph_partition_id ?h)" using s by (simp add: context_header_def)
  show ?thesis
    using record_step.applied[OF dec rt x ps pool] by (simp only: process_record_step)
qed

lemma apply_partition_create:
  "\<exists>e'. engine_apply S (PartitionCreate p root cls cd) e = Some (e', Inr [])
     \<and> en_registry e' = partition_register (en_registry e)
         \<lparr>pd_id = p, authority_root = root, pd_lattice_class = cls, causal_domain = cd\<rparr>
     \<and> en_world e' = en_world e"
  by (simp add: engine_apply_def op_partition_create_def done_op_def log_op_def Let_def)

definition create_op :: isa_op where
  "create_op = PartitionCreate 7 0 CLASS_BOTTOM \<lparr>scope_bits = 0, scope_root = 0\<rparr>"

lemma create_op_wire:
  "op_fits create_op" "wire_image create_op = PartitionCreate 7 0 CLASS_BOTTOM \<lparr>scope_bits = 0, scope_root = 7\<rparr>"
  "length (write_payload create_op) = 32" "opcode_for create_op = 0x000C"
  by (simp_all add: create_op_def pid_image_def put_pid_def put_u64_def partition_id_to_wire_def
      wire_to_partition_id_def)

text \<open>The record is admitted and applied wherever the gate lets session 1 create partitions.\<close>

definition opens_to :: "u64 dispatcher \<Rightarrow> wire_partition_id \<Rightarrow> bool" where
  "opens_to d pid \<longleftrightarrow> dp_decoder d = dp_decoder demo_dispatcher \<and> dp_shards d = pool_new
     \<and> rt_sessions (dp_runtime d) = rt_sessions (one_session)
     \<and> gate (rt_auth (dp_runtime d)) pid OC_Control CLASS_BOTTOM (session_policy (dp_runtime d) 1) = GR_Allow"

lemma create_record_admitted:
  assumes "opens_to d pid"
  shows "\<exists>rt dec. route_record (context_header create_op (demo_context pid 5)) (dp_runtime d) = (rt, RO_Admitted OC_Control)
     \<and> decode_record (take 48 (encode_record create_op (demo_context pid 5))) (dp_decoder d)
         = (dec, Inr (RA_RouteReady (context_header create_op (demo_context pid 5))))"
proof -
  let ?h = "context_header create_op (demo_context pid 5)"
  note h = context_header_def demo_context_def context_simple_def create_op_wire from_opcode_def
  have g: "passes_gates ?h (dp_runtime d)"
    using assms by (simp add: h passes_gates_def opens_to_def one_session_def session_create_def session_at_def)
  have r: "room_for ?h (dp_runtime d)"
    by (simp add: h room_for_def record_shard_def split: option.split)
  have c: "from_opcode (ph_opcode ?h) = OC_Control" by (simp add: h)
  obtain rt where rt: "route_record ?h (dp_runtime d) = (rt, RO_Admitted OC_Control)"
    using g r c route_admitted[of ?h "dp_runtime d" OC_Control] by (metis prod.collapse)
  have dec: "sdec_preamble (dp_decoder d) = Some demo_preamble"
    "rc_session_id (demo_context pid 5) = pr_session_id demo_preamble"
    "48 + length (write_payload create_op) < 2 ^ 32" "above_trace (dp_decoder d) ?h"
    using assms by (simp_all add: opens_to_def demo_dispatcher_def demo_preamble_def h above_trace_def decoder_new_def)
  from record_decodes[OF dec] rt show ?thesis by (metis prod.collapse)
qed

lemma create_record_runs:
  assumes "opens_to d pid" "s = partition_shard (dp_runtime d) pid"
  shows "\<exists>d'. process_record verify S (take 48 (encode_record create_op (demo_context pid 5)))
     (drop 48 (encode_record create_op (demo_context pid 5))) d = Some (d', Inr (DO_Applied s []))"
proof -
  obtain e' where e': "engine_apply S (wire_image create_op) (engine_at pool_new s) = Some (e', Inr [])"
    using apply_partition_create by (metis create_op_wire(2))
  have "\<exists>pl. pool_apply S s (wire_image create_op) (dp_shards d) = Some (pl, Inr [])"
    using e' assms(1) by (auto simp: pool_apply_iff opens_to_def map_err_def)
  then obtain pl where pl: "pool_apply S s (wire_image create_op) (dp_shards d) = Some (pl, Inr [])" by blast
  obtain rt dec where r: "route_record (context_header create_op (demo_context pid 5)) (dp_runtime d)
       = (rt, RO_Admitted OC_Control)"
    "decode_record (take 48 (encode_record create_op (demo_context pid 5))) (dp_decoder d)
       = (dec, Inr (RA_RouteReady (context_header create_op (demo_context pid 5))))"
    using create_record_admitted[OF assms(1)] by blast
  have "s = partition_shard rt (rc_partition_id (demo_context pid 5))"
    using partition_shard_cong[OF route_keepsD(1)[OF r(1)]] assms(2) by (simp add: demo_context_def)
  moreover have "required_disclosure (wire_image create_op) = None" by (simp add: create_op_wire required_disclosure_def)
  ultimately show ?thesis
    using encoded_record_runs[OF r(2,1) create_op_wire(1) _ _ pl] by blast
qed

lemma demo_opens: "opens_to demo_dispatcher 7" "partition_shard (dp_runtime demo_dispatcher) 7 = 3"
  by (simp_all add: opens_to_def demo_dispatcher_def dispatcher_new_def demo_runtime_def gate_def auth_new_def
      one_session_def runtime_new_def partition_shard_def register_partition_def domains_new_def)

theorem engines_mediated_witness:
  "\<exists>d'. process_record (\<lambda>_ _ _. False) (map const_of) (take 48 (encode_record create_op (demo_context 7 5)))
     (drop 48 (encode_record create_op (demo_context 7 5))) demo_dispatcher = Some (d', Inr (DO_Applied 3 []))
   \<and> aget (ep_engines (dp_shards d')) 3 \<noteq> None \<and> aget (ep_engines (dp_shards d')) 4 = None"
proof -
  let ?hb = "take 48 (encode_record create_op (demo_context 7 5))"
    and ?pb = "drop 48 (encode_record create_op (demo_context 7 5))"
  obtain d' where d': "process_record (\<lambda>_ _ _. False) (map const_of) ?hb ?pb demo_dispatcher
      = Some (d', Inr (DO_Applied 3 []))"
    using create_record_runs[OF demo_opens(1) demo_opens(2)[symmetric]] by blast
  obtain e' where "aget (ep_engines (dp_shards d')) 3 = Some e'"
    using d' applied_engine by blast
  moreover have "aget (ep_engines (dp_shards demo_dispatcher)) s = None" for s
    by (simp add: demo_dispatcher_def dispatcher_new_def pool_new_def)
  ultimately show ?thesis
    using engines_mediated[OF d', of 3] d' by (auto simp: Let_def)
qed

section \<open>A record that is not applied\<close>

lemma handle_profile_opcode:
  "decode_record hb dec = (dec', Inr (RA_ReadProfile h n)) \<Longrightarrow> h = parse_header hb \<and> ph_opcode h = PROFILE_OPCODE"
  by (auto simp: decode_record_ok record_action_of_def Let_def split: if_splits)

lemma route_sessions:
  assumes "route_record h rt = (rt', out)"
  shows "rt_sessions rt' = (if is_admitted out then record_activity (rt_sessions rt) (ph_session_id h) (ph_causal_epoch h)
     else rt_sessions rt)"
  using route_state[of h rt] assms by (auto split: if_splits)

lemma map_err_eq: "Inl e = map_err f r \<longleftrightarrow> (\<exists>x. r = Inl x \<and> e = f x)" "Inr y = map_err f r \<longleftrightarrow> r = Inr y"
  by (cases r; auto simp: map_err_def)+

lemma unapplied_frame:
  assumes "process_record verify S hb payload d = Some (d', res)" "\<forall>s evs. res \<noteq> Inr (DO_Applied s evs)"
  shows "let rt = dp_runtime d; rt' = dp_runtime d'; h = parse_header hb in
      rt_auth rt' = rt_auth rt \<and> dr_tenants (rt_domains rt') = dr_tenants (rt_domains rt)
    \<and> dr_partitions (rt_domains rt') = dr_partitions (rt_domains rt) \<and> dr_shards (rt_domains rt') = dr_shards (rt_domains rt)
    \<and> rt_topology rt' = rt_topology rt \<and> rt_pressure rt' = rt_pressure rt
    \<and> ep_stabilize (dp_shards d') = ep_stabilize (dp_shards d)
    \<and> (dp_shards d' = dp_shards d \<or> (\<exists>e. res = Inl (DE_Engine e)))
    \<and> (ph_opcode h \<noteq> PROFILE_OPCODE \<longrightarrow> rt_paths rt' = rt_paths rt
         \<and> dr_sessions (rt_domains rt') = dr_sessions (rt_domains rt)
         \<and> rt_sessions rt' \<in> {rt_sessions rt, record_activity (rt_sessions rt) (ph_session_id h) (ph_causal_epoch h)})"
proof -
  from assms(1) have "record_step verify S hb payload d (d', res)" by (simp add: process_record_step)
  then show ?thesis
  proof cases
    case (profile dec h n)
    then have "d' = fst (handle_profile verify h payload (d\<lparr>dp_decoder := dec\<rparr>))" by (metis fst_conv)
    moreover have "ph_opcode (parse_header hb) = PROFILE_OPCODE" using handle_profile_opcode[OF profile(2)] by blast
    ultimately show ?thesis by (simp add: Let_def)
  next
    case (rejected dec h rt r)
    then show ?thesis
      using route_keepsD[OF rejected(4)] route_sessions[OF rejected(4)] by (simp add: Let_def is_admitted_def)
  next
    case (refused dec h rt c e)
    then show ?thesis
      using route_keepsD[OF refused(4)] route_sessions[OF refused(4)] decode_routed_header[OF refused(3)]
      by (simp add: Let_def is_admitted_def)
  next
    case (failed dec h rt c x pl e)
    have "\<exists>er. e = DE_Engine er"
      using failed(6) by (auto simp: pool_apply_iff map_err_eq)
    then show ?thesis
      using failed(1,2) route_keepsD[OF failed(4)] route_sessions[OF failed(4)] decode_routed_header[OF failed(3)]
        pool_apply_effect(1)[OF failed(6)]
      by (auto simp: Let_def is_admitted_def)
  qed (use assms(2) in \<open>simp_all add: Let_def\<close>)
qed

text \<open>
  C13. A record that is not applied leaves the structure alone.  Whatever a record's bytes, if the
  outcome is anything but \<open>Applied\<close> (refused, skipped, rejected, a profile, an error of any kind),
  then the authority table, the tenants, the partitions and the shards, the topology, the reported
  pressure and the quiescence counts are what they were; the engines are, too, unless the engine
  itself reported the error; and unless it was a profile, the paths, the claimed policies and the
  sessions are, except that an admitted record's activity was noted before its payload was looked at.
\<close>

theorem unapplied_leaves_structure:
  assumes "process_record verify S hb payload d = Some (d', res)" "\<forall>s evs. res \<noteq> Inr (DO_Applied s evs)"
  shows "let rt = dp_runtime d; rt' = dp_runtime d'; h = parse_header hb in
      rt_auth rt' = rt_auth rt \<and> dr_tenants (rt_domains rt') = dr_tenants (rt_domains rt)
    \<and> dr_partitions (rt_domains rt') = dr_partitions (rt_domains rt) \<and> dr_shards (rt_domains rt') = dr_shards (rt_domains rt)
    \<and> rt_topology rt' = rt_topology rt \<and> rt_pressure rt' = rt_pressure rt
    \<and> ep_stabilize (dp_shards d') = ep_stabilize (dp_shards d)
    \<and> (dp_shards d' = dp_shards d \<or> (\<exists>e. res = Inl (DE_Engine e)))
    \<and> (ph_opcode h \<noteq> PROFILE_OPCODE \<longrightarrow> rt_paths rt' = rt_paths rt
         \<and> dr_sessions (rt_domains rt') = dr_sessions (rt_domains rt)
         \<and> rt_sessions rt' \<in> {rt_sessions rt, record_activity (rt_sessions rt) (ph_session_id h) (ph_causal_epoch h)})"
  using unapplied_frame[OF assms] .

text \<open>A record of an admitted class whose payload is missing.\<close>

theorem unapplied_leaves_structure_witness:
  "\<exists>d' e. process_record (\<lambda>_ _ _. False) (map const_of) (take 48 (encode_record create_op (demo_context 7 5))) []
     demo_dispatcher = Some (d', Inl e) \<and> dp_shards d' = dp_shards demo_dispatcher
   \<and> rt_auth (dp_runtime d') = rt_auth (dp_runtime demo_dispatcher)"
proof -
  let ?hb = "take 48 (encode_record create_op (demo_context 7 5))"
  have "\<exists>e. parse_payload 0x000C [] = Inl e \<and> (\<forall>x. e \<noteq> DE_Engine x)"
    by (simp add: parse_payload_def parse_partition_create_def read_u64_def need_def remaining_def reader_new_def and_then_def)
  then obtain e where e: "parse_payload 0x000C [] = Inl e" "\<forall>x. e \<noteq> DE_Engine x" by blast
  obtain rt dec where r: "route_record (context_header create_op (demo_context 7 5)) (dp_runtime demo_dispatcher)
       = (rt, RO_Admitted OC_Control)"
    "decode_record ?hb (dp_decoder demo_dispatcher) = (dec, Inr (RA_RouteReady (context_header create_op (demo_context 7 5))))"
    using create_record_admitted[OF demo_opens(1)] by blast
  have "checked_op rt (context_header create_op (demo_context 7 5)) [] = Inl e"
    using e by (simp add: checked_op_def context_header_def create_op_wire and_then_def)
  from record_step.refused[OF r(2,1) this]
  obtain d' where d': "process_record (\<lambda>_ _ _. False) (map const_of) ?hb [] demo_dispatcher = Some (d', Inl e)"
    by (auto simp flip: process_record_step)
  show ?thesis
    using unapplied_leaves_structure[OF d'] d' e(2) by (auto simp: Let_def)
qed

section \<open>Creating a partition\<close>

lemma pick_shard_sound:
  assumes "awf (rt_topology rt)"
  shows "shard_health (rt_topology rt) (pick_shard_for rt sid) = HEALTH_POS
    \<or> (\<forall>s. shard_health (rt_topology rt) s \<noteq> HEALTH_POS) \<and> pick_shard_for rt sid = 0"
proof (cases "Option.bind (placement_hint rt sid) (\<lambda>a. best_shard_for (rt_topology rt) a (rt_domains rt))")
  case None
  then show ?thesis
    using any_healthy_SomeD[OF assms] any_healthy_None[OF assms] by (auto simp: pick_shard_for_def split: option.split)
next
  case (Some s)
  then have "\<exists>a. candidate (rt_topology rt) (rt_domains rt) s a"
    using best_shard_SomeD[OF assms] by (fastforce simp: bind_eq_Some_conv)
  then show ?thesis using Some by (auto simp: pick_shard_for_def candidate_def)
qed

lemma pick_shard_nearest:
  assumes "awf (rt_topology rt)" "placement_hint rt sid = Some a" "candidate (rt_topology rt) (rt_domains rt) s' a'"
  shows "\<exists>b. candidate (rt_topology rt) (rt_domains rt) (pick_shard_for rt sid) b \<and> hop_distance a b \<le> hop_distance a a'"
proof -
  obtain s where s: "best_shard_for (rt_topology rt) a (rt_domains rt) = Some s"
    using best_shard_None[OF assms(1)] assms(3) by blast
  then have "pick_shard_for rt sid = s" using assms(2) by (simp add: pick_shard_for_def)
  with best_shard_SomeD[OF assms(1) s] assms(3) show ?thesis by blast
qed

lemma installed_rows:
  "fold (\<lambda>c t. auth_install t (w, c) row_permissive) cs t (q, c)
     = (if q = w \<and> c \<in> set cs then Some row_permissive else t (q, c))"
  by (induction cs arbitrary: t) (auto simp: auth_install_def)

lemma feedback_create:
  fixes rt :: "'key session_runtime" and h :: parsed_header
  assumes "x = PartitionCreate p root cls cd"
  defines "rt' \<equiv> feedback_control_op h x rt"
  shows "aget (dr_partitions (rt_domains rt')) q = (if q = ucast p
           then Some \<lparr>pt_id = ucast p, pt_session_id = ph_session_id h, pt_lattice_class = cls,
                  pt_causal_scope = scope_bits cd, pt_shard_id = pick_shard_for rt (ph_session_id h)\<rparr>
           else aget (dr_partitions (rt_domains rt)) q)"
    "rt_auth rt' (q, c) = (if q = ucast p \<and> c \<in> set CREATED_CLASSES then Some row_permissive else rt_auth rt (q, c))"
  by (simp_all add: assms feedback_control_op_def register_partition_def Let_def installed_rows)

text \<open>
  C30. Creating a partition opens it.  When a record is applied whose payload is a \<open>PartitionCreate\<close>,
  in a dispatcher whose topology table lists each shard once (\<open>awf\<close>), then whatever owner, shard and
  rows the named partition had before, and whatever partition the
  record's header names (which is the one the gate was asked about), the named partition now belongs
  to the record's session, with the class and scope of the payload, on a shard that is healthy (or
  shard 0 when none is); the gate lets every class of instructions (not a profile, nor an unknown
  opcode) pass on it, whatever the policy of the session; and no other partition or row changed.  So a session that the gate refuses on a
  partition can create it again and is no longer refused.
\<close>

theorem partition_create_opens:
  fixes d' :: "'key dispatcher"
  assumes "process_record verify S hb payload d = Some (d', Inr (DO_Applied s evs))"
    and "parse_payload (ph_opcode (parse_header hb)) payload = Inr (PartitionCreate p root cls cd)"
    and "awf (rt_topology (dp_runtime d))"
  shows "let h = parse_header hb; rt = dp_runtime d; rt' = dp_runtime d'; w = ucast p in
      (\<exists>e. aget (dr_partitions (rt_domains rt')) w = Some e \<and> pt_session_id e = ph_session_id h
         \<and> pt_lattice_class e = cls \<and> pt_causal_scope e = scope_bits cd
         \<and> (shard_health (rt_topology rt') (pt_shard_id e) = HEALTH_POS
            \<or> (\<forall>t. shard_health (rt_topology rt') t \<noteq> HEALTH_POS) \<and> pt_shard_id e = 0))
    \<and> (c \<noteq> OC_Profile \<longrightarrow> gate (rt_auth rt') w c CLASS_BOTTOM pol = GR_Allow \<or> c = OC_Unknown)
    \<and> (\<forall>q. q \<noteq> w \<longrightarrow> aget (dr_partitions (rt_domains rt')) q = aget (dr_partitions (rt_domains rt)) q
         \<and> rt_auth rt' (q, c) = rt_auth rt (q, c))"
proof -
  obtain dec rt1 x pl where a:
    "route_record (parse_header hb) (dp_runtime d) = (rt1, RO_Admitted (from_opcode (ph_opcode (parse_header hb))))"
    "checked_op (dp_runtime d) (parse_header hb) payload = Inr x"
    "d' = after_apply (parse_header hb) (from_opcode (ph_opcode (parse_header hb))) x s
            (d\<lparr>dp_decoder := dec, dp_runtime := rt1, dp_shards := pl\<rparr>)"
    "opcode_for x = ph_opcode (parse_header hb)"
    using assms(1) by (elim applied_record)
  have x: "x = PartitionCreate p root cls cd" using a(2) assms(2) by (simp add: checked_op_ok)
  then have ctl: "from_opcode (ph_opcode (parse_header hb)) = OC_Control" using a(4) by (simp add: from_opcode_def flip: a(4))
  define rt2 where "rt2 = update_pressure s (pressure_snapshot pl s) rt1"
  have rt': "rt_domains (dp_runtime d') = rt_domains (feedback_control_op (parse_header hb) x rt2)"
    "rt_auth (dp_runtime d') = rt_auth (feedback_control_op (parse_header hb) x rt2)"
    "rt_topology (dp_runtime d') = rt_topology rt2"
    by (simp_all add: a(3) ctl after_apply_def Let_def rt2_def)
  have k: "rt_domains rt2 = rt_domains (dp_runtime d)" "rt_auth rt2 = rt_auth (dp_runtime d)" "awf (rt_topology rt2)"
    using route_keepsD[OF a(1)] assms(3) by (simp_all add: rt2_def update_pressure_simps topology_update_wf)
  have g: "gate (rt_auth (dp_runtime d')) (ucast p) c CLASS_BOTTOM pol = GR_Allow" if "c \<in> set CREATED_CLASSES"
    using that by (intro gate_permissive) (simp add: rt' feedback_create(2)[OF x])
  have cs: "c \<in> set CREATED_CLASSES \<or> c = OC_Profile \<or> c = OC_Unknown"
    by (cases c) (simp_all add: CREATED_CLASSES_def)
  show ?thesis
    using pick_shard_sound[OF k(3), of "ph_session_id (parse_header hb)"] g cs
    by (auto simp: Let_def rt' k feedback_create[OF x])
qed

text \<open>Partition 7 asks for an assertion bit; the session, under a registered tenant, claims nothing.\<close>

definition guarded_runtime :: "u64 session_runtime" where
  "guarded_runtime = one_session\<lparr>
     rt_auth := auth_install auth_new (7, OC_SetValue) \<lparr>row_class = CLASS_BOTTOM, row_policy = POLICY_NONE\<lparr>assertion := 1\<rparr>\<rparr>,
     rt_domains := register_session (register_tenant domains_new single_tenant)
       \<lparr>sd_id = 1, sd_tenant_id = 0, claimed_policy = POLICY_NONE, sd_auth_mode = Advisory, sd_quota = session_quota_default\<rparr>\<rparr>"

theorem partition_create_opens_witness:
  "\<exists>d d'. gate (rt_auth (dp_runtime d)) 7 OC_SetValue CLASS_BOTTOM (session_policy (dp_runtime d) 1)
        = GR_Deny (DG_PolicyViolation AX_Assertion)
    \<and> process_record (\<lambda>_ _ _. False) (map const_of) (take 48 (encode_record create_op (demo_context 9 5)))
        (drop 48 (encode_record create_op (demo_context 9 5))) d = Some (d' :: u64 dispatcher, Inr (DO_Applied 0 []))
    \<and> gate (rt_auth (dp_runtime d')) 7 OC_SetValue CLASS_BOTTOM (session_policy (dp_runtime d') 1) = GR_Allow"
proof -
  define d where "d = demo_dispatcher\<lparr>dp_runtime := guarded_runtime\<rparr>"
  let ?hb = "take 48 (encode_record create_op (demo_context 9 5))"
    and ?pb = "drop 48 (encode_record create_op (demo_context 9 5))"
  have g: "gate (rt_auth (dp_runtime d)) 7 OC_SetValue CLASS_BOTTOM (session_policy (dp_runtime d) 1)
        = GR_Deny (DG_PolicyViolation AX_Assertion)"
    by (simp add: d_def) code_simp
  have o: "opens_to d 9" "partition_shard (dp_runtime d) 9 = 0"
    by (simp_all add: d_def opens_to_def demo_dispatcher_def dispatcher_new_def guarded_runtime_def gate_def auth_install_def
        auth_new_def one_session_def partition_shard_def register_session_def register_tenant_def domains_new_def)
  obtain d' where d': "process_record (\<lambda>_ _ _. False) (map const_of) ?hb ?pb d = Some (d', Inr (DO_Applied 0 []))"
    using create_record_runs[OF o(1) o(2)[symmetric]] by blast
  have p: "parse_payload (ph_opcode (parse_header ?hb)) ?pb = Inr (PartitionCreate 7 0 CLASS_BOTTOM \<lparr>scope_bits = 0, scope_root = 7\<rparr>)"
    using decode_payload[OF create_op_wire(1), of "[]"]
    by (simp add: encoded_header encoded_payload context_header_def create_op_wire(2))
  have w: "awf (rt_topology (dp_runtime d))"
    by (simp add: d_def guarded_runtime_def one_session_def runtime_new_def topology_new_def)
  show ?thesis
    using partition_create_opens[OF d' p w, of OC_SetValue] g d' by (auto simp: Let_def)
qed

section \<open>The first profile of a session\<close>

lemma profile_record:
  assumes "process_record verify S hb payload d = Some (d', res)"
    and "decode_record hb (dp_decoder d) = (dec, Inr (RA_ReadProfile h n))"
  shows "(d', res) = handle_profile verify h payload (d\<lparr>dp_decoder := dec\<rparr>)"
  using assms by (simp add: process_record_def Let_def)

lemma session_domain_after:
  fixes rt :: "'key session_runtime"
  assumes "dr_sessions (rt_domains rt) (ph_session_id h) = Some s" "process_profile verify h payload rt = (rt', r)"
  shows "dr_sessions (rt_domains rt') (ph_session_id h)
     = Some (case r of Inl _ \<Rightarrow> s | Inr pol \<Rightarrow> s\<lparr>claimed_policy := pol\<rparr>)"
  using assms by (auto simp: process_profile_def split: sum.splits)

lemma none_policy [simp]: "intersect POLICY_NONE p = POLICY_NONE"
  by (simp add: intersect_def POLICY_NONE_def)

text \<open>
  C29. What the first profile of a session opens.  A profile record for a session that the runtime
  does not know always creates the session, under tenant 0, with the stream's path and with the
  record's own sequence number as replay floor, whether or not the profile then parses and verifies.
  If tenant 0 is registered, the session's policy stays within the tenant's, and after a failed
  profile it is empty; but if tenant 0 is not registered, as in a new dispatcher, the session has
  full authority on every axis, disclosure included, even after a profile that failed.
\<close>

theorem bootstrap_opens:
  fixes d' :: "'key dispatcher"
  assumes "process_record verify S hb payload d = Some (d', res)"
    and "decode_record hb (dp_decoder d) = (dec, Inr (RA_ReadProfile h n))"
    and "aget (rt_sessions (dp_runtime d)) (ph_session_id h) = None"
  shows "let sid = ph_session_id h; rt' = dp_runtime d' in
      (\<exists>s. aget (rt_sessions rt') sid = Some s \<and> se_tenant_id s = 0 \<and> stream_seq_floor s = ph_stream_seq h
         \<and> active_path_id s = Some (preamble_path dec))
    \<and> resolve_session (rt_paths rt') (preamble_path dec) = Some sid
    \<and> (res = Inr (DO_Bootstrapped sid) \<or> (\<exists>e. res = Inl (DE_Ingress e)))
    \<and> (dr_tenants (rt_domains (dp_runtime d)) 0 = None \<longrightarrow>
         session_policy rt' sid = POLICY_ALL \<and> held_disclosure rt' sid = - 1)
    \<and> (\<forall>t. dr_tenants (rt_domains (dp_runtime d)) 0 = Some t \<longrightarrow>
         is_bounded_by (session_policy rt' sid) (td_policy t)
       \<and> ((\<exists>e. res = Inl e) \<longrightarrow> session_policy rt' sid = POLICY_NONE))"
proof -
  let ?sid = "ph_session_id h" and ?rt1 = "bootstrap_session h (preamble_path dec) (dp_runtime d)"
  obtain rt2 r where p: "process_profile verify h payload ?rt1 = (rt2, r)" by (cases "process_profile verify h payload ?rt1")
  have hp: "(d', res) = handle_profile verify h payload (d\<lparr>dp_decoder := dec\<rparr>)" by (rule profile_record[OF assms(1,2)])
  have run: "dp_runtime d' = rt2" "res = map_err DE_Ingress (case r of Inl e \<Rightarrow> Inl e | Inr _ \<Rightarrow> Inr (DO_Bootstrapped ?sid))"
    using hp assms(3) p by (simp_all add: handle_profile_def session_get_def Let_def)
  have f: "rt_sessions rt2 = rt_sessions ?rt1" "rt_paths rt2 = rt_paths ?rt1" "dr_tenants (rt_domains rt2) = dr_tenants (rt_domains (dp_runtime d))"
    using process_profile_frame(1,2,6)[of verify h payload ?rt1] p
    by (simp_all add: bootstrap_session_def register_session_def)
  obtain sd where sd: "dr_sessions (rt_domains ?rt1) ?sid = Some sd" "sd_tenant_id sd = 0" "claimed_policy sd = POLICY_NONE"
    by (simp add: bootstrap_session_def register_session_def)
  note after = session_domain_after[OF sd(1) p]
  have eff: "effective_policy (rt_domains rt2) ?sid = map_option (\<lambda>t. intersect (case r of Inl _ \<Rightarrow> POLICY_NONE | Inr pol \<Rightarrow> pol) (td_policy t))
      (dr_tenants (rt_domains (dp_runtime d)) 0)"
    using after f(3) sd(2,3) by (auto simp: effective_policy_def split: sum.split option.split)
  have "is_bounded_by (intersect pol t) t" for pol t
    by (simp add: is_bounded_by_def policy.clip_assoc policy.clip_idem)
  then show ?thesis
    using eff by (auto simp: run(1) session_policy_def held_disclosure_def f bootstrap_session_def session_create_def
        resolve_session_def path_create_def Let_def run(2) map_err_def split: sum.split)
qed

text \<open>A new dispatcher after a preamble: a profile record without a payload is an error and opens everything.\<close>

definition profile_header :: "u64 \<Rightarrow> byte list" where
  "profile_header sq = to_le (0x0100 :: u16) @ to_le (0 :: u16) @ to_le (48 :: u32) @ to_le (0 :: u64)
     @ to_le (1 :: u64) @ to_le (0 :: u64) @ to_le (0 :: u64) @ to_le sq"

lemma profile_header_parsed:
  "parse_header (profile_header sq) = \<lparr>ph_opcode = 0x0100, ph_flags = 0, ph_length = 48, ph_tenant_id = 0,
     ph_session_id = 1, ph_partition_id = 0, ph_causal_epoch = 0, ph_stream_seq = sq\<rparr>"
  by (simp add: parse_header_def profile_header_def le_at_def from_le_to_le drop_take take_append)

definition fresh_stream :: "u64 dispatcher" where
  "fresh_stream = fst (process_preamble (encode_stream_preamble 5 1 0 0) dispatcher_new)"

lemma fresh_decoder: "dp_decoder fresh_stream = decoder_new\<lparr>sdec_preamble := Some demo_preamble\<rparr>"
    "dp_runtime fresh_stream = runtime_new" "dp_shards fresh_stream = pool_new"
  by (simp_all add: fresh_stream_def process_preamble_def preamble_decodes dispatcher_new_def demo_preamble_def)

theorem bootstrap_opens_witness:
  "\<exists>d' e. process_record (\<lambda>_ _ _. False) (map const_of) (profile_header 1) [] fresh_stream = Some (d', Inl (DE_Ingress e))
    \<and> session_policy (dp_runtime d') 1 = POLICY_ALL"
proof -
  let ?h = "parse_header (profile_header 1)"
  have "record_action_of ?h = RA_ReadProfile ?h 0"
    by (simp add: record_action_of_def profile_header_parsed PROFILE_OPCODE_def MIN_RECORD_LEN_def Let_def)
  then obtain dec where dec: "decode_record (profile_header 1) (dp_decoder fresh_stream) = (dec, Inr (RA_ReadProfile ?h 0))"
    by (auto simp: decode_record_ok fresh_decoder profile_header_parsed above_trace_def decoder_new_def
        demo_preamble_def MIN_RECORD_LEN_def)
  have "parse_profile_payload [] = Inl (IE_ProfileTruncated 7 0)" by (simp add: parse_profile_payload_def)
  then have p: "process_profile verify ?h [] rt = (rt, Inl (IE_ProfileTruncated 7 0))" for verify and rt :: "u64 session_runtime"
    by (simp add: process_profile_def)
  obtain d' where d': "process_record (\<lambda>_ _ _. False) (map const_of) (profile_header 1) [] fresh_stream
      = Some (d', Inl (DE_Ingress (IE_ProfileTruncated 7 0)))"
    by (simp add: process_record_def dec handle_profile_def p map_err_def Let_def)
  have "aget (rt_sessions (dp_runtime fresh_stream)) (ph_session_id ?h) = None"
    "dr_tenants (rt_domains (dp_runtime fresh_stream)) 0 = None"
    by (simp_all add: fresh_decoder runtime_new_def sessions_new_def domains_new_def)
  then show ?thesis
    using bootstrap_opens[OF d' dec] d' by (auto simp: Let_def profile_header_parsed)
qed

section \<open>Runs of the dispatcher\<close>

text \<open>Preambles and records in any order.\<close>

inductive dispatch_step :: "('key \<Rightarrow> byte list \<Rightarrow> byte list \<Rightarrow> bool) \<Rightarrow> saturation \<Rightarrow> 'key dispatcher \<Rightarrow> 'key dispatcher \<Rightarrow> bool"
  for verify S where
  on_preamble: "dispatch_step verify S d (fst (process_preamble buf d))"
| on_record: "process_record verify S hb payload d = Some (d', res) \<Longrightarrow> dispatch_step verify S d d'"

text \<open>The runtime after a record: of a profile, of routing alone, or of an applied instruction.\<close>

lemma record_runtime_cases:
  assumes "process_record verify S hb payload d = Some (d', res)"
  obtains (same) "dp_runtime d' = dp_runtime d"
  | (profile) h path where "dp_runtime d' = fst (process_profile verify h payload (profile_runtime h path (dp_runtime d)))"
  | (routed) h where "dp_runtime d' = fst (route_record h (dp_runtime d))"
  | (applied) h c x s d1 where "d' = after_apply h c x s d1" "dp_runtime d1 = fst (route_record h (dp_runtime d))"
      "route_record h (dp_runtime d) = (dp_runtime d1, RO_Admitted c)" "aget (ep_engines (dp_shards d1)) s \<noteq> None"
      "s = partition_shard (dp_runtime d) (ph_partition_id h)"
proof -
  from assms have "record_step verify S hb payload d (d', res)" by (simp add: process_record_step)
  then show ?thesis
  proof cases
    case (profile dec h n)
    then have "d' = fst (handle_profile verify h payload (d\<lparr>dp_decoder := dec\<rparr>))" by (metis fst_conv)
    then show ?thesis by (intro that(2)[of h "preamble_path dec"]) (simp add: handle_profile_runtime)
  next
    case (rejected dec h rt r)
    then show ?thesis by (intro that(3)[of h]) simp
  next
    case (refused dec h rt c e)
    then show ?thesis by (intro that(3)[of h]) simp
  next
    case (failed dec h rt c x pl e)
    then show ?thesis by (intro that(3)[of h]) simp
  next
    case (applied dec h rt c x s pl evs)
    note dom = route_keepsD(1)[OF applied(4)]
    show ?thesis
      using applied(1,4,7) applied(6)[unfolded partition_shard_cong[OF dom]] pool_apply_effect(3)[OF applied(7)]
      by (intro that(4)[of h c x s "d\<lparr>dp_decoder := dec, dp_runtime := rt, dp_shards := pl\<rparr>"]) (auto simp: pool_apply_iff)
  qed (use that(1) in simp_all)
qed

lemma record_activity_get:
  "aget (record_activity t sid ep) k = map_option (\<lambda>s. if k = sid
     then (if ep > last_active_causal_epoch s then s\<lparr>last_active_causal_epoch := ep\<rparr> else s)\<lparr>consecutive_quiescent_epochs := 0\<rparr>
     else s) (aget t k)"
  by (cases "k = sid"; cases "aget t k") (auto simp: record_activity_def)

text \<open>What no step changes of a session once it is there.\<close>

definition fixed_part :: "session_table \<Rightarrow> session_id \<Rightarrow> (u64 \<times> tenant_id) option" where
  "fixed_part t sid = map_option (\<lambda>s. (stream_seq_floor s, se_tenant_id s)) (aget t sid)"

lemma fixed_part_route: "fixed_part (rt_sessions (fst (route_record h rt))) = fixed_part (rt_sessions rt)"
proof -
  have "fixed_part (record_activity t sid ep) = fixed_part t" for t sid ep
    by (auto simp: fixed_part_def record_activity_get fun_eq_iff option.map_comp comp_def intro!: option.map_cong0)
  then show ?thesis by (subst route_state) simp
qed

lemma fixed_part_routed: "route_record h rt = (rt', out) \<Longrightarrow> fixed_part (rt_sessions rt') = fixed_part (rt_sessions rt)"
  using fixed_part_route[of h rt] by simp

lemma fixed_part_profile:
  "fixed_part (rt_sessions rt) sid = Some v \<Longrightarrow> fixed_part (rt_sessions (profile_runtime h path rt)) sid = Some v"
  by (auto simp: fixed_part_def profile_runtime_def bootstrap_session_def reconnect_session_def session_get_def
      session_create_def migrate_path_def Let_def split: option.splits)

lemma fixed_part_step:
  assumes "dispatch_step verify S d d'" "fixed_part (rt_sessions (dp_runtime d)) sid = Some v"
  shows "fixed_part (rt_sessions (dp_runtime d')) sid = Some v"
  using assms
proof cases
  case (on_preamble buf)
  then show ?thesis using assms(2) by (simp add: process_preamble_def split_beta)
next
  case (on_record hb payload res)
  then show ?thesis
    by (cases rule: record_runtime_cases) (use assms(2) in \<open>simp_all add: process_profile_frame fixed_part_profile fixed_part_route fixed_part_routed\<close>)
qed

lemma fixed_part_steps:
  "(dispatch_step verify S)\<^sup>*\<^sup>* d d' \<Longrightarrow> fixed_part (rt_sessions (dp_runtime d)) sid = Some v \<Longrightarrow>
     fixed_part (rt_sessions (dp_runtime d')) sid = Some v"
  by (induction rule: rtranclp_induct) (auto intro: fixed_part_step)

text \<open>
  C32. The replay floor never moves.  However many preambles and records the dispatcher processes,
  applied ones included, a session that exists keeps existing with the same tenant and with the
  replay floor it started from: nothing in the dispatcher acknowledges a sequence number.  So a
  header that once passed the sequence check of the gate pipeline passes it forever; only the trace
  of the stream decoder stands against a replay, and a new decoder has none.
\<close>

theorem replay_floor_frozen:
  assumes "(dispatch_step verify S)\<^sup>*\<^sup>* d d'" "aget (rt_sessions (dp_runtime d)) sid = Some s"
  shows "(\<exists>s'. aget (rt_sessions (dp_runtime d')) sid = Some s' \<and> stream_seq_floor s' = stream_seq_floor s
        \<and> se_tenant_id s' = se_tenant_id s)
    \<and> is_seq_valid (rt_sessions (dp_runtime d')) sid q = is_seq_valid (rt_sessions (dp_runtime d)) sid q
    \<and> (ph_session_id h = sid \<longrightarrow> stream_seq_floor s \<le> ph_stream_seq h \<longrightarrow>
         snd (route_record h (dp_runtime d')) \<noteq> RO_Rejected RR_StreamSeqReplay)
    \<and> above_trace decoder_new h"
proof -
  have f: "fixed_part (rt_sessions (dp_runtime d)) sid = Some (stream_seq_floor s, se_tenant_id s)"
    using assms(2) by (simp add: fixed_part_def)
  obtain s' where s': "aget (rt_sessions (dp_runtime d')) sid = Some s'" "stream_seq_floor s' = stream_seq_floor s"
    "se_tenant_id s' = se_tenant_id s"
    using fixed_part_steps[OF assms(1) f] by (auto simp: fixed_part_def)
  then show ?thesis
    using assms(2) route_rejected(3)[of "dp_runtime d'" h s']
    by (auto simp: is_seq_valid_def above_trace_def decoder_new_def)
qed

theorem replay_floor_frozen_witness:
  "\<exists>d'. process_record (\<lambda>_ _ _. False) (map const_of) (take 48 (encode_record create_op (demo_context 7 5)))
     (drop 48 (encode_record create_op (demo_context 7 5))) demo_dispatcher = Some (d', Inr (DO_Applied 3 []))
   \<and> is_seq_valid (rt_sessions (dp_runtime d')) 1 5"
proof -
  obtain d' where d': "process_record (\<lambda>_ _ _. False) (map const_of) (take 48 (encode_record create_op (demo_context 7 5)))
     (drop 48 (encode_record create_op (demo_context 7 5))) demo_dispatcher = Some (d', Inr (DO_Applied 3 []))"
    using create_record_runs[OF demo_opens(1) demo_opens(2)[symmetric]] by blast
  have s: "aget (rt_sessions (dp_runtime demo_dispatcher)) 1 = Some ((session_at 1 0)\<lparr>stream_seq_floor := 5\<rparr>)"
    using demo_opens(1) by (simp add: opens_to_def one_session_def session_create_def session_at_def)
  show ?thesis
    using replay_floor_frozen[OF r_into_rtranclp[of "dispatch_step (\<lambda>_ _ _. False) (map const_of)", OF dispatch_step.on_record[OF d']] s, of 5] d' s
    by (simp add: is_seq_valid_def)
qed

section \<open>A dispatcher that no host configured\<close>

definition unconfigured :: "'key dispatcher \<Rightarrow> bool" where
  "unconfigured d \<longleftrightarrow> dr_tenants (rt_domains (dp_runtime d)) = Map.empty
     \<and> (\<forall>q c. rt_auth (dp_runtime d) (q, c) \<in> {None, Some row_permissive})"

lemma feedback_rows:
  "rt_auth (feedback_control_op h x rt) (q, c) \<in> {rt_auth rt (q, c), Some row_permissive}"
  by (auto simp: feedback_control_op_def Let_def installed_rows split: isa_op.split)

lemma after_apply_rows:
  "rt_auth (dp_runtime (after_apply h c x s d)) (q, k) \<in> {rt_auth (dp_runtime d) (q, k), Some row_permissive}"
  using feedback_rows[of h x "update_pressure s (pressure_snapshot (dp_shards d) s) (dp_runtime d)" q k]
  by (auto simp: after_apply_def Let_def update_pressure_simps)

lemma unconfigured_step:
  assumes "dispatch_step verify S d d'" "unconfigured d"
  shows "unconfigured d'"
  using assms
proof cases
  case (on_preamble buf)
  then show ?thesis using assms(2) by (simp add: process_preamble_def split_beta unconfigured_def)
next
  case (on_record hb payload res)
  then show ?thesis
  proof (cases rule: record_runtime_cases)
    case (applied h c x s d1)
    have "rt_auth (dp_runtime d') (q, k) \<in> {None, Some row_permissive}" for q k
    proof -
      have "rt_auth (dp_runtime d) (q, k) \<in> {None, Some row_permissive}" using assms(2) by (simp add: unconfigured_def)
      then show ?thesis
        using after_apply_rows[of h c x s d1 q k] route_keepsD(2)[OF applied(3)] by (auto simp: applied(1))
    qed
    then show ?thesis
      using assms(2) route_keepsD(1)[OF applied(3)] by (simp add: unconfigured_def applied(1))
  qed (use assms(2) in \<open>simp_all add: unconfigured_def process_profile_frame profile_runtime_frame route_keeps\<close>)
qed

lemma unconfigured_steps: "(dispatch_step verify S)\<^sup>*\<^sup>* d d' \<Longrightarrow> unconfigured d \<Longrightarrow> unconfigured d'"
  by (induction rule: rtranclp_induct) (auto intro: unconfigured_step)

lemma unconfigured_new: "unconfigured dispatcher_new"
  by (simp add: unconfigured_def dispatcher_new_def runtime_new_def domains_new_def auth_new_def)

lemma unconfigured_open:
  assumes "unconfigured d"
  shows "session_policy (dp_runtime d) sid = POLICY_ALL" "held_disclosure (dp_runtime d) sid = - 1"
    "gate (rt_auth (dp_runtime d)) q c CLASS_BOTTOM pol = GR_Allow"
proof -
  have "effective_policy (rt_domains (dp_runtime d)) sid = None"
    using assms by (simp add: unconfigured_def effective_policy_def split: option.split)
  then show "session_policy (dp_runtime d) sid = POLICY_ALL" "held_disclosure (dp_runtime d) sid = - 1"
    by (simp_all add: session_policy_def held_disclosure_def)
  show "gate (rt_auth (dp_runtime d)) q c CLASS_BOTTOM pol = GR_Allow"
    using assms by (intro gate_permissive) (simp add: unconfigured_def)
qed

lemma gate_denied_by: "snd (route_record h rt) = RO_Rejected (RR_AuthGateDenied r) \<Longrightarrow>
    gate (rt_auth rt) (ph_partition_id h) (from_opcode (ph_opcode h)) CLASS_BOTTOM (session_policy rt (ph_session_id h)) = GR_Deny r"
  by (auto simp: route_record_def Let_def admit_record_cases split: option.splits gate_result.splits if_splits)

text \<open>
  C31. A dispatcher that its host did not configure denies nothing.  From a new dispatcher, after any
  preambles and records, every session has full authority and full disclosure, the gate lets every
  class pass on every partition, and no record is ever rejected by the gate or refused for its
  disclosure, since the only rows are those a creation installs and no tenant is ever registered.
\<close>

theorem fresh_never_denies:
  assumes "(dispatch_step verify S)\<^sup>*\<^sup>* dispatcher_new d"
  shows "session_policy (dp_runtime d) sid = POLICY_ALL \<and> held_disclosure (dp_runtime d) sid = - 1
    \<and> gate (rt_auth (dp_runtime d)) q c CLASS_BOTTOM pol = GR_Allow
    \<and> (process_record verify S hb payload d = Some (d', res) \<longrightarrow>
         res \<noteq> Inr (DO_Rejected (RR_AuthGateDenied r)) \<and> res \<noteq> Inl (DE_DisclosureViolation req held))"
proof -
  have u: "unconfigured d" using unconfigured_steps[OF assms unconfigured_new] .
  note open_all = unconfigured_open[OF u]
  have "res \<noteq> Inr (DO_Rejected (RR_AuthGateDenied r)) \<and> res \<noteq> Inl (DE_DisclosureViolation req held)"
    if p: "process_record verify S hb payload d = Some (d', res)"
  proof -
    from p have "record_step verify S hb payload d (d', res)" by (simp add: process_record_step)
    then show ?thesis
    proof cases
      case (profile dec h n)
      then have "res = snd (handle_profile verify h payload (d\<lparr>dp_decoder := dec\<rparr>))" by (metis snd_conv)
      then show ?thesis by (auto simp: handle_profile_def map_err_def Let_def split_beta split: sum.splits)
    next
      case (rejected dec h rt rr)
      then show ?thesis using gate_denied_by[of h "dp_runtime d" r] open_all(3) by auto
    next
      case (refused dec h rt c e)
      have "held_disclosure rt (ph_session_id h) = - 1"
        using open_all(2) by (simp add: held_disclosure_cong[OF route_keepsD(1)[OF refused(4)]])
      then have "e \<noteq> DE_DisclosureViolation req held"
        using refused(5) by (auto simp: checked_op_def check_disclosure_def and_then_Inl Let_def payload_error_def
            dest!: parse_payload_error split: option.splits)
      then show ?thesis using refused(2) by simp
    next
      case (failed dec h rt c x pl e)
      then show ?thesis by (auto simp: pool_apply_iff map_err_eq)
    qed simp_all
  qed
  with open_all show ?thesis by blast
qed

theorem fresh_never_denies_witness:
  "session_policy (dp_runtime fresh_stream) 1 = POLICY_ALL"
proof -
  have "(dispatch_step (\<lambda>_ _ _. False) (map const_of))\<^sup>*\<^sup>* dispatcher_new fresh_stream"
    unfolding fresh_stream_def by (rule r_into_rtranclp) (rule dispatch_step.on_preamble)
  from fresh_never_denies[OF this] show ?thesis by simp
qed

section \<open>Invariants of a run\<close>

definition tables_wf :: "'key dispatcher \<Rightarrow> bool" where
  "tables_wf d \<longleftrightarrow> health_in_step (dp_runtime d)
     \<and> (\<forall>s p. rt_pressure (dp_runtime d) s = Some p \<longrightarrow> aget (ep_engines (dp_shards d)) s \<noteq> None \<and> cursor_count p = 0)
     \<and> (\<forall>sid s. aget (rt_sessions (dp_runtime d)) sid = Some s \<longrightarrow> se_tenant_id s = 0
          \<and> (\<exists>sd. dr_sessions (rt_domains (dp_runtime d)) sid = Some sd \<and> sd_tenant_id sd = 0))
     \<and> (\<forall>q e. aget (dr_partitions (rt_domains (dp_runtime d))) q = Some e \<longrightarrow> pt_id e = q
          \<and> aget (rt_sessions (dp_runtime d)) (pt_session_id e) \<noteq> None
          \<and> (pt_shard_id e = 0 \<or> aget (ep_engines (dp_shards d)) (pt_shard_id e) \<noteq> None))"

lemma engines_grow:
  assumes "process_record verify S hb payload d = Some (d', res)" "aget (ep_engines (dp_shards d)) s \<noteq> None"
  shows "aget (ep_engines (dp_shards d')) s \<noteq> None"
proof -
  have pool: "aget (ep_engines pl) s \<noteq> None" if "pool_apply S' t x (dp_shards d) = Some (pl, r)" for S' t x pl r
    using that assms(2) by (auto simp: pool_apply_iff get_or_insert_def split: option.splits)
  from assms(1) have "record_step verify S hb payload d (d', res)" by (simp add: process_record_step)
  then show ?thesis
  proof cases
    case (profile dec h n)
    then have "d' = fst (handle_profile verify h payload (d\<lparr>dp_decoder := dec\<rparr>))" by (metis fst_conv)
    then show ?thesis using assms(2) by simp
  next
    case (failed dec h rt c x pl e)
    then show ?thesis using pool[OF failed(6)] by simp
  next
    case (applied dec h rt c x t pl evs)
    then show ?thesis using pool[OF applied(7)] by simp
  qed (use assms(2) in simp_all)
qed

text \<open>The sessions that exist: those before, and the one a profile creates.\<close>

lemma sessions_grow: "aget (rt_sessions rt) k = Some y \<Longrightarrow> \<exists>y. aget (rt_sessions (profile_runtime h path rt)) k = Some y"
  by (auto simp: profile_runtime_def bootstrap_session_def reconnect_session_def session_create_def migrate_path_def
      Let_def split: option.splits)

lemma session_exists_route: "(aget (rt_sessions (fst (route_record h rt))) k = None) = (aget (rt_sessions rt) k = None)"
  using fixed_part_route[of h rt, THEN fun_cong, of k]
  by (cases "aget (rt_sessions rt) k"; cases "aget (rt_sessions (fst (route_record h rt))) k") (simp_all add: fixed_part_def)

lemma session_tenant_route:
  "aget (rt_sessions (fst (route_record h rt))) k = Some s \<Longrightarrow> \<exists>s0. aget (rt_sessions rt) k = Some s0 \<and> se_tenant_id s = se_tenant_id s0"
  using fixed_part_route[of h rt, THEN fun_cong, of k]
  by (cases "aget (rt_sessions rt) k") (simp_all add: fixed_part_def)

definition sessions_wf :: "'key session_runtime \<Rightarrow> bool" where
  "sessions_wf rt \<longleftrightarrow> (\<forall>sid s. aget (rt_sessions rt) sid = Some s \<longrightarrow> se_tenant_id s = 0
     \<and> (\<exists>sd. dr_sessions (rt_domains rt) sid = Some sd \<and> sd_tenant_id sd = 0))"

lemma sessions_wf_route:
  assumes "sessions_wf rt"
  shows "sessions_wf (fst (route_record h rt))"
  unfolding sessions_wf_def
proof (intro allI impI)
  fix sid s assume "aget (rt_sessions (fst (route_record h rt))) sid = Some s"
  then obtain s0 where "aget (rt_sessions rt) sid = Some s0" "se_tenant_id s = se_tenant_id s0"
    using session_tenant_route by blast
  then show "se_tenant_id s = 0 \<and> (\<exists>sd. dr_sessions (rt_domains (fst (route_record h rt))) sid = Some sd \<and> sd_tenant_id sd = 0)"
    using assms by (simp add: sessions_wf_def route_keeps)
qed

lemma sessions_wf_profile:
  assumes "sessions_wf rt"
  shows "sessions_wf (fst (process_profile verify h payload (profile_runtime h' path rt)))"
proof -
  have "sessions_wf (profile_runtime h' path rt)"
    using assms by (auto simp: sessions_wf_def profile_runtime_def bootstrap_session_def reconnect_session_def session_get_def
        session_create_def migrate_path_def register_session_def Let_def split: option.splits if_splits)
  then show ?thesis
    by (fastforce simp: sessions_wf_def process_profile_def split: sum.split option.split)
qed

definition partitions_wf :: "'key dispatcher \<Rightarrow> bool" where
  "partitions_wf d \<longleftrightarrow> (\<forall>q e. aget (dr_partitions (rt_domains (dp_runtime d))) q = Some e \<longrightarrow> pt_id e = q
     \<and> aget (rt_sessions (dp_runtime d)) (pt_session_id e) \<noteq> None
     \<and> (pt_shard_id e = 0 \<or> aget (ep_engines (dp_shards d)) (pt_shard_id e) \<noteq> None))"

definition pressure_wf :: "'key dispatcher \<Rightarrow> bool" where
  "pressure_wf d \<longleftrightarrow> health_in_step (dp_runtime d)
     \<and> (\<forall>s p. rt_pressure (dp_runtime d) s = Some p \<longrightarrow> aget (ep_engines (dp_shards d)) s \<noteq> None \<and> cursor_count p = 0)"

lemma tables_wf_split: "tables_wf d \<longleftrightarrow> pressure_wf d \<and> sessions_wf (dp_runtime d) \<and> partitions_wf d"
  by (auto simp: tables_wf_def pressure_wf_def sessions_wf_def partitions_wf_def)

lemma partitions_wf_mono:
  assumes "partitions_wf d" "dr_partitions (rt_domains (dp_runtime d')) = dr_partitions (rt_domains (dp_runtime d))"
    "\<And>k. aget (rt_sessions (dp_runtime d)) k \<noteq> None \<Longrightarrow> aget (rt_sessions (dp_runtime d')) k \<noteq> None"
    "\<And>s. aget (ep_engines (dp_shards d)) s \<noteq> None \<Longrightarrow> aget (ep_engines (dp_shards d')) s \<noteq> None"
  shows "partitions_wf d'"
  using assms unfolding partitions_wf_def by metis

lemma pressure_wf_mono:
  assumes "pressure_wf d" "rt_topology (dp_runtime d') = rt_topology (dp_runtime d)" "rt_pressure (dp_runtime d') = rt_pressure (dp_runtime d)"
    "\<And>s. aget (ep_engines (dp_shards d)) s \<noteq> None \<Longrightarrow> aget (ep_engines (dp_shards d')) s \<noteq> None"
  shows "pressure_wf d'"
  using assms by (simp add: pressure_wf_def health_in_step_def)

lemma pressure_wf_after:
  assumes "pressure_wf d" "aget (ep_engines (dp_shards d)) s \<noteq> None"
  shows "pressure_wf (after_apply h c x s d)"
proof -
  have e: "rt_topology (dp_runtime (after_apply h c x s d)) = rt_topology (update_pressure s (pressure_snapshot (dp_shards d) s) (dp_runtime d))"
    "rt_pressure (dp_runtime (after_apply h c x s d)) = (rt_pressure (dp_runtime d))(s \<mapsto> pressure_snapshot (dp_shards d) s)"
    by (simp_all add: after_apply_def Let_def update_pressure_simps)
  have "health_in_step (update_pressure s (pressure_snapshot (dp_shards d) s) (dp_runtime d))"
    using assms(1) by (simp add: pressure_wf_def update_in_step)
  then have "health_in_step (dp_runtime (after_apply h c x s d))"
    by (simp add: health_in_step_def e update_pressure_simps)
  moreover have "cursor_count (pressure_snapshot (dp_shards d) s) = 0"
    by (simp add: pressure_snapshot_def pressure_default_def split: option.split)
  ultimately show ?thesis
    using assms by (auto simp: pressure_wf_def e split: if_splits)
qed

lemma healthy_has_engine:
  assumes "pressure_wf d" "shard_health (rt_topology (dp_runtime d)) s = HEALTH_POS"
  shows "aget (ep_engines (dp_shards d)) s \<noteq> None"
  using assms by (auto simp: pressure_wf_def health_in_step_def health_defs split: option.splits)

lemma partitions_wf_after:
  assumes p: "partitions_wf d" "pressure_wf d" and h: "aget (rt_sessions (dp_runtime d)) (ph_session_id h) \<noteq> None"
    and e: "aget (ep_engines (dp_shards d)) s \<noteq> None"
  shows "partitions_wf (after_apply h c x s d)"
proof -
  define rt2 where "rt2 = update_pressure s (pressure_snapshot (dp_shards d) s) (dp_runtime d)"
  have d2: "pressure_wf (d\<lparr>dp_runtime := rt2\<rparr>)"
    using pressure_wf_after[OF p(2) e, of h OC_Data x]
    by (simp add: pressure_wf_def after_apply_def Let_def rt2_def health_in_step_def)
  have k: "rt_domains rt2 = rt_domains (dp_runtime d)" "rt_sessions rt2 = rt_sessions (dp_runtime d)"
    by (simp_all add: rt2_def update_pressure_simps)
  have pick: "pick_shard_for rt2 sid = 0 \<or> aget (ep_engines (dp_shards d)) (pick_shard_for rt2 sid) \<noteq> None" for sid
    using pick_shard_sound[of rt2 sid] healthy_has_engine[OF d2] d2 by (auto simp: pressure_wf_def health_in_step_def)
  have "dr_partitions (rt_domains (dp_runtime (after_apply h c x s d)))
      = dr_partitions (rt_domains (if c = OC_Control then feedback_control_op h x rt2 else rt2))"
    by (simp add: after_apply_def Let_def rt2_def)
  moreover have "partitions_wf (d\<lparr>dp_runtime := feedback_control_op h x rt2\<rparr>)"
  proof (cases x)
    case (PartitionCreate p root cls cd)
    show ?thesis
      using p(1) pick h by (auto simp: partitions_wf_def feedback_create(1)[OF PartitionCreate] k split: if_splits)
  next
    case (SetPartitionAuthority p cls cd)
    show ?thesis
      using p(1) by (fastforce simp: partitions_wf_def SetPartitionAuthority feedback_control_op_def k)
  qed (use p(1) in \<open>simp_all add: partitions_wf_def feedback_control_op_def k\<close>)
  ultimately show ?thesis
    using p(1) by (auto simp: partitions_wf_def k split: if_splits)
qed

lemma tables_wf_step:
  assumes "dispatch_step verify S d d'" "tables_wf d"
  shows "tables_wf d'"
  using assms(1)
proof cases
  case (on_preamble buf)
  then show ?thesis
    using assms(2) by (simp add: process_preamble_def split_beta tables_wf_split pressure_wf_def partitions_wf_def)
next
  case (on_record hb payload res)
  note grow = engines_grow[OF on_record]
  note wf = assms(2)[unfolded tables_wf_split]
  from on_record show ?thesis
  proof (cases rule: record_runtime_cases)
    case same
    have "pressure_wf d'" by (rule pressure_wf_mono[where d = d]) (use wf same grow in auto)
    moreover have "partitions_wf d'" by (rule partitions_wf_mono[where d = d]) (use wf same grow in auto)
    ultimately show ?thesis using wf same by (simp add: tables_wf_split)
  next
    case (profile h path)
    have "pressure_wf d'"
      by (rule pressure_wf_mono[where d = d]) (use wf profile grow in \<open>auto simp: process_profile_frame profile_runtime_frame\<close>)
    moreover have "partitions_wf d'"
      by (rule partitions_wf_mono[where d = d])
        (use wf profile grow in \<open>auto simp: process_profile_frame profile_runtime_frame intro: sessions_grow\<close>)
    ultimately show ?thesis using wf profile sessions_wf_profile by (auto simp: tables_wf_split)
  next
    case (routed h)
    have "pressure_wf d'" by (rule pressure_wf_mono[where d = d]) (use wf routed grow in \<open>auto simp: route_keeps\<close>)
    moreover have "partitions_wf d'"
      by (rule partitions_wf_mono[where d = d]) (use wf routed grow in \<open>auto simp: route_keeps session_exists_route\<close>)
    ultimately show ?thesis using wf routed sessions_wf_route[of "dp_runtime d" h] by (auto simp: tables_wf_split)
  next
    case (applied h c x s d1)
    have g1: "aget (ep_engines (dp_shards d1)) t \<noteq> None" if "aget (ep_engines (dp_shards d)) t \<noteq> None" for t
      using grow[OF that] by (simp add: applied(1))
    have p1: "pressure_wf d1"
      by (rule pressure_wf_mono[where d = d]) (use wf applied(2) g1 in \<open>auto simp: route_keeps\<close>)
    have "partitions_wf d1"
      by (rule partitions_wf_mono[where d = d]) (use wf applied(2) g1 in \<open>auto simp: route_keeps session_exists_route\<close>)
    moreover have "aget (rt_sessions (dp_runtime d1)) (ph_session_id h) \<noteq> None"
    proof -
      have "snd (route_record h (dp_runtime d)) = RO_Admitted c" using applied(3) by simp
      then have "aget (rt_sessions (dp_runtime d)) (ph_session_id h) \<noteq> None"
        by (auto simp: route_admitted passes_gates_def)
      then show ?thesis by (simp only: applied(2) session_exists_route not_False_eq_True)
    qed
    ultimately have "partitions_wf d'" using partitions_wf_after[OF _ p1 _ applied(4)] by (simp add: applied(1))
    moreover have "sessions_wf (dp_runtime d1)" using wf sessions_wf_route[of "dp_runtime d" h] by (simp add: applied(2))
    ultimately show ?thesis
      using pressure_wf_after[OF p1 applied(4)] by (simp add: tables_wf_split applied(1) sessions_wf_def)
  qed
qed

lemma tables_wf_steps: "(dispatch_step verify S)\<^sup>*\<^sup>* d d' \<Longrightarrow> tables_wf d \<Longrightarrow> tables_wf d'"
  by (induction rule: rtranclp_induct) (auto intro: tables_wf_step)

lemma tables_wf_new: "tables_wf dispatcher_new"
  by (simp add: tables_wf_def dispatcher_new_def new_in_step)
    (simp add: runtime_new_def sessions_new_def domains_new_def)

text \<open>
  C14. The tables of the dispatcher stay consistent.  After any preambles and records from a new
  dispatcher: the health of a shard is that of its last reported pressure; only shards with an
  engine ever reported one, none with a parked cursor, so no shard that reported is unhealthy below
  zero; every session is known to the domain registry, under the same tenant; every partition is
  filed under its own id, its session exists, and it lies on shard 0 or on a shard with an engine.
\<close>

theorem dispatcher_tables_consistent:
  assumes "(dispatch_step verify S)\<^sup>*\<^sup>* dispatcher_new d"
  shows "let rt = dp_runtime d in
      (rt_pressure rt s = Some p \<longrightarrow> aget (ep_engines (dp_shards d)) s \<noteq> None
         \<and> shard_health (rt_topology rt) s = health_from_pressure p \<and> health_from_pressure p \<noteq> HEALTH_NEG)
    \<and> (rt_pressure rt s = None \<longrightarrow> shard_health (rt_topology rt) s = HEALTH_NEG)
    \<and> (aget (rt_sessions rt) sid = Some sn \<longrightarrow>
         (\<exists>sd. dr_sessions (rt_domains rt) sid = Some sd \<and> sd_tenant_id sd = se_tenant_id sn))
    \<and> (aget (dr_partitions (rt_domains rt)) q = Some e \<longrightarrow> pt_id e = q
         \<and> aget (rt_sessions rt) (pt_session_id e) \<noteq> None
         \<and> (pt_shard_id e = 0 \<or> aget (ep_engines (dp_shards d)) (pt_shard_id e) \<noteq> None))"
proof -
  have t: "tables_wf d" using tables_wf_steps[OF assms tables_wf_new] .
  have "health_from_pressure p \<noteq> HEALTH_NEG" if "cursor_count p = 0"
    using that by (simp add: health_from_pressure_def health_defs HOT_CURSOR_COUNT_def)
  then show ?thesis
    using t unfolding tables_wf_def health_in_step_def Let_def by (auto split: option.splits)
qed

theorem dispatcher_tables_consistent_witness:
  "shard_health (rt_topology (dp_runtime fresh_stream)) 0 = HEALTH_NEG"
proof -
  have "(dispatch_step (\<lambda>_ _ _. False) (map const_of))\<^sup>*\<^sup>* dispatcher_new fresh_stream"
    unfolding fresh_stream_def by (rule r_into_rtranclp) (rule dispatch_step.on_preamble)
  from dispatcher_tables_consistent[OF this, of 0] show ?thesis by (simp add: Let_def fresh_decoder runtime_new_def)
qed

section \<open>Quiescent epochs\<close>

text \<open>What a record says about the quiescence of its partition: an applied stabilization, or an
  applied instruction of the classes that wake a region.\<close>

definition quiet_mark :: "byte list \<Rightarrow> dispatch_error + dispatch_outcome \<Rightarrow> (wire_partition_id \<times> bool) option" where
  "quiet_mark hb res = (case res of
      Inr (DO_Applied _ _) \<Rightarrow>
        (let h = parse_header hb in
         if from_opcode (ph_opcode h) = OC_Stabilize then Some (ph_partition_id h, True)
         else if from_opcode (ph_opcode h) \<in> {OC_SetValue, OC_Propagate} then Some (ph_partition_id h, False)
         else None)
    | _ \<Rightarrow> None)"

text \<open>The stabilizations of a partition since it last woke, in a log with the latest mark first.\<close>

fun quiet_run :: "(wire_partition_id \<times> bool) list \<Rightarrow> wire_partition_id \<Rightarrow> nat" where
  "quiet_run [] p = 0"
| "quiet_run ((q, quiet) # ms) p = (if q \<noteq> p then quiet_run ms p else if quiet then Suc (quiet_run ms p) else 0)"

fun run_records ::
  "('key \<Rightarrow> byte list \<Rightarrow> byte list \<Rightarrow> bool) \<Rightarrow> saturation \<Rightarrow> (byte list \<times> byte list) list
     \<Rightarrow> 'key dispatcher \<times> (wire_partition_id \<times> bool) list
     \<Rightarrow> ('key dispatcher \<times> (wire_partition_id \<times> bool) list) option" where
  "run_records verify S [] dm = Some dm"
| "run_records verify S ((hb, payload) # rs) (d, ms) =
     (case process_record verify S hb payload d of
        None \<Rightarrow> None
      | Some (d1, res) \<Rightarrow>
          run_records verify S rs (d1, case quiet_mark hb res of None \<Rightarrow> ms | Some m \<Rightarrow> m # ms))"

lemma epochs_after_apply:
  assumes "opcode_for x = ph_opcode h"
  shows "stabilize_epochs (dp_shards (after_apply h (from_opcode (ph_opcode h)) x s d)) p =
     (if ph_partition_id h \<noteq> p then stabilize_epochs (dp_shards d) p
      else if from_opcode (ph_opcode h) = OC_Stabilize then sat_inc (stabilize_epochs (dp_shards d) p)
      else if from_opcode (ph_opcode h) \<in> {OC_SetValue, OC_Propagate} then 0
      else stabilize_epochs (dp_shards d) p)"
proof -
  have c: "from_opcode (ph_opcode h) = OC_Stabilize \<longleftrightarrow> (\<exists>r. x = Stabilize r)"
    using assms[symmetric] by (cases x) (simp_all add: from_opcode_def)
  show ?thesis
  proof (cases "\<exists>r. x = Stabilize r")
    case True
    then show ?thesis using c
      by (auto simp: after_apply_def Let_def count_quiescence_def record_stabilize_complete_def stabilize_epochs_def)
  next
    case False
    then have "count_quiescence h (from_opcode (ph_opcode h)) x d' =
       (if from_opcode (ph_opcode h) = OC_SetValue \<or> from_opcode (ph_opcode h) = OC_Propagate
        then d'\<lparr>dp_shards := record_region_wake (ph_partition_id h) (dp_shards d')\<rparr> else d')" for d' :: "'a dispatcher"
      by (cases x) (simp_all add: count_quiescence_def)
    then show ?thesis
      using c False by (auto simp: after_apply_def Let_def record_region_wake_def stabilize_epochs_def)
  qed
qed

lemma epochs_record:
  assumes "process_record verify S hb payload d = Some (d', res)"
  shows "stabilize_epochs (dp_shards d') p = (case quiet_mark hb res of
       None \<Rightarrow> stabilize_epochs (dp_shards d) p
     | Some (q, quiet) \<Rightarrow> if q \<noteq> p then stabilize_epochs (dp_shards d) p
         else if quiet then sat_inc (stabilize_epochs (dp_shards d) p) else 0)"
proof (cases "\<exists>s evs. res = Inr (DO_Applied s evs)")
  case True
  then obtain s evs where res: "res = Inr (DO_Applied s evs)" by blast
  obtain dec rt x pl where a: "pool_apply S s x (dp_shards d) = Some (pl, Inr evs)"
    "d' = after_apply (parse_header hb) (from_opcode (ph_opcode (parse_header hb))) x s
            (d\<lparr>dp_decoder := dec, dp_runtime := rt, dp_shards := pl\<rparr>)"
    "opcode_for x = ph_opcode (parse_header hb)"
    using assms[unfolded res] by (elim applied_record)
  have "stabilize_epochs pl p = stabilize_epochs (dp_shards d) p"
    using pool_apply_effect(1)[OF a(1)] by (simp add: stabilize_epochs_def)
  then show ?thesis
    unfolding a(2) epochs_after_apply[OF a(3)] by (simp add: res quiet_mark_def Let_def)
next
  case False
  then have "ep_stabilize (dp_shards d') = ep_stabilize (dp_shards d)" "quiet_mark hb res = None"
    using unapplied_frame[OF assms] by (auto simp: Let_def quiet_mark_def split: sum.split dispatch_outcome.split)
  then show ?thesis by (simp add: stabilize_epochs_def)
qed

definition counted :: "'key dispatcher \<Rightarrow> (wire_partition_id \<times> bool) list \<Rightarrow> bool" where
  "counted d ms \<longleftrightarrow> (\<forall>p. unat (stabilize_epochs (dp_shards d) p) = min (2 ^ 32 - 1) (quiet_run ms p))"

lemma unat_sat_inc_min:
  "unat (w :: u32) = min (2 ^ 32 - 1) n \<Longrightarrow> unat (sat_inc w) = min (2 ^ 32 - 1) (Suc n)"
proof -
  have "w = - 1 \<longleftrightarrow> unat w = 2 ^ 32 - 1"
    using word_unat_eq_iff[of w "- 1"] by (simp add: unsigned_minus_1_eq_mask mask_eq_exp_minus_1)
  moreover have "unat w < 2 ^ 32" using unsigned_less[of w] by (simp add: order_less_le_trans)
  ultimately show "unat (w :: u32) = min (2 ^ 32 - 1) n \<Longrightarrow> unat (sat_inc w) = min (2 ^ 32 - 1) (Suc n)"
    by (auto simp: unat_sat_inc min_def split: if_splits)
qed

lemma counted_record:
  assumes "counted d ms" "process_record verify S hb payload d = Some (d', res)"
  shows "counted d' (case quiet_mark hb res of None \<Rightarrow> ms | Some m \<Rightarrow> m # ms)"
proof -
  have "unat (sat_inc (stabilize_epochs (dp_shards d) p)) = min (2 ^ 32 - 1) (Suc (quiet_run ms p))" for p
    using assms(1) by (intro unat_sat_inc_min) (simp add: counted_def)
  then show ?thesis
    using assms(1) unfolding counted_def epochs_record[OF assms(2)]
    by (auto split: option.split)
qed

text \<open>
  C28. The quiescence count refines the log.  After any sequence of records, starting from a pool
  without counts, the count of a partition is the number of stabilizations applied on it since the
  last applied value write or propagation on it, capped at the largest \<open>u32\<close>; records of other
  partitions, and records that were not applied, do not matter, and neither do the other classes:
  a reflection, a demand or a change of the wiring does not wake the region.
\<close>

theorem quiescent_epochs_counted:
  assumes "run_records verify S rs (d, []) = Some (d', ms)" "ep_stabilize (dp_shards d) = Map.empty"
  shows "unat (stabilize_epochs (dp_shards d') p) = min (2 ^ 32 - 1) (quiet_run ms p)"
proof -
  have "counted d' ms" if "run_records verify S rs (d, ms0) = Some (d', ms)" "counted d ms0" for ms0 d
    using that
  proof (induction rs arbitrary: d ms0)
    case (Cons r rs)
    obtain hb payload where r: "r = (hb, payload)" by (cases r)
    from Cons.prems(1) obtain d1 res where p: "process_record verify S hb payload d = Some (d1, res)"
      "run_records verify S rs (d1, case quiet_mark hb res of None \<Rightarrow> ms0 | Some m \<Rightarrow> m # ms0) = Some (d', ms)"
      by (auto simp: r split: option.splits)
    then show ?case using Cons.IH counted_record[OF Cons.prems(2) p(1)] by blast
  qed simp
  from this[OF assms(1)] show ?thesis using assms(2) by (simp add: counted_def stabilize_epochs_def)
qed

theorem quiescent_epochs_counted_witness:
  "\<exists>d'. run_records (\<lambda>_ _ _. False) (map const_of) [(take 48 (encode_record create_op (demo_context 7 5)),
     drop 48 (encode_record create_op (demo_context 7 5)))] (demo_dispatcher, []) = Some (d', [])
   \<and> unat (stabilize_epochs (dp_shards d') 7) = 0"
proof -
  let ?hb = "take 48 (encode_record create_op (demo_context 7 5))"
    and ?pb = "drop 48 (encode_record create_op (demo_context 7 5))"
  obtain d' where d': "process_record (\<lambda>_ _ _. False) (map const_of) ?hb ?pb demo_dispatcher = Some (d', Inr (DO_Applied 3 []))"
    using create_record_runs[OF demo_opens(1) demo_opens(2)[symmetric]] by blast
  have "quiet_mark ?hb (Inr (DO_Applied 3 [])) = None"
    by (simp add: quiet_mark_def encoded_header context_header_def create_op_wire from_opcode_def)
  then have r: "run_records (\<lambda>_ _ _. False) (map const_of) [(?hb, ?pb)] (demo_dispatcher, []) = Some (d', [])"
    using d' by simp
  have "ep_stabilize (dp_shards demo_dispatcher) = Map.empty"
    by (simp add: demo_dispatcher_def dispatcher_new_def pool_new_def)
  from quiescent_epochs_counted[OF r this, of 7] r show ?thesis by auto
qed

end
