(* ===== verification/Layers.thy ===== *)
theory Layers
  imports Engine
begin

text \<open>
  The layer contract (I8) of \<^verbatim>\<open>core-rs/src/engine.rs\<close>: what an instruction that declares itself
  an identity-layer operation leaves alone, and what an interpretation-layer operation leaves
  alone.  A frame is a reflexive and transitive relation between the state before and after; the
  operations are shown to stay within one, loop by loop.
\<close>

section \<open>Frames\<close>

locale frame =
  fixes R :: "'s \<Rightarrow> 's \<Rightarrow> bool"
  assumes same: "R s s" and trans: "R s t \<Longrightarrow> R t u \<Longrightarrow> R s u"
begin

lemma fold_within: "(\<And>x s. x \<in> set xs \<Longrightarrow> R s (f x s)) \<Longrightarrow> R s (fold f xs s)"
proof (induction xs arbitrary: s)
  case (Cons x xs)
  have "R s (f x s)" "R (f x s) (fold f xs (f x s))" using Cons by simp_all
  then show ?case using trans by simp
qed (simp add: same)

lemma bind_within:
  assumes "Option.bind (f s) g = Some u" "\<And>t. f s = Some t \<Longrightarrow> R s t" "\<And>t. g t = Some u \<Longrightarrow> R t u"
  shows "R s u"
  using assms trans by (auto simp: bind_eq_Some_conv)

end

text \<open>The interpretation frame of the three substrates: wiring, slots, edges and everything of a
  node but its value and version.\<close>

definition skeleton :: "node \<Rightarrow> uid \<times> string \<times> node_kind \<times> attrs" where
  "skeleton n = (n_id n, n_typ n, n_kind n, n_attrs n)"

definition interp_world :: "world \<Rightarrow> world \<Rightarrow> bool" where
  "interp_world w w' \<longleftrightarrow> same_topology (w_deps w) (w_deps w')
     \<and> edges (w_graph w') = edges (w_graph w) \<and> st_idx (w_store w') = st_idx (w_store w)
     \<and> (\<forall>x. map_option skeleton (graph_node (w_graph w') x) = map_option skeleton (graph_node (w_graph w) x))"

text \<open>On the engine: also the partition tables and the policies.\<close>

definition interp_frame :: "engine \<Rightarrow> engine \<Rightarrow> bool" where
  "interp_frame e e' \<longleftrightarrow> interp_world (en_world e) (en_world e')
     \<and> en_registry e' = en_registry e \<and> en_partitions e' = en_partitions e \<and> en_mode e' = en_mode e
     \<and> en_unbound e' = en_unbound e \<and> en_stabilization e' = en_stabilization e
     \<and> en_execution e' = en_execution e \<and> rc_regions (en_cache e') = rc_regions (en_cache e)
     \<and> rc_contracts (en_cache e') = rc_contracts (en_cache e)"

interpretation iw: frame interp_world
  by unfold_locales (auto simp: interp_world_def intro: same_topology_trans)

interpretation ie: frame interp_frame
  by unfold_locales (auto simp: interp_frame_def intro: iw.same iw.trans)

interpretation top: frame same_topology
  by unfold_locales (auto intro: same_topology_trans)

section \<open>The push engine stays in the interpretation frame\<close>

lemma visit_sub_topology: "same_topology (pl_deps L) (pl_deps (visit_sub i t actx dem c off old new s L))"
proof -
  have "same_topology r (pl_deps (offer_push i t actx dem s L))" if "same_topology r (pl_deps L)" for r L
    using that same_topology_seen[of "pl_deps L" i s t] top.trans[of r "pl_deps L"]
    by (auto simp: offer_push_def split: prod.split)
  then show ?thesis by (simp add: visit_sub_def same_topology_counter)
qed

interpretation loops: frame "\<lambda>L L'. same_topology (pl_deps L) (pl_deps L')"
  by unfold_locales (auto intro: top.trans)

lemma visit_subs_topology: "same_topology (pl_deps L) (pl_deps (visit_subs i t actx dem c off old new L))"
  unfolding visit_subs_def by (intro loops.fold_within visit_sub_topology)

lemma store_set_idx: "store_set st i v = Some st' \<Longrightarrow> st_idx st' = st_idx st"
  by (auto simp: store_set_def set_by_dense_def Let_def split: option.splits if_splits)

lemma skeleton_writes [simp]:
  "skeleton (fst (node_set_value n v)) = skeleton n" "skeleton (fst (node_reflect n)) = skeleton n"
  by (simp_all add: skeleton_def frame_simps)

lemma interp_node_mut:
  assumes "\<And>n. skeleton (f n) = skeleton n"
  shows "interp_world w (w\<lparr>w_graph := node_mut (w_graph w) i f\<rparr>)"
  using assms by (simp add: interp_world_def option.map_comp comp_def) (simp add: node_mut_def)

lemma interp_store: "st_idx st' = st_idx (w_store w) \<Longrightarrow> interp_world w (w\<lparr>w_store := st'\<rparr>)"
  by (simp add: interp_world_def)

lemma interp_deps: "same_topology (w_deps w) r' \<Longrightarrow> interp_world w (w\<lparr>w_deps := r'\<rparr>)"
  by (simp add: interp_world_def)

lemma write_value_frame:
  assumes "write_value w i v = Some w'"
  shows "interp_world w w'" "w_deps w' = w_deps w"
proof -
  obtain st where st: "store_set (w_store w) i v = Some st"
    "w' = (w\<lparr>w_graph := node_mut (w_graph w) i (\<lambda>n. fst (node_set_value n v))\<rparr>)\<lparr>w_store := st\<rparr>"
    using assms by (auto simp: write_value_def)
  then show "interp_world w w'" "w_deps w' = w_deps w"
    using iw.trans[OF interp_node_mut[of "\<lambda>n. fst (node_set_value n v)" w i] interp_store] store_set_idx[OF st(1)]
    by simp_all
qed

lemma materialize_frame: "materialize i old new evs stats w = Some (w1, s1, e1) \<Longrightarrow> interp_world w w1 \<and> w_deps w1 = w_deps w"
  using write_value_frame by (auto simp: materialize_def iw.same split: if_splits)

lemma finish_frame:
  assumes "interp_world w w1 \<and> w_deps w1 = w_deps w" "same_topology (w_deps w) (pl_deps L)"
  shows "interp_world w (fst (finish_loop w1 new L))"
  using assms by (auto simp: finish_loop_def interp_world_def)

lemma step_push_frame:
  assumes "step_push i t actx dem stats w = Some (w', res)"
  shows "interp_world w w'"
proof -
  have visit: "same_topology (w_deps w) (pl_deps (visit_subs i t actx dem c off old new L))"
    if "same_topology (w_deps w) (pl_deps L)" for c off old new L
    using top.trans[OF that visit_subs_topology] .
  have counted: "interp_world w w'" if "push_by_counter i old new t actx dem stats w = Some (w', res)" for old new
    using that materialize_frame[of i old new _ stats w] visit
    by (auto simp: push_by_counter_def iw.same finish_loop_def interp_world_def split: if_splits)
  have scanned: "interp_world w w'" if p: "push_by_scan i rule old vals t actx dem stats w = Some (w', res)" for rule old vals
  proof (cases "propagation_state vals")
    case Conflicted
    then obtain w1 s1 e1 where m: "materialize i old Zero [BochvarInfected i None] stats w = Some (w1, s1, e1)"
      using p by (auto simp: push_by_scan_def)
    then show ?thesis
      using p Conflicted materialize_frame[OF m] visit
      by (cases "mode_of (w_deps w1) i") (auto simp: push_by_scan_def finish_loop_def interp_world_def Let_def)
  qed (use p materialize_frame visit in \<open>auto simp: push_by_scan_def iw.same finish_loop_def interp_world_def Let_def split: if_splits\<close>)
  show ?thesis
    using assms counted scanned
    by (auto simp: step_push_def iw.same bind_eq_Some_conv split: option.splits node_kind.splits)
qed

lemma drain_item_frame: "drain_item t actx handled item f pe w = Some (f', pe', w') \<Longrightarrow> interp_world w w'"
  by (auto simp: drain_item_def iw.same Let_def case_prod_beta dest!: step_push_frame
      split: work_item.splits if_splits)

lemma drain_loop_frame: "drain_loop t actx handled mx steps f pe w = Some (res, pe', w') \<Longrightarrow> interp_world w w'"
proof (induction steps arbitrary: f pe w)
  case 0
  then show ?case by (cases "pe_queue pe") (auto simp: drain_loop_unfold iw.same)
next
  case (Suc steps)
  then show ?case
    by (cases "pe_queue pe")
      (auto simp: drain_loop_unfold iw.same split: option.splits intro: iw.trans dest!: drain_item_frame)
qed

lemma drain_frame: "drain t actx handled mx pe w = Some (res, pe', w') \<Longrightarrow> interp_world w w'"
  by (auto simp: drain_def Let_def dest: drain_loop_frame)

section \<open>The engine's loops stay in the interpretation frame\<close>

lemma frame_world: "interp_world (en_world e) w' \<Longrightarrow> interp_frame e (e\<lparr>en_world := w'\<rparr>)"
  by (simp add: interp_frame_def)

lemma frame_plain:
  "interp_frame e (push_event ev e)" "interp_frame e (engine_enqueue x e)" "interp_frame e (log_op op i d e)"
  "interp_frame e (e\<lparr>en_prop := pe\<rparr>)" "interp_frame e (e\<lparr>en_dirty := bs\<rparr>)" "interp_frame e (e\<lparr>en_handled := bs\<rparr>)"
  "interp_frame e (drop_queued e)" "interp_frame e (e\<lparr>en_time := t, en_arrival := a\<rparr>)"
  by (simp_all add: interp_frame_def iw.same push_event_def engine_enqueue_def log_op_def Let_def drop_queued_def)

lemma frame_deps: "same_topology (en_deps e) (f (en_deps e)) \<Longrightarrow> interp_frame e (set_deps f e)"
  by (simp add: set_deps_def set_world_def frame_world interp_deps)

lemma frame_cache: "rc_regions c = rc_regions (en_cache e) \<Longrightarrow> rc_contracts c = rc_contracts (en_cache e)
    \<Longrightarrow> interp_frame e (e\<lparr>en_cache := c\<rparr>)"
  by (simp add: interp_frame_def iw.same)

lemmas frame_intros = ie.same frame_plain frame_world frame_deps frame_cache same_topology_counter same_topology_seen

lemma frame_step: "interp_frame e e1 \<Longrightarrow> (\<And>d. interp_frame d (f d)) \<Longrightarrow> interp_frame e (f e1)"
  using ie.trans by blast

lemma notify_sub_frame: "interp_frame e (notify_sub c t i old new s e)"
proof -
  have "interp_frame e (if c then set_deps (\<lambda>r. update_dep_counter r s old new) e else e)"
    by (simp add: frame_intros)
  then show ?thesis
    unfolding notify_sub_def Let_def
    by (auto intro!: frame_intros intro: frame_step[OF frame_step])
qed

lemma notify_subs_frame: "interp_frame e (notify_subs c t i old new xs e)"
  unfolding notify_subs_def by (intro ie.fold_within notify_sub_frame)

lemma mark_written_frame: "interp_frame e (mark_written i e)"
  by (auto simp: mark_written_def set_cache_def mark_dirty_for_input_def interp_frame_def iw.same split: option.splits)

lemma resolve_member_frame: "resolve_member v t i e = Some e' \<Longrightarrow> interp_frame e e'"
  by (auto simp: resolve_member_def Let_def frame_intros split: option.splits if_splits
      intro!: frame_step[OF frame_step[OF frame_world frame_plain(1)] notify_subs_frame]
      dest: write_value_frame(1))

lemma resolve_members_frame: "resolve_members v t is e = Some e' \<Longrightarrow> interp_frame e e'"
proof (induction "is" arbitrary: e)
  case (Cons i "is")
  from Cons.prems show ?case
    unfolding resolve_members.simps by (rule ie.bind_within) (auto intro: resolve_member_frame Cons.IH)
qed (simp add: ie.same)

lemma demand_deps_frame: "interp_frame e (demand_deps i e)"
  unfolding demand_deps_def
  by (intro ie.fold_within) (auto simp: frame_intros split: option.split)

lemma run_stabilize_frame: "run_stabilize S seeds e = Some e' \<Longrightarrow> interp_frame e e'"
proof -
  assume r: "run_stabilize S seeds e = Some e'"
  have infect: "interp_frame e (fold (\<lambda>i. push_event (f i)) is e)" for f and "is" :: "uid list"
    by (intro ie.fold_within) (simp add: frame_intros)
  have demand: "interp_frame e (fold demand_deps is e)" for "is"
    by (intro ie.fold_within demand_deps_frame)
  have solved: "interp_frame e e'"
    if "map_option (\<lambda>e1. e1\<lparr>en_time := time_advance (en_time e1) Egraph, en_arrival := en_arrival e1 + 1\<rparr>)
        (resolve_members v (en_time e) is e) = Some e'" for v "is"
    using that resolve_members_frame[of v "en_time e" "is" e] by (auto intro: ie.trans frame_plain(8))
  show ?thesis
    using r infect demand solved
    by (auto simp: run_stabilize_def Let_def ie.same split: if_splits option.splits port_compliance.splits stab_zero_kind.splits)
qed

lemma stabilize_all_frame: "stabilize_all S ss e = Some e' \<Longrightarrow> interp_frame e e'"
proof (induction ss arbitrary: e)
  case (Cons s ss)
  from Cons.prems show ?case
    unfolding stabilize_all.simps by (rule ie.bind_within) (auto intro: run_stabilize_frame Cons.IH)
qed (simp add: ie.same)

section \<open>The compiled tier and the warm drain\<close>

lemma run_row_idx: "run_row rg i s = Some s' \<Longrightarrow> st_idx (rr_store s') = st_idx (rr_store s)"
  by (auto simp: run_row_def commit_row_def bind_eq_Some_conv set_by_dense_def Let_def
      split: if_splits option.splits)

lemma run_rows_idx: "run_rows rg is s = Some s' \<Longrightarrow> st_idx (rr_store s') = st_idx (rr_store s)"
proof (induction "is" arbitrary: s)
  case (Cons i "is")
  then show ?case using run_row_idx by (fastforce simp: bind_eq_Some_conv)
qed simp

lemma run_compiled_idx: "run_compiled_region rg st dirty = Some (st', r) \<Longrightarrow> st_idx st' = st_idx st"
  by (auto simp: run_compiled_region_def bind_eq_Some_conv split: if_splits dest: run_rows_idx)

lemma publish_frame: "interp_frame e (publish_change rg t ch e)"
proof -
  have "interp_frame e (set_world (\<lambda>w. w\<lparr>w_graph := node_mut (w_graph w) i (\<lambda>n. fst (node_set_value n v))\<rparr>) e)" for i v
    by (simp add: set_world_def frame_world interp_node_mut)
  then show ?thesis
    by (auto simp: publish_change_def Let_def split: prod.split
        intro!: frame_step[OF frame_step[OF _ frame_plain(1)] notify_subs_frame])
qed

lemma mark_handled_frame: "interp_frame e (mark_handled rg e)"
  unfolding mark_handled_def by (intro ie.fold_within) (auto simp: frame_intros split: option.split)

lemma run_dirty_region_frame:
  assumes "run_dirty_region root e = Some e'"
  shows "interp_frame e e'"
proof (cases "aget (rc_regions (en_cache e)) root")
  case (Some rg)
  then obtain st' dirty' changed where r: "run_compiled_region rg (en_store e) (en_dirty e) = Some (st', dirty', changed)"
    using assms by (auto simp: run_dirty_region_def split: option.splits)
  define e1 where "e1 = mark_handled rg (set_world (\<lambda>w. w\<lparr>w_store := st'\<rparr>) (e\<lparr>en_dirty := dirty'\<rparr>))"
  have w: "interp_frame d (set_world (\<lambda>w. w\<lparr>w_store := st'\<rparr>) d)" if "en_world d = en_world e" for d
    using run_compiled_idx[OF r] that by (simp add: set_world_def frame_world interp_store)
  have e1: "interp_frame e e1"
    unfolding e1_def
    by (intro frame_step[OF _ mark_handled_frame]) (rule ie.trans[OF frame_plain(5) w], simp)
  have "interp_frame e (fold (publish_change rg t) changed (e1\<lparr>en_prop := pe\<rparr>))" for t pe
    using ie.trans[OF ie.trans[OF e1 frame_plain(4)] ie.fold_within[OF publish_frame]] .
  then show ?thesis
    using assms Some r e1 by (auto simp: run_dirty_region_def Let_def e1_def[symmetric] split: if_splits)
qed (use assms in \<open>simp add: run_dirty_region_def ie.same\<close>)

lemma run_dirty_regions_frame: "run_dirty_regions rs e = Some e' \<Longrightarrow> interp_frame e e'"
proof (induction rs arbitrary: e)
  case (Cons r rs)
  from Cons.prems show ?case
    unfolding run_dirty_regions.simps by (rule ie.bind_within) (auto intro: run_dirty_region_frame Cons.IH)
qed (simp add: ie.same)

lemma compiled_tier_frame:
  assumes "compiled_tier e = Some e'"
  shows "interp_frame e e'"
proof -
  obtain c roots where t: "take_dirty (en_cache e) = (c, roots)" by fastforce
  then obtain e1 where e1: "run_dirty_regions roots (e\<lparr>en_cache := c\<rparr>) = Some e1"
    "e' = e1\<lparr>en_dirty := map (\<lambda>_. 0) (en_dirty e1)\<rparr>"
    using assms by (auto simp: compiled_tier_def)
  have "interp_frame e (e\<lparr>en_cache := c\<rparr>)"
    using t by (intro frame_cache) (auto simp: take_dirty_def)
  then show ?thesis
    using run_dirty_regions_frame[OF e1(1)] e1(2) ie.trans frame_plain(5) by blast
qed

lemma engine_drain_frame: "engine_drain e = Some (e', res) \<Longrightarrow> interp_frame e e'"
  using ie.trans[OF frame_world frame_plain(4)]
  by (auto simp: engine_drain_def interp_frame_def dest!: drain_frame)

lemma warm_loop_frame:
  assumes "warm_loop S e = Some r"
  shows "interp_frame e (fst r)"
proof (rule warm_loop.raw_induct[where P="\<lambda>S e r. interp_frame e (fst r)", OF _ assms], goal_cases)
  case (1 wl S e r)
  obtain e1 res where d: "engine_drain e = Some (e1, res)"
    using 1(2) by (cases "engine_drain e") auto
  have f1: "interp_frame e e1" by (rule engine_drain_frame[OF d])
  show ?case
  proof (cases "(\<exists>err. res = Inl err) \<or> queued_seeds (pe_events (en_prop e1)) = []")
    case True
    then show ?thesis
      using 1(2) d f1 ie.trans[OF f1 frame_plain(6)] by (auto simp: Let_def split: sum.splits)
  next
    case False
    then obtain e2 where s: "stabilize_all S (queued_seeds (pe_events (en_prop e1))) (drop_queued e1) = Some e2"
      "wl S e2 = Some r"
      using 1(2) d by (auto simp: Let_def split: sum.splits option.splits)
    show ?thesis
      using ie.trans[OF ie.trans[OF f1 frame_plain(7)] ie.trans[OF stabilize_all_frame[OF s(1)] 1(1)[OF s(2)]]] .
  qed
qed

lemma drain_and_stabilize_frame:
  assumes "drain_and_stabilize S e = Some (e', res)"
  shows "interp_frame e e'"
proof -
  obtain e1 where "compiled_tier e = Some e1" "warm_loop S e1 = Some (e', res)"
    using assms by (auto simp: drain_and_stabilize_def bind_eq_Some_conv)
  then show ?thesis
    using ie.trans[OF compiled_tier_frame] warm_loop_frame by fastforce
qed

section \<open>The two contracts\<close>

lemma log_op_sel [simp]:
  "en_world (log_op op i d e) = en_world e" "en_prop (log_op op i d e) = en_prop e"
  "en_registry (log_op op i d e) = en_registry e" "en_partitions (log_op op i d e) = en_partitions e"
  "en_cache (log_op op i d e) = en_cache e" "en_handled (log_op op i d e) = en_handled e"
  "en_time (log_op op i d e) = time_advance (en_time e) d" "en_arrival (log_op op i d e) = en_arrival e + 1"
  by (simp_all add: log_op_def Let_def)

lemma set_value_frame:
  assumes "op_set_value S i v e = Some (e', res)"
  shows "interp_frame e e'"
proof (cases "\<exists>n. graph_node (en_graph e) i = Some n \<and> v \<noteq> n_value n")
  case False
  then show ?thesis
    using assms by (auto simp: op_set_value_def fail_op_def done_op_def ie.same split: option.splits)
next
  case True
  then obtain n where n: "graph_node (en_graph e) i = Some n" "v \<noteq> n_value n" by blast
  then obtain w' where w': "write_value (en_world e) i v = Some w'"
    using assms by (auto simp: op_set_value_def split: option.splits)
  define e2 where "e2 = log_op ''SetValue'' (Some i) Attribute
    (push_event (ValueChanged i (n_value n) v) (mark_written i (e\<lparr>en_world := w'\<rparr>)))"
  have "interp_frame e e2"
    unfolding e2_def
    by (intro frame_step[OF _ frame_plain(3)] frame_step[OF _ frame_plain(1)] frame_step[OF _ mark_written_frame]
        frame_world write_value_frame(1)[OF w'])
  moreover
  have "drain_and_stabilize S (notify_subs True (en_time e2) i (n_value n) v (subs_vec (en_deps e2) i) e2)
      = Some (e', res)"
    using assms n w' by (simp add: op_set_value_def e2_def Let_def)
  from drain_and_stabilize_frame[OF this] have "interp_frame e2 e'"
    by (rule ie.trans[OF notify_subs_frame])
  ultimately show ?thesis by (rule ie.trans)
qed

lemma reflect_frame:
  assumes "op_reflect S i e = Some (e', res)"
  shows "interp_frame e e'"
proof (cases "graph_node (en_graph e) i")
  case None
  then show ?thesis
    using assms frame_plain(3) by (auto simp: op_reflect_def Let_def fail_op_def)
next
  case (Some n)
  define e0 where "e0 = log_op ''Reflect'' (Some i) Attribute e"
  define new where "new = mv_neg (n_value n)"
  have n0: "graph_node (en_graph e0) i = Some n" "en_world e0 = en_world e"
    using Some by (simp_all add: e0_def)
  obtain st where st: "store_set (en_store e0) i new = Some st"
    using assms n0 by (auto simp: op_reflect_def e0_def[symmetric] new_def frame_simps Let_def split: option.splits)
  define e1 where "e1 = set_world (\<lambda>w. w\<lparr>w_graph := node_mut (w_graph w) i (\<lambda>n. fst (node_reflect n)), w_store := st\<rparr>) e0"
  define e2 where "e2 = (if new \<noteq> n_value n then push_event (ValueChanged i (n_value n) new) (mark_written i e1) else e1)"
  have w: "interp_world (en_world e0) (en_world e1)"
    using iw.trans[OF interp_node_mut[of "\<lambda>n. fst (node_reflect n)" "en_world e0" i] interp_store[of st]]
      store_set_idx[OF st] by (simp add: e1_def set_world_def)
  have "interp_frame e e1"
    using ie.trans[OF _ frame_world[OF w], of e] frame_plain(3) by (simp add: e0_def e1_def set_world_def)
  then have e2: "interp_frame e e2"
    unfolding e2_def by (auto intro: frame_step[OF frame_step[OF _ mark_written_frame] frame_plain(1)])
  have "drain_and_stabilize S (notify_subs True (en_time e2) i (n_value n) new (subs_vec (en_deps e2) i) e2) = Some (e', res)"
    using assms n0 st by (simp add: op_reflect_def e0_def[symmetric] new_def[symmetric] frame_simps Let_def
        e1_def[symmetric] e2_def[symmetric])
  from drain_and_stabilize_frame[OF this] show ?thesis
    using ie.trans[OF e2] ie.trans[OF notify_subs_frame] by blast
qed

text \<open>
  C24. The interpretation-layer contract.  An instruction that declares itself \<open>InterpOnly\<close>
  (\<open>SetValue\<close>, \<open>Reflect\<close>, \<open>Stabilize\<close>, \<open>Propagate\<close>, \<open>Demand\<close>), whatever drain, compiled regions and
  stabilizations it sets off and whether it succeeds or not, leaves the identity layer as it was:
  every node's id, type, kind and attributes, the edges, the subscriptions, their order, labels
  and epochs, the modes, the slot assignment, the partition tables, the policies and the
  compiled artifacts.
\<close>

theorem interp_layer_contract:
  assumes "touches_layers x = InterpOnly" "dispatch S x e = Some (e', res)"
  shows "interp_frame e e'"
proof (cases x)
  case (SetValue i v)
  then show ?thesis using assms(2) set_value_frame by simp
next
  case (Reflect i)
  then show ?thesis using assms(2) reflect_frame by simp
next
  case (Stabilize r)
  then show ?thesis
    using assms(2) ie.trans[OF run_stabilize_frame frame_plain(3)]
    by (auto simp: op_stabilize_def Let_def done_op_def split: option.splits)
next
  case (Propagate i)
  then show ?thesis
    using assms(2) ie.trans[OF ie.trans[OF frame_plain(2) frame_plain(3)] drain_and_stabilize_frame]
    by (simp add: op_propagate_def)
next
  case (Demand i)
  then show ?thesis
    using assms(2) ie.trans[OF ie.trans[OF frame_plain(2) frame_plain(3)] drain_and_stabilize_frame]
    by (simp add: op_demand_def)
qed (use assms(1) in simp_all)

theorem interp_layer_contract_witness:
  "touches_layers (Reflect 7) = InterpOnly
   \<and> (\<exists>e' res. dispatch (map const_of) (Reflect 7) engine_new = Some (e', res) \<and> interp_frame engine_new e')"
proof -
  have "\<exists>e' res. dispatch (map const_of) (Reflect 7) engine_new = Some (e', res)"
    by (simp add: op_reflect_def Let_def fail_op_def engine_new_def world_empty_def)
  then show ?thesis using interp_layer_contract[of "Reflect 7" "map const_of" engine_new] by auto
qed

text \<open>The identity frame: nodes outside \<open>X\<close>, the work queue, the events and the statistics.\<close>

definition id_frame :: "uid set \<Rightarrow> engine \<Rightarrow> engine \<Rightarrow> bool" where
  "id_frame X e e' \<longleftrightarrow> en_prop e' = en_prop e
     \<and> (\<forall>y. y \<notin> X \<longrightarrow> graph_node (en_graph e') y = graph_node (en_graph e) y)"

interpretation idf: frame "id_frame X"
  by unfold_locales (auto simp: id_frame_def)

lemma id_frame_plain [simp]:
  "id_frame X e (log_op op i d e') = id_frame X e e'" "id_frame X e (set_deps f e') = id_frame X e e'"
  "id_frame X e (set_cache g e') = id_frame X e e'" "id_frame X e (widen_masks e') = id_frame X e e'"
  by (simp_all add: id_frame_def set_deps_def set_world_def set_cache_def widen_masks_def)

lemma id_frame_drop_edge: "id_frame X e (drop_edge eid e)"
  by (auto simp: id_frame_def drop_edge_def set_world_def disconnect_def remove_edge_def graph_node_def
      split: option.split prod.split)

fun subject :: "isa_op \<Rightarrow> uid set" where
  "subject (NodeCreate i _ _ _) = {i}"
| "subject (DelNode i) = {i}"
| "subject _ = {}"

lemma id_frame_del_node:
  assumes "op_del_node i e = Some (e', res)"
  shows "id_frame {i} e e'"
proof (cases "has_remote_interface e i")
  case False
  define e1 where "e1 = fold drop_edge (dangling_edges (en_graph e) i) e"
  have "id_frame {i} e e1"
    unfolding e1_def by (intro idf.fold_within id_frame_drop_edge)
  then show ?thesis
    using assms False
    by (auto simp: op_del_node_def e1_def[symmetric] Let_def done_op_def id_frame_def set_cache_def
        split: option.splits)
qed (use assms in \<open>simp add: op_del_node_def fail_op_def idf.same\<close>)

lemma id_frame_recompile: "id_frame X e (recompile_edges_for_node i e)"
  unfolding recompile_edges_for_node_def
  by (auto split: option.split intro!: idf.fold_within simp: idf.same)

text \<open>
  C25. The identity-layer contract.  An instruction that declares itself \<open>IdOnly\<close> (the other
  thirteen, from \<open>NodeCreate\<close> to \<open>RegionDeclare\<close>) changes no existing node, so no value, version or
  attribute, except the one node it creates or deletes; it queues no work, emits no event and
  touches no statistic, whether it succeeds or is refused.
\<close>

theorem id_layer_contract:
  assumes "touches_layers x = IdOnly" "dispatch S x e = Some (e', res)"
  shows "id_frame (subject x) e e'"
proof (cases x)
  case (NodeCreate i ty k a)
  have "id_frame {i} e (set_world (\<lambda>w. create_node w n) e)" if "n_id n = i" for n
    using that by (simp add: id_frame_def set_world_def)
  then have "id_frame {i} e (set_world (\<lambda>w. create_node w
      ((case k of Input \<Rightarrow> node_input i ty | Computed r \<Rightarrow> node_computed i ty r)\<lparr>n_attrs := a\<rparr>)) e)"
    by (simp split: node_kind.split)
  then show ?thesis
    using assms(2) by (auto simp: NodeCreate op_node_create_def done_op_def Let_def)
next
  case (EdgeConnect i ty s t d)
  have "id_frame {} e (set_world (\<lambda>w. connect (w\<lparr>w_graph := add_edge (w_graph w) ed\<rparr>) s t) (set_deps f e))" for ed f
    by (simp add: id_frame_def set_world_def set_deps_def)
  then show ?thesis
    using assms(2) idf.same by (auto simp: EdgeConnect op_edge_connect_def done_op_def fail_op_def Let_def split: if_splits)
next
  case (Subscribe src sub)
  have "id_frame {} e (set_world (\<lambda>w. connect w src sub) e)"
    by (simp add: id_frame_def set_world_def)
  then show ?thesis using assms(2) by (auto simp: Subscribe op_subscribe_def done_op_def)
next
  case (DelNode i)
  then show ?thesis using assms(2) id_frame_del_node by simp
next
  case (DelEdge i)
  have "id_frame {} e (drop_edge i (set_cache f e))" for f
    using idf.trans[OF _ id_frame_drop_edge, of "{}" e "set_cache f e" i] idf.same by simp
  then show ?thesis
    using assms(2) idf.same
    by (auto simp: DelEdge op_del_edge_def done_op_def fail_op_def split: option.splits if_splits)
next
  case (PartitionBind i p)
  have "id_frame {} e (recompile_edges_for_node i (e\<lparr>en_partitions := ps\<rparr>))" for ps
    using id_frame_recompile[of "{}" "e\<lparr>en_partitions := ps\<rparr>" i] by (simp add: id_frame_def)
  then show ?thesis using assms(2) by (auto simp: PartitionBind op_partition_bind_def done_op_def)
next
  case (RegionDeclare root b k pol)
  then show ?thesis
    using assms(2)
    by (auto simp: op_region_declare_def done_op_def Let_def idf.same split: option.splits if_splits)
qed (use assms in \<open>auto simp: op_set_mode_def op_partition_create_def op_set_partition_authority_def
    op_set_edge_label_def op_set_stabilization_def op_set_execution_def done_op_def fail_op_def idf.same
    id_frame_def set_deps_def set_world_def split: if_splits\<close>)

theorem id_layer_contract_witness:
  "touches_layers (SetMode 1 Lazy) = IdOnly
   \<and> (\<exists>e' res. dispatch (map const_of) (input_node 1 ''in'') engine_new = Some (e', res)
        \<and> id_frame {1} engine_new e' \<and> graph_node (en_graph e') 1 \<noteq> None)"
proof -
  have "\<exists>e' res. dispatch (map const_of) (input_node 1 ''in'') engine_new = Some (e', res)
      \<and> graph_node (en_graph e') 1 \<noteq> None"
    by (simp add: input_node_def op_node_create_def done_op_def Let_def widen_masks_def set_world_def node_input_def)
  then show ?thesis
    using id_layer_contract[of "input_node 1 ''in''" "map const_of" engine_new]
    by (auto simp: input_node_def simp del: dispatch.simps)
qed

end
