(* ===== verification/Settle.thy ===== *)
theory Settle
  imports Propagate
begin

text \<open>
  Nodes that are at the value their dependencies call for, and how one push of
  \<^verbatim>\<open>core-rs/src/propagate.rs\<close> and one write keep or bring them there.
\<close>

section \<open>Current nodes\<close>

definition current :: "world \<Rightarrow> uid \<Rightarrow> bool" where
  "current w x \<longleftrightarrow> (\<forall>rule. map_option n_kind (graph_node (w_graph w) x) = Some (Computed rule)
     \<longrightarrow> w_value w x = push_target rule (dep_values w x) (w_value w x))"

definition all_eager :: "dep_registry \<Rightarrow> bool" where
  "all_eager r \<longleftrightarrow> (\<forall>x. mode_of r x = Eager)"

lemma push_target_again: "push_target rule vals (push_target rule vals old) = push_target rule vals old"
  by (simp add: push_target_def split: prop_state.split)

lemma accepts_open:
  assumes "all_eager r"
  shows "accepts i t None dem r s = gate_open r i s t"
  using assms by (simp add: accepts_def all_eager_def try_auth_def)

lemma current_frame:
  assumes "dep_values w' x = dep_values w x" "w_value w' x = w_value w x"
    "map_option n_kind (graph_node (w_graph w') x) = map_option n_kind (graph_node (w_graph w) x)"
  shows "current w' x = current w x"
  using assms by (auto simp: current_def)

section \<open>One push, one write\<close>

text \<open>A push keeps a node at its value, or brings it there, when no dependency of that node moves.\<close>

lemma push_current:
  assumes wf: "world_wf w" and n: "graph_node (w_graph w) i = Some n" "n_kind n = Computed rule"
    and post: "step_post i (push_target rule (dep_values w i) (n_value n)) t actx dem w w' work"
    and still: "w_value w' i = w_value w i \<or> i \<notin> deps_of (w_deps w) x" and x: "x = i \<or> current w x"
  shows "current w' x"
proof -
  have p: "\<And>x. w_value w' x = (if x = i then push_target rule (dep_values w i) (n_value n) else w_value w x)"
    "same_topology (w_deps w) (w_deps w')"
    "\<And>x. map_option n_kind (graph_node (w_graph w') x) = map_option n_kind (graph_node (w_graph w) x)"
    using post by (simp_all add: step_post_def)
  have "set (ordered_deps_of (w_deps w) x) = deps_of (w_deps w) x"
    using wf by (simp add: world_wf_def simple_deps_def)
  then have d: "dep_values w' x = dep_values w x"
    using still p(1) same_topology_queries(4)[OF p(2)] by (auto simp: dep_values_def)
  show ?thesis
  proof (cases "x = i")
    case True
    then show ?thesis using d p(1)[of i] p(3)[of i] n by (auto simp: current_def push_target_again)
  next
    case False
    then show ?thesis using x current_frame[OF d] p(1,3) by simp
  qed
qed

text \<open>No push is skipped while the compiled tier has marked nothing.\<close>

lemma no_skip:
  assumes "set handled \<subseteq> {0}"
  shows "\<not> compiled_skip handled w i"
proof -
  have "\<not> bitset_member handled d" for d
  proof (cases "unat d div 64 < length handled")
    case True
    then have "handled ! (unat d div 64) = 0" using assms nth_mem by blast
    then show ?thesis by (simp add: bitset_member_def)
  qed (simp add: bitset_member_def)
  then show ?thesis by (simp add: compiled_skip_def split: option.split)
qed


text \<open>The world after a write, with the registry the subscriber loop left.\<close>

lemma write_then_count:
  assumes "world_wf w" "graph_node (w_graph w) i = Some n" "v \<noteq> n_value n" "same_topology (w_deps w) r'"
    and "\<And>b. dep_counter_of r' b = (if b \<in> subs_of (w_deps w) i
      then map_option (\<lambda>c. counters_update c (n_value n) v) (dep_counter_of (w_deps w) b)
      else dep_counter_of (w_deps w) b)"
  shows "\<exists>w1. write_value w i v = Some w1 \<and> w_deps w1 = w_deps w \<and> world_wf (w1\<lparr>w_deps := r'\<rparr>)
    \<and> (\<forall>x. w_value w1 x = (if x = i then v else w_value w x))
    \<and> (\<forall>x. map_option n_kind (graph_node (w_graph w1) x) = map_option n_kind (graph_node (w_graph w) x))"
  using materialize_effect[OF assms(1,2,4), where new=v and evs="[]" and stats=stats_zero] assms(3,5)
  by (auto simp: materialize_def split: if_splits)

lemma mode_of_wiring [simp]:
  "mode_of (set_mode r i m) x = (if x = i then m else mode_of r x)"
  "mode_of (w_deps (connect w a b)) x = mode_of (w_deps w) x"
  "mode_of (unsubscribe r a b) x = mode_of r x"
  "mode_of (add_dep_to_counter r b v) x = mode_of r x"
  "mode_of (remove_dep_from_counter r b v) x = mode_of r x"
  "mode_of registry_empty x = Eager"
  by (simp_all add: mode_of_def set_mode_def connect_def registry_subscribe_def subscribe_with_meta_def
      subscribe_indexed_def bump_epoch_def add_dep_to_counter_def remove_dep_from_counter_def
      unsubscribe_def drop_dep_entry_def registry_empty_def Let_def split: option.split)

end
