(* ===== verification/Engine_Run.thy ===== *)
theory Engine_Run
  imports Layers Settle
begin

text \<open>
  What a value write does from end to end in \<^verbatim>\<open>core-rs/src/engine.rs\<close>: the drain under the
  engine's own state when no node is in stabilizing mode and no region is compiled, the write with
  its notifications, and the error results of the instructions.
\<close>

section \<open>A drain that queues no stabilization\<close>

definition is_stab :: "work_item \<Rightarrow> bool" where
  "is_stab x \<longleftrightarrow> (case x of WStabilize _ \<Rightarrow> True | _ \<Rightarrow> False)"

lemma is_stab_simps [simp]: "\<not> is_stab (WPush i)" "\<not> is_stab (WDemand i)" "is_stab (WStabilize r)"
  by (simp_all add: is_stab_def)

definition unstabilized :: "dep_registry \<Rightarrow> bool" where
  "unstabilized r \<longleftrightarrow> (\<forall>x. mode_of r x \<noteq> Stabilizing)"

lemma queued_seeds_append [simp]:
  "queued_seeds [] = []" "queued_seeds (xs @ ys) = queued_seeds xs @ queued_seeds ys"
  "queued_seeds (ValueChanged i a b # ys) = queued_seeds ys" "queued_seeds (BochvarInfected i k # ys) = queued_seeds ys"
  "queued_seeds (DemandFired i # ys) = queued_seeds ys" "queued_seeds (AuthViolation i j r # ys) = queued_seeds ys"
  by (simp_all add: queued_seeds_def List.map_filter_def)

definition quiet_loop :: "push_loop \<Rightarrow> push_loop \<Rightarrow> bool" where
  "quiet_loop L L' \<longleftrightarrow> queued_seeds (pl_events L') = queued_seeds (pl_events L)
     \<and> (\<forall>x \<in> set (pl_work L'). x \<in> set (pl_work L) \<or> \<not> is_stab x)"

interpretation ql: frame quiet_loop
  by unfold_locales (auto simp: quiet_loop_def)

lemma try_auth_quiet: "queued_seeds (snd (try_auth a b deps actx evs)) = queued_seeds evs"
  by (auto simp: try_auth_def Let_def split: option.split prod.split unbound_policy.split
      sum.split authority_mode.split)

lemma visit_sub_quiet: "quiet_loop L (visit_sub i t actx dem c off old new s L)"
proof -
  have "quiet_loop L (offer_push i t actx dem s L')" if "pl_events L' = pl_events L" "pl_work L' = pl_work L" for L'
    using that try_auth_quiet[of i s "pl_deps L'" actx "pl_events L'"]
    by (auto simp: offer_push_def quiet_loop_def split: prod.split)
  then show ?thesis by (simp add: visit_sub_def Let_def) (simp add: quiet_loop_def)
qed

lemma visit_subs_quiet: "quiet_loop L (visit_subs i t actx dem c off old new L)"
  unfolding visit_subs_def by (intro ql.fold_within visit_sub_quiet)

lemma materialize_quiet:
  "materialize i old new evs stats w = Some (w1, s1, e1) \<Longrightarrow> queued_seeds evs = [] \<Longrightarrow> queued_seeds e1 = []"
  by (auto simp: materialize_def split: if_splits)

definition quiet_result :: "step_result \<Rightarrow> bool" where
  "quiet_result = (\<lambda>(w, s, r, evs, work). queued_seeds evs = [] \<and> (\<forall>x \<in> set work. \<not> is_stab x))"

lemma finish_quiet: "quiet_loop \<lparr>pl_deps = d, pl_stats = s, pl_events = evs, pl_work = []\<rparr> L \<Longrightarrow> queued_seeds evs = []
    \<Longrightarrow> quiet_result (finish_loop w new L)"
  by (auto simp: quiet_result_def finish_loop_def quiet_loop_def)

lemma step_push_quiet:
  assumes "step_push i t actx dem stats w = Some res" "mode_of (w_deps w) i \<noteq> Stabilizing"
  shows "quiet_result res"
proof -
  have still: "quiet_result (w, stats, r, [], [])" for r
    by (simp add: quiet_result_def)
  have counted: "quiet_result res" if "push_by_counter i old new t actx dem stats w = Some res" for old new
    using that still materialize_quiet[of i old new _ stats w]
    by (auto simp: push_by_counter_def split: if_splits intro!: finish_quiet[OF visit_subs_quiet])
  have scanned: "quiet_result res" if p: "push_by_scan i rule old vals t actx dem stats w = Some res" for rule old vals
  proof (cases "propagation_state vals")
    case Conflicted
    then obtain w1 s1 e1 where m: "materialize i old Zero [BochvarInfected i None] stats w = Some (w1, s1, e1)"
      using p by (auto simp: push_by_scan_def)
    have "w_deps w1 = w_deps w" "queued_seeds e1 = []"
      using materialize_frame[OF m] materialize_quiet[OF m] by simp_all
    then show ?thesis
      using p Conflicted m assms(2)
      by (cases "mode_of (w_deps w) i") (auto simp: push_by_scan_def Let_def
          intro!: finish_quiet[OF visit_subs_quiet] finish_quiet[OF ql.trans[OF visit_subs_quiet visit_subs_quiet]])
  qed (use p still materialize_quiet in \<open>auto simp: push_by_scan_def Let_def split: if_splits
      intro!: finish_quiet[OF visit_subs_quiet]\<close>)
  show ?thesis
    using assms(1) still counted scanned
    by (auto simp: step_push_def bind_eq_Some_conv split: option.splits node_kind.splits)
qed

definition quiet_engine :: "prop_engine \<Rightarrow> bool" where
  "quiet_engine pe \<longleftrightarrow> queued_seeds (pe_events pe) = [] \<and> (\<forall>x \<in> set (pe_queue pe). \<not> is_stab x)"

lemma drain_item_quiet:
  assumes "drain_item t actx handled item f pe w = Some (f', pe', w')"
    and "quiet_engine pe" "\<not> is_stab item" "unstabilized (w_deps w)"
  shows "quiet_engine pe'"
proof (cases item)
  case (WPush i)
  show ?thesis
  proof (cases "compiled_skip handled w i")
    case False
    then obtain w2 stats' r evs work where s: "step_push i t actx (pe_demanded pe) (pe_stats pe) w
        = Some (w2, stats', r, evs, work)"
      using assms(1) by (auto simp: drain_item_def WPush)
    have q: "queued_seeds evs = []" "\<forall>x \<in> set work. \<not> is_stab x"
      using step_push_quiet[OF s] assms(4) by (simp_all add: quiet_result_def unstabilized_def)
    define pe1 where "pe1 = pe\<lparr>pe_stats := stats', pe_events := pe_events pe @ evs\<rparr>"
    have "pe_events (snd (fold queue_pushed work (g, p))) = pe_events p" for g p
      by (induction work arbitrary: g p) (simp_all add: queue_pushed_def Let_def)
    moreover have pe': "pe' = snd (fold queue_pushed work (f, pe1))"
      using assms(1) s False by (simp add: drain_item_def WPush pe1_def case_prod_beta Let_def)
    ultimately have "pe_events pe' = pe_events pe1" by metis
    moreover obtain f2 pe2 where "fold queue_pushed work (f, pe1) = (f2, pe2)" "pe_queue pe2 = pe_queue pe1 @ work"
      using fold_queue_pushed[of work f pe1] by blast
    then have "pe_queue pe' = pe_queue pe1 @ work" using pe' by simp
    ultimately show ?thesis
      using q assms(2) by (auto simp: quiet_engine_def pe1_def)
  qed (use assms in \<open>auto simp: drain_item_def WPush quiet_engine_def\<close>)
next
  case (WDemand i)
  have ev: "pe_events (snd (fold queue_demanded (map WDemand ds) (g, p))) = pe_events p" for ds g p
    by (induction ds arbitrary: g p) (simp_all add: queue_demanded_def is_demand_def)
  obtain f2 pe2 where q: "drain_item t actx handled (WDemand i) f pe w = Some (f2, pe2, w)"
    "pe_queue pe2 = map WDemand (rev (pending_deps w i)) @ pe_queue pe @ [WPush i]"
    using drain_demand by blast
  have "queued_seeds (pe_events pe') = []"
    using assms(1,2)
    by (auto simp: drain_item_def WDemand step_demand_def Let_def case_prod_beta ev quiet_engine_def
        queue_demanded_def is_demand_def)
  then show ?thesis using q assms(1,2) by (auto simp: WDemand quiet_engine_def)
qed (use assms(3) in simp)

lemma drain_loop_quiet:
  "drain_loop t actx handled mx steps f pe w = Some (res, pe', w') \<Longrightarrow> quiet_engine pe
    \<Longrightarrow> unstabilized (w_deps w) \<Longrightarrow> quiet_engine pe'"
proof (induction steps arbitrary: f pe w)
  case 0
  then show ?case by (cases "pe_queue pe") (auto simp: drain_loop_unfold quiet_engine_def)
next
  case (Suc steps)
  show ?case
  proof (cases "pe_queue pe")
    case Nil
    then show ?thesis using Suc.prems by (auto simp: drain_loop_unfold quiet_engine_def)
  next
    case (Cons item queue)
    then obtain f2 pe2 w2 where i: "drain_item t actx handled item f (popped pe queue) w = Some (f2, pe2, w2)"
      "drain_loop t actx handled mx steps f2 pe2 w2 = Some (res, pe', w')"
      using Suc.prems(1) by (auto simp: drain_loop_unfold split: option.splits)
    have "quiet_engine (popped pe queue)" "\<not> is_stab item"
      using Suc.prems(2) Cons by (simp_all add: quiet_engine_def) (simp add: popped_def)
    then have "quiet_engine pe2" using drain_item_quiet[OF i(1)] Suc.prems(3) by blast
    moreover have "mode_of (w_deps w2) = mode_of (w_deps w)"
      using drain_item_frame[OF i(1)] same_topology_queries(3) unfolding interp_world_def by blast
    then have "unstabilized (w_deps w2)" using Suc.prems(3) by (simp add: unstabilized_def)
    ultimately show ?thesis using Suc.IH[OF i(2)] by blast
  qed
qed

section \<open>The handlers' subscriber loop is the push loop\<close>

text \<open>\<open>notify_subs\<close> does to registry and queue what the push loop does without authority and
  without demands.\<close>

definition loop_view :: "engine \<Rightarrow> push_loop \<Rightarrow> bool" where
  "loop_view e L \<longleftrightarrow> pl_deps L = en_deps e \<and> pl_work L = pe_queue (en_prop e)"

lemma notify_sub_view:
  assumes "loop_view e L"
  shows "loop_view (notify_sub c t i old new s e) (visit_sub i t None {} c True old new s L)"
  using assms
  by (auto simp: loop_view_def notify_sub_def visit_sub_def offer_push_def try_auth_def Let_def set_deps_def
      set_world_def engine_enqueue_def enqueue_def)

lemma notify_subs_view:
  "loop_view e L \<Longrightarrow> loop_view (notify_subs c t i old new xs e) (fold (visit_sub i t None {} c True old new) xs L)"
  unfolding notify_subs_def
  by (induction xs arbitrary: e L) (simp_all add: notify_sub_view)

definition same_but_deps_queue :: "engine \<Rightarrow> engine \<Rightarrow> bool" where
  "same_but_deps_queue e e' \<longleftrightarrow> (\<exists>r q. e' = e\<lparr>en_world := (en_world e)\<lparr>w_deps := r\<rparr>,
     en_prop := (en_prop e)\<lparr>pe_queue := q\<rparr>\<rparr>)"

lemma same_but_refl: "same_but_deps_queue e e"
  unfolding same_but_deps_queue_def
  by (intro exI[of _ "en_deps e"] exI[of _ "pe_queue (en_prop e)"]) simp

interpretation sdq: frame same_but_deps_queue
proof
  show "same_but_deps_queue s s" for s by (rule same_but_refl)
  show "same_but_deps_queue s u" if "same_but_deps_queue s t" "same_but_deps_queue t u" for s t u
    using that by (fastforce simp: same_but_deps_queue_def)
qed

lemma notify_sub_only: "same_but_deps_queue e (notify_sub c t i old new s e)"
proof -
  have d: "same_but_deps_queue e (set_deps f e)" for f e
    unfolding same_but_deps_queue_def
    by (intro exI[of _ "f (en_deps e)"] exI[of _ "pe_queue (en_prop e)"]) (simp add: set_deps_def set_world_def)
  have q: "same_but_deps_queue e (engine_enqueue x e)" for x e
    unfolding same_but_deps_queue_def
    by (intro exI[of _ "en_deps e"] exI[of _ "pe_queue (en_prop e) @ [x]"]) (simp add: engine_enqueue_def enqueue_def)
  define e1 where "e1 = (if c then set_deps (\<lambda>r. update_dep_counter r s old new) e else e)"
  have "same_but_deps_queue e e1"
    unfolding e1_def using d same_but_refl by (cases c) simp_all
  moreover have "same_but_deps_queue e1 (set_deps f (engine_enqueue x e1))" for f x
    by (rule sdq.trans[OF q d])
  ultimately show ?thesis
    unfolding notify_sub_def Let_def e1_def[symmetric] using sdq.trans by (cases "gate_open (en_deps e1) i s t") auto
qed

lemma notify_subs_only: "same_but_deps_queue e (notify_subs c t i old new xs e)"
  unfolding notify_subs_def by (intro sdq.fold_within notify_sub_only)

section \<open>One warm drain, without compiled regions\<close>

definition no_regions :: "engine \<Rightarrow> bool" where
  "no_regions e \<longleftrightarrow> rc_regions (en_cache e) = []"

lemma run_no_regions: "no_regions e \<Longrightarrow> run_dirty_regions roots e = Some e"
  by (induction roots) (simp_all add: run_dirty_region_def no_regions_def)

lemma compiled_tier_idle:
  assumes "no_regions e"
  shows "\<exists>c. rc_regions c = [] \<and> compiled_tier e = Some (e\<lparr>en_cache := c, en_dirty := map (\<lambda>_. 0) (en_dirty e)\<rparr>)"
proof -
  obtain c roots where t: "take_dirty (en_cache e) = (c, roots)" by fastforce
  then have "rc_regions c = []" using assms by (auto simp: take_dirty_def no_regions_def)
  then have "no_regions (e\<lparr>en_cache := c\<rparr>)" by (simp add: no_regions_def)
  then show ?thesis using t run_no_regions \<open>rc_regions c = []\<close> by (auto simp: compiled_tier_def)
qed

lemma warm_once:
  assumes "engine_drain e = Some (e1, res)" "queued_seeds (pe_events (en_prop e1)) = []"
  shows "warm_loop S e = Some (case res of Inl err \<Rightarrow> (e1, Inl err)
    | Inr _ \<Rightarrow> (e1\<lparr>en_handled := map (\<lambda>_. 0) (en_handled e1)\<rparr>, Inr ()))"
  using assms by (subst warm_loop.simps) (auto split: sum.split)

lemma drain_and_stabilize_once:
  assumes "no_regions e" "quiet_engine (en_prop e)" "unstabilized (en_deps e)"
    and d: "drain (en_time e) (engine_auth e) (en_handled e) (en_max_steps e) (en_prop e) (en_world e) = Some (res, pe, w)"
  shows "\<exists>e' r. drain_and_stabilize S e = Some (e', r) \<and> en_world e' = w \<and> en_prop e' = pe
    \<and> r = (case res of Inl err \<Rightarrow> Inl (PropErr err) | Inr u \<Rightarrow> Inr u)
    \<and> en_time e' = en_time e \<and> en_arrival e' = en_arrival e \<and> en_history e' = en_history e
    \<and> en_mode e' = en_mode e \<and> en_max_steps e' = en_max_steps e \<and> no_regions e'
    \<and> (set (en_handled e) \<subseteq> {0} \<longrightarrow> set (en_handled e') \<subseteq> {0})"
proof -
  obtain c where c: "compiled_tier e = Some (e\<lparr>en_cache := c, en_dirty := map (\<lambda>_. 0) (en_dirty e)\<rparr>)" "rc_regions c = []"
    using compiled_tier_idle[OF assms(1)] by blast
  define e0 where "e0 = e\<lparr>en_cache := c, en_dirty := map (\<lambda>_. 0) (en_dirty e)\<rparr>"
  have a: "engine_auth e0 = engine_auth e" by (simp add: engine_auth_def e0_def)
  define r1 where "r1 = (case res of Inl err \<Rightarrow> Inl (PropErr err) | Inr u \<Rightarrow> Inr u)"
  have ed: "engine_drain e0 = Some (e0\<lparr>en_prop := pe, en_world := w\<rparr>, r1)"
    using d by (simp add: engine_drain_def a r1_def) (simp add: e0_def)
  have "quiet_engine pe"
    using d assms(2,3) by (auto simp: drain_def Let_def quiet_engine_def dest!: drain_loop_quiet)
  then have "queued_seeds (pe_events (en_prop (e0\<lparr>en_prop := pe, en_world := w\<rparr>))) = []"
    by (simp add: quiet_engine_def)
  from warm_once[OF ed this, of S] show ?thesis
    unfolding drain_and_stabilize_def c(1) bind.bind_lunit e0_def[symmetric] r1_def[symmetric]
    using c(2) by (cases r1) (auto simp: e0_def no_regions_def)
qed

section \<open>The write and its notifications\<close>

lemma mark_written_sel [simp]:
  "en_world (mark_written i e) = en_world e" "en_prop (mark_written i e) = en_prop e"
  "en_time (mark_written i e) = en_time e" "en_arrival (mark_written i e) = en_arrival e"
  "en_handled (mark_written i e) = en_handled e" "en_max_steps (mark_written i e) = en_max_steps e"
  "en_mode (mark_written i e) = en_mode e" "no_regions (mark_written i e) = no_regions e"
  by (auto simp: mark_written_def set_cache_def no_regions_def mark_dirty_for_input_def split: option.split)

lemma log_op_more [simp]:
  "en_max_steps (log_op op i d e) = en_max_steps e" "en_mode (log_op op i d e) = en_mode e"
  by (simp_all add: log_op_def Let_def)

text \<open>The engine right before the drain of a write.\<close>

definition after_write :: "uid \<Rightarrow> T \<Rightarrow> T \<Rightarrow> world \<Rightarrow> engine \<Rightarrow> engine" where
  "after_write i old v w' e =
     (let e2 = log_op ''SetValue'' (Some i) Attribute
            (push_event (ValueChanged i old v) (mark_written i (e\<lparr>en_world := w'\<rparr>)))
      in notify_subs True (en_time e2) i old v (subs_vec (en_deps e2) i) e2)"

lemma set_value_unfold:
  assumes "graph_node (en_graph e) i = Some n" "v \<noteq> n_value n" "write_value (en_world e) i v = Some w'"
  shows "op_set_value S i v e = drain_and_stabilize S (after_write i (n_value n) v w' e)"
  using assms by (simp add: op_set_value_def after_write_def Let_def)

text \<open>What the write and its notifications have done to the engine.\<close>

definition write_done :: "uid \<Rightarrow> T \<Rightarrow> T \<Rightarrow> engine \<Rightarrow> engine \<Rightarrow> uid list \<Rightarrow> bool" where
  "write_done i old v e e3 xs \<longleftrightarrow> world_wf (en_world e3)
     \<and> (\<forall>x. w_value (en_world e3) x = (if x = i then v else w_value (en_world e) x))
     \<and> (\<forall>x. map_option n_kind (graph_node (en_graph e3) x) = map_option n_kind (graph_node (en_graph e) x))
     \<and> same_topology (en_deps e) (en_deps e3)
     \<and> en_prop e3 = (en_prop e)\<lparr>pe_events := pe_events (en_prop e) @ [ValueChanged i old v],
          pe_queue := pe_queue (en_prop e) @ map WPush xs\<rparr>
     \<and> queued_subs i (en_time e3) None {} (en_deps e) (en_deps e3) xs
     \<and> set xs = {s \<in> subs_of (en_deps e) i. accepts i (en_time e3) None {} (en_deps e) s}
     \<and> en_time e3 = time_advance (en_time e) Attribute \<and> en_arrival e3 = en_arrival e + 1
     \<and> en_handled e3 = en_handled e \<and> en_max_steps e3 = en_max_steps e \<and> en_mode e3 = en_mode e
     \<and> no_regions e3 = no_regions e"

lemma after_write_facts:
  assumes wf: "world_wf (en_world e)" and node: "graph_node (en_graph e) i = Some n" and new: "v \<noteq> n_value n"
  shows "\<exists>w' xs. write_value (en_world e) i v = Some w'
    \<and> write_done i (n_value n) v e (after_write i (n_value n) v w' e) xs"
proof -
  let ?t = "time_advance (en_time e) Attribute" and ?old = "n_value n" and ?r = "en_deps e"
  have dw: "dr_wf ?r" using wf by (simp add: world_wf_def)
  define L0 where "L0 = \<lparr>pl_deps = ?r, pl_stats = stats_zero, pl_events = [], pl_work = pe_queue (en_prop e)\<rparr>"
  have L0: "pl_deps L0 = ?r" "pl_work L0 = pe_queue (en_prop e)" by (simp_all add: L0_def)
  define L where "L = visit_subs i ?t None {} True True ?old v L0"
  note vis = visit_subs_effect[where L=L0 and i=i and t="?t" and actx=None and dem="{}" and counting=True
      and offering=True and old="?old" and new=v, folded L_def, unfolded L0, OF dw]
  have eff: "pl_work L = pe_queue (en_prop e) @ map WPush (filter (accepts i ?t None {} ?r) (subs_vec ?r i))"
    "same_topology ?r (pl_deps L)"
    "\<And>b. dep_counter_of (pl_deps L) b = (if b \<in> subs_of ?r i
       then map_option (\<lambda>c. counters_update c ?old v) (dep_counter_of ?r b) else dep_counter_of ?r b)"
    "\<And>a b. dep_meta_of (pl_deps L) a b = (if a = i \<and> b \<in> subs_of ?r i \<and> accepts i ?t None {} ?r b
       then map_option (stamp ?t) (dep_meta_of ?r a b) else dep_meta_of ?r a b)"
    using vis by simp_all
  obtain w' where w': "write_value (en_world e) i v = Some w'" "w_deps w' = ?r" "world_wf (w'\<lparr>w_deps := pl_deps L\<rparr>)"
    "\<forall>x. w_value w' x = (if x = i then v else w_value (en_world e) x)"
    "\<forall>x. map_option n_kind (graph_node (w_graph w') x) = map_option n_kind (graph_node (en_graph e) x)"
    using write_then_count[OF wf node new eff(2,3)] by blast
  define e2 where "e2 = log_op ''SetValue'' (Some i) Attribute
    (push_event (ValueChanged i ?old v) (mark_written i (e\<lparr>en_world := w'\<rparr>)))"
  define e3 where "e3 = notify_subs True ?t i ?old v (subs_vec ?r i) e2"
  have e2: "en_world e2 = w'" "en_time e2 = ?t" "en_arrival e2 = en_arrival e + 1" "en_handled e2 = en_handled e"
    "en_max_steps e2 = en_max_steps e" "en_mode e2 = en_mode e" "no_regions e2 = no_regions e"
    "en_prop e2 = (en_prop e)\<lparr>pe_events := pe_events (en_prop e) @ [ValueChanged i ?old v]\<rparr>"
    by (simp_all add: e2_def push_event_def no_regions_def del: mark_written_sel(8))
       (simp_all add: mark_written_def set_cache_def mark_dirty_for_input_def split: option.split)
  have after: "e3 = after_write i ?old v w' e"
    using e2(1,2) w'(2) by (simp add: after_write_def e2_def[symmetric] e3_def Let_def)
  have "loop_view e3 L"
    unfolding e3_def L_def visit_subs_def L0
    by (rule notify_subs_view) (simp add: loop_view_def e2 w'(2) L0)
  then have d3: "en_deps e3 = pl_deps L" "pe_queue (en_prop e3) = pl_work L"
    by (simp_all add: loop_view_def)
  obtain r q where rq: "e3 = e2\<lparr>en_world := w'\<lparr>w_deps := r\<rparr>, en_prop := (en_prop e2)\<lparr>pe_queue := q\<rparr>\<rparr>"
    using notify_subs_only[of e2 True ?t i ?old v "subs_vec ?r i"] e2(1)
    unfolding e3_def[symmetric] same_but_deps_queue_def by auto
  then have "r = pl_deps L" "q = pl_work L" using d3 by simp_all
  note e3 = rq[unfolded this]
  let ?xs = "filter (accepts i ?t None {} ?r) (subs_vec ?r i)"
  have q: "queued_subs i ?t None {} ?r (pl_deps L) ?xs"
    by (rule queued_subs_filter[OF dw]) (use eff(4) in auto)
  have xs: "set ?xs = {s \<in> subs_of ?r i. accepts i ?t None {} ?r s}"
    using dr_wfD(3)[OF dw, of i] by (auto simp: subs_vec_def subs_of_def)
  have sel: "w_value (en_world e3) = w_value w'" "en_world e3 = w'\<lparr>w_deps := pl_deps L\<rparr>" "en_time e3 = ?t"
    "en_prop e3 = (en_prop e2)\<lparr>pe_queue := pl_work L\<rparr>" "en_arrival e3 = en_arrival e2"
    "en_handled e3 = en_handled e2" "en_max_steps e3 = en_max_steps e2" "en_mode e3 = en_mode e2"
    "no_regions e3 = no_regions e2"
    by (simp_all add: e3 e2(2) w_value_def[abs_def] no_regions_def)
  have "write_done i ?old v e e3 ?xs"
    unfolding write_done_def
    by (intro conjI) (use w'(3,4,5) eff(2) q xs in \<open>simp_all add: sel e2 eff(1) w_value_def\<close>)
  then show ?thesis using w'(1) after by blast
qed

section \<open>SetValue from end to end\<close>

text \<open>What a handler is given: the event buffer cleared by \<open>apply\<close> and no work left over.\<close>

definition at_rest :: "engine \<Rightarrow> bool" where
  "at_rest e \<longleftrightarrow> world_wf (en_world e) \<and> no_regions e \<and> pe_queue (en_prop e) = [] \<and> pe_events (en_prop e) = []"

lemma all_eager_unstabilized: "all_eager r \<Longrightarrow> unstabilized r"
  by (simp add: all_eager_def unstabilized_def)

lemma set_value_drains:
  assumes "at_rest e" "unstabilized (en_deps e)" and node: "graph_node (en_graph e) i = Some n" and new: "v \<noteq> n_value n"
  shows "\<exists>e3 xs res pe e' r. write_done i (n_value n) v e e3 xs
    \<and> drain (en_time e3) (engine_auth e3) (en_handled e) (en_max_steps e) (en_prop e3) (en_world e3)
        = Some (res, pe, en_world e')
    \<and> op_set_value S i v e = Some (e', r) \<and> en_prop e' = pe
    \<and> r = (case res of Inl err \<Rightarrow> Inl (PropErr err) | Inr u \<Rightarrow> Inr u)
    \<and> en_time e' = en_time e3 \<and> en_arrival e' = en_arrival e3
    \<and> en_mode e' = en_mode e \<and> en_max_steps e' = en_max_steps e \<and> no_regions e'
    \<and> (set (en_handled e) \<subseteq> {0} \<longrightarrow> set (en_handled e') \<subseteq> {0})"
proof -
  have wf: "world_wf (en_world e)" using assms(1) by (simp add: at_rest_def)
  obtain w' e3 xs where f: "write_value (en_world e) i v = Some w'" "e3 = after_write i (n_value n) v w' e"
    "write_done i (n_value n) v e e3 xs"
    using after_write_facts[OF wf node new] by metis
  have d3: "same_topology (en_deps e) (en_deps e3)" "no_regions e3 = no_regions e" "world_wf (en_world e3)"
    "en_handled e3 = en_handled e" "en_max_steps e3 = en_max_steps e"
    "en_mode e3 = en_mode e"
    "en_prop e3 = (en_prop e)\<lparr>pe_events := pe_events (en_prop e) @ [ValueChanged i (n_value n) v],
          pe_queue := pe_queue (en_prop e) @ map WPush xs\<rparr>"
    using f(3) by (simp_all add: write_done_def)
  have pre: "no_regions e3" "quiet_engine (en_prop e3)" "unstabilized (en_deps e3)"
    using assms(1,2) d3(2,7) same_topology_queries(3)[OF d3(1)]
    by (simp_all add: at_rest_def quiet_engine_def unstabilized_def)
  obtain res pe w where d: "drain (en_time e3) (engine_auth e3) (en_handled e3) (en_max_steps e3) (en_prop e3) (en_world e3)
      = Some (res, pe, w)"
    using drain_keeps[OF d3(3)] by blast
  have u: "op_set_value S i v e = drain_and_stabilize S e3"
    using set_value_unfold[OF node new f(1), of S] f(2) by simp
  from drain_and_stabilize_once[OF pre d, of S] obtain e' r where r: "drain_and_stabilize S e3 = Some (e', r)"
    "en_world e' = w" "en_prop e' = pe" "r = (case res of Inl err \<Rightarrow> Inl (PropErr err) | Inr u \<Rightarrow> Inr u)"
    "en_time e' = en_time e3" "en_arrival e' = en_arrival e3" "en_mode e' = en_mode e3" "en_max_steps e' = en_max_steps e3"
    "no_regions e'" "set (en_handled e3) \<subseteq> {0} \<longrightarrow> set (en_handled e') \<subseteq> {0}"
    by blast
  show ?thesis
    using f(3) d[unfolded d3(4,5), folded r(2)] r(1,3-10) d3(4-6) unfolding u by (intro exI[of _ e3] exI[of _ xs]) auto
qed

text \<open>
  C23. Writing a value always comes to an end and keeps the engine consistent.  For an existing
  node and a new value, in an engine at rest without compiled regions and without stabilizing
  nodes, \<open>SetValue\<close> returns; the world is consistent again, an input node holds the written value,
  no other input changed, the wiring is the same, the clock has ticked once in the attribute
  dimension and once in arrivals; and either the queue is empty and the result is success, or the
  drain hit the step limit.
\<close>

theorem set_value_returns:
  assumes "at_rest e" "unstabilized (en_deps e)" "graph_node (en_graph e) i = Some n" "v \<noteq> n_value n"
  shows "\<exists>e' r. op_set_value S i v e = Some (e', r) \<and> world_wf (en_world e') \<and> same_topology (en_deps e) (en_deps e')
    \<and> (\<forall>x. is_input (en_world e) x \<longrightarrow> w_value (en_world e') x = (if x = i then v else w_value (en_world e) x))
    \<and> en_time e' = time_advance (en_time e) Attribute \<and> en_arrival e' = en_arrival e + 1
    \<and> (r = Inr () \<and> pe_queue (en_prop e') = [] \<or> r = Inl (PropErr (StepLimitExceeded (en_max_steps e))))"
proof -
  obtain e3 xs res pe e' r where f: "write_done i (n_value n) v e e3 xs"
    "drain (en_time e3) (engine_auth e3) (en_handled e) (en_max_steps e) (en_prop e3) (en_world e3)
      = Some (res, pe, en_world e')"
    "op_set_value S i v e = Some (e', r)" "en_prop e' = pe"
    "r = (case res of Inl err \<Rightarrow> Inl (PropErr err) | Inr u \<Rightarrow> Inr u)"
    "en_time e' = en_time e3" "en_arrival e' = en_arrival e3"
    using set_value_drains[OF assms, of S] by blast
  have w: "world_wf (en_world e3)" "\<forall>x. w_value (en_world e3) x = (if x = i then v else w_value (en_world e) x)"
    "\<forall>x. map_option n_kind (graph_node (en_graph e3) x) = map_option n_kind (graph_node (en_graph e) x)"
    "same_topology (en_deps e) (en_deps e3)" "en_time e3 = time_advance (en_time e) Attribute"
    "en_arrival e3 = en_arrival e + 1"
    using f(1) by (simp_all add: write_done_def)
  have k: "kept (en_world e3) (en_world e')"
    "res = Inr () \<and> pe_queue pe = [] \<or> res = Inl (StepLimitExceeded (en_max_steps e))"
    using drain_keeps[OF w(1), of "en_time e3" "engine_auth e3" "en_handled e" "en_max_steps e" "en_prop e3"] f(2)
    by auto
  have "w_value (en_world e') x = (if x = i then v else w_value (en_world e) x)" if "is_input (en_world e) x" for x
  proof -
    have "is_input (en_world e3) x" using that w(3)[THEN spec, of x] by (auto simp: is_input_def)
    then show ?thesis using k(1) w(2) by (simp add: kept_def)
  qed
  moreover have "world_wf (en_world e')" "same_topology (en_deps e) (en_deps e')"
    using k(1) top.trans[OF w(4)] by (simp_all add: kept_def)
  moreover have "r = Inr () \<and> pe_queue (en_prop e') = [] \<or> r = Inl (PropErr (StepLimitExceeded (en_max_steps e)))"
    using k(2) f(4,5) by auto
  ultimately show ?thesis
    using f(3,6,7) w(5,6) by auto
qed

text \<open>A write leaves a node that does not read the source at its value.\<close>

lemma write_current:
  assumes wf: "world_wf (en_world e)" and wd: "write_done i old v e e3 xs" and cur: "current (en_world e) x"
    and inp: "graph_node (en_graph e) i = Some n" "n_kind n = Input" and still: "i \<notin> deps_of (en_deps e) x"
  shows "current (en_world e3) x"
proof -
  have f: "\<And>x. w_value (en_world e3) x = (if x = i then v else w_value (en_world e) x)"
    "\<And>x. map_option n_kind (graph_node (en_graph e3) x) = map_option n_kind (graph_node (en_graph e) x)"
    "same_topology (en_deps e) (en_deps e3)"
    using wd unfolding write_done_def by blast+
  have "set (ordered_deps_of (en_deps e) x) = deps_of (en_deps e) x"
    using wf by (simp add: world_wf_def simple_deps_def)
  then have d: "dep_values (en_world e3) x = dep_values (en_world e) x"
    using still f(1) same_topology_queries(4)[OF f(3)] by (auto simp: dep_values_def)
  show ?thesis
  proof (cases "x = i")
    case True
    then show ?thesis using f(2)[of i] inp by (auto simp: current_def)
  next
    case False
    then show ?thesis using current_frame[OF d _ f(2)] f(1) cur by simp
  qed
qed

lemma write_open_edges:
  assumes "write_done i old v e e3 xs" "metas_complete (en_deps e)"
  shows "metas_complete (en_deps e3)"
    "length xs + card (open_edges (en_deps e3) (en_time e3)) = card (open_edges (en_deps e) (en_time e3))"
proof -
  have q: "queued_subs i (en_time e3) None {} (en_deps e) (en_deps e3) xs" "same_topology (en_deps e) (en_deps e3)"
    using assms(1) unfolding write_done_def by blast+
  note c = queued_closes_edges[OF q assms(2)]
  show "metas_complete (en_deps e3)" by (rule c(3))
  have "card ((\<lambda>s. (i, s)) ` set xs) = length xs"
    using q(1) by (simp add: card_image inj_on_def distinct_card queued_subs_def)
  then show "length xs + card (open_edges (en_deps e3) (en_time e3)) = card (open_edges (en_deps e) (en_time e3))"
    using c(1,2) card_Diff_subset[OF _ c(2)] card_mono[OF _ c(2)] by simp
qed

lemma clear_no_events: "pe_events (en_prop e) = [] \<Longrightarrow> e\<lparr>en_prop := (en_prop e)\<lparr>pe_events := []\<rparr>\<rparr> = e"
  by (intro engine.equality prop_engine.equality) simp_all

section \<open>What a stabilization does to the values\<close>

text \<open>Conflicted nodes take one and the same decided value, and no dependency counter moves.\<close>

definition resolves :: "T \<Rightarrow> engine \<Rightarrow> engine \<Rightarrow> bool" where
  "resolves v e e' \<longleftrightarrow> (mirror_wf (en_world e) \<longrightarrow> mirror_wf (en_world e'))
     \<and> (\<forall>x. w_value (en_world e') x = w_value (en_world e) x
          \<or> w_value (en_world e) x = Zero \<and> w_value (en_world e') x = v)
     \<and> dr_counters (en_deps e') = dr_counters (en_deps e)"

interpretation rsv: frame "resolves v"
  by unfold_locales (auto simp: resolves_def, metis+)

lemma notify_uncounted:
  "resolves v e (notify_subs False t i old new xs e)"
  unfolding notify_subs_def
  by (intro rsv.fold_within)
    (auto simp: resolves_def notify_sub_def set_deps_def set_world_def engine_enqueue_def update_last_seen_def
      w_value_def mirror_wf_def)

lemma resolve_member_resolves:
  assumes "mirror_wf (en_world e)"
  shows "\<exists>e'. resolve_member v t i e = Some e' \<and> resolves v e e'"
proof (cases "\<exists>n. graph_node (en_graph e) i = Some n \<and> n_value n = Zero")
  case True
  then obtain n where n: "graph_node (en_graph e) i = Some n" "n_value n = Zero" by blast
  obtain w' where w': "write_value (en_world e) i v = Some w'" "w_deps w' = en_deps e"
    "graph_wf (w_graph w')" "store_wf (w_store w')" "st_idx (w_store w') = st_idx (en_store e)"
    "\<forall>x. w_value w' x = (if x = i then v else w_value (en_world e) x)" "cells_agree (w_graph w') (w_store w')"
    using write_value_effect[OF assms n(1), of v] by blast
  have "w_value (en_world e) i = Zero"
    using assms n by (auto simp: mirror_wf_def cells_agree_def w_value_def dest: spec[of _ i])
  then have "resolves v e (push_event ev (e\<lparr>en_world := w'\<rparr>))" for ev
    using w' assms by (auto simp: resolves_def push_event_def mirror_wf_def)
  then show ?thesis
    using n w'(1) rsv.trans[OF _ notify_uncounted] by (simp add: resolve_member_def Let_def)
next
  case False
  then show ?thesis using rsv.same by (auto simp: resolve_member_def split: option.split)
qed

lemma resolve_members_resolves:
  "mirror_wf (en_world e) \<Longrightarrow> \<exists>e'. resolve_members v t is e = Some e' \<and> resolves v e e'"
proof (induction "is" arbitrary: e)
  case (Cons i "is")
  obtain e1 where e1: "resolve_member v t i e = Some e1" "resolves v e e1"
    using resolve_member_resolves[OF Cons.prems] by blast
  then obtain e2 where "resolve_members v t is e1 = Some e2" "resolves v e1 e2"
    using Cons.IH[of e1] Cons.prems by (auto simp: resolves_def)
  then show ?case using e1 rsv.trans by fastforce
qed (simp add: rsv.same)

lemma accepted_value:
  assumes "stabilize_section S sr g r hs = Some (Some v, c)" "c = CompPos \<or> c = CompNeg"
  shows "v \<noteq> Zero"
proof -
  obtain roots where b: "check_port_compliance sr roots hs = c" "Some v = first_some roots"
    using assms by (auto simp: stabilize_section_def Let_def split: if_splits option.splits port_compliance.splits)
  then show ?thesis
    using compliance_accept[OF b(1) assms(2)] first_some_all[of roots "if c = CompPos then Pos else Neg"] by auto
qed

lemma run_stabilize_resolves:
  assumes "mirror_wf (en_world e)"
  shows "\<exists>e' v. run_stabilize S seeds e = Some e' \<and> v \<noteq> Zero \<and> resolves v e e'"
proof (cases "seeds = []")
  case False
  let ?sr = "build_section_region seeds (en_graph e) (en_deps e) 64"
  obtain res c where s: "stabilize_section S ?sr (en_graph e) (en_deps e) (en_port_histories e) = Some (res, c)"
    using stabilize_total by fast
  show ?thesis
  proof (cases "(c = CompPos \<or> c = CompNeg) \<and> res \<noteq> None")
    case True
    then obtain v where v: "res = Some v" "v \<noteq> Zero" using s accepted_value by blast
    obtain e1 where e1: "resolve_members v (en_time e) (sort (sr_members ?sr)) e = Some e1" "resolves v e e1"
      using resolve_members_resolves[OF assms] by blast
    then have "resolves v e (e1\<lparr>en_time := t, en_arrival := a\<rparr>)" for t a
      by (simp add: resolves_def)
    moreover have "run_stabilize S seeds e = Some (e1\<lparr>en_time := time_advance (en_time e1) Egraph,
        en_arrival := en_arrival e1 + 1\<rparr>)"
      using True False s v(1) e1(1) by (auto simp: run_stabilize_def Let_def)
    ultimately show ?thesis using v(2) by blast
  next
    case undecided: False
    have infect: "resolves Pos e (fold (\<lambda>i. push_event (f i)) is e)" for f and "is" :: "uid list"
      by (intro rsv.fold_within) (simp add: resolves_def push_event_def)
    have "resolves Pos e (fold demand_deps is e)" for "is"
      unfolding demand_deps_def
      by (intro rsv.fold_within) (auto simp: resolves_def engine_enqueue_def split: option.split)
    then have "\<exists>e'. run_stabilize S seeds e = Some e' \<and> resolves Pos e e'"
      using undecided False s infect rsv.same
      by (auto simp: run_stabilize_def Let_def split: port_compliance.split stab_zero_kind.split)
    then show ?thesis by blast
  qed
qed (auto simp: run_stabilize_def intro: rsv.same)

lemma count_list_ge:
  assumes "\<forall>x \<in> set xs. g x = Zero \<longrightarrow> f x = Zero" "a \<in> set xs" "f a = Zero" "g a \<noteq> Zero"
  shows "count_list (map g xs) Zero < count_list (map f xs) Zero"
  using assms
proof (induction xs)
  case (Cons x xs)
  have le: "count_list (map g xs) Zero \<le> count_list (map f xs) Zero"
    using Cons.prems(1) by (induction xs) auto
  show ?case
  proof (cases "x = a")
    case True
    then show ?thesis using le Cons.prems(3,4) by simp
  next
    case False
    then show ?thesis using Cons.IH Cons.prems by auto
  qed
qed simp

text \<open>
  C27. A stabilization rewrites only conflicted nodes, and leaves counters stale.  On a consistent
  engine it always ends; the graph and its dense cache stay in agreement; every node keeps its
  value or goes from \<open>Zero\<close> to the one decided value, which is \<open>Pos\<close> or \<open>Neg\<close>.  But no dependency counter is
  updated, so as soon as a node with a subscriber has been resolved, the counters disagree with
  the values and the world is no longer one the push step can rely on.
\<close>

theorem stabilize_stales_counters:
  assumes "world_wf (en_world e)"
  shows "\<exists>e' v. run_stabilize S seeds e = Some e' \<and> v \<noteq> Zero \<and> mirror_wf (en_world e')
    \<and> (\<forall>x. w_value (en_world e') x = w_value (en_world e) x
        \<or> w_value (en_world e) x = Zero \<and> w_value (en_world e') x = v)
    \<and> dr_counters (en_deps e') = dr_counters (en_deps e)
    \<and> (w_value (en_world e') a \<noteq> w_value (en_world e) a \<and> a \<in> deps_of (en_deps e) b
        \<longrightarrow> \<not> counters_agree (en_world e'))"
proof -
  obtain e' v where r: "run_stabilize S seeds e = Some e'" "v \<noteq> Zero" "resolves v e e'"
    using run_stabilize_resolves[OF world_wf_mirror[OF assms]] by blast
  have vals: "\<forall>x. w_value (en_world e') x = w_value (en_world e) x
      \<or> w_value (en_world e) x = Zero \<and> w_value (en_world e') x = v"
    and ctr: "dr_counters (en_deps e') = dr_counters (en_deps e)" and m: "mirror_wf (en_world e')"
    using r(3) world_wf_mirror[OF assms] by (simp_all add: resolves_def)
  have stale: "\<not> counters_agree (en_world e')"
    if a: "w_value (en_world e') a \<noteq> w_value (en_world e) a" "a \<in> deps_of (en_deps e) b"
  proof
    assume agree: "counters_agree (en_world e')"
    let ?od = "ordered_deps_of (en_deps e) b"
    have od: "a \<in> set ?od" "counters_agree (en_world e)"
      using assms a(2) by (simp_all add: world_wf_def simple_deps_def)
    then obtain c where c: "dep_counter_of (en_deps e) b = Some c"
      by (cases "dep_counter_of (en_deps e) b") (auto simp: counters_agree_def)
    have "same_topology (en_deps e) (en_deps e')"
      using run_stabilize_frame[OF r(1)] by (simp add: interp_frame_def interp_world_def)
    then have "dep_values (en_world e') b = map (w_value (en_world e')) ?od"
      by (simp add: dep_values_def same_topology_queries)
    moreover have "dep_counter_of (en_deps e') b = Some c" using c ctr by (simp add: dep_counter_of_def)
    moreover have "dep_counter_of (en_deps e') b = Some c \<Longrightarrow> counts c (dep_values (en_world e') b)"
      "counts c (dep_values (en_world e) b)"
      using agree od(2) c unfolding counters_agree_def by blast+
    ultimately have "counts c (map (w_value (en_world e')) ?od)" "counts c (map (w_value (en_world e)) ?od)"
      by (simp_all add: dep_values_def)
    then have "count_list (map (w_value (en_world e')) ?od) Zero = count_list (map (w_value (en_world e)) ?od) Zero"
      by (simp add: counts_def)
    moreover have "w_value (en_world e) a = Zero" "w_value (en_world e') a \<noteq> Zero" using vals a(1) by metis+
    moreover have "\<forall>x \<in> set ?od. w_value (en_world e') x = Zero \<longrightarrow> w_value (en_world e) x = Zero"
      using vals r(2) by metis
    ultimately show False using count_list_ge[OF _ od(1)] by fastforce
  qed
  show ?thesis using r(1,2) m vals ctr stale by blast
qed

text \<open>An input that holds \<open>Pos\<close>, a copy of it in conflict, and a copy of the copy.\<close>

definition conflict_base :: world where
  "conflict_base = create_node (create_node (create_node world_empty (node_input 1 ''in''))
     (node_computed 2 ''copy'' Identity_rule)) (node_computed 3 ''out'' Identity_rule)"

definition conflict_world :: world where
  "conflict_world = connect (connect (the (write_value (the (write_value conflict_base 1 Pos)) 2 Zero)) 1 2) 2 3"

definition conflict_engine :: engine where
  "conflict_engine = engine_new\<lparr>en_world := conflict_world\<rparr>"

lemma write_unread:
  assumes "world_wf w" "graph_node (w_graph w) i = Some n" "v \<noteq> n_value n" "subs_of (w_deps w) i = {}"
  shows "world_wf (the (write_value w i v))" "w_deps (the (write_value w i v)) = w_deps w"
    "st_idx (w_store (the (write_value w i v))) = st_idx (w_store w)"
    "graph_node (w_graph (the (write_value w i v))) x
      = (if x = i then Some (fst (node_set_value n v)) else graph_node (w_graph w) x)"
proof -
  obtain w1 where w1: "write_value w i v = Some w1" "w_deps w1 = w_deps w" "world_wf (w1\<lparr>w_deps := w_deps w\<rparr>)"
    using write_then_count[OF assms(1-3) top.same] assms(4) by auto
  have "world_wf w1" using w1(3)[folded w1(2)] by simp
  then show "world_wf (the (write_value w i v))" "w_deps (the (write_value w i v)) = w_deps w"
    by (simp_all add: w1(1,2))
  show "st_idx (w_store (the (write_value w i v))) = st_idx (w_store w)"
    using write_value_frame(1)[OF w1(1)] w1(1) by (simp add: interp_world_def)
  show "graph_node (w_graph (the (write_value w i v))) x
      = (if x = i then Some (fst (node_set_value n v)) else graph_node (w_graph w) x)"
    using w1(1) assms(2) by (auto simp: write_value_def)
qed

lemma conflict_world_facts:
  "world_wf conflict_world" "\<exists>n. graph_node (w_graph conflict_world) 1 = Some n \<and> n_value n = Pos"
  "\<exists>n. graph_node (w_graph conflict_world) 2 = Some n \<and> n_value n = Zero" "2 \<in> deps_of (w_deps conflict_world) 3"
proof -
  have b: "world_wf conflict_base" "graph_node (w_graph conflict_base) 1 = Some (node_input 1 ''in'')"
    "graph_node (w_graph conflict_base) 2 = Some (node_computed 2 ''copy'' Identity_rule)"
    "w_deps conflict_base = set_mode (set_mode (set_mode registry_empty 1 Eager) 2 Eager) 3 Eager"
    "st_idx (w_store conflict_base) 1 = Some 0" "st_idx (w_store conflict_base) 2 = Some 1"
    by (simp_all add: conflict_base_def world_wf_create)
  have s1: "subs_of (w_deps conflict_base) 1 = {}" by (simp add: b(4))
  note w1 = write_unread[OF b(1,2) _ s1, of Pos, simplified]
  have n2: "graph_node (w_graph (the (write_value conflict_base 1 Pos))) 2 = Some (node_computed 2 ''copy'' Identity_rule)"
    "subs_of (w_deps (the (write_value conflict_base 1 Pos))) 2 = {}"
    using w1 b by simp_all
  note w2 = write_unread[OF w1(1) n2(1) _ n2(2), of Zero, simplified]
  show "world_wf conflict_world"
    unfolding conflict_world_def
    by (intro world_wf_connect w2) (simp_all add: w1 w2 b)
  show "\<exists>n. graph_node (w_graph conflict_world) 1 = Some n \<and> n_value n = Pos"
    "\<exists>n. graph_node (w_graph conflict_world) 2 = Some n \<and> n_value n = Zero" "2 \<in> deps_of (w_deps conflict_world) 3"
    by (simp_all add: conflict_world_def w1 w2 frame_simps)
qed

lemma conflict_section:
  "stabilize_section (map const_of) (build_section_region [1, 2] (w_graph conflict_world) (w_deps conflict_world) 64)
     (w_graph conflict_world) (w_deps conflict_world) [] = Some (Some Pos, CompPos)"
  "sort (sr_members (build_section_region [1, 2] (w_graph conflict_world) (w_deps conflict_world) 64)) = [1, 2]"
  by code_simp+

lemma conflict_resolved:
  "\<exists>e'. run_stabilize (map const_of) [1, 2] conflict_engine = Some e' \<and> w_value (en_world e') 2 = Pos"
proof -
  let ?e = conflict_engine and ?t = "en_time conflict_engine"
  have w: "en_world ?e = conflict_world" "en_port_histories ?e = []"
    by (simp_all add: conflict_engine_def engine_new_def)
  have m: "mirror_wf (en_world ?e)" by (simp add: w world_wf_mirror conflict_world_facts(1))
  have r1: "resolve_member Pos ?t 1 ?e = Some ?e"
    using conflict_world_facts(2) by (auto simp: resolve_member_def w)
  obtain n where n: "graph_node (en_graph ?e) 2 = Some n" "n_value n = Zero"
    using conflict_world_facts(3) by (auto simp: w)
  obtain w' where w': "write_value (en_world ?e) 2 Pos = Some w'"
    "\<forall>x. w_value w' x = (if x = 2 then Pos else w_value (en_world ?e) x)"
    using write_value_effect[OF m n(1), of Pos] by blast
  define e1 where "e1 = push_event (ValueChanged 2 Zero Pos) (?e\<lparr>en_world := w'\<rparr>)"
  define e2 where "e2 = notify_subs False ?t 2 Zero Pos (subs_vec (en_deps e1) 2) e1"
  have "resolve_member Pos ?t 2 ?e = Some e2"
    using n w'(1) by (simp add: resolve_member_def Let_def e1_def e2_def)
  moreover have "w_value (en_world e1) 2 = Pos" using w'(2) by (simp add: e1_def push_event_def)
  then have "w_value (en_world e2) 2 = Pos"
    using notify_uncounted[of Pos e1 ?t 2 Zero Pos "subs_vec (en_deps e1) 2"]
    by (auto simp: resolves_def e2_def dest: spec[of _ 2])
  ultimately show ?thesis
    using r1 by (simp add: run_stabilize_def w conflict_section)
qed

theorem stabilize_stales_counters_witness:
  "world_wf (en_world conflict_engine)
   \<and> (\<exists>e'. run_stabilize (map const_of) [1, 2] conflict_engine = Some e' \<and> w_value (en_world e') 2 = Pos
        \<and> mirror_wf (en_world e') \<and> \<not> counters_agree (en_world e'))"
proof -
  have w: "en_world conflict_engine = conflict_world" by (simp add: conflict_engine_def)
  have wf: "world_wf (en_world conflict_engine)" by (simp add: w conflict_world_facts(1))
  obtain n where n: "graph_node (w_graph conflict_world) 2 = Some n" "n_value n = Zero"
    using conflict_world_facts(3) by blast
  have "w_value (en_world conflict_engine) 2 = Zero"
    using value_of_node[OF wf[unfolded w] n(1)] n(2) by (simp add: w)
  moreover obtain e' where "run_stabilize (map const_of) [1, 2] conflict_engine = Some e'" "w_value (en_world e') 2 = Pos"
    using conflict_resolved by blast
  ultimately show ?thesis
    using stabilize_stales_counters[OF wf, of "map const_of" "[1, 2]" 2 3] wf conflict_world_facts(4) by (auto simp: w)
qed

section \<open>Errors\<close>

lemma drain_loop_error: "drain_loop t actx handled mx steps f pe w = Some (res, pe', w')
    \<Longrightarrow> res = Inr () \<or> res = Inl (StepLimitExceeded mx)"
proof (induction steps arbitrary: f pe w)
  case 0
  then show ?case by (cases "pe_queue pe") (auto simp: drain_loop_unfold)
next
  case (Suc steps)
  then show ?case by (cases "pe_queue pe") (auto simp: drain_loop_unfold split: option.splits)
qed

lemma warm_loop_error:
  assumes "warm_loop S e = Some r"
  shows "snd r = Inr () \<or> (\<exists>mx. snd r = Inl (PropErr (StepLimitExceeded mx)))"
proof (rule warm_loop.raw_induct[where P="\<lambda>S e r. snd r = Inr () \<or> (\<exists>mx. snd r = Inl (PropErr (StepLimitExceeded mx)))",
      OF _ assms], goal_cases)
  case (1 wl S e r)
  obtain e1 res where d: "engine_drain e = Some (e1, res)"
    using 1(2) by (cases "engine_drain e") auto
  then have "res = Inr () \<or> (\<exists>mx. res = Inl (PropErr (StepLimitExceeded mx)))"
    by (auto simp: engine_drain_def drain_def Let_def dest!: drain_loop_error)
  then show ?case
  proof (elim disjE exE)
    assume "res = Inr ()"
    then show ?thesis using 1(1,2) d by (auto simp: Let_def split: if_splits option.splits)
  qed (use 1(2) d in auto)
qed

lemma drain_and_stabilize_error:
  assumes "drain_and_stabilize S e = Some (e', Inl err)"
  shows "\<exists>mx. err = PropErr (StepLimitExceeded mx)"
  using assms warm_loop_error by (fastforce simp: drain_and_stabilize_def bind_eq_Some_conv)

text \<open>An engine just started over a given world.\<close>

lemma fresh_engine:
  assumes "world_wf w"
  shows "at_rest (engine_new\<lparr>en_world := w\<rparr>)" "en_mode (engine_new\<lparr>en_world := w\<rparr>) = Advisory"
    "set (en_handled (engine_new\<lparr>en_world := w\<rparr>)) \<subseteq> {0}" "en_max_steps (engine_new\<lparr>en_world := w\<rparr>) = 100000"
    "en_time (engine_new\<lparr>en_world := w\<rparr>) = TIME_ZERO"
  using assms by (simp_all add: at_rest_def no_regions_def engine_new_def cache_new_def prop_engine_new_def)

text \<open>
  C26. Every error of an instruction, and what it leaves behind.  An instruction fails with a step
  limit only if it is one of those that touch the interpreter's layer (\<open>InterpOnly\<close>, a
  stabilization included), which are the ones that drain; with \<open>NodeNotFound\<close> only for a node that does not exist; with a dangling
  edge violation only for a node with a remote edge or for a remote edge; with nothing else.  A
  refusal leaves the engine exactly as it was, with the one exception of \<open>Reflect\<close>, which has
  ticked the clock and logged itself by then.
\<close>

theorem errors_leave_state:
  assumes "dispatch S x e = Some (e', Inl err)"
  shows "case err of
      PropErr p \<Rightarrow> touches_layers x = InterpOnly \<and> (\<exists>mx. p = StepLimitExceeded mx)
    | NodeNotFound i \<Rightarrow> graph_node (en_graph e) i = None
        \<and> e' = (if x = Reflect i then log_op ''Reflect'' (Some i) Attribute e else e)
    | DpoViolation i _ \<Rightarrow> e' = e \<and> (x = DelNode i \<and> has_remote_interface e i
        \<or> x = DelEdge i \<and> (\<exists>ed. graph_edge (en_graph e) i = Some ed \<and> edge_is_remote ed))
    | _ \<Rightarrow> False"
proof (cases x)
  case (SetValue i v)
  then show ?thesis
    using assms by (auto simp: op_set_value_def fail_op_def done_op_def Let_def split: option.splits if_splits
        dest!: drain_and_stabilize_error)
next
  case (Reflect i)
  then show ?thesis
    using assms by (auto simp: op_reflect_def fail_op_def Let_def split: option.splits
        dest!: drain_and_stabilize_error)
next
  case (EdgeConnect i ty s t d)
  then show ?thesis
    using assms by (auto simp: op_edge_connect_def fail_op_def done_op_def Let_def split: if_splits)
next
  case (DelNode i)
  then show ?thesis
    using assms by (auto simp: op_del_node_def fail_op_def done_op_def Let_def split: if_splits option.splits)
next
  case (DelEdge i)
  then show ?thesis
    using assms by (auto simp: op_del_edge_def fail_op_def done_op_def split: if_splits option.splits)
qed (use assms in \<open>auto simp: op_propagate_def op_demand_def op_set_mode_def op_node_create_def op_subscribe_def
    op_stabilize_def op_partition_create_def op_partition_bind_def op_set_partition_authority_def
    op_set_edge_label_def op_set_stabilization_def op_set_execution_def op_region_declare_def
    fail_op_def done_op_def Let_def split: if_splits option.splits dest!: drain_and_stabilize_error\<close>)

theorem errors_leave_state_witness:
  "dispatch (map const_of) (SetMode 9 Lazy) engine_new = Some (engine_new, Inl (NodeNotFound 9))
   \<and> graph_node (en_graph engine_new) 9 = None
   \<and> (\<exists>e'. dispatch (map const_of) (Reflect 9) engine_new = Some (e', Inl (NodeNotFound 9)) \<and> en_arrival e' = 1)"
proof -
  have s: "dispatch (map const_of) (SetMode 9 Lazy) engine_new = Some (engine_new, Inl (NodeNotFound 9))"
    by (simp add: op_set_mode_def fail_op_def engine_new_def)
  have r: "dispatch (map const_of) (Reflect 9) engine_new
      = Some (log_op ''Reflect'' (Some 9) Attribute engine_new, Inl (NodeNotFound 9))"
    by (simp add: op_reflect_def fail_op_def Let_def) (simp add: engine_new_def fail_op_def)
  show ?thesis
    using errors_leave_state[OF s] errors_leave_state[OF r] s r by (auto simp: engine_new_def)
qed

section \<open>An engine with an input and a copy of it\<close>

definition link_engine :: engine where
  "link_engine = engine_new\<lparr>en_world := connect (create_node (create_node world_empty (node_input 1 ''in''))
     (node_computed 2 ''copy'' Identity_rule)) 1 2\<rparr>"

lemma link_engine_facts:
  "at_rest link_engine" "en_mode link_engine = Advisory" "all_eager (en_deps link_engine)"
  "metas_complete (en_deps link_engine)" "set (en_handled link_engine) \<subseteq> {0}" "current (en_world link_engine) x"
  "graph_node (en_graph link_engine) 1 = Some (node_input 1 ''in'')"
  "2 * card (open_edges (en_deps link_engine) t) \<le> en_max_steps link_engine"
proof -
  show "at_rest link_engine"
    unfolding link_engine_def by (intro fresh_engine world_wf_connect world_wf_create world_wf_empty) simp_all
  then have wf: "world_wf (en_world link_engine)" by (simp add: at_rest_def)
  show "en_mode link_engine = Advisory" "set (en_handled link_engine) \<subseteq> {0}"
    by (simp_all add: link_engine_def engine_new_def)
  show "all_eager (en_deps link_engine)" "metas_complete (en_deps link_engine)"
    by (auto simp: link_engine_def all_eager_def metas_complete_def)
  show n1: "graph_node (en_graph link_engine) 1 = Some (node_input 1 ''in'')"
    by (simp add: link_engine_def)
  have "ordered_deps_of (en_deps link_engine) 2 = [1]" by (simp add: link_engine_def)
  then have "dep_values (en_world link_engine) 2 = [Neg]"
    using value_of_node[OF wf n1] by (simp add: dep_values_def)
  moreover have "map_option n_kind (graph_node (en_graph link_engine) x)
      = (if x = 1 then Some Input else if x = 2 then Some (Computed Identity_rule) else None)"
    by (simp add: link_engine_def)
  ultimately show "current (en_world link_engine) x"
    by (auto simp: current_def push_target_def)
  have "open_edges (en_deps link_engine) t \<subseteq> {(1, 2)}"
    by (auto simp: open_edges_def link_engine_def split: if_splits)
  from card_mono[OF _ this] have "card (open_edges (en_deps link_engine) t) \<le> 1" by simp
  moreover have "en_max_steps link_engine = 100000" by (simp add: link_engine_def engine_new_def)
  ultimately show "2 * card (open_edges (en_deps link_engine) t) \<le> en_max_steps link_engine" by simp
qed

theorem set_value_returns_witness:
  "at_rest link_engine \<and> unstabilized (en_deps link_engine)
   \<and> (\<exists>e' r. op_set_value (map const_of) 1 Pos link_engine = Some (e', r) \<and> world_wf (en_world e')
        \<and> w_value (en_world e') 1 = Pos \<and> en_arrival e' = 1)"
proof -
  have "is_input (en_world link_engine) 1" using link_engine_facts(7) by (simp add: is_input_def)
  moreover have "en_arrival link_engine = 0" by (simp add: link_engine_def engine_new_def)
  ultimately show ?thesis
    using set_value_returns[OF link_engine_facts(1) all_eager_unstabilized[OF link_engine_facts(3)]
        link_engine_facts(7), of Pos "map const_of"]
      link_engine_facts(1) all_eager_unstabilized[OF link_engine_facts(3)]
    by fastforce
qed

end
