(* ===== verification/Tree_Settle.thy ===== *)
theory Tree_Settle
  imports Engine_Run
begin

text \<open>
  When every write brings the whole graph up to date.  A write sends a wave of pushes down the
  subscriptions; a node that two branches of the wave reach can be left behind, as \<open>Settle\<close> shows.
  Here: sources below which no two branches meet again, the invariant of the wave they send, the
  drain steps it takes, the events it reports, and histories of writes to such sources.
\<close>

section \<open>Draining under an invariant\<close>

text \<open>An invariant that counts the steps still needed brings the drain loop to its end.\<close>

lemma drain_loop_steps:
  assumes step: "\<And>n item f pe w. I n (item # pe_queue pe) (pe_events pe) w
      \<Longrightarrow> \<exists>k f' pe' w'. n = Suc k \<and> drain_item t None handled item f pe w = Some (f', pe', w')
        \<and> I k (pe_queue pe') (pe_events pe') w'"
    and start: "I n (pe_queue pe) (pe_events pe) w" "n \<le> steps"
  shows "\<exists>k pe' w'. drain_loop t None handled mx steps f pe w = Some (Inr (), pe', w') \<and> pe_queue pe' = []
    \<and> I k [] (pe_events pe') w'"
  using start
proof (induction steps arbitrary: n f pe w)
  case 0
  have "pe_queue pe = []"
  proof (cases "pe_queue pe")
    case (Cons item queue)
    then show ?thesis using step[of n item "popped pe queue" w f] 0 by (auto simp: popped_def)
  qed
  then show ?case using 0 by (auto simp: drain_loop_unfold)
next
  case (Suc steps)
  show ?case
  proof (cases "pe_queue pe")
    case Nil
    then show ?thesis using Suc.prems(1) by (auto simp: drain_loop_unfold)
  next
    case (Cons item queue)
    obtain k f2 pe2 w2 where i: "n = Suc k" "drain_item t None handled item f (popped pe queue) w = Some (f2, pe2, w2)"
      "I k (pe_queue pe2) (pe_events pe2) w2"
      using step[of n item "popped pe queue" w f] Suc.prems(1) Cons by (auto simp: popped_def)
    show ?thesis using Suc.IH[OF i(3)] Suc.prems(2) i(1,2) Cons by (simp add: drain_loop_unfold)
  qed
qed

lemma drain_steps:
  assumes "\<And>n item f pe w. I n (item # pe_queue pe) (pe_events pe) w
      \<Longrightarrow> \<exists>k f' pe' w'. n = Suc k \<and> drain_item t None handled item f pe w = Some (f', pe', w')
        \<and> I k (pe_queue pe') (pe_events pe') w'"
    and "I n (pe_queue pe) (pe_events pe) w" "n \<le> mx"
  shows "\<exists>k pe' w'. drain t None handled mx pe w = Some (Inr (), pe', w') \<and> pe_queue pe' = []
    \<and> I k [] (pe_events pe') w'"
  unfolding drain_def Let_def
  by (rule drain_loop_steps[where I = I and n = n, OF assms(1)]) (use assms(2,3) in simp_all)

section \<open>Trees of subscribers\<close>

text \<open>What can be reached from a source over subscriptions, and sources from which every node is reached
  over one path: nothing below the source feeds back into it, and no node has two dependencies below it.\<close>

definition below :: "dep_registry \<Rightarrow> uid \<Rightarrow> uid set" where
  "below r i = {a. (i, a) \<in> {(a, b). b \<in> subs_of r a}\<^sup>*}"

definition single_path :: "dep_registry \<Rightarrow> uid \<Rightarrow> bool" where
  "single_path r i \<longleftrightarrow> (\<forall>a \<in> below r i. i \<notin> subs_of r a)
     \<and> (\<forall>a \<in> below r i. \<forall>b \<in> below r i. \<forall>x. x \<in> subs_of r a \<and> x \<in> subs_of r b \<longrightarrow> a = b)"

lemma below_source [simp]: "i \<in> below r i"
  by (simp add: below_def)

lemma below_step: "a \<in> below r i \<Longrightarrow> x \<in> subs_of r a \<Longrightarrow> x \<in> below r i"
  unfolding below_def by (auto intro: rtrancl.rtrancl_into_rtrancl)

lemma single_pathD:
  assumes "single_path r i" "a \<in> below r i"
  shows "i \<notin> subs_of r a" "b \<in> below r i \<Longrightarrow> x \<in> subs_of r a \<Longrightarrow> x \<in> subs_of r b \<Longrightarrow> a = b"
  using assms unfolding single_path_def by blast+

lemma no_self_loop:
  assumes "single_path r i" "a \<in> below r i"
  shows "a \<notin> subs_of r a"
proof -
  have "(i, a) \<in> {(a, b). b \<in> subs_of r a}\<^sup>*" using assms(2) by (simp add: below_def)
  then show ?thesis
  proof (induction rule: rtrancl_induct)
    case base
    show ?case by (rule single_pathD(1)[OF assms(1) below_source])
  next
    case (step a x)
    have a: "a \<in> below r i" using step.hyps(1) by (simp add: below_def)
    have x: "x \<in> subs_of r a" using step.hyps(2) by simp
    then show ?case using single_pathD(2)[OF assms(1) a below_step[OF a x] x] step.IH by blast
  qed
qed

lemma single_path_same: "same_topology r r' \<Longrightarrow> single_path r' i = single_path r i" "same_topology r r' \<Longrightarrow> below r' i = below r i"
  by (simp_all add: single_path_def below_def same_topology_queries)

text \<open>There are no more nodes below a source than edges.\<close>

lemma below_edges: "card (below r i - {i}) \<le> card {(a, b). b \<in> subs_of r a}"
proof -
  have "below r i - {i} \<subseteq> snd ` {(a, b). b \<in> subs_of r a}"
  proof
    fix x assume "x \<in> below r i - {i}"
    then have "(i, x) \<in> {(a, b). b \<in> subs_of r a}\<^sup>*" "x \<noteq> i" by (simp_all add: below_def)
    then obtain y where "(y, x) \<in> {(a, b). b \<in> subs_of r a}" by (metis rtranclE)
    then show "x \<in> snd ` {(a, b). b \<in> subs_of r a}" by force
  qed
  then have "card (below r i - {i}) \<le> card (snd ` {(a, b). b \<in> subs_of r a})" by (intro card_mono) simp_all
  also have "\<dots> \<le> card {(a, b). b \<in> subs_of r a}" by (rule card_image_le) simp
  finally show ?thesis .
qed

section \<open>The wave a write sends down a tree\<close>

definition pushes :: "work_item list \<Rightarrow> uid list" where
  "pushes q = List.map_filter (\<lambda>x. case x of WPush i \<Rightarrow> Some i | _ \<Rightarrow> None) q"

lemma pushes_simps [simp]:
  "pushes [] = []" "pushes (WPush i # q) = i # pushes q" "pushes (WStabilize xs # q) = pushes q"
  "pushes (WDemand i # q) = pushes q" "pushes (q @ q') = pushes q @ pushes q'" "pushes (map WPush xs) = xs"
proof -
  show "pushes (map WPush xs) = xs" by (induction xs) (simp_all add: pushes_def List.map_filter_simps)
qed (simp_all add: pushes_def List.map_filter_simps List.map_filter_def)

text \<open>In front of the wave all edges are open, the edges into its front are closed, and only the front
  may be behind its dependencies.\<close>

definition wave :: "product_time \<Rightarrow> uid \<Rightarrow> uid list \<Rightarrow> world \<Rightarrow> bool" where
  "wave t i xs w \<longleftrightarrow> distinct xs \<and> set xs \<subseteq> below (w_deps w) i - {i}
     \<and> (\<forall>x \<in> set xs. \<forall>a \<in> below (w_deps w) i. x \<in> subs_of (w_deps w) a \<longrightarrow> \<not> gate_open (w_deps w) a x t)
     \<and> (\<forall>x \<in> set xs. \<forall>s \<in> subs_of (w_deps w) x. gate_open (w_deps w) x s t)
     \<and> (\<forall>a \<in> below (w_deps w) i. \<forall>x \<in> subs_of (w_deps w) a. gate_open (w_deps w) a x t
          \<longrightarrow> (\<forall>s \<in> subs_of (w_deps w) x. gate_open (w_deps w) x s t))
     \<and> (\<forall>x. current w x \<or> x \<in> set xs)"

lemma waveD:
  assumes "wave t i xs w"
  shows "distinct xs" "x \<in> set xs \<Longrightarrow> x \<in> below (w_deps w) i" "x \<in> set xs \<Longrightarrow> x \<noteq> i"
    "x \<in> set xs \<Longrightarrow> a \<in> below (w_deps w) i \<Longrightarrow> x \<in> subs_of (w_deps w) a \<Longrightarrow> \<not> gate_open (w_deps w) a x t"
    "x \<in> set xs \<Longrightarrow> s \<in> subs_of (w_deps w) x \<Longrightarrow> gate_open (w_deps w) x s t"
    "a \<in> below (w_deps w) i \<Longrightarrow> x \<in> subs_of (w_deps w) a \<Longrightarrow> gate_open (w_deps w) a x t \<Longrightarrow> s \<in> subs_of (w_deps w) x
      \<Longrightarrow> gate_open (w_deps w) x s t"
    "current w x \<or> x \<in> set xs"
  using assms unfolding wave_def by blast+

text \<open>Stamping closes the edges it stamps and no other.\<close>

lemma stamped_gates:
  assumes "queued_subs i t actx dem r r' xs" "same_topology r r'" "metas_complete r" "b \<in> subs_of r a"
  shows "gate_open r' a b t \<longleftrightarrow> gate_open r a b t \<and> \<not> (a = i \<and> b \<in> set xs)"
proof -
  have "(a, b) \<in> open_edges r' t \<longleftrightarrow> (a, b) \<in> open_edges r t - (\<lambda>s. (i, s)) ` set xs"
    using queued_closes_edges(1)[OF assms(1-3)] by simp
  then show ?thesis using assms(4) same_topology_queries(2)[OF assms(2)] by (auto simp: open_edges_def)
qed

lemma wave_push:
  assumes wf: "world_wf w" and eager: "all_eager (w_deps w)" and metas: "metas_complete (w_deps w)"
    and tree: "single_path (w_deps w) i" and inv: "wave t i (x # xs) w"
    and s: "step_push x t None dem stats w = Some (w', stats', r, evs, work)"
  shows "wave t i (xs @ pushes work) w'"
proof (cases "\<exists>n rule. graph_node (w_graph w) x = Some n \<and> n_kind n = Computed rule")
  case False
  then have "w' = w" "work = []" and "current w x"
    using s by (auto simp: step_push_def current_def split: option.splits node_kind.splits)
  then show ?thesis using inv by (auto simp: wave_def)
next
  case True
  then obtain n rule where n: "graph_node (w_graph w) x = Some n" "n_kind n = Computed rule" by blast
  define v where "v = push_target rule (dep_values w x) (n_value n)"
  have post: "step_post x v t None dem w w' work"
    using step_push_post[OF wf n, of t None dem stats] s by (auto simp: v_def)
  then obtain ys zs where work: "work = map WPush ys @ zs" "zs \<in> {[], [WStabilize (ordered_deps_of (w_deps w) x @ [x])]}"
    "queued_subs x t None dem (w_deps w) (w_deps w') ys" "reaches x v t None dem w ys"
    unfolding step_post_def by blast
  have p: "\<And>y. w_value w' y = (if y = x then v else w_value w y)" "same_topology (w_deps w) (w_deps w')"
    using post by (simp_all add: step_post_def)
  have ys: "pushes work = ys" using work(1,2) by auto
  note gates = stamped_gates[OF work(3) p(2) metas]
  note top = same_topology_queries(2)[OF p(2)] single_path_same(2)[OF p(2)]
  note front = waveD[OF inv]
  have y: "distinct ys" "\<And>s. s \<in> set ys \<Longrightarrow> s \<in> subs_of (w_deps w) x \<and> gate_open (w_deps w) x s t"
    using work(3) accepts_open[OF eager] by (auto simp: queued_subs_def)
  have x: "x \<in> below (w_deps w) i" "x \<noteq> i" "x \<notin> set xs" "x \<notin> subs_of (w_deps w) x"
    using front(2,3)[of x] front(1) no_self_loop[OF tree] by simp_all
  have new: "s \<in> below (w_deps w) i" "s \<noteq> i" "s \<notin> set xs" "s \<noteq> x" if "s \<in> set ys" for s
    using that y(2)[OF that] below_step[OF x(1)] single_pathD(1)[OF tree x(1)] front(4)[of s x] x(1,4) by auto
  show ?thesis
    unfolding ys wave_def top
  proof (intro conjI ballI allI impI)
    show "distinct (xs @ ys)" using front(1) y(1) new(3) by auto
    show "set (xs @ ys) \<subseteq> below (w_deps w) i - {i}" using front(2,3) new(1,2) by auto
  next
    fix s a assume h: "s \<in> set (xs @ ys)" "a \<in> below (w_deps w) i" "s \<in> subs_of (w_deps w) a"
    show "\<not> gate_open (w_deps w') a s t"
      using h gates[OF h(3)] front(4)[of s a] y(2)[of s] single_pathD(2)[OF tree h(2) x(1) h(3)] by auto
  next
    fix s b assume h: "s \<in> set (xs @ ys)" "b \<in> subs_of (w_deps w) s"
    show "gate_open (w_deps w') s b t"
      using h gates[OF h(2)] front(5)[of s b] front(6)[OF x(1), of s b] y(2)[of s] new(4)[of s] x(3) by auto
  next
    fix a b c assume h: "a \<in> below (w_deps w) i" "b \<in> subs_of (w_deps w) a" "gate_open (w_deps w') a b t" "c \<in> subs_of (w_deps w) b"
    have o: "gate_open (w_deps w) a b t" using h(3) gates[OF h(2)] by simp
    then have "b \<noteq> x" using front(4)[of x a] h(1,2) by auto
    then show "gate_open (w_deps w') b c t" using gates[OF h(4)] front(6)[OF h(1,2) o h(4)] by simp
  next
    fix z show "current w' z \<or> z \<in> set (xs @ ys)"
    proof (cases "v \<noteq> w_value w x \<and> x \<in> deps_of (w_deps w) z")
      case True
      then have "z \<in> subs_of (w_deps w) x" using dr_wfD(1)[of "w_deps w" x z] wf by (simp add: world_wf_def)
      then have "z \<in> set ys"
        using work(4) True eager front(5)[of x z] accepts_open[OF eager] by (simp add: reaches_def all_eager_def)
      then show ?thesis by simp
    next
      case False
      then have "z = x \<or> current w z \<Longrightarrow> current w' z"
        using push_current[OF wf n post[unfolded v_def], of z] p(1)[of x] by auto
      then show ?thesis using front(7)[of z] by auto
    qed
  qed
qed

text \<open>No edge has seen a later time than the clock.\<close>

definition seen_by :: "product_time \<Rightarrow> dep_registry \<Rightarrow> bool" where
  "seen_by t r \<longleftrightarrow> (\<forall>a b m. dep_meta_of r a b = Some m \<longrightarrow> time_get (dm_last_seen m) Attribute \<le> time_get t Attribute)"

lemma seen_by_stamped:
  assumes "seen_by t r" "queued_subs i t actx dem r r' xs"
  shows "seen_by t r'"
  unfolding seen_by_def
proof (intro allI impI)
  fix a b m assume "dep_meta_of r' a b = Some m"
  then consider "dep_meta_of r a b = Some m" | m0 where "dep_meta_of r a b = Some m0" "m = stamp t m0"
    using assms(2) by (auto simp: queued_subs_def split: if_splits)
  then show "time_get (dm_last_seen m) Attribute \<le> time_get t Attribute"
    using assms(1) by cases (auto simp: seen_by_def stamp_def time_join_def)
qed

text \<open>What the drain keeps while the wave runs.\<close>

definition wave_world :: "product_time \<Rightarrow> uid \<Rightarrow> work_item list \<Rightarrow> world \<Rightarrow> bool" where
  "wave_world t i q w \<longleftrightarrow> world_wf w \<and> all_eager (w_deps w) \<and> metas_complete (w_deps w) \<and> single_path (w_deps w) i
     \<and> seen_by t (w_deps w) \<and> set q \<subseteq> range WPush \<and> wave t i (pushes q) w"

lemma fold_queue_pushed_events: "fold queue_pushed work (f, pe) = (f', pe') \<Longrightarrow> pe_events pe' = pe_events pe"
  by (induction work arbitrary: f pe) (auto simp: queue_pushed_def Let_def)

text \<open>With all nodes eager a drain item that is a push queues pushes only.\<close>

lemma eager_push_item:
  assumes wf: "world_wf w" and eager: "all_eager (w_deps w)" and none: "set handled \<subseteq> {0}"
  shows "\<exists>f' pe' w' stats' r evs ys. drain_item t None handled (WPush x) f pe w = Some (f', pe', w')
    \<and> step_push x t None (pe_demanded pe) (pe_stats pe) w = Some (w', stats', r, evs, map WPush ys)
    \<and> pe_queue pe' = pe_queue pe @ map WPush ys \<and> pe_events pe' = pe_events pe @ evs
    \<and> kept w w' \<and> queued_subs x t None (pe_demanded pe) (w_deps w) (w_deps w') ys"
proof -
  obtain w' stats' r evs ys zs where s: "step_push x t None (pe_demanded pe) (pe_stats pe) w
      = Some (w', stats', r, evs, map WPush ys @ zs)" "kept w w'"
    "queued_subs x t None (pe_demanded pe) (w_deps w) (w_deps w') ys"
    "zs \<in> {[], [WStabilize (ordered_deps_of (w_deps w) x @ [x])]}"
    using step_push_any[OF wf, of x t None "pe_demanded pe" "pe_stats pe"] by meson
  have "\<forall>z \<in> set zs. \<not> is_stab z"
    using step_push_quiet[OF s(1)] eager by (simp add: quiet_result_def all_eager_def)
  then have zs: "zs = []" using s(4) by (auto simp: is_stab_def)
  obtain f' pe' where q: "fold queue_pushed (map WPush ys) (f, pe\<lparr>pe_stats := stats', pe_events := pe_events pe @ evs\<rparr>) = (f', pe')"
    "pe_queue pe' = pe_queue pe @ map WPush ys"
    using fold_queue_pushed[of "map WPush ys" f "pe\<lparr>pe_stats := stats', pe_events := pe_events pe @ evs\<rparr>"] by auto
  have "drain_item t None handled (WPush x) f pe w = Some (f', pe', w')"
    using s(1) zs q(1) by (simp add: drain_item_def no_skip[OF none])
  moreover have "pe_events pe' = pe_events pe @ evs"
    using fold_queue_pushed_events[OF q(1)] by simp
  ultimately show ?thesis using s(1-3) zs q(2) by auto
qed

section \<open>The write that starts the wave\<close>

definition attribute_edges :: "dep_registry \<Rightarrow> bool" where
  "attribute_edges r \<longleftrightarrow> (\<forall>a b m. dep_meta_of r a b = Some m
     \<longrightarrow> dims_contains (pm_dims (projection_mask (dm_label m))) Attribute)"

lemma attribute_edges_same:
  assumes "same_topology r r'" "attribute_edges r"
  shows "attribute_edges r'"
  unfolding attribute_edges_def
proof (intro allI impI)
  fix a b m assume m: "dep_meta_of r' a b = Some m"
  have "map_option dm_label (dep_meta_of r' a b) = map_option dm_label (dep_meta_of r a b)"
    using assms(1) by (simp add: same_topology_def)
  then obtain m0 where "dep_meta_of r a b = Some m0" "dm_label m0 = dm_label m"
    using m by (cases "dep_meta_of r a b") auto
  then show "dims_contains (pm_dims (projection_mask (dm_label m))) Attribute"
    using assms(2) unfolding attribute_edges_def by metis
qed

text \<open>After a tick of the attribute clock every edge is open.\<close>

lemma ticked_open:
  assumes "seen_by t r" "attribute_edges r" "time_get t Attribute \<noteq> - 1"
  shows "gate_open r a b (time_advance t Attribute)" "seen_by (time_advance t Attribute) r"
proof -
  have less: "attribute t < attribute t + 1" using word_max_not_less[of "attribute t"] assms(3) by simp
  have seen: "attribute (dm_last_seen m) \<le> attribute t" if "dep_meta_of r a b = Some m" for a b m
    using assms(1) that by (simp add: seen_by_def)
  have "should_propagate m (time_advance t Attribute)" if m: "dep_meta_of r a b = Some m" for m
    using assms(2) m le_less_trans[OF seen[OF m] less]
    unfolding should_propagate_iff attribute_edges_def by (intro exI[of _ Attribute]) simp
  then show "gate_open r a b (time_advance t Attribute)" by (simp add: gate_open_def split: option.split)
  show "seen_by (time_advance t Attribute) r"
    using less_imp_le[OF le_less_trans[OF seen less]] by (simp add: seen_by_def)
qed

lemma write_wave:
  assumes wf: "world_wf (en_world e)" and wd: "write_done i old v e e3 xs"
    and eager: "all_eager (en_deps e)" and metas: "metas_complete (en_deps e)" and cur: "\<forall>x. current (en_world e) x"
    and inp: "graph_node (en_graph e) i = Some n" "n_kind n = Input" and tree: "single_path (en_deps e) i"
    and seen: "seen_by (en_time e) (en_deps e)" "attribute_edges (en_deps e)" "attribute (en_time e) \<noteq> - 1"
  shows "wave_world (en_time e3) i (map WPush xs) (en_world e3)"
proof -
  have f: "world_wf (en_world e3)" "same_topology (en_deps e) (en_deps e3)" "en_time e3 = time_advance (en_time e) Attribute"
    "queued_subs i (en_time e3) None {} (en_deps e) (en_deps e3) xs"
    "set xs = {s \<in> subs_of (en_deps e) i. accepts i (en_time e3) None {} (en_deps e) s}"
    using wd unfolding write_done_def by blast+
  have open_all: "gate_open (en_deps e) a b (en_time e3)" for a b
    unfolding f(3) by (rule ticked_open(1)[OF seen(1,2)]) (use seen(3) in simp)
  have xs: "distinct xs" "set xs = subs_of (en_deps e) i"
    using f(4,5) open_all accepts_open[OF eager] by (auto simp: queued_subs_def)
  have gates: "gate_open (en_deps e3) a b (en_time e3) \<longleftrightarrow> a \<noteq> i" if "b \<in> subs_of (en_deps e) a" for a b
    using stamped_gates[OF f(4,2) metas that] open_all that xs(2) by auto
  note top = same_topology_queries(2)[OF f(2)] single_path_same(2)[OF f(2)]
  have feed: "i \<notin> subs_of (en_deps e) a" if "a \<in> below (en_deps e) i" for a by (rule single_pathD(1)[OF tree that])
  have "current (en_world e3) x \<or> x \<in> set xs" for x
  proof (cases "i \<in> deps_of (en_deps e) x")
    case True
    then show ?thesis using dr_wfD(1)[of "en_deps e" i x] wf xs(2) by (simp add: world_wf_def)
  next
    case False
    then show ?thesis using write_current[OF wf wd cur[THEN spec, of x] inp] by blast
  qed
  moreover have "\<forall>x \<in> set xs. \<forall>a \<in> below (en_deps e) i. x \<in> subs_of (en_deps e) a \<longrightarrow> \<not> gate_open (en_deps e3) a x (en_time e3)"
    using gates single_pathD(2)[OF tree below_source] xs(2) by blast
  moreover have "\<forall>x \<in> set xs. \<forall>s \<in> subs_of (en_deps e) x. gate_open (en_deps e3) x s (en_time e3)"
    using gates xs(2) feed[OF below_source] by blast
  moreover have "\<forall>a \<in> below (en_deps e) i. \<forall>x \<in> subs_of (en_deps e) a. \<forall>s \<in> subs_of (en_deps e) x.
      gate_open (en_deps e3) x s (en_time e3)"
    using gates feed by blast
  moreover have "set xs \<subseteq> below (en_deps e) i - {i}"
    using xs(2) below_step[OF below_source] feed[OF below_source] by blast
  ultimately have "wave (en_time e3) i xs (en_world e3)"
    using xs(1) unfolding wave_def top by blast
  moreover have "seen_by (en_time e3) (en_deps e3)"
    by (rule seen_by_stamped[OF _ f(4)]) (use ticked_open(2)[OF seen(1,2)] seen(3) f(3) in simp)
  ultimately show ?thesis
    using f(1) eager same_topology_queries(3)[OF f(2)] queued_closes_edges(3)[OF f(4,2) metas] tree single_path_same(1)[OF f(2)]
    by (auto simp: wave_world_def all_eager_def)
qed

section \<open>What the events report\<close>

text \<open>The changes among the events: node, old value, new value.\<close>

definition changes :: "prop_event list \<Rightarrow> (uid \<times> T \<times> T) list" where
  "changes evs = List.map_filter (\<lambda>ev. case ev of ValueChanged x a b \<Rightarrow> Some (x, a, b) | _ \<Rightarrow> None) evs"

lemma changes_append [simp]: "changes [] = []" "changes (evs @ evs') = changes evs @ changes evs'"
  "changes (ev # evs) = (case ev of ValueChanged x a b \<Rightarrow> (x, a, b) # changes evs | _ \<Rightarrow> changes evs)"
  by (simp_all add: changes_def List.map_filter_def split: prop_event.split)

lemma visit_subs_events: "pl_events (visit_subs i t None dem counting offering old new L) = pl_events L"
proof -
  have "pl_events (fold (visit_sub i t None dem counting offering old new) xs L) = pl_events L" for xs
    by (induction xs arbitrary: L) (simp_all add: visit_sub_def offer_push_def try_auth_def Let_def)
  then show ?thesis by (simp add: visit_subs_def)
qed

lemma materialize_changes:
  "materialize i old new evs stats w = Some (w1, s1, e1) \<Longrightarrow> changes e1 = changes evs @ (if new \<noteq> old then [(i, old, new)] else [])"
  by (auto simp: materialize_def split: if_splits)

text \<open>What one push reports: the change of its node to the value it returns, or nothing.\<close>

definition reports :: "uid \<Rightarrow> T \<Rightarrow> world \<Rightarrow> step_result \<Rightarrow> bool" where
  "reports x old w res \<longleftrightarrow> (case res of (w', stats', r, evs, work) \<Rightarrow>
     (case r of None \<Rightarrow> evs = [] \<and> w' = w
      | Some new \<Rightarrow> changes evs = (if new \<noteq> old then [(x, old, new)] else [])))"

lemma scan_reports:
  assumes "push_by_scan x rule old vals t None dem stats w = Some res"
  shows "reports x old w res"
proof (cases "propagation_state vals")
  case Pending
  then show ?thesis using assms by (auto simp: push_by_scan_def reports_def)
next
  case Ready
  then show ?thesis
    using assms by (auto simp: push_by_scan_def reports_def finish_loop_def visit_subs_events Let_def materialize_changes split: if_splits)
next
  case Conflicted
  then obtain w1 s1 e1 where m: "materialize x old Zero [BochvarInfected x None] stats w = Some (w1, s1, e1)"
    using assms by (auto simp: push_by_scan_def)
  then have e: "changes e1 = (if Zero \<noteq> old then [(x, old, Zero)] else [])" by (simp add: materialize_changes)
  show ?thesis
    using assms Conflicted m e
    by (cases "mode_of (w_deps w1) x") (auto simp: push_by_scan_def reports_def finish_loop_def visit_subs_events Let_def)
qed

lemma counter_reports:
  assumes "push_by_counter x old new t None dem stats w = Some res"
  shows "reports x old w res"
proof (cases new)
  case Zero
  then obtain w1 s1 e1 where m: "materialize x old Zero [BochvarInfected x None] stats w = Some (w1, s1, e1)"
    using assms by (auto simp: push_by_counter_def)
  then have "changes e1 = (if Zero \<noteq> old then [(x, old, Zero)] else [])" by (simp add: materialize_changes)
  then show ?thesis using assms Zero m by (auto simp: push_by_counter_def reports_def finish_loop_def visit_subs_events)
next
  case Pos
  show ?thesis
  proof (cases "Pos = old")
    case False
    then obtain w1 s1 e1 where m: "materialize x old Pos [] stats w = Some (w1, s1, e1)"
      using assms Pos by (auto simp: push_by_counter_def)
    then have "changes e1 = [(x, old, Pos)]" using False by (simp add: materialize_changes)
    then show ?thesis using assms Pos m False by (auto simp: push_by_counter_def reports_def finish_loop_def visit_subs_events)
  qed (use assms Pos in \<open>auto simp: push_by_counter_def reports_def\<close>)
qed (use assms in \<open>auto simp: push_by_counter_def reports_def\<close>)

text \<open>A push reports a change of its node exactly when it makes one.\<close>

lemma step_push_changes:
  assumes wf: "world_wf w" and s: "step_push x t None dem stats w = Some (w', stats', r, evs, work)"
  shows "changes evs = (if w_value w' x \<noteq> w_value w x then [(x, w_value w x, w_value w' x)] else [])"
proof (cases "\<exists>n rule. graph_node (w_graph w) x = Some n \<and> n_kind n = Computed rule")
  case False
  then show ?thesis using s by (auto simp: step_push_def split: option.splits node_kind.splits)
next
  case True
  then obtain n rule where n: "graph_node (w_graph w) x = Some n" "n_kind n = Computed rule" by blast
  have old: "w_value w x = n_value n" by (rule value_of_node[OF wf n(1)])
  have post: "w_value w' x = push_target rule (dep_values w x) (n_value n)"
    "r \<noteq> None \<longrightarrow> r = Some (push_target rule (dep_values w x) (n_value n))"
    using step_push_post[OF wf n, of t None dem stats] s by (auto simp: step_post_def)
  have "reports x (n_value n) w (w', stats', r, evs, work)"
  proof (cases "counter_shortcut (w_deps w) x rule")
    case None
    then obtain vals where "push_by_scan x rule (n_value n) vals t None dem stats w = Some (w', stats', r, evs, work)"
      using s n by (cases "read_dep_vals w x") (simp_all add: step_push_def)
    then show ?thesis by (rule scan_reports)
  next
    case (Some ctrs)
    then show ?thesis using s n by (intro counter_reports) (simp add: step_push_def)
  qed
  then show ?thesis using post old by (cases r) (auto simp: reports_def)
qed

section \<open>One report per changed node\<close>

text \<open>The changes reported so far are those that the values show, once each, and a changed node is behind
  the wave.\<close>

definition told :: "(uid \<Rightarrow> T) \<Rightarrow> product_time \<Rightarrow> uid \<Rightarrow> uid list \<Rightarrow> prop_event list \<Rightarrow> world \<Rightarrow> bool" where
  "told v0 t i xs evs w \<longleftrightarrow> distinct (map fst (changes evs))
     \<and> set (changes evs) = {(x, v0 x, w_value w x) |x. w_value w x \<noteq> v0 x}
     \<and> (\<forall>x. w_value w x \<noteq> v0 x \<longrightarrow> x \<notin> set xs \<and> x \<in> below (w_deps w) i
          \<and> (\<forall>a \<in> below (w_deps w) i. x \<in> subs_of (w_deps w) a \<longrightarrow> \<not> gate_open (w_deps w) a x t))"

lemma push_frontier:
  assumes wf: "world_wf w" and eager: "all_eager (w_deps w)" and metas: "metas_complete (w_deps w)"
    and s: "step_push x t None dem stats w = Some (w', stats', r, evs, work)"
  shows "same_topology (w_deps w) (w_deps w')" "y \<noteq> x \<Longrightarrow> w_value w' y = w_value w y"
    "y \<in> set (pushes work) \<Longrightarrow> y \<in> subs_of (w_deps w) x \<and> gate_open (w_deps w) x y t"
    "b \<in> subs_of (w_deps w) a \<Longrightarrow> gate_open (w_deps w') a b t \<Longrightarrow> gate_open (w_deps w) a b t"
proof -
  obtain ys zs where p: "kept w w'" "work = map WPush ys @ zs" "zs \<in> {[], [WStabilize (ordered_deps_of (w_deps w) x @ [x])]}"
    "queued_subs x t None dem (w_deps w) (w_deps w') ys"
    using step_push_any[OF wf, of x t None dem stats] s by auto
  show top: "same_topology (w_deps w) (w_deps w')" using p(1) by (simp add: kept_def)
  have "pushes work = ys" using p(2,3) by auto
  then show "y \<in> set (pushes work) \<Longrightarrow> y \<in> subs_of (w_deps w) x \<and> gate_open (w_deps w) x y t"
    using p(4) accepts_open[OF eager] by (auto simp: queued_subs_def)
  show "b \<in> subs_of (w_deps w) a \<Longrightarrow> gate_open (w_deps w') a b t \<Longrightarrow> gate_open (w_deps w) a b t"
    using stamped_gates[OF p(4) top metas] by blast
  show "y \<noteq> x \<Longrightarrow> w_value w' y = w_value w y"
  proof (cases "\<exists>n rule. graph_node (w_graph w) x = Some n \<and> n_kind n = Computed rule")
    case True
    then show "y \<noteq> x \<Longrightarrow> w_value w' y = w_value w y"
      using step_push_post[OF wf, of x _ _ t None dem stats] s by (auto simp: step_post_def)
  qed (use s in \<open>auto simp: step_push_def split: option.splits node_kind.splits\<close>)
qed

lemma told_push:
  assumes wf: "world_wf w" and eager: "all_eager (w_deps w)" and metas: "metas_complete (w_deps w)"
    and tree: "single_path (w_deps w) i" and inv: "wave t i (x # xs) w" and told: "told v0 t i (x # xs) evs0 w"
    and s: "step_push x t None dem stats w = Some (w', stats', r, evs, work)"
  shows "told v0 t i (xs @ pushes work) (evs0 @ evs) w'"
proof -
  note push = push_frontier[OF wf eager metas s]
  note top = same_topology_queries(2)[OF push(1)] single_path_same(2)[OF push(1)]
  note front = waveD[OF inv]
  have x: "x \<in> below (w_deps w) i" "x \<notin> set xs" "x \<notin> subs_of (w_deps w) x" "w_value w x = v0 x"
    using front(1,2) no_self_loop[OF tree] told by (auto simp: told_def)
  have t: "distinct (map fst (changes evs0))" "set (changes evs0) = {(x, v0 x, w_value w x) |x. w_value w x \<noteq> v0 x}"
    "\<And>y. w_value w y \<noteq> v0 y \<Longrightarrow> y \<notin> set xs \<and> y \<in> below (w_deps w) i
          \<and> (\<forall>a \<in> below (w_deps w) i. y \<in> subs_of (w_deps w) a \<longrightarrow> \<not> gate_open (w_deps w) a y t)"
    using told by (simp_all add: told_def)
  have c: "changes evs = (if w_value w' x \<noteq> v0 x then [(x, v0 x, w_value w' x)] else [])"
    using step_push_changes[OF wf s] x(4) by simp
  have fresh: "x \<notin> fst ` set (changes evs0)" using x(4) unfolding t(2) by auto
  have set: "set (changes evs0) \<union> set (changes evs) = {(y, v0 y, w_value w' y) |y. w_value w' y \<noteq> v0 y}"
  proof (intro set_eqI)
    fix p :: "uid \<times> T \<times> T"
    obtain y a b where p: "p = (y, a, b)" by (cases p)
    show "p \<in> set (changes evs0) \<union> set (changes evs) \<longleftrightarrow> p \<in> {(y, v0 y, w_value w' y) |y. w_value w' y \<noteq> v0 y}"
      using push(2)[of y] x(4) unfolding t(2) c p by (cases "y = x") auto
  qed
  have behind: "y \<notin> set (xs @ pushes work) \<and> y \<in> below (w_deps w) i
      \<and> (\<forall>a \<in> below (w_deps w) i. y \<in> subs_of (w_deps w) a \<longrightarrow> \<not> gate_open (w_deps w') a y t)" if y: "w_value w' y \<noteq> v0 y" for y
  proof -
    have old: "y \<in> below (w_deps w) i" "y \<notin> set xs"
      "\<And>a. a \<in> below (w_deps w) i \<Longrightarrow> y \<in> subs_of (w_deps w) a \<Longrightarrow> \<not> gate_open (w_deps w) a y t"
      using t(3)[of y] y push(2)[of y] x(1,2) front(4)[of x] by (cases "y = x"; simp)+
    then show ?thesis using push(3)[of y] push(4) x(1) by auto
  qed
  show ?thesis
    unfolding told_def top using t(1) fresh c set behind by (auto simp: set[symmetric])
qed

text \<open>The nodes pushed so far: each once, none of them to be pushed again.\<close>

definition visited :: "product_time \<Rightarrow> uid \<Rightarrow> uid list \<Rightarrow> uid list \<Rightarrow> world \<Rightarrow> bool" where
  "visited t i ps xs w \<longleftrightarrow> distinct (ps @ xs) \<and> set (ps @ xs) \<subseteq> below (w_deps w) i - {i}
     \<and> (\<forall>x \<in> set ps. \<forall>a \<in> below (w_deps w) i. x \<in> subs_of (w_deps w) a \<longrightarrow> \<not> gate_open (w_deps w) a x t)"

lemma visited_push:
  assumes wf: "world_wf w" and eager: "all_eager (w_deps w)" and metas: "metas_complete (w_deps w)"
    and tree: "single_path (w_deps w) i" and inv: "wave t i (x # xs) w" and vis: "visited t i ps (x # xs) w"
    and s: "step_push x t None dem stats w = Some (w', stats', r, evs, work)"
    and next_wave: "wave t i (xs @ pushes work) w'"
  shows "visited t i (ps @ [x]) (xs @ pushes work) w'"
proof -
  note push = push_frontier[OF wf eager metas s]
  note top = same_topology_queries(2)[OF push(1)] single_path_same(2)[OF push(1)]
  note front = waveD[OF inv]
  have x: "x \<in> below (w_deps w) i" "x \<notin> subs_of (w_deps w) x"
    using front(2)[of x] no_self_loop[OF tree] by simp_all
  have v: "distinct (ps @ x # xs)" "set (ps @ x # xs) \<subseteq> below (w_deps w) i - {i}"
    "\<And>y a. y \<in> set ps \<Longrightarrow> a \<in> below (w_deps w) i \<Longrightarrow> y \<in> subs_of (w_deps w) a \<Longrightarrow> \<not> gate_open (w_deps w) a y t"
    using vis by (simp_all add: visited_def)
  have fresh: "y \<notin> set ps \<and> y \<noteq> x" if "y \<in> set (pushes work)" for y
    using push(3)[OF that] v(3)[of y x] x by blast
  have wave': "distinct (xs @ pushes work)" "set (xs @ pushes work) \<subseteq> below (w_deps w) i - {i}"
    using next_wave top by (simp_all add: wave_def)
  have "\<not> gate_open (w_deps w') a y t" if "y \<in> set (ps @ [x])" "a \<in> below (w_deps w) i" "y \<in> subs_of (w_deps w) a" for y a
  proof -
    have "\<not> gate_open (w_deps w) a y t" using that v(3)[of y a] front(4)[of x a] by auto
    then show ?thesis using push(4)[OF that(3)] by blast
  qed
  moreover have "distinct ((ps @ [x]) @ xs @ pushes work)"
    using v(1) wave'(1) fresh by auto
  ultimately show ?thesis using v(2) wave'(2) unfolding visited_def top by auto
qed

text \<open>One step of the drain: all three invariants, and one more node visited.\<close>

lemma wave_step:
  assumes inv: "wave_world t i (item # pe_queue pe) w" and none: "set handled \<subseteq> {0}"
    and told: "told v0 t i (pushes (item # pe_queue pe)) (pe_events pe) w"
    and vis: "visited t i ps (pushes (item # pe_queue pe)) w"
  shows "\<exists>x f' pe' w'. drain_item t None handled item f pe w = Some (f', pe', w') \<and> kept w w'
    \<and> wave_world t i (pe_queue pe') w' \<and> told v0 t i (pushes (pe_queue pe')) (pe_events pe') w'
    \<and> visited t i (ps @ [x]) (pushes (pe_queue pe')) w'"
proof -
  obtain x where x: "item = WPush x" using inv by (auto simp: wave_world_def)
  have w: "world_wf w" "all_eager (w_deps w)" "metas_complete (w_deps w)" "single_path (w_deps w) i"
    "wave t i (x # pushes (pe_queue pe)) w" "seen_by t (w_deps w)" "set (pe_queue pe) \<subseteq> range WPush"
    using inv by (simp_all add: wave_world_def x)
  obtain f' pe' w' stats' r evs ys where s: "drain_item t None handled (WPush x) f pe w = Some (f', pe', w')"
    "step_push x t None (pe_demanded pe) (pe_stats pe) w = Some (w', stats', r, evs, map WPush ys)"
    "pe_queue pe' = pe_queue pe @ map WPush ys" "pe_events pe' = pe_events pe @ evs"
    "kept w w'" "queued_subs x t None (pe_demanded pe) (w_deps w) (w_deps w') ys"
    using eager_push_item[OF w(1,2) none, of t x f pe] by blast
  have top: "same_topology (w_deps w) (w_deps w')" using s(5) by (simp add: kept_def)
  have wave': "wave t i (pushes (pe_queue pe) @ pushes (map WPush ys)) w'"
    by (rule wave_push[OF w(1-5) s(2)])
  have "wave_world t i (pe_queue pe') w'"
    using w wave' s(3,5) seen_by_stamped[OF w(6) s(6)] queued_closes_edges(3)[OF s(6) top w(3)]
      single_path_same(1)[OF top] same_topology_queries(3)[OF top]
    by (auto simp: wave_world_def kept_def all_eager_def)
  moreover have "told v0 t i (pushes (pe_queue pe')) (pe_events pe') w'"
    using told_push[OF w(1-5) _ s(2)] told s(3,4) by (simp add: x)
  moreover have "visited t i (ps @ [x]) (pushes (pe_queue pe')) w'"
    using visited_push[OF w(1-5) _ s(2) wave'] vis s(3) by (simp add: x)
  ultimately show ?thesis using s(1,5) x by blast
qed

text \<open>The whole drain takes one step per node visited, hence at most one for each node below the source.\<close>

lemma wave_drain:
  assumes "wave_world t i (pe_queue pe) w" "set handled \<subseteq> {0}" "told v0 t i (pushes (pe_queue pe)) (pe_events pe) w"
    and "card (below (w_deps w) i - {i}) \<le> mx"
  shows "\<exists>pe' w'. drain t None handled mx pe w = Some (Inr (), pe', w') \<and> pe_queue pe' = []
    \<and> wave_world t i [] w' \<and> told v0 t i [] (pe_events pe') w'"
proof -
  define B where "B = below (w_deps w) i - {i}"
  define I where "I = (\<lambda>n q evs w1. wave_world t i q w1 \<and> told v0 t i (pushes q) evs w1 \<and> below (w_deps w1) i - {i} = B
    \<and> (\<exists>ps. visited t i ps (pushes q) w1 \<and> length ps + n = card B))"
  have "\<exists>k f' pe' w'. n = Suc k \<and> drain_item t None handled item f pe w = Some (f', pe', w')
      \<and> I k (pe_queue pe') (pe_events pe') w'" if inv: "I n (item # pe_queue pe) (pe_events pe) w" for n item f pe w
  proof -
    obtain ps where ps: "wave_world t i (item # pe_queue pe) w" "told v0 t i (pushes (item # pe_queue pe)) (pe_events pe) w"
      "visited t i ps (pushes (item # pe_queue pe)) w" "length ps + n = card B" "below (w_deps w) i - {i} = B"
      using inv by (auto simp: I_def)
    obtain x f' pe' w' where s: "drain_item t None handled item f pe w = Some (f', pe', w')" "kept w w'"
      "wave_world t i (pe_queue pe') w'" "told v0 t i (pushes (pe_queue pe')) (pe_events pe') w'"
      "visited t i (ps @ [x]) (pushes (pe_queue pe')) w'"
      using wave_step[OF ps(1) assms(2) ps(2,3), of f] by blast
    have b: "below (w_deps w') i - {i} = B"
      using s(2) ps(5) single_path_same(2) by (auto simp: kept_def)
    have "distinct (ps @ [x])" "set (ps @ [x]) \<subseteq> B" using s(5) b by (auto simp: visited_def)
    then have "length (ps @ [x]) \<le> card B" using card_mono[of B "set (ps @ [x])"] by (simp add: distinct_card)
    then obtain k where k: "n = Suc k" using ps(4) by (cases n) simp_all
    then have "I k (pe_queue pe') (pe_events pe') w'"
      using s(3-5) b ps(4) unfolding I_def by (intro conjI exI[of _ "ps @ [x]"]) simp_all
    then show ?thesis using s(1) k by blast
  qed
  moreover have "visited t i [] (pushes (pe_queue pe)) w"
    using assms(1) by (simp add: visited_def wave_world_def wave_def)
  then have "I (card B) (pe_queue pe) (pe_events pe) w"
    using assms(1,3) unfolding I_def by (intro conjI exI[of _ "[]"]) (simp_all add: B_def)
  ultimately obtain k pe' w' where "drain t None handled mx pe w = Some (Inr (), pe', w')" "pe_queue pe' = []"
    "I k [] (pe_events pe') w'"
    using drain_steps[where I = I, of t handled "card B" pe w mx] assms(4) by (auto simp: B_def)
  then show ?thesis by (auto simp: I_def)
qed

lemma write_told:
  assumes wd: "write_done i old v e e3 xs" and rest: "at_rest e" and new: "v \<noteq> old" "w_value (en_world e) i = old"
    and tree: "single_path (en_deps e) i"
  shows "told (w_value (en_world e)) (en_time e3) i xs (pe_events (en_prop e3)) (en_world e3)"
proof -
  have f: "\<And>x. w_value (en_world e3) x = (if x = i then v else w_value (en_world e) x)"
    "same_topology (en_deps e) (en_deps e3)" "set xs \<subseteq> subs_of (en_deps e) i"
    "pe_events (en_prop e3) = [ValueChanged i old v]"
    using wd rest unfolding write_done_def at_rest_def by auto
  note top = same_topology_queries(2)[OF f(2)] single_path_same(2)[OF f(2)]
  show ?thesis
    using f(1,3,4) new single_pathD(1)[OF tree] below_source[of i "en_deps e"] unfolding told_def top by (auto split: if_splits)
qed

section \<open>A history of writes\<close>

text \<open>An engine at rest with everything at its value and room for \<open>k\<close> more ticks.\<close>

definition tree_ready :: "nat \<Rightarrow> engine \<Rightarrow> bool" where
  "tree_ready k e \<longleftrightarrow> at_rest e \<and> en_mode e = Advisory \<and> set (en_handled e) \<subseteq> {0}
     \<and> all_eager (en_deps e) \<and> metas_complete (en_deps e) \<and> attribute_edges (en_deps e) \<and> seen_by (en_time e) (en_deps e)
     \<and> unat (attribute (en_time e)) + k < 2 ^ 64 \<and> (\<forall>x. current (en_world e) x)"

lemma tree_ready_less: "tree_ready k e \<Longrightarrow> j \<le> k \<Longrightarrow> tree_ready j e"
  by (simp add: tree_ready_def)

lemma no_events [simp]: "at_rest e \<Longrightarrow> e\<lparr>en_prop := (en_prop e)\<lparr>pe_events := []\<rparr>\<rparr> = e"
  by (rule clear_no_events) (simp add: at_rest_def)

definition same_kinds :: "engine \<Rightarrow> engine \<Rightarrow> bool" where
  "same_kinds e e' \<longleftrightarrow> (\<forall>x. map_option n_kind (graph_node (en_graph e') x) = map_option n_kind (graph_node (en_graph e) x))"

lemma same_kinds_input: "same_kinds e e' \<Longrightarrow> is_input (en_world e') x = is_input (en_world e) x"
  unfolding same_kinds_def is_input_def
  by (cases "graph_node (en_graph e') x"; cases "graph_node (en_graph e) x") (auto dest: spec[of _ x])

interpretation kinds: frame same_kinds
  by unfold_locales (simp_all add: same_kinds_def)

text \<open>The drain of one write, and what it has told.\<close>

lemma tree_drain:
  assumes e: "tree_ready (Suc k) e" and wd: "write_done i (n_value n) v e e3 xs" and new: "v \<noteq> n_value n"
    and n: "graph_node (en_graph e) i = Some n" "n_kind n = Input" and tree: "single_path (en_deps e) i"
    and small: "card (below (en_deps e) i - {i}) \<le> en_max_steps e"
    and d: "drain (en_time e3) None (en_handled e) (en_max_steps e) (en_prop e3) (en_world e3) = Some (res, pe, w')"
  shows "res = Inr ()" "pe_queue pe = []" "wave_world (en_time e3) i [] w'"
    "told (w_value (en_world e)) (en_time e3) i [] (pe_events pe) w'" "kept (en_world e3) w'"
proof -
  let ?t = "en_time e3" and ?pe = "en_prop e3"
  have r: "at_rest e" "set (en_handled e) \<subseteq> {0}" "all_eager (en_deps e)" "metas_complete (en_deps e)"
    "attribute_edges (en_deps e)" "seen_by (en_time e) (en_deps e)" "unat (attribute (en_time e)) + Suc k < 2 ^ 64"
    "\<forall>x. current (en_world e) x"
    using e by (simp_all add: tree_ready_def)
  have wf: "world_wf (en_world e)" using r(1) by (simp add: at_rest_def)
  have tick: "attribute (en_time e) \<noteq> - 1" using r(7) by (auto simp: unsigned_minus_1_eq_mask mask_eq_exp_minus_1)
  have w: "world_wf (en_world e3)" "same_topology (en_deps e) (en_deps e3)" "pe_queue ?pe = map WPush xs"
    using wd r(1) by (simp_all add: write_done_def at_rest_def)
  have wave: "wave_world ?t i (pe_queue ?pe) (en_world e3)"
    unfolding w(3) by (rule write_wave[OF wf wd r(3,4,8) n tree r(6,5) tick])
  have told: "told (w_value (en_world e)) ?t i (pushes (pe_queue ?pe)) (pe_events ?pe) (en_world e3)"
    using write_told[OF wd r(1) new value_of_node[OF wf n(1)] tree] by (simp add: w(3))
  have "card (below (en_deps e3) i - {i}) \<le> en_max_steps e"
    using small single_path_same(2)[OF w(2)] by simp
  from wave_drain[OF wave r(2) told this] d
  show "res = Inr ()" "pe_queue pe = []" "wave_world ?t i [] w'" "told (w_value (en_world e)) ?t i [] (pe_events pe) w'"
    by auto
  show "kept (en_world e3) w'"
    using drain_keeps[OF w(1), of ?t None "en_handled e" "en_max_steps e" ?pe] d by auto
qed

lemma tree_write:
  assumes e: "tree_ready (Suc k) e" and inp: "is_input (en_world e) i" and tree: "single_path (en_deps e) i"
    and small: "card (below (en_deps e) i - {i}) \<le> en_max_steps e"
  shows "\<exists>e' evs. engine_apply S (SetValue i v) e = Some (e', Inr evs) \<and> tree_ready k e' \<and> en_max_steps e' = en_max_steps e
    \<and> same_topology (en_deps e) (en_deps e') \<and> same_kinds e e'
    \<and> (\<forall>x. is_input (en_world e) x \<longrightarrow> w_value (en_world e') x = (if x = i then v else w_value (en_world e) x))
    \<and> distinct (map fst (changes evs))
    \<and> set (changes evs) = {(x, w_value (en_world e) x, w_value (en_world e') x) |x. w_value (en_world e') x \<noteq> w_value (en_world e) x}
    \<and> fst ` set (changes evs) \<subseteq> below (en_deps e) i"
proof -
  have r: "at_rest e" "en_mode e = Advisory" "set (en_handled e) \<subseteq> {0}" "all_eager (en_deps e)" "metas_complete (en_deps e)"
    "attribute_edges (en_deps e)" "seen_by (en_time e) (en_deps e)" "unat (attribute (en_time e)) + Suc k < 2 ^ 64"
    "\<forall>x. current (en_world e) x"
    using e by (simp_all add: tree_ready_def)
  have wf: "world_wf (en_world e)" using r(1) by (simp add: at_rest_def)
  obtain n where n: "graph_node (en_graph e) i = Some n" "n_kind n = Input" using inp by (auto simp: is_input_def)
  have tick: "attribute (en_time e) \<noteq> - 1" using r(8) by (auto simp: unsigned_minus_1_eq_mask mask_eq_exp_minus_1)
  show ?thesis
  proof (cases "v = n_value n")
    case True
    have "engine_apply S (SetValue i v) e = Some (e, Inr [])"
      using n(1) True r(1) by (simp add: engine_apply_def op_set_value_def done_op_def at_rest_def)
    moreover have "w_value (en_world e) i = v" using value_of_node[OF wf n(1)] True by simp
    ultimately show ?thesis using tree_ready_less[OF e, of k] by (intro exI[of _ e] exI[of _ "[]"]) (auto intro: kinds.same)
  next
    case False
    obtain e3 xs res pe e' r' where f: "write_done i (n_value n) v e e3 xs"
      "drain (en_time e3) (engine_auth e3) (en_handled e) (en_max_steps e) (en_prop e3) (en_world e3)
        = Some (res, pe, en_world e')"
      "op_set_value S i v e = Some (e', r')" "en_prop e' = pe"
      "r' = (case res of Inl err \<Rightarrow> Inl (PropErr err) | Inr u \<Rightarrow> Inr u)" "en_time e' = en_time e3"
      "en_mode e' = en_mode e" "en_max_steps e' = en_max_steps e" "no_regions e'" "set (en_handled e') \<subseteq> {0}"
      using set_value_drains[OF r(1) all_eager_unstabilized[OF r(4)] n(1) False, of S] r(3) by blast
    have w: "world_wf (en_world e3)" "same_topology (en_deps e) (en_deps e3)" "en_time e3 = time_advance (en_time e) Attribute"
      "\<forall>x. w_value (en_world e3) x = (if x = i then v else w_value (en_world e) x)" "en_mode e3 = en_mode e"
      "\<forall>x. map_option n_kind (graph_node (en_graph e3) x) = map_option n_kind (graph_node (en_graph e) x)"
      using f(1) r(1) by (simp_all add: write_done_def at_rest_def)
    have auth: "engine_auth e3 = None" using w(5) r(2) by (simp add: engine_auth_def)
    have inputs: "is_input (en_world e3) x = is_input (en_world e) x" for x
      by (rule same_kinds_input) (simp add: same_kinds_def w(6))
    have d: "drain (en_time e3) None (en_handled e) (en_max_steps e) (en_prop e3) (en_world e3) = Some (res, pe, en_world e')"
      using f(2) auth by simp
    note fin = tree_drain[OF e f(1) False n tree small d]
    have top: "same_topology (en_deps e) (en_deps e')" using fin(5) top.trans[OF w(2)] by (simp add: kept_def)
    define e1 where "e1 = e'\<lparr>en_prop := (en_prop e')\<lparr>pe_events := []\<rparr>\<rparr>"
    have "engine_apply S (SetValue i v) e = Some (e1, Inr (pe_events pe))"
      using f(3-5) fin(1) r(1) by (simp add: engine_apply_def e1_def)
    moreover have "unat (attribute (en_time e3)) = Suc (unat (attribute (en_time e)))"
      using tick by (simp add: w(3) word_neq_max_Suc)
    then have "tree_ready k e1"
      using fin(3) f(4,6-10) r(2,8) fin(2) attribute_edges_same[OF top r(6)]
      by (auto simp: tree_ready_def e1_def at_rest_def no_regions_def wave_world_def wave_def)
    moreover have "en_max_steps e1 = en_max_steps e" using f(8) by (simp add: e1_def)
    moreover have "same_kinds e e1" using fin(5) w(6) by (simp add: same_kinds_def kept_def e1_def)
    moreover have "w_value (en_world e1) x = (if x = i then v else w_value (en_world e) x)" if "is_input (en_world e) x" for x
      using fin(5) that inputs[of x] w(4) by (simp add: kept_def e1_def)
    moreover have "distinct (map fst (changes (pe_events pe)))" "fst ` set (changes (pe_events pe)) \<subseteq> below (en_deps e) i"
      "set (changes (pe_events pe))
        = {(x, w_value (en_world e) x, w_value (en_world e1) x) |x. w_value (en_world e1) x \<noteq> w_value (en_world e) x}"
      using fin(4) single_path_same(2)[OF top] by (auto simp: told_def e1_def)
    ultimately show ?thesis using top by (intro exI[of _ e1] exI[of _ "pe_events pe"]) (simp add: e1_def)
  qed
qed

fun apply_writes :: "saturation \<Rightarrow> (uid \<times> T) list \<Rightarrow> engine \<Rightarrow> engine option" where
  "apply_writes S [] e = Some e"
| "apply_writes S ((i, v) # ws) e = (case engine_apply S (SetValue i v) e of
     Some (e', Inr _) \<Rightarrow> apply_writes S ws e' | _ \<Rightarrow> None)"

lemma tree_history:
  assumes "tree_ready (length ws) e" "\<forall>(i, v) \<in> set ws. is_input (en_world e) i \<and> single_path (en_deps e) i"
    "\<forall>(i, v) \<in> set ws. card (below (en_deps e) i - {i}) \<le> en_max_steps e"
  shows "\<exists>e'. apply_writes S ws e = Some e' \<and> tree_ready 0 e'
    \<and> same_topology (en_deps e) (en_deps e') \<and> same_kinds e e'
    \<and> (\<forall>x. is_input (en_world e) x \<longrightarrow>
          w_value (en_world e') x = (case map_of (rev ws) x of Some v \<Rightarrow> v | None \<Rightarrow> w_value (en_world e) x))"
  using assms
proof (induction ws arbitrary: e)
  case (Cons w ws)
  obtain i v where w: "w = (i, v)" by fastforce
  obtain e1 evs where s: "engine_apply S (SetValue i v) e = Some (e1, Inr evs)" "tree_ready (length ws) e1"
    "same_topology (en_deps e) (en_deps e1)" "same_kinds e e1"
    "\<forall>x. is_input (en_world e) x \<longrightarrow> w_value (en_world e1) x = (if x = i then v else w_value (en_world e) x)"
    "en_max_steps e1 = en_max_steps e"
    using tree_write[of "length ws" e i S v] Cons.prems by (auto simp: w)
  have "\<forall>(j, u) \<in> set ws. is_input (en_world e1) j \<and> single_path (en_deps e1) j"
    "\<forall>(j, u) \<in> set ws. card (below (en_deps e1) j - {j}) \<le> en_max_steps e1"
    using Cons.prems(2,3) same_kinds_input[OF s(4)] single_path_same[OF s(3)] s(6) by (auto simp: w)
  from Cons.IH[OF s(2) this] obtain e' where h: "apply_writes S ws e1 = Some e'" "tree_ready 0 e'"
    "same_topology (en_deps e1) (en_deps e')" "same_kinds e1 e'"
    "\<forall>x. is_input (en_world e1) x \<longrightarrow>
          w_value (en_world e') x = (case map_of (rev ws) x of Some v \<Rightarrow> v | None \<Rightarrow> w_value (en_world e1) x)"
    by blast
  then show ?case
    using s h top.trans[OF s(3) h(3)] kinds.trans[OF s(4) h(4)] same_kinds_input[OF s(4)]
    by (intro exI[of _ e']) (auto simp: w map_add_def split: option.splits)
qed (auto intro: kinds.same)

text \<open>
  C3. Writes to the sources of trees keep the whole graph up to date.  Let the engine be at rest in
  advisory mode with all nodes eager, every edge subject to attribute time and stamped no later than
  the clock, and every computed node at the value its dependencies call for.  If nothing below a source
  has two dependencies below it, then after any sequence of writes to such sources, as long as the
  clock has room for a tick each and the step limit for every edge twice, every write has succeeded,
  every computed node is again at the value its rule gives on its dependencies,
  every input holds the last value written to it, and wiring and rules are unchanged.
\<close>

theorem tree_writes_settle:
  assumes "at_rest e" "en_mode e = Advisory" "set (en_handled e) \<subseteq> {0}" "all_eager (en_deps e)" "metas_complete (en_deps e)"
    and "attribute_edges (en_deps e)" "seen_by (en_time e) (en_deps e)" "\<forall>x. current (en_world e) x"
    and "\<forall>(i, v) \<in> set ws. is_input (en_world e) i \<and> single_path (en_deps e) i"
    and "unat (attribute (en_time e)) + length ws < 2 ^ 64" "2 * card {(a, b). b \<in> subs_of (en_deps e) a} \<le> en_max_steps e"
  shows "\<exists>e'. apply_writes S ws e = Some e' \<and> at_rest e' \<and> (\<forall>x. current (en_world e') x)
    \<and> (\<forall>x. is_input (en_world e) x \<longrightarrow>
          w_value (en_world e') x = (case map_of (rev ws) x of Some v \<Rightarrow> v | None \<Rightarrow> w_value (en_world e) x))
    \<and> same_topology (en_deps e) (en_deps e')
    \<and> (\<forall>x. map_option n_kind (graph_node (en_graph e') x) = map_option n_kind (graph_node (en_graph e) x))"
proof -
  have "card (below (en_deps e) i - {i}) \<le> en_max_steps e" for i
    using below_edges[of "en_deps e" i] assms(11) by simp
  then have "\<forall>(i, v) \<in> set ws. card (below (en_deps e) i - {i}) \<le> en_max_steps e" by auto
  with tree_history[of ws e S] assms(1-10) show ?thesis by (simp add: tree_ready_def same_kinds_def) blast
qed

text \<open>
  C19. One write down a tree takes at most one drain step per node below the source, and reports exactly
  what it changed.  In the same situation, but with a step limit of only the number of nodes below the
  source, a write to one such source succeeds: the drain never needs a second step for a node.  The
  events it returns name in their value changes each changed node once, with the value it had before
  the write and the value it has after it, and no other node; every changed node lies below the
  source.  So a write never reports more changes than there are nodes below the source, itself
  included.
\<close>

theorem tree_write_once:
  assumes "at_rest e" "en_mode e = Advisory" "set (en_handled e) \<subseteq> {0}" "all_eager (en_deps e)" "metas_complete (en_deps e)"
    and "attribute_edges (en_deps e)" "seen_by (en_time e) (en_deps e)" "\<forall>x. current (en_world e) x"
    and "is_input (en_world e) i" "single_path (en_deps e) i"
    and "attribute (en_time e) \<noteq> - 1" "card (below (en_deps e) i - {i}) \<le> en_max_steps e"
  shows "\<exists>e' evs. engine_apply S (SetValue i v) e = Some (e', Inr evs) \<and> w_value (en_world e') i = v
    \<and> (\<forall>x. current (en_world e') x)
    \<and> distinct (map fst (changes evs))
    \<and> set (changes evs) = {(x, w_value (en_world e) x, w_value (en_world e') x) |x. w_value (en_world e') x \<noteq> w_value (en_world e) x}
    \<and> (\<forall>x. w_value (en_world e') x \<noteq> w_value (en_world e) x \<longrightarrow> x \<in> below (en_deps e) i)
    \<and> length (changes evs) \<le> card (below (en_deps e) i)"
proof -
  have "unat (attribute (en_time e)) + Suc 0 < 2 ^ 64"
    using unsigned_less[of "attribute (en_time e) + 1", where 'a = nat] word_neq_max_Suc[OF assms(11)] by simp
  then have "tree_ready (Suc 0) e" using assms(1-8) by (simp add: tree_ready_def)
  then obtain e' evs where s: "engine_apply S (SetValue i v) e = Some (e', Inr evs)" "w_value (en_world e') i = v"
    "distinct (map fst (changes evs))"
    "set (changes evs) = {(x, w_value (en_world e) x, w_value (en_world e') x) |x. w_value (en_world e') x \<noteq> w_value (en_world e) x}"
    "fst ` set (changes evs) \<subseteq> below (en_deps e) i" "tree_ready 0 e'"
    using tree_write[of 0 e i S v] assms(9,10,12) by auto
  have "length (changes evs) = card (fst ` set (changes evs))"
    using distinct_card[OF s(3)] by simp
  then have "length (changes evs) \<le> card (below (en_deps e) i)"
    using card_mono[OF _ s(5)] by simp
  moreover have "x \<in> below (en_deps e) i" if "w_value (en_world e') x \<noteq> w_value (en_world e) x" for x
  proof -
    have "(x, w_value (en_world e) x, w_value (en_world e') x) \<in> set (changes evs)" using that s(4) by blast
    then show ?thesis using s(5) by force
  qed
  moreover have "\<forall>x. current (en_world e') x" using s(6) by (simp add: tree_ready_def)
  ultimately show ?thesis using s(1-4) by blast
qed

text \<open>Two inputs, their meet and a copy of it.\<close>

definition gate_engine :: engine where
  "gate_engine = engine_new\<lparr>en_world := connect (connect (connect
     (create_node (create_node (create_node (create_node world_empty (node_input 1 ''a'')) (node_input 2 ''b''))
       (node_computed 3 ''meet'' MeetAll)) (node_computed 4 ''copy'' Identity_rule)) 1 3) 2 3) 3 4\<rparr>"

lemma gate_engine_wiring:
  "ordered_deps_of (en_deps gate_engine) x = (if x = 3 then [1, 2] else if x = 4 then [3] else [])"
  "subs_of (en_deps gate_engine) x = (if x = 1 \<or> x = 2 then {3} else if x = 3 then {4} else {})"
  "map_option n_kind (graph_node (en_graph gate_engine) x) = (if x = 1 \<or> x = 2 then Some Input
     else if x = 3 then Some (Computed MeetAll) else if x = 4 then Some (Computed Identity_rule) else None)"
  by (simp_all add: gate_engine_def)

lemma gate_engine_rest:
  "at_rest gate_engine" "en_mode gate_engine = Advisory" "set (en_handled gate_engine) \<subseteq> {0}"
  "all_eager (en_deps gate_engine)" "metas_complete (en_deps gate_engine)" "current (en_world gate_engine) x"
proof -
  show rest: "at_rest gate_engine"
    unfolding gate_engine_def by (intro fresh_engine world_wf_connect world_wf_create world_wf_empty) simp_all
  show "en_mode gate_engine = Advisory" "set (en_handled gate_engine) \<subseteq> {0}"
    by (simp_all add: gate_engine_def engine_new_def)
  show "all_eager (en_deps gate_engine)" "metas_complete (en_deps gate_engine)"
    by (auto simp: gate_engine_def all_eager_def metas_complete_def)
  have wf: "world_wf (en_world gate_engine)" using rest by (simp add: at_rest_def)
  have "graph_node (en_graph gate_engine) 1 = Some (node_input 1 ''a'')"
    "graph_node (en_graph gate_engine) 3 = Some (node_computed 3 ''meet'' MeetAll)"
    "graph_node (en_graph gate_engine) 2 = Some (node_input 2 ''b'')"
    by (simp_all add: gate_engine_def)
  then have "w_value (en_world gate_engine) 1 = Neg" "w_value (en_world gate_engine) 2 = Neg" "w_value (en_world gate_engine) 3 = Neg"
    using value_of_node[OF wf] by simp_all
  then show "current (en_world gate_engine) x"
    using gate_engine_wiring(3)[of x]
    by (auto simp: current_def push_target_def dep_values_def gate_engine_wiring(1) split: if_splits)
qed

lemma gate_engine_time:
  "attribute_edges (en_deps gate_engine)" "seen_by (en_time gate_engine) (en_deps gate_engine)"
  "attribute (en_time gate_engine) = 0" "2 * card {(a, b). b \<in> subs_of (en_deps gate_engine) a} \<le> en_max_steps gate_engine"
proof -
  have d: "dims_contains (pm_dims (projection_mask (dm_label dep_meta_default))) Attribute"
    "dm_last_seen dep_meta_default = TIME_ZERO"
    by code_simp+
  show "attribute_edges (en_deps gate_engine)" "seen_by (en_time gate_engine) (en_deps gate_engine)"
    using d by (auto simp: gate_engine_def attribute_edges_def seen_by_def TIME_ZERO_def split: if_splits)
  show "attribute (en_time gate_engine) = 0" by (simp add: gate_engine_def engine_new_def TIME_ZERO_def)
  have "{(a, b). b \<in> subs_of (en_deps gate_engine) a} \<subseteq> {(1, 3), (2, 3), (3, 4)}"
    by (auto simp: gate_engine_wiring(2) split: if_splits)
  from card_mono[OF _ this] have "card {(a, b). b \<in> subs_of (en_deps gate_engine) a} \<le> 3" by simp
  moreover have "en_max_steps gate_engine = 100000" by (simp add: gate_engine_def engine_new_def)
  ultimately show "2 * card {(a, b). b \<in> subs_of (en_deps gate_engine) a} \<le> en_max_steps gate_engine" by simp
qed

lemma gate_engine_tree:
  assumes "i \<in> {1, 2}"
  shows "single_path (en_deps gate_engine) i" "below (en_deps gate_engine) i \<subseteq> {i, 3, 4}"
proof -
  show sub: "below (en_deps gate_engine) i \<subseteq> {i, 3, 4}"
  proof
    fix a assume "a \<in> below (en_deps gate_engine) i"
    then have "(i, a) \<in> {(a, b). b \<in> subs_of (en_deps gate_engine) a}\<^sup>*" by (simp add: below_def)
    then show "a \<in> {i, 3, 4}"
      by (induction rule: rtrancl_induct) (use assms in \<open>auto simp: gate_engine_wiring(2) split: if_splits\<close>)
  qed
  have b: "a = i \<or> a = 3 \<or> a = 4" if "a \<in> below (en_deps gate_engine) i" for a using that sub by blast
  show "single_path (en_deps gate_engine) i"
    using assms b[of 1] b[of 2] unfolding single_path_def gate_engine_wiring(2) by (auto split: if_splits dest!: b)
qed

theorem tree_writes_settle_witness:
  "\<exists>e'. apply_writes (map const_of) [(1, Pos), (2, Pos), (1, Zero)] gate_engine = Some e'
     \<and> map (w_value (en_world e')) [1, 2, 3, 4] = [Zero, Pos, Zero, Zero]"
proof -
  let ?ws = "[(1, Pos), (2, Pos), (1, Zero)]"
  have "is_input (en_world gate_engine) 1" "is_input (en_world gate_engine) 2"
    using gate_engine_wiring(3)[of 1] gate_engine_wiring(3)[of 2] by (auto simp: is_input_def)
  then obtain e' where e: "apply_writes (map const_of) ?ws gate_engine = Some e'" "\<forall>x. current (en_world e') x"
    "w_value (en_world e') 1 = Zero" "w_value (en_world e') 2 = Pos" "same_topology (en_deps gate_engine) (en_deps e')"
    "\<forall>x. map_option n_kind (graph_node (en_graph e') x) = map_option n_kind (graph_node (en_graph gate_engine) x)"
    using tree_writes_settle[OF gate_engine_rest(1-5) gate_engine_time(1,2) allI[OF gate_engine_rest(6)], of ?ws "map const_of"]
      gate_engine_time(3,4) gate_engine_tree by auto
  have d: "dep_values (en_world e') x = map (w_value (en_world e')) (ordered_deps_of (en_deps gate_engine) x)" for x
    by (simp add: dep_values_def same_topology_queries(4)[OF e(5)])
  have "w_value (en_world e') 3 = Zero"
    using e(2)[THEN spec, of 3] e(3,4) by (simp add: current_def e(6) d gate_engine_wiring push_target_def)
  moreover have "w_value (en_world e') 4 = push_target Identity_rule [w_value (en_world e') 3] (w_value (en_world e') 4)"
    using e(2)[THEN spec, of 4] by (simp add: current_def e(6) d gate_engine_wiring)
  ultimately show ?thesis using e(1,3,4) by (simp add: push_target_def)
qed

theorem tree_write_once_witness:
  "\<exists>e' evs. engine_apply (map const_of) (SetValue 1 Pos) gate_engine = Some (e', Inr evs)
     \<and> (1, Neg, Pos) \<in> set (changes evs) \<and> length (changes evs) \<le> 3"
proof -
  have i: "is_input (en_world gate_engine) 1" using gate_engine_wiring(3)[of 1] by (auto simp: is_input_def)
  have old: "w_value (en_world gate_engine) 1 = Neg"
    using value_of_node[of "en_world gate_engine" 1 "node_input 1 ''a''"] gate_engine_rest(1)
    by (simp add: at_rest_def gate_engine_def)
  have sub: "below (en_deps gate_engine) 1 \<subseteq> {1, 3, 4}" by (rule gate_engine_tree(2)) simp
  have card: "card (below (en_deps gate_engine) 1) \<le> 3" using card_mono[OF _ sub] by simp
  then have small: "card (below (en_deps gate_engine) 1 - {1}) \<le> en_max_steps gate_engine"
    using card_Diff1_le[of "below (en_deps gate_engine) 1" 1] by (simp add: gate_engine_def engine_new_def)
  obtain e' evs where s: "engine_apply (map const_of) (SetValue 1 Pos) gate_engine = Some (e', Inr evs)"
    "w_value (en_world e') 1 = Pos" "length (changes evs) \<le> card (below (en_deps gate_engine) 1)"
    "set (changes evs) = {(x, w_value (en_world gate_engine) x, w_value (en_world e') x) |x.
        w_value (en_world e') x \<noteq> w_value (en_world gate_engine) x}"
    using tree_write_once[OF gate_engine_rest(1-5) gate_engine_time(1,2) allI[OF gate_engine_rest(6)] i, of "map const_of" Pos]
      gate_engine_time(3) gate_engine_tree(1) small by auto
  have "(1, w_value (en_world gate_engine) 1, w_value (en_world e') 1) \<in> set (changes evs)"
    unfolding s(4) using s(2) old by (intro CollectI exI[of _ 1]) simp
  then show ?thesis using s(1-3) old card by auto
qed

end
