(* ===== verification/Join_Settle.thy ===== *)
theory Join_Settle
  imports Tree_Settle
begin

text \<open>
  One write in an arbitrary graph.  The wave a write sends down may reach a node over two branches;
  such a join can be evaluated twice, and the second time its outgoing edges are stamped already.
  Here: everything but the direct readers of joins is brought up to date, cycles included, and a
  second push of a node in the same drain offers nothing to whom the first push was offered, whatever
  has become of its value.
\<close>

section \<open>Joins below a source\<close>

definition join_below :: "dep_registry \<Rightarrow> uid \<Rightarrow> uid \<Rightarrow> bool" where
  "join_below r i x \<longleftrightarrow> x \<noteq> i \<and> (\<exists>a \<in> below r i. \<exists>b \<in> below r i. a \<noteq> b \<and> x \<in> subs_of r a \<and> x \<in> subs_of r b)"

definition reads_join :: "dep_registry \<Rightarrow> uid \<Rightarrow> uid \<Rightarrow> bool" where
  "reads_join r i x \<longleftrightarrow> (\<exists>p. join_below r i p \<and> x \<in> subs_of r p)"

definition lone :: "dep_registry \<Rightarrow> uid \<Rightarrow> uid \<Rightarrow> bool" where
  "lone r i x \<longleftrightarrow> x \<noteq> i \<and> \<not> join_below r i x"

lemma lone_unique: "lone r i x \<Longrightarrow> a \<in> below r i \<Longrightarrow> b \<in> below r i \<Longrightarrow> x \<in> subs_of r a \<Longrightarrow> x \<in> subs_of r b \<Longrightarrow> a = b"
  unfolding lone_def join_below_def by blast

lemma join_same:
  assumes "same_topology r r'"
  shows "join_below r' i x = join_below r i x" "reads_join r' i x = reads_join r i x" "lone r' i x = lone r i x"
  by (simp_all add: join_below_def reads_join_def lone_def same_topology_queries(2)[OF assms] single_path_same(2)[OF assms])

lemma no_joins_on_a_tree: "single_path r i \<Longrightarrow> \<not> reads_join r i x"
  unfolding single_path_def reads_join_def join_below_def by blast

section \<open>The front of the wave\<close>

text \<open>A node that is no join is queued at most once, before any of its outgoing edges is stamped, and
  whoever is neither current nor queued is excused by \<open>P\<close>.\<close>

definition front :: "product_time \<Rightarrow> uid \<Rightarrow> (uid \<Rightarrow> bool) \<Rightarrow> uid list \<Rightarrow> world \<Rightarrow> bool" where
  "front t i P xs w \<longleftrightarrow> set xs \<subseteq> below (w_deps w) i
     \<and> (\<forall>x \<in> set xs. lone (w_deps w) i x \<longrightarrow> count_list xs x = 1
          \<and> (\<forall>a \<in> below (w_deps w) i. x \<in> subs_of (w_deps w) a \<longrightarrow> \<not> gate_open (w_deps w) a x t)
          \<and> (\<forall>s \<in> subs_of (w_deps w) x. gate_open (w_deps w) x s t))
     \<and> (\<forall>a \<in> below (w_deps w) i. \<forall>x \<in> subs_of (w_deps w) a. lone (w_deps w) i x \<and> gate_open (w_deps w) a x t
          \<longrightarrow> (\<forall>s \<in> subs_of (w_deps w) x. gate_open (w_deps w) x s t))
     \<and> (\<forall>x. current w x \<or> x \<in> set xs \<or> P x)"

lemma frontD:
  assumes "front t i P xs w"
  shows "x \<in> set xs \<Longrightarrow> x \<in> below (w_deps w) i"
    "x \<in> set xs \<Longrightarrow> lone (w_deps w) i x \<Longrightarrow> count_list xs x = 1"
    "x \<in> set xs \<Longrightarrow> lone (w_deps w) i x \<Longrightarrow> a \<in> below (w_deps w) i \<Longrightarrow> x \<in> subs_of (w_deps w) a \<Longrightarrow> \<not> gate_open (w_deps w) a x t"
    "x \<in> set xs \<Longrightarrow> lone (w_deps w) i x \<Longrightarrow> s \<in> subs_of (w_deps w) x \<Longrightarrow> gate_open (w_deps w) x s t"
    "a \<in> below (w_deps w) i \<Longrightarrow> x \<in> subs_of (w_deps w) a \<Longrightarrow> lone (w_deps w) i x \<Longrightarrow> gate_open (w_deps w) a x t
      \<Longrightarrow> s \<in> subs_of (w_deps w) x \<Longrightarrow> gate_open (w_deps w) x s t"
    "current w x \<or> x \<in> set xs \<or> P x"
  using assms unfolding front_def by blast+

lemma front_pop:
  assumes "front t i P (x # xs) w" "current w x"
  shows "front t i P xs w"
proof -
  note f = frontD[OF assms(1)]
  have "count_list xs y = 1" if "y \<in> set xs" "lone (w_deps w) i y" for y
    using f(2)[of y] that count_notin[of y xs] by (cases "y = x") (auto simp: count_list_0_iff)
  moreover have "current w z \<or> z \<in> set xs \<or> P z" for z
    using f(6)[of z] assms(2) by auto
  ultimately show ?thesis
    using assms(1) unfolding front_def by auto
qed

lemma distinct_counts_one: "distinct xs \<Longrightarrow> x \<in> set xs \<Longrightarrow> count_list xs x = 1"
  by (induction xs) (auto simp: count_list_0_iff)

lemma front_push:
  assumes wf: "world_wf w" and eager: "all_eager (w_deps w)" and metas: "metas_complete (w_deps w)"
    and inp: "is_input w i" and excused: "\<And>z. reads_join (w_deps w) i z \<Longrightarrow> P z" and inv: "front t i P (x # xs) w"
    and s: "step_push x t None dem stats w = Some (w', stats', r, evs, map WPush ys)"
    and q: "queued_subs x t None dem (w_deps w) (w_deps w') ys"
  shows "front t i P (xs @ ys) w'"
proof (cases "\<exists>n rule. graph_node (w_graph w) x = Some n \<and> n_kind n = Computed rule")
  case False
  then have "w' = w" "ys = []" and "current w x"
    using s by (auto simp: step_push_def current_def split: option.splits node_kind.splits)
  then show ?thesis using front_pop[OF inv] by simp
next
  case True
  then obtain n rule where n: "graph_node (w_graph w) x = Some n" "n_kind n = Computed rule" by blast
  define v where "v = push_target rule (dep_values w x) (n_value n)"
  have post: "step_post x v t None dem w w' (map WPush ys)"
    using step_push_post[OF wf n, of t None dem stats] s by (auto simp: v_def)
  then have p: "\<And>y. w_value w' y = (if y = x then v else w_value w y)" "same_topology (w_deps w) (w_deps w')"
    by (simp_all add: step_post_def)
  obtain ys' zs where work: "map WPush ys = map WPush ys' @ zs" "zs \<in> {[], [WStabilize (ordered_deps_of (w_deps w) x @ [x])]}"
    "reaches x v t None dem w ys'"
    using post unfolding step_post_def by blast
  have "pushes (map WPush ys) = pushes (map WPush ys' @ zs)" using work(1) by simp
  then have same: "ys' = ys" using work(2) by auto
  note gates = stamped_gates[OF q p(2) metas]
  note top = same_topology_queries(2)[OF p(2)] single_path_same(2)[OF p(2)] join_same[OF p(2)]
  note f = frontD[OF inv]
  have y: "distinct ys" "\<And>s. s \<in> set ys \<Longrightarrow> s \<in> subs_of (w_deps w) x \<and> gate_open (w_deps w) x s t"
    using q accepts_open[OF eager] by (auto simp: queued_subs_def)
  have x: "x \<in> below (w_deps w) i" using f(1) by simp
  have xi: "x \<noteq> i" using inp n by (auto simp: is_input_def)
  have fresh: "s \<notin> set (x # xs)" if "s \<in> set ys" "lone (w_deps w) i s" for s
    using f(3)[of s x] that y(2)[OF that(1)] x by blast
  have once: "count_list (xs @ ys) s = 1 \<and> s \<noteq> x" if "s \<in> set (xs @ ys)" "lone (w_deps w) i s" for s
  proof (cases "s \<in> set ys")
    case True
    then show ?thesis using fresh[OF True that(2)] y(1) by (simp add: count_notin distinct_counts_one)
  next
    case False
    then have "s \<in> set xs" using that(1) by simp
    moreover have "count_list (x # xs) s = 1" using f(2) that(2) calculation by simp
    ultimately show ?thesis using False by (auto simp: count_list_0_iff split: if_splits)
  qed
  show ?thesis
    unfolding front_def top
  proof (intro conjI ballI allI impI)
    show "set (xs @ ys) \<subseteq> below (w_deps w) i" using f(1) y(2) below_step[OF x] by auto
  next
    fix s assume "s \<in> set (xs @ ys)" "lone (w_deps w) i s"
    then show "count_list (xs @ ys) s = 1" using once by blast
  next
    fix s a assume h: "s \<in> set (xs @ ys)" "lone (w_deps w) i s" "a \<in> below (w_deps w) i" "s \<in> subs_of (w_deps w) a"
    show "\<not> gate_open (w_deps w') a s t"
      using h gates[OF h(4)] f(3)[of s a] y(2)[of s] lone_unique[OF h(2,3) x h(4)] by auto
  next
    fix s b assume h: "s \<in> set (xs @ ys)" "lone (w_deps w) i s" "b \<in> subs_of (w_deps w) s"
    have "gate_open (w_deps w) s b t"
      using h(1) f(4)[of s b] f(5)[OF x _ h(2) _ h(3)] y(2)[of s] h(2,3) by auto
    then show "gate_open (w_deps w') s b t" using gates[OF h(3)] once[OF h(1,2)] by simp
  next
    fix a b c assume h: "a \<in> below (w_deps w) i" "b \<in> subs_of (w_deps w) a"
      "lone (w_deps w) i b \<and> gate_open (w_deps w') a b t" "c \<in> subs_of (w_deps w) b"
    have o: "gate_open (w_deps w) a b t" using h(3) gates[OF h(2)] by simp
    then have "b \<noteq> x" using f(3)[of x a] h(1-3) by auto
    then show "gate_open (w_deps w') b c t" using gates[OF h(4)] f(5)[OF h(1,2) _ o h(4)] h(3) by simp
  next
    fix z show "current w' z \<or> z \<in> set (xs @ ys) \<or> P z"
    proof (cases "v \<noteq> w_value w x \<and> x \<in> deps_of (w_deps w) z")
      case True
      then have z: "z \<in> subs_of (w_deps w) x" using dr_wfD(1)[of "w_deps w" x z] wf by (simp add: world_wf_def)
      show ?thesis
      proof (cases "join_below (w_deps w) i x")
        case True
        then show ?thesis using excused z by (auto simp: reads_join_def)
      next
        case False
        then have "gate_open (w_deps w) x z t" using f(4)[of x z] z xi by (simp add: lone_def)
        then have "z \<in> set ys"
          using work(3) True \<open>v \<noteq> _ \<and> _\<close> z eager accepts_open[OF eager] by (simp add: same reaches_def all_eager_def)
        then show ?thesis by simp
      qed
    next
      case False
      then have "z = x \<or> current w z \<Longrightarrow> current w' z"
        using push_current[OF wf n post[unfolded v_def], of z] p(1)[of x] by auto
      then show ?thesis using f(6)[of z] by auto
    qed
  qed
qed

section \<open>The drain behind the front\<close>

definition front_world :: "product_time \<Rightarrow> uid \<Rightarrow> (uid \<Rightarrow> bool) \<Rightarrow> work_item list \<Rightarrow> world \<Rightarrow> bool" where
  "front_world t i P q w \<longleftrightarrow> world_wf w \<and> all_eager (w_deps w) \<and> metas_complete (w_deps w) \<and> is_input w i
     \<and> (\<forall>z. reads_join (w_deps w) i z \<longrightarrow> P z) \<and> set q \<subseteq> range WPush \<and> front t i P (pushes q) w"

lemma front_step:
  assumes inv: "front_world t i P (item # pe_queue pe) w" and none: "set handled \<subseteq> {0}"
  shows "\<exists>f' pe' w'. drain_item t None handled item f pe w = Some (f', pe', w')
    \<and> potential (pe_queue pe') (w_deps w') t < potential (item # pe_queue pe) (w_deps w) t
    \<and> front_world t i P (pe_queue pe') w'"
proof -
  obtain x where x: "item = WPush x" using inv by (auto simp: front_world_def)
  have w: "world_wf w" "all_eager (w_deps w)" "metas_complete (w_deps w)" "is_input w i"
    "\<And>z. reads_join (w_deps w) i z \<Longrightarrow> P z" "front t i P (x # pushes (pe_queue pe)) w" "set (pe_queue pe) \<subseteq> range WPush"
    using inv by (simp_all add: front_world_def x)
  obtain f' pe' w' stats' r evs ys where s: "drain_item t None handled (WPush x) f pe w = Some (f', pe', w')"
    "step_push x t None (pe_demanded pe) (pe_stats pe) w = Some (w', stats', r, evs, map WPush ys)"
    "pe_queue pe' = pe_queue pe @ map WPush ys" "kept w w'"
    "queued_subs x t None (pe_demanded pe) (w_deps w) (w_deps w') ys"
    using eager_push_item[OF w(1,2) none, of t x f pe] by blast
  have top: "same_topology (w_deps w) (w_deps w')" using s(4) by (simp add: kept_def)
  have inp: "is_input w' i" using w(4) kept_input[OF s(4)] by simp
  have "\<not> is_demand (WPush x)" "\<forall>y \<in> set (pe_queue pe). \<not> is_demand y" using w(7) by (auto simp: is_demand_def)
  from potential_step[OF w(1,3) this, of t None handled f]
  have "potential (pe_queue pe') (w_deps w') t < potential (item # pe_queue pe) (w_deps w) t"
    using s(1) by (auto simp: x)
  moreover have "front t i P (pushes (pe_queue pe) @ ys) w'"
    by (rule front_push[OF w(1-6) s(2,5)])
  then have "front_world t i P (pe_queue pe') w'"
    using w inp s(3,4) queued_closes_edges(3)[OF s(5) top w(3)] same_topology_queries(3)[OF top] join_same(2)[OF top]
    by (auto simp: front_world_def kept_def all_eager_def)
  ultimately show ?thesis using s(1) x by blast
qed

lemma front_drain:
  assumes "front_world t i P (pe_queue pe) w" "set handled \<subseteq> {0}" "potential (pe_queue pe) (w_deps w) t \<le> mx"
  shows "\<exists>pe' w'. drain t None handled mx pe w = Some (Inr (), pe', w') \<and> pe_queue pe' = [] \<and> front t i P [] w'"
proof -
  define I where "I = (\<lambda>n q (evs :: prop_event list) w1. front_world t i P q w1 \<and> potential q (w_deps w1) t \<le> n)"
  have "\<exists>k f' pe' w'. n = Suc k \<and> drain_item t None handled item f pe w = Some (f', pe', w')
      \<and> I k (pe_queue pe') (pe_events pe') w'" if inv: "I n (item # pe_queue pe) (pe_events pe) w" for n item f pe w
  proof -
    obtain f' pe' w' where s: "drain_item t None handled item f pe w = Some (f', pe', w')"
      "potential (pe_queue pe') (w_deps w') t < potential (item # pe_queue pe) (w_deps w) t"
      "front_world t i P (pe_queue pe') w'"
      using front_step[OF _ assms(2), of t i P item pe w f] inv by (auto simp: I_def)
    then have "n = Suc (n - 1)" "I (n - 1) (pe_queue pe') (pe_events pe') w'" using inv by (auto simp: I_def)
    then show ?thesis using s(1) by blast
  qed
  from drain_steps[where I = I, OF this, of "potential (pe_queue pe) (w_deps w) t" pe w mx] assms(1,3)
  show ?thesis by (auto simp: I_def front_world_def)
qed

section \<open>A write in any graph\<close>

definition kept_waiting :: "dep_registry \<Rightarrow> world \<Rightarrow> uid \<Rightarrow> uid \<Rightarrow> bool" where
  "kept_waiting r w i x \<longleftrightarrow> reads_join r i x \<or> \<not> current w x \<and> x \<notin> subs_of r i"

lemma write_front:
  assumes wf: "world_wf (en_world e)" and wd: "write_done i old v e e3 xs"
    and eager: "all_eager (en_deps e)" and metas: "metas_complete (en_deps e)"
    and inp: "graph_node (en_graph e) i = Some n" "n_kind n = Input"
    and seen: "seen_by (en_time e) (en_deps e)" "attribute_edges (en_deps e)" "attribute (en_time e) \<noteq> - 1"
  shows "front_world (en_time e3) i (kept_waiting (en_deps e) (en_world e) i) (map WPush xs) (en_world e3)"
proof -
  have f: "world_wf (en_world e3)" "same_topology (en_deps e) (en_deps e3)" "en_time e3 = time_advance (en_time e) Attribute"
    "queued_subs i (en_time e3) None {} (en_deps e) (en_deps e3) xs"
    "set xs = {s \<in> subs_of (en_deps e) i. accepts i (en_time e3) None {} (en_deps e) s}"
    "\<And>x. map_option n_kind (graph_node (en_graph e3) x) = map_option n_kind (graph_node (en_graph e) x)"
    using wd unfolding write_done_def by blast+
  have open_all: "gate_open (en_deps e) a b (en_time e3)" for a b
    unfolding f(3) by (rule ticked_open(1)[OF seen(1,2)]) (use seen(3) in simp)
  have xs: "distinct xs" "set xs = subs_of (en_deps e) i"
    using f(4,5) open_all accepts_open[OF eager] by (auto simp: queued_subs_def)
  have gates: "gate_open (en_deps e3) a b (en_time e3) \<longleftrightarrow> a \<noteq> i" if "b \<in> subs_of (en_deps e) a" for a b
    using stamped_gates[OF f(4,2) metas that] open_all that xs(2) by auto
  note top = same_topology_queries(2)[OF f(2)] single_path_same(2)[OF f(2)] join_same[OF f(2)]
  have "current (en_world e3) x \<or> x \<in> set xs \<or> kept_waiting (en_deps e) (en_world e) i x" for x
  proof (cases "i \<in> deps_of (en_deps e) x \<or> \<not> current (en_world e) x")
    case True
    then show ?thesis using dr_wfD(1)[of "en_deps e" i x] wf xs(2) by (auto simp: world_wf_def kept_waiting_def)
  next
    case False
    then show ?thesis using write_current[OF wf wd _ inp] by blast
  qed
  moreover have "\<not> gate_open (en_deps e3) a x (en_time e3)"
    if "x \<in> set xs" "lone (en_deps e) i x" "a \<in> below (en_deps e) i" "x \<in> subs_of (en_deps e) a" for x a
    using gates[OF that(4)] lone_unique[OF that(2,3) below_source that(4)] that(1) xs(2) by simp
  moreover have "gate_open (en_deps e3) x s (en_time e3)" if "lone (en_deps e) i x" "s \<in> subs_of (en_deps e) x" for x s
    using gates[OF that(2)] that(1) by (simp add: lone_def)
  moreover have "set xs \<subseteq> below (en_deps e) i"
    using xs(2) below_step[OF below_source] by blast
  moreover have "count_list xs x = 1" if "x \<in> set xs" for x by (rule distinct_counts_one[OF xs(1) that])
  ultimately have "front (en_time e3) i (kept_waiting (en_deps e) (en_world e) i) xs (en_world e3)"
    unfolding front_def top by blast
  moreover have "is_input (en_world e3) i" using inp f(6)[of i] by (auto simp: is_input_def)
  moreover have "\<forall>z. reads_join (en_deps e) i z \<longrightarrow> kept_waiting (en_deps e) (en_world e) i z"
    by (simp add: kept_waiting_def)
  ultimately show ?thesis
    using f(1) eager same_topology_queries(3)[OF f(2)] queued_closes_edges(3)[OF f(4,2) metas] top
    by (auto simp: front_world_def all_eager_def)
qed

text \<open>What a write needs to come through: the engine at rest, everything eager and subject to attribute
  time, a tick left on the clock, and steps for two pushes over every edge.\<close>

definition write_ready :: "engine \<Rightarrow> bool" where
  "write_ready e \<longleftrightarrow> at_rest e \<and> en_mode e = Advisory \<and> set (en_handled e) \<subseteq> {0} \<and> all_eager (en_deps e)
     \<and> metas_complete (en_deps e) \<and> attribute_edges (en_deps e) \<and> seen_by (en_time e) (en_deps e)
     \<and> attribute (en_time e) \<noteq> - 1 \<and> 2 * card {(a, b). b \<in> subs_of (en_deps e) a} \<le> en_max_steps e"

lemma write_settles:
  assumes e: "write_ready e" and inp: "is_input (en_world e) i"
  shows "\<exists>e' evs. engine_apply S (SetValue i v) e = Some (e', Inr evs) \<and> at_rest e'
    \<and> (\<forall>x. is_input (en_world e) x \<longrightarrow> w_value (en_world e') x = (if x = i then v else w_value (en_world e) x))
    \<and> (\<forall>x. (current (en_world e) x \<or> v \<noteq> w_value (en_world e) i \<and> x \<in> subs_of (en_deps e) i)
          \<and> \<not> reads_join (en_deps e) i x \<longrightarrow> current (en_world e') x)
    \<and> same_topology (en_deps e) (en_deps e') \<and> same_kinds e e'"
proof -
  have r: "at_rest e" "en_mode e = Advisory" "set (en_handled e) \<subseteq> {0}" "all_eager (en_deps e)" "metas_complete (en_deps e)"
    "attribute_edges (en_deps e)" "seen_by (en_time e) (en_deps e)" "attribute (en_time e) \<noteq> - 1"
    "2 * card {(a, b). b \<in> subs_of (en_deps e) a} \<le> en_max_steps e"
    using e by (simp_all add: write_ready_def)
  have wf: "world_wf (en_world e)" using r(1) by (simp add: at_rest_def)
  obtain n where n: "graph_node (en_graph e) i = Some n" "n_kind n = Input" using inp by (auto simp: is_input_def)
  have old: "w_value (en_world e) i = n_value n" by (rule value_of_node[OF wf n(1)])
  show ?thesis
  proof (cases "v = n_value n")
    case True
    have "engine_apply S (SetValue i v) e = Some (e, Inr [])"
      using n(1) True r(1) by (simp add: engine_apply_def op_set_value_def done_op_def at_rest_def)
    then show ?thesis using old True r(1) by (intro exI[of _ e] exI[of _ "[]"]) (auto intro: kinds.same)
  next
    case False
    obtain e3 xs res pe e' r' where f: "write_done i (n_value n) v e e3 xs"
      "drain (en_time e3) (engine_auth e3) (en_handled e) (en_max_steps e) (en_prop e3) (en_world e3)
        = Some (res, pe, en_world e')"
      "op_set_value S i v e = Some (e', r')" "en_prop e' = pe"
      "r' = (case res of Inl err \<Rightarrow> Inl (PropErr err) | Inr u \<Rightarrow> Inr u)" "no_regions e'"
      using set_value_drains[OF r(1) all_eager_unstabilized[OF r(4)] n(1) False, of S] by blast
    have w: "world_wf (en_world e3)" "same_topology (en_deps e) (en_deps e3)" "en_mode e3 = en_mode e"
      "\<forall>x. w_value (en_world e3) x = (if x = i then v else w_value (en_world e) x)"
      "\<forall>x. map_option n_kind (graph_node (en_graph e3) x) = map_option n_kind (graph_node (en_graph e) x)"
      "pe_queue (en_prop e3) = map WPush xs"
      using f(1) r(1) by (simp_all add: write_done_def at_rest_def)
    have auth: "engine_auth e3 = None" using w(3) r(2) by (simp add: engine_auth_def)
    let ?P = "kept_waiting (en_deps e) (en_world e) i"
    have front: "front_world (en_time e3) i ?P (pe_queue (en_prop e3)) (en_world e3)"
      unfolding w(6) by (rule write_front[OF wf f(1) r(4,5) n r(7,6,8)])
    have "sum_list (map item_weight (map WPush ys)) = 2 * length ys" for ys by (induction ys) simp_all
    moreover have "card (open_edges (en_deps e) (en_time e3)) \<le> card {(a, b). b \<in> subs_of (en_deps e) a}"
      by (rule card_mono) (auto simp: open_edges_def)
    ultimately have "potential (pe_queue (en_prop e3)) (en_deps e3) (en_time e3) \<le> en_max_steps e"
      using write_open_edges(2)[OF f(1) r(5)] r(9) by (simp add: potential_def w(6))
    from front_drain[OF front r(3) this] obtain pe' w' where d:
      "drain (en_time e3) None (en_handled e) (en_max_steps e) (en_prop e3) (en_world e3) = Some (Inr (), pe', w')"
      "pe_queue pe' = []" "front (en_time e3) i ?P [] w'" by blast
    have k: "kept (en_world e3) w'"
      using drain_keeps[OF w(1), of "en_time e3" None "en_handled e" "en_max_steps e" "en_prop e3"] d(1) by auto
    have e': "res = Inr ()" "pe = pe'" "en_world e' = w'" using f(2) d(1) auth by auto
    define e1 where "e1 = e'\<lparr>en_prop := (en_prop e')\<lparr>pe_events := []\<rparr>\<rparr>"
    have "engine_apply S (SetValue i v) e = Some (e1, Inr (pe_events pe))"
      using f(3-5) e'(1) r(1) by (simp add: engine_apply_def e1_def)
    moreover have "at_rest e1"
      using k d(2) f(4,6) e' by (simp add: at_rest_def e1_def kept_def no_regions_def)
    moreover have "same_topology (en_deps e) (en_deps e1)" "same_kinds e e1"
      using k w(5) top.trans[OF w(2)] by (simp_all add: e1_def e' kept_def same_kinds_def)
    moreover have "w_value (en_world e1) x = (if x = i then v else w_value (en_world e) x)" if "is_input (en_world e) x" for x
    proof -
      have "is_input (en_world e3) x" using that w(5)[THEN spec, of x] by (auto simp: is_input_def)
      then show ?thesis using k w(4) by (simp add: e1_def e'(3) kept_def)
    qed
    moreover have "current (en_world e1) x" if "current (en_world e) x \<or> x \<in> subs_of (en_deps e) i" "\<not> reads_join (en_deps e) i x" for x
      using frontD(6)[OF d(3), of x] that by (auto simp: e1_def e'(3) kept_waiting_def)
    ultimately show ?thesis by blast
  qed
qed

text \<open>
  C2. A write brings the whole graph up to date except the readers of joins.  Take any graph, cycles
  and diamonds included, in an engine at rest in advisory mode with all nodes eager, every edge subject
  to attribute time and stamped no later than the clock, a tick left on the clock, and a step limit of
  at least twice the number of edges.  Call a node a join when two different dependencies of it can be
  reached from the written input.  Then the write succeeds and leaves the engine at rest, the input
  holds the new value and every other input its old one; and every computed node that was at the
  value its dependencies call for, and, if the value is new, every subscriber of the input, is at the
  value its rule gives on its dependencies now, unless it directly reads a join.  Wiring and rules are
  unchanged.
\<close>

theorem set_value_settles:
  assumes "at_rest e" "en_mode e = Advisory" "set (en_handled e) \<subseteq> {0}" "all_eager (en_deps e)" "metas_complete (en_deps e)"
    and "attribute_edges (en_deps e)" "seen_by (en_time e) (en_deps e)" "attribute (en_time e) \<noteq> - 1"
    and "2 * card {(a, b). b \<in> subs_of (en_deps e) a} \<le> en_max_steps e" "is_input (en_world e) i"
  shows "\<exists>e' evs. engine_apply S (SetValue i v) e = Some (e', Inr evs) \<and> at_rest e'
    \<and> (\<forall>x. is_input (en_world e) x \<longrightarrow> w_value (en_world e') x = (if x = i then v else w_value (en_world e) x))
    \<and> (\<forall>x. (current (en_world e) x \<or> v \<noteq> w_value (en_world e) i \<and> x \<in> subs_of (en_deps e) i)
          \<and> \<not> (\<exists>p a b. p \<noteq> i \<and> x \<in> subs_of (en_deps e) p \<and> a \<in> below (en_deps e) i \<and> b \<in> below (en_deps e) i
               \<and> a \<noteq> b \<and> p \<in> subs_of (en_deps e) a \<and> p \<in> subs_of (en_deps e) b)
          \<longrightarrow> current (en_world e') x)
    \<and> same_topology (en_deps e) (en_deps e')
    \<and> (\<forall>x. map_option n_kind (graph_node (en_graph e') x) = map_option n_kind (graph_node (en_graph e) x))"
proof -
  have "write_ready e" using assms(1-9) by (simp add: write_ready_def)
  from write_settles[OF this assms(10), of S v] show ?thesis
    unfolding reads_join_def join_below_def same_kinds_def by blast
qed

text \<open>Why readers of joins can be left behind: a push stamps the edges it travels (a conflicted node
  pushes even if its value stays), and at no later point of the same drain is the same subscriber
  offered another push of that node, not even after its value has changed.\<close>

lemma second_offer_refused:
  assumes first: "world_wf w" "all_eager (w_deps w)" "metas_complete (w_deps w)"
      "step_push x t None dem stats w = Some (w1, stats1, r1, evs1, work1)" "WPush s \<in> set work1"
    and later: "world_wf w2" "same_topology (w_deps w1) (w_deps w2)" "metas_complete (w_deps w2)"
      "\<And>a b. gate_open (w_deps w2) a b t \<Longrightarrow> gate_open (w_deps w1) a b t"
      "step_push x t None dem2 stats2 w2 = Some (w3, stats3, r3, evs3, work3)"
  shows "WPush s \<notin> set work3"
proof
  obtain ys zs where p: "work1 = map WPush ys @ zs" "zs \<in> {[], [WStabilize (ordered_deps_of (w_deps w) x @ [x])]}"
    "queued_subs x t None dem (w_deps w) (w_deps w1) ys" "kept w w1"
    using step_push_any[OF first(1), of x t None dem stats] first(4) by auto
  have top: "same_topology (w_deps w) (w_deps w1)" using p(4) by (simp add: kept_def)
  have s: "s \<in> set ys" using first(5) p(1,2) by auto
  then have "s \<in> subs_of (w_deps w) x" using p(3) by (simp add: queued_subs_def)
  then have closed: "\<not> gate_open (w_deps w1) x s t"
    using stamped_gates[OF p(3) top first(3)] s by simp
  assume "WPush s \<in> set work3"
  moreover have "set (pushes q) = {y. WPush y \<in> set q}" for q
    by (induction q) (auto simp: pushes_def List.map_filter_def split: work_item.splits)
  ultimately have "s \<in> set (pushes work3)" by simp
  moreover have "all_eager (w_deps w2)"
    using first(2) same_topology_queries(3)[OF top] same_topology_queries(3)[OF later(2)] by (simp add: all_eager_def)
  ultimately have "gate_open (w_deps w2) x s t"
    using push_frontier(3)[OF later(1) _ later(3,5)] by blast
  then show False using later(4) closed by blast
qed

text \<open>An input 1, a copy 3 of it, the meet 2 of both, and a copy 4 of the meet, which reads a join.\<close>

definition diamond_engine :: engine where
  "diamond_engine = engine_new\<lparr>en_world := connect (connect (connect (connect
     (create_node (create_node (create_node (create_node world_empty (node_input 1 ''in''))
       (node_computed 2 ''meet'' MeetAll)) (node_computed 3 ''copy'' Identity_rule))
       (node_computed 4 ''out'' Identity_rule)) 1 2) 1 3) 3 2) 2 4\<rparr>"

lemma diamond_wiring:
  "ordered_deps_of (en_deps diamond_engine) x = (if x = 2 then [1, 3] else if x = 3 then [1] else if x = 4 then [2] else [])"
  "subs_of (en_deps diamond_engine) x = (if x = 1 then {2, 3} else if x = 3 then {2} else if x = 2 then {4} else {})"
  "map_option n_kind (graph_node (en_graph diamond_engine) x) = (if x = 1 then Some Input
     else if x = 2 then Some (Computed MeetAll) else if x = 3 \<or> x = 4 then Some (Computed Identity_rule) else None)"
  by (auto simp: diamond_engine_def)

lemma diamond_ready: "write_ready diamond_engine"
proof -
  have wf: "world_wf (en_world diamond_engine)"
    unfolding diamond_engine_def by (simp add: world_wf_connect world_wf_create)
  have e: "diamond_engine = engine_new\<lparr>en_world := en_world diamond_engine\<rparr>" by (simp add: diamond_engine_def)
  note fresh = fresh_engine[OF wf, folded e]
  have d: "dims_contains (pm_dims (projection_mask (dm_label dep_meta_default))) Attribute"
    "dm_last_seen dep_meta_default = TIME_ZERO"
    by code_simp+
  have "all_eager (en_deps diamond_engine)" "metas_complete (en_deps diamond_engine)"
    "attribute_edges (en_deps diamond_engine)" "seen_by (en_time diamond_engine) (en_deps diamond_engine)"
    using d by (auto simp: diamond_engine_def all_eager_def metas_complete_def attribute_edges_def seen_by_def
        TIME_ZERO_def split: if_splits)
  moreover have "{(a, b). b \<in> subs_of (en_deps diamond_engine) a} \<subseteq> {(1, 2), (1, 3), (3, 2), (2, 4)}"
    by (auto simp: diamond_wiring(2) split: if_splits)
  from card_mono[OF _ this] have "card {(a, b). b \<in> subs_of (en_deps diamond_engine) a} \<le> 4" by simp
  ultimately show ?thesis using fresh by (simp add: write_ready_def TIME_ZERO_def)
qed

theorem set_value_settles_witness:
  "\<exists>e' evs. engine_apply (map const_of) (SetValue 1 Pos) diamond_engine = Some (e', Inr evs)
     \<and> map (w_value (en_world e')) [1, 3, 2] = [Pos, Pos, Pos]"
proof -
  have r: "at_rest diamond_engine" "en_mode diamond_engine = Advisory" "set (en_handled diamond_engine) \<subseteq> {0}"
    "all_eager (en_deps diamond_engine)" "metas_complete (en_deps diamond_engine)" "attribute_edges (en_deps diamond_engine)"
    "seen_by (en_time diamond_engine) (en_deps diamond_engine)" "attribute (en_time diamond_engine) \<noteq> - 1"
    "2 * card {(a, b). b \<in> subs_of (en_deps diamond_engine) a} \<le> en_max_steps diamond_engine"
    using diamond_ready by (simp_all add: write_ready_def)
  have inp: "is_input (en_world diamond_engine) 1" using diamond_wiring(3)[of 1] by (auto simp: is_input_def)
  have old: "w_value (en_world diamond_engine) 1 = Neg"
    using value_of_node[of "en_world diamond_engine" 1 "node_input 1 ''in''"] r(1)
    by (simp add: at_rest_def diamond_engine_def)
  obtain e' evs where s: "engine_apply (map const_of) (SetValue 1 Pos) diamond_engine = Some (e', Inr evs)"
    "w_value (en_world e') 1 = Pos"
    "\<forall>x. x \<in> subs_of (en_deps diamond_engine) 1
      \<and> \<not> (\<exists>p a b. p \<noteq> 1 \<and> x \<in> subs_of (en_deps diamond_engine) p \<and> a \<in> below (en_deps diamond_engine) 1
         \<and> b \<in> below (en_deps diamond_engine) 1 \<and> a \<noteq> b \<and> p \<in> subs_of (en_deps diamond_engine) a
         \<and> p \<in> subs_of (en_deps diamond_engine) b) \<longrightarrow> current (en_world e') x"
    "same_topology (en_deps diamond_engine) (en_deps e')"
    "\<forall>x. map_option n_kind (graph_node (en_graph e') x) = map_option n_kind (graph_node (en_graph diamond_engine) x)"
    using set_value_settles[OF r inp, of "map const_of" Pos] inp old by auto
  have c: "current (en_world e') 2" "current (en_world e') 3"
    using s(3) by (auto simp: diamond_wiring(2) split: if_splits)
  have d: "dep_values (en_world e') x = map (w_value (en_world e')) (ordered_deps_of (en_deps diamond_engine) x)" for x
    by (simp add: dep_values_def same_topology_queries(4)[OF s(4)])
  have "w_value (en_world e') 3 = Pos"
    using c(2) s(2) by (simp add: current_def s(5) d diamond_wiring push_target_def slice_get_def)
  moreover from this have "w_value (en_world e') 2 = Pos"
    using c(1) s(2) by (simp add: current_def s(5) d diamond_wiring push_target_def meet_def)
  ultimately show ?thesis using s(1,2) by simp
qed

end
