(* ===== verification/Pipeline.thy ===== *)
theory Pipeline
  imports Dispatch_Safety Join_Settle
begin

text \<open>
  The session layer and the engine composed: a value write that the encoder put on the wire runs
  through the decoder, the gates, the parser and the engine, and settles the graph of its shard.
\<close>

lemma set_value_wire:
  assumes "uid_image i = i"
  shows "op_fits (SetValue i v)" "wire_image (SetValue i v) = SetValue i v" "length (write_payload (SetValue i v)) = 9"
    "required_disclosure (SetValue i v) = None"
  using assms by (simp_all add: put_uid_def put_u64_def put_i8_def required_disclosure_def)

text \<open>Admission never refuses a value write on a registered partition.\<close>

lemma set_value_admitted:
  assumes "passes_gates (context_header (SetValue i v) ctx) rt"
    "aget (dr_partitions (rt_domains rt)) (rc_partition_id ctx) = Some pt"
  shows "snd (route_record (context_header (SetValue i v) ctx) rt) = RO_Admitted OC_SetValue"
  using assms by (simp add: route_admitted room_for_def context_header_def from_opcode_def record_shard_def)

text \<open>
  C5. A written value from the wire to the settled graph.  Take a write to an input node whose id fits
  the wire, encoded by the encoder for the session of the stream, in order, with a session that
  passes the gates and a registered partition; let the engine of the partition's shard be at rest in
  advisory mode with all nodes eager, every edge subject to attribute time and stamped no later than
  the clock, a tick left on the clock, and a step limit of at least twice the number of edges.  Then the
  dispatcher applies the record on that shard, and what it does is the engine's \<open>SetValue\<close>: the pool
  holds the engine this leaves, and the events handed out are the events it returns.  The input holds
  the value; every computed node of that engine that was at the value its dependencies call for, and,
  if the value is new, every subscriber of the input, is at the value its rule gives now, unless it
  directly reads a node two of whose dependencies can be reached from the input.  The other engines,
  the authority rows and the partitions are untouched.
\<close>

theorem encoded_write_settles:
  fixes d :: "'key dispatcher" and ctx :: record_context
  assumes stream: "sdec_preamble (dp_decoder d) = Some pre" "rc_session_id ctx = pr_session_id pre"
      "above_trace (dp_decoder d) (context_header (SetValue i v) ctx)" "uid_image i = i"
    and gates: "passes_gates (context_header (SetValue i v) ctx) (dp_runtime d)"
      "aget (dr_partitions (rt_domains (dp_runtime d))) (rc_partition_id ctx) = Some pt"
      "aget (ep_engines (dp_shards d)) (pt_shard_id pt) = Some e"
    and engine: "at_rest e" "en_mode e = Advisory" "set (en_handled e) \<subseteq> {0}" "all_eager (en_deps e)"
      "metas_complete (en_deps e)" "attribute_edges (en_deps e)" "seen_by (en_time e) (en_deps e)"
      "attribute (en_time e) \<noteq> - 1" "2 * card {(a, b). b \<in> subs_of (en_deps e) a} \<le> en_max_steps e"
      "is_input (en_world e) i"
  shows "\<exists>d' e' evs. process_record verify S (take 48 (encode_record (SetValue i v) ctx))
        (drop 48 (encode_record (SetValue i v) ctx)) d = Some (d', Inr (DO_Applied (pt_shard_id pt) evs))
    \<and> engine_apply S (SetValue i v) e = Some (e', Inr evs)
    \<and> aget (ep_engines (dp_shards d')) (pt_shard_id pt) = Some e' \<and> w_value (en_world e') i = v
    \<and> (\<forall>x. (current (en_world e) x \<or> v \<noteq> w_value (en_world e) i \<and> x \<in> subs_of (en_deps e) i)
          \<and> \<not> reads_join (en_deps e) i x \<longrightarrow> current (en_world e') x)
    \<and> (\<forall>t. t \<noteq> pt_shard_id pt \<longrightarrow> aget (ep_engines (dp_shards d')) t = aget (ep_engines (dp_shards d)) t)
    \<and> rt_auth (dp_runtime d') = rt_auth (dp_runtime d)
    \<and> dr_partitions (rt_domains (dp_runtime d')) = dr_partitions (rt_domains (dp_runtime d))"
proof -
  let ?x = "SetValue i v" and ?s = "pt_shard_id pt"
  note x = set_value_wire[OF stream(4), of v]
  have "write_ready e" using engine(1-9) by (simp add: write_ready_def)
  from write_settles[OF this engine(10), of S v] engine(10) obtain e1 evs where
    e1: "engine_apply S ?x e = Some (e1, Inr evs)" "w_value (en_world e1) i = v"
      "\<forall>x. (current (en_world e) x \<or> v \<noteq> w_value (en_world e) i \<and> x \<in> subs_of (en_deps e) i)
          \<and> \<not> reads_join (en_deps e) i x \<longrightarrow> current (en_world e1) x"
    by auto
  obtain pl where pl: "pool_apply S ?s (wire_image ?x) (dp_shards d) = Some (pl, Inr evs)"
    using e1(1) gates(3) by (auto simp: pool_apply_iff engine_at_def stream(4) map_err_def)
  obtain dec where dec: "decode_record (take 48 (encode_record ?x ctx)) (dp_decoder d) = (dec, Inr (RA_RouteReady (context_header ?x ctx)))"
    using record_decodes[OF stream(1,2) _ stream(3)] x(3) by (cases "decode_record (take 48 (encode_record ?x ctx)) (dp_decoder d)") auto
  obtain rt where rt: "route_record (context_header ?x ctx) (dp_runtime d) = (rt, RO_Admitted OC_SetValue)"
    using set_value_admitted[OF gates(1,2)] by (metis prod.collapse)
  note keep = route_keepsD[OF rt]
  have s: "?s = partition_shard rt (rc_partition_id ctx)"
    using gates(2) by (simp add: partition_shard_def keep(1))
  have run: "process_record verify S (take 48 (encode_record ?x ctx)) (drop 48 (encode_record ?x ctx)) d
     = Some (after_apply (context_header ?x ctx) OC_SetValue ?x ?s (d\<lparr>dp_decoder := dec, dp_runtime := rt, dp_shards := pl\<rparr>),
         Inr (DO_Applied ?s evs))"
    using encoded_record_runs[OF dec rt x(1) _ s pl] by (simp add: stream(4) x(4))
  show ?thesis
    by (rule exI, rule exI[of _ e1], rule exI, intro conjI, rule run, rule e1(1))
      (use e1 gates(3) keep pool_apply_effect(2,3)[OF pl] in
        \<open>auto simp: engine_at_def stream(4) after_apply_def Let_def update_pressure_simps\<close>)
qed

definition linked_dispatcher :: "u64 dispatcher" where
  "linked_dispatcher = demo_dispatcher\<lparr>dp_shards := pool_new\<lparr>ep_engines := [(3, diamond_engine)]\<rparr>\<rparr>"

theorem encoded_write_settles_witness:
  "\<exists>d' e' evs. process_record (\<lambda>_ _ _. False) (map const_of) (take 48 (encode_record (SetValue 1 Pos) (demo_context 7 5)))
        (drop 48 (encode_record (SetValue 1 Pos) (demo_context 7 5))) linked_dispatcher = Some (d', Inr (DO_Applied 3 evs))
    \<and> aget (ep_engines (dp_shards d')) 3 = Some e' \<and> w_value (en_world e') 1 = Pos"
proof -
  let ?h = "context_header (SetValue 1 Pos) (demo_context 7 5)"
  note h = context_header_def demo_context_def context_simple_def
  have u: "uid_image 1 = 1" by (simp add: uid_image_id)
  have dec: "dp_decoder linked_dispatcher = decoder_new\<lparr>sdec_preamble := Some demo_preamble\<rparr>"
    "dp_runtime linked_dispatcher = demo_runtime" "ep_engines (dp_shards linked_dispatcher) = [(3, diamond_engine)]"
    by (simp_all add: linked_dispatcher_def demo_dispatcher_def)
  have s: "sdec_preamble (dp_decoder linked_dispatcher) = Some demo_preamble" by (simp add: dec)
  have c: "rc_session_id (demo_context 7 5) = pr_session_id demo_preamble" by (simp add: h demo_preamble_def)
  have a: "above_trace (dp_decoder linked_dispatcher) ?h" by (simp add: dec above_trace_def decoder_new_def)
  have g: "passes_gates ?h (dp_runtime linked_dispatcher)"
    by (simp add: dec h passes_gates_def demo_runtime_def one_session_def session_create_def session_at_def
        runtime_new_def auth_new_def gate_def)
  have p: "aget (dr_partitions (rt_domains (dp_runtime linked_dispatcher))) (rc_partition_id (demo_context 7 5))
      = Some \<lparr>pt_id = 7, pt_session_id = 1, pt_lattice_class = CLASS_BOTTOM, pt_causal_scope = 0, pt_shard_id = 3\<rparr>"
    by (simp add: dec h demo_runtime_def register_partition_def domains_new_def)
  have e: "aget (ep_engines (dp_shards linked_dispatcher)) (pt_shard_id \<lparr>pt_id = 7, pt_session_id = 1,
      pt_lattice_class = CLASS_BOTTOM, pt_causal_scope = 0, pt_shard_id = 3\<rparr>) = Some diamond_engine"
    by (simp add: dec aget_def)
  have inp: "is_input (en_world diamond_engine) 1" using diamond_wiring(3)[of 1] by (auto simp: is_input_def)
  have r: "at_rest diamond_engine" "en_mode diamond_engine = Advisory" "set (en_handled diamond_engine) \<subseteq> {0}"
    "all_eager (en_deps diamond_engine)" "metas_complete (en_deps diamond_engine)" "attribute_edges (en_deps diamond_engine)"
    "seen_by (en_time diamond_engine) (en_deps diamond_engine)" "attribute (en_time diamond_engine) \<noteq> - 1"
    "2 * card {(a, b). b \<in> subs_of (en_deps diamond_engine) a} \<le> en_max_steps diamond_engine"
    using diamond_ready by (simp_all add: write_ready_def)
  show ?thesis
    using encoded_write_settles[OF s c a u g p e r inp, of "\<lambda>_ _ _. False" "map const_of"] by fastforce
qed

end
