(* ===== verification/Eclass_Summary.thy ===== *)
theory Eclass_Summary
  imports Prelude Complex_Main
begin

text \<open>
  The summary of an equivalence class, \<open>EClassSummary\<close> of \<^verbatim>\<open>core-rs/src/egraph.rs\<close>: what of a class is
  observable, and the version that counts its changes.  An id of a class is a type variable; nothing
  in the engine holds a summary.
\<close>

section \<open>Costs\<close>

text \<open>A 64-bit float: a rational, an infinity with its sign, or not a number.\<close>

datatype f64 = Fin rat | Infinite bool | NaN

text \<open>\<open>(a - b).abs() > f64::EPSILON\<close>.  The subtraction rounds to nearest, ties to even: a difference up to and
  including the middle between \<open>2 ^ -52\<close> and its successor \<open>2 ^ -52 + 2 ^ -104\<close> becomes at most \<open>2 ^ -52\<close>.
  Equal infinities differ by not a number, which compares as false.\<close>

fun differs :: "f64 \<Rightarrow> f64 \<Rightarrow> bool" where
  "differs (Fin x) (Fin y) = (\<bar>x - y\<bar> > 1 / 2 ^ 52 + 1 / 2 ^ 105)"
| "differs (Infinite s) (Infinite s') = (s \<noteq> s')"
| "differs (Infinite s) (Fin y) = True"
| "differs (Fin x) (Infinite s) = True"
| "differs NaN b = False"
| "differs a NaN = False"

section \<open>Summaries\<close>

record 'id eclass_summary =
  es_canonical :: 'id
  es_cost :: f64
  es_type_sig :: string
  es_boundary_shape :: u64
  es_version :: u64

definition summary_new :: "'id \<Rightarrow> f64 \<Rightarrow> string \<Rightarrow> u64 \<Rightarrow> 'id eclass_summary" where
  "summary_new c cost sig shape =
     \<lparr>es_canonical = c, es_cost = cost, es_type_sig = sig, es_boundary_shape = shape, es_version = 0\<rparr>"

definition summary_update :: "'id \<Rightarrow> f64 \<Rightarrow> string \<Rightarrow> u64 \<Rightarrow> 'id eclass_summary \<Rightarrow> 'id eclass_summary \<times> bool" where
  "summary_update c cost sig shape s =
     (let changed = (es_canonical s \<noteq> c \<or> differs (es_cost s) cost \<or> es_type_sig s \<noteq> sig \<or> es_boundary_shape s \<noteq> shape)
      in (if changed
          then s\<lparr>es_canonical := c, es_cost := cost, es_type_sig := sig, es_boundary_shape := shape,
                 es_version := es_version s + 1\<rparr>
          else s, changed))"

text \<open>Reporting the same summary again changes nothing; a sequence of reports that each differ from the
  summary held counts each of them.\<close>

lemma differs_irrefl: "\<not> differs a a"
  by (cases a) simp_all

lemma update_again: "summary_update c cost sig shape s = (s', b) \<Longrightarrow> b \<Longrightarrow> summary_update c cost sig shape s' = (s', False)"
  by (auto simp: summary_update_def Let_def differs_irrefl split: if_splits)

lemma update_version: "summary_update c cost sig shape s = (s', b) \<Longrightarrow> es_version s' = es_version s + (if b then 1 else 0)"
  by (auto simp: summary_update_def Let_def split: if_splits)

text \<open>Once a cost that is not a number is held, no cost is noticed until another field changes.\<close>

lemma cost_lost:
  assumes "es_cost s = NaN" "es_canonical s = c" "es_type_sig s = sig" "es_boundary_shape s = shape"
  shows "summary_update c cost sig shape s = (s, False)"
  using assms by (simp add: summary_update_def)

end
