(* ===== verification/Simulator.thy ===== *)
theory Simulator
  imports Runtime Complex_Main
begin

text \<open>
  The deterministic simulator, \<^verbatim>\<open>session-rs/src/sim\<close>: a cluster of session runtimes, one per shard, a
  message bus with injected faults, and a tick that delivers what is due and gossips the pressure of
  every live shard.  A drop rate is the rational value of the \<open>f32\<close> (not a number and the infinities
  are left out); a random \<open>f32\<close> is a 31-bit integer rounded to 24 bits over \<open>2 ^ 31\<close>.
\<close>

section \<open>Random numbers (\<open>sim/mod.rs\<close>)\<close>

type_synonym lcg64 = u64

definition lcg_new :: "u64 \<Rightarrow> lcg64" where
  "lcg_new seed = seed + 1"

definition next_u64 :: "lcg64 \<Rightarrow> lcg64 \<times> u64" where
  "next_u64 g = (let s = g * 6364136223846793005 + 1442695040888963407 in (s, s))"

text \<open>The conversion of an integer to \<open>f32\<close>: 24 significant bits, ties to even.\<close>

fun bit_length :: "nat \<Rightarrow> nat" where
  "bit_length n = (if n = 0 then 0 else Suc (bit_length (n div 2)))"

declare bit_length.simps [simp del]

definition to_f32 :: "nat \<Rightarrow> nat" where
  "to_f32 n = (if n < 2 ^ 24 then n else
     let e = bit_length n - 24; q = n div 2 ^ e; r = n mod 2 ^ e; h = 2 ^ (e - 1) in
     (if r > h \<or> r = h \<and> odd q then q + 1 else q) * 2 ^ e)"

definition next_f32 :: "lcg64 \<Rightarrow> lcg64 \<times> rat" where
  "next_f32 g = (let (g1, x) = next_u64 g in (g1, of_nat (to_f32 (unat (drop_bit 33 x))) / 2 ^ 31))"

text \<open>A remainder by zero panics.\<close>

definition next_usize_below :: "nat \<Rightarrow> lcg64 \<Rightarrow> (lcg64 \<times> nat) option" where
  "next_usize_below n g = (let (g1, x) = next_u64 g in if n = 0 then None else Some (g1, unat x mod n))"

section \<open>Faults (\<open>sim/faults.rs\<close>)\<close>

record fault_policy =
  drop_rate :: rat
  max_delay_ticks :: u32
  partitioned :: "(u64 \<times> u64) set"

definition faults_default :: fault_policy where
  "faults_default = \<lparr>drop_rate = 0, max_delay_ticks = 0, partitioned = {}\<rparr>"

definition with_drop_rate :: "rat \<Rightarrow> fault_policy \<Rightarrow> fault_policy" where
  "with_drop_rate r f = f\<lparr>drop_rate := (if r < 0 then 0 else if r > 1 then 1 else r)\<rparr>"

definition with_max_delay :: "u32 \<Rightarrow> fault_policy \<Rightarrow> fault_policy" where
  "with_max_delay k f = f\<lparr>max_delay_ticks := k\<rparr>"

definition add_partition :: "shard_id \<Rightarrow> shard_id \<Rightarrow> fault_policy \<Rightarrow> fault_policy" where
  "add_partition a b f = f\<lparr>partitioned := insert (min a b, max a b) (partitioned f)\<rparr>"

definition remove_partition :: "shard_id \<Rightarrow> shard_id \<Rightarrow> fault_policy \<Rightarrow> fault_policy" where
  "remove_partition a b f = f\<lparr>partitioned := partitioned f - {(min a b, max a b)}\<rparr>"

definition is_partitioned :: "fault_policy \<Rightarrow> shard_id \<Rightarrow> shard_id \<Rightarrow> bool" where
  "is_partitioned f a b \<longleftrightarrow> (min a b, max a b) \<in> partitioned f"

definition sample_delay_ticks :: "fault_policy \<Rightarrow> lcg64 \<Rightarrow> lcg64 \<times> u32" where
  "sample_delay_ticks f g =
     (if max_delay_ticks f = 0 then (g, 1)
      else let (g1, x) = next_u64 g in (g1, 1 + (ucast x mod max_delay_ticks f)))"

section \<open>Message bus (\<open>sim/network.rs\<close>)\<close>

datatype pending_msg = TopologyGossip (msg_src: shard_id) (msg_dst: shard_id) (msg_pressure: shard_pressure) (deliver_at: u64)

record sim_network =
  pending :: "pending_msg list"
  faults :: fault_policy

definition network_new :: sim_network where
  "network_new = \<lparr>pending = [], faults = faults_default\<rparr>"

definition enqueue_msg :: "pending_msg \<Rightarrow> sim_network \<Rightarrow> sim_network" where
  "enqueue_msg m nw = nw\<lparr>pending := pending nw @ [m]\<rparr>"

definition drain_due :: "u64 \<Rightarrow> sim_network \<Rightarrow> sim_network \<times> pending_msg list" where
  "drain_due now nw = (nw\<lparr>pending := filter (\<lambda>m. \<not> deliver_at m \<le> now) (pending nw)\<rparr>,
     filter (\<lambda>m. deliver_at m \<le> now) (pending nw))"

definition pending_count :: "sim_network \<Rightarrow> nat" where
  "pending_count nw = length (pending nw)"

section \<open>Cluster (\<open>sim/mod.rs\<close>)\<close>

datatype shard_lifecycle = SL_Alive | SL_Crashed | SL_Recovering

record 'key sim_cluster =
  sc_shards :: "(shard_id, 'key session_runtime) amap"
  sc_lifecycle :: "shard_id \<Rightarrow> shard_lifecycle option"
  sc_network :: sim_network
  sc_rng :: lcg64
  sc_epoch :: u64
  sc_tick :: u64

definition HEALTHY :: shard_pressure where
  "HEALTHY = \<lparr>queue_depth = 0, budget_consumed = 0, cursor_count = 0\<rparr>"

definition NEG_PRESSURE :: shard_pressure where
  "NEG_PRESSURE = \<lparr>queue_depth = 0, budget_consumed = 0, cursor_count = 1\<rparr>"

definition set_shards ::
  "((shard_id, 'key session_runtime) amap \<Rightarrow> (shard_id, 'key session_runtime) amap) \<Rightarrow> 'key sim_cluster \<Rightarrow> 'key sim_cluster" where
  "set_shards f c = c\<lparr>sc_shards := f (sc_shards c)\<rparr>"

text \<open>One shard of a new cluster: the tenant, its own address, its own pressure.\<close>

definition sim_shard :: "nat \<Rightarrow> 'key session_runtime" where
  "sim_shard i =
     (let s = of_nat i;
          rt = runtime_new\<lparr>rt_domains := register_tenant domains_new single_tenant\<rparr>;
          rt1 = rt\<lparr>rt_domains := domains_register_shard (rt_domains rt)
                  \<lparr>sh_id = s, sh_addr = Some \<lparr>fa_region = 0, fa_pod = 0, fa_rack = 0, fa_leaf = of_nat i\<rparr>\<rparr>\<rparr>
      in update_pressure s HEALTHY rt1)"

definition drain_events_of :: "'key session_runtime \<Rightarrow> 'key session_runtime \<times> telemetry_event list" where
  "drain_events_of rt = (let (t, evs) = drain_events (rt_telemetry rt) in (rt\<lparr>rt_telemetry := t\<rparr>, evs))"

definition sim_new :: "nat \<Rightarrow> u64 \<Rightarrow> 'key sim_cluster" where
  "sim_new n seed =
     (let shards = fold (\<lambda>i m. aput (of_nat i) (sim_shard i) m) [0..<n] [];
          ids = map fst shards;
          crossed = fold (\<lambda>dst m. fold (\<lambda>src m. if src = dst then m else amod dst (update_pressure src HEALTHY) m) ids m)
            ids shards
      in \<lparr>sc_shards = map (\<lambda>(s, rt). (s, fst (drain_events_of rt))) crossed,
          sc_lifecycle = (\<lambda>s. if s \<in> set ids then Some SL_Alive else None),
          sc_network = network_new, sc_rng = lcg_new seed, sc_epoch = 1, sc_tick = 0\<rparr>)"

subsection \<open>Tick\<close>

fun deliver :: "pending_msg \<Rightarrow> 'key sim_cluster \<Rightarrow> 'key sim_cluster" where
  "deliver (TopologyGossip src dst p t) c = set_shards (amod dst (update_pressure src p)) c"

definition alive_shards :: "'key sim_cluster \<Rightarrow> shard_id list" where
  "alive_shards c = filter (\<lambda>s. sc_lifecycle c s = Some SL_Alive) (map fst (sc_shards c))"

text \<open>The gossip of one shard to one other: dropped, or queued with a delay.\<close>

definition gossip_to :: "shard_id \<Rightarrow> shard_pressure \<Rightarrow> shard_id \<Rightarrow> 'key sim_cluster \<Rightarrow> 'key sim_cluster" where
  "gossip_to src p dst c =
     (let f = faults (sc_network c) in
      if dst = src \<or> is_partitioned f src dst then c
      else
        let (g1, dropped) = (if drop_rate f > 0 then let (g, x) = next_f32 (sc_rng c) in (g, x < drop_rate f)
                             else (sc_rng c, False)) in
        if dropped then c\<lparr>sc_rng := g1\<rparr>
        else
          let (g2, delay) = sample_delay_ticks f g1 in
          c\<lparr>sc_rng := g2,
            sc_network := enqueue_msg (TopologyGossip src dst p (sc_tick c + ucast delay)) (sc_network c)\<rparr>)"

definition own_pressure :: "'key sim_cluster \<Rightarrow> shard_id \<Rightarrow> shard_pressure option" where
  "own_pressure c s = Option.bind (aget (sc_shards c) s) (\<lambda>rt. rt_pressure rt s)"

definition gossip_from :: "shard_id list \<Rightarrow> shard_id \<Rightarrow> 'key sim_cluster \<Rightarrow> 'key sim_cluster" where
  "gossip_from alive src c = (case own_pressure c src of
      Some p \<Rightarrow> fold (gossip_to src p) alive c
    | None \<Rightarrow> c)"

definition tick_once :: "'key sim_cluster \<Rightarrow> 'key sim_cluster" where
  "tick_once c =
     (let c1 = c\<lparr>sc_tick := sc_tick c + 1, sc_epoch := sc_epoch c + 1\<rparr>;
          (nw, due) = drain_due (sc_tick c1) (sc_network c1);
          c2 = fold deliver due (c1\<lparr>sc_network := nw\<rparr>);
          alive = alive_shards c2
      in fold (gossip_from alive) alive c2)"

definition ticks :: "nat \<Rightarrow> 'key sim_cluster \<Rightarrow> 'key sim_cluster" where
  "ticks n = tick_once ^^ n"

subsection \<open>Injected faults\<close>

definition set_lifecycle :: "shard_id \<Rightarrow> shard_lifecycle \<Rightarrow> 'key sim_cluster \<Rightarrow> 'key sim_cluster" where
  "set_lifecycle s l c = c\<lparr>sc_lifecycle := (sc_lifecycle c)(s \<mapsto> l)\<rparr>"

text \<open>The loop reports to every shard but the crashed one, which is told last.\<close>

definition inject_neg_everywhere :: "shard_id \<Rightarrow> 'key sim_cluster \<Rightarrow> 'key sim_cluster" where
  "inject_neg_everywhere s c =
     (let c1 = fold (\<lambda>i c. if i = s then c else set_shards (amod i (update_pressure s NEG_PRESSURE)) c)
                 (map fst (sc_shards c)) c
      in set_shards (amod s (update_pressure s NEG_PRESSURE)) c1)"

definition crash_shard :: "shard_id \<Rightarrow> 'key sim_cluster \<Rightarrow> 'key sim_cluster" where
  "crash_shard s c = inject_neg_everywhere s (set_lifecycle s SL_Crashed c)"

definition heal_shard :: "shard_id \<Rightarrow> 'key sim_cluster \<Rightarrow> 'key sim_cluster" where
  "heal_shard s c = fold (\<lambda>i c. set_shards (amod i (update_pressure s HEALTHY)) c)
     (map fst (sc_shards c)) (set_lifecycle s SL_Alive c)"

definition set_faults :: "(fault_policy \<Rightarrow> fault_policy) \<Rightarrow> 'key sim_cluster \<Rightarrow> 'key sim_cluster" where
  "set_faults f c = c\<lparr>sc_network := (sc_network c)\<lparr>faults := f (faults (sc_network c))\<rparr>\<rparr>"

definition partition_network :: "shard_id list \<Rightarrow> shard_id list \<Rightarrow> 'key sim_cluster \<Rightarrow> 'key sim_cluster" where
  "partition_network as bs c = fold (\<lambda>a c. fold (\<lambda>b c. set_faults (add_partition a b) c) bs c) as c"

definition heal_network_partition :: "shard_id list \<Rightarrow> shard_id list \<Rightarrow> 'key sim_cluster \<Rightarrow> 'key sim_cluster" where
  "heal_network_partition as bs c = fold (\<lambda>a c. fold (\<lambda>b c. set_faults (remove_partition a b) c) bs c) as c"

subsection \<open>Sessions and queries\<close>

definition register_session_at :: "session_id \<Rightarrow> path_id \<Rightarrow> 'key session_runtime \<Rightarrow> 'key session_runtime" where
  "register_session_at sid path rt = rt\<lparr>
     rt_domains := register_session (rt_domains rt)
       \<lparr>sd_id = sid, sd_tenant_id = 0, claimed_policy = POLICY_ALL, sd_auth_mode = Advisory, sd_quota = session_quota_default\<rparr>,
     rt_sessions := session_create (rt_sessions rt)
       \<lparr>se_session_id = sid, se_tenant_id = 0, active_path_id = Some path, prev_path_id = None, stream_seq_floor = 0,
        se_auth_mode = Advisory, last_active_causal_epoch = 0, consecutive_quiescent_epochs = 0\<rparr>,
     rt_paths := path_create (rt_paths rt)
       \<lparr>pe_path_id = path, pe_session_id = sid, last_ack_stream_seq = 0, pe_state = PS_Active\<rparr>\<rparr>"

definition register_session_everywhere :: "session_id \<Rightarrow> path_id \<Rightarrow> 'key sim_cluster \<Rightarrow> 'key sim_cluster" where
  "register_session_everywhere sid path c =
     fold (\<lambda>i c. set_shards (amod i (register_session_at sid path)) c) (map fst (sc_shards c)) c"

text \<open>Indexing a shard that does not exist panics.\<close>

definition health_as_seen_by :: "'key sim_cluster \<Rightarrow> shard_id \<Rightarrow> shard_id \<Rightarrow> i8 option" where
  "health_as_seen_by c observer target = map_option (\<lambda>rt. shard_health (rt_topology rt) target) (aget (sc_shards c) observer)"

definition all_see_healthy :: "'key sim_cluster \<Rightarrow> shard_id \<Rightarrow> bool" where
  "all_see_healthy c target = list_all (\<lambda>(_, rt). shard_health (rt_topology rt) target = HEALTH_POS)
     (filter (\<lambda>(s, _). s \<noteq> target) (sc_shards c))"

definition none_see_pos :: "'key sim_cluster \<Rightarrow> shard_id \<Rightarrow> bool" where
  "none_see_pos c target = list_all (\<lambda>(_, rt). shard_health (rt_topology rt) target \<noteq> HEALTH_POS)
     (filter (\<lambda>(s, _). s \<noteq> target) (sc_shards c))"

definition drain_telemetry :: "shard_id \<Rightarrow> 'key sim_cluster \<Rightarrow> 'key sim_cluster \<times> telemetry_event list" where
  "drain_telemetry s c = (case aget (sc_shards c) s of
      Some rt \<Rightarrow> (let (rt1, evs) = drain_events_of rt in (set_shards (aput s rt1) c, evs))
    | None \<Rightarrow> (c, []))"

definition drain_topology_events :: "shard_id \<Rightarrow> 'key sim_cluster \<Rightarrow> 'key sim_cluster \<times> (shard_id \<times> i8 \<times> i8) list" where
  "drain_topology_events s c =
     (let (c1, evs) = drain_telemetry s c in
      (c1, List.map_filter (\<lambda>ev. case ev of TE_TopologyHealthChanged t old new \<Rightarrow> Some (t, old, new) | _ \<Rightarrow> None) evs))"

definition reap_all ::
  "expiry_policy \<Rightarrow> 'key sim_cluster \<Rightarrow> 'key sim_cluster \<times> (shard_id \<times> (session_id \<times> expiry_reason) list) list" where
  "reap_all pol c =
     (c\<lparr>sc_shards := map (\<lambda>(s, rt). (s, fst (run_reaper pol (sc_epoch c) rt))) (sc_shards c)\<rparr>,
      map (\<lambda>(s, rt). (s, snd (run_reaper pol (sc_epoch c) rt))) (sc_shards c))"

section \<open>Workloads (\<open>sim/workload.rs\<close>)\<close>

record workload_builder =
  wb_session_id :: session_id
  wb_partition_id :: wire_partition_id
  wb_tenant_id :: tenant_id
  wb_stream_seq :: u64
  wb_epoch :: u64
  wb_opcode :: u16

definition workload_set_value :: "session_id \<Rightarrow> wire_partition_id \<Rightarrow> workload_builder" where
  "workload_set_value sid pid = \<lparr>wb_session_id = sid, wb_partition_id = pid, wb_tenant_id = 0,
     wb_stream_seq = 1, wb_epoch = 1, wb_opcode = 0x0001\<rparr>"

definition workload_propagate :: "session_id \<Rightarrow> wire_partition_id \<Rightarrow> workload_builder" where
  "workload_propagate sid pid = (workload_set_value sid pid)\<lparr>wb_opcode := 0x0004\<rparr>"

definition workload_next :: "workload_builder \<Rightarrow> workload_builder \<times> parsed_header" where
  "workload_next w =
     (w\<lparr>wb_stream_seq := wb_stream_seq w + 1, wb_epoch := wb_epoch w + 1\<rparr>,
      \<lparr>ph_opcode = wb_opcode w, ph_flags = 0, ph_length = 16, ph_tenant_id = wb_tenant_id w,
       ph_session_id = wb_session_id w, ph_partition_id = wb_partition_id w,
       ph_causal_epoch = wb_epoch w, ph_stream_seq = wb_stream_seq w\<rparr>)"

fun workload_batch :: "nat \<Rightarrow> workload_builder \<Rightarrow> workload_builder \<times> parsed_header list" where
  "workload_batch 0 w = (w, [])"
| "workload_batch (Suc n) w =
     (let (w1, h) = workload_next w; (w2, hs) = workload_batch n w1 in (w2, h # hs))"

record cross_workload =
  cw_local :: workload_builder
  cw_remote :: workload_builder
  cw_toggle :: bool

definition cross_new :: "session_id \<Rightarrow> wire_partition_id \<Rightarrow> wire_partition_id \<Rightarrow> cross_workload" where
  "cross_new sid l r = \<lparr>cw_local = workload_set_value sid l, cw_remote = workload_set_value sid r, cw_toggle = False\<rparr>"

definition cross_next :: "cross_workload \<Rightarrow> cross_workload \<times> parsed_header \<times> bool" where
  "cross_next w =
     (let is_remote = cw_toggle w; w1 = w\<lparr>cw_toggle := \<not> cw_toggle w\<rparr> in
      if is_remote then (let (b, h) = workload_next (cw_remote w1) in (w1\<lparr>cw_remote := b\<rparr>, h, True))
      else (let (b, h) = workload_next (cw_local w1) in (w1\<lparr>cw_local := b\<rparr>, h, False)))"

end
