(* ===== verification/Sim_Properties.thy ===== *)
theory Sim_Properties
  imports Simulator Decode
begin

text \<open>
  What the simulated cluster of \<open>session-rs/src/sim/mod.rs\<close> does over many ticks: the effect of one tick
  on the queue of the network and on what a shard believes of another, the effect of a crash and of a
  heal, and three properties of runs of any length: a crash is forgotten when gossip of the crashed
  shard is still in flight, gossip between two live shards converges within a bound on the ticks, and
  separated shards learn nothing of each other.
\<close>

section \<open>What a shard sees\<close>

abbreviation shards_of :: "'key sim_cluster \<Rightarrow> shard_id set" where
  "shards_of c \<equiv> dom (aget (sc_shards c))"

lemma amod_present: "dom (aget (amod i f m)) = dom (aget m)"
  by (auto simp: dom_def split: if_splits)

lemma keys_amod: "map fst (amod i f m) = map fst m"
  by (cases "map_of m i") (auto simp: amod_def aget_def update_keys dest: map_of_SomeD intro: rev_image_eqI)

definition carries :: "shard_id \<Rightarrow> shard_id \<Rightarrow> pending_msg \<Rightarrow> bool" where
  "carries s ob m \<longleftrightarrow> msg_src m = s \<and> msg_dst m = ob"

lemma deliver_seen:
  "health_as_seen_by (deliver m c) ob s = (if carries s ob m \<and> ob \<in> shards_of c
     then Some (health_from_pressure (msg_pressure m)) else health_as_seen_by c ob s)"
  by (cases m; cases "aget (sc_shards c) ob")
    (auto simp: health_as_seen_by_def set_shards_def carries_def update_pressure_simps topology_update_health)

lemma deliver_frame [simp]:
  "shards_of (deliver m c) = shards_of c" "map fst (sc_shards (deliver m c)) = map fst (sc_shards c)"
  "sc_network (deliver m c) = sc_network c" "sc_lifecycle (deliver m c) = sc_lifecycle c"
  "sc_tick (deliver m c) = sc_tick c" "sc_rng (deliver m c) = sc_rng c"
  by (cases m; simp add: set_shards_def amod_present keys_amod)+

lemma deliver_own: "msg_src m \<noteq> msg_dst m \<Longrightarrow> own_pressure (deliver m c) s = own_pressure c s"
  by (cases m; cases "aget (sc_shards c) s") (auto simp: own_pressure_def set_shards_def update_pressure_simps)

lemma deliver_all_frame [simp]:
  "shards_of (fold deliver ms c) = shards_of c" "map fst (sc_shards (fold deliver ms c)) = map fst (sc_shards c)"
  "sc_network (fold deliver ms c) = sc_network c" "sc_lifecycle (fold deliver ms c) = sc_lifecycle c"
  "sc_tick (fold deliver ms c) = sc_tick c"
  by (induction ms arbitrary: c) simp_all

lemma deliver_all_own:
  "\<forall>m \<in> set ms. msg_src m \<noteq> msg_dst m \<Longrightarrow> own_pressure (fold deliver ms c) s = own_pressure c s"
  by (induction ms arbitrary: c) (simp_all add: deliver_own)

lemma deliver_all_seen:
  assumes "ob \<in> shards_of c"
  shows "health_as_seen_by (fold deliver ms c) ob s = (case filter (carries s ob) ms of
       [] \<Rightarrow> health_as_seen_by c ob s
     | m # ms' \<Rightarrow> Some (health_from_pressure (msg_pressure (last (m # ms')))))"
  using assms
proof (induction ms arbitrary: c)
  case (Cons m ms)
  show ?case
    using Cons.IH[of "deliver m c"] Cons.prems by (auto simp: deliver_seen split: list.split)
qed simp

section \<open>What a tick sends\<close>

definition max_lag :: "fault_policy \<Rightarrow> nat" where
  "max_lag f = max 1 (unat (max_delay_ticks f))"

text \<open>A sampled delay is at least one tick and at most the bound.\<close>

lemma sampled_delay:
  "1 \<le> unat (snd (sample_delay_ticks f g)) \<and> unat (snd (sample_delay_ticks f g)) \<le> max_lag f"
proof (cases "max_delay_ticks f = 0")
  case False
  define r where "r = (ucast (snd (next_u64 g)) :: u32) mod max_delay_ticks f"
  have "0 < unat (max_delay_ticks f)" using False by (simp add: unat_gt_0)
  then have "unat r < unat (max_delay_ticks f)" by (simp add: r_def unat_mod_distrib)
  moreover have "unat (max_delay_ticks f) < 2 ^ LENGTH(32)" by (rule unsigned_less)
  ultimately have "unat (1 + r) = Suc (unat r)" "unat r < unat (max_delay_ticks f)" by (simp_all add: unat_word_ariths)
  then show ?thesis using False
    by (simp add: sample_delay_ticks_def Let_def split_beta r_def max_lag_def)
qed (simp add: sample_delay_ticks_def max_lag_def)

text \<open>The messages that may be sent at the present tick.\<close>

definition sendable :: "'key sim_cluster \<Rightarrow> pending_msg \<Rightarrow> bool" where
  "sendable c m \<longleftrightarrow> msg_src m \<in> set (alive_shards c) \<and> msg_dst m \<in> set (alive_shards c) \<and> msg_src m \<noteq> msg_dst m
     \<and> \<not> is_partitioned (faults (sc_network c)) (msg_src m) (msg_dst m)
     \<and> own_pressure c (msg_src m) = Some (msg_pressure m)
     \<and> (\<exists>k. 1 \<le> k \<and> k \<le> max_lag (faults (sc_network c)) \<and> deliver_at m = sc_tick c + of_nat k)"

text \<open>Gossip only adds sendable messages and draws random numbers.\<close>

definition sends :: "'key sim_cluster \<Rightarrow> 'key sim_cluster \<Rightarrow> bool" where
  "sends c c' \<longleftrightarrow> (\<exists>ms g. c' = c\<lparr>sc_rng := g, sc_network := (sc_network c)\<lparr>pending := pending (sc_network c) @ ms\<rparr>\<rparr>
     \<and> (\<forall>m \<in> set ms. sendable c m))"

lemma sends_refl: "sends c c"
  unfolding sends_def by (rule exI[of _ "[]"], rule exI[of _ "sc_rng c"]) simp

lemma sendable_cong:
  "sc_shards c' = sc_shards c \<Longrightarrow> sc_lifecycle c' = sc_lifecycle c \<Longrightarrow> faults (sc_network c') = faults (sc_network c)
     \<Longrightarrow> sc_tick c' = sc_tick c \<Longrightarrow> sendable c' = sendable c"
  by (simp add: sendable_def fun_eq_iff alive_shards_def own_pressure_def)

lemma sends_trans:
  assumes "sends c c1" "sends c1 c2"
  shows "sends c c2"
proof -
  obtain ms g where 1: "c1 = c\<lparr>sc_rng := g, sc_network := (sc_network c)\<lparr>pending := pending (sc_network c) @ ms\<rparr>\<rparr>"
    "\<forall>m \<in> set ms. sendable c m"
    using assms(1) by (auto simp: sends_def)
  moreover have "sendable c1 = sendable c" by (rule sendable_cong) (simp_all add: 1(1))
  moreover obtain ms' g' where "c2 = c1\<lparr>sc_rng := g', sc_network := (sc_network c1)\<lparr>pending := pending (sc_network c1) @ ms'\<rparr>\<rparr>"
    "\<forall>m \<in> set ms'. sendable c1 m"
    using assms(2) by (auto simp: sends_def)
  ultimately show ?thesis
    unfolding sends_def by (intro exI[of _ "ms @ ms'"] exI[of _ g']) auto
qed

lemma gossip_to_sends:
  assumes "src \<in> set (alive_shards c)" "dst \<in> set (alive_shards c)" "own_pressure c src = Some p"
  shows "sends c (gossip_to src p dst c)"
    "\<lbrakk>drop_rate (faults (sc_network c)) \<le> 0; dst \<noteq> src; \<not> is_partitioned (faults (sc_network c)) src dst\<rbrakk> \<Longrightarrow>
       \<exists>m \<in> set (pending (sc_network (gossip_to src p dst c))). carries src dst m \<and> sendable c m"
proof -
  let ?f = "faults (sc_network c)"
  define x where "x = (if drop_rate ?f > 0 then let (g, x) = next_f32 (sc_rng c) in (g, x < drop_rate ?f) else (sc_rng c, False))"
  define y where "y = sample_delay_ticks ?f (fst x)"
  have g: "gossip_to src p dst c = (if dst = src \<or> is_partitioned ?f src dst then c
      else if snd x then c\<lparr>sc_rng := fst x\<rparr>
      else c\<lparr>sc_rng := fst y, sc_network := enqueue_msg (TopologyGossip src dst p (sc_tick c + ucast (snd y))) (sc_network c)\<rparr>)"
    unfolding gossip_to_def Let_def x_def[symmetric, unfolded Let_def] by (simp add: split_beta y_def)
  have s: "sendable c (TopologyGossip src dst p (sc_tick c + ucast (snd y)))" if "dst \<noteq> src" "\<not> is_partitioned ?f src dst"
    using assms that sampled_delay[of ?f "fst x"] unfolding sendable_def y_def
    by (auto intro!: exI[of _ "unat (snd (sample_delay_ticks ?f (fst x)))"])
  show "sends c (gossip_to src p dst c)"
  proof (cases "dst = src \<or> is_partitioned ?f src dst")
    case False
    show ?thesis
    proof (cases "snd x")
      case True
      then show ?thesis unfolding sends_def g using False by (intro exI[of _ "[]"] exI[of _ "fst x"]) simp
    next
      case False': False
      then show ?thesis unfolding sends_def g using False s
        by (intro exI[of _ "[TopologyGossip src dst p (sc_tick c + ucast (snd y))]"] exI[of _ "fst y"])
          (simp add: enqueue_msg_def)
    qed
  qed (simp add: g sends_refl)
  show "\<exists>m \<in> set (pending (sc_network (gossip_to src p dst c))). carries src dst m \<and> sendable c m"
    if "drop_rate ?f \<le> 0" "dst \<noteq> src" "\<not> is_partitioned ?f src dst"
    using that s unfolding g by (simp add: x_def enqueue_msg_def carries_def)
qed

lemma sends_frame:
  assumes "sends c c'"
  shows "sc_shards c' = sc_shards c" "sc_lifecycle c' = sc_lifecycle c" "sc_tick c' = sc_tick c"
    "faults (sc_network c') = faults (sc_network c)" "alive_shards c' = alive_shards c" "own_pressure c' = own_pressure c"
    "sendable c' = sendable c" "set (pending (sc_network c)) \<subseteq> set (pending (sc_network c'))"
    "m \<in> set (pending (sc_network c')) \<Longrightarrow> m \<in> set (pending (sc_network c)) \<or> sendable c m"
proof -
  obtain ms g where c': "c' = c\<lparr>sc_rng := g, sc_network := (sc_network c)\<lparr>pending := pending (sc_network c) @ ms\<rparr>\<rparr>"
    "\<forall>m \<in> set ms. sendable c m"
    using assms by (auto simp: sends_def)
  show "sendable c' = sendable c" by (rule sendable_cong) (simp_all add: c'(1))
  show "m \<in> set (pending (sc_network c')) \<Longrightarrow> m \<in> set (pending (sc_network c)) \<or> sendable c m"
    using c' by auto
qed (use assms in \<open>auto simp: sends_def alive_shards_def own_pressure_def fun_eq_iff\<close>)

lemma fold_sends:
  assumes "\<And>x c'. x \<in> set xs \<Longrightarrow> sends c c' \<Longrightarrow> sends c' (f x c')"
  shows "sends c (fold f xs c)"
  using assms
proof (induction xs arbitrary: c)
  case (Cons x xs)
  have 1: "sends c (f x c)" by (rule Cons.prems) (simp_all add: sends_refl)
  moreover have "sends (f x c) (fold f xs (f x c))"
    by (rule Cons.IH) (use Cons.prems sends_trans[OF 1] in auto)
  ultimately show ?case using sends_trans by auto
qed (simp add: sends_refl)

text \<open>A fold of sending steps passes through each of them.\<close>

lemma fold_sends_at:
  assumes "\<And>x c'. x \<in> set xs \<Longrightarrow> sends c c' \<Longrightarrow> sends c' (f x c')" "y \<in> set xs"
  shows "\<exists>c1. sends c c1 \<and> sends (f y c1) (fold f xs c)"
proof -
  obtain us vs where xs: "xs = us @ y # vs" using assms(2) by (meson split_list)
  have 1: "sends c (fold f us c)" by (rule fold_sends) (use assms(1) xs in auto)
  then have 2: "sends c (f y (fold f us c))" using assms(1)[of y] xs sends_trans by fastforce
  have "sends (f y (fold f us c)) (fold f vs (f y (fold f us c)))"
    by (rule fold_sends) (use assms(1) xs sends_trans[OF 2] in auto)
  then show ?thesis using 1 xs by auto
qed

lemma gossip_from_sends:
  assumes "src \<in> set (alive_shards c)" "alive = alive_shards c"
  shows "sends c (gossip_from alive src c)"
    "\<lbrakk>own_pressure c src = Some p; dst \<in> set alive; dst \<noteq> src; drop_rate (faults (sc_network c)) \<le> 0;
      \<not> is_partitioned (faults (sc_network c)) src dst\<rbrakk> \<Longrightarrow>
       \<exists>m \<in> set (pending (sc_network (gossip_from alive src c))). carries src dst m \<and> sendable c m"
proof -
  have step: "sends c' (gossip_to src p x c')" if "x \<in> set alive" "sends c c'" "own_pressure c src = Some p" for x c' p
    by (rule gossip_to_sends(1)) (use that assms sends_frame(5,6)[OF that(2)] in simp_all)
  then show "sends c (gossip_from alive src c)"
    by (auto simp: gossip_from_def sends_refl intro!: fold_sends split: option.split)
  show "\<exists>m \<in> set (pending (sc_network (gossip_from alive src c))). carries src dst m \<and> sendable c m"
    if h: "own_pressure c src = Some p" "dst \<in> set alive" "dst \<noteq> src" "drop_rate (faults (sc_network c)) \<le> 0"
      "\<not> is_partitioned (faults (sc_network c)) src dst"
  proof -
    obtain c1 where c1: "sends c c1" "sends (gossip_to src p dst c1) (gossip_from alive src c)"
      using fold_sends_at[of alive c "gossip_to src p" dst] step[OF _ _ h(1)] h(1,2) by (auto simp: gossip_from_def)
    note f = sends_frame[OF c1(1)]
    obtain m where "m \<in> set (pending (sc_network (gossip_to src p dst c1)))" "carries src dst m" "sendable c1 m"
      using gossip_to_sends(2)[of src c1 dst p] h assms f by auto
    then show ?thesis using sends_frame(8)[OF c1(2)] f(7) by auto
  qed
qed

text \<open>The state after the deliveries of a tick.\<close>

definition due_now :: "'key sim_cluster \<Rightarrow> pending_msg list" where
  "due_now c = filter (\<lambda>m. deliver_at m \<le> sc_tick c + 1) (pending (sc_network c))"

definition delivered :: "'key sim_cluster \<Rightarrow> 'key sim_cluster" where
  "delivered c = fold deliver (due_now c)
     (c\<lparr>sc_tick := sc_tick c + 1, sc_epoch := sc_epoch c + 1,
        sc_network := (sc_network c)\<lparr>pending := filter (\<lambda>m. \<not> deliver_at m \<le> sc_tick c + 1) (pending (sc_network c))\<rparr>\<rparr>)"

lemma tick_once_delivered:
  "tick_once c = fold (gossip_from (alive_shards (delivered c))) (alive_shards (delivered c)) (delivered c)"
  by (simp add: tick_once_def delivered_def due_now_def drain_due_def Let_def)

lemma delivered_frame:
  "sc_tick (delivered c) = sc_tick c + 1" "sc_lifecycle (delivered c) = sc_lifecycle c"
  "faults (sc_network (delivered c)) = faults (sc_network c)" "shards_of (delivered c) = shards_of c"
  "pending (sc_network (delivered c)) = filter (\<lambda>m. \<not> deliver_at m \<le> sc_tick c + 1) (pending (sc_network c))"
  "alive_shards (delivered c) = alive_shards c"
  by (simp_all add: delivered_def alive_shards_def)

lemma tick_sends: "sends (delivered c) (tick_once c)"
  unfolding tick_once_delivered
proof (rule fold_sends)
  fix x c' assume "x \<in> set (alive_shards (delivered c))" "sends (delivered c) c'"
  then show "sends c' (gossip_from (alive_shards (delivered c)) x c')"
    by (intro gossip_from_sends(1)) (simp_all add: sends_frame(5)[of "delivered c" c'])
qed

lemma tick_sends_each:
  assumes "own_pressure (delivered c) src = Some p" "src \<in> set (alive_shards c)" "dst \<in> set (alive_shards c)" "dst \<noteq> src"
    "drop_rate (faults (sc_network c)) \<le> 0" "\<not> is_partitioned (faults (sc_network c)) src dst"
  shows "\<exists>m \<in> set (pending (sc_network (tick_once c))). carries src dst m \<and> sendable (delivered c) m"
proof -
  let ?al = "alive_shards (delivered c)"
  have step: "sends c' (gossip_from ?al x c')" if "x \<in> set ?al" "sends (delivered c) c'" for x c'
    by (intro gossip_from_sends(1)) (use that sends_frame(5)[OF that(2)] in simp_all)
  have "src \<in> set ?al" using assms(2) by (simp only: delivered_frame)
  then have "\<exists>c1. sends (delivered c) c1 \<and> sends (gossip_from ?al src c1) (tick_once c)"
    unfolding tick_once_delivered by (intro fold_sends_at) (use step in simp_all)
  then obtain c1 where c1: "sends (delivered c) c1" "sends (gossip_from ?al src c1) (tick_once c)" by blast
  note f = sends_frame(4-7)[OF c1(1)]
  have "\<exists>m \<in> set (pending (sc_network (gossip_from ?al src c1))). carries src dst m \<and> sendable c1 m"
    by (rule gossip_from_sends(2)[where p = p]) (use assms in \<open>simp_all only: f delivered_frame not_False_eq_True\<close>)
  then obtain m where "m \<in> set (pending (sc_network (gossip_from ?al src c1)))" "carries src dst m" "sendable c1 m" by blast
  then show ?thesis using sends_frame(8)[OF c1(2)] f(4) by auto
qed

lemma tick_frame:
  "sc_tick (tick_once c) = sc_tick c + 1" "sc_lifecycle (tick_once c) = sc_lifecycle c"
  "faults (sc_network (tick_once c)) = faults (sc_network c)" "shards_of (tick_once c) = shards_of c"
  "alive_shards (tick_once c) = alive_shards c" "sc_shards (tick_once c) = sc_shards (delivered c)"
  using sends_frame[OF tick_sends[of c]] delivered_frame[of c] by simp_all

text \<open>A tick changes what a shard sees only by the last message due.\<close>

lemma tick_seen:
  assumes "ob \<in> shards_of c"
  shows "health_as_seen_by (tick_once c) ob s = (case filter (carries s ob) (due_now c) of
       [] \<Rightarrow> health_as_seen_by c ob s
     | m # ms \<Rightarrow> Some (health_from_pressure (msg_pressure (last (m # ms)))))"
proof -
  let ?c = "c\<lparr>sc_tick := sc_tick c + 1, sc_epoch := sc_epoch c + 1,
        sc_network := (sc_network c)\<lparr>pending := filter (\<lambda>m. \<not> deliver_at m \<le> sc_tick c + 1) (pending (sc_network c))\<rparr>\<rparr>"
  have "health_as_seen_by (tick_once c) ob s = health_as_seen_by (fold deliver (due_now c) ?c) ob s"
    by (simp add: health_as_seen_by_def tick_frame(6) delivered_def)
  also have "\<dots> = (case filter (carries s ob) (due_now c) of
       [] \<Rightarrow> health_as_seen_by ?c ob s
     | m # ms \<Rightarrow> Some (health_from_pressure (msg_pressure (last (m # ms)))))"
    by (rule deliver_all_seen) (use assms in simp)
  finally show ?thesis by (simp add: health_as_seen_by_def cong: list.case_cong)
qed

lemma tick_own:
  assumes "\<forall>m \<in> set (pending (sc_network c)). msg_src m \<noteq> msg_dst m"
  shows "own_pressure (delivered c) s = own_pressure c s" "own_pressure (tick_once c) s = own_pressure c s"
proof -
  have "\<forall>m \<in> set (due_now c). msg_src m \<noteq> msg_dst m" using assms by (simp add: due_now_def)
  then have "own_pressure (delivered c) s = own_pressure (c\<lparr>sc_tick := sc_tick c + 1, sc_epoch := sc_epoch c + 1,
        sc_network := (sc_network c)\<lparr>pending := filter (\<lambda>m. \<not> deliver_at m \<le> sc_tick c + 1) (pending (sc_network c))\<rparr>\<rparr>) s"
    unfolding delivered_def by (rule deliver_all_own)
  then show "own_pressure (delivered c) s = own_pressure c s" by (simp add: own_pressure_def)
  then show "own_pressure (tick_once c) s = own_pressure c s" using sends_frame(6)[OF tick_sends[of c]] by simp
qed

text \<open>What is in flight after a tick: what was and is not due, or what was sent now.\<close>

lemma tick_pending:
  "m \<in> set (pending (sc_network (tick_once c))) \<Longrightarrow>
     m \<in> set (pending (sc_network c)) \<and> \<not> deliver_at m \<le> sc_tick c + 1 \<or> sendable (delivered c) m"
  "m \<in> set (pending (sc_network c)) \<Longrightarrow> \<not> deliver_at m \<le> sc_tick c + 1 \<Longrightarrow> m \<in> set (pending (sc_network (tick_once c)))"
  using sends_frame(8)[OF tick_sends[of c]] sends_frame(9)[OF tick_sends[of c], of m]
  by (auto simp: delivered_frame(5))

section \<open>Crash and recovery\<close>

lemma tell_seen:
  "health_as_seen_by (set_shards (amod i (update_pressure s p)) c) ob t
     = (if i = ob \<and> t = s \<and> ob \<in> shards_of c then Some (health_from_pressure p) else health_as_seen_by c ob t)"
  by (cases "aget (sc_shards c) ob")
    (auto simp: health_as_seen_by_def set_shards_def update_pressure_simps topology_update_health)

lemma tell_shards [simp]:
  "shards_of (set_shards (amod i f) c) = shards_of c" "map fst (sc_shards (set_shards (amod i f) c)) = map fst (sc_shards c)"
  "sc_network (set_shards g c) = sc_network c" "sc_lifecycle (set_shards g c) = sc_lifecycle c" "sc_tick (set_shards g c) = sc_tick c"
  by (simp_all add: set_shards_def amod_present keys_amod)

lemma tell_all_seen:
  "health_as_seen_by (fold (\<lambda>i c. if i = x then c else set_shards (amod i (update_pressure s p)) c) ids c) ob t
     = (if ob \<in> set ids \<and> ob \<noteq> x \<and> t = s \<and> ob \<in> shards_of c then Some (health_from_pressure p)
        else health_as_seen_by c ob t)"
  "health_as_seen_by (fold (\<lambda>i c. set_shards (amod i (update_pressure s p)) c) ids c) ob t
     = (if ob \<in> set ids \<and> t = s \<and> ob \<in> shards_of c then Some (health_from_pressure p) else health_as_seen_by c ob t)"
  by (induction ids arbitrary: c) (auto simp: tell_seen)

lemma tell_all_frame:
  "shards_of (fold (\<lambda>i c. if i = x then c else set_shards (amod i f) c) ids c) = shards_of c"
  "sc_network (fold (\<lambda>i c. if i = x then c else set_shards (amod i f) c) ids c) = sc_network c"
  "sc_lifecycle (fold (\<lambda>i c. if i = x then c else set_shards (amod i f) c) ids c) = sc_lifecycle c"
  "sc_tick (fold (\<lambda>i c. if i = x then c else set_shards (amod i f) c) ids c) = sc_tick c"
  by (induction ids arbitrary: c) simp_all

lemma shard_ids: "ob \<in> shards_of c \<Longrightarrow> ob \<in> set (map fst (sc_shards c))"
  by (force simp: aget_def dest: map_of_SomeD)

lemma neg_health: "health_from_pressure NEG_PRESSURE = HEALTH_NEG" "health_from_pressure HEALTHY = HEALTH_POS"
  by (simp_all add: health_from_pressure_def NEG_PRESSURE_def HEALTHY_def HOT_CURSOR_COUNT_def CONGESTED_QUEUE_DEPTH_def)

lemma crash_effect:
  assumes "ob \<in> shards_of c"
  shows "health_as_seen_by (crash_shard s c) ob t = (if t = s then Some HEALTH_NEG else health_as_seen_by c ob t)"
  using assms shard_ids[OF assms]
  by (auto simp: crash_shard_def inject_neg_everywhere_def set_lifecycle_def Let_def tell_seen tell_all_seen
      tell_all_frame neg_health health_as_seen_by_def[of "c\<lparr>sc_lifecycle := _\<rparr>"] health_as_seen_by_def[of c])

lemma crash_frame:
  "shards_of (crash_shard s c) = shards_of c" "sc_network (crash_shard s c) = sc_network c"
  "sc_lifecycle (crash_shard s c) = (sc_lifecycle c)(s \<mapsto> SL_Crashed)" "sc_tick (crash_shard s c) = sc_tick c"
  by (simp_all add: crash_shard_def inject_neg_everywhere_def set_lifecycle_def Let_def tell_all_frame)

lemma heal_effect:
  assumes "ob \<in> shards_of c"
  shows "health_as_seen_by (heal_shard s c) ob t = (if t = s then Some HEALTH_POS else health_as_seen_by c ob t)"
  using assms shard_ids[OF assms]
  by (auto simp: heal_shard_def set_lifecycle_def tell_all_seen neg_health
      health_as_seen_by_def[of "c\<lparr>sc_lifecycle := _\<rparr>"] health_as_seen_by_def[of c])

lemma heal_alive: "sc_lifecycle (heal_shard s c) s = Some SL_Alive"
proof -
  have "sc_lifecycle (fold (\<lambda>i c. set_shards (amod i f) c) ids c) = sc_lifecycle c" for f ids and c :: "'a sim_cluster"
    by (induction ids arbitrary: c) simp_all
  then show ?thesis by (simp add: heal_shard_def set_lifecycle_def)
qed

lemma none_see_pos_iff:
  assumes "awf (sc_shards c)"
  shows "none_see_pos c s \<longleftrightarrow> (\<forall>ob \<in> shards_of c. ob \<noteq> s \<longrightarrow> health_as_seen_by c ob s \<noteq> Some HEALTH_POS)"
  using aget_in_set[OF assms]
  by (fastforce simp: none_see_pos_def health_as_seen_by_def list_all_iff)

lemma tick_seen_last:
  assumes "ob \<in> shards_of c" "filter (carries s ob) (due_now c) = xs @ [m]"
  shows "health_as_seen_by (tick_once c) ob s = Some (health_from_pressure (msg_pressure m))"
  by (cases xs) (simp_all add: tick_seen[OF assms(1)] assms(2))

text \<open>Shards that are not alive send nothing.\<close>

lemma silent_tick:
  assumes "sc_lifecycle c s \<noteq> Some SL_Alive"
    and "\<forall>m \<in> set (pending (sc_network c)). carries s ob m \<longrightarrow> deliver_at m \<le> sc_tick c + 1"
  shows "\<forall>m \<in> set (pending (sc_network (tick_once c))). \<not> carries s ob m"
  using assms tick_pending(1)[of _ c]
  by (auto simp: sendable_def alive_shards_def carries_def delivered_frame)

lemma silent_ticks:
  assumes "sc_lifecycle c s \<noteq> Some SL_Alive" "\<forall>m \<in> set (pending (sc_network c)). \<not> carries s ob m" "ob \<in> shards_of c"
  shows "health_as_seen_by (ticks n c) ob s = health_as_seen_by c ob s"
  using assms
proof (induction n arbitrary: c)
  case (Suc n)
  have "health_as_seen_by (tick_once c) ob s = health_as_seen_by c ob s"
    using Suc.prems(2,3) by (simp add: tick_seen due_now_def filter_empty_conv[THEN iffD2])
  moreover have "health_as_seen_by (ticks n (tick_once c)) ob s = health_as_seen_by (tick_once c) ob s"
    using Suc.prems silent_tick[of c s ob] by (intro Suc.IH) (simp_all add: tick_frame delivered_frame)
  ultimately show ?case by (simp add: ticks_def funpow_swap1)
qed (simp add: ticks_def)

lemma lifecycle_ticks: "sc_lifecycle (ticks n c) = sc_lifecycle c"
  by (induction n) (simp_all add: ticks_def tick_frame)

text \<open>What an observer sees of a crashed shard: the last message in flight if it is due, else the crash.\<close>

lemma crash_seen_forever:
  assumes "ob \<in> shards_of c" "\<forall>m \<in> set (pending (sc_network c)). \<not> (msg_src m = s \<and> msg_dst m = ob)"
  shows "health_as_seen_by (ticks n (crash_shard s c)) ob s = Some HEALTH_NEG"
  using silent_ticks[of "crash_shard s c" s ob n] assms crash_effect[OF assms(1)]
  by (simp add: crash_frame carries_def)

lemma crash_overwritten:
  assumes "ob \<in> shards_of c" "pending (sc_network c) = ms @ TopologyGossip s ob p t # ms'" "t \<le> sc_tick c + 1"
    and "\<forall>m \<in> set ms. msg_src m = s \<and> msg_dst m = ob \<longrightarrow> deliver_at m \<le> sc_tick c + 1"
    and "\<forall>m \<in> set ms'. \<not> (msg_src m = s \<and> msg_dst m = ob)"
  shows "health_as_seen_by (ticks (Suc n) (crash_shard s c)) ob s = Some (health_from_pressure p)"
proof -
  let ?c = "crash_shard s c"
  have ob: "ob \<in> shards_of ?c" using assms(1) by (simp add: crash_frame)
  have nil: "filter (carries s ob) (filter Q ms') = []" for Q using assms(5) by (auto simp: filter_empty_conv carries_def)
  have "filter (carries s ob) (due_now ?c) = filter (carries s ob) (filter (\<lambda>m. deliver_at m \<le> sc_tick c + 1) ms)
      @ [TopologyGossip s ob p t]"
    using assms(3) by (simp add: due_now_def crash_frame assms(2) nil del: filter_filter) (simp add: carries_def)
  then have seen: "health_as_seen_by (tick_once ?c) ob s = Some (health_from_pressure p)"
    using tick_seen_last[OF ob] by simp
  have "\<forall>m \<in> set (pending (sc_network ?c)). carries s ob m \<longrightarrow> deliver_at m \<le> sc_tick ?c + 1"
    using assms(2-5) by (auto simp: crash_frame carries_def)
  then have "\<forall>m \<in> set (pending (sc_network (tick_once ?c))). \<not> carries s ob m"
    by (intro silent_tick) (simp_all add: crash_frame)
  then have "health_as_seen_by (ticks n (tick_once ?c)) ob s = Some (health_from_pressure p)"
    using silent_ticks[of "tick_once ?c" s ob n] seen ob by (simp add: tick_frame delivered_frame crash_frame)
  then show ?thesis by (simp add: ticks_def funpow_swap1)
qed

text \<open>
  C34. A crash is seen at once and forgotten by the next gossip.  In every state of a cluster,
  \<open>crash_shard\<close> makes every shard, the crashed one included, see it as unhealthy and changes no other
  view, and \<open>heal_shard\<close> makes every shard see it as healthy and changes no other view; a crashed shard
  stays crashed through any number of ticks.  An observer to whom no message of the crashed shard is in
  flight (the crashed shard itself never sends to itself) keeps seeing it as unhealthy through any
  number of ticks.  But gossip that is in flight is not recalled: if the last message from the crashed
  shard to an observer is due at the next tick, then after that tick and any number of further ones the
  observer sees the crashed shard with the health that message carries; so after a healthy report, the
  crashed shard is seen as healthy for good.
\<close>

theorem crash_forgotten:
  "(\<forall>ob \<in> shards_of c. \<forall>k.
        health_as_seen_by (crash_shard s c) ob k = (if k = s then Some HEALTH_NEG else health_as_seen_by c ob k)
      \<and> health_as_seen_by (heal_shard s c) ob k = (if k = s then Some HEALTH_POS else health_as_seen_by c ob k))
    \<and> (\<forall>n. sc_lifecycle (ticks n (crash_shard s c)) s = Some SL_Crashed)
    \<and> sc_lifecycle (heal_shard s c) s = Some SL_Alive
    \<and> (\<forall>ob \<in> shards_of c. (\<forall>m \<in> set (pending (sc_network c)). \<not> (msg_src m = s \<and> msg_dst m = ob))
        \<longrightarrow> (\<forall>n. health_as_seen_by (ticks n (crash_shard s c)) ob s = Some HEALTH_NEG))
    \<and> (\<forall>ob \<in> shards_of c. \<forall>ms ms' p t. pending (sc_network c) = ms @ TopologyGossip s ob p t # ms' \<and> t \<le> sc_tick c + 1
          \<and> (\<forall>m \<in> set ms. msg_src m = s \<and> msg_dst m = ob \<longrightarrow> deliver_at m \<le> sc_tick c + 1)
          \<and> (\<forall>m \<in> set ms'. \<not> (msg_src m = s \<and> msg_dst m = ob))
        \<longrightarrow> (\<forall>n. health_as_seen_by (ticks (Suc n) (crash_shard s c)) ob s = Some (health_from_pressure p)))"
proof (intro conjI ballI allI impI)
  fix ob k assume ob: "ob \<in> shards_of c"
  show "health_as_seen_by (crash_shard s c) ob k = (if k = s then Some HEALTH_NEG else health_as_seen_by c ob k)"
    by (rule crash_effect[OF ob])
  show "health_as_seen_by (heal_shard s c) ob k = (if k = s then Some HEALTH_POS else health_as_seen_by c ob k)"
    by (rule heal_effect[OF ob])
next
  show "sc_lifecycle (ticks n (crash_shard s c)) s = Some SL_Crashed" for n
    by (simp add: lifecycle_ticks crash_frame)
  show "sc_lifecycle (heal_shard s c) s = Some SL_Alive" by (rule heal_alive)
next
  fix ob n assume "ob \<in> shards_of c" "\<forall>m \<in> set (pending (sc_network c)). \<not> (msg_src m = s \<and> msg_dst m = ob)"
  then show "health_as_seen_by (ticks n (crash_shard s c)) ob s = Some HEALTH_NEG" by (rule crash_seen_forever)
next
  fix ob ms ms' p t n
  assume "ob \<in> shards_of c" and "pending (sc_network c) = ms @ TopologyGossip s ob p t # ms' \<and> t \<le> sc_tick c + 1
          \<and> (\<forall>m \<in> set ms. msg_src m = s \<and> msg_dst m = ob \<longrightarrow> deliver_at m \<le> sc_tick c + 1)
          \<and> (\<forall>m \<in> set ms'. \<not> (msg_src m = s \<and> msg_dst m = ob))"
  then show "health_as_seen_by (ticks (Suc n) (crash_shard s c)) ob s = Some (health_from_pressure p)"
    using crash_overwritten[of ob c ms s p t ms' n] by blast
qed

theorem crash_forgotten_witness:
  "let c = crash_shard 1 (tick_once (sim_new 2 7 :: u64 sim_cluster)) in
     health_as_seen_by c 0 1 = Some HEALTH_NEG \<and> health_as_seen_by (ticks 100 c) 1 1 = Some HEALTH_NEG
   \<and> sc_lifecycle (ticks 100 c) 1 = Some SL_Crashed \<and> health_as_seen_by (ticks 100 c) 0 1 = Some HEALTH_POS"
proof -
  let ?c = "tick_once (sim_new 2 7 :: u64 sim_cluster)"
  have "pending (sc_network ?c) = [TopologyGossip 0 1 HEALTHY 2] @ TopologyGossip 1 0 HEALTHY 2 # []
      \<and> sc_tick ?c = 1 \<and> map fst (sc_shards ?c) = [0, 1]"
    by code_simp
  then have p: "pending (sc_network ?c) = [TopologyGossip 0 1 HEALTHY 2] @ TopologyGossip 1 0 HEALTHY 2 # []" "sc_tick ?c = 1"
    "map fst (sc_shards ?c) = [0, 1]"
    by simp_all
  have d: "0 \<in> shards_of ?c"
    using p(3) by (force simp: aget_def map_of_eq_None_iff dom_def simp flip: list.set_map intro: ccontr)
  have d1: "1 \<in> shards_of ?c"
    using p(3) by (force simp: aget_def map_of_eq_None_iff dom_def simp flip: list.set_map intro: ccontr)
  note f = conjunct2[OF crash_forgotten[of ?c 1]]
  have "health_as_seen_by (ticks (Suc 99) (crash_shard 1 ?c)) 0 1 = Some (health_from_pressure HEALTHY)"
    by (rule f[THEN conjunct2, THEN conjunct2, THEN conjunct2, rule_format, OF d,
          of "[TopologyGossip 0 1 HEALTHY 2]" _ 2 "[]"]) (simp add: p)
  then have pos: "health_as_seen_by (ticks 100 (crash_shard 1 ?c)) 0 1 = Some HEALTH_POS"
    by (simp add: neg_health)
  have neg: "health_as_seen_by (ticks 100 (crash_shard 1 ?c)) 1 1 = Some HEALTH_NEG"
    by (rule f[THEN conjunct2, THEN conjunct2, THEN conjunct1, rule_format, OF d1]) (auto simp: p)
  have crashed: "sc_lifecycle (ticks 100 (crash_shard 1 ?c)) 1 = Some SL_Crashed"
    by (rule f[THEN conjunct1, rule_format])
  have "health_as_seen_by (crash_shard 1 ?c) 0 1 = Some HEALTH_NEG"
    using conjunct1[OF crash_forgotten[of ?c 1], rule_format, OF d, of 1] by simp
  then show ?thesis using pos neg crashed by (simp only: Let_def)
qed

section \<open>Gossip converges\<close>

text \<open>Two live shards on a network that drops nothing between them; what is in flight comes from
  others and within the bound on delays.\<close>

definition steady :: "shard_id \<Rightarrow> shard_id \<Rightarrow> shard_pressure \<Rightarrow> 'key sim_cluster \<Rightarrow> bool" where
  "steady s ob p c \<longleftrightarrow> s \<noteq> ob \<and> s \<in> set (alive_shards c) \<and> ob \<in> set (alive_shards c)
     \<and> own_pressure c s = Some p \<and> drop_rate (faults (sc_network c)) \<le> 0
     \<and> \<not> is_partitioned (faults (sc_network c)) s ob
     \<and> (\<forall>m \<in> set (pending (sc_network c)). msg_src m \<noteq> msg_dst m
          \<and> unat (deliver_at m) \<le> unat (sc_tick c) + max_lag (faults (sc_network c)))"

lemma alive_is_shard: "ob \<in> set (alive_shards c) \<Longrightarrow> ob \<in> shards_of c"
  by (auto simp: alive_shards_def aget_def map_of_eq_None_iff dom_def)

lemma next_tick: "unat (t :: u64) + k < 2 ^ 64 \<Longrightarrow> unat (t + of_nat k) = unat t + k"
  by (subst unat_word_ariths) (simp add: unat_of_nat)

lemma next_tick1: "unat (t :: u64) + 1 < 2 ^ 64 \<Longrightarrow> unat (t + 1) = unat t + 1"
  using next_tick[of t 1] by simp

lemma sendable_due:
  assumes "sendable (delivered c) m" "unat (sc_tick c) + 1 + max_lag (faults (sc_network c)) < 2 ^ 64"
  shows "unat (deliver_at m) \<le> unat (sc_tick c) + 1 + max_lag (faults (sc_network c))"
    "unat (sc_tick c) + 1 < unat (deliver_at m)"
proof -
  obtain k where k: "1 \<le> k" "k \<le> max_lag (faults (sc_network c))" "deliver_at m = sc_tick c + 1 + of_nat k"
    using assms(1) by (auto simp: sendable_def delivered_frame)
  have "unat (sc_tick c + 1) = unat (sc_tick c) + 1" using assms(2) by (intro next_tick1) simp
  then have "unat (deliver_at m) = unat (sc_tick c) + 1 + k"
    using assms(2) k next_tick[of "sc_tick c + 1" k] by simp
  with k show "unat (deliver_at m) \<le> unat (sc_tick c) + 1 + max_lag (faults (sc_network c))"
    "unat (sc_tick c) + 1 < unat (deliver_at m)" by simp_all
qed

lemma steady_tick:
  assumes "steady s ob p c" "unat (sc_tick c) + 1 + max_lag (faults (sc_network c)) < 2 ^ 64"
  shows "steady s ob p (tick_once c)" "unat (sc_tick (tick_once c)) = unat (sc_tick c) + 1"
proof -
  show t: "unat (sc_tick (tick_once c)) = unat (sc_tick c) + 1"
    using next_tick1[of "sc_tick c"] assms(2) by (simp add: tick_frame)
  have "msg_src m \<noteq> msg_dst m \<and> unat (deliver_at m) \<le> unat (sc_tick (tick_once c)) + max_lag (faults (sc_network c))"
    if "m \<in> set (pending (sc_network (tick_once c)))" for m
    using tick_pending(1)[OF that] sendable_due(1)[OF _ assms(2), of m] assms(1)
    unfolding t by (auto simp: steady_def sendable_def)
  then show "steady s ob p (tick_once c)"
    using assms(1) tick_own(2)[of c s] by (simp add: steady_def tick_frame)
qed

lemma steady_ticks:
  assumes "steady s ob p c" "unat (sc_tick c) + n + max_lag (faults (sc_network c)) < 2 ^ 64"
  shows "steady s ob p (ticks n c) \<and> unat (sc_tick (ticks n c)) = unat (sc_tick c) + n
    \<and> faults (sc_network (ticks n c)) = faults (sc_network c)"
  using assms(2)
proof (induction n)
  case (Suc n)
  then show ?case using steady_tick[of s ob p "ticks n c"] by (simp add: ticks_def tick_frame)
qed (simp add: ticks_def assms(1))

text \<open>A message in flight from \<open>s\<close> to \<open>ob\<close> is current or overdue at \<open>b\<close>.\<close>

definition stale_until :: "nat \<Rightarrow> shard_id \<Rightarrow> shard_id \<Rightarrow> shard_pressure \<Rightarrow> 'key sim_cluster \<Rightarrow> bool" where
  "stale_until b s ob p c \<longleftrightarrow>
     (\<forall>m \<in> set (pending (sc_network c)). carries s ob m \<longrightarrow> msg_pressure m = p \<or> unat (deliver_at m) \<le> b)"

lemma sent_current:
  assumes "steady s ob p c" "sendable (delivered c) m" "carries s ob m"
  shows "msg_pressure m = p"
  using assms tick_own(1)[of c s] by (auto simp: steady_def sendable_def carries_def)

lemma stale_tick:
  assumes "steady s ob p c" "stale_until b s ob p c"
  shows "stale_until b s ob p (tick_once c)"
  using assms(2) tick_pending(1)[of _ c] sent_current[OF assms(1)] unfolding stale_until_def by blast

lemma not_due: "\<not> (x :: u64) \<le> t + 1 \<Longrightarrow> unat t + 1 < 2 ^ 64 \<Longrightarrow> unat t + 1 < unat x"
  using next_tick1[of t] by (simp add: word_le_nat_alt)

lemma stale_gone:
  assumes "steady s ob p c" "stale_until b s ob p c" "unat (sc_tick c) + 1 < 2 ^ 64" "b \<le> unat (sc_tick c) + 1"
  shows "\<forall>m \<in> set (pending (sc_network (tick_once c))). carries s ob m \<longrightarrow> msg_pressure m = p"
proof (intro ballI impI)
  fix m assume m: "m \<in> set (pending (sc_network (tick_once c)))" "carries s ob m"
  from tick_pending(1)[OF m(1)] show "msg_pressure m = p"
  proof
    assume "m \<in> set (pending (sc_network c)) \<and> \<not> deliver_at m \<le> sc_tick c + 1"
    then show ?thesis using assms(2,4) m(2) not_due[OF _ assms(3), of "deliver_at m"] unfolding stale_until_def by fastforce
  qed (use sent_current[OF assms(1) _ m(2)] in blast)
qed

text \<open>From then on every delivery tells the truth.\<close>

definition truth_by :: "nat \<Rightarrow> shard_id \<Rightarrow> shard_id \<Rightarrow> shard_pressure \<Rightarrow> 'key sim_cluster \<Rightarrow> bool" where
  "truth_by k s ob p c \<longleftrightarrow> (\<forall>m \<in> set (pending (sc_network c)). carries s ob m \<longrightarrow> msg_pressure m = p)
     \<and> (health_as_seen_by c ob s = Some (health_from_pressure p)
        \<or> (\<exists>m \<in> set (pending (sc_network c)). carries s ob m \<and> unat (deliver_at m) \<le> k))"

lemma truth_tick:
  assumes "steady s ob p c" "truth_by k s ob p c" "unat (sc_tick c) + 1 < 2 ^ 64"
  shows "truth_by k s ob p (tick_once c)"
    "k \<le> unat (sc_tick c) + 1 \<Longrightarrow> health_as_seen_by (tick_once c) ob s = Some (health_from_pressure p)"
proof -
  have ob: "ob \<in> shards_of c" using assms(1) alive_is_shard[of ob c] by (simp add: steady_def)
  have all: "\<forall>m \<in> set (pending (sc_network (tick_once c))). carries s ob m \<longrightarrow> msg_pressure m = p"
    using assms(2) tick_pending(1)[of _ c] sent_current[OF assms(1)] unfolding truth_by_def by blast
  have now: "health_as_seen_by (tick_once c) ob s = Some (health_from_pressure p)"
    if "filter (carries s ob) (due_now c) \<noteq> []"
  proof -
    let ?m = "last (filter (carries s ob) (due_now c))"
    have "?m \<in> set (pending (sc_network c))" "carries s ob ?m"
      using last_in_set[OF that] by (simp_all add: due_now_def)
    then have "msg_pressure ?m = p" using assms(2) by (simp add: truth_by_def)
    then show ?thesis using tick_seen_last[OF ob append_butlast_last_id[OF that, symmetric]] by simp
  qed
  have kept: "health_as_seen_by (tick_once c) ob s = health_as_seen_by c ob s"
    "\<And>m. m \<in> set (pending (sc_network c)) \<Longrightarrow> carries s ob m \<Longrightarrow> \<not> deliver_at m \<le> sc_tick c + 1"
    if "filter (carries s ob) (due_now c) = []"
    using that by (simp_all add: tick_seen[OF ob]) (auto simp: due_now_def filter_empty_conv)
  show "truth_by k s ob p (tick_once c)"
    using now kept all assms(2) tick_pending(2)[of _ c] unfolding truth_by_def by metis
  show "health_as_seen_by (tick_once c) ob s = Some (health_from_pressure p)" if "k \<le> unat (sc_tick c) + 1"
  proof (rule ccontr)
    assume no: "health_as_seen_by (tick_once c) ob s \<noteq> Some (health_from_pressure p)"
    then have e: "filter (carries s ob) (due_now c) = []" using now by blast
    then obtain m where m: "m \<in> set (pending (sc_network c))" "carries s ob m" "unat (deliver_at m) \<le> k"
      using no kept(1) assms(2) by (auto simp: truth_by_def)
    show False using not_due[OF kept(2)[OF e m(1,2)] assms(3)] m(3) that by simp
  qed
qed

lemma truth_ticks:
  assumes "steady s ob p c" "truth_by k s ob p c" "unat (sc_tick c) + n + max_lag (faults (sc_network c)) < 2 ^ 64"
  shows "truth_by k s ob p (ticks n c)"
    "0 < n \<Longrightarrow> k \<le> unat (sc_tick c) + n \<Longrightarrow> health_as_seen_by (ticks n c) ob s = Some (health_from_pressure p)"
proof -
  have step: "truth_by k s ob p (ticks m c)" if "m \<le> n" for m
    using that
  proof (induction m)
    case (Suc m)
    then show ?case
      using truth_tick(1)[of s ob p "ticks m c" k] steady_ticks[OF assms(1), of m] assms(3) by (simp add: ticks_def)
  qed (simp add: ticks_def assms(2))
  show "truth_by k s ob p (ticks n c)" using step by simp
  assume n: "0 < n" "k \<le> unat (sc_tick c) + n"
  then obtain m where m: "n = Suc m" by (cases n) auto
  show "health_as_seen_by (ticks n c) ob s = Some (health_from_pressure p)"
    using truth_tick(2)[of s ob p "ticks m c" k] step[of m] steady_ticks[OF assms(1), of m] assms(3) n(2)
    by (simp add: m ticks_def)
qed

lemma ticks_add: "ticks (m + n) c = ticks n (ticks m c)"
  by (simp add: ticks_def funpow_add add.commute[of m n])

text \<open>
  C33. Gossip converges.  Let two shards be alive, with a network that drops nothing and does not
  separate them, delays of at most \<open>lag\<close> ticks, and whatever stale messages in flight within that
  bound.  Then however the random delays fall and whatever the other shards report, after twice
  \<open>lag\<close> ticks without intervention, and ever after, the one sees the other with exactly the health
  of the pressure that the other has of itself.
\<close>

theorem gossip_converges:
  assumes "s \<noteq> ob" "s \<in> set (alive_shards c)" "ob \<in> set (alive_shards c)" "own_pressure c s = Some p"
    and "drop_rate (faults (sc_network c)) \<le> 0" "\<not> is_partitioned (faults (sc_network c)) s ob"
    and "\<forall>m \<in> set (pending (sc_network c)). msg_src m \<noteq> msg_dst m
           \<and> unat (deliver_at m) \<le> unat (sc_tick c) + max_lag (faults (sc_network c))"
    and "2 * max_lag (faults (sc_network c)) \<le> n" "unat (sc_tick c) + n + max_lag (faults (sc_network c)) < 2 ^ 64"
  shows "health_as_seen_by (ticks n c) ob s = Some (health_from_pressure p)"
proof -
  define D where "D = max_lag (faults (sc_network c))"
  define T where "T = unat (sc_tick c)"
  have D: "1 \<le> D" by (simp add: D_def max_lag_def)
  have st: "steady s ob p c" using assms(1-7) by (simp add: steady_def)
  have stale: "stale_until (T + D) s ob p (ticks m c)" if "m \<le> D" for m
    using that
  proof (induction m)
    case 0
    then show ?case using st by (simp add: ticks_def stale_until_def steady_def T_def D_def)
  next
    case (Suc m)
    then show ?case
      using stale_tick[of s ob p "ticks m c"] steady_ticks[OF st, of m] assms(8,9) by (simp add: ticks_def D_def T_def)
  qed
  obtain m where m: "D = Suc m" using D by (cases D) auto
  have sm: "steady s ob p (ticks m c)" "unat (sc_tick (ticks m c)) = T + m" "max_lag (faults (sc_network (ticks m c))) = D"
    using steady_ticks[OF st, of m] assms(8,9) m by (simp_all add: T_def D_def)
  have tm: "ticks D c = tick_once (ticks m c)" by (simp add: m ticks_def)
  have small: "unat (sc_tick (ticks m c)) + 1 + max_lag (faults (sc_network (ticks m c))) < 2 ^ 64"
    using sm(2,3) assms(8,9) m by (simp add: T_def D_def)
  have "\<forall>x \<in> set (pending (sc_network (ticks D c))). carries s ob x \<longrightarrow> msg_pressure x = p"
    unfolding tm by (rule stale_gone[OF sm(1) stale]) (use small sm(2) m in simp_all)
  moreover obtain x where x: "x \<in> set (pending (sc_network (ticks D c)))" "carries s ob x" "sendable (delivered (ticks m c)) x"
    using tick_sends_each[of "ticks m c" s p ob] sm(1) tick_own(1)[of "ticks m c" s] unfolding tm steady_def by auto
  moreover have "unat (deliver_at x) \<le> T + 2 * D"
    using sendable_due(1)[OF x(3) small] sm(2,3) m by simp
  ultimately have tr: "truth_by (T + 2 * D) s ob p (ticks D c)" by (auto simp: truth_by_def)
  have sD: "steady s ob p (ticks D c)" "unat (sc_tick (ticks D c)) = T + D" "max_lag (faults (sc_network (ticks D c))) = D"
    using steady_ticks[OF st, of D] assms(8,9) by (simp_all add: T_def D_def)
  have "health_as_seen_by (ticks (n - D) (ticks D c)) ob s = Some (health_from_pressure p)"
    by (rule truth_ticks(2)[OF sD(1) tr]) (use sD(2,3) assms(8,9) D in \<open>simp_all add: T_def D_def\<close>)
  then show ?thesis using ticks_add[of D "n - D" c] assms(8) by (simp add: D_def)
qed

lemma keys_cross:
  "map fst (fold (\<lambda>dst m. fold (\<lambda>src m. if src = dst then m else amod dst (f src) m) ids m) ids' m) = map fst m"
proof -
  have "map fst (fold (\<lambda>src m. if src = dst then m else amod dst (f src) m) ids m) = map fst m" for dst m
    by (induction ids arbitrary: m) (simp_all add: keys_amod)
  then show ?thesis by (induction ids' arbitrary: m) simp_all
qed

lemma sim_new_keys: "map fst (sc_shards (sim_new n g :: 'key sim_cluster))
    = map fst (fold (\<lambda>i m. aput (of_nat i) (sim_shard i :: 'key session_runtime) m) [0..<n] [])"
  by (simp add: sim_new_def Let_def split_beta comp_def keys_cross)

lemma sim_new_alive:
  "sc_lifecycle (sim_new n g :: 'key sim_cluster)
    = (\<lambda>s. if s \<in> set (map fst (sc_shards (sim_new n g :: 'key sim_cluster))) then Some SL_Alive else None)"
  unfolding sim_new_keys by (simp add: sim_new_def Let_def)

lemma sim_new_rest:
  "sc_network (sim_new n g) = network_new" "sc_tick (sim_new n g) = 0"
  by (simp_all add: sim_new_def Let_def)

theorem gossip_converges_witness:
  "health_as_seen_by (ticks 5 (set_shards (amod 0 (update_pressure 0 (HEALTHY\<lparr>queue_depth := 600\<rparr>)))
     (sim_new 2 7 :: u64 sim_cluster))) 1 0 = Some HEALTH_ZERO"
proof -
  let ?p = "HEALTHY\<lparr>queue_depth := 600\<rparr>"
  let ?c = "set_shards (amod 0 (update_pressure 0 ?p)) (sim_new 2 7 :: u64 sim_cluster)"
  have f: "map fst (sc_shards ?c) = [0, 1]"
    by (simp only: tell_shards) code_simp
  have n: "pending (sc_network ?c) = []" "faults (sc_network ?c) = faults_default" "sc_tick ?c = 0"
    "sc_lifecycle ?c = sc_lifecycle (sim_new 2 7 :: u64 sim_cluster)"
    by (simp_all add: set_shards_def sim_new_rest network_new_def)
  have g: "map fst (sc_shards (sim_new 2 7 :: u64 sim_cluster)) = [0, 1]" using f by (simp only: tell_shards)
  have l: "sc_lifecycle ?c = (\<lambda>s. if s \<in> set [0, 1] then Some SL_Alive else None)"
    unfolding n(4) sim_new_alive g ..
  have al: "alive_shards ?c = [0, 1]"
    using f l by (simp add: alive_shards_def del: tell_shards)
  have own: "own_pressure ?c 0 = Some ?p"
    using alive_is_shard[of 0 ?c] al by (auto simp: own_pressure_def set_shards_def update_pressure_simps)
  have h: "health_from_pressure ?p = HEALTH_ZERO"
    by (simp add: health_from_pressure_def HEALTHY_def HOT_CURSOR_COUNT_def CONGESTED_QUEUE_DEPTH_def)
  show ?thesis
    using gossip_converges[of 0 1 ?c ?p 5] al own h
    by (simp add: n(1-3) sim_new_rest network_new_def faults_default_def is_partitioned_def max_lag_def)
qed

section \<open>Separated shards\<close>

lemma separated_tick:
  assumes "is_partitioned (faults (sc_network c)) s ob" "\<forall>m \<in> set (pending (sc_network c)). \<not> carries s ob m"
  shows "\<forall>m \<in> set (pending (sc_network (tick_once c))). \<not> carries s ob m"
  using assms tick_pending(1)[of _ c] by (auto simp: sendable_def carries_def delivered_frame)

lemma separated_ticks:
  assumes "is_partitioned (faults (sc_network c)) s ob" "\<forall>m \<in> set (pending (sc_network c)). \<not> carries s ob m" "ob \<in> shards_of c"
  shows "health_as_seen_by (ticks n c) ob s = health_as_seen_by c ob s"
  using assms
proof (induction n arbitrary: c)
  case (Suc n)
  have "health_as_seen_by (tick_once c) ob s = health_as_seen_by c ob s"
    using Suc.prems(2,3) by (simp add: tick_seen due_now_def filter_empty_conv[THEN iffD2])
  moreover have "health_as_seen_by (ticks n (tick_once c)) ob s = health_as_seen_by (tick_once c) ob s"
    using Suc.prems separated_tick[of c s ob] by (intro Suc.IH) (simp_all add: tick_frame delivered_frame)
  ultimately show ?case by (simp add: ticks_def funpow_swap1)
qed (simp add: ticks_def)

lemma partition_symmetric: "is_partitioned f a b = is_partitioned f b a"
  by (simp add: is_partitioned_def min.commute max.commute)

lemma partition_laws:
  "is_partitioned (add_partition a b f) x y = ({x, y} = {a, b} \<or> is_partitioned f x y)"
  "is_partitioned (remove_partition a b f) x y = ({x, y} \<noteq> {a, b} \<and> is_partitioned f x y)"
  by (auto simp: is_partitioned_def add_partition_def remove_partition_def min_def max_def doubleton_eq_iff split: if_splits)

text \<open>The set-value workload of the simulator carries the opcode of \<open>NodeCreate\<close>, and a length
  below the shortest record.\<close>

lemma workload_is_control:
  "from_opcode (ph_opcode (snd (workload_next (workload_set_value sid pid)))) = OC_Control"
  "ph_length (snd (workload_next w)) < MIN_RECORD_LEN"
  by (simp_all add: workload_next_def workload_set_value_def from_opcode_def MIN_RECORD_LEN_def)

section \<open>Random numbers\<close>

text \<open>The 31 bits of a draw.\<close>

abbreviation draw_bits :: "lcg64 \<Rightarrow> nat" where
  "draw_bits g \<equiv> unat (drop_bit 33 (snd (next_u64 g)))"

lemma draw_bits_lt: "draw_bits g < 2 ^ 31"
  using unsigned_less[of "snd (next_u64 g)", where 'a = nat]
  by (subst unat_drop_bit_eq) (simp add: drop_bit_eq_div less_mult_imp_div_less)

lemma bit_length_bounds: "0 < n \<Longrightarrow> 2 ^ (bit_length n - 1) \<le> n \<and> n < 2 ^ bit_length n"
proof (induction n rule: bit_length.induct)
  case (1 n)
  show ?case
  proof (cases "n = 1")
    case True
    then show ?thesis by (simp add: bit_length.simps)
  next
    case False
    then have "2 ^ (bit_length (n div 2) - 1) \<le> n div 2" "n div 2 < 2 ^ bit_length (n div 2)" "bit_length (n div 2) > 0"
      using 1 by (auto simp: bit_length.simps[of "n div 2"])
    moreover have "bit_length n = Suc (bit_length (n div 2))" using "1.prems" by (simp add: bit_length.simps[of n])
    moreover have "(2::nat) ^ bit_length (n div 2) = 2 * 2 ^ (bit_length (n div 2) - 1)"
      using calculation(3) by (cases "bit_length (n div 2)") simp_all
    ultimately show ?thesis by (simp, linarith)
  qed
qed

text \<open>Rounding to 24 bits moves a number by at most half a unit in the last place.\<close>

lemma to_f32_split:
  assumes "2 ^ 24 \<le> n" "n < 2 ^ 31"
  obtains e q r where "1 \<le> e" "e \<le> 7" "n = q * 2 ^ e + r" "r < 2 ^ e" "2 ^ 23 \<le> q" "q < 2 ^ 24"
    "to_f32 n = (if 2 ^ (e - 1) < r \<or> r = 2 ^ (e - 1) \<and> odd q then q + 1 else q) * 2 ^ e"
proof -
  let ?b = "bit_length n"
  have b: "2 ^ (?b - 1) \<le> n" "n < 2 ^ ?b" using bit_length_bounds[of n] assms(1) by simp_all
  have "(2::nat) ^ 24 < 2 ^ ?b" "(2::nat) ^ (?b - 1) < 2 ^ 31" using b assms by linarith+
  then have e: "24 < ?b" "?b \<le> 31"
    using power_less_imp_less_exp[of "2 :: nat" 24 ?b] power_less_imp_less_exp[of "2 :: nat" "?b - 1" 31] by simp_all
  let ?e = "?b - 24"
  have "?b = 24 + ?e" "?b - 1 = 23 + ?e" using e(1) by simp_all
  then have p: "(2::nat) ^ ?b = 2 ^ 24 * 2 ^ ?e" "(2::nat) ^ (?b - 1) = 2 ^ 23 * 2 ^ ?e"
    by (metis power_add)+
  have q: "n div 2 ^ ?e < 2 ^ 24" "2 ^ 23 \<le> n div 2 ^ ?e"
    using b p by (simp_all add: less_mult_imp_div_less less_eq_div_iff_mult_less_eq)
  show ?thesis
    by (rule that[of ?e "n div 2 ^ ?e" "n mod 2 ^ ?e", OF _ _ div_mult_mod_eq[symmetric]]) (use e q assms(1) in \<open>auto simp: to_f32_def Let_def\<close>)
qed

lemma to_f32_near:
  assumes "n < 2 ^ 31"
  shows "to_f32 n \<le> n + 64" "n \<le> to_f32 n + 64" "to_f32 n \<le> 2 ^ 31" "to_f32 n = 2 ^ 31 \<longleftrightarrow> 2 ^ 31 - 64 \<le> n"
proof -
  have "to_f32 n \<le> n + 64 \<and> n \<le> to_f32 n + 64 \<and> to_f32 n \<le> 2 ^ 31 \<and> (to_f32 n = 2 ^ 31 \<longleftrightarrow> 2 ^ 31 - 64 \<le> n)"
  proof (cases "n < 2 ^ 24")
    case True
    then show ?thesis by (simp add: to_f32_def)
  next
    case False
    then obtain e q r where s: "1 \<le> e" "e \<le> 7" "n = q * 2 ^ e + r" "r < 2 ^ e" "q < 2 ^ 24"
      "to_f32 n = (if 2 ^ (e - 1) < r \<or> r = 2 ^ (e - 1) \<and> odd q then q + 1 else q) * 2 ^ e"
      using to_f32_split[of n] assms by (metis not_less)
    have "e \<in> {1, 2, 3, 4, 5, 6, 7}" using s(1,2) by auto
    then show ?thesis
    proof (elim insertE emptyE)
      assume e: "e = 7"
      have "odd q" if "q = 16777215" using that by simp
      then show ?thesis using s(3-6) unfolding e by (cases "q = 16777215") auto
    qed (use s(3-6) in auto)
  qed
  then show "to_f32 n \<le> n + 64" "n \<le> to_f32 n + 64" "to_f32 n \<le> 2 ^ 31" "to_f32 n = 2 ^ 31 \<longleftrightarrow> 2 ^ 31 - 64 \<le> n" by blast+
qed

lemma next_f32_draw: "snd (next_f32 g) = of_nat (to_f32 (draw_bits g)) / 2 ^ 31"
  by (simp add: next_f32_def split: prod.split)

text \<open>
  C37. The random draws of the simulator.  A draw is within \<open>2 ^ -25\<close> of the 31 bits it is made from, and
  lies between 0 and 1; but 1 itself is drawn, exactly when the bits are among the largest 64, where
  the conversion to \<open>f32\<close> rounds up.  So a network with a drop rate of one loses a message between two
  shards that are not separated exactly when the bits are below that, and queues it otherwise.
\<close>

theorem draw_bounds:
  "0 \<le> snd (next_f32 g) \<and> snd (next_f32 g) \<le> 1 \<and> \<bar>snd (next_f32 g) - of_nat (draw_bits g) / 2 ^ 31\<bar> \<le> 1 / 2 ^ 25
   \<and> (snd (next_f32 g) = 1 \<longleftrightarrow> 2 ^ 31 - 64 \<le> draw_bits g)
   \<and> (sc_rng c = g \<and> drop_rate (faults (sc_network c)) = 1 \<and> dst \<noteq> src \<and> \<not> is_partitioned (faults (sc_network c)) src dst \<longrightarrow>
      (if draw_bits g < 2 ^ 31 - 64 then pending (sc_network (gossip_to src p dst c)) = pending (sc_network c)
       else \<exists>t. pending (sc_network (gossip_to src p dst c)) = pending (sc_network c) @ [TopologyGossip src dst p t]))"
proof -
  note near = to_f32_near[OF draw_bits_lt[of g]]
  let ?x = "snd (next_f32 g)" and ?m = "to_f32 (draw_bits g)" and ?n = "draw_bits g"
  have x: "?x = of_nat ?m / 2 ^ 31" by (rule next_f32_draw)
  have "(of_nat ?m :: rat) \<le> of_nat (2 ^ 31)" using near(3) by (simp only: of_nat_le_iff)
  then have le: "0 \<le> ?x" "?x \<le> 1" by (simp_all add: x)
  have "(of_nat ?m :: rat) \<le> of_nat (?n + 64)" "(of_nat ?n :: rat) \<le> of_nat (?m + 64)"
    using near(1,2) by (simp_all only: of_nat_le_iff)
  then have err: "\<bar>?x - of_nat ?n / 2 ^ 31\<bar> \<le> 1 / 2 ^ 25" by (simp add: x abs_le_iff field_simps)
  have "?x = 1 \<longleftrightarrow> (of_nat ?m :: rat) = of_nat (2 ^ 31)" by (simp add: x)
  then have one: "?x = 1 \<longleftrightarrow> 2 ^ 31 - 64 \<le> ?n" using near(4) by (simp only: of_nat_eq_iff)
  moreover have "?x < 1 \<longleftrightarrow> ?n < 2 ^ 31 - 64" using le(2) one by (simp add: less_le not_le)
  ultimately show ?thesis
    using le err by (cases "next_f32 g") (auto simp: gossip_to_def enqueue_msg_def Let_def split: prod.split)
qed

text \<open>The seed after which 31 ones are drawn.\<close>

lemma all_ones: "draw_bits 15635871386175874928 = 2 ^ 31 - 1"
proof -
  have "(15635871386175874928 * 6364136223846793005 + 1442695040888963407 :: u64) = - 1" by simp
  then show ?thesis
    by (simp add: next_u64_def unat_drop_bit_eq drop_bit_eq_div unsigned_minus_1_eq_mask mask_eq_exp_minus_1)
qed

theorem draw_bounds_witness:
  "let c = (sim_new 2 7 :: u64 sim_cluster)\<lparr>sc_rng := 15635871386175874928,
      sc_network := network_new\<lparr>faults := with_drop_rate 1 faults_default\<rparr>\<rparr> in
    snd (next_f32 (sc_rng c)) = 1
    \<and> (\<exists>t. pending (sc_network (gossip_to 0 HEALTHY 1 c)) = [TopologyGossip 0 1 HEALTHY t])"
proof -
  let ?c = "(sim_new 2 7 :: u64 sim_cluster)\<lparr>sc_rng := 15635871386175874928,
      sc_network := network_new\<lparr>faults := with_drop_rate 1 faults_default\<rparr>\<rparr>"
  have "\<not> is_partitioned (with_drop_rate 1 faults_default) 0 1"
    by (simp add: is_partitioned_def with_drop_rate_def faults_default_def)
  then show ?thesis
    using draw_bounds[of 15635871386175874928 ?c 1 0 HEALTHY] all_ones
    by (simp add: Let_def network_new_def with_drop_rate_def faults_default_def)
qed

end
