(* ===== verification/Binding.thy ===== *)
theory Binding
  imports Engine_Run
begin

text \<open>
  The Python binding, \<^verbatim>\<open>py/src/lib.rs\<close>: the class \<open>Graph\<close> over one engine, its methods and the exceptions
  they raise.  The ids that \<open>uid::fresh\<close> draws at random are arguments; a method that panics or does
  not return is \<open>None\<close>.  The two \<open>__repr__\<close>, the hash of a handle and the module registration are left
  out.
\<close>

section \<open>Values\<close>

text \<open>A Python object is \<open>None\<close>, a boolean or something that does not extract as a boolean.\<close>

datatype py_object = Py_None | Py_Bool bool | Py_Other

datatype py_exception =
    TypeError
  | ValueError string
  | KeyError
  | RuntimeError engine_error
  | NoEdge uid uid

definition py_to_t :: "py_object \<Rightarrow> py_exception + T" where
  "py_to_t x = (case x of Py_None \<Rightarrow> Inr Neg | Py_Bool b \<Rightarrow> Inr (if b then Pos else Zero) | Py_Other \<Rightarrow> Inl TypeError)"

definition t_to_py :: "T \<Rightarrow> py_object" where
  "t_to_py v = (case v of Pos \<Rightarrow> Py_Bool True | Zero \<Rightarrow> Py_Bool False | Neg \<Rightarrow> Py_None)"

definition handle_eq :: "uid \<Rightarrow> uid \<Rightarrow> bool" where
  "handle_eq a b \<longleftrightarrow> a = b"

section \<open>Methods\<close>

type_synonym py_graph = engine

type_synonym 'a py_call = "(py_graph \<times> (py_exception + 'a)) option"

definition graph_init :: py_graph where
  "graph_init = engine_new"

text \<open>\<open>apply(..).map_err(..)\<close> and \<open>apply(..).unwrap()\<close>.\<close>

definition py_apply :: "saturation \<Rightarrow> isa_op \<Rightarrow> py_graph \<Rightarrow> unit py_call" where
  "py_apply S x g = map_option (\<lambda>(e, res). (e, case res of Inl err \<Rightarrow> Inl (RuntimeError err) | Inr _ \<Rightarrow> Inr ()))
     (engine_apply S x g)"

definition apply_unwrap :: "saturation \<Rightarrow> isa_op \<Rightarrow> py_graph \<Rightarrow> py_graph option" where
  "apply_unwrap S x g = (case engine_apply S x g of Some (e, Inr _) \<Rightarrow> Some e | _ \<Rightarrow> None)"

definition py_input :: "saturation \<Rightarrow> uid \<Rightarrow> string \<Rightarrow> py_graph \<Rightarrow> uid py_call" where
  "py_input S i name g = map_option (\<lambda>e. (e, Inr i)) (apply_unwrap S (input_node i name) g)"

definition compute_rule_named :: "string \<Rightarrow> compute_rule option" where
  "compute_rule_named r =
     (if r = ''and'' \<or> r = ''all'' then Some MeetAll
      else if r = ''or'' \<or> r = ''any'' then Some JoinAny
      else if r = ''not'' \<or> r = ''neg'' then Some MvNeg
      else if r = ''majority'' then Some Merge
      else if r = ''fold'' \<or> r = ''bochvar'' then Some BochvarFold
      else if r = ''identity'' \<or> r = ''id'' then Some Identity_rule
      else None)"

definition py_computed :: "saturation \<Rightarrow> uid \<Rightarrow> string \<Rightarrow> string \<Rightarrow> bool \<Rightarrow> py_graph \<Rightarrow> uid py_call" where
  "py_computed S i name rule lazy g =
     (case compute_rule_named rule of
        None \<Rightarrow> Some (g, Inl (ValueError rule))
      | Some r \<Rightarrow>
          map_option (\<lambda>e. (e, Inr i))
            (Option.bind (apply_unwrap S (computed_node i name r) g)
               (\<lambda>e. if lazy then apply_unwrap S (SetMode i Lazy) e else Some e)))"

definition py_connect :: "saturation \<Rightarrow> uid \<Rightarrow> uid \<Rightarrow> uid \<Rightarrow> py_graph \<Rightarrow> unit py_call" where
  "py_connect S eid src tgt = py_apply S (dep_edge eid src tgt)"

definition py_set :: "saturation \<Rightarrow> uid \<Rightarrow> py_object \<Rightarrow> py_graph \<Rightarrow> unit py_call" where
  "py_set S i x g = (case py_to_t x of Inl ex \<Rightarrow> Some (g, Inl ex) | Inr v \<Rightarrow> py_apply S (SetValue i v) g)"

definition py_get :: "uid \<Rightarrow> py_graph \<Rightarrow> py_exception + py_object" where
  "py_get i g = (case engine_value_of g i of None \<Rightarrow> Inl KeyError | Some v \<Rightarrow> Inr (t_to_py v))"

definition py_demand :: "saturation \<Rightarrow> uid \<Rightarrow> py_graph \<Rightarrow> py_object py_call" where
  "py_demand S i g = map_option (\<lambda>(e, res). (e, case res of Inl ex \<Rightarrow> Inl ex | Inr _ \<Rightarrow> py_get i e)) (py_apply S (Demand i) g)"

definition py_make_lazy :: "saturation \<Rightarrow> uid \<Rightarrow> py_graph \<Rightarrow> unit py_call" where
  "py_make_lazy S i = py_apply S (SetMode i Lazy)"

definition py_make_eager :: "saturation \<Rightarrow> uid \<Rightarrow> py_graph \<Rightarrow> unit py_call" where
  "py_make_eager S i = py_apply S (SetMode i Eager)"

definition py_delete_node :: "saturation \<Rightarrow> uid \<Rightarrow> py_graph \<Rightarrow> unit py_call" where
  "py_delete_node S i = py_apply S (DelNode i)"

definition py_disconnect :: "saturation \<Rightarrow> uid \<Rightarrow> uid \<Rightarrow> py_graph \<Rightarrow> unit py_call" where
  "py_disconnect S src tgt g =
     (case find (\<lambda>ed. e_tgt ed = tgt) (edges_from (en_graph g) src) of
        None \<Rightarrow> Some (g, Inl (NoEdge src tgt))
      | Some ed \<Rightarrow> py_apply S (DelEdge (e_id ed)) g)"

definition py_boundary :: "nat option \<Rightarrow> uid list option \<Rightarrow> region_boundary" where
  "py_boundary depth members = (case members of
      Some ms \<Rightarrow> ExplicitSet ms
    | None \<Rightarrow> (case depth of Some d \<Rightarrow> DepClosure d | None \<Rightarrow> DepClosure 8))"

definition stability_named :: "string \<Rightarrow> py_exception + stability_contract" where
  "stability_named s = (if s = ''pinned'' then Inr Pinned else if s = ''epoch_tracked'' then Inr EpochTracked
     else Inl (ValueError s))"

definition compile_named :: "string \<Rightarrow> py_exception + compile_policy" where
  "compile_named s = (if s = ''eager'' then Inr CP_Eager else if s = ''lazy'' then Inr CP_Lazy
     else if s = ''never'' then Inr CP_Never else Inl (ValueError s))"

definition py_declare_region ::
  "saturation \<Rightarrow> uid \<Rightarrow> nat option \<Rightarrow> uid list option \<Rightarrow> string \<Rightarrow> string \<Rightarrow> py_graph \<Rightarrow> unit py_call" where
  "py_declare_region S root depth members stability compile g =
     (case stability_named stability of
        Inl ex \<Rightarrow> Some (g, Inl ex)
      | Inr stab \<Rightarrow> (case compile_named compile of
          Inl ex \<Rightarrow> Some (g, Inl ex)
        | Inr pol \<Rightarrow> py_apply S (RegionDeclare root (py_boundary depth members) stab pol) g))"

definition py_stabilize :: "saturation \<Rightarrow> py_graph \<Rightarrow> unit py_call" where
  "py_stabilize S = py_apply S (Stabilize None)"

definition py_node_count :: "py_graph \<Rightarrow> nat" where
  "py_node_count g = node_count (en_graph g)"

definition py_edge_count :: "py_graph \<Rightarrow> nat" where
  "py_edge_count g = edge_count (en_graph g)"

end
