(* ===== verification/Binding_Safety.thy ===== *)
theory Binding_Safety
  imports Binding
begin

text \<open>
  What a Python program sees of the binding: the graphs its calls can build, that every call on such
  a graph returns and what it reads afterwards, what the rule names come to under a push, and what
  clearing an input does.  The invariant \<open>py_ok\<close> (the engine at rest over a graph whose edges are its
  dependencies) is kept by every method of \<^verbatim>\<open>py/src/lib.rs\<close> but \<open>declare_region\<close> and \<open>stabilize\<close>.
\<close>

section \<open>Graphs whose edges are their dependencies\<close>

text \<open>The world is consistent, a node depends on another exactly when an edge leads from the other to
  it, no two edges join the same pair, and edges are local and end at nodes.\<close>

definition edge_between :: "graph \<Rightarrow> uid \<Rightarrow> uid \<Rightarrow> bool" where
  "edge_between g a b \<longleftrightarrow> (\<exists>x ed. graph_edge g x = Some ed \<and> e_src ed = a \<and> e_tgt ed = b)"

definition plain_edges :: "graph \<Rightarrow> bool" where
  "plain_edges g \<longleftrightarrow> (\<forall>x ed. graph_edge g x = Some ed \<longrightarrow> \<not> edge_is_remote ed
       \<and> graph_node g (e_src ed) \<noteq> None \<and> graph_node g (e_tgt ed) \<noteq> None)
     \<and> (\<forall>x y ed ed'. graph_edge g x = Some ed \<and> graph_edge g y = Some ed'
          \<and> e_src ed = e_src ed' \<and> e_tgt ed = e_tgt ed' \<longrightarrow> x = y)"

lemma plain_edgesD:
  assumes "plain_edges g" "graph_edge g x = Some ed"
  shows "\<not> edge_is_remote ed" "graph_node g (e_src ed) \<noteq> None" "graph_node g (e_tgt ed) \<noteq> None"
    "graph_edge g y = Some ed' \<Longrightarrow> e_src ed = e_src ed' \<Longrightarrow> e_tgt ed = e_tgt ed' \<Longrightarrow> x = y"
  using assms unfolding plain_edges_def by blast+

lemma plain_edgesI:
  assumes "\<And>x ed. graph_edge g x = Some ed \<Longrightarrow> \<not> edge_is_remote ed \<and> graph_node g (e_src ed) \<noteq> None \<and> graph_node g (e_tgt ed) \<noteq> None"
    and "\<And>x y ed ed'. graph_edge g x = Some ed \<Longrightarrow> graph_edge g y = Some ed' \<Longrightarrow> e_src ed = e_src ed'
      \<Longrightarrow> e_tgt ed = e_tgt ed' \<Longrightarrow> x = y"
  shows "plain_edges g"
  using assms unfolding plain_edges_def by blast

definition wired :: "world \<Rightarrow> bool" where
  "wired w \<longleftrightarrow> world_wf w \<and> plain_edges (w_graph w) \<and> (\<forall>a b. a \<in> deps_of (w_deps w) b \<longleftrightarrow> edge_between (w_graph w) a b)"

lemma wired_empty: "wired world_empty"
  by (simp add: wired_def plain_edges_def edge_between_def graph_edge_def graph_new_def)

lemma node_slot: "world_wf w \<Longrightarrow> graph_node (w_graph w) i \<noteq> None \<Longrightarrow> st_idx (w_store w) i \<noteq> None"
  by (auto simp: world_wf_def cells_agree_def dest: spec[of _ i])

lemma plain_edges_new:
  assumes "plain_edges g" "\<And>x. graph_edge g' x = graph_edge g x" "\<And>x. graph_node g x \<noteq> None \<Longrightarrow> graph_node g' x \<noteq> None"
  shows "plain_edges g'" "edge_between g' = edge_between g"
proof -
  show "plain_edges g'" using assms(1,3) unfolding plain_edges_def assms(2) by blast
  show "edge_between g' = edge_between g" unfolding edge_between_def assms(2) ..
qed

lemma wired_create:
  assumes "wired w" "st_idx (w_store w) (n_id n) = None" "n_value n = Neg" "length (st_cache (w_store w)) < 2 ^ 32 - 1"
  shows "wired (create_node w n)"
proof -
  have "world_wf (create_node w n)" using assms(1) by (intro world_wf_create assms(2-4)) (simp add: wired_def)
  then show ?thesis
    using assms(1) plain_edges_new[of "w_graph w" "add_node (w_graph w) n"] by (simp add: wired_def)
qed

lemma world_wf_edges:
  assumes "world_wf w" "graph_wf g" "\<forall>x. graph_node g x = graph_node (w_graph w) x"
  shows "world_wf (w\<lparr>w_graph := g\<rparr>)"
proof -
  have "w_value (w\<lparr>w_graph := g\<rparr>) = w_value w" by (simp add: w_value_def fun_eq_iff)
  then show ?thesis using assms by (simp add: world_wf_def cells_agree_def counters_agree_def dep_values_def)
qed

lemma connect_graph [simp]: "w_graph (connect w a b) = w_graph w" "w_store (connect w a b) = w_store w"
  by (simp_all add: connect_def Let_def)

lemma deps_connect [simp]: "deps_of (w_deps (connect w a b)) c = (if c = b then insert a (deps_of (w_deps w) c) else deps_of (w_deps w) c)"
  by (simp add: connect_def Let_def registry_subscribe_def split: option.split)

lemma wired_connect:
  assumes w: "wired w" and nodes: "graph_node (w_graph w) (e_src ed) \<noteq> None" "graph_node (w_graph w) (e_tgt ed) \<noteq> None"
    and fresh: "graph_edge (w_graph w) (e_id ed) = None" "e_src ed \<notin> deps_of (w_deps w) (e_tgt ed)"
    and len: "length (ordered_deps_of (w_deps w) (e_tgt ed)) + 2 < 2 ^ 32" and local: "\<not> edge_is_remote ed"
  shows "wired (connect (w\<lparr>w_graph := add_edge (w_graph w) ed\<rparr>) (e_src ed) (e_tgt ed))"
proof -
  let ?w = "w\<lparr>w_graph := add_edge (w_graph w) ed\<rparr>"
  have wf: "world_wf w" and pl: "plain_edges (w_graph w)" and deps: "\<And>a b. a \<in> deps_of (w_deps w) b \<longleftrightarrow> edge_between (w_graph w) a b"
    using w by (simp_all add: wired_def)
  have new: "\<not> edge_between (w_graph w) (e_src ed) (e_tgt ed)" using fresh(2) deps by simp
  have "world_wf ?w"
    using wf graph_wf_ops(2)[of "w_graph w" ed] by (intro world_wf_edges) (simp_all add: world_wf_def)
  then have "world_wf (connect ?w (e_src ed) (e_tgt ed))"
    using world_wf_connect[of ?w "e_src ed" "e_tgt ed"] node_slot[OF wf nodes(1)] fresh(2) len by simp
  moreover have "plain_edges (add_edge (w_graph w) ed)"
  proof (rule plain_edgesI)
    fix x d assume "graph_edge (add_edge (w_graph w) ed) x = Some d"
    then show "\<not> edge_is_remote d \<and> graph_node (add_edge (w_graph w) ed) (e_src d) \<noteq> None
        \<and> graph_node (add_edge (w_graph w) ed) (e_tgt d) \<noteq> None"
      using plain_edgesD(1-3)[OF pl, of x d] nodes local by (cases "x = e_id ed") simp_all
  next
    fix x y d d'
    assume h: "graph_edge (add_edge (w_graph w) ed) x = Some d" "graph_edge (add_edge (w_graph w) ed) y = Some d'"
      "e_src d = e_src d'" "e_tgt d = e_tgt d'"
    have no: False if "graph_edge (w_graph w) z = Some c" "e_src c = e_src ed" "e_tgt c = e_tgt ed" for z c
      using new that unfolding edge_between_def by blast
    show "x = y"
    proof (cases "x = e_id ed"; cases "y = e_id ed")
      assume "x \<noteq> e_id ed" "y \<noteq> e_id ed"
      then show ?thesis using h plain_edgesD(4)[OF pl, of x d y d'] by simp
    qed (use h no in auto)
  qed
  moreover have "edge_between (add_edge (w_graph w) ed) a b \<longleftrightarrow> (a = e_src ed \<and> b = e_tgt ed) \<or> edge_between (w_graph w) a b" for a b
  proof
    assume "(a = e_src ed \<and> b = e_tgt ed) \<or> edge_between (w_graph w) a b"
    then show "edge_between (add_edge (w_graph w) ed) a b"
    proof
      assume "a = e_src ed \<and> b = e_tgt ed"
      then show ?thesis unfolding edge_between_def by (intro exI[of _ "e_id ed"] exI[of _ ed]) simp
    next
      assume "edge_between (w_graph w) a b"
      then obtain x d where d: "graph_edge (w_graph w) x = Some d" "e_src d = a" "e_tgt d = b" by (auto simp: edge_between_def)
      then have "x \<noteq> e_id ed" using fresh(1) by auto
      then show ?thesis using d unfolding edge_between_def by (intro exI[of _ x] exI[of _ d]) simp
    qed
  qed (auto simp: edge_between_def split: if_splits)
  then have "a \<in> deps_of (w_deps (connect ?w (e_src ed) (e_tgt ed))) b \<longleftrightarrow> edge_between (add_edge (w_graph w) ed) a b" for a b
    by (simp add: deps)
  ultimately show ?thesis by (simp add: wired_def)
qed

lemma wired_drop:
  assumes w: "wired w" and ed: "graph_edge (w_graph w) x = Some ed"
  shows "wired (disconnect (w\<lparr>w_graph := fst (remove_edge (w_graph w) x)\<rparr>) (e_src ed) (e_tgt ed))"
proof -
  let ?g = "fst (remove_edge (w_graph w) x)" and ?w = "w\<lparr>w_graph := fst (remove_edge (w_graph w) x)\<rparr>"
  have wf: "world_wf w" and pl: "plain_edges (w_graph w)" and deps: "\<And>a b. a \<in> deps_of (w_deps w) b \<longleftrightarrow> edge_between (w_graph w) a b"
    using w by (simp_all add: wired_def)
  have dep: "e_src ed \<in> deps_of (w_deps w) (e_tgt ed)" using deps ed by (auto simp: edge_between_def)
  have "world_wf ?w"
    using wf graph_wf_ops(4)[of "w_graph w" x] by (intro world_wf_edges) (simp_all add: world_wf_def)
  then have "world_wf (disconnect ?w (e_src ed) (e_tgt ed))" using dep by (intro world_wf_disconnect) simp_all
  moreover have "plain_edges ?g"
  proof (rule plain_edgesI)
    fix y d assume "graph_edge ?g y = Some d"
    then have "graph_edge (w_graph w) y = Some d" by (simp split: if_splits)
    then show "\<not> edge_is_remote d \<and> graph_node ?g (e_src d) \<noteq> None \<and> graph_node ?g (e_tgt d) \<noteq> None"
      using plain_edgesD(1-3)[OF pl, of y d] by simp
  next
    fix y z d d'
    assume h: "graph_edge ?g y = Some d" "graph_edge ?g z = Some d'" "e_src d = e_src d'" "e_tgt d = e_tgt d'"
    then have "graph_edge (w_graph w) y = Some d" "graph_edge (w_graph w) z = Some d'" by (simp_all split: if_splits)
    then show "y = z" using plain_edgesD(4)[OF pl] h(3,4) by blast
  qed
  moreover have "edge_between ?g a b \<longleftrightarrow> edge_between (w_graph w) a b \<and> (a, b) \<noteq> (e_src ed, e_tgt ed)" for a b
  proof
    assume "edge_between ?g a b"
    show "edge_between (w_graph w) a b \<and> (a, b) \<noteq> (e_src ed, e_tgt ed)"
    proof -
      obtain y d where d: "graph_edge (w_graph w) y = Some d" "e_src d = a" "e_tgt d = b" "y \<noteq> x"
        using \<open>edge_between ?g a b\<close> by (auto simp: edge_between_def split: if_splits)
      then have "(a, b) \<noteq> (e_src ed, e_tgt ed)" using plain_edgesD(4)[OF pl d(1) ed] by auto
      then show ?thesis using d unfolding edge_between_def by blast
    qed
  next
    assume "edge_between (w_graph w) a b \<and> (a, b) \<noteq> (e_src ed, e_tgt ed)"
    then obtain y d where d: "graph_edge (w_graph w) y = Some d" "e_src d = a" "e_tgt d = b" "(a, b) \<noteq> (e_src ed, e_tgt ed)"
      by (auto simp: edge_between_def)
    then have "y \<noteq> x" using ed by auto
    then show "edge_between ?g a b" using d unfolding edge_between_def by (intro exI[of _ y] exI[of _ d]) simp
  qed
  then have "a \<in> deps_of (w_deps (disconnect ?w (e_src ed) (e_tgt ed))) b \<longleftrightarrow> edge_between ?g a b" for a b
    by (simp add: deps disconnect_def)
  ultimately show ?thesis by (simp add: wired_def) (simp add: disconnect_def)
qed

lemma disconnect_sel [simp]:
  "w_graph (disconnect w a b) = w_graph w" "w_store (disconnect w a b) = w_store w"
  by (simp_all add: disconnect_def)

lemma drop_edge_effect:
  assumes "wired (en_world e)"
  shows "wired (en_world (drop_edge x e))" "graph_edge (en_graph (drop_edge x e)) y = (if y = x then None else graph_edge (en_graph e) y)"
    "graph_node (en_graph (drop_edge x e)) = graph_node (en_graph e)" "en_store (drop_edge x e) = en_store e"
proof -
  have r: "remove_edge (en_graph e) x = (fst (remove_edge (en_graph e) x), graph_edge (en_graph e) x)"
    by (simp add: remove_edge_def graph_edge_def)
  show "wired (en_world (drop_edge x e))"
    using assms wired_drop[OF assms, of x] by (subst drop_edge_def, subst r) (simp add: set_world_def split: option.split)
  show "graph_edge (en_graph (drop_edge x e)) y = (if y = x then None else graph_edge (en_graph e) y)"
    "graph_node (en_graph (drop_edge x e)) = graph_node (en_graph e)" "en_store (drop_edge x e) = en_store e"
    by (subst drop_edge_def, subst r, simp add: set_world_def fun_eq_iff split: option.split)+
qed


lemma drop_edge_rest:
  "en_prop (drop_edge x e) = en_prop e" "en_cache (drop_edge x e) = en_cache e"
  "mode_of (en_deps (drop_edge x e)) = mode_of (en_deps e)"
  by (simp_all add: drop_edge_def set_world_def disconnect_def fun_eq_iff split: prod.split option.split)

lemma drop_edges_effect:
  assumes "wired (en_world e)"
  shows "wired (en_world (fold drop_edge xs e))
    \<and> (\<forall>y. graph_edge (en_graph (fold drop_edge xs e)) y = (if y \<in> set xs then None else graph_edge (en_graph e) y))
    \<and> graph_node (en_graph (fold drop_edge xs e)) = graph_node (en_graph e) \<and> en_store (fold drop_edge xs e) = en_store e
    \<and> en_prop (fold drop_edge xs e) = en_prop e \<and> en_cache (fold drop_edge xs e) = en_cache e
    \<and> mode_of (en_deps (fold drop_edge xs e)) = mode_of (en_deps e)"
  using assms
proof (induction xs arbitrary: e)
  case (Cons x xs)
  show ?case
    using Cons.IH[OF drop_edge_effect(1)[OF Cons.prems, of x]] drop_edge_effect(2-4)[OF Cons.prems, of x] drop_edge_rest[of x e]
    by simp
qed simp

text \<open>Removing a node without edges.\<close>

lemma dealloc_effect:
  assumes "store_wf st" "inj_on (st_idx st) (dom (st_idx st))"
  shows "\<exists>st'. dealloc st i = Some st' \<and> store_wf st' \<and> st_idx st' = st_idx st
    \<and> (\<forall>x. store_get st' x = (if x = i then Neg else store_get st x))"
proof (cases "st_idx st i")
  case None
  then show ?thesis using assms by (auto simp: dealloc_def store_get_def)
next
  case (Some d)
  then have d: "unat d < length (st_cache st)" using assms(1) by (auto simp: store_wf_def)
  obtain st' where st': "set_by_dense st d Neg = Some st'" "store_wf st'" "st_cache st' = (st_cache st)[unat d := Neg]"
    "st_idx st' = st_idx st"
    using set_by_dense_wf[OF assms(1) d] by blast
  have "store_get st' x = (if x = i then Neg else store_get st x)" for x
  proof (cases "st_idx st x")
    case (Some c)
    then have "x \<noteq> i \<Longrightarrow> c \<noteq> d"
      using \<open>st_idx st i = Some d\<close> inj_onD[OF assms(2), of x i] by auto
    then have "x \<noteq> i \<Longrightarrow> unat c \<noteq> unat d" by (metis unsigned_word_eqI)
    then show ?thesis using Some \<open>st_idx st i = Some d\<close> d st'(3,4) by (auto simp: store_get_def)
  qed (use \<open>st_idx st i = Some d\<close> st'(4) in \<open>auto simp: store_get_def\<close>)
  then show ?thesis using st' Some by (auto simp: dealloc_def)
qed

lemma lone_node_removed:
  assumes "deps_of r i = {}" "subs_of r i = {}"
  shows "registry_remove_node r i = bump_epoch (r\<lparr>dr_deps := (dr_deps r)(i := None), dr_subs := (dr_subs r)(i := None),
      dr_modes := (dr_modes r)(i := None), dr_ordered := (dr_ordered r)(i := None),
      dr_indices := (dr_indices r)(i := None), dr_counters := (dr_counters r)(i := None)\<rparr>) i"
  using assms by (simp add: registry_remove_node_def deps_of_def subs_of_def sorted_uids_def)

lemma wired_remove_node:
  assumes w: "wired w" and lone: "\<forall>x ed. graph_edge (w_graph w) x = Some ed \<longrightarrow> e_src ed \<noteq> i \<and> e_tgt ed \<noteq> i"
  shows "\<exists>st. dealloc (w_store w) i = Some st
    \<and> wired (w\<lparr>w_graph := fst (remove_node (w_graph w) i), w_deps := registry_remove_node (w_deps w) i, w_store := st\<rparr>)
    \<and> (\<forall>x. mode_of (registry_remove_node (w_deps w) i) x = (if x = i then Eager else mode_of (w_deps w) x))"
proof -
  let ?r = "w_deps w" and ?r' = "registry_remove_node (w_deps w) i"
  have wf: "world_wf w" and pl: "plain_edges (w_graph w)" and deps: "\<And>a b. a \<in> deps_of ?r b \<longleftrightarrow> edge_between (w_graph w) a b"
    using w by (simp_all add: wired_def)
  have parts: "graph_wf (w_graph w)" "dr_wf ?r" "store_wf (w_store w)" "inj_on (st_idx (w_store w)) (dom (st_idx (w_store w)))"
    "cells_agree (w_graph w) (w_store w)" "simple_deps ?r (w_store w)" "counters_agree w"
    using wf by (simp_all add: world_wf_def)
  obtain st where st: "dealloc (w_store w) i = Some st" "store_wf st" "st_idx st = st_idx (w_store w)"
    "\<forall>x. store_get st x = (if x = i then Neg else store_get (w_store w) x)"
    using dealloc_effect[OF parts(3,4), of i] by blast
  have none: "\<not> edge_between (w_graph w) i b" "\<not> edge_between (w_graph w) b i" for b
    using lone by (auto simp: edge_between_def)
  have e: "deps_of ?r i = {}" "subs_of ?r i = {}" "i \<notin> deps_of ?r b" for b
    using none deps dr_wfD(1)[OF parts(2)] by auto
  note r' = lone_node_removed[OF e(1,2)]
  have q: "deps_of ?r' b = deps_of ?r b" "ordered_deps_of ?r' b = (if b = i then [] else ordered_deps_of ?r b)"
    "ordered_dep_indices_of ?r' b = (if b = i then [] else ordered_dep_indices_of ?r b)"
    "dep_counter_of ?r' b = (if b = i then None else dep_counter_of ?r b)"
    "mode_of ?r' b = (if b = i then Eager else mode_of ?r b)" for b
    unfolding r' using e(1) by (auto simp: registry_queries dep_counter_of_def mode_of_def)
  have od: "ordered_deps_of ?r i = []" using parts(6) e(1) by (auto simp: simple_deps_def dest: spec[of _ i])
  let ?w = "w\<lparr>w_graph := fst (remove_node (w_graph w) i), w_deps := ?r', w_store := st\<rparr>"
  have val: "map (w_value ?w) (ordered_deps_of ?r b) = map (w_value w) (ordered_deps_of ?r b)" for b
    using st(4) e(3)[of b] parts(6) by (auto simp: w_value_def simple_deps_def)
  have "cells_agree (fst (remove_node (w_graph w) i)) st"
    unfolding cells_agree_def
  proof
    fix x
    show "case graph_node (fst (remove_node (w_graph w) i)) x of None \<Rightarrow> store_get st x = Neg
        | Some n \<Rightarrow> st_idx st x \<noteq> None \<and> n_value n = store_get st x"
      using parts(5) st(3,4) by (auto simp: cells_agree_def dest: spec[of _ x] split: option.splits)
  qed
  moreover have "simple_deps ?r' st"
    using parts(6) st(3) e(1) by (simp add: simple_deps_def lockstep_def q)
  moreover have "counters_agree ?w"
    using parts(7) od by (simp add: counters_agree_def dep_values_def q val)
  ultimately have "world_wf ?w"
    using parts st remove_node_wf[OF parts(2)] graph_wf_ops(3)[OF parts(1)] by (simp add: world_wf_def)
  moreover have "plain_edges (fst (remove_node (w_graph w) i))"
    by (rule plain_edgesI) (use plain_edgesD[OF pl] lone in \<open>auto split: if_splits\<close>)
  moreover have "edge_between (fst (remove_node (w_graph w) i)) = edge_between (w_graph w)"
    by (simp add: edge_between_def fun_eq_iff)
  ultimately show ?thesis using st(1) q(1,5) deps by (auto simp: wired_def)
qed

section \<open>Graphs between two calls\<close>

definition py_ok :: "py_graph \<Rightarrow> bool" where
  "py_ok g \<longleftrightarrow> wired (en_world g) \<and> no_regions g \<and> unstabilized (en_deps g)
     \<and> pe_queue (en_prop g) = [] \<and> pe_events (en_prop g) = []"

definition cleared :: "engine \<Rightarrow> engine" where
  "cleared e = e\<lparr>en_prop := (en_prop e)\<lparr>pe_events := []\<rparr>\<rparr>"

definition live :: "py_graph \<Rightarrow> uid \<Rightarrow> bool" where
  "live g i \<longleftrightarrow> graph_node (en_graph g) i \<noteq> None"

lemma py_okD:
  assumes "py_ok g"
  shows "wired (en_world g)" "no_regions g" "unstabilized (en_deps g)" "pe_queue (en_prop g) = []" "pe_events (en_prop g) = []"
    "rc_regions (en_cache g) = []" "mode_of (en_deps g) x \<noteq> Stabilizing"
  using assms by (simp_all add: py_ok_def no_regions_def unstabilized_def)

lemma cleared_sel [simp]:
  "en_cache (cleared e) = en_cache e" "pe_queue (en_prop (cleared e)) = pe_queue (en_prop e)"
  "en_world (cleared e) = en_world e" "engine_value_of (cleared e) = engine_value_of e" "live (cleared e) = live e"
  "no_regions (cleared e) = no_regions e" "en_max_steps (cleared e) = en_max_steps e"
  "py_ok (cleared e) = (wired (en_world e) \<and> no_regions e \<and> unstabilized (en_deps e) \<and> pe_queue (en_prop e) = [])"
  by (simp_all add: cleared_def engine_value_of_def py_ok_def no_regions_def live_def fun_eq_iff)

lemma py_ok_at_rest: "py_ok g \<Longrightarrow> at_rest g"
  by (simp add: py_ok_def at_rest_def wired_def)

lemma live_value: "live g i = (engine_value_of g i \<noteq> None)"
  by (simp add: live_def engine_value_of_def)

lemma py_ok_new: "py_ok graph_init"
  using wired_empty by (simp add: py_ok_def graph_init_def engine_new_def no_regions_def cache_new_def prop_engine_new_def unstabilized_def)

text \<open>A call whose instruction succeeds.\<close>

lemma apply_done:
  assumes "py_ok g" "dispatch S x g = Some (e, Inr ())"
  shows "py_apply S x g = Some (cleared e, Inr ())" "apply_unwrap S x g = Some (cleared e)"
proof -
  have "engine_apply S x g = Some (cleared e, Inr (pe_events (en_prop e)))"
    unfolding engine_apply_def clear_no_events[OF py_okD(5)[OF assms(1)]] by (simp add: assms(2) cleared_def)
  then show "py_apply S x g = Some (cleared e, Inr ())" "apply_unwrap S x g = Some (cleared e)"
    by (simp_all add: py_apply_def apply_unwrap_def)
qed

lemma apply_failed:
  assumes "py_ok g" "dispatch S x g = Some (e, Inl err)"
  shows "py_apply S x g = Some (e, Inl (RuntimeError err))"
  unfolding py_apply_def engine_apply_def clear_no_events[OF py_okD(5)[OF assms(1)]] by (simp add: assms(2))

section \<open>Building\<close>

lemma widen_sel [simp]:
  "en_world (widen_masks e) = en_world e" "en_prop (widen_masks e) = en_prop e" "en_cache (widen_masks e) = en_cache e"
  by (simp_all add: widen_masks_def)

lemma mode_create: "mode_of (w_deps (create_node w n)) x = (if x = n_id n then Eager else mode_of (w_deps w) x)"
  by simp

lemma create_dispatch:
  assumes "py_ok g" "st_idx (en_store g) i = None" "length (st_cache (en_store g)) < 2 ^ 32 - 1"
  shows "\<exists>e. dispatch S (NodeCreate i ty k a) g = Some (e, Inr ()) \<and> py_ok (cleared e)
    \<and> engine_value_of e = (engine_value_of g)(i \<mapsto> Neg)"
proof -
  define n where "n = (case k of Input \<Rightarrow> node_input i ty | Computed r \<Rightarrow> node_computed i ty r)\<lparr>n_attrs := a\<rparr>"
  have n: "n_id n = i" "n_value n = Neg" by (simp_all add: n_def node_input_def node_computed_def split: node_kind.split)
  define e where "e = log_op ''NodeCreate'' (Some i) Identity (widen_masks (set_world (\<lambda>w. create_node w n) g))"
  have "wired (create_node (en_world g) n)"
    using assms n by (intro wired_create) (simp_all add: py_ok_def)
  moreover have "dispatch S (NodeCreate i ty k a) g = Some (e, Inr ())"
    by (simp add: op_node_create_def done_op_def e_def n_def Let_def)
  moreover have "engine_value_of e = (engine_value_of g)(i \<mapsto> Neg)"
    by (auto simp: engine_value_of_def e_def set_world_def n fun_eq_iff)
  moreover have "py_ok (cleared e)"
    using calculation(1) py_okD[OF assms(1)] by (simp add: e_def set_world_def no_regions_def unstabilized_def)
  ultimately show ?thesis by blast
qed

lemma mode_dispatch:
  assumes "py_ok g" "live g i" "m \<noteq> Stabilizing"
  shows "\<exists>e. dispatch S (SetMode i m) g = Some (e, Inr ()) \<and> py_ok (cleared e) \<and> engine_value_of e = engine_value_of g"
proof -
  have v: "w_value (w\<lparr>w_deps := r\<rparr>) = w_value w" for w r by (simp add: w_value_def fun_eq_iff)
  have "wired (w\<lparr>w_deps := set_mode (w_deps w) i m\<rparr>) = wired w" for w
    by (simp add: wired_def world_wf_def simple_deps_def lockstep_def counters_agree_def dep_values_def v converse_maps_def)
  then show ?thesis
    using assms(2,3) py_okD[OF assms(1)]
    by (auto simp: op_set_mode_def done_op_def live_def set_deps_def set_world_def no_regions_def
        unstabilized_def engine_value_of_def fun_eq_iff)
qed

lemma no_regions_invalidate [simp]: "no_regions g \<Longrightarrow> invalidate_for_node (en_cache g) x = en_cache g"
  by (simp add: no_regions_def invalidate_for_node_def)

lemma connect_dispatch:
  assumes "py_ok g" "live g a" "live g b" "graph_edge (en_graph g) x = None" "a \<notin> deps_of (en_deps g) b"
    and "length (ordered_deps_of (en_deps g) b) + 2 < 2 ^ 32"
  shows "\<exists>e. dispatch S (dep_edge x a b) g = Some (e, Inr ()) \<and> py_ok (cleared e) \<and> engine_value_of e = engine_value_of g"
proof -
  define ed where "ed = \<lparr>e_id = x, e_typ = ''dep'', e_src = a, e_tgt = b, e_dep = Local None, e_attrs = attrs_new\<rparr>"
  define e where "e = log_op ''EdgeConnect'' (Some x) Dependency (set_cache (\<lambda>c. invalidate_for_node (invalidate_for_node c a) b)
    (set_world (\<lambda>w. connect (w\<lparr>w_graph := add_edge (w_graph w) ed\<rparr>) a b) (set_deps (infer_mode (Local None) b) g)))"
  have i: "set_deps (infer_mode (Local None) b) g = g" by (simp add: set_deps_def set_world_def infer_mode_def)
  have "dispatch S (dep_edge x a b) g = Some (e, Inr ())"
    using assms(2,3) by (auto simp: dep_edge_def op_edge_connect_def live_def e_def ed_def done_op_def Let_def)
  moreover have "wired (en_world e)"
    using wired_connect[of "en_world g" ed] assms by (simp add: e_def i set_world_def set_cache_def ed_def py_ok_def live_def edge_is_remote_def dep_is_remote_def)
  moreover have "no_regions e"
    using assms(1) by (simp add: e_def i set_world_def set_cache_def no_regions_def py_ok_def invalidate_for_node_def)
  moreover have "engine_value_of e = engine_value_of g"
    by (simp add: engine_value_of_def e_def i set_world_def set_cache_def fun_eq_iff)
  moreover have "unstabilized (en_deps e)" "pe_queue (en_prop e) = []"
    using py_okD[OF assms(1)] by (simp_all add: e_def i set_world_def set_cache_def unstabilized_def)
  ultimately show ?thesis by auto
qed

section \<open>Taking apart\<close>

lemma del_edge_dispatch:
  assumes "py_ok g" "graph_edge (en_graph g) x = Some ed"
  shows "\<exists>e. dispatch S (DelEdge x) g = Some (e, Inr ()) \<and> py_ok (cleared e) \<and> engine_value_of e = engine_value_of g
    \<and> (\<forall>y. graph_edge (en_graph e) y = (if y = x then None else graph_edge (en_graph g) y))"
proof -
  define g1 where "g1 = set_cache (\<lambda>c. invalidate_for_node (invalidate_for_node c (e_src ed)) (e_tgt ed)) g"
  have w: "wired (en_world g)" using assms(1) by (simp add: py_ok_def)
  have g1: "en_world g1 = en_world g" "en_prop g1 = en_prop g" "rc_regions (en_cache g1) = []"
    using assms(1) by (simp_all add: g1_def set_cache_def py_ok_def no_regions_def invalidate_for_node_def)
  have "\<not> edge_is_remote ed" using plain_edgesD(1)[OF _ assms(2)] w by (simp add: wired_def)
  then have "dispatch S (DelEdge x) g = Some (log_op ''DelEdge'' (Some x) Dependency (drop_edge x g1), Inr ())"
    using assms(2) by (simp add: op_del_edge_def done_op_def g1_def)
  then show ?thesis
    using drop_edge_effect[of g1 x] drop_edge_rest[of x g1] w g1 py_okD[OF assms(1)]
    by (auto simp: no_regions_def unstabilized_def engine_value_of_def)
qed

lemma del_node_dispatch:
  assumes "py_ok g"
  shows "\<exists>e. dispatch S (DelNode i) g = Some (e, Inr ()) \<and> py_ok (cleared e) \<and> engine_value_of e = (engine_value_of g)(i := None)"
proof -
  have w: "wired (en_world g)" using assms by (simp add: py_ok_def)
  then have gw: "graph_wf (en_graph g)" and pl: "plain_edges (en_graph g)" by (simp_all add: wired_def world_wf_def)
  define e1 where "e1 = fold drop_edge (dangling_edges (en_graph g) i) g"
  have e1: "wired (en_world e1)" "\<forall>y. graph_edge (en_graph e1) y = (if y \<in> set (dangling_edges (en_graph g) i) then None
        else graph_edge (en_graph g) y)"
    "graph_node (en_graph e1) = graph_node (en_graph g)" "en_prop e1 = en_prop g" "en_cache e1 = en_cache g"
    "mode_of (en_deps e1) = mode_of (en_deps g)"
    using drop_edges_effect[OF w, of "dangling_edges (en_graph g) i"] by (simp_all add: e1_def)
  have lone: "\<forall>x ed. graph_edge (en_graph e1) x = Some ed \<longrightarrow> e_src ed \<noteq> i \<and> e_tgt ed \<noteq> i"
    using set_dangling[OF gw, of _ i] by (auto simp: e1(2) split: if_splits)
  obtain st where st: "dealloc (en_store e1) i = Some st"
    "wired ((en_world e1)\<lparr>w_graph := fst (remove_node (en_graph e1) i), w_deps := registry_remove_node (en_deps e1) i, w_store := st\<rparr>)"
    "\<forall>x. mode_of (registry_remove_node (en_deps e1) i) x = (if x = i then Eager else mode_of (en_deps e1) x)"
    using wired_remove_node[OF e1(1) lone] by blast
  define e where "e = log_op ''DelNode'' (Some i) Identity (set_cache (\<lambda>c. invalidate_for_node c i)
    (e1\<lparr>en_world := (en_world e1)\<lparr>w_graph := fst (remove_node (en_graph e1) i),
        w_deps := registry_remove_node (en_deps e1) i, w_store := st\<rparr>\<rparr>))"
  have "\<not> has_remote_interface g i"
    using plain_edgesD(1)[OF pl] by (auto simp: has_remote_interface_def list_ex_iff split: option.splits)
  then have "dispatch S (DelNode i) g = Some (e, Inr ())"
    by (simp add: op_del_node_def Let_def e1_def[symmetric] st(1) done_op_def e_def)
  moreover have "engine_value_of e = (engine_value_of g)(i := None)"
    by (auto simp: engine_value_of_def e_def set_cache_def e1(3) fun_eq_iff)
  ultimately show ?thesis
    using py_okD[OF assms] st(2,3) e1(4-6)
    by (auto simp: e_def set_cache_def no_regions_def invalidate_for_node_def unstabilized_def)
qed

section \<open>Driving\<close>

lemma framed_live:
  assumes "interp_frame g e"
  shows "live e x = live g x" "map_option n_kind (graph_node (en_graph e) x) = map_option n_kind (graph_node (en_graph g) x)"
    "graph_edge (en_graph e) y = graph_edge (en_graph g) y" "is_input (en_world e) x = is_input (en_world g) x"
proof -
  have m: "map_option skeleton (graph_node (en_graph e) x) = map_option skeleton (graph_node (en_graph g) x)"
    using assms by (simp add: interp_frame_def interp_world_def)
  from arg_cong[OF m, of "map_option (\<lambda>(a, b, k, c). k)"]
  show k: "map_option n_kind (graph_node (en_graph e) x) = map_option n_kind (graph_node (en_graph g) x)"
    by (simp add: option.map_comp comp_def skeleton_def)
  show "live e x = live g x" using k unfolding live_def by (metis option.map_disc_iff)
  show "graph_edge (en_graph e) y = graph_edge (en_graph g) y"
    using assms by (simp add: interp_frame_def interp_world_def graph_edge_def)
  show "is_input (en_world e) x = is_input (en_world g) x"
    using k unfolding is_input_def by (cases "graph_node (en_graph e) x"; cases "graph_node (en_graph g) x") auto
qed

lemma framed_ok:
  assumes "py_ok g" "interp_frame g e" "world_wf (en_world e)" "pe_queue (en_prop e) = []"
  shows "py_ok (cleared e)"
proof -
  have top: "same_topology (en_deps g) (en_deps e)" "rc_regions (en_cache e) = rc_regions (en_cache g)"
    using assms(2) by (simp_all add: interp_frame_def interp_world_def)
  note q = same_topology_queries[OF top(1)]
  have w: "wired (en_world g)" using assms(1) by (simp add: py_ok_def)
  have "edge_between (en_graph e) = edge_between (en_graph g)"
    unfolding edge_between_def framed_live(3)[OF assms(2)] ..
  moreover have "plain_edges (en_graph e)"
    by (rule plain_edges_new[of "en_graph g"])
      (use w framed_live[OF assms(2)] in \<open>simp_all add: wired_def live_def\<close>)
  ultimately have "wired (en_world e)" using w assms(3) q(1) by (simp add: wired_def)
  then show ?thesis using py_okD[OF assms(1)] top(2) q(3) assms(4) by (simp add: no_regions_def unstabilized_def)
qed

lemma value_at: "world_wf (en_world g) \<Longrightarrow> live g i \<Longrightarrow> engine_value_of g i = Some (w_value (en_world g) i)"
  by (auto simp: engine_value_of_def live_def value_of_node)

text \<open>What a call that drains leaves, whether it ends or hits the step limit.\<close>

definition driven :: "py_graph \<Rightarrow> engine \<Rightarrow> engine_error + unit \<Rightarrow> bool" where
  "driven g e r \<longleftrightarrow> world_wf (en_world e) \<and> (\<forall>x. live e x = live g x)
     \<and> (r = Inr () \<and> py_ok (cleared e) \<or> r = Inl (PropErr (StepLimitExceeded (en_max_steps g))))"

lemma set_dispatch:
  assumes "py_ok g" "live g i"
  shows "\<exists>e r. dispatch S (SetValue i v) g = Some (e, r) \<and> driven g e r
    \<and> (\<forall>x. is_input (en_world g) x \<longrightarrow> w_value (en_world e) x = (if x = i then v else w_value (en_world g) x))"
proof -
  have wf: "world_wf (en_world g)" using assms(1) by (simp add: py_ok_def wired_def)
  obtain n where n: "graph_node (en_graph g) i = Some n" using assms(2) by (auto simp: live_def)
  show ?thesis
  proof (cases "v = n_value n")
    case True
    have "py_ok (cleared g)" using py_okD[OF assms(1)] by simp
    moreover have "w_value (en_world g) i = v" using value_of_node[OF wf n] True by simp
    ultimately show ?thesis using n True wf by (auto simp: op_set_value_def done_op_def driven_def)
  next
    case False
    obtain e3 xs res pe e r where f: "write_done i (n_value n) v g e3 xs"
      "drain (en_time e3) (engine_auth e3) (en_handled g) (en_max_steps g) (en_prop e3) (en_world e3)
        = Some (res, pe, en_world e)"
      "op_set_value S i v g = Some (e, r)" "en_prop e = pe"
      "r = (case res of Inl err \<Rightarrow> Inl (PropErr err) | Inr u \<Rightarrow> Inr u)"
      using set_value_drains[OF py_ok_at_rest[OF assms(1)] py_okD(3)[OF assms(1)] n False, of S] by blast
    have fr: "interp_frame g e" by (rule set_value_frame[OF f(3)])
    have w3: "world_wf (en_world e3)" "\<forall>x. w_value (en_world e3) x = (if x = i then v else w_value (en_world g) x)"
      "\<forall>x. map_option n_kind (graph_node (en_graph e3) x) = map_option n_kind (graph_node (en_graph g) x)"
      using f(1) by (simp_all add: write_done_def)
    have k: "kept (en_world e3) (en_world e)" "res = Inr () \<and> pe_queue pe = [] \<or> res = Inl (StepLimitExceeded (en_max_steps g))"
      using drain_keeps[OF w3(1), of "en_time e3" "engine_auth e3" "en_handled g" "en_max_steps g" "en_prop e3"] f(2) by auto
    have inp: "is_input (en_world e3) x = is_input (en_world g) x" for x
      using w3(3)[THEN spec, of x] unfolding is_input_def
      by (cases "graph_node (en_graph e3) x"; cases "graph_node (en_graph g) x") auto
    have "world_wf (en_world e)" using k(1) by (simp add: kept_def)
    moreover have "w_value (en_world e) x = (if x = i then v else w_value (en_world g) x)" if "is_input (en_world g) x" for x
      using k(1) that w3(2) inp by (simp add: kept_def)
    moreover have "r = Inr () \<and> py_ok (cleared e) \<or> r = Inl (PropErr (StepLimitExceeded (en_max_steps g)))"
      using k(2) f(4,5) framed_ok[OF assms(1) fr calculation(1)] by auto
    ultimately show ?thesis using f(3) framed_live(1)[OF fr] by (auto simp: driven_def)
  qed
qed

lemma demand_dispatch:
  assumes "py_ok g"
  shows "\<exists>e r. dispatch S (Demand i) g = Some (e, r) \<and> driven g e r"
proof -
  define e0 where "e0 = log_op ''Demand'' (Some i) Attribute (engine_enqueue (WDemand i) g)"
  have w: "en_world e0 = en_world g" "pe_queue (en_prop e0) = [WDemand i]" "no_regions e0" "en_max_steps e0 = en_max_steps g"
    "pe_events (en_prop e0) = []"
    using assms by (simp_all add: e0_def engine_enqueue_def enqueue_def py_ok_def no_regions_def)
  have wf: "world_wf (en_world e0)" using assms w(1) by (simp add: py_ok_def wired_def)
  obtain res pe w' where d: "drain (en_time e0) (engine_auth e0) (en_handled e0) (en_max_steps e0) (en_prop e0) (en_world e0)
      = Some (res, pe, w')" "kept (en_world e0) w'"
    "res = Inr () \<and> pe_queue pe = [] \<or> res = Inl (StepLimitExceeded (en_max_steps e0))"
    using drain_keeps[OF wf] by blast
  obtain e r where r: "drain_and_stabilize S e0 = Some (e, r)" "en_world e = w'" "en_prop e = pe"
    "r = (case res of Inl err \<Rightarrow> Inl (PropErr err) | Inr u \<Rightarrow> Inr u)"
    using drain_and_stabilize_once[OF w(3) _ _ d(1), of S] w(2,5) py_okD(3)[OF assms] w(1) by (auto simp: quiet_engine_def)
  have "interp_frame g e0" unfolding e0_def by (rule ie.trans[OF frame_plain(2) frame_plain(3)])
  then have fr: "interp_frame g e" using ie.trans drain_and_stabilize_frame[OF r(1)] by blast
  have we: "world_wf (en_world e)" using d(2) r(2) by (simp add: kept_def)
  have "r = Inr () \<and> py_ok (cleared e) \<or> r = Inl (PropErr (StepLimitExceeded (en_max_steps g)))"
    using d(3) r(3,4) w(4) framed_ok[OF assms fr we] by auto
  then have "driven g e r" using we framed_live(1)[OF fr] by (simp add: driven_def)
  moreover have "dispatch S (Demand i) g = Some (e, r)" using r(1) by (simp add: op_demand_def e0_def)
  ultimately show ?thesis by blast
qed

section \<open>The methods\<close>

lemma input_call:
  assumes "py_ok g" "st_idx (en_store g) i = None" "length (st_cache (en_store g)) < 2 ^ 32 - 1"
  shows "\<exists>e. py_input S i name g = Some (e, Inr i) \<and> py_ok e \<and> engine_value_of e = (engine_value_of g)(i \<mapsto> Neg)"
  using create_dispatch[OF assms, of S name Input attrs_new] apply_done(2)[OF assms(1)]
  by (fastforce simp: py_input_def input_node_def)

lemma mode_call:
  assumes "py_ok g" "m \<noteq> Stabilizing"
  shows "\<exists>e r. py_apply S (SetMode i m) g = Some (e, r) \<and> py_ok e \<and> engine_value_of e = engine_value_of g
    \<and> r = (if live g i then Inr () else Inl (RuntimeError (NodeNotFound i)))"
proof (cases "live g i")
  case True
  then show ?thesis using mode_dispatch[OF assms(1) True assms(2), of S] apply_done(1)[OF assms(1)] by fastforce
next
  case False
  then have "dispatch S (SetMode i m) g = Some (g, Inl (NodeNotFound i))"
    by (simp add: op_set_mode_def live_def fail_op_def)
  then show ?thesis using apply_failed[OF assms(1)] assms(1) False by simp
qed

lemma computed_call:
  assumes "py_ok g" "st_idx (en_store g) i = None" "length (st_cache (en_store g)) < 2 ^ 32 - 1"
  shows "\<exists>e. py_computed S i name rule lazy g = Some (e, if compute_rule_named rule = None then Inl (ValueError rule) else Inr i)
    \<and> py_ok e \<and> engine_value_of e = (if compute_rule_named rule = None then engine_value_of g else (engine_value_of g)(i \<mapsto> Neg))"
proof (cases "compute_rule_named rule")
  case None
  then show ?thesis using assms(1) by (simp add: py_computed_def)
next
  case (Some r)
  obtain e where e: "apply_unwrap S (computed_node i name r) g = Some (cleared e)" "py_ok (cleared e)"
    "engine_value_of (cleared e) = (engine_value_of g)(i \<mapsto> Neg)"
    using create_dispatch[OF assms, of S name "Computed r" attrs_new] apply_done(2)[OF assms(1)]
    by (fastforce simp: computed_node_def)
  have "live (cleared e) i" by (simp add: live_value e(3)[unfolded cleared_sel])
  then obtain e2 where e2: "dispatch S (SetMode i Lazy) (cleared e) = Some (e2, Inr ())" "py_ok (cleared e2)"
    "engine_value_of e2 = engine_value_of (cleared e)"
    using mode_dispatch[OF e(2), of i Lazy S] by auto
  have "apply_unwrap S (SetMode i Lazy) (cleared e) = Some (cleared e2)"
    by (rule apply_done(2)[OF e(2) e2(1)])
  then show ?thesis using e e2(2,3) by (simp add: py_computed_def Some)
qed

lemma connect_call:
  assumes "py_ok g" "graph_edge (en_graph g) x = None" "a \<notin> deps_of (en_deps g) b"
    and "length (ordered_deps_of (en_deps g) b) + 2 < 2 ^ 32"
  shows "\<exists>e r. py_connect S x a b g = Some (e, r) \<and> py_ok e \<and> engine_value_of e = engine_value_of g
    \<and> r = (if \<not> live g a then Inl (RuntimeError (NodeNotFound a))
           else if \<not> live g b then Inl (RuntimeError (NodeNotFound b)) else Inr ())"
proof (cases "live g a \<and> live g b")
  case True
  then show ?thesis
    using connect_dispatch[OF assms(1) _ _ assms(2-4), of S] apply_done(1)[OF assms(1)] unfolding py_connect_def by fastforce
next
  case False
  then have "dispatch S (dep_edge x a b) g = Some (g, Inl (NodeNotFound (if live g a then b else a)))"
    by (auto simp: dep_edge_def op_edge_connect_def live_def fail_op_def)
  then show ?thesis using apply_failed[OF assms(1)] assms(1) False unfolding py_connect_def by auto
qed

lemma disconnect_call:
  assumes "py_ok g"
  shows "\<exists>e. py_disconnect S a b g = Some (e, if edge_between (en_graph g) a b then Inr () else Inl (NoEdge a b))
    \<and> py_ok e \<and> engine_value_of e = engine_value_of g"
proof -
  have gw: "graph_wf (en_graph g)" using assms by (simp add: py_ok_def wired_def world_wf_def)
  have mem: "ed \<in> set (edges_from (en_graph g) a) \<longleftrightarrow> e_src ed = a \<and> graph_edge (en_graph g) (e_id ed) = Some ed" for ed
    using set_edges[OF gw, of ed] by (auto simp: edges_from_def)
  show ?thesis
  proof (cases "find (\<lambda>ed. e_tgt ed = b) (edges_from (en_graph g) a)")
    case None
    then have "\<not> edge_between (en_graph g) a b"
      using mem gw by (auto simp: find_None_iff edge_between_def graph_wf_def)
    then show ?thesis using assms None by (simp add: py_disconnect_def)
  next
    case (Some ed)
    then have ed: "e_tgt ed = b" "ed \<in> set (edges_from (en_graph g) a)"
      by (auto simp: find_Some_iff)
    then have "graph_edge (en_graph g) (e_id ed) = Some ed" "edge_between (en_graph g) a b"
      using mem by (auto simp: edge_between_def)
    then show ?thesis
      using del_edge_dispatch[OF assms, of "e_id ed" ed S] apply_done(1)[OF assms] Some
      by (fastforce simp: py_disconnect_def)
  qed
qed

lemma delete_call:
  assumes "py_ok g"
  shows "\<exists>e. py_delete_node S i g = Some (e, Inr ()) \<and> py_ok e \<and> engine_value_of e = (engine_value_of g)(i := None)"
  using del_node_dispatch[OF assms, of S i] apply_done(1)[OF assms] unfolding py_delete_node_def by fastforce

text \<open>The one exception that a legal call on live nodes can raise.\<close>

definition step_limit :: "py_exception + 'a \<Rightarrow> bool" where
  "step_limit r \<longleftrightarrow> (\<exists>n. r = Inl (RuntimeError (PropErr (StepLimitExceeded n))))"

lemma driven_call:
  assumes "py_ok g" "dispatch S x g = Some (e, r)" "driven g e r"
  shows "\<exists>e' r'. py_apply S x g = Some (e', r') \<and> en_world e' = en_world e \<and> (\<forall>k. live e' k = live g k)
    \<and> world_wf (en_world e') \<and> (r' = Inr () \<and> py_ok e' \<or> step_limit r')"
proof (cases r)
  case (Inl err)
  then show ?thesis using apply_failed[OF assms(1)] assms(2,3) by (auto simp: driven_def step_limit_def)
next
  case (Inr u)
  then show ?thesis using apply_done(1)[OF assms(1)] assms(2,3) by (auto simp: driven_def)
qed

lemma t_py_t: "py_to_t x = Inr v \<Longrightarrow> t_to_py v = x"
  by (auto simp: py_to_t_def t_to_py_def split: py_object.splits)

lemma set_call:
  assumes "py_ok g"
  shows "\<exists>e r. py_set S i x g = Some (e, r) \<and> (\<forall>k. live e k = live g k)
    \<and> (x = Py_Other \<longrightarrow> e = g \<and> r = Inl TypeError) \<and> (x \<noteq> Py_Other \<and> \<not> live g i \<longrightarrow> e = g \<and> r = Inl (RuntimeError (NodeNotFound i)))
    \<and> (x \<noteq> Py_Other \<and> live g i \<longrightarrow> (r = Inr () \<or> step_limit r)
         \<and> (\<forall>k. is_input (en_world g) k \<longrightarrow> py_get k e = (if k = i then Inr x else py_get k g)))
    \<and> (step_limit r \<or> py_ok e)"
proof (cases "py_to_t x")
  case (Inl ex)
  then have "x = Py_Other" "ex = TypeError" by (auto simp: py_to_t_def split: py_object.splits)
  then show ?thesis using assms Inl by (simp add: py_set_def)
next
  case (Inr v)
  then have x: "x \<noteq> Py_Other" by (auto simp: py_to_t_def)
  show ?thesis
  proof (cases "live g i")
    case True
    obtain e r where d: "dispatch S (SetValue i v) g = Some (e, r)" "driven g e r"
      "\<forall>k. is_input (en_world g) k \<longrightarrow> w_value (en_world e) k = (if k = i then v else w_value (en_world g) k)"
      using set_dispatch[OF assms True, of S v] by blast
    obtain e' r' where a: "py_apply S (SetValue i v) g = Some (e', r')" "en_world e' = en_world e" "\<forall>k. live e' k = live g k"
      "world_wf (en_world e')" "r' = Inr () \<and> py_ok e' \<or> step_limit r'"
      using driven_call[OF assms d(1,2)] by blast
    have wf: "world_wf (en_world g)" using assms by (simp add: py_ok_def wired_def)
    have get: "py_get k e' = (if k = i then Inr x else py_get k g)" if "is_input (en_world g) k" for k
    proof -
      have l: "live g k" using that by (auto simp: is_input_def live_def)
      then have "live e' k" using a(3) by simp
      then show ?thesis
        using value_at[OF wf l] value_at[OF a(4), of k] d(3) that t_py_t[OF Inr] by (simp add: py_get_def a(2))
    qed
    show ?thesis using a(1,3,5) x True get by (auto simp: py_set_def Inr)
  next
    case False
    then have "dispatch S (SetValue i v) g = Some (g, Inl (NodeNotFound i))"
      by (simp add: op_set_value_def live_def fail_op_def)
    then show ?thesis using apply_failed[OF assms] assms False x by (simp add: py_set_def Inr)
  qed
qed

lemma demand_call:
  assumes "py_ok g"
  shows "\<exists>e r. py_demand S i g = Some (e, r) \<and> (\<forall>k. live e k = live g k) \<and> (step_limit r \<or> r = py_get i e \<and> py_ok e)"
proof -
  obtain e r where d: "dispatch S (Demand i) g = Some (e, r)" "driven g e r"
    using demand_dispatch[OF assms, of S i] by blast
  obtain e' r' where a: "py_apply S (Demand i) g = Some (e', r')" "\<forall>k. live e' k = live g k" "r' = Inr () \<and> py_ok e' \<or> step_limit r'"
    using driven_call[OF assms d] by blast
  then show ?thesis by (cases r') (auto simp: py_demand_def step_limit_def)
qed

section \<open>Graphs a program can build\<close>

text \<open>The graphs that the methods build from an empty one, when the drawn ids are new, no pair is
  connected twice, the counters of the machine have room, and no call has hit the step limit.
  \<open>declare_region\<close> and \<open>stabilize\<close> are left out.\<close>

inductive built :: "saturation \<Rightarrow> py_graph \<Rightarrow> bool" for S where
  init: "built S graph_init"
| input: "built S g \<Longrightarrow> st_idx (en_store g) i = None \<Longrightarrow> length (st_cache (en_store g)) < 2 ^ 32 - 1 \<Longrightarrow>
    py_input S i name g = Some (g', r) \<Longrightarrow> built S g'"
| computed: "built S g \<Longrightarrow> st_idx (en_store g) i = None \<Longrightarrow> length (st_cache (en_store g)) < 2 ^ 32 - 1 \<Longrightarrow>
    py_computed S i name rule lazy g = Some (g', r) \<Longrightarrow> built S g'"
| connect: "built S g \<Longrightarrow> graph_edge (en_graph g) x = None \<Longrightarrow> a \<notin> deps_of (en_deps g) b \<Longrightarrow>
    length (ordered_deps_of (en_deps g) b) + 2 < 2 ^ 32 \<Longrightarrow> py_connect S x a b g = Some (g', r') \<Longrightarrow> built S g'"
| set: "built S g \<Longrightarrow> py_set S i v g = Some (g', r') \<Longrightarrow> \<not> step_limit r' \<Longrightarrow> built S g'"
| demand: "built S g \<Longrightarrow> py_demand S i g = Some (g', r'') \<Longrightarrow> \<not> step_limit r'' \<Longrightarrow> built S g'"
| lazy: "built S g \<Longrightarrow> py_make_lazy S i g = Some (g', r') \<Longrightarrow> built S g'"
| eager: "built S g \<Longrightarrow> py_make_eager S i g = Some (g', r') \<Longrightarrow> built S g'"
| disconnect: "built S g \<Longrightarrow> py_disconnect S a b g = Some (g', r') \<Longrightarrow> built S g'"
| delete: "built S g \<Longrightarrow> py_delete_node S i g = Some (g', r') \<Longrightarrow> built S g'"

lemma built_ok: "built S g \<Longrightarrow> py_ok g"
proof (induction rule: built.induct)
  case init
  show ?case by (rule py_ok_new)
next
  case (input g i name g' r)
  then show ?case using input_call[of g i S name] by auto
next
  case (computed g i name rule lazy g' r)
  then show ?case using computed_call[of g i S name rule lazy] by auto
next
  case (connect g x a b g' r')
  then show ?case using connect_call[of g x a b S] by auto
next
  case (set g i v g' r')
  then show ?case using set_call[of g S i v] by auto
next
  case (demand g i g' r'')
  then show ?case using demand_call[of g S i] by auto
next
  case (lazy g i g' r')
  then show ?case using mode_call[of g Lazy S i] by (auto simp: py_make_lazy_def)
next
  case (eager g i g' r')
  then show ?case using mode_call[of g Eager S i] by (auto simp: py_make_eager_def)
next
  case (disconnect g a b g' r')
  then show ?case using disconnect_call[of g S a b] by auto
next
  case (delete g i g' r')
  then show ?case using delete_call[of g S i] by auto
qed

lemma get_live: "live g i \<Longrightarrow> \<exists>v. py_get i g = Inr v"
  by (auto simp: live_value py_get_def)

lemma get_dead: "\<not> live g i \<Longrightarrow> py_get i g = Inl KeyError"
  by (simp add: live_value py_get_def)

lemma get_values: "engine_value_of e = engine_value_of g \<Longrightarrow> py_get k e = py_get k g"
  by (simp add: py_get_def)

text \<open>What the calls return, in terms of what the program reads.\<close>

lemma new_input:
  assumes "py_ok g" "st_idx (en_store g) j = None \<and> length (st_cache (en_store g)) < 2 ^ 32 - 1"
  shows "\<exists>e. py_input S j name g = Some (e, Inr j) \<and> (\<forall>k. py_get k e = (if k = j then Inr Py_None else py_get k g))"
proof -
  obtain e where e: "py_input S j name g = Some (e, Inr j)" "engine_value_of e = (engine_value_of g)(j \<mapsto> Neg)"
    using input_call[OF assms(1) conjunct1[OF assms(2)] conjunct2[OF assms(2)]] by meson
  have "py_get k e = (if k = j then Inr Py_None else py_get k g)" for k by (simp add: py_get_def t_to_py_def e(2))
  then show ?thesis using e(1) by auto
qed

lemma new_computed:
  assumes "py_ok g" "st_idx (en_store g) j = None \<and> length (st_cache (en_store g)) < 2 ^ 32 - 1"
  shows "\<exists>e. py_computed S j name rule lazy g = Some (e, if compute_rule_named rule = None then Inl (ValueError rule) else Inr j)
    \<and> (\<forall>k. py_get k e = (if k = j \<and> compute_rule_named rule \<noteq> None then Inr Py_None else py_get k g))"
proof -
  obtain e where e: "py_computed S j name rule lazy g = Some (e, if compute_rule_named rule = None then Inl (ValueError rule) else Inr j)"
    "engine_value_of e = (if compute_rule_named rule = None then engine_value_of g else (engine_value_of g)(j \<mapsto> Neg))"
    using computed_call[OF assms(1) conjunct1[OF assms(2)] conjunct2[OF assms(2)], of S name rule lazy] by meson
  have "py_get k e = (if k = j \<and> compute_rule_named rule \<noteq> None then Inr Py_None else py_get k g)" for k
    using e(2) by (cases "compute_rule_named rule") (simp_all add: py_get_def t_to_py_def)
  then show ?thesis using e(1) by auto
qed

lemma set_returns:
  assumes "py_ok g" "live g i"
  shows "\<exists>e r. py_set S i x g = Some (e, r) \<and> (if x = Py_Other then e = g \<and> r = Inl TypeError
         else (r = Inr () \<or> step_limit r)
           \<and> (\<forall>k. is_input (en_world g) k \<longrightarrow> py_get k e = (if k = i then Inr x else py_get k g)))"
proof -
  obtain e r where s: "py_set S i x g = Some (e, r)" "x = Py_Other \<longrightarrow> e = g \<and> r = Inl TypeError"
    "x \<noteq> Py_Other \<and> live g i \<longrightarrow> (r = Inr () \<or> step_limit r)
       \<and> (\<forall>k. is_input (en_world g) k \<longrightarrow> py_get k e = (if k = i then Inr x else py_get k g))"
    using set_call[OF assms(1), of S i x] by blast
  show ?thesis
    by (intro exI[of _ e] exI[of _ r] conjI s(1)) (use s(2,3) assms(2) in \<open>cases "x = Py_Other"; simp\<close>)
qed

lemma demand_returns:
  assumes "py_ok g" "live g i"
  shows "\<exists>e r. py_demand S i g = Some (e, r) \<and> (step_limit r \<or> r = py_get i e \<and> (\<exists>v. r = Inr v))"
proof -
  obtain e r where d: "py_demand S i g = Some (e, r)" "live e i" "step_limit r \<or> r = py_get i e"
    using demand_call[OF assms(1), of S i] assms(2) by blast
  then show ?thesis using get_live[OF d(2)] by metis
qed

text \<open>The calls that name a dead node: they are refused and leave the graph as it is.\<close>

lemma dead_refused:
  assumes "py_ok g" "\<not> live g i"
  shows "py_set S i x g = Some (g, Inl (if x = Py_Other then TypeError else RuntimeError (NodeNotFound i)))"
    "py_make_lazy S i g = Some (g, Inl (RuntimeError (NodeNotFound i)))"
    "py_make_eager S i g = Some (g, Inl (RuntimeError (NodeNotFound i)))"
    "py_connect S y i b g = Some (g, Inl (RuntimeError (NodeNotFound i)))"
    "live g a \<Longrightarrow> py_connect S y a i g = Some (g, Inl (RuntimeError (NodeNotFound i)))"
proof -
  have fails: "py_apply S y g = Some (g, Inl (RuntimeError (NodeNotFound i)))"
    if "dispatch S y g = fail_op (NodeNotFound i) g" for y
    using that apply_failed[OF assms(1), of S y g] by (simp add: fail_op_def)
  show "py_set S i x g = Some (g, Inl (if x = Py_Other then TypeError else RuntimeError (NodeNotFound i)))"
    using assms(2) by (cases x) (auto simp: py_set_def py_to_t_def live_def op_set_value_def intro!: fails split: py_object.splits)
  show "py_make_lazy S i g = Some (g, Inl (RuntimeError (NodeNotFound i)))"
    "py_make_eager S i g = Some (g, Inl (RuntimeError (NodeNotFound i)))"
    using assms(2) by (auto simp: py_make_lazy_def py_make_eager_def live_def op_set_mode_def intro!: fails)
  show "py_connect S y i b g = Some (g, Inl (RuntimeError (NodeNotFound i)))"
    "live g a \<Longrightarrow> py_connect S y a i g = Some (g, Inl (RuntimeError (NodeNotFound i)))"
    using assms(2) by (auto simp: py_connect_def live_def dep_edge_def op_edge_connect_def intro!: fails)
qed

lemma dead_demand:
  assumes "py_ok g" "\<not> live g i"
  shows "\<exists>e r. py_demand S i g = Some (e, r) \<and> (step_limit r \<or> r = Inl KeyError)"
proof -
  obtain e r where "py_demand S i g = Some (e, r)" "live e i = live g i" "step_limit r \<or> r = py_get i e"
    using demand_call[OF assms(1), of S i] by blast
  then show ?thesis using get_dead[of e i] assms(2) by auto
qed

lemma structure_returns:
  assumes "py_ok g"
  shows "live g a \<and> live g b \<and> graph_edge (en_graph g) y = None \<and> a \<notin> deps_of (en_deps g) b
        \<and> length (ordered_deps_of (en_deps g) b) + 2 < 2 ^ 32 \<Longrightarrow>
        \<exists>e. py_connect S y a b g = Some (e, Inr ()) \<and> (\<forall>k. py_get k e = py_get k g)"
    "\<exists>e. py_disconnect S a b g = Some (e, if edge_between (en_graph g) a b then Inr () else Inl (NoEdge a b))
        \<and> (\<forall>k. py_get k e = py_get k g)"
    "live g i \<Longrightarrow> (\<exists>e. py_make_lazy S i g = Some (e, Inr ()) \<and> (\<forall>k. py_get k e = py_get k g))
        \<and> (\<exists>e. py_make_eager S i g = Some (e, Inr ()) \<and> (\<forall>k. py_get k e = py_get k g))"
    "\<exists>e. py_delete_node S i g = Some (e, Inr ()) \<and> (\<forall>k. py_get k e = (if k = i then Inl KeyError else py_get k g))"
proof -
  show "\<exists>e. py_connect S y a b g = Some (e, Inr ()) \<and> (\<forall>k. py_get k e = py_get k g)"
    if h: "live g a \<and> live g b \<and> graph_edge (en_graph g) y = None \<and> a \<notin> deps_of (en_deps g) b
        \<and> length (ordered_deps_of (en_deps g) b) + 2 < 2 ^ 32"
  proof -
    obtain e r where e: "py_connect S y a b g = Some (e, r)" "engine_value_of e = engine_value_of g"
      "r = (if \<not> live g a then Inl (RuntimeError (NodeNotFound a))
           else if \<not> live g b then Inl (RuntimeError (NodeNotFound b)) else Inr ())"
      using connect_call[OF assms, of y a b S] h by (elim conjE) blast
    then show ?thesis using h get_values[OF e(2)] by simp
  qed
  show "\<exists>e. py_disconnect S a b g = Some (e, if edge_between (en_graph g) a b then Inr () else Inl (NoEdge a b))
        \<and> (\<forall>k. py_get k e = py_get k g)"
  proof -
    obtain e where e: "py_disconnect S a b g = Some (e, if edge_between (en_graph g) a b then Inr () else Inl (NoEdge a b))"
      "engine_value_of e = engine_value_of g"
      using disconnect_call[OF assms, of S a b] by (elim exE conjE) (rule that)
    show ?thesis by (intro exI[of _ e] conjI e(1) allI get_values[OF e(2)])
  qed
  show "(\<exists>e. py_make_lazy S i g = Some (e, Inr ()) \<and> (\<forall>k. py_get k e = py_get k g))
        \<and> (\<exists>e. py_make_eager S i g = Some (e, Inr ()) \<and> (\<forall>k. py_get k e = py_get k g))" if l: "live g i"
  proof -
    have "\<exists>e. py_apply S (SetMode i m) g = Some (e, Inr ()) \<and> (\<forall>k. py_get k e = py_get k g)" if m: "m \<noteq> Stabilizing" for m
    proof -
      obtain e r where e: "py_apply S (SetMode i m) g = Some (e, r)" "engine_value_of e = engine_value_of g"
        "r = (if live g i then Inr () else Inl (RuntimeError (NodeNotFound i)))"
        using mode_call[OF assms m, of S i] by (elim exE conjE) (rule that)
      show ?thesis using e(1,3) l get_values[OF e(2)] by simp
    qed
    then show ?thesis by (simp add: py_make_lazy_def py_make_eager_def)
  qed
  obtain e where e: "py_delete_node S i g = Some (e, Inr ())" "engine_value_of e = (engine_value_of g)(i := None)"
    using delete_call[OF assms, of S i] by meson
  have "py_get k e = (if k = i then Inl KeyError else py_get k g)" for k by (simp add: py_get_def e(2))
  then show "\<exists>e. py_delete_node S i g = Some (e, Inr ()) \<and> (\<forall>k. py_get k e = (if k = i then Inl KeyError else py_get k g))"
    using e(1) by auto
qed

text \<open>
  C6. Every call of the Python class returns, and raises only what it documents.  In any graph that
  a program built without parallel edges, region declarations and stabilizations, and in which no
  call has hit the step limit: a new input or computed node is pending and changes no other value,
  and only an unknown rule name is refused; reading a live node never fails and reading a dead one
  raises \<open>KeyError\<close>; setting a live node raises a type error for a non-boolean, else at most the step
  limit, and an input then reads back what was set while the other inputs keep their values; a
  demand of a live node returns what \<open>get\<close> returns, or hits the step limit; connecting live nodes,
  disconnecting connected ones, changing a mode and deleting succeed and change no other value; to
  set, connect or change the mode of a dead node is refused and leaves the graph as it is, and a
  demand of one raises \<open>KeyError\<close> or hits the step limit.  No call panics or fails to return.
\<close>

theorem calls_return:
  assumes "built S g"
  shows "(st_idx (en_store g) j = None \<and> length (st_cache (en_store g)) < 2 ^ 32 - 1 \<longrightarrow>
        (\<exists>e. py_input S j name g = Some (e, Inr j) \<and> (\<forall>k. py_get k e = (if k = j then Inr Py_None else py_get k g)))
      \<and> (\<exists>e. py_computed S j name rule lazy g
            = Some (e, if compute_rule_named rule = None then Inl (ValueError rule) else Inr j)
          \<and> (\<forall>k. py_get k e = (if k = j \<and> compute_rule_named rule \<noteq> None then Inr Py_None else py_get k g))))
    \<and> (if live g i then \<exists>v. py_get i g = Inr v else py_get i g = Inl KeyError)
    \<and> (live g i \<longrightarrow> (\<exists>e r. py_set S i x g = Some (e, r) \<and>
        (if x = Py_Other then e = g \<and> r = Inl TypeError
         else (r = Inr () \<or> step_limit r)
           \<and> (\<forall>k. is_input (en_world g) k \<longrightarrow> py_get k e = (if k = i then Inr x else py_get k g)))))
    \<and> (live g i \<longrightarrow> (\<exists>e r. py_demand S i g = Some (e, r) \<and> (step_limit r \<or> r = py_get i e \<and> (\<exists>v. r = Inr v))))
    \<and> (live g a \<and> live g b \<and> graph_edge (en_graph g) y = None \<and> a \<notin> deps_of (en_deps g) b
        \<and> length (ordered_deps_of (en_deps g) b) + 2 < 2 ^ 32 \<longrightarrow>
        (\<exists>e. py_connect S y a b g = Some (e, Inr ()) \<and> (\<forall>k. py_get k e = py_get k g)))
    \<and> (\<exists>e. py_disconnect S a b g = Some (e, if edge_between (en_graph g) a b then Inr () else Inl (NoEdge a b))
        \<and> (\<forall>k. py_get k e = py_get k g))
    \<and> (live g i \<longrightarrow> (\<exists>e. py_make_lazy S i g = Some (e, Inr ()) \<and> (\<forall>k. py_get k e = py_get k g))
        \<and> (\<exists>e. py_make_eager S i g = Some (e, Inr ()) \<and> (\<forall>k. py_get k e = py_get k g)))
    \<and> (\<exists>e. py_delete_node S i g = Some (e, Inr ()) \<and> (\<forall>k. py_get k e = (if k = i then Inl KeyError else py_get k g)))
    \<and> (\<not> live g i \<longrightarrow>
        py_set S i x g = Some (g, Inl (if x = Py_Other then TypeError else RuntimeError (NodeNotFound i)))
      \<and> (\<exists>e r. py_demand S i g = Some (e, r) \<and> (step_limit r \<or> r = Inl KeyError))
      \<and> py_make_lazy S i g = Some (g, Inl (RuntimeError (NodeNotFound i)))
      \<and> py_make_eager S i g = Some (g, Inl (RuntimeError (NodeNotFound i)))
      \<and> py_connect S y i b g = Some (g, Inl (RuntimeError (NodeNotFound i)))
      \<and> (live g a \<longrightarrow> py_connect S y a i g = Some (g, Inl (RuntimeError (NodeNotFound i)))))"
  using new_input[OF built_ok[OF assms], of j S name] new_computed[OF built_ok[OF assms], of j S name rule lazy]
    get_live[of g i] get_dead[of g i] set_returns[OF built_ok[OF assms], of i S x] demand_returns[OF built_ok[OF assms], of i S]
    structure_returns[OF built_ok[OF assms]] dead_refused[OF built_ok[OF assms]] dead_demand[OF built_ok[OF assms], of i S]
  by presburger

section \<open>What the rules come to\<close>

lemma named_rules:
  assumes "compute_rule_named name = Some rule"
  shows "rule \<in> {MeetAll, JoinAny, MvNeg, Merge, BochvarFold, Identity_rule}"
  using assms by (auto simp: compute_rule_named_def split: if_splits)

lemma t_to_py_iff [simp]:
  "t_to_py v = Py_Bool False \<longleftrightarrow> v = Zero" "t_to_py v = Py_Bool True \<longleftrightarrow> v = Pos" "t_to_py v = Py_None \<longleftrightarrow> v = Neg"
  by (cases v; simp add: t_to_py_def)+

lemma py_value: "py_ok g \<Longrightarrow> live g k \<Longrightarrow> py_get k g = Inr (t_to_py (w_value (en_world g) k))"
  using value_at[of g k] by (simp add: py_get_def py_ok_def wired_def)

lemma deps_live:
  assumes "py_ok g" "a \<in> deps_of (en_deps g) b"
  shows "live g a" "live g b" "a \<in> set (ordered_deps_of (en_deps g) b)"
proof -
  have w: "wired (en_world g)" using assms(1) by (simp add: py_ok_def)
  then have "edge_between (en_graph g) a b" using assms(2) by (simp add: wired_def)
  then show "live g a" "live g b"
    using plain_edgesD(2,3)[of "en_graph g"] w by (auto simp: edge_between_def wired_def live_def)
  show "a \<in> set (ordered_deps_of (en_deps g) b)"
    using w assms(2) by (simp add: wired_def world_wf_def simple_deps_def)
qed

text \<open>
  C16. All the rules but \<open>not\<close> are one rule.  In a graph that a program built, take a computed node that
  is at the value a push gives it, with at least the inputs its rule reads.  If any input is \<open>False\<close> it
  is \<open>False\<close>; otherwise, if all its inputs are \<open>True\<close>, it is \<open>True\<close>, or \<open>None\<close> for \<open>not\<close>, whatever the
  rule; and if none is \<open>False\<close> and some is \<open>None\<close>, a push leaves it at any value it had.  So \<open>or\<close> of
  \<open>True\<close> and \<open>False\<close> is \<open>False\<close>, \<open>not\<close> of \<open>None\<close> is not \<open>True\<close>, and an \<open>and\<close> can stay \<open>True\<close> over \<open>None\<close>.
\<close>

theorem gates_collapse:
  assumes "built S g" "compute_rule_named name = Some rule" "graph_node (en_graph g) x = Some n" "n_kind n = Computed rule"
    and "current (en_world g) x" "ordered_deps_of (en_deps g) x \<noteq> []" "rule_arity rule \<le> length (ordered_deps_of (en_deps g) x)"
  shows "if \<exists>a \<in> deps_of (en_deps g) x. py_get a g = Inr (Py_Bool False) then py_get x g = Inr (Py_Bool False)
    else if \<forall>a \<in> deps_of (en_deps g) x. py_get a g = Inr (Py_Bool True)
      then py_get x g = Inr (if rule = MvNeg then Py_None else Py_Bool True)
    else \<forall>v. push_target rule (dep_values (en_world g) x) v = v"
proof -
  note ok = built_ok[OF assms(1)]
  let ?vs = "dep_values (en_world g) x"
  have wf: "world_wf (en_world g)" using ok by (simp add: py_ok_def wired_def)
  then have od: "set (ordered_deps_of (en_deps g) x) = deps_of (en_deps g) x" "length ?vs < 2 ^ 32"
    by (auto simp: world_wf_def simple_deps_def dep_values_def dest: spec[of _ x])
  have vs: "set ?vs = w_value (en_world g) ` deps_of (en_deps g) x" "?vs \<noteq> []" "rule_arity rule \<le> length ?vs"
    using assms(6,7) by (simp_all add: dep_values_def od(1)[symmetric])
  have dep: "py_get a g = Inr (t_to_py (w_value (en_world g) a))" if "a \<in> deps_of (en_deps g) x" for a
    using py_value[OF ok deps_live(1)[OF ok that]] .
  have x: "py_get x g = Inr (t_to_py (push_target rule ?vs (w_value (en_world g) x)))"
    using py_value[OF ok, of x] assms(3-5) by (auto simp: live_def current_def)
  note scan = propagation_state_scan[OF od(2)]
  have f: "(\<exists>a \<in> deps_of (en_deps g) x. py_get a g = Inr (Py_Bool False)) \<longleftrightarrow> Zero \<in> set ?vs"
    unfolding vs(1) image_iff using dep by (auto simp: eq_commute[of Zero])
  have t: "(\<forall>a \<in> deps_of (en_deps g) x. py_get a g = Inr (Py_Bool True)) \<longleftrightarrow> (\<forall>v \<in> set ?vs. v = Pos)"
    unfolding vs(1) using dep by auto
  show ?thesis
  proof (cases "Zero \<in> set ?vs")
    case True
    then show ?thesis unfolding f x by (simp add: push_target_def scan t_to_py_def)
  next
    case zero: False
    show ?thesis
    proof (cases "\<forall>v \<in> set ?vs. v = Pos")
      case True
      then have "rule_eval rule ?vs = Some (if rule = MvNeg then Neg else Pos)"
        using rule_eval_ready[OF True vs(3)] named_rules[OF assms(2)] vs(2) by auto
      moreover have "propagation_state ?vs = Ready" using True by (auto simp: scan)
      ultimately show ?thesis
        unfolding f t x using True zero by (simp add: push_target_def or_default_def t_to_py_def)
    next
      case False
      then have "Neg \<in> set ?vs" using zero by (metis T.exhaust)
      then have "propagation_state ?vs = Pending" using zero by (simp add: scan)
      then show ?thesis unfolding f t using False zero by (auto simp: push_target_def)
    qed
  qed
qed

section \<open>Clearing an input\<close>

text \<open>A drain over a world in which every node is at its value changes no value.\<close>

definition calm :: "world \<Rightarrow> world \<Rightarrow> bool" where
  "calm w w' \<longleftrightarrow> world_wf w' \<and> (\<forall>x. current w' x) \<and> (\<forall>x. w_value w' x = w_value w x)"

lemma push_calm:
  assumes "world_wf w" "\<forall>x. current w x" "step_push i t actx dem stats w = Some (w', stats', r, evs, work)"
  shows "calm w w'"
proof (cases "\<exists>n rule. graph_node (w_graph w) i = Some n \<and> n_kind n = Computed rule")
  case False
  then have "w' = w" using assms(3) by (auto simp: step_push_def split: option.splits node_kind.splits)
  then show ?thesis using assms by (simp add: calm_def)
next
  case True
  then obtain n rule where n: "graph_node (w_graph w) i = Some n" "n_kind n = Computed rule" by blast
  have post: "step_post i (push_target rule (dep_values w i) (n_value n)) t actx dem w w' work"
    using step_push_post[OF assms(1) n, of t actx dem stats] assms(3) by auto
  have "push_target rule (dep_values w i) (n_value n) = w_value w i"
    using assms(2)[THEN spec, of i] n value_of_node[OF assms(1) n(1)] by (simp add: current_def)
  then have p: "world_wf w'" "\<And>x. w_value w' x = w_value w x" "same_topology (w_deps w) (w_deps w')"
    "\<And>x. map_option n_kind (graph_node (w_graph w') x) = map_option n_kind (graph_node (w_graph w) x)"
    using post by (auto simp: step_post_def)
  have "current w' x" for x
    using assms(2) current_frame[of w' x w] p(2,4) same_topology_queries(4)[OF p(3)] by (simp add: dep_values_def)
  then show ?thesis using p(1,2) by (simp add: calm_def)
qed

lemma item_calm:
  assumes "world_wf w" "\<forall>x. current w x" "drain_item t actx handled item f pe w = Some (f', pe', w')"
  shows "calm w w'"
proof (cases item)
  case (WPush i)
  then show ?thesis
    using assms(3) push_calm[OF assms(1,2)] assms(1,2) by (auto simp: drain_item_def split_beta calm_def split: if_splits)
next
  case (WDemand i)
  then show ?thesis
    using assms(3) drain_demand[of t actx handled i f pe w] assms(1,2) by (auto simp: calm_def)
qed (use assms in \<open>simp add: drain_item_def calm_def\<close>)

lemma loop_calm:
  assumes "world_wf w" "\<forall>x. current w x" "drain_loop t actx handled mx steps f pe w = Some (res, pe', w')"
  shows "calm w w'"
  using assms
proof (induction steps arbitrary: f pe w)
  case 0
  then show ?case by (cases "pe_queue pe") (auto simp: drain_loop_unfold calm_def)
next
  case (Suc steps)
  show ?case
  proof (cases "pe_queue pe")
    case Nil
    then show ?thesis using Suc.prems by (simp add: drain_loop_unfold calm_def)
  next
    case (Cons item queue)
    obtain f2 pe2 w2 where i: "drain_item t actx handled item f (popped pe queue) w = Some (f2, pe2, w2)"
      "drain_loop t actx handled mx steps f2 pe2 w2 = Some (res, pe', w')"
      using Suc.prems(3) Cons by (auto simp: drain_loop_unfold split: option.splits)
    have c: "calm w w2" by (rule item_calm[OF Suc.prems(1,2) i(1)])
    then have "calm w2 w'" using Suc.IH[OF _ _ i(2)] by (simp add: calm_def)
    then show ?thesis using c by (simp add: calm_def)
  qed
qed

text \<open>Clearing an input leaves every node that a push would have computed at a value a push gives it.\<close>

lemma cleared_current:
  assumes "world_wf w" "\<forall>x. current w x" "is_input w i" "world_wf w'" "same_topology (w_deps w) (w_deps w')"
    and "\<forall>x. w_value w' x = (if x = i then Neg else w_value w x)"
    and "\<forall>x. map_option n_kind (graph_node (w_graph w') x) = map_option n_kind (graph_node (w_graph w) x)"
  shows "current w' x"
  unfolding current_def
proof (intro allI impI)
  fix rule assume k': "map_option n_kind (graph_node (w_graph w') x) = Some (Computed rule)"
  then have k: "map_option n_kind (graph_node (w_graph w) x) = Some (Computed rule)" using assms(7) by simp
  then have "x \<noteq> i" using assms(3) by (auto simp: is_input_def)
  then have v: "w_value w' x = w_value w x" using assms(6) by simp
  have old: "w_value w x = push_target rule (dep_values w x) (w_value w x)"
    using assms(2) k by (simp add: current_def)
  have dv: "dep_values w' x = map (\<lambda>a. if a = i then Neg else w_value w a) (ordered_deps_of (w_deps w) x)"
    using assms(6) same_topology_queries(4)[OF assms(5)] by (simp add: dep_values_def)
  have "length (ordered_deps_of (w_deps w) x) + 1 < 2 ^ 32" using assms(1) by (simp add: world_wf_def simple_deps_def)
  then have len: "length (dep_values w x) < 2 ^ 32" "length (dep_values w' x) < 2 ^ 32"
    unfolding dv by (simp_all add: dep_values_def)
  show "w_value w' x = push_target rule (dep_values w' x) (w_value w' x)"
  proof (cases "i \<in> set (ordered_deps_of (w_deps w) x)")
    case False
    then have "dep_values w' x = dep_values w x" unfolding dv by (auto simp: dep_values_def)
    then show ?thesis using old v by simp
  next
    case True
    then have neg: "Neg \<in> set (dep_values w' x)" by (force simp: dv)
    show ?thesis
    proof (cases "Zero \<in> set (dep_values w' x)")
      case zero: True
      then have "Zero \<in> set (dep_values w x)" unfolding dv by (auto simp: dep_values_def split: if_splits)
      then have "w_value w x = Zero" using old by (simp add: push_target_def propagation_state_scan[OF len(1)])
      then show ?thesis using zero v by (simp add: push_target_def propagation_state_scan[OF len(2)])
    next
      case False
      then show ?thesis using neg by (simp add: push_target_def propagation_state_scan[OF len(2)])
    qed
  qed
qed


text \<open>
  C17. Clearing an input is not noticed.  In a graph that a program built and in which every node is
  at the value a push gives it, \<open>set(i, None)\<close> on an input makes that input read \<open>None\<close> and changes no
  other value, whatever it says about eager nodes: a node that is \<open>True\<close> over the cleared input stays
  \<open>True\<close>, and every node still counts as being at the value a push gives it.
\<close>

theorem clear_is_ignored:
  assumes "built S g" "\<forall>x. current (en_world g) x" "is_input (en_world g) i"
  shows "\<exists>e r. py_set S i Py_None g = Some (e, r) \<and> (\<forall>k. py_get k e = (if k = i then Inr Py_None else py_get k g))
    \<and> (\<forall>x. current (en_world e) x)"
proof -
  note ok = built_ok[OF assms(1)]
  have wf: "world_wf (en_world g)" using ok by (simp add: py_ok_def wired_def)
  have live: "live g i" using assms(3) by (auto simp: is_input_def live_def)
  obtain n where n: "graph_node (en_graph g) i = Some n" using live by (auto simp: live_def)
  obtain e r where d: "dispatch S (SetValue i Neg) g = Some (e, r)" "driven g e r"
    "\<forall>x. current (en_world e) x" "\<forall>x. w_value (en_world e) x = (if x = i then Neg else w_value (en_world g) x)"
  proof (cases "Neg = n_value n")
    case True
    have "w_value (en_world g) i = Neg" using value_of_node[OF wf n] True by simp
    moreover have "dispatch S (SetValue i Neg) g = Some (g, Inr ())" using n True by (simp add: op_set_value_def done_op_def)
    moreover have "driven g g (Inr ())" using wf py_okD[OF ok] by (simp add: driven_def)
    ultimately show ?thesis using assms(2) by (intro that) auto
  next
    case False
    obtain e3 xs res pe e r where f: "write_done i (n_value n) Neg g e3 xs"
      "drain (en_time e3) (engine_auth e3) (en_handled g) (en_max_steps g) (en_prop e3) (en_world e3)
        = Some (res, pe, en_world e)" "op_set_value S i Neg g = Some (e, r)"
      using set_value_drains[OF py_ok_at_rest[OF ok] py_okD(3)[OF ok] n False, of S] by blast
    have w3: "world_wf (en_world e3)" "\<forall>x. w_value (en_world e3) x = (if x = i then Neg else w_value (en_world g) x)"
      "\<forall>x. map_option n_kind (graph_node (en_graph e3) x) = map_option n_kind (graph_node (en_graph g) x)"
      "same_topology (en_deps g) (en_deps e3)"
      using f(1) by (simp_all add: write_done_def)
    have c3: "\<forall>x. current (en_world e3) x"
      using cleared_current[OF wf assms(2,3) w3(1,4,2,3)] by blast
    have "calm (en_world e3) (en_world e)"
      using f(2) loop_calm[OF w3(1) c3] by (auto simp: drain_def Let_def)
    then have "\<forall>x. current (en_world e) x" "\<forall>x. w_value (en_world e) x = (if x = i then Neg else w_value (en_world g) x)"
      using w3(2) by (simp_all add: calm_def)
    moreover obtain e' r' where s: "dispatch S (SetValue i Neg) g = Some (e', r')" "driven g e' r'"
      using set_dispatch[OF ok live, of S Neg] by blast
    ultimately show ?thesis using f(3) by (intro that[of e' r']) auto
  qed
  obtain e' r' where a: "py_apply S (SetValue i Neg) g = Some (e', r')" "en_world e' = en_world e" "\<forall>k. live e' k = live g k"
    "world_wf (en_world e')"
    using driven_call[OF ok d(1,2)] by blast
  have "py_get k e' = (if k = i then Inr Py_None else py_get k g)" for k
  proof (cases "live g k")
    case True
    then show ?thesis
      using value_at[OF wf True] value_at[OF a(4), of k] a(2,3) d(4) by (simp add: py_get_def)
  next
    case False
    then show ?thesis using get_dead[of g k] get_dead[of e' k] a(3) live by auto
  qed
  moreover have "py_set S i Py_None g = Some (e', r')" by (simp add: py_set_def py_to_t_def a(1))
  ultimately show ?thesis using d(3) a(2) by auto
qed

section \<open>The properties at a gate with two inputs\<close>

text \<open>The calls in terms of the world, to build a graph step by step.\<close>

lemma new_node_world:
  assumes "built S g" "st_idx (en_store g) i = None" "length (st_cache (en_store g)) < 2 ^ 32 - 1"
  shows "\<exists>g'. built S g' \<and> en_world g' = create_node (en_world g) ((node_input i name)\<lparr>n_attrs := attrs_new\<rparr>)"
    and "compute_rule_named rule = Some r \<Longrightarrow>
      \<exists>g'. built S g' \<and> en_world g' = create_node (en_world g) ((node_computed i name r)\<lparr>n_attrs := attrs_new\<rparr>)"
proof -
  note ok = built_ok[OF assms(1)]
  have c: "apply_unwrap S (NodeCreate i name k attrs_new) g = Some (cleared (log_op ''NodeCreate'' (Some i) Identity
      (widen_masks (set_world (\<lambda>w. create_node w ((case k of Input \<Rightarrow> node_input i name | Computed r \<Rightarrow> node_computed i name r)
        \<lparr>n_attrs := attrs_new\<rparr>)) g))))" for k
    by (rule apply_done(2)[OF ok]) (simp add: op_node_create_def done_op_def Let_def)
  have "built S g'" if "py_input S i name g = Some (g', Inr i)" for g' using built.input[OF assms that] .
  then show "\<exists>g'. built S g' \<and> en_world g' = create_node (en_world g) ((node_input i name)\<lparr>n_attrs := attrs_new\<rparr>)"
    using c[of Input] by (auto simp: py_input_def input_node_def set_world_def)
  assume r: "compute_rule_named rule = Some r"
  have "built S g'" if "py_computed S i name rule False g = Some (g', Inr i)" for g' using built.computed[OF assms that] .
  then show "\<exists>g'. built S g' \<and> en_world g' = create_node (en_world g) ((node_computed i name r)\<lparr>n_attrs := attrs_new\<rparr>)"
    using c[of "Computed r"] r by (auto simp: py_computed_def computed_node_def set_world_def)
qed

lemma connect_world:
  assumes "built S g" "live g a" "live g b" "graph_edge (en_graph g) x = None" "a \<notin> deps_of (en_deps g) b"
    and "length (ordered_deps_of (en_deps g) b) + 2 < 2 ^ 32"
  shows "\<exists>g'. built S g' \<and> en_world g' = connect ((en_world g)\<lparr>w_graph := add_edge (en_graph g)
      \<lparr>e_id = x, e_typ = ''dep'', e_src = a, e_tgt = b, e_dep = Local None, e_attrs = attrs_new\<rparr>\<rparr>) a b"
proof -
  note ok = built_ok[OF assms(1)]
  have i: "set_deps (infer_mode (Local None) b) g = g" by (simp add: set_deps_def set_world_def infer_mode_def)
  obtain e where e: "dispatch S (dep_edge x a b) g = Some (e, Inr ())" "en_world e = connect ((en_world g)\<lparr>w_graph := add_edge (en_graph g)
      \<lparr>e_id = x, e_typ = ''dep'', e_src = a, e_tgt = b, e_dep = Local None, e_attrs = attrs_new\<rparr>\<rparr>) a b"
    using assms(2,3) by (auto simp: dep_edge_def op_edge_connect_def live_def done_op_def Let_def i set_cache_def set_world_def)
  have "py_connect S x a b g = Some (cleared e, Inr ())"
    unfolding py_connect_def by (rule apply_done(1)[OF ok e(1)])
  then show ?thesis using built.connect[OF assms(1,4-6)] e(2) cleared_sel(3)[of e] by metis
qed

text \<open>A node that nobody reads takes the value and nothing else happens.\<close>

lemma quiet_set:
  assumes "built S g" "live g i" "subs_of (en_deps g) i = {}" "py_to_t x = Inr v"
  shows "\<exists>g'. built S g' \<and> (\<forall>k. w_value (en_world g') k = (if k = i then v else w_value (en_world g) k))
    \<and> same_topology (en_deps g) (en_deps g') \<and> graph_edge (en_graph g') = graph_edge (en_graph g)
    \<and> (\<forall>k. map_option n_kind (graph_node (en_graph g') k) = map_option n_kind (graph_node (en_graph g) k))"
proof -
  note ok = built_ok[OF assms(1)]
  have wf: "world_wf (en_world g)" using ok by (simp add: py_ok_def wired_def)
  obtain n where n: "graph_node (en_graph g) i = Some n" using assms(2) by (auto simp: live_def)
  have b: "built S (cleared e)" if "dispatch S (SetValue i v) g = Some (e, Inr ())" for e
  proof -
    have "py_set S i x g = Some (cleared e, Inr ())"
      using apply_done(1)[OF ok that] assms(4) by (simp add: py_set_def)
    then show ?thesis by (rule built.set[OF assms(1)]) (simp add: step_limit_def)
  qed
  show ?thesis
  proof (cases "v = n_value n")
    case True
    then have "dispatch S (SetValue i v) g = Some (g, Inr ())" using n by (simp add: op_set_value_def done_op_def)
    then show ?thesis using b[of g] value_of_node[OF wf n] True by (intro exI[of _ "cleared g"]) simp
  next
    case False
    obtain e3 xs res pe e r where f: "write_done i (n_value n) v g e3 xs"
      "drain (en_time e3) (engine_auth e3) (en_handled g) (en_max_steps g) (en_prop e3) (en_world e3)
        = Some (res, pe, en_world e)"
      "op_set_value S i v g = Some (e, r)" "r = (case res of Inl err \<Rightarrow> Inl (PropErr err) | Inr u \<Rightarrow> Inr u)"
      using set_value_drains[OF py_ok_at_rest[OF ok] py_okD(3)[OF ok] n False, of S] by blast
    have "xs = []" using f(1) assms(3) by (auto simp: write_done_def)
    then have q: "pe_queue (en_prop e3) = []" using f(1) py_okD(4)[OF ok] by (simp add: write_done_def)
    then have "res = Inr ()" "en_world e = en_world e3"
      using f(2) by (simp_all add: drain_def Let_def drain_loop_unfold)
    then have d: "dispatch S (SetValue i v) g = Some (e, Inr ())" "en_world e = en_world e3"
      using f(3,4) by simp_all
    have "graph_edge (en_graph e) = graph_edge (en_graph g)"
      using framed_live(3)[OF set_value_frame[OF f(3)]] by (simp add: fun_eq_iff)
    then show ?thesis
      using b[OF d(1)] f(1) d(2) by (intro exI[of _ "cleared e"]) (simp add: write_done_def)
  qed
qed

lemma demo_gate:
  assumes "compute_rule_named rule = Some r" "py_to_t x = Inr u" "py_to_t y = Inr v" "py_to_t z = Inr w"
  shows "\<exists>g. built S g \<and> (\<forall>k. map_option n_kind (graph_node (en_graph g) k)
        = (if k = 1 \<or> k = 2 then Some Input else if k = 3 then Some (Computed r) else None))
    \<and> (\<forall>k. ordered_deps_of (en_deps g) k = (if k = 3 then [1, 2] else []))
    \<and> w_value (en_world g) 1 = u \<and> w_value (en_world g) 2 = v \<and> w_value (en_world g) 3 = w"
proof -
  obtain g1 where g1: "built S g1" "en_world g1 = create_node world_empty ((node_input 1 ''a'')\<lparr>n_attrs := attrs_new\<rparr>)"
    using new_node_world(1)[OF built.init[of S], of 1 "''a''"] by (auto simp: graph_init_def engine_new_def)
  obtain g2 where g2: "built S g2" "en_world g2 = create_node (en_world g1) ((node_input 2 ''b'')\<lparr>n_attrs := attrs_new\<rparr>)"
    using new_node_world(1)[OF g1(1), of 2 "''b''"] by (auto simp: g1(2))
  obtain g3 where g3: "built S g3" "en_world g3 = create_node (en_world g2) ((node_computed 3 ''out'' r)\<lparr>n_attrs := attrs_new\<rparr>)"
    using new_node_world(2)[OF g2(1) _ _ assms(1), of 3 "''out''"] by (auto simp: g1(2) g2(2))
  have k3: "map_option n_kind (graph_node (en_graph g3) k)
      = (if k = 1 \<or> k = 2 then Some Input else if k = 3 then Some (Computed r) else None)" for k
    by (simp add: g3(2) g2(2) g1(2))
  have t3: "subs_of (en_deps g3) k = {}" "deps_of (en_deps g3) k = {}" "ordered_deps_of (en_deps g3) k = []"
    "graph_edge (en_graph g3) = (\<lambda>_. None)" for k
    by (simp_all add: g3(2) g2(2) g1(2) fun_eq_iff graph_edge_def graph_new_def add_node_def)
  have l: "live g k \<longleftrightarrow> k \<in> {1, 2, 3}" if "\<forall>k. map_option n_kind (graph_node (en_graph g) k)
      = (if k = 1 \<or> k = 2 then Some Input else if k = 3 then Some (Computed r) else None)" for g k
    using that[THEN spec, of k] by (auto simp: live_def split: if_splits)
  have "live g3 1" using l[of g3 1] k3 by simp
  then obtain g4 where g4: "built S g4" "\<forall>k. w_value (en_world g4) k = (if k = 1 then u else w_value (en_world g3) k)"
    "same_topology (en_deps g3) (en_deps g4)" "graph_edge (en_graph g4) = graph_edge (en_graph g3)"
    "\<forall>k. map_option n_kind (graph_node (en_graph g4) k) = map_option n_kind (graph_node (en_graph g3) k)"
    using quiet_set[OF g3(1) _ t3(1) assms(2)] by meson
  have "live g4 2" "subs_of (en_deps g4) 2 = {}"
    using l[of g4 2] k3 g4(5) t3(1) same_topology_queries(2)[OF g4(3)] by simp_all
  then obtain g5 where g5: "built S g5" "\<forall>k. w_value (en_world g5) k = (if k = 2 then v else w_value (en_world g4) k)"
    "same_topology (en_deps g4) (en_deps g5)" "graph_edge (en_graph g5) = graph_edge (en_graph g4)"
    "\<forall>k. map_option n_kind (graph_node (en_graph g5) k) = map_option n_kind (graph_node (en_graph g4) k)"
    using quiet_set[OF g4(1) _ _ assms(3), of 2] by meson
  have "live g5 3" "subs_of (en_deps g5) 3 = {}"
    using l[of g5 3] k3 g4(5) g5(5) t3(1) same_topology_queries(2)[OF g4(3)] same_topology_queries(2)[OF g5(3)] by simp_all
  then obtain g6 where g6: "built S g6" "\<forall>k. w_value (en_world g6) k = (if k = 3 then w else w_value (en_world g5) k)"
    "same_topology (en_deps g5) (en_deps g6)" "graph_edge (en_graph g6) = graph_edge (en_graph g5)"
    "\<forall>k. map_option n_kind (graph_node (en_graph g6) k) = map_option n_kind (graph_node (en_graph g5) k)"
    using quiet_set[OF g5(1) _ _ assms(4), of 3] by meson
  note top = same_topology_trans[OF same_topology_trans[OF g4(3) g5(3)] g6(3)]
  have k6: "\<forall>k. map_option n_kind (graph_node (en_graph g6) k)
      = (if k = 1 \<or> k = 2 then Some Input else if k = 3 then Some (Computed r) else None)"
    using k3 g4(5) g5(5) g6(5) by simp
  have t6: "deps_of (en_deps g6) k = {}" "ordered_deps_of (en_deps g6) k = []" "graph_edge (en_graph g6) k = None" for k
    using t3 same_topology_queries[OF top] g4(4) g5(4) g6(4) by simp_all
  obtain g7 where g7: "built S g7" "en_world g7 = connect ((en_world g6)\<lparr>w_graph := add_edge (en_graph g6)
      \<lparr>e_id = 4, e_typ = ''dep'', e_src = 1, e_tgt = 3, e_dep = Local None, e_attrs = attrs_new\<rparr>\<rparr>) 1 3"
    using connect_world[OF g6(1), of 1 3 4] l[OF k6] t6 by (simp, meson)
  have k7: "\<forall>k. map_option n_kind (graph_node (en_graph g7) k)
      = (if k = 1 \<or> k = 2 then Some Input else if k = 3 then Some (Computed r) else None)"
    using k6 by (simp add: g7(2))
  have o: "ordered_deps_of (w_deps (connect (W\<lparr>w_graph := G\<rparr>) a b)) k
      = (if k = b then ordered_deps_of (w_deps W) k @ [a] else ordered_deps_of (w_deps W) k)" for W G a b k
    by (simp add: connect_def Let_def registry_subscribe_def split: option.split)
  have t7: "deps_of (en_deps g7) 3 = {1}" "ordered_deps_of (en_deps g7) k = (if k = 3 then [1] else [])"
    "graph_edge (en_graph g7) 5 = None" for k
    using t6 by (simp_all add: g7(2) o)
  obtain g8 where g8: "built S g8" "en_world g8 = connect ((en_world g7)\<lparr>w_graph := add_edge (en_graph g7)
      \<lparr>e_id = 5, e_typ = ''dep'', e_src = 2, e_tgt = 3, e_dep = Local None, e_attrs = attrs_new\<rparr>\<rparr>) 2 3"
    using connect_world[OF g7(1), of 2 3 5] l[OF k7] t7 by (simp, meson)
  have "w_value (en_world g8) k = w_value (en_world g6) k" for k by (simp add: w_value_def g8(2) g7(2))
  then show ?thesis
    using g8(1) k7 t7(2) g4(2) g5(2) g6(2) by (intro exI[of _ g8]) (simp add: g8(2) o)
qed

lemma demo_gate_settled:
  assumes "compute_rule_named rule = Some r" "py_to_t x = Inr u" "py_to_t y = Inr v" "py_to_t z = Inr w"
    and "push_target r [u, v] w = w"
  obtains g n where "built S g" "graph_node (en_graph g) 3 = Some n" "n_kind n = Computed r"
    "ordered_deps_of (en_deps g) 3 = [1, 2]" "deps_of (en_deps g) 3 = {1, 2}" "is_input (en_world g) 1" "\<forall>x. current (en_world g) x"
    "py_get 1 g = Inr (t_to_py u)" "py_get 2 g = Inr (t_to_py v)" "py_get 3 g = Inr (t_to_py w)" "live g 1" "live g 3" "\<not> live g 9"
proof -
  obtain g where g: "built S g" "\<And>k. map_option n_kind (graph_node (en_graph g) k)
        = (if k = 1 \<or> k = 2 then Some Input else if k = 3 then Some (Computed r) else None)"
    "\<And>k. ordered_deps_of (en_deps g) k = (if k = 3 then [1, 2] else [])"
    "w_value (en_world g) 1 = u" "w_value (en_world g) 2 = v" "w_value (en_world g) 3 = w"
    using demo_gate[OF assms(1-4), of S] by (elim exE conjE) (simp add: that)
  have ok: "py_ok g" by (rule built_ok[OF g(1)])
  have live: "live g k \<longleftrightarrow> k \<in> {1, 2, 3}" for k using g(2)[of k] by (auto simp: live_def split: if_splits)
  obtain n where n: "graph_node (en_graph g) 3 = Some n" "n_kind n = Computed r" using g(2)[of 3] by auto
  have i: "is_input (en_world g) 1" using g(2)[of 1] by (auto simp: is_input_def)
  have c: "current (en_world g) k" for k using g(2)[of k] assms(5) by (auto simp: current_def dep_values_def g(3-6))
  have "deps_of (en_deps g) 3 = set (ordered_deps_of (en_deps g) 3)"
    using ok by (simp add: py_ok_def wired_def world_wf_def simple_deps_def)
  then have d: "deps_of (en_deps g) 3 = {1, 2}" by (simp add: g(3))
  have v: "py_get k g = Inr (t_to_py (w_value (en_world g) k))" if "k \<in> {1, 2, 3}" for k
    using py_value[OF ok] that live by blast
  show ?thesis
    by (rule that[OF g(1) n _ d i])
      (use c v[of 1] v[of 2] v[of 3] live[of 1] live[of 3] live[of 9] in \<open>simp_all add: g(3-6)\<close>)
qed

lemmas gate_facts = compute_rule_named_def py_to_t_def push_target_def or_default_def t_to_py_def meet_def

theorem calls_return_witness:
  "(\<exists>e. py_input (map const_of) 7 ''seven'' graph_init = Some (e, Inr 7) \<and> py_get 7 e = Inr Py_None)
   \<and> (\<exists>e. py_computed (map const_of) 8 ''eight'' ''xor'' True graph_init = Some (e, Inl (ValueError ''xor'')))
   \<and> (\<exists>g. built (map const_of) g \<and> py_get 3 g = Inr (Py_Bool True) \<and> py_get 9 g = Inl KeyError
      \<and> (\<exists>e r. py_set (map const_of) 1 (Py_Bool False) g = Some (e, r) \<and> (r = Inr () \<or> step_limit r)
           \<and> py_get 1 e = Inr (Py_Bool False))
      \<and> (\<exists>e r. py_demand (map const_of) 3 g = Some (e, r) \<and> (step_limit r \<or> r = py_get 3 e))
      \<and> (\<exists>e. py_delete_node (map const_of) 1 g = Some (e, Inr ()) \<and> py_get 1 e = Inl KeyError \<and> py_get 3 e = Inr (Py_Bool True))
      \<and> py_set (map const_of) 9 (Py_Bool True) g = Some (g, Inl (RuntimeError (NodeNotFound 9))))"
proof -
  obtain g n where g: "built (map const_of) g" "py_get 3 g = Inr (Py_Bool True)" "live g 1" "live g 3" "\<not> live g 9" "is_input (en_world g) 1"
    by (rule demo_gate_settled[of "''and''" MeetAll "Py_Bool True" Pos "Py_Bool True" Pos "Py_Bool True" Pos "map const_of"]; (rule that)?;
        (assumption | simp add: gate_facts))
  have n: "st_idx (en_store graph_init) j = None \<and> length (st_cache (en_store graph_init)) < 2 ^ 32 - 1" for j
    by (simp add: graph_init_def engine_new_def)
  note at_new = mp[OF conjunct1[OF calls_return[OF built.init[of "map const_of"]]] n]
  note at_g = calls_return[OF g(1)]
  have a: "\<exists>e. py_input (map const_of) 7 ''seven'' graph_init = Some (e, Inr 7) \<and> py_get 7 e = Inr Py_None"
    using conjunct1[OF at_new[of 7 "''seven''"]] by (elim exE conjE) simp
  have b: "\<exists>e. py_computed (map const_of) 8 ''eight'' ''xor'' True graph_init = Some (e, Inl (ValueError ''xor''))"
    using conjunct2[OF at_new[of 8 "''eight''" "''xor''" True]] by (auto simp: compute_rule_named_def)
  have c: "\<exists>e r. py_set (map const_of) 1 (Py_Bool False) g = Some (e, r) \<and> (r = Inr () \<or> step_limit r)
           \<and> py_get 1 e = Inr (Py_Bool False)"
    using mp[OF conjunct1[OF conjunct2[OF conjunct2[OF at_g]]] g(3), of "Py_Bool False"] g(6) by auto
  have d: "\<exists>e r. py_demand (map const_of) 3 g = Some (e, r) \<and> (step_limit r \<or> r = py_get 3 e)"
    using mp[OF conjunct1[OF conjunct2[OF conjunct2[OF conjunct2[OF at_g]]]] g(4)] by (elim exE conjE) (intro exI conjI, assumption, blast)
  have e: "\<exists>e. py_delete_node (map const_of) 1 g = Some (e, Inr ()) \<and> py_get 1 e = Inl KeyError \<and> py_get 3 e = Inr (Py_Bool True)"
    using conjunct1[OF conjunct2[OF conjunct2[OF conjunct2[OF conjunct2[OF conjunct2[OF conjunct2[OF conjunct2[OF at_g]]]]]]], of 1] g(2)
    by (elim exE conjE) simp
  have f: "py_set (map const_of) 9 (Py_Bool True) g = Some (g, Inl (RuntimeError (NodeNotFound 9)))"
    using mp[OF conjunct2[OF conjunct2[OF conjunct2[OF conjunct2[OF conjunct2[OF conjunct2[OF conjunct2[OF conjunct2[OF at_g]]]]]]]] g(5),
        THEN conjunct1, of "Py_Bool True"] by simp
  have "py_get 9 g = Inl KeyError" using conjunct1[OF conjunct2[OF at_g], of 9] g(5) by simp
  then show ?thesis using a b c d e f g(1,2) by blast
qed

theorem gates_collapse_witness:
  "\<exists>g. built (map const_of) g \<and> py_get 1 g = Inr (Py_Bool True) \<and> py_get 2 g = Inr (Py_Bool False)
     \<and> map_option n_kind (graph_node (en_graph g) 3) = Some (Computed JoinAny) \<and> py_get 3 g = Inr (Py_Bool False)"
proof -
  obtain g n where g: "built (map const_of) g" "graph_node (en_graph g) 3 = Some n" "n_kind n = Computed JoinAny"
    "ordered_deps_of (en_deps g) 3 = [1, 2]" "deps_of (en_deps g) 3 = {1, 2}" "\<forall>x. current (en_world g) x"
    "py_get 1 g = Inr (Py_Bool True)" "py_get 2 g = Inr (Py_Bool False)"
    by (rule demo_gate_settled[of "''or''" JoinAny "Py_Bool True" Pos "Py_Bool False" Zero "Py_Bool False" Zero "map const_of"]; (rule that)?;
        (assumption | simp add: gate_facts))
  have "py_get 3 g = Inr (Py_Bool False)"
    using gates_collapse[OF g(1) _ g(2,3), of "''or''"] g(4-8) by (simp add: compute_rule_named_def)
  then show ?thesis using g(1,2,3,7,8) by auto
qed

theorem clear_is_ignored_witness:
  "\<exists>g e r. built (map const_of) g \<and> py_get 3 g = Inr (Py_Bool True)
     \<and> py_set (map const_of) 1 Py_None g = Some (e, r) \<and> py_get 1 e = Inr Py_None \<and> py_get 3 e = Inr (Py_Bool True)"
proof -
  obtain g n where g: "built (map const_of) g" "py_get 3 g = Inr (Py_Bool True)" "is_input (en_world g) 1" "\<forall>x. current (en_world g) x"
    by (rule demo_gate_settled[of "''and''" MeetAll "Py_Bool True" Pos "Py_Bool True" Pos "Py_Bool True" Pos "map const_of"]; (rule that)?;
        (assumption | simp add: gate_facts))
  obtain e r where "py_set (map const_of) 1 Py_None g = Some (e, r)" "\<forall>k. py_get k e = (if k = 1 then Inr Py_None else py_get k g)"
    using clear_is_ignored[OF g(1,4,3)] by (elim exE conjE) (rule that)
  then show ?thesis using g(1,2) by (intro exI[of _ g] exI[of _ e] exI[of _ r]) simp
qed

end
