(* ===== verification/Spec2Isabelle.thy ===== *)
theory Spec2Isabelle
  imports Pipeline Eclass_Summary Tree_Settle Sim_Properties Binding_Safety
begin

text \<open>
  A verification library for pgress, a reactive graph engine over the three values
  \<open>Neg\<close> (not yet known), \<open>Zero\<close> (in conflict) and \<open>Pos\<close> (known): the crate \<^verbatim>\<open>core-rs\<close>, and on top of
  it the session layer \<^verbatim>\<open>session-rs\<close>.

  \<^bold>\<open>The program.\<close>  An engine owns a graph of input and computed nodes, a dependency registry and a
  dense cache of the values.  Clients send instructions (\<^verbatim>\<open>isa.rs\<close>); a value write is followed by a
  drain, which pushes the change to the subscribers, edge by edge, each edge once per causal time.
  A demand pulls instead.  Sets of nodes can be compiled into arrays and run incrementally, and a
  conflict can be resolved by rewriting the compute rules of a section of the graph.

  \<^bold>\<open>Which theory models which file\<close> (under \<^verbatim>\<open>src/core-rs/src\<close> unless said otherwise).
    \<^item> \<open>Prelude\<close>: the names of the integer types, insertion-ordered association lists for the hash maps
      the code iterates over, the collection \<open>frame_simps\<close>, lemmas the others share.
    \<^item> \<open>Ternary\<close> (\<^verbatim>\<open>ternary.rs\<close>): the value type, its MV-algebra, lattice and Bochvar operations, folds and
      the ready/pending/conflicted classification.  \<open>Prod_Time\<close> (\<^verbatim>\<open>time.rs\<close>): the five-dimensional causal
      clock.  \<open>Delta_Mask\<close> (\<^verbatim>\<open>delta.rs\<close>, \<^verbatim>\<open>mask.rs\<close>): deltas and projection masks.  \<open>Node_Types\<close> (\<^verbatim>\<open>node.rs\<close>, \<^verbatim>\<open>uid.rs\<close>):
      compute rules, ports, modes.
    \<^item> \<open>Authority\<close> (\<^verbatim>\<open>partition.rs\<close>): labels, partitions and the authority gate.  \<open>Sensitivity\<close>
      (\<^verbatim>\<open>sensitivity.rs\<close>, \<^verbatim>\<open>stream.rs\<close>): versioned states, triggers, emission.
    \<^item> \<open>Graph_Store\<close> (\<^verbatim>\<open>attr.rs\<close>, \<^verbatim>\<open>node.rs\<close>, \<^verbatim>\<open>graph.rs\<close>), \<open>Deps\<close> (\<^verbatim>\<open>deps.rs\<close>), \<open>Value_Store\<close> (\<^verbatim>\<open>value_store.rs\<close>): the three
      substrates.  The record \<open>world\<close> of \<open>Propagate\<close> groups them; \<open>world_wf\<close> is their joint invariant.
    \<^item> \<open>Propagate\<close> (\<^verbatim>\<open>propagate.rs\<close>): one push, one demand, the drain.  \<open>Settle\<close>: what a drain achieves.
    \<^item> \<open>Region\<close> (\<^verbatim>\<open>region.rs\<close>) and \<open>Compile\<close> (\<open>compile_region\<close> of \<^verbatim>\<open>engine.rs\<close>): compiled regions.  \<open>Egraph\<close>
      and \<open>Eclass_Summary\<close> (\<^verbatim>\<open>egraph.rs\<close>): structural stabilization.  \<open>Isa\<close> (\<^verbatim>\<open>isa.rs\<close>), \<open>Engine\<close> (\<^verbatim>\<open>engine.rs\<close>): instructions and handlers.
      \<open>Layers\<close>, \<open>Engine_Run\<close> and \<open>Tree_Settle\<close> hold what is proved of the whole engine.

  \<^bold>\<open>The session layer\<close> (under \<^verbatim>\<open>src/session-rs/src\<close>).  Remote clients send a byte stream: a preamble, then
  records of a header and a payload.  A record is decoded, routed through the gates of the session
  runtime, parsed into an instruction and applied by the engine of the shard that holds its partition.
    \<^item> \<open>Opcode_Admission\<close> (\<^verbatim>\<open>opcode.rs\<close>, \<^verbatim>\<open>admission.rs\<close>, \<^verbatim>\<open>recovery.rs\<close>): opcode classes, back pressure, work cursors.
      \<open>Sess_Auth\<close> (\<^verbatim>\<open>auth.rs\<close>): policies, the authority rows and the gate over them.  \<open>Domain\<close> (\<^verbatim>\<open>domain.rs\<close>): tenants,
      sessions, partitions, shards, the fabric.  \<open>Topology\<close> (\<^verbatim>\<open>topology.rs\<close>): the health of shards and placement.
      \<open>Telemetry\<close> (\<^verbatim>\<open>telemetry.rs\<close>): the event ring.  \<open>Session\<close> (\<^verbatim>\<open>session.rs\<close>): sessions, paths and the reaper.
      \<open>Profile\<close> (\<^verbatim>\<open>profile.rs\<close>): profile verification.  \<open>Runtime\<close> (\<^verbatim>\<open>runtime.rs\<close>): the record that joins these,
      and the routing of a record.
    \<^item> \<open>Bytes\<close>: little-endian fields.  \<open>Decode\<close> (\<^verbatim>\<open>decode.rs\<close>): preamble, headers, order checks, profiles.
      \<open>Parse\<close> (the parser of \<^verbatim>\<open>dispatch.rs\<close>) and \<open>Wire\<close> (\<^verbatim>\<open>encode.rs\<close>): payloads from bytes and to bytes;
      \<open>Wire_Codec\<close> and \<open>Wire_Record\<close> prove the round trips.
    \<^item> \<open>Dispatcher\<close> (the rest of \<^verbatim>\<open>dispatch.rs\<close>): one engine per shard and the pipeline from bytes to engine.
      \<open>Dispatch_Safety\<close> proves what the pipeline lets through, \<open>Pipeline\<close> composes it with the engine.
    \<^item> \<open>Simulator\<close> (\<^verbatim>\<open>sim/\<close>): a cluster of runtimes that gossip their pressure over a lossy network;
      \<open>Sim_Properties\<close> proves what its shards come to believe of each other, and the range of its draws.

  \<^bold>\<open>The Python binding.\<close>  \<open>Binding\<close> (\<^verbatim>\<open>src/py/src/lib.rs\<close>): the class \<open>Graph\<close>, one engine whose instructions are
  its methods, with the exceptions they raise.  The random ids of nodes and edges are arguments.
  \<open>Binding_Safety\<close>: the graphs a program can build with it and what its calls return there.

  \<^bold>\<open>Conventions.\<close>  A node or partition id is a \<open>128 word\<close>, a wire id a \<open>64 word\<close>, \<open>usize\<close> is \<open>nat\<close>, other
  machine integers are words and wrap.  A panic is \<open>None\<close>, a \<open>Result\<close> is \<open>error + value\<close>.  A hash map the
  code only looks up is a function to \<open>option\<close>, one it iterates over is an association list whose order
  stands for the iteration order; theorems quantify over the whole state, so over every such order.
  An ordered id set is a \<open>set\<close> walked in ascending order.

  \<^bold>\<open>What is proved.\<close>  For the substrates: two-sidedness of subscriptions, lockstep of the dense index
  lists, counters that count, folds that agree with their bit-parallel versions.  For the drain: one
  push computes the specified value whichever of its three paths it takes, the drain always ends,
  without demands it never reports a step limit, it settles every node except those behind an edge
  that was stamped in the same drain, such a node can indeed be left behind, and none is when no two
  branches below the written source meet again; then the events name each changed node once.  For regions: the
  compiler's arrays are the wiring in topological order, the incremental run equals re-evaluation,
  and it differs from a push.  For stabilization: an accepted section has only the accepted solution,
  the rewrite rules are sound, counters go stale.  For the engine: the layer contract of every
  instruction, a value write from end to end, every error and the state it leaves.

  For the session layer: encoding and decoding are inverse on what the wire can carry, and what it
  loses is stated; a record is admitted exactly when its session, its path, its order, its ceiling
  and its row allow it; every change of an engine comes from one admitted record whose instruction
  was parsed and passed the disclosure check; the tables of sessions, paths and partitions stay
  consistent; an encoded value write settles the engine it reaches.  Several theorems state how far
  the guards reach in practice: a dispatcher that starts empty never denies a record on authority, creating a
  partition again takes it over, the replay floor never moves.  For the simulator: gossip between
  live shards converges within twice the largest delay, a crash is forgotten when gossip is in
  flight, and a random draw can be one, so that a network that drops everything still delivers.  For
  the binding: every call on a graph without parallel edges, regions and stabilizations returns a
  value or one of the documented exceptions, the named rules but \<open>not\<close> agree under a push, and
  clearing an input is not noticed by its dependents.

  \<^bold>\<open>Fuel and bounds.\<close>  The drain's step limit is the program's own.  Building a section's expression
  recurses at most once per member, so the member count plus one is enough fuel, and it is proved
  never to run out.  The warm drain repeats as long as stabilizations are queued; it is a partial
  function, and it is proved to return when no node is in stabilizing mode.  The payload parser reads
  lists whose counts come from the wire, one element per step of a structural recursion on the count.

  \<^bold>\<open>Not modelled.\<close>  The saturation engine \<^verbatim>\<open>egg\<close> is an argument of the definitions that call it, and
  soundness results assume of it only that it merges by the given rules and by constant folding.
  The verification of a signature is an argument too, and a key is a type variable.  Drop
  rates of the simulator are finite.
  Printing, serialization of the core types, random ids, prefetch hints, ratios of statistics, shape hashes,
  benchmarks, the printed forms, the hash and the module registration of the Python binding, the hardware
  and assembly versions are left out.
\<close>

end
